(* ===== verification/Prelude.thy ===== *)
theory Prelude
  imports Main "HOL-Library.Monad_Syntax"
begin

text \<open>
  What the components share: the machine arithmetic of the Rust code (u16 and
  u32 values as naturals with the wrap-around of a release build written out),
  indexed access that fails instead of being unspecified, and the contract of a
  deterministic machine whose operations keep an invariant.

  A function that can panic returns an option, \<open>None\<close> being the panic.
\<close>

section \<open>Collections of the development\<close>

named_theorems arith16 \<open>definitions of the machine arithmetic\<close>
named_theorems paths \<open>facts on pane paths and pane identifiers\<close>
named_theorems wf \<open>well-formedness facts\<close>

section \<open>Machine arithmetic\<close>

definition wrap16 :: "nat \<Rightarrow> nat" where
  [arith16]: "wrap16 n = n mod 65536"

definition wrap32 :: "nat \<Rightarrow> nat" where
  [arith16]: "wrap32 n = n mod 4294967296"

definition add16 :: "nat \<Rightarrow> nat \<Rightarrow> nat" where
  [arith16]: "add16 a b = (a + b) mod 65536"

definition sub16 :: "nat \<Rightarrow> nat \<Rightarrow> nat" where
  [arith16]: "sub16 a b = (a + 65536 - b) mod 65536"

definition sat_add16 :: "nat \<Rightarrow> nat \<Rightarrow> nat" where
  [arith16]: "sat_add16 a b = min 65535 (a + b)"

definition sum16 :: "nat list \<Rightarrow> nat" where
  [arith16]: "sum16 xs = sum_list xs mod 65536"

lemma wrap16_less [simp]: "wrap16 n < 65536"
  by (simp add: wrap16_def)

lemma wrap16_small [simp]: "n < 65536 \<Longrightarrow> wrap16 n = n"
  by (simp add: wrap16_def)

lemma wrap32_small [simp]: "n < 4294967296 \<Longrightarrow> wrap32 n = n"
  by (simp add: wrap32_def)

lemma add16_small [simp]: "a + b < 65536 \<Longrightarrow> add16 a b = a + b"
  by (simp add: add16_def)

lemma add16_less [simp]: "add16 a b < 65536"
  by (simp add: add16_def)

lemma sub16_small [simp]: "b \<le> a \<Longrightarrow> a < 65536 \<Longrightarrow> sub16 a b = a - b"
  unfolding sub16_def
  by (subst Nat.add_diff_assoc2 [symmetric], assumption, subst mod_add_self2, rule mod_less, arith)

lemma sub16_less [simp]: "sub16 a b < 65536"
  by (simp add: sub16_def)

lemma sum16_small [simp]: "sum_list xs < 65536 \<Longrightarrow> sum16 xs = sum_list xs"
  by (simp add: sum16_def)

lemma mul_u16_no_overflow:
  fixes a b :: nat
  assumes "a < 65536" "b < 65536"
  shows "a * b < 4294967296"
proof -
  have "a * b \<le> 65535 * 65535"
    using assms by (intro mult_le_mono) auto
  then show ?thesis by simp
qed

section \<open>Indexed access\<close>

definition get :: "'a list \<Rightarrow> nat \<Rightarrow> 'a option" where
  "get xs i = (if i < length xs then Some (xs ! i) else None)"

fun position :: "('a \<Rightarrow> bool) \<Rightarrow> 'a list \<Rightarrow> nat option" where
  "position p [] = None"
| "position p (x # xs) = (if p x then Some 0 else map_option Suc (position p xs))"

fun find_map :: "('a \<Rightarrow> 'b option) \<Rightarrow> 'a list \<Rightarrow> 'b option" where
  "find_map f [] = None"
| "find_map f (x # xs) = (case f x of None \<Rightarrow> find_map f xs | Some y \<Rightarrow> Some y)"

definition drop_nth :: "nat \<Rightarrow> 'a list \<Rightarrow> 'a list" where
  "drop_nth i xs = take i xs @ drop (Suc i) xs"

definition insert_nth :: "nat \<Rightarrow> 'a \<Rightarrow> 'a list \<Rightarrow> 'a list" where
  "insert_nth i x xs = take i xs @ x # drop i xs"

lemma get_Some: "get xs i = Some x \<longleftrightarrow> i < length xs \<and> xs ! i = x"
  by (auto simp: get_def)

lemma get_Nil [simp]: "get [] i = None"
  by (simp add: get_def)

lemma get_Cons_0 [simp]: "get (x # xs) 0 = Some x"
  by (simp add: get_def)

lemma get_Cons_Suc [simp]: "get (x # xs) (Suc i) = get xs i"
  by (simp add: get_def)

lemma position_Some:
  "position p xs = Some i \<Longrightarrow> i < length xs \<and> p (xs ! i) \<and> (\<forall>j<i. \<not> p (xs ! j))"
  by (induction xs arbitrary: i) (auto simp: nth_Cons split: if_splits nat.splits)

lemma position_None: "position p xs = None \<longleftrightarrow> (\<forall>x\<in>set xs. \<not> p x)"
  by (induction xs) auto

lemma find_map_Some: "find_map f xs = Some y \<Longrightarrow> \<exists>x\<in>set xs. f x = Some y"
  by (induction xs) (auto split: option.splits)

lemma find_map_None: "find_map f xs = None \<longleftrightarrow> (\<forall>x\<in>set xs. f x = None)"
  by (induction xs) (auto split: option.splits)

lemma length_drop_nth: "i < length xs \<Longrightarrow> length (drop_nth i xs) = length xs - 1"
  by (simp add: drop_nth_def)

lemma length_insert_nth: "i \<le> length xs \<Longrightarrow> length (insert_nth i x xs) = Suc (length xs)"
  by (simp add: insert_nth_def)

lemma set_drop_nth_subset: "set (drop_nth i xs) \<subseteq> set xs"
  by (auto simp: drop_nth_def dest: in_set_takeD in_set_dropD)

section \<open>Machines that keep an invariant\<close>

text \<open>
  Several components are deterministic machines driven by a sequence of
  operations. The contract says that every operation keeps the invariant; the
  consequence, that every run keeps it, is proved once.
\<close>

locale machine =
  fixes step :: "'s \<Rightarrow> 'e \<Rightarrow> 's"
    and inv :: "'s \<Rightarrow> bool"
  assumes step_inv: "inv s \<Longrightarrow> inv (step s e)"
begin

lemma run_inv: "inv s \<Longrightarrow> inv (fold (\<lambda>e s. step s e) es s)"
  by (induction es arbitrary: s) (auto intro: step_inv)

lemma run_prefix_inv:
  "inv s \<Longrightarrow> inv (fold (\<lambda>e s. step s e) (take n es) s)"
  by (rule run_inv)

end

section \<open>Loops whose steps may fail\<close>

text \<open>A loop that runs a step that may panic a number of times, or over a list.\<close>

fun repeat_opt :: "nat \<Rightarrow> ('a \<Rightarrow> 'a option) \<Rightarrow> 'a \<Rightarrow> 'a option" where
  "repeat_opt 0 f x = Some x"
| "repeat_opt (Suc n) f x = (case f x of None \<Rightarrow> None | Some y \<Rightarrow> repeat_opt n f y)"

fun each_opt :: "('i \<Rightarrow> 'a \<Rightarrow> 'a option) \<Rightarrow> 'i list \<Rightarrow> 'a \<Rightarrow> 'a option" where
  "each_opt f [] x = Some x"
| "each_opt f (i # js) x = (case f i x of None \<Rightarrow> None | Some y \<Rightarrow> each_opt f js y)"

lemma repeat_opt_inv:
  assumes "\<And>x. I x \<Longrightarrow> \<exists>y. f x = Some y \<and> I y" "I x"
  shows "\<exists>y. repeat_opt n f x = Some y \<and> I y"
  using assms(2)
proof (induction n arbitrary: x)
  case (Suc n)
  with assms(1) [of x] show ?case by auto
qed simp

lemma each_opt_inv:
  assumes "\<And>i x. i \<in> set js \<Longrightarrow> I x \<Longrightarrow> \<exists>y. f i x = Some y \<and> I y" "I x"
  shows "\<exists>y. each_opt f js x = Some y \<and> I y"
  using assms
proof (induction js arbitrary: x)
  case (Cons i js)
  from Cons.prems(1) [of i x] Cons.prems(2) obtain y where "f i x = Some y" "I y" by auto
  with Cons.IH [of y] Cons.prems(1) show ?case by simp
qed simp

lemma each_opt_append:
  "each_opt f (js @ ks) x = Option.bind (each_opt f js x) (each_opt f ks)"
  by (induction js arbitrary: x) (auto split: option.split)

text \<open>
  The contract of a machine whose steps can fail: as long as every operation is one the state
  allows, no step fails and the invariant holds.
\<close>

locale safe_machine =
  fixes step :: "'e \<Rightarrow> 's \<Rightarrow> 's option"
    and inv :: "'s \<Rightarrow> bool"
    and allowed :: "'e \<Rightarrow> 's \<Rightarrow> bool"
  assumes step_safe: "inv s \<Longrightarrow> allowed e s \<Longrightarrow> \<exists>s'. step e s = Some s' \<and> inv s'"
begin

fun allowed_run :: "'e list \<Rightarrow> 's \<Rightarrow> bool" where
  "allowed_run [] s = True"
| "allowed_run (e # es) s = (allowed e s \<and> (case step e s of None \<Rightarrow> True | Some s' \<Rightarrow> allowed_run es s'))"

lemma run_safe: "inv s \<Longrightarrow> allowed_run es s \<Longrightarrow> \<exists>s'. each_opt step es s = Some s' \<and> inv s'"
proof (induction es arbitrary: s)
  case (Cons e es)
  with step_safe [of s e] show ?case by auto
qed simp

lemma run_safe_always:
  assumes "inv s" "\<And>e s. e \<in> set es \<Longrightarrow> inv s \<Longrightarrow> allowed e s"
  shows "\<exists>s'. each_opt step es s = Some s' \<and> inv s'"
  using assms by (intro each_opt_inv) (auto intro: step_safe)

end

end
