(* ===== verification/Pane_Tree.thy ===== *)
theory Pane_Tree
  imports Prelude
begin

text \<open>
  The pane tree of one window (core/src/types.rs, core/src/tree.rs): panes are the
  leaves, a split holds its children side by side (horizontal) or stacked
  (vertical) with one share per child. A path is the list of child indices from
  the root. Killing a process is an effect on the operating system: an operation
  that kills returns the identifiers of the panes whose process trees it killed,
  in order. \<open>None\<close> as the outermost result is a panic (an index out of range or a
  division by zero).

  The abstraction function \<open>leaves\<close> lists the panes with their paths, left to
  right; the searches of the code are characterised over it.
\<close>

section \<open>Data\<close>

datatype layout_kind = Horizontal | Vertical

text \<open>
  The fields of a pane that the layout code reads or writes. \<open>term_rows\<close> and
  \<open>term_cols\<close> are the size of the pane's terminal screen, \<open>pty_rows\<close> and
  \<open>pty_cols\<close> the size last sent to its pseudo console.
\<close>

record pane =
  pane_id :: nat
  title :: string
  dead :: bool
  last_rows :: nat
  last_cols :: nat
  term_rows :: nat
  term_cols :: nat
  pty_rows :: nat
  pty_cols :: nat

datatype node = Leaf pane | Split layout_kind "nat list" "node list"

type_synonym path = "nat list"

definition usize_max :: nat where
  "usize_max = 18446744073709551615"

section \<open>Counting and collecting\<close>

fun count_panes :: "node \<Rightarrow> nat" and count_panes_list :: "node list \<Rightarrow> nat" where
  "count_panes (Leaf p) = 1"
| "count_panes (Split k ss cs) = count_panes_list cs"
| "count_panes_list [] = 0"
| "count_panes_list (c # cs) = count_panes c + count_panes_list cs"

lemmas node_induct = count_panes_count_panes_list.induct

fun count_dead_panes :: "node \<Rightarrow> nat" and count_dead_panes_list :: "node list \<Rightarrow> nat" where
  "count_dead_panes (Leaf p) = (if dead p then 1 else 0)"
| "count_dead_panes (Split k ss cs) = count_dead_panes_list cs"
| "count_dead_panes_list [] = 0"
| "count_dead_panes_list (c # cs) = count_dead_panes c + count_dead_panes_list cs"

fun panes_of :: "node \<Rightarrow> pane list" and panes_of_list :: "node list \<Rightarrow> pane list" where
  "panes_of (Leaf p) = [p]"
| "panes_of (Split k ss cs) = panes_of_list cs"
| "panes_of_list [] = []"
| "panes_of_list (c # cs) = panes_of c @ panes_of_list cs"

definition for_each_pane :: "(pane \<Rightarrow> 's \<Rightarrow> 's) \<Rightarrow> node \<Rightarrow> 's \<Rightarrow> 's" where
  "for_each_pane f n s = fold f (panes_of n) s"

definition collect_pane_ids :: "node \<Rightarrow> nat list" where
  "collect_pane_ids n = map pane_id (panes_of n)"

definition collect_leaves :: "node \<Rightarrow> node list" where
  "collect_leaves n = map Leaf (panes_of n)"

definition get_pane_position_in_window :: "node \<Rightarrow> nat \<Rightarrow> nat option" where
  "get_pane_position_in_window n target = position (\<lambda>i. i = target) (collect_pane_ids n)"

definition get_nth_pane :: "node \<Rightarrow> nat \<Rightarrow> pane option" where
  "get_nth_pane n i = get (panes_of n) i"

section \<open>Paths\<close>

text \<open>
  \<open>node_at\<close> follows a path as \<open>get_split_mut\<close> does, \<open>update_at\<close> writes through the
  mutable reference it returns.
\<close>

fun node_at :: "node \<Rightarrow> path \<Rightarrow> node option" where
  "node_at n [] = Some n"
| "node_at (Split k ss cs) (i # path) = (if i < length cs then node_at (cs ! i) path else None)"
| "node_at (Leaf p) (i # path) = None"

fun update_at :: "(node \<Rightarrow> node) \<Rightarrow> node \<Rightarrow> path \<Rightarrow> node" where
  "update_at f n [] = f n"
| "update_at f (Split k ss cs) (i # path) =
     (if i < length cs then Split k ss (cs[i := update_at f (cs ! i) path]) else Split k ss cs)"
| "update_at f (Leaf p) (i # path) = Leaf p"

definition active_pane_mut :: "node \<Rightarrow> path \<Rightarrow> pane option" where
  "active_pane_mut n path = (case node_at n path of Some (Leaf p) \<Rightarrow> Some p | _ \<Rightarrow> None)"

definition path_exists :: "node \<Rightarrow> path \<Rightarrow> bool" where
  "path_exists n path = (node_at n path \<noteq> None)"

definition split_sizes_at :: "node \<Rightarrow> path \<Rightarrow> nat \<Rightarrow> (nat \<times> nat) option" where
  "split_sizes_at n path idx =
     (case node_at n path of
        Some (Split k ss cs) \<Rightarrow> if idx + 1 < length ss then Some (ss ! idx, ss ! (idx + 1)) else None
      | _ \<Rightarrow> None)"

fun first_leaf :: "node \<Rightarrow> path option" and first_leaf_list :: "node list \<Rightarrow> nat \<Rightarrow> path option" where
  "first_leaf (Leaf p) = Some []"
| "first_leaf (Split k ss cs) = first_leaf_list cs 0"
| "first_leaf_list [] i = None"
| "first_leaf_list (c # cs) i =
     (case first_leaf c of Some p \<Rightarrow> Some (i # p) | None \<Rightarrow> first_leaf_list cs (Suc i))"

definition first_leaf_path :: "node \<Rightarrow> path" where
  "first_leaf_path n = (case first_leaf n of Some p \<Rightarrow> p | None \<Rightarrow> [])"

fun find_path_by_id :: "node \<Rightarrow> nat \<Rightarrow> path option"
  and find_path_by_id_list :: "node list \<Rightarrow> nat \<Rightarrow> nat \<Rightarrow> path option" where
  "find_path_by_id (Leaf p) x = (if pane_id p = x then Some [] else None)"
| "find_path_by_id (Split k ss cs) x = find_path_by_id_list cs x 0"
| "find_path_by_id_list [] x i = None"
| "find_path_by_id_list (c # cs) x i =
     (case find_path_by_id c x of Some p \<Rightarrow> Some (i # p) | None \<Rightarrow> find_path_by_id_list cs x (Suc i))"

fun collect_leaf_paths :: "node \<Rightarrow> (nat \<times> path) list"
  and collect_leaf_paths_list :: "node list \<Rightarrow> nat \<Rightarrow> (nat \<times> path) list" where
  "collect_leaf_paths (Leaf p) = [(pane_id p, [])]"
| "collect_leaf_paths (Split k ss cs) = collect_leaf_paths_list cs 0"
| "collect_leaf_paths_list [] i = []"
| "collect_leaf_paths_list (c # cs) i =
     map (\<lambda>(x, p). (x, i # p)) (collect_leaf_paths c) @ collect_leaf_paths_list cs (Suc i)"

definition next_leaf_path :: "node \<Rightarrow> path \<Rightarrow> path option" where
  "next_leaf_path n active =
     (let ls = collect_leaf_paths n
      in if length ls \<le> 1 then None
         else let pos = (case position (\<lambda>(x, p). p = active) ls of Some i \<Rightarrow> i | None \<Rightarrow> 0);
                  next = (if pos + 1 < length ls then pos + 1 else pos - 1)
              in Some (snd (ls ! next)))"

text \<open>
  The identifier of the active pane: the path is followed while it can be, then
  the first child is taken.
\<close>

fun get_active_pane_id :: "node \<Rightarrow> path \<Rightarrow> nat option"
  and first_child_id :: "node list \<Rightarrow> nat option"
  and child_active_id :: "node list \<Rightarrow> nat \<Rightarrow> path \<Rightarrow> nat option option" where
  "get_active_pane_id (Leaf p) path = Some (pane_id p)"
| "get_active_pane_id (Split k ss cs) [] = first_child_id cs"
| "get_active_pane_id (Split k ss cs) (i # path) =
     (case child_active_id cs i path of Some r \<Rightarrow> r | None \<Rightarrow> first_child_id cs)"
| "first_child_id [] = None"
| "first_child_id (c # cs) = get_active_pane_id c []"
| "child_active_id [] i path = None"
| "child_active_id (c # cs) 0 path = Some (get_active_pane_id c path)"
| "child_active_id (c # cs) (Suc i) path = child_active_id cs i path"

text \<open>
  The shared reference to the active pane clamps each index to the last child;
  indexing the children of an empty split panics.
\<close>

fun active_pane :: "node \<Rightarrow> path \<Rightarrow> pane option option" where
  "active_pane (Leaf p) path = Some (Some p)"
| "active_pane (Split k ss cs) [] = Some None"
| "active_pane (Split k ss cs) (i # path) =
     (let idx = min i (length cs - 1)
      in if idx < length cs then active_pane (cs ! idx) path else None)"

definition pane_index_in_window :: "node \<Rightarrow> path \<Rightarrow> nat option option" where
  "pane_index_in_window n path =
     (case active_pane n path of
        None \<Rightarrow> None
      | Some None \<Rightarrow> Some None
      | Some (Some target) \<Rightarrow> Some (position (\<lambda>p. pane_id p = pane_id target) (panes_of n)))"

section \<open>Most recently used panes\<close>

definition touch_mru :: "nat list \<Rightarrow> nat \<Rightarrow> nat list" where
  "touch_mru mru x =
     x # (case position (\<lambda>i. i = x) mru of Some i \<Rightarrow> drop_nth i mru | None \<Rightarrow> mru)"

definition remove_from_mru :: "nat list \<Rightarrow> nat \<Rightarrow> nat list" where
  "remove_from_mru mru x = filter (\<lambda>i. i \<noteq> x) mru"

definition mru_rank :: "nat list \<Rightarrow> nat \<Rightarrow> nat" where
  "mru_rank mru x = (case position (\<lambda>i. i = x) mru of Some i \<Rightarrow> i | None \<Rightarrow> usize_max)"

section \<open>Killing, splitting, removing, extracting\<close>

definition kill_all_children :: "node \<Rightarrow> nat list" where
  "kill_all_children n = map pane_id (panes_of n)"

definition kill_node :: "node \<Rightarrow> nat list" where
  "kill_node n =
     (case n of Leaf p \<Rightarrow> [pane_id p] | Split k ss cs \<Rightarrow> concat (map kill_all_children cs))"

fun replace_leaf_with_split :: "node \<Rightarrow> path \<Rightarrow> layout_kind \<Rightarrow> node \<Rightarrow> (node \<times> nat list) option" where
  "replace_leaf_with_split n [] kind new = Some (Split kind [50, 50] [n, new], [])"
| "replace_leaf_with_split (Split k ss cs) (i # path) kind new =
     (if i < length cs
      then do { (c, killed) \<leftarrow> replace_leaf_with_split (cs ! i) path kind new;
                Some (Split k ss (cs[i := c]), killed) }
      else None)"
| "replace_leaf_with_split (Leaf p) (i # path) kind new = Some (Leaf p, kill_node new)"

text \<open>
  The shares a rebuilt split gets: \<open>100 / n as u16\<close> for each child, the remainder
  added to the last one.
\<close>

definition bump_last :: "nat \<Rightarrow> nat list \<Rightarrow> nat list" where
  "bump_last rem xs =
     (if xs = [] then [] else butlast xs @ [add16 (last xs) rem])"

definition even_shares :: "nat \<Rightarrow> nat list option" where
  "even_shares n =
     (if wrap16 n = 0 then None
      else let eq = replicate n (100 div wrap16 n) in Some (bump_last (sub16 100 (sum16 eq)) eq))"

definition rebuild_split :: "layout_kind \<Rightarrow> node list \<Rightarrow> node option" where
  "rebuild_split k cs =
     (if length cs = 1 then Some (hd cs)
      else do { eq \<leftarrow> even_shares (length cs); Some (Split k eq cs) })"

fun remove_node :: "node \<Rightarrow> path \<Rightarrow> (node \<times> nat list) option"
  and remove_child :: "node list \<Rightarrow> nat \<Rightarrow> path \<Rightarrow> (node list \<times> nat list) option" where
  "remove_node (Leaf p) path = Some (Leaf p, [])"
| "remove_node (Split k ss cs) [] = Some (Split k ss cs, [])"
| "remove_node (Split k ss cs) (i # path) =
     do { (cs', killed) \<leftarrow> remove_child cs i path;
          n \<leftarrow> rebuild_split k cs';
          Some (n, killed) }"
| "remove_child [] i path = Some ([], [])"
| "remove_child (c # cs) 0 path =
     (if path \<noteq> []
      then do { (c', killed) \<leftarrow> remove_node c path; Some (c' # cs, killed) }
      else Some (cs, kill_node c))"
| "remove_child (c # cs) (Suc i) path =
     do { (cs', killed) \<leftarrow> remove_child cs i path; Some (c # cs', killed) }"

definition kill_leaf :: "node \<Rightarrow> path \<Rightarrow> (node \<times> nat list) option" where
  "kill_leaf n path = remove_node n path"

definition rebuild_option :: "layout_kind \<Rightarrow> node list \<Rightarrow> node option option" where
  "rebuild_option k cs =
     (if cs = [] then Some None else map_option Some (rebuild_split k cs))"

fun extract_node :: "node \<Rightarrow> path \<Rightarrow> (node option \<times> node option) option"
  and extract_child :: "node list \<Rightarrow> nat \<Rightarrow> path \<Rightarrow> (node list \<times> node option) option" where
  "extract_node n [] = Some (None, Some n)"
| "extract_node (Leaf p) (i # path) = Some (Some (Leaf p), None)"
| "extract_node (Split k ss cs) (i # path) =
     (if i \<ge> length cs then Some (Some (Split k ss cs), None)
      else do { (cs', ext) \<leftarrow> extract_child cs i path;
                tree \<leftarrow> rebuild_option k cs';
                Some (tree, ext) })"
| "extract_child [] i path = Some ([], None)"
| "extract_child (c # cs) 0 path =
     do { (rem, ext) \<leftarrow> extract_node c path;
          Some ((case rem of Some r \<Rightarrow> r # cs | None \<Rightarrow> cs), ext) }"
| "extract_child (c # cs) (Suc i) path =
     do { (cs', ext) \<leftarrow> extract_child cs i path; Some (c # cs', ext) }"

section \<open>Pruning exited panes\<close>

datatype pane_exit_action = PrunePane | MarkDeadPane

definition classify_pane_exit :: "bool \<Rightarrow> pane_exit_action" where
  "classify_pane_exit remain = (if remain then MarkDeadPane else PrunePane)"

text \<open>
  The shares of the surviving children: kept when they still sum to 100, spread
  evenly when they are all zero, scaled to 100 otherwise.
\<close>

definition rescale_shares :: "nat list \<Rightarrow> nat list option" where
  "rescale_shares ss =
     (let total = sum16 ss
      in if total = 100 then Some ss
         else if total = 0 then even_shares (length ss)
         else let scaled = map (\<lambda>s. wrap16 (wrap32 (s * 100) div total)) ss
              in Some (bump_last (100 - sum16 scaled) scaled))"

text \<open>
  \<open>exited p\<close> is the answer of \<open>try_wait\<close> on the process of \<open>p\<close>, which the
  operating system gives.
\<close>

fun prune_exited :: "(pane \<Rightarrow> bool) \<Rightarrow> node \<Rightarrow> bool \<Rightarrow> node option option"
  and prune_children :: "(pane \<Rightarrow> bool) \<Rightarrow> node list \<Rightarrow> nat list \<Rightarrow> bool \<Rightarrow> (node list \<times> nat list) option"
where
  "prune_exited exited (Leaf p) remain =
     (if dead p then Some (Some (Leaf p))
      else if exited p
      then (case classify_pane_exit remain of
              MarkDeadPane \<Rightarrow> Some (Some (Leaf (p\<lparr>dead := True\<rparr>)))
            | PrunePane \<Rightarrow> Some None)
      else Some (Some (Leaf p)))"
| "prune_exited exited (Split k ss cs) remain =
     do { (cs', ss') \<leftarrow> prune_children exited cs ss remain;
          if cs' = [] then Some None
          else if length cs' = 1 then Some (Some (hd cs'))
          else do { sz \<leftarrow> rescale_shares ss'; Some (Some (Split k sz cs')) } }"
| "prune_children exited [] ss remain = Some ([], [])"
| "prune_children exited (c # cs) ss remain =
     do { r \<leftarrow> prune_exited exited c remain;
          (cs', ss') \<leftarrow> prune_children exited cs (tl ss) remain;
          Some (case r of
                  None \<Rightarrow> (cs', ss')
                | Some c' \<Rightarrow> (c' # cs', (case ss of [] \<Rightarrow> 0 | s # _ \<Rightarrow> s) # ss')) }"

definition has_any_exited :: "(pane \<Rightarrow> bool) \<Rightarrow> node \<Rightarrow> bool" where
  "has_any_exited exited n = list_ex (\<lambda>p. \<not> dead p \<and> exited p) (panes_of n)"

end
