(* ===== verification/Pane_Paths.thy ===== *)
theory Pane_Paths
  imports Pane_Tree
begin

text \<open>
  The abstraction of a pane tree as the list of its panes with their paths, and the
  facts that characterise the path searches and the structural edits of
  core/src/tree.rs over it: a search finds the first leaf in order, an edit removes,
  inserts or keeps whole blocks of panes and keeps the tree well formed.
\<close>

section \<open>The leaves of a tree\<close>

fun leaves :: "node \<Rightarrow> (path \<times> pane) list" and leaves_list :: "node list \<Rightarrow> nat \<Rightarrow> (path \<times> pane) list" where
  "leaves (Leaf p) = [([], p)]"
| "leaves (Split k ss cs) = leaves_list cs 0"
| "leaves_list [] i = []"
| "leaves_list (c # cs) i = map (\<lambda>(path, p). (i # path, p)) (leaves c) @ leaves_list cs (Suc i)"

lemma map_snd_leaves [simp]:
  "map snd (leaves n) = panes_of n"
  "map snd (leaves_list cs i) = panes_of_list cs"
  by (induction n and cs arbitrary: and i rule: node_induct) (auto simp: comp_def case_prod_unfold)

lemma collect_leaf_paths_leaves:
  "collect_leaf_paths n = map (\<lambda>(path, p). (pane_id p, path)) (leaves n)"
  "collect_leaf_paths_list cs i = map (\<lambda>(path, p). (pane_id p, path)) (leaves_list cs i)"
  by (induction n and cs arbitrary: and i rule: node_induct) (auto simp: comp_def case_prod_unfold)

lemma leaves_list_head: "(path, p) \<in> set (leaves_list cs i) \<Longrightarrow> \<exists>j q. path = (i + j) # q \<and> j < length cs"
proof (induction cs arbitrary: i)
  case (Cons c cs)
  then show ?case
    by (fastforce dest: Cons.IH simp: intro: exI [of _ "Suc _"] exI [of _ 0])
qed simp

lemma in_leaves [paths]:
  "(path, p) \<in> set (leaves n) \<longleftrightarrow> node_at n path = Some (Leaf p)"
  "(j # path, p) \<in> set (leaves_list cs i) \<longleftrightarrow>
     i \<le> j \<and> j - i < length cs \<and> node_at (cs ! (j - i)) path = Some (Leaf p)"
proof (induction n and cs arbitrary: path and i j path rule: node_induct)
  case (1 q)
  then show ?case by (cases path) auto
next
  case (2 k ss cs)
  show ?case
  proof (cases path)
    case Nil
    then show ?thesis by (auto dest: leaves_list_head)
  next
    case (Cons a list)
    with 2 [of a list 0] show ?thesis by auto
  qed
next
  case 3
  then show ?case by simp
next
  case (4 c cs)
  have head: "(j # path, p) \<in> (\<lambda>(path, p). (i # path, p)) ` set (leaves c) \<longleftrightarrow>
      i = j \<and> node_at c path = Some (Leaf p)"
    using 4(1) [of path] by (force simp: image_def)
  consider "j < i" | "j = i" | "i < j" by linarith
  then show ?case
  proof cases
    case 3
    then have "j - i = Suc (j - Suc i)" by simp
    with 3 head 4(2) [of j path "Suc i"] show ?thesis by simp
  qed (use 4(2) [of j path "Suc i"] head in simp_all)
qed

lemma leaves_list_range: "path \<in> set (map fst (leaves_list cs i)) \<Longrightarrow> \<exists>j q. path = j # q \<and> i \<le> j"
  by (auto dest: leaves_list_head)

lemma distinct_leaves [paths]:
  "distinct (map fst (leaves n))"
  "distinct (map fst (leaves_list cs i))"
proof (induction n and cs arbitrary: and i rule: node_induct)
  case (4 c cs)
  have inj: "map fst (map (\<lambda>(path, p). (i # path, p)) (leaves c)) = map ((#) i) (map fst (leaves c))"
    by (auto simp: comp_def case_prod_unfold)
  have "set (map ((#) i) (map fst (leaves c))) \<inter> set (map fst (leaves_list cs (Suc i))) = {}"
    by (auto dest!: leaves_list_head)
  then show ?case
    using 4 by (simp only: leaves_list.simps map_append inj distinct_append distinct_map) (auto simp: inj_on_def)
qed auto

lemma set_panes_of: "set (panes_of n) = snd ` set (leaves n)"
  by (metis map_snd_leaves(1) set_map)

section \<open>Searches\<close>

lemma find_map_append:
  "find P (xs @ ys) = (case find P xs of None \<Rightarrow> find P ys | Some x \<Rightarrow> Some x)"
  by (induction xs) auto

lemma find_mapped: "find P (map f xs) = map_option f (find (P \<circ> f) xs)"
  by (induction xs) auto

lemma find_path_by_id_leaves:
  "find_path_by_id n x = map_option fst (find (\<lambda>(path, p). pane_id p = x) (leaves n))"
  "find_path_by_id_list cs x i = map_option fst (find (\<lambda>(path, p). pane_id p = x) (leaves_list cs i))"
proof (induction n and cs arbitrary: and i rule: node_induct)
  case (4 c cs)
  have "find ((\<lambda>(path, p). pane_id p = x) \<circ> (\<lambda>(path, p). (i # path, p))) (leaves c) =
      find (\<lambda>(path, p). pane_id p = x) (leaves c)"
    by (rule arg_cong [where f = "\<lambda>P. find P (leaves c)"]) auto
  then show ?case
    by (simp add: 4 find_map_append find_mapped split: option.split)
qed auto

lemma first_leaf_leaves:
  "first_leaf n = (case leaves n of [] \<Rightarrow> None | l # ls \<Rightarrow> Some (fst l))"
  "first_leaf_list cs i = (case leaves_list cs i of [] \<Rightarrow> None | l # ls \<Rightarrow> Some (fst l))"
  by (induction n and cs arbitrary: and i rule: node_induct) (auto split: list.splits option.splits)

lemma find_path_by_id_Some:
  assumes "find_path_by_id n x = Some path"
  shows "\<exists>p. node_at n path = Some (Leaf p) \<and> pane_id p = x"
  using assms by (auto simp: find_path_by_id_leaves find_Some_iff in_leaves [symmetric] in_set_conv_nth)
    (metis case_prodD nth_mem prod.collapse in_leaves(1))

lemma find_path_by_id_None [paths]:
  "find_path_by_id n x = None \<longleftrightarrow> x \<notin> set (collect_pane_ids n)"
  by (force simp: find_path_by_id_leaves find_None_iff collect_pane_ids_def set_panes_of)

lemma child_active_id_nth:
  "child_active_id cs i path = (if i < length cs then Some (get_active_pane_id (cs ! i) path) else None)"
proof (induction cs arbitrary: i)
  case (Cons c cs)
  then show ?case by (cases i) auto
qed simp

lemma get_active_pane_id_leaf [paths]:
  "node_at n path = Some (Leaf p) \<Longrightarrow> get_active_pane_id n path = Some (pane_id p)"
  by (induction n path rule: node_at.induct) (auto simp: child_active_id_nth split: if_splits)

lemma node_at_in_panes:
  assumes "node_at n path = Some (Leaf p)"
  shows "p \<in> set (panes_of n)"
  using assms by (force simp: set_panes_of in_leaves(1) [symmetric])

section \<open>Well-formed trees\<close>

text \<open>
  A split has at least two children, one share per child, and shares whose sum is
  positive and fits a u16.
\<close>

definition shares_ok :: "nat list \<Rightarrow> bool" where
  "shares_ok ss = (0 < sum_list ss \<and> sum_list ss < 65536)"

fun wf_tree :: "node \<Rightarrow> bool" where
  "wf_tree (Leaf p) = True"
| "wf_tree (Split k ss cs) =
     (2 \<le> length cs \<and> length cs < 65536 \<and> length ss = length cs \<and> shares_ok ss \<and> list_all wf_tree cs)"

lemma panes_of_list_concat: "panes_of_list cs = concat (map panes_of cs)"
  by (induction cs) auto

lemma panes_of_nonempty [wf]: "wf_tree n \<Longrightarrow> panes_of n \<noteq> []"
proof (induction n rule: wf_tree.induct)
  case (2 k ss cs)
  then obtain c cs' where "cs = c # cs'" by (cases cs) auto
  with 2 show ?case by simp
qed simp

lemma leaves_nonempty [wf]: "wf_tree n \<Longrightarrow> leaves n \<noteq> []"
  using panes_of_nonempty [of n] map_snd_leaves(1) [of n] by (metis list.map_disc_iff)

lemma first_leaf_path_leaf [wf]:
  assumes "wf_tree n"
  shows "\<exists>p. node_at n (first_leaf_path n) = Some (Leaf p)"
proof -
  obtain l ls where l: "leaves n = l # ls"
    using leaves_nonempty [OF assms] by (cases "leaves n") auto
  then have "(fst l, snd l) \<in> set (leaves n)" by simp
  then have "node_at n (fst l) = Some (Leaf (snd l))" by (simp only: in_leaves)
  with l show ?thesis
    by (auto simp: first_leaf_path_def first_leaf_leaves)
qed

lemma wf_tree_node_at: "wf_tree n \<Longrightarrow> node_at n path = Some m \<Longrightarrow> wf_tree m"
  by (induction n path rule: node_at.induct) (auto simp: list_all_length split: if_splits)

section \<open>Shares\<close>

lemma bump_last_props:
  assumes "xs \<noteq> []" "last xs + r < 65536"
  shows "length (bump_last r xs) = length xs" "sum_list (bump_last r xs) = sum_list xs + r"
proof -
  have "sum_list xs = sum_list (butlast xs) + last xs"
    using assms(1) by (metis append_butlast_last_id sum_list.Cons sum_list.Nil sum_list.append add_0_right)
  then show "sum_list (bump_last r xs) = sum_list xs + r"
    using assms by (simp add: bump_last_def)
  show "length (bump_last r xs) = length xs"
    using assms by (simp add: bump_last_def)
qed

lemma even_shares_props:
  assumes "1 \<le> n" "n < 65536"
  shows "\<exists>ss. even_shares n = Some ss \<and> length ss = n \<and> sum_list ss = 100"
proof -
  let ?eq = "replicate n (100 div n)"
  have sum: "sum_list ?eq \<le> 100" by (simp add: sum_list_replicate)
  have "last ?eq \<le> sum_list ?eq"
    using assms by (cases n) (auto simp: sum_list_replicate)
  then have last: "last ?eq + (100 - sum_list ?eq) < 65536" using sum by linarith
  have sub: "sub16 100 (sum16 ?eq) = 100 - sum_list ?eq" using sum by simp
  show ?thesis
    using assms last sum bump_last_props [of ?eq "100 - sum_list ?eq"]
    by (auto simp: even_shares_def Let_def sub simp del: sum_list_replicate)
qed

lemma shares_ok_100 [simp]: "sum_list ss = 100 \<Longrightarrow> shares_ok ss"
  by (simp add: shares_ok_def)

text \<open>
  A rule that spreads 100 percent over \<open>n\<close> children: the clients that build splits
  rely on nothing else about it.
\<close>

locale share_rule =
  fixes shares :: "nat \<Rightarrow> nat list"
  assumes shares_length: "1 \<le> n \<Longrightarrow> n < 65536 \<Longrightarrow> length (shares n) = n"
    and shares_sum: "1 \<le> n \<Longrightarrow> n < 65536 \<Longrightarrow> sum_list (shares n) = 100"
begin

lemma wf_split:
  assumes "2 \<le> length cs" "length cs < 65536" "list_all wf_tree cs"
  shows "wf_tree (Split k (shares (length cs)) cs)"
  using assms by (simp add: shares_length shares_sum)

end

interpretation even: share_rule "\<lambda>n. the (even_shares n)"
  by unfold_locales (use even_shares_props in fastforce)+

lemma rebuild_split_wf:
  assumes "1 \<le> length cs" "length cs < 65536" "list_all wf_tree cs"
  shows "\<exists>n. rebuild_split k cs = Some n \<and> wf_tree n \<and> panes_of n = panes_of_list cs"
proof (cases "length cs = 1")
  case True
  then obtain c where "cs = [c]" by (cases cs) auto
  with assms show ?thesis by (simp add: rebuild_split_def)
next
  case False
  then have "2 \<le> length cs" using assms by simp
  moreover obtain ss where "even_shares (length cs) = Some ss"
    using even_shares_props assms by blast
  ultimately show ?thesis
    using False assms even.wf_split [of cs k] by (simp add: rebuild_split_def)
qed

end
