(* ===== verification/Pane_Edits.thy ===== *)
theory Pane_Edits
  imports Pane_Paths
begin

text \<open>
  The structural edits of core/src/tree.rs: what \<open>remove_node\<close>, \<open>extract_node\<close>,
  \<open>replace_leaf_with_split\<close> and \<open>prune_exited\<close> do to the panes of a tree, that they
  keep the tree well formed, and that none of them panics on a well-formed tree.
\<close>

section \<open>Children by index\<close>

lemma panes_of_list_append [simp]: "panes_of_list (xs @ ys) = panes_of_list xs @ panes_of_list ys"
  by (induction xs) auto

lemma panes_of_list_split:
  assumes "i < length cs"
  shows "panes_of_list cs =
    panes_of_list (take i cs) @ panes_of (cs ! i) @ panes_of_list (drop (Suc i) cs)"
  by (subst id_take_nth_drop [OF assms]) simp

lemma panes_of_list_update:
  assumes "i < length cs"
  shows "panes_of_list (cs[i := c]) =
    panes_of_list (take i cs) @ panes_of c @ panes_of_list (drop (Suc i) cs)"
  by (simp add: upd_conv_take_nth_drop assms)

lemma kill_node_ids [simp]: "kill_node n = map pane_id (panes_of n)"
  by (cases n)
    (simp_all add: kill_node_def kill_all_children_def [abs_def] panes_of_list_concat map_concat comp_def)

lemma list_all_take_drop:
  "list_all P xs \<Longrightarrow> list_all P (take i xs)"
  "list_all P xs \<Longrightarrow> list_all P (drop i xs)"
  by (auto simp: list_all_iff dest: in_set_takeD in_set_dropD)

lemma list_all_update: "list_all P xs \<Longrightarrow> P x \<Longrightarrow> list_all P (xs[i := x])"
  by (auto simp: list_all_iff dest: set_update_subset_insert [THEN subsetD])

section \<open>Replacing a leaf by a split\<close>

lemma replace_leaf_props:
  assumes "wf_tree n" "wf_tree new" "node_at n path = Some sub"
  shows "\<exists>n' xs ys. replace_leaf_with_split n path kind new = Some (n', []) \<and> wf_tree n' \<and>
    panes_of n = xs @ panes_of sub @ ys \<and> panes_of n' = xs @ panes_of sub @ panes_of new @ ys \<and>
    node_at n' (path @ [1]) = Some new"
  using assms
proof (induction path arbitrary: n)
  case Nil
  then show ?case by (auto simp: shares_ok_def intro!: exI [of _ "[]"])
next
  case (Cons i path)
  then obtain k ss cs where n: "n = Split k ss cs" and i: "i < length cs"
    by (cases n) (auto split: if_splits)
  then obtain c xs ys where c: "replace_leaf_with_split (cs ! i) path kind new = Some (c, [])"
      "wf_tree c" "panes_of (cs ! i) = xs @ panes_of sub @ ys"
      "panes_of c = xs @ panes_of sub @ panes_of new @ ys" "node_at c (path @ [1]) = Some new"
    using Cons.IH [of "cs ! i"] Cons.prems by (auto simp: list_all_length)
  show ?case
    using n i c Cons.prems
    by (intro exI [of _ "Split k ss (cs[i := c])"] exI [of _ "panes_of_list (take i cs) @ xs"]
        exI [of _ "ys @ panes_of_list (drop (Suc i) cs)"])
      (auto simp: panes_of_list_split [OF i] panes_of_list_update list_all_update)
qed

section \<open>Removing a node\<close>

lemma remove_child_nth:
  "i < length cs \<Longrightarrow> remove_child cs i path =
     (if path = [] then Some (take i cs @ drop (Suc i) cs, kill_node (cs ! i))
      else map_option (\<lambda>(c, killed). (cs[i := c], killed)) (remove_node (cs ! i) path))"
proof (induction cs arbitrary: i)
  case (Cons c cs)
  show ?case
  proof (cases i)
    case 0
    then show ?thesis by (cases "remove_node c path") auto
  next
    case (Suc j)
    with Cons show ?thesis by (cases "remove_node (cs ! j) path") auto
  qed
qed simp

lemma remove_node_props:
  assumes "wf_tree n" "node_at n path = Some sub" "path \<noteq> []"
  shows "\<exists>n' xs ys. remove_node n path = Some (n', map pane_id (panes_of sub)) \<and> wf_tree n' \<and>
    panes_of n = xs @ panes_of sub @ ys \<and> panes_of n' = xs @ ys"
  using assms
proof (induction path arbitrary: n)
  case (Cons i path)
  then obtain k ss cs where n: "n = Split k ss cs" and i: "i < length cs"
    by (cases n) (auto split: if_splits)
  have wf: "2 \<le> length cs" "length cs < 65536" "list_all wf_tree cs" "wf_tree (cs ! i)"
    using n Cons.prems i by (auto simp: list_all_length)
  have "\<exists>cs' xs ys. remove_child cs i path = Some (cs', map pane_id (panes_of sub)) \<and>
      list_all wf_tree cs' \<and> 1 \<le> length cs' \<and> length cs' < 65536 \<and>
      panes_of_list cs = xs @ panes_of sub @ ys \<and> panes_of_list cs' = xs @ ys"
  proof (cases "path = []")
    case True
    then have "sub = cs ! i" using Cons.prems n i by simp
    with True i wf show ?thesis
      by (intro exI [of _ "take i cs @ drop (Suc i) cs"] exI [of _ "panes_of_list (take i cs)"]
          exI [of _ "panes_of_list (drop (Suc i) cs)"])
        (auto simp: remove_child_nth panes_of_list_split [OF i] list_all_take_drop)
  next
    case False
    then obtain c xs ys where c: "remove_node (cs ! i) path = Some (c, map pane_id (panes_of sub))"
        "wf_tree c" "panes_of (cs ! i) = xs @ panes_of sub @ ys" "panes_of c = xs @ ys"
      using Cons.IH [of "cs ! i"] Cons.prems n i wf by auto
    with False i wf show ?thesis
      by (intro exI [of _ "cs[i := c]"] exI [of _ "panes_of_list (take i cs) @ xs"]
          exI [of _ "ys @ panes_of_list (drop (Suc i) cs)"])
        (auto simp: remove_child_nth panes_of_list_split [OF i] panes_of_list_update list_all_update)
  qed
  then obtain cs' xs ys where cs': "remove_child cs i path = Some (cs', map pane_id (panes_of sub))"
      "list_all wf_tree cs'" "1 \<le> length cs'" "length cs' < 65536"
      "panes_of_list cs = xs @ panes_of sub @ ys" "panes_of_list cs' = xs @ ys"
    by blast
  with rebuild_split_wf [of cs' k] obtain m where
    "rebuild_split k cs' = Some m" "wf_tree m" "panes_of m = panes_of_list cs'" by blast
  with cs' n show ?case
    by (intro exI [of _ m] exI [of _ xs] exI [of _ ys]) simp
qed simp

section \<open>Extracting a node\<close>

lemma extract_child_nth:
  "i < length cs \<Longrightarrow> extract_child cs i path =
     map_option (\<lambda>(rem, ext). ((case rem of Some r \<Rightarrow> cs[i := r]
                                | None \<Rightarrow> take i cs @ drop (Suc i) cs), ext))
       (extract_node (cs ! i) path)"
proof (induction cs arbitrary: i)
  case (Cons c cs)
  show ?case
  proof (cases i)
    case 0
    then show ?thesis by (cases "extract_node c path") (auto split: option.splits)
  next
    case (Suc j)
    with Cons show ?thesis by (cases "extract_node (cs ! j) path") (auto split: option.splits)
  qed
qed simp

definition panes_of_option :: "node option \<Rightarrow> pane list" where
  "panes_of_option r = (case r of None \<Rightarrow> [] | Some n \<Rightarrow> panes_of n)"

lemma rebuild_option_wf:
  assumes "length cs < 65536" "list_all wf_tree cs"
  shows "\<exists>r. rebuild_option k cs = Some r \<and> pred_option wf_tree r \<and> panes_of_option r = panes_of_list cs"
proof (cases cs)
  case (Cons c cs')
  with rebuild_split_wf [of cs k] assms show ?thesis
    by (auto simp: rebuild_option_def panes_of_option_def)
qed (simp add: rebuild_option_def panes_of_option_def)

lemma extract_node_props:
  assumes "wf_tree n" "node_at n path = Some sub"
  shows "\<exists>rem xs ys. extract_node n path = Some (rem, Some sub) \<and> pred_option wf_tree rem \<and>
    panes_of n = xs @ panes_of sub @ ys \<and> panes_of_option rem = xs @ ys"
  using assms
proof (induction path arbitrary: n)
  case Nil
  then show ?case by (auto simp: panes_of_option_def)
next
  case (Cons i path)
  then obtain k ss cs where n: "n = Split k ss cs" and i: "i < length cs"
    by (cases n) (auto split: if_splits)
  have wf: "length cs < 65536" "list_all wf_tree cs" "wf_tree (cs ! i)"
    using n Cons.prems i by (auto simp: list_all_length)
  obtain rem xs ys where r: "extract_node (cs ! i) path = Some (rem, Some sub)"
      "pred_option wf_tree rem" "panes_of (cs ! i) = xs @ panes_of sub @ ys"
      "panes_of_option rem = xs @ ys"
    using Cons.IH [of "cs ! i"] Cons.prems n i wf by auto
  define cs' where "cs' = (case rem of Some r \<Rightarrow> cs[i := r] | None \<Rightarrow> take i cs @ drop (Suc i) cs)"
  have cs': "length cs' < 65536" "list_all wf_tree cs'"
    using wf r(2) i by (auto simp: cs'_def list_all_update list_all_take_drop split: option.split)
  have "panes_of_list cs' = panes_of_list (take i cs) @ (xs @ ys) @ panes_of_list (drop (Suc i) cs)"
    using r(4) i by (auto simp: cs'_def panes_of_option_def panes_of_list_update split: option.splits)
  with rebuild_option_wf [OF cs', of k] obtain t where
    "rebuild_option k cs' = Some t" "pred_option wf_tree t"
    "panes_of_option t = panes_of_list (take i cs) @ (xs @ ys) @ panes_of_list (drop (Suc i) cs)"
    by auto
  with r i n show ?case
    by (intro exI [of _ t] exI [of _ "panes_of_list (take i cs) @ xs"]
        exI [of _ "ys @ panes_of_list (drop (Suc i) cs)"])
      (simp add: extract_child_nth cs'_def [symmetric] panes_of_list_split [OF i])
qed

lemma extract_node_missing:
  assumes "wf_tree n" "node_at n path = None"
  shows "\<exists>m. extract_node n path = Some (Some m, None) \<and> wf_tree m \<and> panes_of m = panes_of n"
  using assms
proof (induction path arbitrary: n)
  case (Cons i path)
  show ?case
  proof (cases n)
    case (Split k ss cs)
    show ?thesis
    proof (cases "i < length cs")
      case True
      then obtain m where m: "extract_node (cs ! i) path = Some (Some m, None)" "wf_tree m"
          "panes_of m = panes_of (cs ! i)"
        using Cons.IH [of "cs ! i"] Cons.prems Split by (auto simp: list_all_length)
      have "panes_of_list (cs[i := m]) = panes_of_list cs"
        using True m(3) by (simp add: panes_of_list_update panes_of_list_split [OF True])
      then show ?thesis
        using Split True m Cons.prems rebuild_split_wf [of "cs[i := m]" k]
        by (auto simp: extract_child_nth rebuild_option_def list_all_update)
    qed (use Split Cons.prems in simp)
  qed simp
qed simp

section \<open>Pruning\<close>

text \<open>What pruning does to the list of panes.\<close>

definition survivors :: "(pane \<Rightarrow> bool) \<Rightarrow> bool \<Rightarrow> pane list \<Rightarrow> pane list" where
  "survivors exited remain ps =
     (if remain then map (\<lambda>p. if \<not> dead p \<and> exited p then p\<lparr>dead := True\<rparr> else p) ps
      else filter (\<lambda>p. dead p \<or> \<not> exited p) ps)"

fun normalised :: "node \<Rightarrow> bool" where
  "normalised (Leaf p) = True"
| "normalised (Split k ss cs) = (sum_list ss = 100 \<and> list_all normalised cs)"

lemma survivors_append: "survivors exited remain (xs @ ys) = survivors exited remain xs @ survivors exited remain ys"
  by (simp add: survivors_def)

lemma scaled_sum_le:
  fixes t :: nat
  assumes "\<And>s. s \<in> set ss \<Longrightarrow> s < 65536" "sum_list ss \<le> t" "0 < t"
  shows "sum_list (map (\<lambda>s. s * 100 div t) ss) \<le> 100"
proof -
  have "sum_list (map (\<lambda>s. s * 100 div t) ss) * t \<le> sum_list ss * 100"
    by (induction ss) (auto simp: algebra_simps intro: add_mono div_times_less_eq_dividend)
  also have "\<dots> \<le> 100 * t" using assms by simp
  finally show ?thesis using assms by simp
qed

lemma rescale_shares_props:
  assumes "1 \<le> length ss" "length ss < 65536" "sum_list ss < 65536"
  shows "\<exists>sz. rescale_shares ss = Some sz \<and> length sz = length ss \<and> sum_list sz = 100"
proof -
  have elem: "s < 65536" if "s \<in> set ss" for s
    using that assms member_le_sum_list [of s ss] by simp
  consider "sum_list ss = 100" | "sum_list ss = 0" | "sum_list ss \<noteq> 100" "0 < sum_list ss" by blast
  then show ?thesis
  proof cases
    case 1
    then show ?thesis by (auto simp: rescale_shares_def)
  next
    case 2
    then have "sum16 ss = 0" by (simp only: sum16_def)
    then have "rescale_shares ss = even_shares (length ss)"
      by (simp add: rescale_shares_def)
    with even_shares_props [of "length ss"] assms show ?thesis by simp
  next
    case 3
    define sc where "sc = map (\<lambda>s. s * 100 div sum_list ss) ss"
    have le: "s * 100 div sum_list ss \<le> 100" if "s \<in> set ss" for s
      using that member_le_sum_list [of s ss] 3 by (simp add: div_le_mono [of _ "sum_list ss * 100", THEN order_trans])
    have sc: "map (\<lambda>s. wrap16 (wrap32 (s * 100) div sum_list ss)) ss = sc"
      unfolding sc_def
    proof (rule map_cong [OF refl])
      fix s assume "s \<in> set ss"
      then have "s * 100 < 4294967296" "s * 100 div sum_list ss < 65536"
        using elem [of s] le [of s] by auto
      then show "wrap16 (wrap32 (s * 100) div sum_list ss) = s * 100 div sum_list ss" by simp
    qed
    have sum: "sum_list sc \<le> 100"
      unfolding sc_def using scaled_sum_le [of ss "sum_list ss"] elem 3 by simp
    have ne: "sc \<noteq> []" using assms by (auto simp: sc_def)
    have "last sc \<le> sum_list sc" using ne by (simp add: member_le_sum_list)
    with sum have "last sc + (100 - sum_list sc) < 65536" by linarith
    note bump = bump_last_props [OF ne this]
    have "sum16 ss = sum_list ss" "sum16 sc = sum_list sc" using assms sum by simp_all
    then have "rescale_shares ss = Some (bump_last (100 - sum_list sc) sc)"
      using 3 by (simp only: rescale_shares_def Let_def sc) (simp del: sum_list_eq_0_iff)
    with bump sum show ?thesis by (auto simp: sc_def)
  qed
qed

lemma prune_props:
  "wf_tree n \<Longrightarrow> \<exists>r. prune_exited exited n remain = Some r \<and>
     panes_of_option r = survivors exited remain (panes_of n) \<and>
     pred_option wf_tree r \<and> pred_option normalised r"
  "list_all wf_tree cs \<Longrightarrow> length ss = length cs \<Longrightarrow>
     \<exists>cs' ss'. prune_children exited cs ss remain = Some (cs', ss') \<and>
     panes_of_list cs' = survivors exited remain (panes_of_list cs) \<and> list_all wf_tree cs' \<and>
     list_all normalised cs' \<and> length ss' = length cs' \<and> length cs' \<le> length cs \<and>
     sum_list ss' \<le> sum_list ss"
proof (induction n and cs arbitrary: and ss rule: node_induct)
  case (1 p)
  then show ?case
    by (auto simp: survivors_def panes_of_option_def classify_pane_exit_def)
next
  case (2 k ss cs)
  then have "list_all wf_tree cs" "length ss = length cs" by auto
  from 2(1) [OF this] obtain cs' ss' where r: "prune_children exited cs ss remain = Some (cs', ss')"
      "panes_of_list cs' = survivors exited remain (panes_of_list cs)" "list_all wf_tree cs'"
      "list_all normalised cs'" "length ss' = length cs'" "length cs' \<le> length cs"
      "sum_list ss' \<le> sum_list ss"
    by blast
  have b: "length cs' < 65536" "sum_list ss' < 65536"
    using r 2(2) by (auto simp: shares_ok_def)
  consider "cs' = []" | c where "cs' = [c]" | "2 \<le> length cs'"
    by (cases cs' rule: remdups_adj.cases) auto
  then show ?case
  proof cases
    case 3
    with rescale_shares_props [of ss'] r b obtain sz where
      "rescale_shares ss' = Some sz" "length sz = length cs'" "sum_list sz = 100" by auto
    with 3 r b show ?thesis by (auto simp: panes_of_option_def)
  qed (use r in \<open>auto simp: panes_of_option_def\<close>)
next
  case (4 c cs)
  then obtain s ss1 where ss: "ss = s # ss1" by (cases ss) auto
  obtain r where r: "prune_exited exited c remain = Some r"
      "panes_of_option r = survivors exited remain (panes_of c)" "pred_option wf_tree r"
      "pred_option normalised r"
    using 4 by auto
  obtain cs' ss' where cs': "prune_children exited cs ss1 remain = Some (cs', ss')"
     "panes_of_list cs' = survivors exited remain (panes_of_list cs)" "list_all wf_tree cs'"
     "list_all normalised cs'" "length ss' = length cs'" "length cs' \<le> length cs"
     "sum_list ss' \<le> sum_list ss1"
    using 4(2) [of ss1] 4(3,4) ss by auto
  show ?case
    using r cs' ss by (cases r) (auto simp: survivors_append panes_of_option_def)
qed (auto simp: survivors_def)

section \<open>Properties\<close>

definition mk_pane :: "nat \<Rightarrow> pane" where
  "mk_pane i = \<lparr>pane_id = i, title = ''pane'', dead = False, last_rows = 24, last_cols = 80,
     term_rows = 24, term_cols = 80, pty_rows = 24, pty_cols = 80\<rparr>"

definition example_tree :: node where
  "example_tree = Split Horizontal [50, 50]
     [Leaf (mk_pane 1), Split Vertical [60, 40] [Leaf (mk_pane 2), Leaf (mk_pane 3)]]"

lemmas example_simps = example_tree_def mk_pane_def active_pane_mut_def shares_ok_def

text \<open>
  C4: killing the pane at the end of a path removes exactly that pane: its process
  tree is the only one killed, every other pane stays in order, the tree stays well
  formed, and nothing panics.
\<close>

theorem remove_node_removes_one_pane:
  assumes "wf_tree n" "active_pane_mut n path = Some p" "path \<noteq> []"
  shows "\<exists>n' xs ys. remove_node n path = Some (n', [pane_id p]) \<and> wf_tree n' \<and>
    panes_of n = xs @ p # ys \<and> panes_of n' = xs @ ys"
proof -
  have "node_at n path = Some (Leaf p)"
    using assms(2) by (auto simp: active_pane_mut_def split: option.splits node.splits)
  from remove_node_props [OF assms(1) this assms(3)] show ?thesis by simp
qed

theorem remove_node_removes_one_pane_witness:
  "\<exists>n' xs ys. remove_node example_tree [1, 0] = Some (n', [2]) \<and> wf_tree n' \<and>
    panes_of example_tree = xs @ mk_pane 2 # ys \<and> panes_of n' = xs @ ys"
  using remove_node_removes_one_pane [of example_tree "[1, 0]" "mk_pane 2"]
  by (simp add: example_simps)

text \<open>
  Moving a pane out of its window (break-pane, join-pane) loses and kills nothing:
  the extracted node and the remaining tree together hold exactly the panes of the
  window, in order, and the remainder is well formed; a path that leads nowhere
  extracts nothing and keeps every pane.
\<close>

theorem extract_node_conserves_panes:
  assumes "wf_tree n"
  shows "case node_at n path of
      Some sub \<Rightarrow> (\<exists>rem xs ys. extract_node n path = Some (rem, Some sub) \<and> pred_option wf_tree rem \<and>
        panes_of n = xs @ panes_of sub @ ys \<and> panes_of_option rem = xs @ ys)
    | None \<Rightarrow> (\<exists>m. extract_node n path = Some (Some m, None) \<and> wf_tree m \<and> panes_of m = panes_of n)"
  using extract_node_props [OF assms] extract_node_missing [OF assms]
  by (auto split: option.split)

theorem extract_node_conserves_panes_witness:
  "\<exists>rem xs ys. extract_node example_tree [1, 0] = Some (rem, Some (Leaf (mk_pane 2))) \<and>
     pred_option wf_tree rem \<and> panes_of example_tree = xs @ panes_of (Leaf (mk_pane 2)) @ ys \<and>
     panes_of_option rem = xs @ ys"
  using extract_node_conserves_panes [of example_tree "[1, 0]"]
  by (simp add: example_simps)

text \<open>
  Splitting the node at a path keeps every pane, puts the new panes right after
  the split ones, kills nothing, keeps the tree well formed, and the path the code
  then focuses (the old path followed by 1) leads to the new node.
\<close>

theorem split_keeps_panes:
  assumes "wf_tree n" "wf_tree new" "node_at n path = Some sub"
  shows "\<exists>n' xs ys. replace_leaf_with_split n path kind new = Some (n', []) \<and> wf_tree n' \<and>
    panes_of n = xs @ panes_of sub @ ys \<and> panes_of n' = xs @ panes_of sub @ panes_of new @ ys \<and>
    node_at n' (path @ [1]) = Some new"
  by (rule replace_leaf_props [OF assms])

theorem split_keeps_panes_witness:
  "\<exists>n' xs ys. replace_leaf_with_split example_tree [0] Vertical (Leaf (mk_pane 4)) = Some (n', []) \<and>
    wf_tree n' \<and> panes_of example_tree = xs @ panes_of (Leaf (mk_pane 1)) @ ys \<and>
    panes_of n' = xs @ panes_of (Leaf (mk_pane 1)) @ panes_of (Leaf (mk_pane 4)) @ ys \<and>
    node_at n' ([0] @ [1]) = Some (Leaf (mk_pane 4))"
  using split_keeps_panes [of example_tree "Leaf (mk_pane 4)" "[0]" "Leaf (mk_pane 1)" Vertical]
  by (simp add: example_simps)

text \<open>
  C3: pruning removes exactly the panes whose process has exited (or, with
  remain-on-exit, marks exactly those dead and removes none), keeps the others in
  order, never panics, and leaves a well-formed tree in which the shares of every
  split sum to 100.
\<close>

theorem prune_exited_survivors:
  assumes "wf_tree n"
  shows "\<exists>r. prune_exited exited n remain = Some r \<and>
     panes_of_option r = survivors exited remain (panes_of n) \<and>
     pred_option wf_tree r \<and> pred_option normalised r"
  by (rule prune_props(1) [OF assms])

theorem prune_exited_survivors_witness:
  "wf_tree example_tree \<and> (\<exists>r. prune_exited (\<lambda>p. pane_id p = 2) example_tree False = Some r \<and>
     panes_of_option r = survivors (\<lambda>p. pane_id p = 2) False (panes_of example_tree) \<and>
     pred_option wf_tree r \<and> pred_option normalised r)"
proof
  show "wf_tree example_tree" by (simp add: example_simps)
  then show "\<exists>r. prune_exited (\<lambda>p. pane_id p = 2) example_tree False = Some r \<and>
     panes_of_option r = survivors (\<lambda>p. pane_id p = 2) False (panes_of example_tree) \<and>
     pred_option wf_tree r \<and> pred_option normalised r"
    by (rule prune_exited_survivors)
qed

text \<open>
  The search for a pane by identifier is sound and complete: a path it returns
  leads to a pane with that identifier and the active-pane lookup on it gives the
  identifier back; it returns none exactly when no pane of the window has it.
\<close>

theorem find_path_by_id_correct:
  "case find_path_by_id n x of
     Some path \<Rightarrow> get_active_pane_id n path = Some x \<and> path_exists n path \<and>
       (\<exists>p. active_pane_mut n path = Some p \<and> pane_id p = x)
   | None \<Rightarrow> x \<notin> set (collect_pane_ids n)"
proof (cases "find_path_by_id n x")
  case None
  then have "x \<notin> set (collect_pane_ids n)" by (simp add: find_path_by_id_None)
  then show ?thesis by (simp add: None)
next
  case (Some path)
  with find_path_by_id_Some [OF Some] show ?thesis
    by (auto simp: path_exists_def active_pane_mut_def get_active_pane_id_leaf)
qed

end
