(* ===== verification/Pane_Geometry.thy ===== *)
theory Pane_Geometry
  imports Pane_Edits
begin

text \<open>
  Where the panes are on the screen (core/src/tree.rs): the division of an area among
  the children of a split with one separator column or row between neighbours, the
  rectangles of all panes, the borders a mouse can drag, and the resizing of a border.

  The constructor of rectangles belongs to the ratatui library: it is the parameter
  \<open>rnew\<close>, of which the proofs use only what its documentation says
  (\<open>rect_new_ok\<close>): a rectangle whose right and bottom edges fit a u16 is built as given.
\<close>

section \<open>Rectangles\<close>

record rect =
  rx :: nat
  ry :: nat
  rw :: nat
  rh :: nat

type_synonym rect_ctor = "nat \<Rightarrow> nat \<Rightarrow> nat \<Rightarrow> nat \<Rightarrow> rect"

definition rect_new_ok :: "rect_ctor \<Rightarrow> bool" where
  "rect_new_ok rnew = (\<forall>x y w h. x + w < 65536 \<longrightarrow> y + h < 65536 \<longrightarrow>
     rnew x y w h = \<lparr>rx = x, ry = y, rw = w, rh = h\<rparr>)"

definition rect_fits :: "rect \<Rightarrow> bool" where
  "rect_fits r = (rx r + rw r < 65536 \<and> ry r + rh r < 65536)"

definition cells :: "rect \<Rightarrow> (nat \<times> nat) set" where
  "cells r = {rx r..<rx r + rw r} \<times> {ry r..<ry r + rh r}"

text \<open>A constructor that satisfies the documentation: it clips the far edges.\<close>

definition clip_rect :: rect_ctor where
  "clip_rect x y w h = \<lparr>rx = x, ry = y, rw = min w (65535 - x), rh = min h (65535 - y)\<rparr>"

lemma clip_rect_ok: "rect_new_ok clip_rect"
  by (auto simp: rect_new_ok_def clip_rect_def)

section \<open>Dividing an area\<close>

text \<open>
  The loop of \<open>split_with_gaps\<close>: for each child its index, the offset accumulated so
  far and its size; the last child takes what is left.
\<close>

fun gap_loop :: "nat \<Rightarrow> nat \<Rightarrow> nat \<Rightarrow> nat \<Rightarrow> nat \<Rightarrow> nat list \<Rightarrow> (nat \<times> nat \<times> nat) list" where
  "gap_loop avail tot n i offset [] = []"
| "gap_loop avail tot n i offset (pct # rest) =
     (let size = (if i = n - 1 then avail - offset
                  else wrap16 (wrap32 (avail * pct) div tot))
      in (i, offset, size) # gap_loop avail tot n (Suc i) (add16 offset size) rest)"

definition child_rect :: "rect_ctor \<Rightarrow> bool \<Rightarrow> rect \<Rightarrow> nat \<times> nat \<times> nat \<Rightarrow> rect" where
  "child_rect rnew horiz area = (\<lambda>(i, offset, size).
     if horiz then rnew (add16 (add16 (rx area) offset) (wrap16 i)) (ry area) size (rh area)
     else rnew (rx area) (add16 (add16 (ry area) offset) (wrap16 i)) (rw area) size)"

definition split_with_gaps :: "rect_ctor \<Rightarrow> bool \<Rightarrow> nat list \<Rightarrow> rect \<Rightarrow> rect list" where
  "split_with_gaps rnew horiz sizes area =
     (let n = length sizes
      in if n = 0 then []
         else if n = 1 then [area]
         else let gaps = wrap16 (n - 1);
                  avail = (if horiz then rw area else rh area) - gaps;
                  tot = wrap32 (sum_list sizes)
              in if tot = 0 then replicate n area
                 else map (child_rect rnew horiz area) (gap_loop avail tot n 0 0 sizes))"

definition effective_sizes :: "nat list \<Rightarrow> nat \<Rightarrow> nat list" where
  "effective_sizes ss n = (if length ss = n then ss else replicate n (wrap16 (100 div max n 1)))"

fun compute_rects :: "rect_ctor \<Rightarrow> node \<Rightarrow> rect \<Rightarrow> (path \<times> rect) list"
  and compute_children :: "rect_ctor \<Rightarrow> node list \<Rightarrow> rect list \<Rightarrow> nat \<Rightarrow> (path \<times> rect) list" where
  "compute_rects rnew (Leaf p) area = [([], area)]"
| "compute_rects rnew (Split k ss cs) area =
     compute_children rnew cs
       (split_with_gaps rnew (k = Horizontal) (effective_sizes ss (length cs)) area) 0"
| "compute_children rnew [] rects i = []"
| "compute_children rnew (c # cs) [] i = []"
| "compute_children rnew (c # cs) (r # rects) i =
     map (\<lambda>(p, r). (i # p, r)) (compute_rects rnew c r) @ compute_children rnew cs rects (Suc i)"

text \<open>A border: path of the split, its kind, the child before it, its position, the length of the axis.\<close>

type_synonym border = "path \<times> layout_kind \<times> nat \<times> nat \<times> nat"

definition own_borders :: "layout_kind \<Rightarrow> rect \<Rightarrow> rect list \<Rightarrow> nat \<Rightarrow> border list" where
  "own_borders k area rects n =
     map (\<lambda>i. ([], k, i,
            (if k = Horizontal then add16 (rx (rects ! i)) (rw (rects ! i))
             else add16 (ry (rects ! i)) (rh (rects ! i))),
            (if k = Horizontal then rw area else rh area)))
       (filter (\<lambda>i. i < length rects) [0..<n - 1])"

fun compute_split_borders :: "rect_ctor \<Rightarrow> node \<Rightarrow> rect \<Rightarrow> border list"
  and borders_children :: "rect_ctor \<Rightarrow> node list \<Rightarrow> rect list \<Rightarrow> nat \<Rightarrow> border list" where
  "compute_split_borders rnew (Leaf p) area = []"
| "compute_split_borders rnew (Split k ss cs) area =
     (let rects = split_with_gaps rnew (k = Horizontal) (effective_sizes ss (length cs)) area
      in own_borders k area rects (length cs) @ borders_children rnew cs rects 0)"
| "borders_children rnew [] rects i = []"
| "borders_children rnew (c # cs) [] i = []"
| "borders_children rnew (c # cs) (r # rects) i =
     map (\<lambda>(p, b). (i # p, b)) (compute_split_borders rnew c r) @ borders_children rnew cs rects (Suc i)"

section \<open>Spans along the axis\<close>

text \<open>The spans start at \<open>off\<close>, follow each other without a hole and end at \<open>avail\<close>.\<close>

fun tiles :: "nat \<Rightarrow> nat \<Rightarrow> nat \<Rightarrow> (nat \<times> nat \<times> nat) list \<Rightarrow> bool" where
  "tiles i off avail [] = (off = avail)"
| "tiles i off avail ((j, o', s) # r) =
     (j = i \<and> o' = off \<and> off + s \<le> avail \<and> tiles (Suc i) (off + s) avail r)"

lemma length_gap_loop [simp]: "length (gap_loop avail tot n i off ss) = length ss"
  by (induction avail tot n i off ss rule: gap_loop.induct) (auto simp: Let_def)

lemma share_le: "off * tot \<le> avail * pre \<Longrightarrow> pre + pct \<le> (tot::nat) \<Longrightarrow>
   (off + avail * pct div tot) * tot \<le> avail * (pre + pct)"
proof -
  assume a: "off * tot \<le> avail * pre"
  have "avail * pct div tot * tot \<le> avail * pct" by (rule div_times_less_eq_dividend)
  with a show ?thesis by (simp only: add_mult_distrib add_mult_distrib2 add_mono)
qed

lemma gap_loop_tiles:
  assumes "avail < 65536" "0 < tot" "tot < 65536" "pre + sum_list ss = tot"
    "off * tot \<le> avail * pre" "i + length ss = n" "ss \<noteq> []"
  shows "tiles i off avail (gap_loop avail tot n i off ss)"
  using assms
proof (induction ss arbitrary: i off pre)
  case (Cons pct ss)
  have "avail * pre \<le> avail * tot" using Cons.prems by (intro mult_le_mono) auto
  with Cons.prems have off: "off \<le> avail" by (metis le_trans mult_le_cancel2 neq0_conv)
  show ?case
  proof (cases "ss = []")
    case True
    with Cons.prems off show ?thesis by (auto simp: Let_def)
  next
    case False
    define size where "size = avail * pct div tot"
    have pct: "pre + pct \<le> tot" using Cons.prems by simp
    have inv: "(off + size) * tot \<le> avail * (pre + pct)"
      unfolding size_def using Cons.prems pct by (intro share_le) auto
    also have "\<dots> \<le> avail * tot" using pct by simp
    finally have bound: "off + size \<le> avail" using Cons.prems by simp
    have "avail * pct < 4294967296" using Cons.prems by (intro mul_u16_no_overflow) auto
    moreover have "size < 65536" using bound Cons.prems by simp
    moreover have "i \<noteq> n - 1" using False Cons.prems by (cases ss) auto
    moreover have "tiles (Suc i) (off + size) avail (gap_loop avail tot n (Suc i) (off + size) ss)"
      using Cons.prems inv False by (intro Cons.IH [where pre = "pre + pct"]) auto
    ultimately show ?thesis using bound Cons.prems by (simp add: size_def Let_def)
  qed
qed simp

lemma tiles_nth:
  assumes "tiles i off avail sp" "k < length sp"
  shows "\<exists>o' s. sp ! k = (i + k, o', s) \<and> off \<le> o' \<and> o' + s \<le> avail \<and>
    (\<forall>l < length sp. k < l \<longrightarrow> o' + s \<le> fst (snd (sp ! l))) \<and>
    (if Suc k < length sp then fst (snd (sp ! Suc k)) = o' + s else o' + s = avail)"
  using assms
proof (induction sp arbitrary: i off k)
  case (Cons x sp)
  obtain s where x: "x = (i, off, s)" and t: "tiles (Suc i) (off + s) avail sp" and le: "off + s \<le> avail"
    using Cons.prems by (cases x) auto
  show ?case
  proof (cases k)
    case 0
    have "off + s \<le> fst (snd (sp ! l))" if "l < length sp" for l
      using Cons.IH [OF t that] by auto
    moreover have "if sp = [] then off + s = avail else fst (snd (sp ! 0)) = off + s"
      using t Cons.IH [OF t, of 0] by (cases sp) auto
    ultimately show ?thesis using 0 x le by (auto simp: nth_Cons split: nat.split)
  next
    case (Suc m)
    then have m: "m < length sp" using Cons.prems by simp
    from Cons.IH [OF t this] obtain o' s' where
      "sp ! m = (Suc i + m, o', s')" "off + s \<le> o'" "o' + s' \<le> avail"
      "\<forall>l<length sp. m < l \<longrightarrow> o' + s' \<le> fst (snd (sp ! l))"
      "if Suc m < length sp then fst (snd (sp ! Suc m)) = o' + s' else o' + s' = avail"
      by blast
    with Suc show ?thesis by (auto simp: nth_Cons split: nat.split)
  qed
qed simp

lemma tiles_sum: "tiles i off avail sp \<Longrightarrow> off + sum_list (map (snd \<circ> snd) sp) = avail"
  by (induction i off avail sp rule: tiles.induct) auto

section \<open>The rectangles of the children\<close>

definition axis_len :: "bool \<Rightarrow> rect \<Rightarrow> nat" where
  "axis_len horiz r = (if horiz then rw r else rh r)"

definition axis_pos :: "bool \<Rightarrow> rect \<Rightarrow> nat" where
  "axis_pos horiz r = (if horiz then rx r else ry r)"

lemma cells_disjoint_axis:
  assumes "axis_pos horiz r + axis_len horiz r \<le> axis_pos horiz s"
  shows "cells r \<inter> cells s = {}"
  using assms by (auto simp: cells_def axis_pos_def axis_len_def split: if_splits)

lemma cells_empty_axis: "axis_len horiz r = 0 \<Longrightarrow> cells r = {}"
  by (auto simp: cells_def axis_len_def split: if_splits)

lemma cells_subset_axis:
  assumes "axis_pos horiz area \<le> axis_pos horiz r"
    "axis_pos horiz r + axis_len horiz r \<le> axis_pos horiz area + axis_len horiz area"
    "axis_pos (\<not> horiz) r = axis_pos (\<not> horiz) area" "axis_len (\<not> horiz) r = axis_len (\<not> horiz) area"
  shows "cells r \<subseteq> cells area"
  using assms by (auto simp: cells_def axis_pos_def axis_len_def split: if_splits)

text \<open>The span of child \<open>k\<close> as the rectangle that \<open>child_rect\<close> builds for it.\<close>

lemma child_rect_built:
  assumes "rect_new_ok rnew" "rect_fits area"
    "o' + s \<le> axis_len horiz area - g" "k \<le> g" "k < 65536"
    "g \<le> axis_len horiz area \<or> axis_len horiz area - g = 0"
  defines "r \<equiv> child_rect rnew horiz area (k, o', s)"
  shows "axis_len horiz r = s" "rect_fits r" "axis_pos (\<not> horiz) r = axis_pos (\<not> horiz) area"
    "axis_len (\<not> horiz) r = axis_len (\<not> horiz) area"
    "g \<le> axis_len horiz area \<Longrightarrow> axis_pos horiz r = axis_pos horiz area + o' + k"
proof -
  define a where "a = axis_pos horiz area"
  have fits: "a + axis_len horiz area < 65536"
    using assms(2) by (auto simp: a_def axis_pos_def axis_len_def rect_fits_def)
  have ok: "rnew x y w h = \<lparr>rx = x, ry = y, rw = w, rh = h\<rparr>"
    if "x + w < 65536" "y + h < 65536" for x y w h
    using assms(1) that by (auto simp: rect_new_ok_def)
  have pos: "add16 (add16 a o') (wrap16 k) + s < 65536 \<and>
      (g \<le> axis_len horiz area \<longrightarrow> add16 (add16 a o') (wrap16 k) = a + o' + k)"
  proof (cases "g \<le> axis_len horiz area")
    case True
    then have le: "a + o' + k + s \<le> a + axis_len horiz area" using assms(3,4) by linarith
    then have "a + o' + k < 65536" using fits by linarith
    then have "add16 (add16 a o') (wrap16 k) = a + o' + k" using assms(5) by simp
    with le fits show ?thesis by simp
  next
    case False
    then have "o' = 0" "s = 0" using assms(3) by auto
    with False show ?thesis by simp
  qed
  have other: "axis_pos (\<not> horiz) area + axis_len (\<not> horiz) area < 65536"
    using assms(2) by (auto simp: axis_pos_def axis_len_def rect_fits_def)
  show "axis_len horiz r = s" "rect_fits r" "axis_pos (\<not> horiz) r = axis_pos (\<not> horiz) area"
    "axis_len (\<not> horiz) r = axis_len (\<not> horiz) area"
    "g \<le> axis_len horiz area \<Longrightarrow> axis_pos horiz r = axis_pos horiz area + o' + k"
    using pos other
    by (cases horiz; simp add: r_def child_rect_def axis_pos_def axis_len_def a_def ok rect_fits_def)+
qed

lemma split_with_gaps_tiles:
  assumes "rect_fits area" "shares_ok ss" "2 \<le> length ss" "length ss < 65536"
  shows "tiles 0 0 (axis_len horiz area - (length ss - 1))
      (gap_loop (axis_len horiz area - (length ss - 1)) (sum_list ss) (length ss) 0 0 ss)"
    "split_with_gaps rnew horiz ss area = map (child_rect rnew horiz area)
      (gap_loop (axis_len horiz area - (length ss - 1)) (sum_list ss) (length ss) 0 0 ss)"
proof -
  have "axis_len horiz area < 65536" using assms(1) by (auto simp: axis_len_def rect_fits_def)
  then show "tiles 0 0 (axis_len horiz area - (length ss - 1))
      (gap_loop (axis_len horiz area - (length ss - 1)) (sum_list ss) (length ss) 0 0 ss)"
    using assms by (intro gap_loop_tiles [where pre = 0]) (auto simp: shares_ok_def)
  have "sum_list ss \<noteq> 0" "wrap32 (sum_list ss) = sum_list ss"
    using assms(2) unfolding shares_ok_def by (linarith, simp)
  then show "split_with_gaps rnew horiz ss area = map (child_rect rnew horiz area)
      (gap_loop (axis_len horiz area - (length ss - 1)) (sum_list ss) (length ss) 0 0 ss)"
    using assms(3,4) by (auto simp: split_with_gaps_def axis_len_def Let_def simp del: sum_list_eq_0_iff)
qed

lemma split_with_gaps_nth:
  fixes horiz :: bool and k l :: nat
  assumes "rect_new_ok rnew" "rect_fits area" "shares_ok ss" "2 \<le> length ss" "length ss < 65536"
    "k < length ss"
  defines "rs \<equiv> split_with_gaps rnew horiz ss area"
  shows "length rs = length ss" "rect_fits (rs ! k)" "cells (rs ! k) \<subseteq> cells area"
    "k < l \<Longrightarrow> l < length ss \<Longrightarrow> cells (rs ! k) \<inter> cells (rs ! l) = {}"
proof -
  define g where "g = length ss - 1"
  define avail where "avail = axis_len horiz area - g"
  define sp where "sp = gap_loop avail (sum_list ss) (length ss) 0 0 ss"
  have rs: "rs = map (child_rect rnew horiz area) sp" and t: "tiles 0 0 avail sp"
    using split_with_gaps_tiles(1) [OF assms(2-5), of horiz] split_with_gaps_tiles(2) [OF assms(2-5)]
    by (simp_all add: rs_def sp_def avail_def g_def)
  have len: "length sp = length ss" by (simp add: sp_def)
  then show "length rs = length ss" by (simp add: rs)
  have alt: "g \<le> axis_len horiz area \<or> axis_len horiz area - g = 0" by linarith
  have built: "\<exists>o' s. rs ! m = child_rect rnew horiz area (m, o', s) \<and> sp ! m = (m, o', s) \<and>
      o' + s \<le> axis_len horiz area - g \<and> m \<le> g \<and> m < 65536 \<and>
      (\<forall>l < length sp. m < l \<longrightarrow> o' + s \<le> fst (snd (sp ! l)))" if "m < length ss" for m
    using tiles_nth [OF t, of m] that len assms(5) by (auto simp: rs avail_def g_def)
  obtain o' s where k: "rs ! k = child_rect rnew horiz area (k, o', s)"
      "o' + s \<le> axis_len horiz area - g" "k \<le> g" "k < 65536"
      "\<forall>l < length sp. k < l \<longrightarrow> o' + s \<le> fst (snd (sp ! l))"
    using built [OF assms(6)] by blast
  note bk = child_rect_built [OF assms(1,2) k(2-4) alt, folded k(1)]
  show "rect_fits (rs ! k)" by (rule bk(2))
  show "cells (rs ! k) \<subseteq> cells area"
  proof (cases "g \<le> axis_len horiz area")
    case True
    with bk k(2,3) show ?thesis by (intro cells_subset_axis [of horiz]) auto
  next
    case False
    with bk(1) k(2) have "axis_len horiz (rs ! k) = 0" by simp
    then show ?thesis by (simp add: cells_empty_axis)
  qed
  show "cells (rs ! k) \<inter> cells (rs ! l) = {}" if l: "k < l" "l < length ss"
  proof (cases "g \<le> axis_len horiz area")
    case True
    obtain p s2 where q: "rs ! l = child_rect rnew horiz area (l, p, s2)" "sp ! l = (l, p, s2)"
        "p + s2 \<le> axis_len horiz area - g" "l \<le> g" "l < 65536"
      using built [OF l(2)] by blast
    note bl = child_rect_built [OF assms(1,2) q(3-5) alt, folded q(1)]
    have "o' + s \<le> p" using k(5) l len q(2) by force
    with bk(1) bk(5) [OF True] bl(5) [OF True] l(1) show ?thesis
      by (intro cells_disjoint_axis [of horiz]) simp
  next
    case False
    with bk(1) k(2) have "axis_len horiz (rs ! k) = 0" by simp
    then show ?thesis by (simp add: cells_empty_axis)
  qed
qed

section \<open>The rectangles of all panes\<close>

definition disjoint_rects :: "rect list \<Rightarrow> bool" where
  "disjoint_rects rs = sorted_wrt (\<lambda>r s. cells r \<inter> cells s = {}) rs"

lemma children_rects_ok:
  fixes horiz :: bool
  assumes "rect_new_ok rnew" "rect_fits area" "wf_tree (Split k ss cs)"
  defines "rs \<equiv> split_with_gaps rnew horiz (effective_sizes ss (length cs)) area"
  shows "length rs = length cs" "\<forall>r\<in>set rs. rect_fits r \<and> cells r \<subseteq> cells area" "disjoint_rects rs"
proof -
  have wf: "shares_ok ss" "2 \<le> length ss" "length ss < 65536" "length ss = length cs"
    and eff: "effective_sizes ss (length cs) = ss"
    using assms(3) by (auto simp: effective_sizes_def)
  note nth = split_with_gaps_nth [OF assms(1,2) wf(1-3), where horiz = horiz]
  have "0 < length ss" using wf(2) by linarith
  then have len: "length rs = length ss" using nth(1) [of 0] by (simp add: rs_def eff)
  then show "length rs = length cs" using wf by simp
  show "\<forall>r\<in>set rs. rect_fits r \<and> cells r \<subseteq> cells area"
  proof
    fix r assume "r \<in> set rs"
    then obtain i where "r = rs ! i" "i < length ss" using len by (auto simp: in_set_conv_nth)
    with nth(2) [of i] nth(3) [of i] show "rect_fits r \<and> cells r \<subseteq> cells area"
      by (simp add: rs_def eff)
  qed
  show "disjoint_rects rs"
    using nth(4) len by (auto simp: disjoint_rects_def sorted_wrt_iff_nth_less rs_def eff)
qed

lemma compute_rects_props:
  assumes rn: "rect_new_ok rnew"
  shows "wf_tree n \<Longrightarrow> rect_fits area \<Longrightarrow>
      map fst (compute_rects rnew n area) = map fst (leaves n) \<and>
      (\<forall>r\<in>set (map snd (compute_rects rnew n area)). rect_fits r \<and> cells r \<subseteq> cells area) \<and>
      disjoint_rects (map snd (compute_rects rnew n area))"
    "list_all wf_tree cs \<Longrightarrow> length rects = length cs \<Longrightarrow> \<forall>r\<in>set rects. rect_fits r \<Longrightarrow>
      disjoint_rects rects \<Longrightarrow>
      map fst (compute_children rnew cs rects i) = map fst (leaves_list cs i) \<and>
      (\<forall>r\<in>set (map snd (compute_children rnew cs rects i)). rect_fits r \<and> cells r \<subseteq> (\<Union>x\<in>set rects. cells x)) \<and>
      disjoint_rects (map snd (compute_children rnew cs rects i))"
proof (induction n and cs arbitrary: area and rects i rule: node_induct)
  case (2 k ss cs)
  note ch = children_rects_ok [OF rn 2(3) 2(2), where horiz = "k = Horizontal"]
  have "list_all wf_tree cs" using 2(2) by simp
  from 2(1) [OF this ch(1) _ ch(3), of 0] ch(2) show ?case by fastforce
next
  case (4 c cs)
  obtain r rs where rects: "rects = r # rs" using 4 by (cases rects) auto
  have c: "wf_tree c" "rect_fits r" and cs: "list_all wf_tree cs" "length rs = length cs"
    "\<forall>r\<in>set rs. rect_fits r" "disjoint_rects rs" and dj: "\<forall>x\<in>set rs. cells r \<inter> cells x = {}"
    using 4(3-6) rects by (auto simp: disjoint_rects_def)
  note hc = 4(1) [OF c] and hcs = 4(2) [OF cs, of "Suc i"]
  have snd: "map snd (map (\<lambda>(p, r). (i # p, r)) (compute_rects rnew c r)) = map snd (compute_rects rnew c r)"
    and fst: "map fst (map (\<lambda>(p, r). (i # p, r)) (compute_rects rnew c r)) = map ((#) i) (map fst (compute_rects rnew c r))"
    and fstl: "map fst (map (\<lambda>(p, r). (i # p, r)) (leaves c)) = map ((#) i) (map fst (leaves c))"
    by (simp_all add: comp_def case_prod_unfold)
  have "\<forall>x\<in>set (map snd (compute_rects rnew c r)).
      \<forall>y\<in>set (map snd (compute_children rnew cs rs (Suc i))). cells x \<inter> cells y = {}"
    using hc hcs dj by blast
  then show ?case
    using hc hcs
    by (simp only: rects compute_children.simps leaves_list.simps map_append snd fst fstl
        disjoint_rects_def sorted_wrt_append set_append) auto
qed (auto simp: disjoint_rects_def)

section \<open>Dragging a border\<close>

text \<open>
  i32 arithmetic wraps and divides towards zero; \<open>clamp\<close> panics when the bounds are
  reversed.
\<close>

definition wrap_i32 :: "int \<Rightarrow> int" where
  "wrap_i32 z = (z + 2147483648) mod 4294967296 - 2147483648"

definition trunc_div :: "int \<Rightarrow> int \<Rightarrow> int" where
  "trunc_div x y = (if (x < 0) = (y < 0) then \<bar>x\<bar> div \<bar>y\<bar> else - (\<bar>x\<bar> div \<bar>y\<bar>))"

definition clamp :: "int \<Rightarrow> int \<Rightarrow> int \<Rightarrow> int option" where
  "clamp x lo hi = (if lo > hi then None else Some (if x < lo then lo else if x > hi then hi else x))"

record drag_state =
  split_path :: path
  drag_kind :: layout_kind
  drag_index :: nat
  start_x :: nat
  start_y :: nat
  left_initial :: nat
  right_initial :: nat
  total_pixels :: nat

definition adjusted_sizes :: "drag_state \<Rightarrow> nat \<Rightarrow> nat \<Rightarrow> nat list \<Rightarrow> nat list option" where
  "adjusted_sizes d x y sizes =
     (if drag_index d + 1 < length sizes
      then let total_pct = add16 (sizes ! drag_index d) (sizes ! (drag_index d + 1));
               min_pct = 5;
               pixel_delta = (case drag_kind d of Horizontal \<Rightarrow> int x - int (start_x d)
                                                | Vertical \<Rightarrow> int y - int (start_y d));
               total_px = int (max (total_pixels d) 1);
               pct_delta = trunc_div (wrap_i32 (pixel_delta * int total_pct)) total_px
           in do { left \<leftarrow> clamp (wrap_i32 (int (left_initial d) + pct_delta)) (int min_pct)
                            (int (sub16 total_pct min_pct));
                   let left = nat (left mod 65536);
                   let right = sub16 total_pct left;
                   Some (sizes[drag_index d := left, drag_index d + 1 := right]) }
      else None)"

definition adjust_split_sizes :: "node \<Rightarrow> drag_state \<Rightarrow> nat \<Rightarrow> nat \<Rightarrow> node option" where
  "adjust_split_sizes root d x y =
     (case node_at root (split_path d) of
        Some (Split k sizes cs) \<Rightarrow>
          map_option (\<lambda>sizes'. update_at (\<lambda>n. Split k sizes' cs) root (split_path d))
            (adjusted_sizes d x y sizes)
      | _ \<Rightarrow> Some root)"

lemma sum_list_update2:
  fixes xs :: "nat list"
  assumes "Suc i < length xs" "a + b = xs ! i + xs ! Suc i"
  shows "sum_list (xs[i := a, Suc i := b]) = sum_list xs"
  using assms
proof (induction xs arbitrary: i)
  case (Cons x xs)
  show ?case
  proof (cases i)
    case 0
    with Cons obtain y ys where "xs = y # ys" by (cases xs) auto
    with 0 Cons.prems show ?thesis by simp
  next
    case (Suc j)
    with Cons show ?thesis by simp
  qed
qed simp

lemma pair_le_sum: "Suc i < length xs \<Longrightarrow> xs ! i + xs ! Suc i \<le> sum_list (xs :: nat list)"
proof (induction xs arbitrary: i)
  case (Cons x xs)
  then show ?case
    by (cases i) (auto simp: elem_le_sum_list trans_le_add2)
qed simp

lemma adjusted_sizes_props:
  assumes "Suc (drag_index d) < length sizes" "sum_list sizes < 65536"
    "10 \<le> sizes ! drag_index d + sizes ! Suc (drag_index d)"
  shows "\<exists>sizes'. adjusted_sizes d x y sizes = Some sizes' \<and> length sizes' = length sizes \<and>
    sum_list sizes' = sum_list sizes \<and> 5 \<le> sizes' ! drag_index d \<and> 5 \<le> sizes' ! Suc (drag_index d)"
proof -
  define t where "t = sizes ! drag_index d + sizes ! Suc (drag_index d)"
  have t: "t < 65536" "10 \<le> t"
    using pair_le_sum [OF assms(1)] assms(2,3) by (auto simp: t_def)
  define v where "v = wrap_i32 (int (left_initial d) + trunc_div (wrap_i32
     ((case drag_kind d of Horizontal \<Rightarrow> int x - int (start_x d) | Vertical \<Rightarrow> int y - int (start_y d))
       * int t)) (int (max (total_pixels d) 1)))"
  obtain l where l: "clamp v 5 (int (t - 5)) = Some l" "5 \<le> l" "l \<le> int t - 5"
    using t by (auto simp: clamp_def)
  define m where "m = nat l"
  have m: "nat (l mod 65536) = m" "5 \<le> m" "m + 5 \<le> t"
    using l t by (auto simp: m_def)
  have "adjusted_sizes d x y sizes = Some (sizes[drag_index d := m, Suc (drag_index d) := t - m])"
    using assms(1) t m l(1) [unfolded v_def]
    by (simp add: adjusted_sizes_def Let_def t_def [symmetric])
  moreover have "sum_list (sizes[drag_index d := m, Suc (drag_index d) := t - m]) = sum_list sizes"
    using m by (intro sum_list_update2 [OF assms(1)]) (simp add: t_def)
  ultimately show ?thesis using assms(1) m by simp
qed

lemma list_all_nthD: "list_all P xs \<Longrightarrow> i < length xs \<Longrightarrow> P (xs ! i)"
  by (simp add: list_all_length)

lemma wf_update_at:
  "wf_tree n \<Longrightarrow> node_at n path = Some sub \<Longrightarrow> wf_tree (f sub) \<Longrightarrow> wf_tree (update_at f n path)"
  by (induction f n path rule: update_at.induct)
    (auto simp: list_all_nthD intro!: list_all_update split: if_splits)

lemma panes_update_at:
  "node_at n path = Some sub \<Longrightarrow> panes_of (f sub) = panes_of sub \<Longrightarrow> panes_of (update_at f n path) = panes_of n"
  by (induction f n path rule: update_at.induct)
    (auto simp: panes_of_list_update panes_of_list_split split: if_splits)

section \<open>Properties\<close>

text \<open>
  C1: the screen is partitioned among the panes: one rectangle per pane, in tree order
  and under the pane's path, inside the window's area, and no two panes own the same
  cell. This holds for any area, however small.
\<close>

theorem compute_rects_partition:
  assumes "rect_new_ok rnew" "wf_tree n" "rect_fits area"
  shows "map fst (compute_rects rnew n area) = map snd (collect_leaf_paths n) \<and>
    (\<forall>r\<in>set (map snd (compute_rects rnew n area)). rect_fits r \<and> cells r \<subseteq> cells area) \<and>
    disjoint_rects (map snd (compute_rects rnew n area))"
  using compute_rects_props(1) [OF assms]
  by (simp add: collect_leaf_paths_leaves comp_def case_prod_unfold)

theorem compute_rects_partition_witness:
  "map fst (compute_rects clip_rect example_tree \<lparr>rx = 0, ry = 0, rw = 80, rh = 24\<rparr>) = [[0], [1, 0], [1, 1]] \<and>
   disjoint_rects (map snd (compute_rects clip_rect example_tree \<lparr>rx = 0, ry = 0, rw = 80, rh = 24\<rparr>))"
  using compute_rects_partition [OF clip_rect_ok, of example_tree "\<lparr>rx = 0, ry = 0, rw = 80, rh = 24\<rparr>"]
  by (simp add: example_simps rect_fits_def)

text \<open>
  Along the axis of a split the children and the separators fill the area exactly
  whenever there is room for the separators: the sizes and the separators sum to the
  length of the area, and each child begins one separator after the end of the one
  before it.
\<close>

theorem split_with_gaps_fills:
  assumes "rect_new_ok rnew" "rect_fits area" "shares_ok ss" "2 \<le> length ss" "length ss < 65536"
    "length ss - 1 \<le> axis_len horiz area"
  shows "sum_list (map (axis_len horiz) (split_with_gaps rnew horiz ss area)) + (length ss - 1)
      = axis_len horiz area \<and>
    (\<forall>k. Suc k < length ss \<longrightarrow>
      axis_pos horiz (split_with_gaps rnew horiz ss area ! Suc k) =
      axis_pos horiz (split_with_gaps rnew horiz ss area ! k) +
      axis_len horiz (split_with_gaps rnew horiz ss area ! k) + 1)"
proof -
  define g where "g = length ss - 1"
  define avail where "avail = axis_len horiz area - g"
  define sp where "sp = gap_loop avail (sum_list ss) (length ss) 0 0 ss"
  define rs where "rs = split_with_gaps rnew horiz ss area"
  have rs: "rs = map (child_rect rnew horiz area) sp" and t: "tiles 0 0 avail sp"
    using split_with_gaps_tiles(1) [OF assms(2-5), of horiz] split_with_gaps_tiles(2) [OF assms(2-5)]
    by (simp_all add: rs_def sp_def avail_def g_def)
  have len: "length sp = length ss" by (simp add: sp_def)
  have room: "g \<le> axis_len horiz area" using assms(6) by (simp add: g_def)
  have nth: "axis_len horiz (rs ! m) = snd (snd (sp ! m)) \<and>
      axis_pos horiz (rs ! m) = axis_pos horiz area + fst (snd (sp ! m)) + m" if m: "m < length ss" for m
  proof -
    from tiles_nth [OF t, of m] m len obtain o' s where
      sp: "sp ! m = (m, o', s)" and le: "o' + s \<le> axis_len horiz area - g" by (auto simp: avail_def)
    have "m \<le> g" "m < 65536" using m assms(5) by (auto simp: g_def)
    note b = child_rect_built [OF assms(1,2) le this disjI1 [OF room]]
    show ?thesis using b(1) b(5) [OF room] m len sp by (simp add: rs)
  qed
  have "map (axis_len horiz) rs = map (snd \<circ> snd) sp"
    by (rule nth_equalityI) (use nth len rs in auto)
  then have "sum_list (map (axis_len horiz) rs) = avail" using tiles_sum [OF t] by simp
  moreover have "axis_pos horiz (rs ! Suc k) = axis_pos horiz (rs ! k) + axis_len horiz (rs ! k) + 1"
    if "Suc k < length ss" for k
    using tiles_nth [OF t, of k] that len nth [of k] nth [of "Suc k"] by auto
  ultimately show ?thesis using room by (simp add: rs_def avail_def g_def)
qed

theorem split_with_gaps_fills_witness:
  "rect_fits \<lparr>rx = 0, ry = 0, rw = 80, rh = 24\<rparr> \<and>
   sum_list (map (axis_len True) (split_with_gaps clip_rect True [30, 30, 40] \<lparr>rx = 0, ry = 0, rw = 80, rh = 24\<rparr>)) + 2 = 80"
  using split_with_gaps_fills [OF clip_rect_ok, of "\<lparr>rx = 0, ry = 0, rw = 80, rh = 24\<rparr>" "[30, 30, 40]" True]
  by (simp add: rect_fits_def shares_ok_def axis_len_def)

text \<open>
  Dragging the border between two children that share at least ten percent moves
  share from one to the other: no panic, the total is kept, each keeps at least five
  percent, no pane is lost and the tree stays well formed.
\<close>

theorem adjust_split_sizes_keeps_total:
  assumes "wf_tree root" "node_at root (split_path d) = Some (Split k ss cs)"
    "Suc (drag_index d) < length ss" "10 \<le> ss ! drag_index d + ss ! Suc (drag_index d)"
  shows "\<exists>root' ss'. adjust_split_sizes root d x y = Some root' \<and> wf_tree root' \<and>
    panes_of root' = panes_of root \<and> adjusted_sizes d x y ss = Some ss' \<and>
    sum_list ss' = sum_list ss \<and> 5 \<le> ss' ! drag_index d \<and> 5 \<le> ss' ! Suc (drag_index d)"
proof -
  have wf: "wf_tree (Split k ss cs)" by (rule wf_tree_node_at [OF assms(1,2)])
  then have "sum_list ss < 65536" by (simp add: shares_ok_def)
  from adjusted_sizes_props [OF assms(3) this assms(4), of x y] obtain ss' where
    ss': "adjusted_sizes d x y ss = Some ss'" "length ss' = length ss" "sum_list ss' = sum_list ss"
      "5 \<le> ss' ! drag_index d" "5 \<le> ss' ! Suc (drag_index d)" by blast
  have "wf_tree (Split k ss' cs)" using wf ss' by (simp add: shares_ok_def)
  with wf_update_at [OF assms(1,2), of "\<lambda>n. Split k ss' cs"]
    panes_update_at [OF assms(2), of "\<lambda>n. Split k ss' cs"] ss' assms(2)
  show ?thesis by (simp add: adjust_split_sizes_def)
qed

definition example_drag :: drag_state where
  "example_drag = \<lparr>split_path = [1], drag_kind = Vertical, drag_index = 0, start_x = 0, start_y = 14,
     left_initial = 60, right_initial = 40, total_pixels = 24\<rparr>"

theorem adjust_split_sizes_keeps_total_witness:
  "\<exists>root' ss'. adjust_split_sizes example_tree example_drag 50 2 = Some root' \<and> wf_tree root' \<and>
    panes_of root' = panes_of example_tree \<and> adjusted_sizes example_drag 50 2 [60, 40] = Some ss' \<and>
    sum_list ss' = sum_list [60, 40::nat] \<and> 5 \<le> ss' ! drag_index example_drag \<and>
    5 \<le> ss' ! Suc (drag_index example_drag)"
  by (rule adjust_split_sizes_keeps_total [where k = Vertical and cs = "[Leaf (mk_pane 2), Leaf (mk_pane 3)]"])
    (simp_all add: example_simps example_drag_def)

text \<open>
  C39: a border between two children that together hold five to nine percent cannot be
  dragged: the bounds given to \<open>clamp\<close> are reversed and the drag panics, whatever the
  mouse does.
\<close>

theorem adjust_split_sizes_small_pair_panics:
  assumes "node_at root (split_path d) = Some (Split k ss cs)" "Suc (drag_index d) < length ss"
    "5 \<le> ss ! drag_index d + ss ! Suc (drag_index d)" "ss ! drag_index d + ss ! Suc (drag_index d) < 10"
  shows "adjust_split_sizes root d x y = None"
  using assms by (auto simp: adjust_split_sizes_def adjusted_sizes_def clamp_def Let_def)

theorem adjust_split_sizes_small_pair_panics_witness:
  "adjust_split_sizes (Split Horizontal [92, 4, 4] [Leaf (mk_pane 1), Leaf (mk_pane 2), Leaf (mk_pane 3)])
     (example_drag\<lparr>split_path := [], drag_kind := Horizontal, drag_index := 1\<rparr>) 75 3 = None"
  using adjust_split_sizes_small_pair_panics
    [of "Split Horizontal [92, 4, 4] [Leaf (mk_pane 1), Leaf (mk_pane 2), Leaf (mk_pane 3)]"
      "example_drag\<lparr>split_path := [], drag_kind := Horizontal, drag_index := 1\<rparr>" Horizontal "[92, 4, 4]"
      "[Leaf (mk_pane 1), Leaf (mk_pane 2), Leaf (mk_pane 3)]" 75 3]
  by (simp add: example_drag_def)

end
