(* ===== verification/Windows.thy ===== *)
theory Windows
  imports Pane_Geometry
begin

text \<open>
  The windows of the server (core/src/types.rs, core/src/tree.rs, core/src/window_ops.rs
  and the pane killing of core/src/pane.rs): the application state as far as the
  layout code uses it, and its operations. \<open>None\<close> is a panic, as when
  \<open>app.windows[app.active_idx]\<close> is out of range. Operations that kill processes
  return the identifiers of the panes killed beside the new state.
\<close>

section \<open>State\<close>

record window =
  root :: node
  active_path :: path
  wname :: string
  wid :: nat
  activity_flag :: bool
  bell_flag :: bool
  silence_flag :: bool
  manual_rename :: bool
  layout_index :: nat
  pane_mru :: "nat list"
  zoom_saved :: "(path \<times> nat list) list option"
  linked_from :: "nat option"

record app_state =
  windows :: "window list"
  active_idx :: nat
  last_window_area :: rect
  remain_on_exit :: bool
  main_pane_width :: nat
  main_pane_height :: nat
  next_win_id :: nat

definition find_window_index_by_id :: "app_state \<Rightarrow> nat \<Rightarrow> nat option" where
  "find_window_index_by_id app i = position (\<lambda>w. wid w = i) (windows app)"

definition active_window :: "app_state \<Rightarrow> window option" where
  "active_window app = get (windows app) (active_idx app)"

definition set_window :: "nat \<Rightarrow> window \<Rightarrow> app_state \<Rightarrow> app_state" where
  "set_window i w app = app\<lparr>windows := (windows app)[i := w]\<rparr>"

definition kill_all_children_batch :: "window list \<Rightarrow> nat list" where
  "kill_all_children_batch ws = concat (map (\<lambda>w. kill_all_children (root w)) ws)"

section \<open>Focus\<close>

definition focus_pane_by_id :: "app_state \<Rightarrow> nat \<Rightarrow> app_state \<times> bool" where
  "focus_pane_by_id app pid =
     (case find_map (\<lambda>(wi, w). map_option (Pair wi) (find_path_by_id (root w) pid))
             (enumerate 0 (windows app)) of
        Some (wi, p) \<Rightarrow>
          let w = windows app ! wi
          in (set_window wi (w\<lparr>active_path := p, pane_mru := touch_mru (pane_mru w) pid\<rparr>)
                (app\<lparr>active_idx := wi\<rparr>), True)
      | None \<Rightarrow> (app, False))"

definition focus_pane_by_index :: "app_state \<Rightarrow> nat \<Rightarrow> (app_state \<times> bool) option" where
  "focus_pane_by_index app idx =
     do { w \<leftarrow> active_window app;
          Some (case get (map snd (collect_leaf_paths (root w))) idx of
                  Some p \<Rightarrow> (set_window (active_idx app) (w\<lparr>active_path := p\<rparr>) app, True)
                | None \<Rightarrow> (app, False)) }"

text \<open>The path to focus: the first identifier of the list that is still in the tree, else the first leaf.\<close>

definition refocus :: "node \<Rightarrow> nat list \<Rightarrow> path" where
  "refocus n candidates =
     (case find_map (find_path_by_id n) candidates of Some p \<Rightarrow> p | None \<Rightarrow> first_leaf_path n)"

section \<open>Resizing the panes to their areas\<close>

definition MIN_PANE_DIM :: nat where
  "MIN_PANE_DIM = 2"

definition resize_pane :: "rect \<Rightarrow> pane \<Rightarrow> pane" where
  "resize_pane r p =
     (if rw r = 0 \<or> rh r = 0 then p
      else let h = max (rh r) MIN_PANE_DIM; w = max (rw r) MIN_PANE_DIM
           in if last_rows p \<noteq> h \<or> last_cols p \<noteq> w
              then p\<lparr>pty_rows := h, pty_cols := w, term_rows := h, term_cols := w,
                     last_rows := h, last_cols := w\<rparr>
              else p)"

fun resize_node :: "(path \<times> rect) list \<Rightarrow> node \<Rightarrow> path \<Rightarrow> node"
  and resize_nodes :: "(path \<times> rect) list \<Rightarrow> node list \<Rightarrow> path \<Rightarrow> nat \<Rightarrow> node list" where
  "resize_node rects (Leaf p) path =
     (case find (\<lambda>(q, r). q = path) rects of
        Some (q, r) \<Rightarrow> Leaf (resize_pane r p)
      | None \<Rightarrow> Leaf p)"
| "resize_node rects (Split k ss cs) path = Split k ss (resize_nodes rects cs path 0)"
| "resize_nodes rects [] path i = []"
| "resize_nodes rects (c # cs) path i =
     resize_node rects c (path @ [i]) # resize_nodes rects cs path (Suc i)"

definition resize_all_panes :: "rect_ctor \<Rightarrow> app_state \<Rightarrow> app_state" where
  "resize_all_panes rnew app =
     (let area = last_window_area app
      in if windows app = [] then app
         else if rw area = 0 \<or> rh area = 0 then app
         else case active_window app of
                None \<Rightarrow> app
              | Some w \<Rightarrow>
                  let rects = compute_rects rnew (root w) area
                  in set_window (active_idx app) (w\<lparr>root := resize_node rects (root w) []\<rparr>) app)"

section \<open>Reaping exited panes\<close>

text \<open>
  One window of the loop of \<open>reap_children\<close>. \<open>probe\<close> is the \<open>try_wait\<close> of the fast
  check, \<open>exited\<close> the one of the pruning, which runs later.
\<close>

definition reap_window :: "(pane \<Rightarrow> bool) \<Rightarrow> (pane \<Rightarrow> bool) \<Rightarrow> nat \<Rightarrow> app_state \<times> bool \<Rightarrow> (app_state \<times> bool) option" where
  "reap_window probe exited i = (\<lambda>(app, any_pruned).
     do { w \<leftarrow> get (windows app) i;
          if \<not> has_any_exited probe (root w) then Some (app, any_pruned)
          else do {
            let leaves_before = count_panes (root w);
            let dead_before = count_dead_panes (root w);
            let active_pane_id = get_active_pane_id (root w) (active_path w);
            r \<leftarrow> prune_exited exited (root w) (remain_on_exit app);
            case r of
              Some new_root \<Rightarrow>
                do { let leaves_after = count_panes new_root;
                     let dead_after = count_dead_panes new_root;
                     let any_pruned = (any_pruned \<or> leaves_after < leaves_before \<or> dead_after > dead_before);
                     let mru = (if leaves_after < leaves_before
                                then filter (\<lambda>x. x \<in> set (collect_pane_ids new_root)) (pane_mru w)
                                else pane_mru w);
                     let current_id = get_active_pane_id new_root (active_path w);
                     let path = (if current_id \<noteq> active_pane_id \<or> \<not> path_exists new_root (active_path w)
                                 then refocus new_root
                                        ((case active_pane_id of Some x \<Rightarrow> [x] | None \<Rightarrow> []) @ mru)
                                 else active_path w);
                     Some (set_window i (w\<lparr>root := new_root, pane_mru := mru, active_path := path\<rparr>) app,
                           any_pruned) }
            | None \<Rightarrow>
                do { let ws = drop_nth i (windows app);
                     let idx = (if ws \<noteq> []
                                then (if i < active_idx app then active_idx app - 1
                                      else if active_idx app \<ge> length ws then length ws - 1
                                      else active_idx app)
                                else active_idx app);
                     Some (app\<lparr>windows := ws, active_idx := idx\<rparr>, True) } } })"

fun reap_from :: "(pane \<Rightarrow> bool) \<Rightarrow> (pane \<Rightarrow> bool) \<Rightarrow> nat \<Rightarrow> app_state \<times> bool \<Rightarrow> (app_state \<times> bool) option" where
  "reap_from probe exited 0 s = Some s"
| "reap_from probe exited (Suc i) s = do { s' \<leftarrow> reap_window probe exited i s; reap_from probe exited i s' }"

definition reap_children :: "(pane \<Rightarrow> bool) \<Rightarrow> (pane \<Rightarrow> bool) \<Rightarrow> app_state \<Rightarrow> (app_state \<times> (bool \<times> bool)) option" where
  "reap_children probe exited app =
     do { (app', any_pruned) \<leftarrow> reap_from probe exited (length (windows app)) (app, False);
          Some (app', (windows app' = [], any_pruned)) }"

section \<open>Killing a pane\<close>

definition kill_pane_at_path :: "window \<Rightarrow> path \<Rightarrow> (window \<times> nat list) option" where
  "kill_pane_at_path w path =
     do { let killed_id = get_active_pane_id (root w) path;
          let first = (case active_pane_mut (root w) path of Some p \<Rightarrow> [pane_id p] | None \<Rightarrow> []);
          (root', killed) \<leftarrow> kill_leaf (root w) path;
          let mru = (case killed_id of Some x \<Rightarrow> remove_from_mru (pane_mru w) x | None \<Rightarrow> pane_mru w);
          Some (w\<lparr>root := root', pane_mru := mru, active_path := refocus root' mru\<rparr>, first @ killed) }"

definition kill_active_pane :: "app_state \<Rightarrow> (app_state \<times> nat list) option" where
  "kill_active_pane app =
     do { w \<leftarrow> active_window app;
          (w', killed) \<leftarrow> kill_pane_at_path w (active_path w);
          Some (set_window (active_idx app) w' app, killed) }"

definition kill_pane_by_id :: "app_state \<Rightarrow> nat \<Rightarrow> (app_state \<times> nat list) option" where
  "kill_pane_by_id app pid =
     do { w \<leftarrow> active_window app;
          let restore_idx = active_idx app;
          let restore_pane_id = get_active_pane_id (root w) (active_path w);
          case find_map (\<lambda>(wi, w). map_option (Pair wi) (find_path_by_id (root w) pid))
                 (enumerate 0 (windows app)) of
            None \<Rightarrow> Some (app, [])
          | Some (target_idx, target_path) \<Rightarrow>
              do { tw \<leftarrow> get (windows app) target_idx;
                   (tw', killed) \<leftarrow> kill_pane_at_path tw target_path;
                   let app = set_window target_idx tw' app;
                   if restore_idx < length (windows app) \<and> target_idx \<noteq> restore_idx
                   then do { rw \<leftarrow> get (windows app) restore_idx;
                             let path = (case Option.bind restore_pane_id (find_path_by_id (root rw)) of
                                           Some p \<Rightarrow> p | None \<Rightarrow> first_leaf_path (root rw));
                             Some (set_window restore_idx (rw\<lparr>active_path := path\<rparr>)
                                     (app\<lparr>active_idx := restore_idx\<rparr>), killed) }
                   else Some (app, killed) } }"

section \<open>Zoom\<close>

definition set_split_sizes :: "nat list \<Rightarrow> node \<Rightarrow> node" where
  "set_split_sizes sz n = (case n of Split k ss cs \<Rightarrow> Split k sz cs | Leaf p \<Rightarrow> Leaf p)"

definition zoom_shares :: "nat \<Rightarrow> nat list \<Rightarrow> nat list" where
  "zoom_shares idx ss = map (\<lambda>i. if i = idx then 100 else 0) [0..<length ss]"

definition zoom_step :: "path \<Rightarrow> nat \<Rightarrow> node \<times> (path \<times> nat list) list \<Rightarrow> node \<times> (path \<times> nat list) list" where
  "zoom_step active depth = (\<lambda>(n, saved).
     let p = take depth active
     in case node_at n p of
          Some (Split k ss cs) \<Rightarrow>
            (update_at (set_split_sizes (zoom_shares (active ! depth) ss)) n p, saved @ [(p, ss)])
        | _ \<Rightarrow> (n, saved))"

definition zoom_in :: "node \<Rightarrow> path \<Rightarrow> node \<times> (path \<times> nat list) list" where
  "zoom_in n active = fold (zoom_step active) [0..<length active] (n, [])"

definition zoom_out :: "node \<Rightarrow> (path \<times> nat list) list \<Rightarrow> node" where
  "zoom_out n saved = fold (\<lambda>(p, sz) n. update_at (set_split_sizes sz) n p) saved n"

definition unzoom_if_zoomed :: "rect_ctor \<Rightarrow> app_state \<Rightarrow> (app_state \<times> bool) option" where
  "unzoom_if_zoomed rnew app =
     do { w \<leftarrow> active_window app;
          Some (case zoom_saved w of
                  Some saved \<Rightarrow>
                    (resize_all_panes rnew (set_window (active_idx app)
                       (w\<lparr>zoom_saved := None, root := zoom_out (root w) saved\<rparr>) app), True)
                | None \<Rightarrow> (app, False)) }"

definition toggle_zoom :: "rect_ctor \<Rightarrow> app_state \<Rightarrow> app_state option" where
  "toggle_zoom rnew app =
     do { w \<leftarrow> active_window app;
          let w' = (case zoom_saved w of
                      None \<Rightarrow> (let (n, saved) = zoom_in (root w) (active_path w)
                               in w\<lparr>root := n, zoom_saved := Some saved\<rparr>)
                    | Some saved \<Rightarrow> w\<lparr>zoom_saved := None, root := zoom_out (root w) saved\<rparr>);
          Some (resize_all_panes rnew (set_window (active_idx app) w' app)) }"

definition push_zoom :: "rect_ctor \<Rightarrow> app_state \<Rightarrow> (app_state \<times> bool) option" where
  "push_zoom rnew app =
     do { w \<leftarrow> active_window app;
          if zoom_saved w \<noteq> None
          then do { (app', b) \<leftarrow> unzoom_if_zoomed rnew app; Some (app', True) }
          else Some (app, False) }"

definition pop_zoom :: "rect_ctor \<Rightarrow> app_state \<Rightarrow> bool \<Rightarrow> app_state option" where
  "pop_zoom rnew app was_zoomed =
     (if was_zoomed
      then do { w \<leftarrow> active_window app;
                if zoom_saved w = None then toggle_zoom rnew app else Some app }
      else Some app)"

end
