(* ===== verification/Text.thy ===== *)
theory Text
  imports Prelude
begin

text \<open>
  The operations on text that the code takes from the standard library of Rust. A string is
  a list of bytes, taken to be ASCII: white space, letter case and slices are those of
  ASCII text.
\<close>

section \<open>Characters\<close>

definition is_digit :: "char \<Rightarrow> bool" where
  "is_digit c = (48 \<le> (of_char c :: nat) \<and> (of_char c :: nat) \<le> 57)"

definition is_hex :: "char \<Rightarrow> bool" where
  "is_hex c = (is_digit c \<or> (97 \<le> (of_char c :: nat) \<and> (of_char c :: nat) \<le> 102) \<or>
               (65 \<le> (of_char c :: nat) \<and> (of_char c :: nat) \<le> 70))"

definition is_space :: "char \<Rightarrow> bool" where
  "is_space c = (of_char c = (32::nat) \<or> (9 \<le> (of_char c :: nat) \<and> (of_char c :: nat) \<le> 13))"

definition trim :: "string \<Rightarrow> string" where
  "trim s = rev (dropWhile is_space (rev (dropWhile is_space s)))"

definition lower_char :: "char \<Rightarrow> char" where
  "lower_char c = (if 65 \<le> (of_char c :: nat) \<and> (of_char c :: nat) \<le> 90 then char_of ((of_char c :: nat) + 32) else c)"

definition is_alnum :: "char \<Rightarrow> bool" where
  "is_alnum c = (is_digit c \<or> (65 \<le> (of_char c :: nat) \<and> (of_char c :: nat) \<le> 90) \<or>
                 (97 \<le> (of_char c :: nat) \<and> (of_char c :: nat) \<le> 122))"

definition lower :: "string \<Rightarrow> string" where
  "lower s = map lower_char s"

section \<open>Splitting\<close>

text \<open>\<open>str::split\<close> on a character: one part more than there are separators.\<close>

fun split_on :: "char \<Rightarrow> string \<Rightarrow> string list" where
  "split_on c [] = [[]]"
| "split_on c (x # xs) =
     (if x = c then [] # split_on c xs else (case split_on c xs of [] \<Rightarrow> [[x]] | y # ys \<Rightarrow> (x # y) # ys))"

text \<open>\<open>str::lines\<close>: a final line end opens no line, a carriage return before a line end goes.\<close>

definition strip_cr :: "string \<Rightarrow> string" where
  "strip_cr l = (if l \<noteq> [] \<and> last l = char_of (13::nat) then butlast l else l)"

definition text_lines :: "string \<Rightarrow> string list" where
  "text_lines s =
     (let parts = split_on (char_of (10::nat)) s
      in map strip_cr (butlast parts) @ (if last parts = [] then [] else [last parts]))"

text \<open>\<open>str::split_whitespace\<close>\<close>

fun split_spaces :: "string \<Rightarrow> string \<Rightarrow> string list" where
  "split_spaces [] acc = (if acc = [] then [] else [rev acc])"
| "split_spaces (c # cs) acc =
     (if is_space c then (if acc = [] then split_spaces cs [] else rev acc # split_spaces cs [])
      else split_spaces cs (c # acc))"

definition split_whitespace :: "string \<Rightarrow> string list" where
  "split_whitespace s = split_spaces s []"

definition strip_prefix :: "string \<Rightarrow> string \<Rightarrow> string option" where
  "strip_prefix p s = (if take (length p) s = p then Some (drop (length p) s) else None)"

section \<open>Numbers\<close>

text \<open>\<open>str::parse\<close> for an unsigned integer: an optional plus sign, then digits, in range.\<close>

definition digits_value :: "string \<Rightarrow> nat" where
  "digits_value s = foldl (\<lambda>a c. a * 10 + (of_char c - 48)) 0 s"

definition parse_uint :: "nat \<Rightarrow> string \<Rightarrow> nat option" where
  "parse_uint maxv s =
     (let t = (case s of [] \<Rightarrow> [] | c # cs \<Rightarrow> if c = CHR ''+'' then cs else s)
      in if t = [] \<or> \<not> list_all is_digit t then None
         else if digits_value t \<le> maxv then Some (digits_value t) else None)"

text \<open>The decimal digits of a number, as the formatting macros print it.\<close>

fun show_digits :: "nat \<Rightarrow> string" where
  "show_digits n = (if n < 10 then [char_of (48 + n)] else show_digits (n div 10) @ [char_of (48 + n mod 10)])"

declare show_digits.simps [simp del]

lemma char_digit: "d < 10 \<Longrightarrow> is_digit (char_of (48 + d)) \<and> (of_char (char_of (48 + d) :: char) :: nat) = 48 + d"
  by (auto simp: is_digit_def)

lemma show_digits_props:
  "list_all is_digit (show_digits n) \<and> show_digits n \<noteq> [] \<and> digits_value (show_digits n) = n"
proof (induction n rule: show_digits.induct)
  case (1 n)
  show ?case
  proof (cases "n < 10")
    case True
    with char_digit [of n] show ?thesis
      by (subst (1 2 3) show_digits.simps) (simp add: digits_value_def)
  next
    case False
    with 1 char_digit [of "n mod 10"] show ?thesis
      by (subst (1 2 3) show_digits.simps) (simp add: digits_value_def)
  qed
qed

end
