(* ===== verification/Window_Ops.thy ===== *)
theory Window_Ops
  imports Windows Text
begin

text \<open>
  Resizing by key or command, border sizes sent by a client, rotation, breaking a pane
  out of its window (core/src/window_ops.rs), and the spatial navigation between panes
  (core/src/input.rs).
\<close>

section \<open>i16 arithmetic\<close>

definition as_i16 :: "nat \<Rightarrow> int" where
  "as_i16 n = (let m = n mod 65536 in if m < 32768 then int m else int m - 65536)"

definition wrap_i16 :: "int \<Rightarrow> int" where
  "wrap_i16 z = (z + 32768) mod 65536 - 32768"

lemma as_i16_small [simp]: "n < 32768 \<Longrightarrow> as_i16 n = int n"
  by (simp add: as_i16_def)

lemma wrap_i16_small: "-32768 \<le> z \<Longrightarrow> z < 32768 \<Longrightarrow> wrap_i16 z = z"
  by (simp add: wrap_i16_def)

section \<open>Resizing by shares\<close>

text \<open>The neighbour that gives or takes the difference: the next child, else the one before.\<close>

definition absorb :: "nat \<Rightarrow> int \<Rightarrow> nat list \<Rightarrow> nat list" where
  "absorb idx diff ss =
     (if idx + 1 < length ss
      then ss[idx + 1 := nat (max (wrap_i16 (as_i16 (ss ! (idx + 1)) - diff)) 1)]
      else if idx > 0
      then ss[idx - 1 := nat (max (wrap_i16 (as_i16 (ss ! (idx - 1)) - diff)) 1)]
      else ss)"

definition resize_shares :: "int \<Rightarrow> nat \<Rightarrow> nat list \<Rightarrow> nat list" where
  "resize_shares amount idx ss =
     (if idx < length ss
      then let new_size = nat (max (wrap_i16 (as_i16 (ss ! idx) + amount)) 1);
               diff = wrap_i16 (as_i16 new_size - as_i16 (ss ! idx))
           in absorb idx diff (ss[idx := new_size])
      else ss)"

definition set_share :: "nat \<Rightarrow> nat \<Rightarrow> nat list \<Rightarrow> nat list" where
  "set_share target idx ss =
     (if idx < length ss
      then let new = max target 1;
               diff = wrap_i16 (as_i16 new - as_i16 (ss ! idx))
           in absorb idx diff (ss[idx := new])
      else ss)"

text \<open>The loop over the ancestors of the active pane, deepest first, up to a split of the kind.\<close>

definition ancestor_split :: "layout_kind \<Rightarrow> node \<Rightarrow> path \<Rightarrow> nat option" where
  "ancestor_split kind n active =
     find_map (\<lambda>depth. case node_at n (take depth active) of
                          Some (Split k ss cs) \<Rightarrow> if k = kind then Some depth else None
                        | _ \<Rightarrow> None)
       (rev [0..<length active])"

definition resize_ancestor :: "layout_kind \<Rightarrow> (nat \<Rightarrow> nat list \<Rightarrow> nat list) \<Rightarrow> app_state \<Rightarrow> app_state option" where
  "resize_ancestor kind f app =
     do { w \<leftarrow> active_window app;
          Some (case ancestor_split kind (root w) (active_path w) of
                  None \<Rightarrow> app
                | Some depth \<Rightarrow>
                    set_window (active_idx app)
                      (w\<lparr>root := update_at
                           (\<lambda>n. case n of Split k ss cs \<Rightarrow> Split k (f (active_path w ! depth) ss) cs
                                        | Leaf p \<Rightarrow> Leaf p)
                           (root w) (take depth (active_path w))\<rparr>) app) }"

definition resize_pane_vertical :: "app_state \<Rightarrow> int \<Rightarrow> app_state option" where
  "resize_pane_vertical app amount = resize_ancestor Vertical (resize_shares amount) app"

definition resize_pane_horizontal :: "app_state \<Rightarrow> int \<Rightarrow> app_state option" where
  "resize_pane_horizontal app amount = resize_ancestor Horizontal (resize_shares amount) app"

definition resize_pane_absolute :: "app_state \<Rightarrow> string \<Rightarrow> nat \<Rightarrow> app_state option" where
  "resize_pane_absolute app axis target =
     resize_ancestor (if axis = ''x'' then Horizontal else Vertical) (set_share target) app"

definition handle_split_set_sizes :: "app_state \<Rightarrow> path \<Rightarrow> nat list \<Rightarrow> app_state option" where
  "handle_split_set_sizes app path sizes =
     do { w \<leftarrow> active_window app;
          Some (case node_at (root w) path of
                  Some (Split k ss cs) \<Rightarrow>
                    if length sizes = length cs \<and> length sizes = length ss
                    then set_window (active_idx app)
                           (w\<lparr>root := update_at (set_split_sizes sizes) (root w) path\<rparr>) app
                    else app
                | _ \<Rightarrow> app) }"

definition handle_split_resize_done :: "rect_ctor \<Rightarrow> app_state \<Rightarrow> app_state" where
  "handle_split_resize_done rnew app = resize_all_panes rnew app"

section \<open>Rotating and breaking\<close>

definition rotate_node :: "bool \<Rightarrow> node \<Rightarrow> node" where
  "rotate_node reverse n =
     (case n of
        Split k ss cs \<Rightarrow>
          if length cs \<ge> 2
          then (if reverse then Split k ss (tl cs @ [hd cs]) else Split k ss (last cs # butlast cs))
          else n
      | Leaf p \<Rightarrow> n)"

definition rotate_panes :: "app_state \<Rightarrow> bool \<Rightarrow> app_state option" where
  "rotate_panes app reverse =
     do { w \<leftarrow> active_window app;
          Some (set_window (active_idx app) (w\<lparr>root := rotate_node reverse (root w)\<rparr>) app) }"

definition broken_window :: "node \<Rightarrow> app_state \<Rightarrow> window" where
  "broken_window n app =
     \<lparr>root = n, active_path = [],
      wname = (case n of Leaf p \<Rightarrow> title p
                       | Split k ss cs \<Rightarrow> ''win '' @ show_digits (length (windows app) + 1)),
      wid = next_win_id app, activity_flag = False, bell_flag = False, silence_flag = False,
      manual_rename = False, layout_index = 0, pane_mru = collect_pane_ids n, zoom_saved = None,
      linked_from = None\<rparr>"

definition break_pane_to_window :: "app_state \<Rightarrow> app_state option" where
  "break_pane_to_window app =
     do { let src = active_idx app;
          w \<leftarrow> active_window app;
          (remaining, extracted) \<leftarrow> extract_node (root w) (active_path w);
          case extracted of
            Some pane_node \<Rightarrow>
              do { let app = (case remaining of
                                Some rem \<Rightarrow> set_window src (w\<lparr>root := rem, active_path := first_leaf_path rem\<rparr>) app
                              | None \<Rightarrow> app);
                   let ws = windows app @ [broken_window pane_node app];
                   let ws = (if remaining = None then drop_nth src ws else ws);
                   Some (app\<lparr>windows := ws, next_win_id := next_win_id app + 1,
                             active_idx := length ws - 1\<rparr>) }
          | None \<Rightarrow>
              Some (case remaining of
                      Some rem \<Rightarrow> set_window src (w\<lparr>root := rem\<rparr>) app
                    | None \<Rightarrow> app) }"

section \<open>Spatial navigation\<close>

datatype focus_dir = FLeft | FRight | FUp | FDown

definition ranges_overlap :: "nat \<Rightarrow> nat \<Rightarrow> nat \<Rightarrow> nat \<Rightarrow> bool" where
  "ranges_overlap a_start a_len b_start b_len =
     (a_start < add16 b_start b_len \<and> b_start < add16 a_start a_len)"

definition perp_overlap :: "focus_dir \<Rightarrow> rect \<Rightarrow> rect \<Rightarrow> bool" where
  "perp_overlap dir r a =
     (if dir = FLeft \<or> dir = FRight then ranges_overlap (ry r) (rh r) (ry a) (rh a)
      else ranges_overlap (rx r) (rw r) (rx a) (rw a))"

definition perp_dist :: "focus_dir \<Rightarrow> rect \<Rightarrow> rect \<Rightarrow> int" where
  "perp_dist dir r a =
     (if dir = FLeft \<or> dir = FRight
      then \<bar>(int (ry r) * 2 + int (rh r)) - (int (ry a) * 2 + int (rh a))\<bar>
      else \<bar>(int (rx r) * 2 + int (rw r)) - (int (rx a) * 2 + int (rw a))\<bar>)"

text \<open>The gap along the primary axis, if the pane lies in the direction.\<close>

definition primary_gap :: "focus_dir \<Rightarrow> rect \<Rightarrow> rect \<Rightarrow> int option" where
  "primary_gap dir r a =
     (case dir of
        FLeft \<Rightarrow> if add16 (rx r) (rw r) > rx a then None else Some (int (rx a - add16 (rx r) (rw r)))
      | FRight \<Rightarrow> if rx r < add16 (rx a) (rw a) then None else Some (int (rx r - add16 (rx a) (rw a)))
      | FUp \<Rightarrow> if add16 (ry r) (rh r) > ry a then None else Some (int (ry a - add16 (ry r) (rh r)))
      | FDown \<Rightarrow> if ry r < add16 (ry a) (rh a) then None else Some (int (ry r - add16 (ry a) (rh a))))"

definition edge_score :: "focus_dir \<Rightarrow> rect \<Rightarrow> int" where
  "edge_score dir r =
     (case dir of
        FRight \<Rightarrow> int (rx r)
      | FLeft \<Rightarrow> - int (add16 (rx r) (rw r))
      | FDown \<Rightarrow> int (ry r)
      | FUp \<Rightarrow> - int (add16 (ry r) (rh r)))"

text \<open>A candidate: index, gap or edge score, perpendicular distance, overlap, rank of recent use.\<close>

type_synonym candidate = "nat \<times> int \<times> int \<times> bool \<times> nat"

definition dominated :: "candidate \<Rightarrow> candidate \<Rightarrow> bool" where
  "dominated = (\<lambda>(i, g, d, ov, rank) (bi, bg, bd, bo, br).
     if ov \<and> \<not> bo then False
     else if \<not> ov \<and> bo then True
     else if g < bg then False
     else if g > bg then True
     else if ov \<and> bo then rank \<ge> br
     else if d < bd then False
     else if d > bd then True
     else rank \<ge> br)"

fun best_candidate :: "candidate list \<Rightarrow> candidate option \<Rightarrow> candidate option" where
  "best_candidate [] best = best"
| "best_candidate (c # cs) best =
     best_candidate cs
       (case best of
          None \<Rightarrow> Some c
        | Some b \<Rightarrow> if dominated c b then Some b else Some c)"

definition candidates :: "(rect \<Rightarrow> int option) \<Rightarrow> (path \<times> rect) list \<Rightarrow> nat \<Rightarrow> rect \<Rightarrow> focus_dir \<Rightarrow> nat list
    \<Rightarrow> nat list \<Rightarrow> candidate list" where
  "candidates score rects ai arect dir pane_ids mru =
     List.map_filter (\<lambda>(i, (p, r)).
         if i = ai then None
         else map_option (\<lambda>g. (i, g, perp_dist dir r arect, perp_overlap dir r arect,
                               (case get pane_ids i of Some x \<Rightarrow> mru_rank mru x | None \<Rightarrow> usize_max)))
                (score r))
       (enumerate 0 rects)"

definition find_best_pane_in_direction :: "(path \<times> rect) list \<Rightarrow> nat \<Rightarrow> rect \<Rightarrow> focus_dir \<Rightarrow> nat list \<Rightarrow> nat list \<Rightarrow> nat option" where
  "find_best_pane_in_direction rects ai arect dir pane_ids mru =
     map_option fst (best_candidate (candidates (\<lambda>r. primary_gap dir r arect) rects ai arect dir pane_ids mru) None)"

definition find_wrap_target :: "(path \<times> rect) list \<Rightarrow> nat \<Rightarrow> rect \<Rightarrow> focus_dir \<Rightarrow> nat list \<Rightarrow> nat list \<Rightarrow> nat option" where
  "find_wrap_target rects ai arect dir pane_ids mru =
     (case best_candidate (candidates (\<lambda>r. Some (edge_score dir r)) rects ai arect dir pane_ids mru) None of
        Some (i, g, d, ov, rank) \<Rightarrow> if ov then Some i else None
      | None \<Rightarrow> None)"

definition focus_window :: "rect_ctor \<Rightarrow> rect \<Rightarrow> focus_dir \<Rightarrow> window \<Rightarrow> window" where
  "focus_window rnew area dir w =
     (let rects = compute_rects rnew (root w) area
      in case position (\<lambda>(p, r). p = active_path w) rects of
           None \<Rightarrow> w
         | Some ai \<Rightarrow>
             let arect = snd (rects ! ai);
                 pane_ids = map (\<lambda>(p, r). case get_active_pane_id (root w) p of Some x \<Rightarrow> x | None \<Rightarrow> usize_max) rects;
                 target = (case find_best_pane_in_direction rects ai arect dir pane_ids (pane_mru w) of
                             Some ni \<Rightarrow> Some ni
                           | None \<Rightarrow> find_wrap_target rects ai arect dir pane_ids (pane_mru w))
             in case target of
                  None \<Rightarrow> w
                | Some ni \<Rightarrow>
                    w\<lparr>pane_mru := (case get pane_ids ni of Some x \<Rightarrow> touch_mru (pane_mru w) x | None \<Rightarrow> pane_mru w),
                      active_path := fst (rects ! ni)\<rparr>)"

definition move_focus :: "rect_ctor \<Rightarrow> app_state \<Rightarrow> focus_dir \<Rightarrow> app_state option" where
  "move_focus rnew app dir =
     do { w \<leftarrow> active_window app;
          Some (set_window (active_idx app) (focus_window rnew (last_window_area app) dir w) app) }"

definition swap_pane :: "rect_ctor \<Rightarrow> app_state \<Rightarrow> focus_dir \<Rightarrow> app_state option" where
  "swap_pane rnew app dir =
     do { w \<leftarrow> active_window app;
          Some (set_window (active_idx app) (focus_window rnew (last_window_area app) dir w) app) }"

end
