(* ===== verification/Focus_Props.thy ===== *)
theory Focus_Props
  imports Window_Props
begin

text \<open>
  Killing a pane by its identifier, the sizes given to the terminals after a change of
  layout, and the spatial navigation between panes.
\<close>

section \<open>Killing by identifier\<close>

lemma find_window:
  "find_map (\<lambda>(wi, w). map_option (Pair wi) (f w)) (enumerate n ws) = Some (t, path) \<Longrightarrow>
     n \<le> t \<and> t < n + length ws \<and> f (ws ! (t - n)) = Some path"
  by (induction ws arbitrary: n) (fastforce split: option.splits simp: nth_Cons')+

lemma find_no_window:
  "find_map (\<lambda>(wi, w). map_option (Pair wi) (f w)) (enumerate n ws) = None \<longleftrightarrow> (\<forall>w\<in>set ws. f w = None)"
  by (induction ws arbitrary: n) (auto split: option.splits)

text \<open>What killing the pane \<open>p\<close> does to the panes of a window; the last pane stays until it is reaped.\<close>

definition loses_pane :: "nat \<Rightarrow> node \<Rightarrow> node \<Rightarrow> bool" where
  "loses_pane pid n n' =
     (case n of
        Leaf p \<Rightarrow> n' = n
      | Split k ss cs \<Rightarrow>
          list_ex (\<lambda>i. pane_id (panes_of n ! i) = pid \<and> panes_of n' = drop_nth i (panes_of n)) [0..<length (panes_of n)])"

lemma loses_paneI: "panes_of n = xs @ p # ys \<Longrightarrow> panes_of n' = xs @ ys \<Longrightarrow> pane_id p = pid \<Longrightarrow>
    n = Split k ss cs \<Longrightarrow> loses_pane pid n n'"
  by (auto simp: loses_pane_def list_ex_iff drop_nth_def intro!: bexI [of _ "length xs"])

lemma kill_pane_at_path_props:
  assumes w: "wf_tree (root w)" and p: "find_path_by_id (root w) pid = Some path"
  shows "\<exists>w' killed. kill_pane_at_path w path = Some (w', killed) \<and> set killed = {pid} \<and>
    wf_tree (root w') \<and> loses_pane pid (root w) (root w') \<and> focused w' \<noteq> None"
proof -
  obtain q where q: "node_at (root w) path = Some (Leaf q)" "pane_id q = pid"
    using find_path_by_id_Some [OF p] by blast
  then have a: "active_pane_mut (root w) path = Some q" "get_active_pane_id (root w) path = Some pid"
    by (auto simp: active_pane_mut_def get_active_pane_id_leaf)
  have "\<exists>n' k. kill_leaf (root w) path = Some (n', k) \<and> set k \<subseteq> {pid} \<and> wf_tree n' \<and> loses_pane pid (root w) n'"
  proof (cases "root w")
    case (Leaf p)
    then show ?thesis by (auto simp: kill_leaf_def loses_pane_def)
  next
    case (Split k ss cs)
    then have "path \<noteq> []" using q by auto
    from remove_node_props [OF w q(1) this] obtain n' xs ys where
      "remove_node (root w) path = Some (n', [pid])" "wf_tree n'" "panes_of (root w) = xs @ q # ys" "panes_of n' = xs @ ys"
      using q by auto
    with q Split show ?thesis by (auto simp: kill_leaf_def intro: loses_paneI)
  qed
  then obtain n' k where k: "kill_leaf (root w) path = Some (n', k)" "set k \<subseteq> {pid}" "wf_tree n'"
      "loses_pane pid (root w) n'" by blast
  define w' where "w' = w\<lparr>root := n', pane_mru := remove_from_mru (pane_mru w) pid,
      active_path := refocus n' (remove_from_mru (pane_mru w) pid)\<rparr>"
  have "focused w' \<noteq> None" using refocus_focused [OF k(3), of w'] by (auto simp: w'_def)
  moreover have "kill_pane_at_path w path = Some (w', pid # k)"
    using k a q by (simp add: kill_pane_at_path_def w'_def Let_def)
  ultimately show ?thesis using k by (auto simp: w'_def)
qed

lemma restored_focus:
  assumes "wf_tree (root w)" "focused w = Some x"
  shows "focused (w\<lparr>active_path := (case Option.bind (get_active_pane_id (root w) (active_path w)) (find_path_by_id (root w)) of
            Some p \<Rightarrow> p | None \<Rightarrow> first_leaf_path (root w))\<rparr>) = Some x"
proof -
  have x: "get_active_pane_id (root w) (active_path w) = Some x"
    using assms(2) by (auto simp: focused_def split: if_splits)
  obtain p where p: "find_path_by_id (root w) x = Some p"
    using focused_in_tree [OF assms(2)] find_path_by_id_None by (metis not_None_eq)
  with find_path_by_id_Some [OF p] x show ?thesis
    by (auto simp: focused_def path_exists_def get_active_pane_id_leaf)
qed

text \<open>
  Killing a pane by its identifier never panics on well-formed windows and kills the
  process of that pane only. An unknown identifier changes nothing. Otherwise one window
  loses exactly that pane (a window's last pane stays until its process is reaped), it
  focuses one of its panes, every other window keeps its tree, the active window stays
  active, and when it is another window it keeps its focused pane.
\<close>

theorem kill_pane_by_id_kills_one:
  assumes "\<forall>w\<in>set (windows app). wf_tree (root w)" "active_idx app < length (windows app)"
  shows "if \<forall>w\<in>set (windows app). pid \<notin> set (collect_pane_ids (root w))
    then kill_pane_by_id app pid = Some (app, [])
    else (\<exists>app' killed t. kill_pane_by_id app pid = Some (app', killed) \<and> set killed = {pid} \<and>
      active_idx app' = active_idx app \<and> length (windows app') = length (windows app) \<and>
      t < length (windows app) \<and> loses_pane pid (root (windows app ! t)) (root (windows app' ! t)) \<and>
      focused (windows app' ! t) \<noteq> None \<and>
      (\<forall>i<length (windows app). i \<noteq> t \<longrightarrow> root (windows app' ! i) = root (windows app ! i)) \<and>
      (t \<noteq> active_idx app \<and> focused (windows app ! active_idx app) \<noteq> None \<longrightarrow>
         focused (windows app' ! active_idx app) = focused (windows app ! active_idx app)))"
proof -
  define a where "a = active_idx app"
  have aw: "active_window app = Some (windows app ! a)"
    using assms(2) by (simp add: active_window_def get_def a_def)
  define fm where "fm = find_map (\<lambda>(wi, w). map_option (Pair wi) (find_path_by_id (root w) pid)) (enumerate 0 (windows app))"
  show ?thesis
  proof (cases fm)
    case None
    then have "\<forall>w\<in>set (windows app). pid \<notin> set (collect_pane_ids (root w))"
      by (simp add: fm_def find_no_window find_path_by_id_None)
    with None aw show ?thesis by (simp add: kill_pane_by_id_def fm_def)
  next
    case (Some tp)
    obtain t path where tp: "tp = (t, path)" by fastforce
    with Some find_window [of "\<lambda>w. find_path_by_id (root w) pid" 0 "windows app" t path]
    have t: "t < length (windows app)" "find_path_by_id (root (windows app ! t)) pid = Some path"
      by (auto simp: fm_def)
    then have some: "\<not> (\<forall>w\<in>set (windows app). pid \<notin> set (collect_pane_ids (root w)))"
      using find_path_by_id_None [of "root (windows app ! t)" pid] nth_mem [OF t(1)] by auto
    obtain w' killed where k: "kill_pane_at_path (windows app ! t) path = Some (w', killed)" "set killed = {pid}"
      "wf_tree (root w')" "loses_pane pid (root (windows app ! t)) (root w')" "focused w' \<noteq> None"
      using kill_pane_at_path_props [of "windows app ! t"] t assms(1) by (metis nth_mem)
    define wa where "wa = windows app ! a"
    have wfa: "wf_tree (root wa)" using assms by (simp add: wa_def a_def)
    define wr where "wr = wa\<lparr>active_path := (case Option.bind (get_active_pane_id (root wa) (active_path wa))
        (find_path_by_id (root wa)) of Some p \<Rightarrow> p | None \<Rightarrow> first_leaf_path (root wa))\<rparr>"
    define ws where "ws = (if t \<noteq> a then (windows app)[t := w', a := wr] else (windows app)[t := w'])"
    have "\<exists>app'. kill_pane_by_id app pid = Some (app', killed) \<and> windows app' = ws \<and> active_idx app' = a"
      using Some tp t k aw assms(2) unfolding ws_def wr_def wa_def a_def
      by (auto simp: kill_pane_by_id_def fm_def [symmetric] get_def set_window_def Let_def)
    moreover have "focused (ws ! a) = focused wa" if "t \<noteq> a" "focused wa \<noteq> None"
      using that restored_focus [OF wfa] assms(2) by (auto simp: ws_def wr_def a_def)
    ultimately show ?thesis
      using some t k assms(2)
      by (auto simp: a_def wa_def ws_def wr_def nth_list_update intro!: exI [of _ t])
  qed
qed

theorem kill_pane_by_id_kills_one_witness:
  "\<exists>app' killed. kill_pane_by_id example_app 4 = Some (app', killed) \<and> set killed = {4} \<and>
     active_idx app' = 0 \<and> length (windows app') = 2"
proof -
  have "\<forall>w\<in>set (windows example_app). wf_tree (root w)" "active_idx example_app < length (windows example_app)"
    by (auto simp: example_app_simps)
  from kill_pane_by_id_kills_one [OF this, of 4] show ?thesis
    by (auto simp: example_app_simps collect_pane_ids_def)
qed

section \<open>Terminal sizes\<close>

definition in_sync :: "pane \<Rightarrow> bool" where
  "in_sync p = (term_rows p = last_rows p \<and> pty_rows p = last_rows p \<and>
                term_cols p = last_cols p \<and> pty_cols p = last_cols p)"

lemma panes_of_resize:
  "panes_of (resize_node rects n path) =
     map (\<lambda>(q, p). case find (\<lambda>(q', r). q' = path @ q) rects of Some (q', r) \<Rightarrow> resize_pane r p | None \<Rightarrow> p) (leaves n)"
  "panes_of_list (resize_nodes rects cs path i) =
     map (\<lambda>(q, p). case find (\<lambda>(q', r). q' = path @ q) rects of Some (q', r) \<Rightarrow> resize_pane r p | None \<Rightarrow> p) (leaves_list cs i)"
  by (induction rects n path and rects cs path i rule: resize_node_resize_nodes.induct)
    (auto split: option.splits)

lemma find_key_nth:
  "distinct (map fst rects) \<Longrightarrow> i < length rects \<Longrightarrow> find (\<lambda>(q', r). q' = fst (rects ! i)) rects = Some (rects ! i)"
proof (induction rects arbitrary: i)
  case (Cons x rects)
  then show ?case
    by (cases i) (auto simp: case_prod_unfold dest: nth_mem)
qed simp

lemma panes_resized:
  assumes "map fst rects = map fst (leaves n)"
  shows "panes_of (resize_node rects n []) = map2 resize_pane (map snd rects) (panes_of n)"
proof (rule nth_equalityI)
  have len: "length rects = length (leaves n)" using assms by (metis length_map)
  have lp: "panes_of n = map snd (leaves n)" by simp
  show "length (panes_of (resize_node rects n [])) = length (map2 resize_pane (map snd rects) (panes_of n))"
    by (simp add: panes_of_resize lp del: map_snd_leaves) (simp add: len)
  fix i assume "i < length (panes_of (resize_node rects n []))"
  then have i: "i < length (leaves n)" by (simp add: panes_of_resize)
  have "fst (leaves n ! i) = fst (rects ! i)" using assms i len by (metis nth_map)
  then have "find (\<lambda>(q', r). q' = [] @ fst (leaves n ! i)) rects = Some (rects ! i)"
    using find_key_nth [of rects i] assms i len distinct_leaves(1) [of n] by simp
  then show "panes_of (resize_node rects n []) ! i = map2 resize_pane (map snd rects) (panes_of n) ! i"
    using i len by (simp add: panes_of_resize lp case_prod_unfold del: map_snd_leaves)
qed

lemma resize_pane_sync:
  "in_sync p \<Longrightarrow> 0 < rw r \<Longrightarrow> 0 < rh r \<Longrightarrow> in_sync (resize_pane r p) \<and>
     last_cols (resize_pane r p) = max 2 (rw r) \<and> last_rows (resize_pane r p) = max 2 (rh r)"
  by (auto simp: resize_pane_def in_sync_def Let_def MIN_PANE_DIM_def)

text \<open>
  After a change of layout every terminal has the size of its area. For an active
  window with a well-formed tree, each pane gets the rectangle of its own path: its
  parser, its pseudo-terminal and the recorded size agree, are the rectangle's size and
  never below the minimum of 2 by 2; a pane whose area is empty keeps its size, and no
  pane or share changes otherwise.
\<close>

theorem resize_all_panes_fits:
  assumes "rect_new_ok rnew" "active_window app = Some w" "wf_tree (root w)"
    "rect_fits (last_window_area app)" "rw (last_window_area app) > 0" "rh (last_window_area app) > 0"
    "list_all in_sync (panes_of (root w))"
  shows "\<exists>w'. active_window (resize_all_panes rnew app) = Some w' \<and> bare (root w') = bare (root w) \<and>
    list_all in_sync (panes_of (root w')) \<and>
    list_all2 (\<lambda>p r. rw r > 0 \<and> rh r > 0 \<longrightarrow> term_cols p = max 2 (rw r) \<and> term_rows p = max 2 (rh r))
      (panes_of (root w')) (map snd (compute_rects rnew (root w) (last_window_area app)))"
proof -
  define rects where "rects = compute_rects rnew (root w) (last_window_area app)"
  have fst: "map fst rects = map fst (leaves (root w))"
    using compute_rects_props(1) [OF assms(1,3,4)] by (simp add: rects_def)
  then have len: "length rects = length (panes_of (root w))"
    by (metis length_map map_snd_leaves(1))
  define w' where "w' = w\<lparr>root := resize_node rects (root w) []\<rparr>"
  have idx: "active_idx app < length (windows app)" "windows app ! active_idx app = w"
    using assms(2) by (auto simp: active_window_def get_def split: if_splits)
  then have "resize_all_panes rnew app = set_window (active_idx app) w' app"
    using assms(2,5,6) by (auto simp: resize_all_panes_def w'_def rects_def Let_def)
  with idx have "active_window (resize_all_panes rnew app) = Some w'"
    by (simp add: active_window_def get_def set_window_def)
  moreover have p: "panes_of (root w') = map2 resize_pane (map snd rects) (panes_of (root w))"
    using panes_resized [OF fst] by (simp add: w'_def)
  moreover have nth: "panes_of (root w') ! i = resize_pane (snd (rects ! i)) (panes_of (root w) ! i)"
    if "i < length rects" for i
    using that len by (simp add: p)
  moreover have old: "in_sync (panes_of (root w) ! i)" if "i < length rects" for i
    using that assms(7) len by (simp add: list_all_length)
  moreover have "in_sync (panes_of (root w') ! i)" if i: "i < length rects" for i
    unfolding nth [OF i] using old [OF i] resize_pane_sync [of "panes_of (root w) ! i" "snd (rects ! i)"]
    by (cases "rw (snd (rects ! i)) = 0 \<or> rh (snd (rects ! i)) = 0") (auto simp: resize_pane_def)
  moreover have "0 < rw (snd (rects ! i)) \<and> 0 < rh (snd (rects ! i)) \<longrightarrow>
      term_cols (panes_of (root w') ! i) = max 2 (rw (snd (rects ! i))) \<and>
      term_rows (panes_of (root w') ! i) = max 2 (rh (snd (rects ! i)))" if i: "i < length rects" for i
    unfolding nth [OF i] using old [OF i] resize_pane_sync [of "panes_of (root w) ! i" "snd (rects ! i)"]
    by (simp add: in_sync_def)
  moreover have "length (panes_of (root w')) = length rects" using p len by simp
  moreover have "bare (root w') = bare (root w)" by (simp add: w'_def)
  ultimately show ?thesis
    by (intro exI [of _ w']) (simp add: list_all_length list_all2_conv_all_nth rects_def [symmetric])
qed

theorem resize_all_panes_fits_witness:
  "\<exists>w'. active_window (resize_all_panes clip_rect example_app) = Some w' \<and>
     list_all in_sync (panes_of (root w'))"
proof -
  have "active_window example_app = Some (example_window 1 example_tree [1, 0])"
    by (simp add: active_window_def example_app_def)
  from resize_all_panes_fits [OF clip_rect_ok this] show ?thesis
    by (auto simp: example_app_simps in_sync_def rect_fits_def)
qed

section \<open>Swapping\<close>

lemma focus_window_root: "root (focus_window rnew area dir w) = root w"
  by (simp add: focus_window_def Let_def split: option.split)

text \<open>
  The command to swap panes never moves a pane: every window keeps its tree, only the
  focus and the list of recent use of the active window change, exactly as for a move of
  the focus.
\<close>

theorem swap_pane_moves_no_pane:
  assumes "swap_pane rnew app dir = Some app'"
  shows "map root (windows app') = map root (windows app) \<and> move_focus rnew app dir = Some app'"
  using assms
  by (auto simp: swap_pane_def move_focus_def active_window_def set_window_def get_def map_update focus_window_root
      list_update_same_conv nth_map split: if_splits intro!: nth_equalityI) (auto simp: nth_list_update focus_window_root)

theorem swap_pane_moves_no_pane_witness:
  "\<exists>app'. swap_pane clip_rect example_app FRight = Some app' \<and> map root (windows app') = map root (windows example_app)"
proof -
  obtain app' where a: "swap_pane clip_rect example_app FRight = Some app'"
    by (simp add: swap_pane_def active_window_def example_app_def)
  with swap_pane_moves_no_pane [OF a] show ?thesis by blast
qed

section \<open>Spatial navigation\<close>

text \<open>
  What the selection minimises: panes that overlap the active one across the direction
  come first, then the smaller gap, then for those that do not overlap the smaller
  distance of the centres, then the more recent use.
\<close>

definition nav_key :: "candidate \<Rightarrow> bool \<times> int \<times> int \<times> nat" where
  "nav_key = (\<lambda>(i, g, d, ov, rank). (\<not> ov, g, if ov then 0 else d, rank))"

lemma dominated_key: "dominated c b \<longleftrightarrow> nav_key b \<le> nav_key c"
  by (cases c; cases b) (auto simp: dominated_def nav_key_def)

lemma best_candidate_min:
  "best_candidate cs (Some b) = Some c \<Longrightarrow>
     \<exists>xs ys. b # cs = xs @ c # ys \<and> (\<forall>x\<in>set xs. nav_key c < nav_key x) \<and> (\<forall>y\<in>set ys. nav_key c \<le> nav_key y)"
proof (induction cs arbitrary: b)
  case Nil
  then show ?case by (intro exI [of _ "[]"]) simp
next
  case (Cons x cs)
  show ?case
  proof (cases "dominated x b")
    case True
    with Cons.IH [of b] Cons.prems obtain xs ys where h: "b # cs = xs @ c # ys" "\<forall>x\<in>set xs. nav_key c < nav_key x"
      "\<forall>y\<in>set ys. nav_key c \<le> nav_key y" by (auto simp del: split_paired_All)
    show ?thesis
    proof (cases xs)
      case Nil
      with h True show ?thesis
        by (intro exI [of _ "[]"] exI [of _ "x # ys"]) (auto simp: dominated_key)
    next
      case (Cons b' xs')
      with h True show ?thesis
        by (intro exI [of _ "b # x # xs'"] exI [of _ ys]) (auto simp: dominated_key)
    qed
  next
    case False
    with Cons.IH [of x] Cons.prems obtain xs ys where h: "x # cs = xs @ c # ys" "\<forall>x\<in>set xs. nav_key c < nav_key x"
      "\<forall>y\<in>set ys. nav_key c \<le> nav_key y" by (auto simp del: split_paired_All)
    then have "nav_key c \<le> nav_key x" by (cases xs) auto
    with h False show ?thesis
      by (intro exI [of _ "b # xs"] exI [of _ ys]) (auto simp: dominated_key not_le)
  qed
qed

lemma best_candidate_Some: "\<exists>c. best_candidate cs (Some b) = Some c"
  by (induction cs arbitrary: b) auto

lemma best_candidate_first:
  "case best_candidate cs None of
      None \<Rightarrow> cs = []
    | Some c \<Rightarrow> \<exists>xs ys. cs = xs @ c # ys \<and> (\<forall>x\<in>set xs. nav_key c < nav_key x) \<and> (\<forall>y\<in>set ys. nav_key c \<le> nav_key y)"
proof (cases cs)
  case (Cons b bs)
  obtain c where c: "best_candidate bs (Some b) = Some c" using best_candidate_Some by blast
  from best_candidate_min [OF c] Cons show ?thesis by (simp add: c)
qed simp

text \<open>The key of the pane at index \<open>i\<close> for a gap \<open>g\<close>, with its recent use.\<close>

definition pane_key :: "(path \<times> rect) list \<Rightarrow> rect \<Rightarrow> focus_dir \<Rightarrow> nat list \<Rightarrow> nat list \<Rightarrow> nat \<Rightarrow> int \<Rightarrow> bool \<times> int \<times> int \<times> nat" where
  "pane_key rects arect dir ids mru i g =
     (let r = snd (rects ! i)
      in nav_key (i, g, perp_dist dir r arect, perp_overlap dir r arect,
           (case get ids i of Some x \<Rightarrow> mru_rank mru x | None \<Rightarrow> usize_max)))"

lemma candidate_in:
  "c \<in> set (candidates score rects ai arect dir ids mru) \<longleftrightarrow>
     fst c < length rects \<and> fst c \<noteq> ai \<and>
     (\<exists>g. score (snd (rects ! fst c)) = Some g \<and>
        c = (fst c, g, perp_dist dir (snd (rects ! fst c)) arect, perp_overlap dir (snd (rects ! fst c)) arect,
               (case get ids (fst c) of Some x \<Rightarrow> mru_rank mru x | None \<Rightarrow> usize_max)))"
  by (cases c) (auto simp: candidates_def map_filter_def in_set_enumerate_eq case_prod_unfold split: if_splits
      intro!: image_eqI [of _ _ "(fst c, rects ! fst c)"])

text \<open>
  C38: Moving the focus selects the nearest pane. The selection returns nothing exactly
  when no other pane lies in the direction; the pane it returns lies there and no pane
  that lies there has a smaller key (overlap first, then the gap, then the distance of
  the centres, then the recent use).
\<close>

theorem find_best_pane_minimal:
  "case find_best_pane_in_direction rects ai arect dir ids mru of
     None \<Rightarrow> (\<forall>j<length rects. j \<noteq> ai \<longrightarrow> primary_gap dir (snd (rects ! j)) arect = None)
   | Some i \<Rightarrow> i < length rects \<and> i \<noteq> ai \<and>
       (\<exists>g. primary_gap dir (snd (rects ! i)) arect = Some g \<and>
          (\<forall>j<length rects. \<forall>h. j \<noteq> ai \<and> primary_gap dir (snd (rects ! j)) arect = Some h \<longrightarrow>
             pane_key rects arect dir ids mru i g \<le> pane_key rects arect dir ids mru j h))"
proof -
  define cs where "cs = candidates (\<lambda>r. primary_gap dir r arect) rects ai arect dir ids mru"
  have mem: "(j, g, perp_dist dir (snd (rects ! j)) arect, perp_overlap dir (snd (rects ! j)) arect,
      (case get ids j of Some x \<Rightarrow> mru_rank mru x | None \<Rightarrow> usize_max)) \<in> set cs"
    if "j < length rects" "j \<noteq> ai" "primary_gap dir (snd (rects ! j)) arect = Some g" for j g
    using that by (simp add: cs_def candidate_in)
  show ?thesis
  proof (cases "best_candidate cs None")
    case None
    with best_candidate_first [of cs] have "cs = []" by simp
    with mem None show ?thesis
      by (fastforce simp: find_best_pane_in_direction_def cs_def [symmetric])
  next
    case (Some c)
    then obtain xs ys where c: "cs = xs @ c # ys" "\<forall>x\<in>set xs. nav_key c < nav_key x" "\<forall>y\<in>set ys. nav_key c \<le> nav_key y"
      using best_candidate_first [of cs] by auto
    then have le: "nav_key c \<le> nav_key x" if "x \<in> set cs" for x using that by auto
    have "c \<in> set cs" using c by simp
    then obtain g where g: "fst c < length rects" "fst c \<noteq> ai" "primary_gap dir (snd (rects ! fst c)) arect = Some g"
        "nav_key c = pane_key rects arect dir ids mru (fst c) g"
      by (auto simp: cs_def candidate_in pane_key_def Let_def)
    moreover have "pane_key rects arect dir ids mru (fst c) g \<le> pane_key rects arect dir ids mru j h"
      if "j < length rects" "j \<noteq> ai" "primary_gap dir (snd (rects ! j)) arect = Some h" for j h
      using le [OF mem [OF that]] g by (simp add: pane_key_def Let_def)
    ultimately show ?thesis
      using Some by (auto simp: find_best_pane_in_direction_def cs_def [symmetric])
  qed
qed

theorem find_best_pane_minimal_witness:
  "find_best_pane_in_direction [([0], \<lparr>rx = 0, ry = 0, rw = 40, rh = 24\<rparr>), ([1], \<lparr>rx = 41, ry = 0, rw = 39, rh = 24\<rparr>)] 0
     \<lparr>rx = 0, ry = 0, rw = 40, rh = 24\<rparr> FRight [1, 2] [2] = Some 1"
  using find_best_pane_minimal [where dir = FRight and rects = "[([0], \<lparr>rx = 0, ry = 0, rw = 40, rh = 24\<rparr>), ([1], \<lparr>rx = 41, ry = 0, rw = 39, rh = 24\<rparr>)]"
      and ai = 0 and arect = "\<lparr>rx = 0, ry = 0, rw = 40, rh = 24\<rparr>" and ids = "[1, 2]" and mru = "[2]"]
  by (auto simp: primary_gap_def less_Suc_eq numeral_2_eq_2 split: option.splits)

end
