(* ===== verification/Window_Edits.thy ===== *)
theory Window_Edits
  imports Window_Props
begin

text \<open>
  Breaking a pane out of its window, rotation, and the share lists accepted from a client.
\<close>

section \<open>Breaking a pane out\<close>

definition all_panes :: "app_state \<Rightarrow> pane list" where
  "all_panes app = concat (map (\<lambda>w. panes_of (root w)) (windows app))"

lemma split_windows: "i < length ws \<Longrightarrow> ws = take i ws @ ws ! i # drop (Suc i) ws"
  by (rule id_take_nth_drop)

lemma mset_window_update:
  assumes "i < length ws"
  shows "mset (concat (map f (ws[i := w]))) + mset (f (ws ! i)) = mset (concat (map f ws)) + mset (f w)"
  unfolding upd_conv_take_nth_drop [OF assms]
  by (subst (4) split_windows [OF assms]) (simp add: ac_simps)

lemma mset_window_drop:
  assumes "i < length ws"
  shows "mset (concat (map f (drop_nth i ws))) + mset (f (ws ! i)) = mset (concat (map f ws))"
  by (subst (3) split_windows [OF assms]) (simp add: drop_nth_def ac_simps)

text \<open>
  Breaking the active pane out of its window never panics, loses and kills no pane of
  the session, and makes the pane the only one of a new window that takes the next window
  identifier and becomes the active one; every tree stays well formed.
\<close>

theorem break_pane_conserves_session:
  assumes "\<forall>w\<in>set (windows app). wf_tree (root w)" "active_window app = Some w"
    "active_pane_mut (root w) (active_path w) = Some p"
  shows "\<exists>app' w'. break_pane_to_window app = Some app' \<and> mset (all_panes app') = mset (all_panes app) \<and>
    active_window app' = Some w' \<and> root w' = Leaf p \<and> active_path w' = [] \<and> wid w' = next_win_id app \<and>
    next_win_id app' = next_win_id app + 1 \<and> (\<forall>w\<in>set (windows app'). wf_tree (root w))"
proof -
  define i where "i = active_idx app"
  have i: "i < length (windows app)" "windows app ! i = w"
    using assms(2) by (auto simp: active_window_def get_def i_def split: if_splits)
  then have wf: "wf_tree (root w)" using assms(1) nth_mem by blast
  have "node_at (root w) (active_path w) = Some (Leaf p)"
    using assms(3) by (auto simp: active_pane_mut_def split: option.splits node.splits)
  from extract_node_props [OF wf this] obtain rem xs ys where
    e: "extract_node (root w) (active_path w) = Some (rem, Some (Leaf p))" "pred_option wf_tree rem"
      "panes_of (root w) = xs @ p # ys" "panes_of_option rem = xs @ ys" by auto
  let ?f = "\<lambda>w. panes_of (root w)"
  show ?thesis
  proof (cases rem)
    case None
    define nw where "nw = broken_window (Leaf p) app"
    define ws where "ws = drop_nth i (windows app @ [nw])"
    have ws: "ws = drop_nth i (windows app) @ [nw]" using i by (simp add: ws_def drop_nth_def)
    define app' where "app' = app\<lparr>windows := ws, next_win_id := next_win_id app + 1, active_idx := length ws - 1\<rparr>"
    have b: "break_pane_to_window app = Some app'"
      using e None assms(2) by (simp add: break_pane_to_window_def app'_def ws_def nw_def i_def Let_def)
    have "active_window app' = Some nw"
      by (simp add: active_window_def get_def app'_def ws)
    moreover have "mset (all_panes app') = mset (all_panes app)"
      using mset_window_drop [OF i(1), of ?f] e None i
      by (simp add: all_panes_def app'_def ws nw_def broken_window_def panes_of_option_def)
    moreover have "\<forall>w\<in>set ws. wf_tree (root w)"
      using assms(1) set_drop_nth_subset [of i "windows app"] by (auto simp: ws nw_def broken_window_def)
    ultimately show ?thesis
      using b by (intro exI [of _ app'] exI [of _ nw]) (simp add: app'_def nw_def broken_window_def)
  next
    case (Some r)
    define w1 where "w1 = w\<lparr>root := r, active_path := first_leaf_path r\<rparr>"
    define app1 where "app1 = set_window i w1 app"
    define nw where "nw = broken_window (Leaf p) app1"
    define ws where "ws = (windows app)[i := w1] @ [nw]"
    define app' where "app' = app\<lparr>windows := ws, next_win_id := next_win_id app + 1, active_idx := length ws - 1\<rparr>"
    have b: "break_pane_to_window app = Some app'"
      using e Some assms(2)
      by (simp add: break_pane_to_window_def app'_def ws_def nw_def app1_def w1_def i_def set_window_def Let_def)
    have "active_window app' = Some nw"
      by (simp add: active_window_def get_def app'_def ws_def nth_append)
    moreover have "mset (all_panes app') = mset (all_panes app)"
      using mset_window_update [OF i(1), of ?f w1] e Some i
      by (simp add: all_panes_def app'_def ws_def nw_def broken_window_def panes_of_option_def w1_def)
    moreover have "\<forall>w\<in>set ws. wf_tree (root w)"
      using assms(1) e(2) Some by (auto simp: ws_def nw_def broken_window_def w1_def dest!: set_update_subset_insert [THEN subsetD])
    moreover have "wid nw = next_win_id app" by (simp add: nw_def broken_window_def app1_def set_window_def)
    ultimately show ?thesis
      using b by (intro exI [of _ app'] exI [of _ nw]) (simp add: app'_def nw_def broken_window_def)
  qed
qed

theorem break_pane_conserves_session_witness:
  "\<exists>app'. break_pane_to_window example_app = Some app' \<and> mset (all_panes app') = mset (all_panes example_app) \<and>
     next_win_id app' = 4"
proof -
  have "\<forall>w\<in>set (windows example_app). wf_tree (root w)" by (auto simp: example_app_simps)
  moreover have "active_window example_app = Some (example_window 1 example_tree [1, 0])"
    by (simp add: active_window_def example_app_def)
  moreover have "active_pane_mut (root (example_window 1 example_tree [1, 0])) (active_path (example_window 1 example_tree [1, 0]))
      = Some (mk_pane 2)"
    by (simp add: example_app_simps)
  ultimately show ?thesis
    using break_pane_conserves_session [of example_app "example_window 1 example_tree [1, 0]" "mk_pane 2"]
    by (auto simp: example_app_def)
qed

section \<open>Rotating\<close>

lemma rotate_inverse: "rotate_node (\<not> b) (rotate_node b n) = n"
proof (cases n)
  case (Split k ss cs)
  show ?thesis
  proof (cases "2 \<le> length cs")
    case True
    then have "cs \<noteq> []" by auto
    with True Split show ?thesis
      by (cases b) (auto simp: rotate_node_def butlast_append append_butlast_last_id)
  qed (simp add: rotate_node_def Split)
qed (simp add: rotate_node_def)

lemma rotate_panes_mset: "mset (panes_of (rotate_node b n)) = mset (panes_of n)"
proof (cases n)
  case (Split k ss cs)
  show ?thesis
  proof (cases "2 \<le> length cs")
    case True
    then have cs: "cs \<noteq> []" by auto
    have "mset (panes_of_list (tl cs @ [hd cs])) = mset (panes_of_list (hd cs # tl cs))" by simp
    moreover have "mset (panes_of_list (last cs # butlast cs)) = mset (panes_of_list (butlast cs @ [last cs]))" by simp
    ultimately show ?thesis
      using Split True cs by (auto simp: rotate_node_def simp del: panes_of_list_append panes_of_list.simps)
  qed (simp add: rotate_node_def Split)
qed (simp add: rotate_node_def)

text \<open>
  Rotating the panes of the active window changes only the order of the children of
  its root split: the panes are the same ones, the shares stay where they are, the other
  windows are untouched, and a rotation the other way restores the state.
\<close>

theorem rotate_panes_inverse:
  assumes "active_idx app < length (windows app)"
  shows "\<exists>app1. rotate_panes app b = Some app1 \<and> rotate_panes app1 (\<not> b) = Some app \<and>
    mset (all_panes app1) = mset (all_panes app)"
proof -
  define i where "i = active_idx app"
  define w where "w = windows app ! i"
  define app1 where "app1 = set_window i (w\<lparr>root := rotate_node b (root w)\<rparr>) app"
  have i: "i < length (windows app)" using assms by (simp add: i_def)
  have 1: "rotate_panes app b = Some app1"
    using assms by (simp add: rotate_panes_def active_window_def get_def app1_def i_def w_def)
  have "w\<lparr>root := root w\<rparr> = w" by simp
  then have 2: "rotate_panes app1 (\<not> b) = Some app"
    using i by (simp add: rotate_panes_def active_window_def get_def app1_def set_window_def i_def w_def rotate_inverse)
  have "mset (all_panes app1) = mset (all_panes app)"
    using mset_window_update [OF i, of "\<lambda>w. panes_of (root w)" "w\<lparr>root := rotate_node b (root w)\<rparr>"]
    by (simp add: all_panes_def app1_def set_window_def w_def rotate_panes_mset)
  with 1 2 show ?thesis by blast
qed

theorem rotate_panes_inverse_witness:
  "\<exists>app1. rotate_panes example_app True = Some app1 \<and> rotate_panes app1 False = Some example_app"
proof -
  have "active_idx example_app < length (windows example_app)" by (simp add: example_app_def)
  from rotate_panes_inverse [OF this, of True] show ?thesis by auto
qed

section \<open>Shares from a client\<close>

lemma split_with_gaps_zero:
  "2 \<le> n \<Longrightarrow> split_with_gaps rnew horiz (replicate n 0) area = replicate n area"
  by (simp add: split_with_gaps_def sum_list_replicate)

text \<open>
  A client can set the shares of the root split to zero: the request is accepted, and
  the layout then gives every child the whole area, so that the panes overlap.
\<close>

theorem zero_shares_overlap:
  assumes "active_window app = Some w" "root w = Split k ss (map Leaf ps)" "length ss = length ps" "2 \<le> length ps"
  shows "\<exists>app' w'. handle_split_set_sizes app [] (replicate (length ps) 0) = Some app' \<and>
    active_window app' = Some w' \<and>
    map snd (compute_rects rnew (root w') area) = replicate (length ps) area"
proof -
  define w' where "w' = w\<lparr>root := Split k (replicate (length ps) 0) (map Leaf ps)\<rparr>"
  have i: "active_idx app < length (windows app)" "windows app ! active_idx app = w"
    using assms(1) by (auto simp: active_window_def get_def split: if_splits)
  have "handle_split_set_sizes app [] (replicate (length ps) 0) = Some (set_window (active_idx app) w' app)"
    using assms by (simp add: handle_split_set_sizes_def w'_def)
  moreover have "active_window (set_window (active_idx app) w' app) = Some w'"
    using i by (simp add: active_window_def get_def set_window_def)
  moreover have "map snd (compute_children rnew (map Leaf ps) rs j) = rs" if "length rs = length ps" for rs j
    using that by (induction ps arbitrary: rs j) (auto simp: length_Suc_conv)
  ultimately show ?thesis
    using assms(4) by (intro exI [of _ "set_window (active_idx app) w' app"] exI [of _ w'])
      (simp add: w'_def effective_sizes_def split_with_gaps_zero)
qed

theorem zero_shares_overlap_witness:
  "\<exists>app' w'. handle_split_set_sizes
       (example_app\<lparr>windows := [example_window 1 (Split Horizontal [50, 50] (map Leaf [mk_pane 1, mk_pane 2])) [0]]\<rparr>)
       [] [0, 0] = Some app' \<and> active_window app' = Some w' \<and>
     map snd (compute_rects clip_rect (root w') \<lparr>rx = 0, ry = 0, rw = 80, rh = 24\<rparr>) =
       [\<lparr>rx = 0, ry = 0, rw = 80, rh = 24\<rparr>, \<lparr>rx = 0, ry = 0, rw = 80, rh = 24\<rparr>]"
proof -
  let ?w = "example_window 1 (Split Horizontal [50, 50] (map Leaf [mk_pane 1, mk_pane 2])) [0]"
  have "active_window (example_app\<lparr>windows := [?w]\<rparr>) = Some ?w"
    by (simp add: active_window_def example_app_def)
  from zero_shares_overlap [OF this, of Horizontal "[50, 50]" "[mk_pane 1, mk_pane 2]" clip_rect] show ?thesis
    by (simp add: example_window_def numeral_2_eq_2)
qed

end
