(* ===== verification/Layouts.thy ===== *)
theory Layouts
  imports Window_Edits "HOL-Library.Word"
begin

text \<open>
  The layouts of a window (core/src/layout.rs) and the layout strings exchanged with
  clients (core/src/layout.rs, core/src/format.rs): the named layouts, the printer of the
  format variable \<open>window_layout\<close> with its checksum, and the parser of layout
  strings. Text is a list of bytes, taken to be ASCII.

  The parser of the code recurses on slices of its input; the model gives it fuel, whose
  exhaustion is the outermost \<open>None\<close>, and one unit per byte is shown to be enough.
\<close>

unbundle bit_operations_syntax

section \<open>Layout strings\<close>

datatype layout_node =
    LLeaf (lwidth: nat) (lheight: nat) nat nat "nat option"
  | LSplit layout_kind (lwidth: nat) (lheight: nat) nat nat "layout_node list"

fun count_leaves :: "layout_node \<Rightarrow> nat" where
  "count_leaves (LLeaf w h x y i) = 1"
| "count_leaves (LSplit k w h x y cs) = sum_list (map count_leaves cs)"

definition parse_dimensions :: "string \<Rightarrow> (nat \<times> nat \<times> nat \<times> nat \<times> nat) option" where
  "parse_dimensions s =
     do { x_pos \<leftarrow> position (\<lambda>c. c = CHR ''x'') s;
          w \<leftarrow> parse_uint 65535 (take x_pos s);
          let after_x = drop (x_pos + 1) s;
          comma1 \<leftarrow> position (\<lambda>c. c = CHR '','') after_x;
          h \<leftarrow> parse_uint 65535 (take comma1 after_x);
          let after_h = drop (comma1 + 1) after_x;
          comma2 \<leftarrow> position (\<lambda>c. c = CHR '','') after_h;
          xc \<leftarrow> parse_uint 65535 (take comma2 after_h);
          let after_xcoord = drop (comma2 + 1) after_h;
          let y_end = (case position (\<lambda>c. \<not> is_digit c) after_xcoord of
                         Some i \<Rightarrow> i | None \<Rightarrow> length after_xcoord);
          yc \<leftarrow> parse_uint 65535 (take y_end after_xcoord);
          Some (w, h, xc, yc, x_pos + 1 + comma1 + 1 + comma2 + 1 + y_end) }"

definition is_delim :: "char \<Rightarrow> bool" where
  "is_delim c = (c \<in> {CHR '','', CHR ''{'', CHR ''['', CHR ''}'', CHR '']''})"

definition starts_with :: "char \<Rightarrow> string \<Rightarrow> bool" where
  "starts_with c s = (s \<noteq> [] \<and> hd s = c)"

text \<open>The suffix of a leaf: the identifier, if it parses, and the bytes it takes.\<close>

definition parse_pane_id :: "string \<Rightarrow> nat option \<times> nat" where
  "parse_pane_id rest =
     (if starts_with (CHR '','') rest
      then let id_str = tl rest;
               end' = (case position is_delim id_str of Some i \<Rightarrow> i | None \<Rightarrow> length id_str)
           in (parse_uint usize_max (take end' id_str), 1 + end')
      else (None, 0))"

fun parse_layout_node :: "nat \<Rightarrow> string \<Rightarrow> (layout_node \<times> nat) option option"
  and parse_layout_children :: "nat \<Rightarrow> string \<Rightarrow> char \<Rightarrow> layout_node list \<Rightarrow> nat \<Rightarrow> (layout_node list \<times> nat) option option" where
  "parse_layout_node 0 s = None"
| "parse_layout_node (Suc n) s =
     (case parse_dimensions s of
        None \<Rightarrow> Some None
      | Some (w, h, x, y, consumed_dims) \<Rightarrow>
          let rest = drop consumed_dims s
          in if starts_with (CHR ''{'') rest
             then map_option (map_option (\<lambda>(cs, b). (LSplit Horizontal w h x y cs, consumed_dims + 1 + b)))
                    (parse_layout_children n (tl rest) (CHR ''}'') [] 0)
             else if starts_with (CHR ''['') rest
             then map_option (map_option (\<lambda>(cs, b). (LSplit Vertical w h x y cs, consumed_dims + 1 + b)))
                    (parse_layout_children n (tl rest) (CHR '']'') [] 0)
             else let (pane_id, extra) = parse_pane_id rest
                  in Some (Some (LLeaf w h x y pane_id, consumed_dims + extra)))"
| "parse_layout_children 0 s closing children pos = None"
| "parse_layout_children (Suc n) s closing children pos =
     (if pos \<ge> length s then Some None
      else if s ! pos = closing then Some (Some (children, pos + 1))
      else let pos = (if children \<noteq> [] \<and> s ! pos = CHR '','' then pos + 1 else pos)
           in case parse_layout_node n (drop pos s) of
                None \<Rightarrow> None
              | Some None \<Rightarrow> Some None
              | Some (Some (node, consumed)) \<Rightarrow>
                  parse_layout_children n s closing (children @ [node]) (pos + consumed))"

definition parse_layout_string :: "string \<Rightarrow> layout_node option" where
  "parse_layout_string layout_str =
     (let s = trim layout_str
      in if length s < 5 then None
         else if s ! 4 \<noteq> CHR '','' then None
         else if \<not> list_all is_hex (take 4 s) then None
         else case parse_layout_node (length (drop 5 s) + 1) (drop 5 s) of
                Some (Some (node, consumed)) \<Rightarrow> Some node
              | _ \<Rightarrow> None)"

section \<open>From a layout to a tree\<close>

definition layout_dim :: "layout_kind \<Rightarrow> layout_node \<Rightarrow> nat" where
  "layout_dim k c = (if k = Horizontal then lwidth c else lheight c)"

definition layout_sizes :: "layout_kind \<Rightarrow> layout_node list \<Rightarrow> nat list option" where
  "layout_sizes k cs =
     (let total_size = wrap32 (sum_list (map (layout_dim k) cs))
      in if total_size = 0
         then (let n = wrap16 (max (length cs) 1)
               in if n = 0 then None else Some (replicate (length cs) (100 div n)))
         else let szs = map (\<lambda>c. wrap16 (wrap32 (layout_dim k c * 100) div total_size)) cs
              in Some (if sum16 szs < 100 then bump_last (100 - sum16 szs) szs else szs))"

text \<open>The panes not consumed are returned beside the result, as the code leaves them in the vector.\<close>

fun layout_node_to_node :: "layout_node \<Rightarrow> node list \<Rightarrow> (node option \<times> node list) option"
  and layout_nodes_to_nodes :: "layout_node list \<Rightarrow> node list \<Rightarrow> (node list option \<times> node list) option" where
  "layout_node_to_node (LLeaf w h x y i) panes =
     Some (case panes of [] \<Rightarrow> (None, []) | p # ps \<Rightarrow> (Some p, ps))"
| "layout_node_to_node (LSplit k w h x y cs) panes =
     do { sizes \<leftarrow> layout_sizes k cs;
          (ns, panes) \<leftarrow> layout_nodes_to_nodes cs panes;
          Some (map_option (Split k sizes) ns, panes) }"
| "layout_nodes_to_nodes [] panes = Some (Some [], panes)"
| "layout_nodes_to_nodes (c # cs) panes =
     do { (r, panes) \<leftarrow> layout_node_to_node c panes;
          case r of
            None \<Rightarrow> Some (None, panes)
          | Some n \<Rightarrow> do { (rs, panes) \<leftarrow> layout_nodes_to_nodes cs panes;
                          Some (map_option (Cons n) rs, panes) } }"

definition parse_tmux_layout_string :: "string \<Rightarrow> node list \<Rightarrow> (node option \<times> node list) option" where
  "parse_tmux_layout_string layout_str panes =
     (case parse_layout_string layout_str of
        None \<Rightarrow> Some (None, panes)
      | Some layout \<Rightarrow> layout_node_to_node layout panes)"

section \<open>Named layouts\<close>

definition equal_sizes :: "nat \<Rightarrow> nat list option" where
  "equal_sizes n =
     (if n = 0 then Some []
      else if wrap16 n = 0 then None
      else let base = 100 div wrap16 n
           in Some (bump_last (sub16 100 (base * n mod 65536)) (replicate n base)))"

definition main_split :: "nat \<Rightarrow> layout_kind \<Rightarrow> layout_kind \<Rightarrow> node list \<Rightarrow> node option" where
  "main_split pct k k' panes =
     (let main_pane = hd panes; panes = tl panes
      in if length panes = 1 then Some (Split k [pct, sub16 100 pct] [main_pane, hd panes])
         else do { sizes \<leftarrow> equal_sizes (length panes);
                   Some (Split k [pct, sub16 100 pct] [main_pane, Split k' sizes panes]) })"

text \<open>The code never calls it without panes; it would recurse for ever there.\<close>

function (sequential) build_tiled :: "node list \<Rightarrow> node option" where
  "build_tiled [] = None"
| "build_tiled [p] = Some p"
| "build_tiled [p, q] = Some (Split Horizontal [50, 50] [p, q])"
| "build_tiled panes =
     do { let mid = length panes div 2;
          left \<leftarrow> build_tiled (take mid panes);
          right \<leftarrow> build_tiled (drop mid panes);
          Some (Split Vertical [50, 50] [left, right]) }"
  by pat_completeness auto
termination
  by (relation "measure length") auto

definition layout_tree :: "app_state \<Rightarrow> string \<Rightarrow> node list \<Rightarrow> node option" where
  "layout_tree app layout panes =
     (let pane_count = length panes;
          main_h_pct = (if main_pane_height app > 0 then min (main_pane_height app) 95 else 60);
          main_v_pct = (if main_pane_width app > 0 then min (main_pane_width app) 95 else 60);
          name = map lower_char layout
      in if name = ''even-horizontal'' \<or> name = ''even-h''
         then do { sizes \<leftarrow> equal_sizes pane_count; Some (Split Horizontal sizes panes) }
         else if name = ''even-vertical'' \<or> name = ''even-v''
         then do { sizes \<leftarrow> equal_sizes pane_count; Some (Split Vertical sizes panes) }
         else if name = ''main-horizontal'' \<or> name = ''main-h''
         then main_split main_h_pct Vertical Horizontal panes
         else if name = ''main-vertical'' \<or> name = ''main-v''
         then main_split main_v_pct Horizontal Vertical panes
         else if name = ''tiled'' then build_tiled panes
         else do { (new_root, panes) \<leftarrow> parse_tmux_layout_string layout panes;
                   case new_root of
                     Some r \<Rightarrow> Some r
                   | None \<Rightarrow> do { sizes \<leftarrow> equal_sizes pane_count; Some (Split Horizontal sizes panes) } })"

definition apply_layout :: "app_state \<Rightarrow> string \<Rightarrow> app_state option" where
  "apply_layout app layout =
     do { w \<leftarrow> active_window app;
          let panes = collect_leaves (root w);
          if length panes < 2
          then Some (case panes of
                 leaf # _ \<Rightarrow> set_window (active_idx app) (w\<lparr>root := leaf\<rparr>) app
               | [] \<Rightarrow> set_window (active_idx app) (w\<lparr>root := Split Horizontal [] []\<rparr>) app)
          else do { r \<leftarrow> layout_tree app layout panes;
                    Some (set_window (active_idx app) (w\<lparr>root := r, active_path := first_leaf_path r\<rparr>) app) } }"

definition LAYOUT_NAMES :: "string list" where
  "LAYOUT_NAMES = [''even-horizontal'', ''even-vertical'', ''main-horizontal'', ''main-vertical'', ''tiled'']"

definition cycle_to :: "(nat \<Rightarrow> nat) \<Rightarrow> app_state \<Rightarrow> app_state option" where
  "cycle_to next_idx app =
     do { w \<leftarrow> active_window app;
          case root w of
            Leaf p \<Rightarrow> Some app
          | Split k ss cs \<Rightarrow>
              do { let i = next_idx (layout_index w);
                   apply_layout (set_window (active_idx app) (w\<lparr>layout_index := i\<rparr>) app) (LAYOUT_NAMES ! i) } }"

definition cycle_layout :: "app_state \<Rightarrow> app_state option" where
  "cycle_layout app = cycle_to (\<lambda>i. (i + 1) mod length LAYOUT_NAMES) app"

definition cycle_layout_reverse :: "app_state \<Rightarrow> app_state option" where
  "cycle_layout_reverse app = cycle_to (\<lambda>i. (i + length LAYOUT_NAMES - 1) mod length LAYOUT_NAMES) app"

section \<open>Printing a layout\<close>

fun show_layout_node :: "rect_ctor \<Rightarrow> node \<Rightarrow> rect \<Rightarrow> string"
  and show_layout_children :: "rect_ctor \<Rightarrow> node list \<Rightarrow> rect list \<Rightarrow> bool \<Rightarrow> string" where
  "show_layout_node rnew (Leaf p) area =
     show_digits (rw area) @ ''x'' @ show_digits (rh area) @ '','' @ show_digits (rx area) @ '','' @
     show_digits (ry area) @ '','' @ show_digits (pane_id p)"
| "show_layout_node rnew (Split k ss cs) area =
     (let rects = split_with_gaps rnew (k = Horizontal) (effective_sizes ss (length cs)) area
      in show_digits (rw area) @ ''x'' @ show_digits (rh area) @ '','' @ show_digits (rx area) @ '','' @
         show_digits (ry area) @ (if k = Horizontal then ''{'' else ''['') @
         show_layout_children rnew cs rects True @ (if k = Horizontal then ''}'' else '']''))"
| "show_layout_children rnew [] rects first = []"
| "show_layout_children rnew (c # cs) [] first =
     (if first then [] else '','') @ show_layout_children rnew cs [] False"
| "show_layout_children rnew (c # cs) (r # rects) first =
     (if first then [] else '','') @ show_layout_node rnew c r @ show_layout_children rnew cs rects False"

definition csum_step :: "char \<Rightarrow> 16 word \<Rightarrow> 16 word" where
  "csum_step b csum = ((drop_bit 1 csum) OR (push_bit 15 (csum AND 1))) + of_nat (of_char b)"

definition tmux_layout_checksum :: "string \<Rightarrow> 16 word" where
  "tmux_layout_checksum layout = fold csum_step layout 0"

definition hex_digit :: "nat \<Rightarrow> char" where
  "hex_digit d = (if d < 10 then char_of (48 + d) else char_of (87 + d))"

definition hex4 :: "nat \<Rightarrow> string" where
  "hex4 n = [hex_digit (n div 4096 mod 16), hex_digit (n div 256 mod 16), hex_digit (n div 16 mod 16), hex_digit (n mod 16)]"

definition generate_window_layout :: "rect_ctor \<Rightarrow> node \<Rightarrow> rect \<Rightarrow> string" where
  "generate_window_layout rnew n area =
     (let body = show_layout_node rnew n area
      in hex4 (unat (tmux_layout_checksum body)) @ '','' @ body)"

end
