(* ===== verification/Layout_Props.thy ===== *)
theory Layout_Props
  imports Layouts
begin

text \<open>
  The parser of layout strings reads back everything the printer writes, always returns,
  and a layout applied from a string keeps the panes exactly when the string has as many
  leaves as the window; the named layouts keep the panes and their order.
\<close>

lemma digit_not: "is_digit c \<Longrightarrow> c \<noteq> CHR ''x'' \<and> c \<noteq> CHR '','' \<and> c \<noteq> CHR ''+'' \<and> \<not> is_delim c"
  by (auto simp: is_digit_def is_delim_def)

lemma parse_show [simp]: "n \<le> maxv \<Longrightarrow> parse_uint maxv (show_digits n) = Some n"
proof -
  assume n: "n \<le> maxv"
  obtain c cs where s: "show_digits n = c # cs" using show_digits_props [of n] by (cases "show_digits n") auto
  with show_digits_props [of n] have "is_digit c" by simp
  with digit_not have "c \<noteq> CHR ''+''" by blast
  with s n show_digits_props [of n] show ?thesis by (simp add: parse_uint_def Let_def)
qed

lemma position_append:
  "list_all (\<lambda>x. \<not> p x) xs \<Longrightarrow> p c \<Longrightarrow> position p (xs @ c # ys) = Some (length xs)"
  by (induction xs) auto

lemma position_none: "list_all (\<lambda>x. \<not> p x) xs \<Longrightarrow> position p xs = None"
  by (induction xs) auto

lemma digits_free:
  "list_all (\<lambda>c. c \<noteq> CHR ''x'') (show_digits n)" "list_all (\<lambda>c. c \<noteq> CHR '','') (show_digits n)"
  "list_all (\<lambda>c. \<not> is_delim c) (show_digits n)" "list_all (\<lambda>c. \<not> \<not> is_digit c) (show_digits n)"
  using show_digits_props [of n] digit_not by (auto simp: list_all_iff)

section \<open>Describing a layout\<close>

definition dims_text :: "nat \<Rightarrow> nat \<Rightarrow> nat \<Rightarrow> nat \<Rightarrow> string" where
  "dims_text w h x y = show_digits w @ ''x'' @ show_digits h @ '','' @ show_digits x @ '','' @ show_digits y"

fun show_desc :: "layout_node \<Rightarrow> string" and show_descs :: "layout_node list \<Rightarrow> bool \<Rightarrow> string" where
  "show_desc (LLeaf w h x y i) =
     dims_text w h x y @ (case i of None \<Rightarrow> [] | Some i \<Rightarrow> '','' @ show_digits i)"
| "show_desc (LSplit k w h x y cs) =
     dims_text w h x y @ (if k = Horizontal then ''{'' else ''['') @ show_descs cs True @ (if k = Horizontal then ''}'' else '']'')"
| "show_descs [] first = []"
| "show_descs (c # cs) first = (if first then [] else '','') @ show_desc c @ show_descs cs False"

lemmas desc_induct = show_desc_show_descs.induct

fun desc_ok :: "layout_node \<Rightarrow> bool" where
  "desc_ok (LLeaf w h x y i) = (w \<le> 65535 \<and> h \<le> 65535 \<and> x \<le> 65535 \<and> y \<le> 65535 \<and> (\<exists>n. i = Some n \<and> n \<le> usize_max))"
| "desc_ok (LSplit k w h x y cs) =
     (w \<le> 65535 \<and> h \<le> 65535 \<and> x \<le> 65535 \<and> y \<le> 65535 \<and> list_all desc_ok cs)"

fun need :: "layout_node \<Rightarrow> nat" and needs :: "layout_node list \<Rightarrow> nat" where
  "need (LLeaf w h x y i) = 1"
| "need (LSplit k w h x y cs) = 1 + needs cs"
| "needs [] = 1"
| "needs (c # cs) = 1 + need c + needs cs"

lemma show_digits_length: "1 \<le> length (show_digits n)"
  using show_digits_props [of n] by (cases "show_digits n") auto

lemma need_le:
  "need d + 1 \<le> length (show_desc d)"
  "needs cs \<le> length (show_descs cs first) + 1"
proof (induction d and cs first rule: desc_induct)
  case (1 w h x y i)
  then show ?case using show_digits_length [of w] show_digits_length [of h] by (simp add: dims_text_def)
next
  case (2 k w h x y cs)
  then show ?case using show_digits_length [of w] show_digits_length [of h] by (simp add: dims_text_def)
qed auto

lemma parse_dimensions_show:
  assumes "w \<le> 65535" "h \<le> 65535" "x \<le> 65535" "y \<le> 65535"
    "rest = [] \<or> (\<exists>c r. rest = c # r \<and> \<not> is_digit c)"
  shows "parse_dimensions (show_digits w @ CHR ''x'' # show_digits h @ CHR '','' # show_digits x @ CHR '','' # show_digits y @ rest)
    = Some (w, h, x, y, length (show_digits w) + length (show_digits h) + length (show_digits x) + length (show_digits y) + 3)"
proof -
  have d: "drop (Suc (length xs)) (xs @ c # ys) = ys" for xs ys :: string and c by simp
  show ?thesis
    using assms(5)
  proof
    assume "rest = []"
    moreover have "position (\<lambda>c. \<not> is_digit c) (show_digits y) = None" by (rule position_none [OF digits_free(4)])
    ultimately show ?thesis
      using assms(1-4) by (simp add: parse_dimensions_def position_append digits_free Let_def d
          del: append_assoc drop_append drop_drop)
  next
    assume "\<exists>c r. rest = c # r \<and> \<not> is_digit c"
    then obtain c r where "rest = c # r" "\<not> is_digit c" by blast
    moreover from this have "position (\<lambda>c. \<not> is_digit c) (show_digits y @ c # r) = Some (length (show_digits y))"
      by (intro position_append digits_free(4))
    ultimately show ?thesis
      using assms(1-4) by (auto simp: parse_dimensions_def position_append digits_free Let_def d
          simp del: append_assoc drop_append drop_drop)
  qed
qed

lemma parse_dims_text:
  "w \<le> 65535 \<Longrightarrow> h \<le> 65535 \<Longrightarrow> x \<le> 65535 \<Longrightarrow> y \<le> 65535 \<Longrightarrow>
    rest = [] \<or> (\<exists>c r. rest = c # r \<and> \<not> is_digit c) \<Longrightarrow>
    parse_dimensions (dims_text w h x y @ rest) = Some (w, h, x, y, length (dims_text w h x y))"
  using parse_dimensions_show [of w h x y rest] by (simp add: dims_text_def)

lemma parse_pane_id_show:
  assumes "i \<le> usize_max" "rest = [] \<or> (\<exists>c r. rest = c # r \<and> is_delim c)"
  shows "parse_pane_id (CHR '','' # show_digits i @ rest) = (Some i, 1 + length (show_digits i))"
proof -
  have "(case position is_delim (show_digits i @ rest) of Some j \<Rightarrow> j | None \<Rightarrow> length (show_digits i @ rest)) = length (show_digits i)"
    using assms(2) position_append [OF digits_free(3) [of i]] position_none [OF digits_free(3) [of i]] by auto
  with assms(1) show ?thesis by (simp add: parse_pane_id_def starts_with_def Let_def)
qed

lemma delim_simps [simp]: "is_delim CHR '',''" "is_delim CHR ''{''" "is_delim CHR ''[''" "is_delim CHR ''}''" "is_delim CHR '']''"
  by (simp_all add: is_delim_def)

lemma delim_not_digit: "is_delim c \<Longrightarrow> \<not> is_digit c"
  using digit_not by blast

lemma show_desc_first: "\<exists>c r. show_desc d @ rest = c # r \<and> is_digit c"
proof -
  have "\<exists>c r. show_digits w @ t = c # r \<and> is_digit c" for w t
    using show_digits_props [of w] by (cases "show_digits w") auto
  then show ?thesis by (cases d) (auto simp: dims_text_def)
qed

definition closing_of :: "layout_kind \<Rightarrow> char" where
  "closing_of k = (if k = Horizontal then CHR ''}'' else CHR '']'')"

lemma parse_show_desc:
  "desc_ok d \<Longrightarrow> need d \<le> fuel \<Longrightarrow> rest = [] \<or> (\<exists>c r. rest = c # r \<and> is_delim c) \<Longrightarrow>
     parse_layout_node fuel (show_desc d @ rest) = Some (Some (d, length (show_desc d)))"
  "list_all desc_ok cs \<Longrightarrow> needs cs \<le> fuel \<Longrightarrow> first = (acc = []) \<Longrightarrow>
     parse_layout_children fuel (pre @ show_descs cs first @ closing_of k # post) (closing_of k) acc (length pre) =
     Some (Some (acc @ cs, length pre + length (show_descs cs first) + 1))"
proof (induction d and cs first arbitrary: fuel rest and fuel acc pre post k rule: desc_induct)
  case (1 w h x y i)
  then obtain f n where f: "fuel = Suc f" "i = Some n" "n \<le> usize_max" by (cases fuel) auto
  with 1 parse_dims_text [of w h x y "CHR '','' # show_digits n @ rest"]
    parse_pane_id_show [of n rest] show ?case
    by (simp add: starts_with_def delim_not_digit)
next
  case (2 k w h x y cs)
  then obtain f where f: "fuel = Suc f" "needs cs \<le> f" by (cases fuel) auto
  show ?case
  proof (cases k)
    case Horizontal
    with 2 f parse_dims_text [of w h x y "CHR ''{'' # show_descs cs True @ CHR ''}'' # rest"]
      2(1) [of f "[]" "[]" Horizontal rest] show ?thesis
      by (simp add: starts_with_def delim_not_digit closing_of_def)
  next
    case Vertical
    with 2 f parse_dims_text [of w h x y "CHR ''['' # show_descs cs True @ CHR '']'' # rest"]
      2(1) [of f "[]" "[]" Vertical rest] show ?thesis
      by (simp add: starts_with_def delim_not_digit closing_of_def)
  qed
next
  case (3 first)
  then obtain f where "fuel = Suc f" by (cases fuel) auto
  then show ?case by simp
next
  case (4 c cs first)
  then obtain f where f: "fuel = Suc f" "need c \<le> f" "needs cs \<le> f" by (cases fuel) auto
  let ?sep = "if first then [] else [CHR '','']"
  let ?tail = "show_descs cs False @ closing_of k # post"
  have tail: "\<exists>c r. ?tail = c # r \<and> is_delim c"
    by (cases cs) (auto simp: closing_of_def)
  have node: "parse_layout_node f (show_desc c @ ?tail) = Some (Some (c, length (show_desc c)))"
    using 4(1) [of f ?tail] 4 f tail by auto
  have more: "parse_layout_children f ((pre @ ?sep @ show_desc c) @ ?tail) (closing_of k) (acc @ [c])
      (length (pre @ ?sep @ show_desc c)) =
      Some (Some ((acc @ [c]) @ cs, length (pre @ ?sep @ show_desc c) + length (show_descs cs False) + 1))"
    using 4 f by (intro 4(2)) auto
  obtain d r where dr: "show_desc c @ ?tail = d # r" "is_digit d" using show_desc_first [of c ?tail] by blast
  then have d: "d \<noteq> closing_of k" "d \<noteq> CHR '',''" using digit_not [of d] by (auto simp: closing_of_def)
  let ?s = "pre @ show_descs (c # cs) first @ closing_of k # post"
  have "length pre < length ?s" by simp
  moreover have "?s ! length pre \<noteq> closing_of k" "acc \<noteq> [] \<longrightarrow> ?s ! length pre = CHR '',''"
    using dr d 4(5) by (auto simp: nth_append closing_of_def)
  moreover have "drop (length pre + length ?sep) ?s = show_desc c @ ?tail" by simp
  ultimately show ?case
    using f 4(5) node more d dr by (auto simp: add.assoc)
qed

section \<open>Printing and reading back\<close>

text \<open>The layout a tree has in an area.\<close>

fun describe :: "rect_ctor \<Rightarrow> node \<Rightarrow> rect \<Rightarrow> layout_node"
  and describes :: "rect_ctor \<Rightarrow> node list \<Rightarrow> rect list \<Rightarrow> layout_node list" where
  "describe rnew (Leaf p) area = LLeaf (rw area) (rh area) (rx area) (ry area) (Some (pane_id p))"
| "describe rnew (Split k ss cs) area =
     LSplit k (rw area) (rh area) (rx area) (ry area)
       (describes rnew cs (split_with_gaps rnew (k = Horizontal) (effective_sizes ss (length cs)) area))"
| "describes rnew [] rects = []"
| "describes rnew (c # cs) [] = []"
| "describes rnew (c # cs) (r # rects) = describe rnew c r # describes rnew cs rects"

lemma show_describe:
  assumes "rect_new_ok rnew"
  shows "wf_tree n \<Longrightarrow> rect_fits area \<Longrightarrow> \<forall>p\<in>set (panes_of n). pane_id p \<le> usize_max \<Longrightarrow>
      show_layout_node rnew n area = show_desc (describe rnew n area) \<and> desc_ok (describe rnew n area)"
    "list_all wf_tree cs \<Longrightarrow> length rects = length cs \<Longrightarrow> \<forall>r\<in>set rects. rect_fits r \<Longrightarrow>
      \<forall>p\<in>set (panes_of_list cs). pane_id p \<le> usize_max \<Longrightarrow>
      (\<forall>first. show_layout_children rnew cs rects first = show_descs (describes rnew cs rects) first) \<and>
      list_all desc_ok (describes rnew cs rects)"
proof (induction n and cs arbitrary: area and rects rule: node_induct)
  case (1 p)
  then show ?case by (auto simp: dims_text_def rect_fits_def)
next
  case (2 k ss cs)
  note ch = children_rects_ok [OF assms 2(3) 2(2), where horiz = "k = Horizontal"]
  have "list_all wf_tree cs" "\<forall>p\<in>set (panes_of_list cs). pane_id p \<le> usize_max" using 2 by simp_all
  from 2(1) [OF this(1) ch(1) _ this(2)] ch(2) 2(3) show ?case
    by (auto simp: dims_text_def rect_fits_def Let_def)
next
  case (4 c cs)
  then obtain r rs where "rects = r # rs" by (cases rects) auto
  with 4 show ?case by auto
qed simp

lemma hex_digit_hex: "d < 16 \<Longrightarrow> is_hex (hex_digit d)"
  by (auto simp: is_hex_def hex_digit_def is_digit_def)

lemma hex_not_space: "is_hex c \<Longrightarrow> \<not> is_space c"
  by (auto simp: is_hex_def is_space_def is_digit_def)

lemma digit_not_space: "is_digit c \<Longrightarrow> \<not> is_space c"
  by (auto simp: is_space_def is_digit_def)

lemma show_desc_last:
  assumes "desc_ok d"
  shows "show_desc d \<noteq> [] \<and> \<not> is_space (last (show_desc d))"
proof -
  have "show_digits i \<noteq> [] \<and> \<not> is_space (last (show_digits i))" for i
    using show_digits_props [of i] digit_not_space [of "last (show_digits i)"] by (auto simp: list_all_iff)
  moreover have "\<not> is_space CHR ''}''" "\<not> is_space CHR '']''" by (simp_all add: is_space_def)
  ultimately show ?thesis using assms by (cases d) auto
qed

lemma trim_id:
  assumes "s \<noteq> []" "\<not> is_space (hd s)" "\<not> is_space (last s)"
  shows "trim s = s"
proof -
  have "dropWhile is_space s = s" using assms by (cases s) auto
  moreover have "dropWhile is_space (rev s) = rev s" using assms by (cases s rule: rev_cases) auto
  ultimately show ?thesis by (simp add: trim_def)
qed

lemma hex4_props: "list_all is_hex (hex4 n)" "length (hex4 n) = 4"
  by (simp_all add: hex4_def hex_digit_hex)

lemma parse_layout_string_show:
  assumes "desc_ok d"
  shows "parse_layout_string (hex4 n @ '','' @ show_desc d) = Some d"
proof -
  let ?s = "hex4 n @ '','' @ show_desc d"
  have h: "hex4 n = [hex4 n ! 0, hex4 n ! 1, hex4 n ! 2, hex4 n ! 3]" by (simp add: hex4_def)
  have "\<not> is_space (hd ?s)" using hex4_props(1) [of n] hex_not_space by (subst h, subst (asm) h) auto
  moreover have "\<not> is_space (last ?s)" "?s \<noteq> []" using show_desc_last [OF assms] by auto
  ultimately have t: "trim ?s = ?s" by (intro trim_id)
  have "drop 5 ?s = show_desc d" "take 4 ?s = hex4 n" "?s ! 4 = CHR '',''" "\<not> length ?s < 5"
    using hex4_props(2) [of n] by (simp_all add: nth_append)
  moreover have "parse_layout_node (length (show_desc d) + 1) (show_desc d) = Some (Some (d, length (show_desc d)))"
    using parse_show_desc(1) [OF assms, of "length (show_desc d) + 1" "[]"] need_le(1) [of d] by simp
  ultimately show ?thesis
    unfolding parse_layout_string_def t Let_def using hex4_props(1) [of n] by (simp del: append_Cons append.simps)
qed

text \<open>
  C36: The parser of layout strings reads back what the printer writes: for every
  well-formed tree and every area, the string of the \<open>window_layout\<close> variable, with its
  checksum, parses to the layout the tree has in that area, with every rectangle and pane
  identifier.
\<close>

theorem window_layout_round_trip:
  assumes "rect_new_ok rnew" "wf_tree n" "rect_fits area" "\<forall>p\<in>set (panes_of n). pane_id p \<le> usize_max"
  shows "parse_layout_string (generate_window_layout rnew n area) = Some (describe rnew n area)"
  using show_describe(1) [OF assms] parse_layout_string_show
  by (simp add: generate_window_layout_def Let_def)

theorem window_layout_round_trip_witness:
  "parse_layout_string (generate_window_layout clip_rect example_tree \<lparr>rx = 0, ry = 0, rw = 80, rh = 24\<rparr>) =
     Some (describe clip_rect example_tree \<lparr>rx = 0, ry = 0, rw = 80, rh = 24\<rparr>)"
  by (rule window_layout_round_trip [OF clip_rect_ok]) (auto simp: example_simps rect_fits_def usize_max_def)

section \<open>The parser returns\<close>

lemma parse_dimensions_consumes:
  assumes "parse_dimensions s = Some (w, h, x, y, c)"
  shows "1 \<le> c"
  using assms by (auto simp: parse_dimensions_def Let_def split: Option.bind_splits)

lemma parse_layout_fuel:
  "length s < fuel \<Longrightarrow> parse_layout_node fuel s \<noteq> None \<and>
     (\<forall>d c. parse_layout_node fuel s = Some (Some (d, c)) \<longrightarrow> 1 \<le> c)"
  "length s - pos + 1 < fuel \<Longrightarrow> parse_layout_children fuel s closing cs pos \<noteq> None"
proof (induction fuel s and fuel s closing cs pos rule: parse_layout_node_parse_layout_children.induct)
  case (2 n s)
  show ?case
  proof (cases "parse_dimensions s")
    case None
    then show ?thesis by simp
  next
    case (Some r)
    obtain w h x y c where r: "r = (w, h, x, y, c)" by (cases r) auto
    with Some parse_dimensions_consumes have c: "1 \<le> c" by blast
    have sub: "length (tl (drop c s)) - 0 + 1 < n" if "starts_with b (drop c s)" for b
      using that 2(3) c by (auto simp: starts_with_def)
    have "parse_layout_children n (tl (drop c s)) CHR ''}'' [] 0 \<noteq> None" if "starts_with CHR ''{'' (drop c s)"
      using 2(1) [OF Some r [symmetric] refl refl refl refl that sub [OF that]] .
    moreover have "parse_layout_children n (tl (drop c s)) CHR '']'' [] 0 \<noteq> None"
      if "\<not> starts_with CHR ''{'' (drop c s)" "starts_with CHR ''['' (drop c s)"
      using 2(2) [OF Some r [symmetric] refl refl refl refl that sub [OF that(2)]] .
    ultimately show ?thesis
      using Some r c by (auto simp: Let_def split: option.split prod.split)
  qed
next
  case (4 n s closing cs pos)
  define q where "q = (if cs \<noteq> [] \<and> s ! pos = CHR '','' then pos + 1 else pos)"
  show ?case
  proof (cases "pos \<ge> length s \<or> s ! pos = closing")
    case False
    then have unf: "parse_layout_children (Suc n) s closing cs pos =
      (case parse_layout_node n (drop q s) of
         None \<Rightarrow> None | Some None \<Rightarrow> Some None
       | Some (Some (node, consumed)) \<Rightarrow> parse_layout_children n s closing (cs @ [node]) (q + consumed))"
      by (simp only: parse_layout_children.simps Let_def q_def if_False de_Morgan_disj)
    have q: "pos \<le> q" by (simp add: q_def)
    then have "length (drop q s) < n" using 4(3) False by auto
    with 4(1) [OF _ _ q_def] False have node: "parse_layout_node n (drop q s) \<noteq> None"
        "\<And>d c. parse_layout_node n (drop q s) = Some (Some (d, c)) \<Longrightarrow> 1 \<le> c" by auto
    moreover have "parse_layout_children n s closing (cs @ [d]) (q + c) \<noteq> None"
      if "parse_layout_node n (drop q s) = Some (Some (d, c))" for d c
    proof -
      have "length s - (q + c) + 1 < n" using node(2) [OF that] 4(3) False q by auto
      with 4(2) [OF _ _ q_def that refl refl] False show ?thesis by auto
    qed
    ultimately show ?thesis
      unfolding unf by (auto split: option.split prod.split)
  qed auto
qed simp_all

text \<open>
  C37: The parser of layout strings always returns: on any input one step per byte is
  enough for the recursion, because every node consumes at least one byte, so the fuel of
  the model is never what makes it fail.
\<close>

theorem parse_layout_terminates:
  "parse_layout_node (length s + 1) s \<noteq> None"
  using parse_layout_fuel(1) [of s "length s + 1"] by simp

section \<open>Applying a layout\<close>

lemma bump_last_100:
  assumes "ss \<noteq> []" "sum_list ss \<le> 100"
  shows "length (bump_last (100 - sum_list ss) ss) = length ss \<and> sum_list (bump_last (100 - sum_list ss) ss) = 100"
proof -
  have "last ss \<le> sum_list ss" using assms(1) by (simp add: member_le_sum_list)
  with assms have "last ss + (100 - sum_list ss) < 65536" by linarith
  from bump_last_props [OF assms(1) this] assms(2) show ?thesis by simp
qed

lemma equal_sizes_props:
  assumes "1 \<le> n" "n < 65536"
  shows "\<exists>ss. equal_sizes n = Some ss \<and> length ss = n \<and> sum_list ss = 100"
proof -
  have b: "100 div n * n \<le> 100" by simp
  then have "100 div n * n mod 65536 = 100 div n * n" by (intro mod_less) linarith
  with assms b bump_last_100 [of "replicate n (100 div n)"] show ?thesis
    by (auto simp: equal_sizes_def Let_def sum_list_replicate mult.commute)
qed

interpretation equal: share_rule "\<lambda>n. the (equal_sizes n)"
  by unfold_locales (use equal_sizes_props in fastforce)+

lemma equal_split:
  assumes "2 \<le> length cs" "length cs < 65536" "list_all wf_tree cs"
  shows "\<exists>ss. equal_sizes (length cs) = Some ss \<and> wf_tree (Split k ss cs)"
  using equal.wf_split [OF assms, of k] equal_sizes_props [of "length cs"] assms by auto

lemma main_split_props:
  assumes "2 \<le> length cs" "length cs < 65536" "list_all wf_tree cs" "0 < pct" "pct \<le> 95"
  shows "\<exists>n. main_split pct k k' cs = Some n \<and> wf_tree n \<and> panes_of n = panes_of_list cs"
proof -
  obtain m cs' where cs: "cs = m # cs'" "cs' \<noteq> []" using assms(1) by (cases cs; cases "tl cs") auto
  have sh: "shares_ok [pct, sub16 100 pct]" using assms(4,5) by (simp add: shares_ok_def)
  show ?thesis
  proof (cases "length cs' = 1")
    case True
    then obtain c where "cs' = [c]" by (cases cs') auto
    with cs assms sh show ?thesis by (simp add: main_split_def)
  next
    case False
    with cs have "2 \<le> length cs'" by (cases cs') (auto simp: Suc_le_eq)
    with equal_split [of cs' k'] assms cs obtain ss where "equal_sizes (length cs') = Some ss" "wf_tree (Split k' ss cs')"
      by auto
    with cs assms sh False show ?thesis by (simp add: main_split_def)
  qed
qed

lemma panes_take_drop: "panes_of_list (take n cs) @ panes_of_list (drop n cs) = panes_of_list cs"
  by (metis append_take_drop_id panes_of_list_append)

lemma build_tiled_props:
  "cs \<noteq> [] \<Longrightarrow> list_all wf_tree cs \<Longrightarrow> \<exists>n. build_tiled cs = Some n \<and> wf_tree n \<and> panes_of n = panes_of_list cs"
proof (induction cs rule: build_tiled.induct)
  case (3 p q)
  then show ?case by simp
next
  case (4 p q r rs)
  let ?cs = "p # q # r # rs"
  define mid where "mid = length ?cs div 2"
  have m: "take mid ?cs \<noteq> []" "drop mid ?cs \<noteq> []" by (auto simp: mid_def)
  have wf: "list_all wf_tree (take mid ?cs)" "list_all wf_tree (drop mid ?cs)"
    using 4(4) append_take_drop_id [of mid ?cs] by (metis list_all_append)+
  obtain a where a: "build_tiled (take mid ?cs) = Some a" "wf_tree a" "panes_of a = panes_of_list (take mid ?cs)"
    using 4(1) [OF mid_def m(1) wf(1)] by blast
  obtain b where b: "build_tiled (drop mid ?cs) = Some b" "wf_tree b" "panes_of b = panes_of_list (drop mid ?cs)"
    using 4(2) [OF mid_def a(1) m(2) wf(2)] by blast
  have "build_tiled ?cs = Some (Split Vertical [50, 50] [a, b])"
    using a(1) b(1) by (simp add: mid_def)
  moreover have "panes_of (Split Vertical [50, 50] [a, b]) = panes_of_list ?cs"
    using a(3) b(3) panes_take_drop [of mid ?cs] by simp
  ultimately show ?case using a(2) b(2) by (simp add: shares_ok_def)
qed simp_all

definition known_layout :: "string \<Rightarrow> bool" where
  "known_layout layout =
     (map lower_char layout \<in> {''even-horizontal'', ''even-h'', ''even-vertical'', ''even-v'', ''main-horizontal'',
        ''main-h'', ''main-vertical'', ''main-v'', ''tiled''})"

lemma layout_tree_known:
  assumes "known_layout layout" "2 \<le> length cs" "length cs < 65536" "list_all wf_tree cs"
  shows "\<exists>n. layout_tree app layout cs = Some n \<and> wf_tree n \<and> panes_of n = panes_of_list cs"
proof -
  have pct: "0 < (if 0 < v then min v 95 else 60 :: nat)" "(if 0 < v then min v 95 else 60 :: nat) \<le> 95" for v
    by auto
  obtain s1 where s1: "equal_sizes (length cs) = Some s1" "wf_tree (Split Horizontal s1 cs)"
    using equal_split [OF assms(2-4), of Horizontal] by blast
  obtain s2 where s2: "equal_sizes (length cs) = Some s2" "wf_tree (Split Vertical s2 cs)"
    using equal_split [OF assms(2-4), of Vertical] by blast
  have "cs \<noteq> []" using assms(2) by auto
  note t = build_tiled_props [OF this assms(4)]
  note m1 = main_split_props [OF assms(2-4) pct [of "main_pane_height app"], of Vertical Horizontal]
  note m2 = main_split_props [OF assms(2-4) pct [of "main_pane_width app"], of Horizontal Vertical]
  show ?thesis
    using assms(1) unfolding known_layout_def layout_tree_def Let_def
    by (elim insertE emptyE) (use s1 s2 t m1 m2 in simp_all)
qed

lemma collect_leaves_props: "list_all wf_tree (collect_leaves n)" "panes_of_list (collect_leaves n) = panes_of n"
    "length (collect_leaves n) = length (panes_of n)"
  by (simp_all add: collect_leaves_def list_all_iff panes_of_list_concat comp_def)

text \<open>
  Every named layout keeps the panes: with two panes or more, the window gets a
  well-formed tree with the same panes in the same order, the focus goes to its first
  pane, and nothing panics or is killed.
\<close>

theorem named_layout_keeps_panes:
  assumes "known_layout layout" "active_window app = Some w" "2 \<le> length (panes_of (root w))"
    "length (panes_of (root w)) < 65536"
  shows "\<exists>app' w'. apply_layout app layout = Some app' \<and> active_window app' = Some w' \<and>
    panes_of (root w') = panes_of (root w) \<and> wf_tree (root w') \<and> active_path w' = first_leaf_path (root w')"
proof -
  obtain n where n: "layout_tree app layout (collect_leaves (root w)) = Some n" "wf_tree n" "panes_of n = panes_of (root w)"
    using layout_tree_known [OF assms(1) _ _ collect_leaves_props(1), of "root w" app] assms(3,4)
    by (auto simp: collect_leaves_props)
  have i: "active_idx app < length (windows app)" "windows app ! active_idx app = w"
    using assms(2) by (auto simp: active_window_def get_def split: if_splits)
  define w' where "w' = w\<lparr>root := n, active_path := first_leaf_path n\<rparr>"
  have "apply_layout app layout = Some (set_window (active_idx app) w' app)"
    using assms(2,3) n by (simp add: apply_layout_def Let_def collect_leaves_props w'_def)
  moreover have "active_window (set_window (active_idx app) w' app) = Some w'"
    using i by (simp add: active_window_def get_def set_window_def)
  ultimately show ?thesis using n by (auto simp: w'_def)
qed

theorem named_layout_keeps_panes_witness:
  "\<exists>app' w'. apply_layout example_app ''Main-V'' = Some app' \<and> active_window app' = Some w' \<and>
    panes_of (root w') = panes_of example_tree"
proof -
  have "active_window example_app = Some (example_window 1 example_tree [1, 0])"
    by (simp add: active_window_def example_app_def)
  moreover have "known_layout ''Main-V''" by code_simp
  ultimately show ?thesis
    using named_layout_keeps_panes [of "''Main-V''" example_app "example_window 1 example_tree [1, 0]"]
    by (auto simp: example_window_def example_tree_def)
qed

section \<open>Layouts from strings\<close>

fun layout_small :: "layout_node \<Rightarrow> bool" where
  "layout_small (LLeaf w h x y i) = True"
| "layout_small (LSplit k w h x y cs) = (length cs < 65536 \<and> list_all layout_small cs)"

lemma layout_sizes_some: "length cs < 65536 \<Longrightarrow> \<exists>ss. layout_sizes k cs = Some ss"
  by (auto simp: layout_sizes_def Let_def)

definition fill :: "nat \<Rightarrow> node list \<Rightarrow> (node list \<Rightarrow> 'a \<Rightarrow> bool) \<Rightarrow> ('a option \<times> node list) option \<Rightarrow> bool" where
  "fill c panes P r =
     (if c \<le> length panes then (\<exists>m. r = Some (Some m, drop c panes) \<and> P (take c panes) m)
      else r = Some (None, []))"

lemma layout_to_node_fill:
  "layout_small d \<Longrightarrow>
     fill (count_leaves d) panes (\<lambda>used m. panes_of m = panes_of_list used) (layout_node_to_node d panes)"
  "list_all layout_small cs \<Longrightarrow>
     fill (sum_list (map count_leaves cs)) panes (\<lambda>used ms. panes_of_list ms = panes_of_list used)
       (layout_nodes_to_nodes cs panes)"
proof (induction d and cs arbitrary: panes and panes rule: need_needs.induct)
  case (1 w h x y i)
  then show ?case by (cases panes) (auto simp: fill_def)
next
  case (2 k w h x y cs)
  then obtain ss where "layout_sizes k cs = Some ss" using layout_sizes_some [of cs k] by auto
  with 2(1) [of panes] 2(2) show ?case by (auto simp: fill_def split: if_splits)
next
  case 3
  then show ?case by (simp add: fill_def)
next
  case (4 c cs)
  then have c: "fill (count_leaves c) panes (\<lambda>used m. panes_of m = panes_of_list used) (layout_node_to_node c panes)"
    and cs: "fill (sum_list (map count_leaves cs)) (drop (count_leaves c) panes)
      (\<lambda>used ms. panes_of_list ms = panes_of_list used) (layout_nodes_to_nodes cs (drop (count_leaves c) panes))" by auto
  show ?case
  proof (cases "count_leaves c \<le> length panes")
    case True
    with c obtain m where m: "layout_node_to_node c panes = Some (Some m, drop (count_leaves c) panes)"
      "panes_of m = panes_of_list (take (count_leaves c) panes)" by (auto simp: fill_def)
    with cs True show ?thesis
      by (auto simp: fill_def take_add add.commute split: if_splits)
  next
    case False
    with c show ?thesis by (auto simp: fill_def)
  qed
qed

text \<open>
  A layout string keeps the panes only if it has exactly as many leaves as the window
  has panes. With fewer leaves the surplus panes are dropped, and with more leaves than
  panes all the panes of the window are dropped and it is left with an empty tree.
\<close>

theorem layout_string_drops_panes:
  assumes "active_window app = Some w" "2 \<le> length (panes_of (root w))" "length (panes_of (root w)) < 65536"
    "\<not> known_layout layout" "parse_layout_string layout = Some d" "layout_small d"
  shows "\<exists>app' w'. apply_layout app layout = Some app' \<and> active_window app' = Some w' \<and>
    panes_of (root w') =
      (if count_leaves d \<le> length (panes_of (root w)) then take (count_leaves d) (panes_of (root w)) else [])"
proof -
  let ?ls = "collect_leaves (root w)"
  have take: "panes_of_list (take n ?ls) = take n (panes_of (root w))" for n
    by (simp add: collect_leaves_def panes_of_list_concat take_map comp_def)
  obtain ss where "equal_sizes (length ?ls) = Some ss"
    using equal_sizes_props [of "length ?ls"] assms(2,3) by (auto simp: collect_leaves_props)
  with layout_to_node_fill(1) [OF assms(6), of ?ls] assms(4,5)
  obtain n where n: "layout_tree app layout ?ls = Some n"
    "panes_of n = (if count_leaves d \<le> length (panes_of (root w)) then take (count_leaves d) (panes_of (root w)) else [])"
    by (auto simp: layout_tree_def Let_def parse_tmux_layout_string_def fill_def known_layout_def take
        collect_leaves_props split: if_splits)
  have i: "active_idx app < length (windows app)" "windows app ! active_idx app = w"
    using assms(1) by (auto simp: active_window_def get_def split: if_splits)
  define w' where "w' = w\<lparr>root := n, active_path := first_leaf_path n\<rparr>"
  have "apply_layout app layout = Some (set_window (active_idx app) w' app)"
    using assms(1,2) n by (simp add: apply_layout_def Let_def collect_leaves_props w'_def)
  moreover have "active_window (set_window (active_idx app) w' app) = Some w'"
    using i by (simp add: active_window_def get_def set_window_def)
  ultimately show ?thesis using n by (auto simp: w'_def)
qed

text \<open>A window of two panes given a layout of three.\<close>

theorem layout_string_drops_panes_witness:
  "\<exists>app' w'. apply_layout
       (example_app\<lparr>windows := [example_window 1 (Split Horizontal [50, 50] (map Leaf [mk_pane 1, mk_pane 2])) [0]]\<rparr>)
       ''0000,80x24,0,0{26x24,0,0,1,26x24,27,0,2,26x24,54,0,3}'' = Some app' \<and>
     active_window app' = Some w' \<and> panes_of (root w') = []"
proof -
  let ?w = "example_window 1 (Split Horizontal [50, 50] (map Leaf [mk_pane 1, mk_pane 2])) [0]"
  let ?d = "LSplit Horizontal 80 24 0 0 [LLeaf 26 24 0 0 (Some 1), LLeaf 26 24 27 0 (Some 2), LLeaf 26 24 54 0 (Some 3)]"
  have eq: "hex4 0 @ '','' @ show_desc ?d = ''0000,80x24,0,0{26x24,0,0,1,26x24,27,0,2,26x24,54,0,3}''" by code_simp
  have ok: "desc_ok ?d" by (simp add: usize_max_def)
  have p: "parse_layout_string ''0000,80x24,0,0{26x24,0,0,1,26x24,27,0,2,26x24,54,0,3}'' = Some ?d"
    using parse_layout_string_show [OF ok, of 0] unfolding eq .
  have "active_window (example_app\<lparr>windows := [?w]\<rparr>) = Some ?w"
    by (simp add: active_window_def example_app_def)
  moreover have "\<not> known_layout ''0000,80x24,0,0{26x24,0,0,1,26x24,27,0,2,26x24,54,0,3}''" by code_simp
  ultimately show ?thesis
    using layout_string_drops_panes [OF _ _ _ _ p, of "example_app\<lparr>windows := [?w]\<rparr>" ?w]
    by (auto simp: example_window_def)
qed

section \<open>Cycling\<close>

text \<open>
  Cycling forward and then backward selects the layout the window started from: when
  both requests succeed on a split window, the layout index is the old one, and the panes
  are the same in the same order.
\<close>

theorem cycle_layout_inverse:
  assumes "active_window app = Some w" "2 \<le> length (panes_of (root w))" "length (panes_of (root w)) < 65536"
    "layout_index w < length LAYOUT_NAMES"
  shows "\<exists>app1 app2 w2. cycle_layout app = Some app1 \<and> cycle_layout_reverse app1 = Some app2 \<and>
    active_window app2 = Some w2 \<and> layout_index w2 = layout_index w \<and> panes_of (root w2) = panes_of (root w)"
proof -
  have split: "\<exists>k ss cs. root v = Split k ss cs" if "2 \<le> length (panes_of (root v))" for v
    using that by (cases "root v") auto
  have known: "known_layout (LAYOUT_NAMES ! i)" if "i < length LAYOUT_NAMES" for i
  proof -
    have "list_all known_layout LAYOUT_NAMES" by code_simp
    with that show ?thesis by (simp add: list_all_length)
  qed
  have step: "\<exists>app' w'. cycle_to f app = Some app' \<and> active_window app' = Some w' \<and> layout_index w' = f (layout_index w) \<and>
      panes_of (root w') = panes_of (root w)"
    if a: "active_window app = Some w" and n: "2 \<le> length (panes_of (root w))" "length (panes_of (root w)) < 65536"
      and f: "f (layout_index w) < length LAYOUT_NAMES" for f app w
  proof -
    define i where "i = f (layout_index w)"
    define w1 where "w1 = w\<lparr>layout_index := i\<rparr>"
    have idx: "active_idx app < length (windows app)" using a by (auto simp: active_window_def get_def split: if_splits)
    then have a1: "active_window (set_window (active_idx app) w1 app) = Some w1"
      by (simp add: active_window_def get_def set_window_def)
    obtain l where l: "layout_tree (set_window (active_idx app) w1 app) (LAYOUT_NAMES ! i) (collect_leaves (root w)) = Some l"
      "panes_of l = panes_of (root w)"
      using layout_tree_known [OF known [OF f] _ _ collect_leaves_props(1), of "root w"] n
      by (auto simp: collect_leaves_props i_def)
    obtain k ss cs where "root w = Split k ss cs" using split [OF n(1)] by blast
    then have "cycle_to f app = apply_layout (set_window (active_idx app) w1 app) (LAYOUT_NAMES ! i)"
      using a by (simp add: cycle_to_def w1_def i_def Let_def)
    also have "\<dots> = Some (set_window (active_idx app) (w1\<lparr>root := l, active_path := first_leaf_path l\<rparr>) app)"
      using a1 n l by (simp add: apply_layout_def Let_def collect_leaves_props w1_def set_window_def)
    finally show ?thesis
      using idx l by (simp add: active_window_def get_def set_window_def w1_def i_def)
  qed
  have L: "length LAYOUT_NAMES = 5" by (simp add: LAYOUT_NAMES_def)
  from step [of app w "\<lambda>i. (i + 1) mod length LAYOUT_NAMES"] assms L
  obtain app1 w1 where 1: "cycle_layout app = Some app1" "active_window app1 = Some w1"
    "layout_index w1 = (layout_index w + 1) mod 5" "panes_of (root w1) = panes_of (root w)"
    by (auto simp: cycle_layout_def)
  from step [of app1 w1 "\<lambda>i. (i + length LAYOUT_NAMES - 1) mod length LAYOUT_NAMES"] assms 1 L
  obtain app2 w2 where 2: "cycle_layout_reverse app1 = Some app2" "active_window app2 = Some w2"
    "layout_index w2 = (layout_index w1 + 4) mod 5" "panes_of (root w2) = panes_of (root w)"
    by (auto simp: cycle_layout_reverse_def add.commute)
  have "((layout_index w + 1) mod 5 + 4) mod 5 = layout_index w" using assms(4) L by presburger
  with 1 2 show ?thesis by auto
qed

theorem cycle_layout_inverse_witness:
  "\<exists>app1 app2 w2. cycle_layout example_app = Some app1 \<and> cycle_layout_reverse app1 = Some app2 \<and>
    active_window app2 = Some w2 \<and> layout_index w2 = 0"
proof -
  have "active_window example_app = Some (example_window 1 example_tree [1, 0])"
    by (simp add: active_window_def example_app_def)
  from cycle_layout_inverse [OF this] show ?thesis
    by (auto simp: example_window_def example_tree_def LAYOUT_NAMES_def)
qed

end
