(* ===== verification/Ordered.thy ===== *)
theory Ordered
  imports Text "HOL-Library.AList" "HOL-Library.Char_ord" "HOL-Library.List_Lexorder"
begin

text \<open>
  The ordered collections of the standard library of Rust - a \<open>BTreeMap\<close> is its list of entries
  in the order of their keys, a \<open>BTreeSet\<close> its sorted list of elements, strings in the order of
  their bytes - and the result type of \<open>std::io\<close>, a sum with the kind of the error at the left.
\<close>

section \<open>Ordered maps\<close>

fun tree_insert :: "'k :: linorder \<Rightarrow> 'v \<Rightarrow> ('k \<times> 'v) list \<Rightarrow> ('k \<times> 'v) list" where
  "tree_insert k v [] = [(k, v)]"
| "tree_insert k v (e # es) =
     (if k < fst e then (k, v) # e # es
      else if k = fst e then (k, v) # es
      else e # tree_insert k v es)"

definition tree_remove :: "'k \<Rightarrow> ('k \<times> 'v) list \<Rightarrow> ('k \<times> 'v) list" where
  "tree_remove k es = filter (\<lambda>e. fst e \<noteq> k) es"

lemma map_of_tree_insert [simp]: "map_of (tree_insert k v es) = (map_of es)(k \<mapsto> v)"
  by (induction es) auto

lemma map_of_tree_remove [simp]: "map_of (tree_remove k es) = (map_of es)(k := None)"
  by (induction es) (auto simp: tree_remove_def)

lemma set_tree_insert: "set (tree_insert k v es) \<subseteq> insert (k, v) (set es)"
  by (induction es) auto

lemma sorted_tree_insert:
  "sorted_wrt (<) (map fst es) \<Longrightarrow> sorted_wrt (<) (map fst (tree_insert k v es))"
  by (induction es) (auto dest!: subsetD [OF set_tree_insert])

lemma sorted_tree_remove:
  "sorted_wrt (<) (map fst es) \<Longrightarrow> sorted_wrt (<) (map fst (tree_remove k es))"
  by (simp add: tree_remove_def sorted_wrt_map sorted_wrt_filter)

lemma keys_tree_insert [simp]: "fst ` set (tree_insert k v es) = insert k (fst ` set es)"
  by (induction es) auto

lemma sorted_keys_distinct: "sorted_wrt (<) (map fst es) \<Longrightarrow> distinct (map fst es)"
  for es :: "('k :: linorder \<times> 'v) list"
  by (simp add: strict_sorted_iff)

lemma sorted_keys_unique:
  fixes xs ys :: "('k :: linorder \<times> 'v) list"
  assumes "sorted_wrt (<) (map fst xs)" "sorted_wrt (<) (map fst ys)" "set xs = set ys"
  shows "xs = ys"
proof (rule map_sorted_distinct_set_unique [where f = fst])
  show "inj_on fst (set xs \<union> set ys)"
    using assms by (simp add: strict_sorted_iff distinct_map)
qed (use assms in \<open>simp_all add: strict_sorted_iff\<close>)

section \<open>Ordered sets\<close>

definition set_insert :: "'a :: linorder \<Rightarrow> 'a list \<Rightarrow> 'a list" where
  "set_insert x xs = (if x \<in> set xs then xs else insort x xs)"

lemma set_set_insert [simp]: "set (set_insert x xs) = insert x (set xs)"
  by (auto simp: set_insert_def set_insort_key)

lemma length_set_insert: "length (set_insert x xs) \<le> Suc (length xs)"
  by (simp add: set_insert_def)

lemma sorted_set_insert: "sorted_wrt (<) xs \<Longrightarrow> sorted_wrt (<) (set_insert x xs)"
  by (auto simp: set_insert_def strict_sorted_iff sorted_insort distinct_insort)

section \<open>Results\<close>

datatype io_error = InvalidInput | InvalidData | NotFound | PermissionDenied | OtherIo

text \<open>The question mark operator, \<open>ok_or\<close>, and the return of an error unless a condition holds.\<close>

fun attempt :: "'e + 'a \<Rightarrow> ('a \<Rightarrow> 'e + 'b) \<Rightarrow> 'e + 'b" where
  "attempt (Inl e) k = Inl e"
| "attempt (Inr x) k = k x"

fun ok_or :: "'e \<Rightarrow> 'a option \<Rightarrow> 'e + 'a" where
  "ok_or e None = Inl e"
| "ok_or e (Some x) = Inr x"

definition ensure :: "bool \<Rightarrow> 'e \<Rightarrow> 'e + unit" where
  "ensure b e = (if b then Inr () else Inl e)"

lemma attempt_Inr [simp]: "attempt r k = Inr y \<longleftrightarrow> (\<exists>x. r = Inr x \<and> k x = Inr y)"
  by (cases r) auto

lemma ok_or_Inr [simp]: "ok_or e x = Inr y \<longleftrightarrow> x = Some y"
  by (cases x) auto

lemma ensure_Inr [simp]: "ensure b e = Inr u \<longleftrightarrow> b"
  by (simp add: ensure_def)

text \<open>A loop over a list that threads a state and stops at the first error.\<close>

fun each_try :: "('i \<Rightarrow> 's \<Rightarrow> 'e + 's) \<Rightarrow> 'i list \<Rightarrow> 's \<Rightarrow> 'e + 's" where
  "each_try f [] s = Inr s"
| "each_try f (i # js) s = attempt (f i s) (each_try f js)"

lemma each_try_inv:
  assumes "each_try f js s = Inr s'" "I [] s"
    "\<And>pre i t t'. set pre \<subseteq> set js \<Longrightarrow> i \<in> set js \<Longrightarrow> I pre t \<Longrightarrow> f i t = Inr t' \<Longrightarrow> I (pre @ [i]) t'"
  shows "I js s'"
proof -
  have "each_try f ks t = Inr s' \<Longrightarrow> I pre t \<Longrightarrow> pre @ ks = js \<Longrightarrow> I js s'" for ks pre t
  proof (induction ks arbitrary: pre t)
    case (Cons k ks)
    from Cons.prems(1) obtain t1 where t1: "f k t = Inr t1" "each_try f ks t1 = Inr s'" by auto
    have "I (pre @ [k]) t1"
      by (rule assms(3) [OF _ _ Cons.prems(2) t1(1)]) (use Cons.prems(3) in auto)
    with Cons.IH [of t1 "pre @ [k]"] t1(2) Cons.prems(3) show ?case by simp
  qed simp
  with assms(1,2) show ?thesis by blast
qed

text \<open>A loop whose steps only fail in one way only fails in that way.\<close>

lemma attempt_Inl: "attempt r k = Inl e \<longleftrightarrow> r = Inl e \<or> (\<exists>x. r = Inr x \<and> k x = Inl e)"
  by (cases r) auto

lemma ensure_Inl [simp]: "ensure b e = Inl e' \<longleftrightarrow> \<not> b \<and> e' = e"
  by (auto simp: ensure_def)

lemma ok_or_Inl [simp]: "ok_or e x = Inl e' \<longleftrightarrow> x = None \<and> e' = e"
  by (cases x) auto

lemma each_try_error:
  assumes "\<And>i t e'. f i t = Inl e' \<Longrightarrow> e' = e" "each_try f js s = Inl e'"
  shows "e' = e"
  using assms(2) by (induction js arbitrary: s) (auto simp: attempt_Inl dest: assms(1))

end
