(* ===== verification/Host_Trust.thy ===== *)
theory Host_Trust
  imports Ordered
begin

text \<open>
  The trust record kept for an OpenSSH alias (core/src/host_profile.rs): the resolution of
  the alias from the output of \<open>ssh -G\<close>, the fingerprint presented by the known_hosts
  files, and the commands check, register and status with the state machine of trust.

  The world holds what the code reads and writes: the environment, the runs of the ssh
  program, the text files, the record files, which files cannot be read, and how a write to a
  file ends: with the whole text, with an error before the file was touched, or with an error
  after the file was truncated and the first bytes were written, as \<open>fs::write\<close> does.
  A record file is stored in the type \<open>'t\<close> of serialised records; serde_json is the parameter
  \<open>record_json\<close>, with the text of a record and that text cut short, and the hexadecimal
  SHA-256 of a text the parameter \<open>sha\<close>. Paths are lists of components, text is ASCII.
\<close>

section \<open>Types\<close>

datatype trust_state = Pending | Registered | Blocked

type_synonym file_path = "string list"

record host_profile =
  hp_alias :: string
  hp_hostname :: string
  hp_port :: nat
  hp_user :: string
  hp_proxyjump :: "string option"
  confirmed_fingerprint :: "string option"
  trust :: trust_state

datatype known_hosts_spec = Unspecified | Disabled | Files "file_path list"

record resolved_host =
  rh_hostname :: string
  rh_lookup_name :: string
  rh_port :: nat
  rh_user :: string
  rh_proxyjump :: "string option"
  rh_user_known_hosts :: known_hosts_spec
  rh_global_known_hosts :: "file_path list"

datatype presented_fingerprint = NoFingerprint | Unique string | Ambiguous | Revoked

record 't record_json =
  object_keys :: "'t \<Rightarrow> string list option option"
  decode_record :: "'t \<Rightarrow> host_profile option"
  encode_record :: "host_profile \<Rightarrow> 't"
  cut_record :: "host_profile \<Rightarrow> nat \<Rightarrow> 't"

datatype write_end = Written | Untouched io_error | CutShort io_error nat

record 't world =
  env :: "string \<Rightarrow> string option"
  run_ssh :: "string \<Rightarrow> string list \<Rightarrow> io_error + (bool \<times> string)"
  text_files :: "file_path \<Rightarrow> string option"
  records :: "file_path \<Rightarrow> 't option"
  read_error :: "file_path \<Rightarrow> io_error option"
  write_to :: "file_path \<Rightarrow> write_end"

record report =
  rep_action :: string
  rep_profile :: host_profile
  rep_presented :: "string option"

definition env_nonempty :: "'t world \<Rightarrow> string \<Rightarrow> string option" where
  "env_nonempty w name =
     (case env w name of Some v \<Rightarrow> if trim v \<noteq> [] then Some v else None | None \<Rightarrow> None)"

section \<open>Aliases\<close>

definition validate_alias :: "string \<Rightarrow> io_error + unit" where
  "validate_alias alias =
     (case alias of
        [] \<Rightarrow> Inl InvalidInput
      | first # chars \<Rightarrow>
          if \<not> is_alnum first then Inl InvalidInput
          else if \<not> list_all (\<lambda>ch. is_alnum ch \<or> ch \<in> {CHR ''.'', CHR ''_'', CHR ''-''}) chars then Inl InvalidInput
          else Inr ())"

section \<open>The output of ssh -G\<close>

definition parse_known_hosts_files :: "string \<Rightarrow> file_path list" where
  "parse_known_hosts_files v =
     (if lower v = ''none'' then []
      else map (\<lambda>p. [p]) (filter (\<lambda>p. p \<noteq> [] \<and> lower p \<noteq> ''none'') (split_whitespace v)))"

definition merge_known_hosts_spec :: "known_hosts_spec \<Rightarrow> string \<Rightarrow> known_hosts_spec" where
  "merge_known_hosts_spec current v =
     (if lower v = ''none'' then Disabled
      else case current of
             Files files \<Rightarrow> Files (files @ parse_known_hosts_files v)
           | _ \<Rightarrow> Files (parse_known_hosts_files v))"

record ssh_acc =
  a_hostname :: "string option"
  a_hostkeyalias :: "string option"
  a_user :: "string option"
  a_port :: nat
  a_proxyjump :: "string option"
  a_user_known_hosts :: known_hosts_spec
  a_global_known_hosts :: "file_path list"

definition is_ascii_whitespace :: "char \<Rightarrow> bool" where
  "is_ascii_whitespace c = ((of_char c :: nat) \<in> {32, 9, 10, 12, 13})"

definition ssh_g_line :: "string \<Rightarrow> ssh_acc \<Rightarrow> io_error + ssh_acc" where
  "ssh_g_line raw a =
     (let line = trim raw
      in if line = [] \<or> hd line = CHR ''#'' then Inr a
         else let key = lower (takeWhile (\<lambda>c. \<not> is_ascii_whitespace c) line);
                  v = trim (drop 1 (dropWhile (\<lambda>c. \<not> is_ascii_whitespace c) line))
              in if key = ''hostname'' then Inr (a\<lparr>a_hostname := Some v\<rparr>)
                 else if key = ''hostkeyalias'' \<and> v \<noteq> [] \<and> lower v \<noteq> ''none''
                 then Inr (a\<lparr>a_hostkeyalias := Some v\<rparr>)
                 else if key = ''user'' then Inr (a\<lparr>a_user := Some v\<rparr>)
                 else if key = ''port''
                 then (case parse_uint 65535 v of None \<Rightarrow> Inl InvalidData | Some p \<Rightarrow> Inr (a\<lparr>a_port := p\<rparr>))
                 else if key = ''proxyjump'' \<and> v \<noteq> [] then Inr (a\<lparr>a_proxyjump := Some v\<rparr>)
                 else if key = ''userknownhostsfile''
                 then Inr (a\<lparr>a_user_known_hosts := merge_known_hosts_spec (a_user_known_hosts a) v\<rparr>)
                 else if key = ''globalknownhostsfile''
                 then Inr (a\<lparr>a_global_known_hosts := a_global_known_hosts a @ parse_known_hosts_files v\<rparr>)
                 else Inr a)"

fun ssh_g_lines :: "string list \<Rightarrow> ssh_acc \<Rightarrow> io_error + ssh_acc" where
  "ssh_g_lines [] a = Inr a"
| "ssh_g_lines (l # ls) a = (case ssh_g_line l a of Inl e \<Rightarrow> Inl e | Inr a \<Rightarrow> ssh_g_lines ls a)"

definition parse_ssh_g :: "string \<Rightarrow> io_error + resolved_host" where
  "parse_ssh_g text =
     (case ssh_g_lines (text_lines text)
             \<lparr>a_hostname = None, a_hostkeyalias = None, a_user = None, a_port = 22, a_proxyjump = None,
              a_user_known_hosts = Unspecified, a_global_known_hosts = []\<rparr> of
        Inl e \<Rightarrow> Inl e
      | Inr a \<Rightarrow>
          (case a_hostname a of
             None \<Rightarrow> Inl InvalidData
           | Some hostname \<Rightarrow>
               if hostname = [] then Inl NotFound
               else Inr \<lparr>rh_hostname = hostname,
                      rh_lookup_name = (case a_hostkeyalias a of
                                          Some k \<Rightarrow> if k \<noteq> [] then k else hostname | None \<Rightarrow> hostname),
                      rh_port = a_port a,
                      rh_user = (case a_user a of Some u \<Rightarrow> u | None \<Rightarrow> []),
                      rh_proxyjump = a_proxyjump a,
                      rh_user_known_hosts = a_user_known_hosts a,
                      rh_global_known_hosts = a_global_known_hosts a\<rparr>))"

definition resolve_ssh_g :: "'t world \<Rightarrow> string \<Rightarrow> io_error + resolved_host" where
  "resolve_ssh_g w alias =
     (let ssh = (case env_nonempty w ''WINSMUX_HOST_PROFILE_SSH'' of Some s \<Rightarrow> s | None \<Rightarrow> ''ssh'')
      in case run_ssh w ssh [''-G'', ''--'', alias] of
           Inl e \<Rightarrow> Inl e
         | Inr (success, stdout) \<Rightarrow>
             if \<not> success then Inl NotFound
             else case parse_ssh_g stdout of
                    Inl e \<Rightarrow> Inl e
                  | Inr resolved \<Rightarrow>
                      if lower (rh_hostname resolved) = lower alias then Inl NotFound else Inr resolved)"

section \<open>Host patterns\<close>

text \<open>
  \<open>glob_suffix\<close> is the loop over the positions after a star; it tries the rest of the
  pattern at each of them, the end of the name included.
\<close>

function (sequential) ssh_glob_match :: "string \<Rightarrow> string \<Rightarrow> bool"
  and glob_suffix :: "string \<Rightarrow> string \<Rightarrow> bool" where
  "ssh_glob_match [] name = (name = [])"
| "ssh_glob_match (b # pattern) name =
     (if b = CHR ''*'' then (if pattern = [] then True else glob_suffix pattern name)
      else if b = CHR ''?'' then (if name = [] then False else ssh_glob_match pattern (tl name))
      else if name = [] \<or> hd name \<noteq> b then False
      else ssh_glob_match pattern (tl name))"
| "glob_suffix pattern name =
     (if ssh_glob_match pattern name then True
      else if name = [] then False
      else glob_suffix pattern (tl name))"
  by pat_completeness auto
termination
  by (relation "measures [\<lambda>x. case x of Inl (p, n) \<Rightarrow> length p | Inr (p, n) \<Rightarrow> length p,
                           \<lambda>x. case x of Inl (p, n) \<Rightarrow> 0 | Inr (p, n) \<Rightarrow> Suc (length n)]")
    (auto simp: length_tl)

declare glob_suffix.simps [simp del]

definition pattern_list_matches :: "string \<Rightarrow> string \<Rightarrow> bool" where
  "pattern_list_matches pats host =
     (let host = lower host;
          (positive, negated) =
            fold (\<lambda>pattern (positive, negated).
                let pattern = trim pattern
                in if pattern = [] then (positive, negated)
                   else case strip_prefix ''!'' pattern of
                          Some rest \<Rightarrow> (positive, negated \<or> ssh_glob_match (lower rest) host)
                        | None \<Rightarrow> (positive \<or> ssh_glob_match (lower pattern) host, negated))
              (split_on (CHR '','') pats) (False, False)
      in positive \<and> \<not> negated)"

definition host_lookup_candidates :: "resolved_host \<Rightarrow> string list" where
  "host_lookup_candidates host =
     (''['' @ rh_lookup_name host @ '']:'' @ show_digits (rh_port host)) #
     (if rh_port host = 22 then [rh_lookup_name host] else [])"

definition host_names_match :: "string \<Rightarrow> resolved_host \<Rightarrow> bool" where
  "host_names_match names host = list_ex (pattern_list_matches names) (host_lookup_candidates host)"

section \<open>The fingerprint presented by known_hosts\<close>

definition fingerprint_blob :: "(string \<Rightarrow> string) \<Rightarrow> string \<Rightarrow> string" where
  "fingerprint_blob sha blob = ''sha256:'' @ sha blob"

text \<open>The lists of the scan: revoked fingerprints, the one found, whether it is ambiguous.\<close>

type_synonym scan = "string list \<times> string option \<times> bool"

definition part :: "string list \<Rightarrow> nat \<Rightarrow> string" where
  "part parts i = (case get parts i of Some p \<Rightarrow> p | None \<Rightarrow> [])"

definition scan_line :: "(string \<Rightarrow> string) \<Rightarrow> resolved_host \<Rightarrow> string \<Rightarrow> scan \<Rightarrow> scan" where
  "scan_line sha host raw = (\<lambda>(revoked, found, ambiguous).
     let line = trim raw
     in if line = [] \<or> hd line = CHR ''#'' \<or> strip_prefix ''|1|'' line \<noteq> None then (revoked, found, ambiguous)
        else case strip_prefix ''@revoked'' line of
          Some rest \<Rightarrow>
            let parts = split_whitespace (trim rest);
                names = part parts 0; key_type = part parts 1; blob = part parts 2
            in if key_type = [] \<or> blob = [] then (revoked, found, ambiguous)
               else if strip_prefix ''|1|'' names \<noteq> None \<or> host_names_match names host
               then (revoked @ [fingerprint_blob sha blob], found, ambiguous)
               else (revoked, found, ambiguous)
        | None \<Rightarrow>
            if hd line = CHR ''@'' then (revoked, found, ambiguous)
            else let parts = split_whitespace line;
                     names = part parts 0; key_type = part parts 1; blob = part parts 2
                 in if key_type = [] \<or> blob = [] then (revoked, found, ambiguous)
                    else if \<not> host_names_match names host then (revoked, found, ambiguous)
                    else let fingerprint = fingerprint_blob sha blob
                         in case found of
                              Some existing \<Rightarrow> (revoked, found, ambiguous \<or> existing \<noteq> fingerprint)
                            | None \<Rightarrow> (revoked, Some fingerprint, ambiguous))"

definition scan_known_hosts_text :: "(string \<Rightarrow> string) \<Rightarrow> resolved_host \<Rightarrow> string \<Rightarrow> scan \<Rightarrow> scan" where
  "scan_known_hosts_text sha host text = fold (scan_line sha host) (text_lines text)"

definition known_hosts_files :: "'t world \<Rightarrow> resolved_host \<Rightarrow> file_path list" where
  "known_hosts_files w host =
     (case env_nonempty w ''WINSMUX_HOST_PROFILE_KNOWN_HOSTS'' of
        Some p \<Rightarrow> [[p]]
      | None \<Rightarrow>
          let files = (case rh_user_known_hosts host of
                Disabled \<Rightarrow> []
              | Files paths \<Rightarrow> paths
              | Unspecified \<Rightarrow>
                  (case (case env_nonempty w ''USERPROFILE'' of Some h \<Rightarrow> Some h | None \<Rightarrow> env_nonempty w ''HOME'') of
                     Some home \<Rightarrow> [[home, ''.ssh'', ''known_hosts'']]
                   | None \<Rightarrow> []))
          in fold (\<lambda>p files. if p \<in> set files then files else files @ [p]) (rh_global_known_hosts host) files)"

text \<open>The texts of the files that exist, up to the first that cannot be read.\<close>

fun read_known_hosts :: "'t world \<Rightarrow> file_path list \<Rightarrow> io_error + string list" where
  "read_known_hosts w [] = Inr []"
| "read_known_hosts w (p # ps) =
     (case text_files w p of
        None \<Rightarrow> read_known_hosts w ps
      | Some text \<Rightarrow>
          (case read_error w p of
             Some e \<Rightarrow> Inl e
           | None \<Rightarrow> (case read_known_hosts w ps of Inl e \<Rightarrow> Inl e | Inr texts \<Rightarrow> Inr (text # texts))))"

definition known_hosts_fingerprint ::
    "(string \<Rightarrow> string) \<Rightarrow> 't world \<Rightarrow> resolved_host \<Rightarrow> string option \<Rightarrow> io_error + presented_fingerprint" where
  "known_hosts_fingerprint sha w host confirmed =
     (case read_known_hosts w (known_hosts_files w host) of
        Inl e \<Rightarrow> Inl e
      | Inr texts \<Rightarrow>
          let (revoked, found, ambiguous) = fold (scan_known_hosts_text sha host) texts ([], None, False)
          in Inr (if texts = [] then NoFingerprint
                  else if (\<exists>c\<in>set_option confirmed. c \<in> set revoked) then Revoked
                  else if ambiguous then Ambiguous
                  else case found of
                         Some fingerprint \<Rightarrow> if fingerprint \<in> set revoked then Revoked else Unique fingerprint
                       | None \<Rightarrow> NoFingerprint))"

section \<open>Record files\<close>

definition SECRET_FIELD_NAMES :: "string list" where
  "SECRET_FIELD_NAMES = [''password'', ''passphrase'', ''private_key'', ''privatekey'', ''identityfile'', ''identity_file'']"

definition profile_dir :: "'t world \<Rightarrow> io_error + file_path" where
  "profile_dir w =
     (case env_nonempty w ''WINSMUX_HOST_PROFILE_DIR'' of
        Some dir \<Rightarrow> Inr [dir]
      | None \<Rightarrow> (case env_nonempty w ''LOCALAPPDATA'' of
                  Some l \<Rightarrow> Inr [l, ''winsmux'', ''host-profiles'']
                | None \<Rightarrow> Inl NotFound))"

definition record_path :: "'t world \<Rightarrow> string \<Rightarrow> io_error + file_path" where
  "record_path w alias = (case profile_dir w of Inl e \<Rightarrow> Inl e | Inr d \<Rightarrow> Inr (d @ [alias @ ''.json'']))"

definition reject_secret_fields :: "'t record_json \<Rightarrow> 't \<Rightarrow> io_error + unit" where
  "reject_secret_fields js text =
     (case object_keys js text of
        None \<Rightarrow> Inl InvalidData
      | Some None \<Rightarrow> Inl InvalidData
      | Some (Some ks) \<Rightarrow> if list_ex (\<lambda>k. lower k \<in> set SECRET_FIELD_NAMES) ks then Inl InvalidData else Inr ())"

definition load_record :: "'t record_json \<Rightarrow> 't world \<Rightarrow> file_path \<Rightarrow> io_error + host_profile option" where
  "load_record js w p =
     (case records w p of
        None \<Rightarrow> Inr None
      | Some text \<Rightarrow>
          (case read_error w p of
             Some e \<Rightarrow> Inl e
           | None \<Rightarrow>
               (case reject_secret_fields js text of
                  Inl e \<Rightarrow> Inl e
                | Inr u \<Rightarrow> (case decode_record js text of None \<Rightarrow> Inl InvalidData | Some r \<Rightarrow> Inr (Some r)))))"

definition save_record :: "'t record_json \<Rightarrow> 't world \<Rightarrow> file_path \<Rightarrow> host_profile \<Rightarrow> 't world \<times> (io_error + unit)" where
  "save_record js w p r =
     (case write_to w p of
        Written \<Rightarrow> (w\<lparr>records := (records w)(p := Some (encode_record js r))\<rparr>, Inr ())
      | Untouched e \<Rightarrow> (w, Inl e)
      | CutShort e n \<Rightarrow> (w\<lparr>records := (records w)(p := Some (cut_record js r n))\<rparr>, Inl e))"

section \<open>Commands\<close>

definition next_state :: "host_profile \<Rightarrow> presented_fingerprint \<Rightarrow> trust_state" where
  "next_state r presented =
     (case (trust r, confirmed_fingerprint r, presented) of
        (_, _, Revoked) \<Rightarrow> Blocked
      | (_, Some _, Ambiguous) \<Rightarrow> Blocked
      | (s, Some c, Unique f) \<Rightarrow>
          if c \<noteq> f then Blocked
          else if s = Blocked then Blocked
          else if s = Registered then Registered
          else Pending
      | (Blocked, _, _) \<Rightarrow> Blocked
      | (Registered, Some _, NoFingerprint) \<Rightarrow> Registered
      | _ \<Rightarrow> Pending)"

text \<open>The four steps every command starts with: resolve, find the record file, load it.\<close>

definition open_record :: "'t record_json \<Rightarrow> 't world \<Rightarrow> string \<Rightarrow> io_error + (resolved_host \<times> file_path \<times> host_profile option)" where
  "open_record js w alias =
     (case resolve_ssh_g w alias of
        Inl e \<Rightarrow> Inl e
      | Inr resolved \<Rightarrow>
          (case record_path w alias of
             Inl e \<Rightarrow> Inl e
           | Inr p \<Rightarrow> (case load_record js w p of Inl e \<Rightarrow> Inl e | Inr r \<Rightarrow> Inr (resolved, p, r))))"

definition save_then :: "'t record_json \<Rightarrow> 't world \<Rightarrow> file_path \<Rightarrow> host_profile \<Rightarrow> (io_error + report) \<Rightarrow> 't world \<times> (io_error + report)" where
  "save_then js w p r result =
     (case save_record js w p r of (w, Inl e) \<Rightarrow> (w, Inl e) | (w, Inr u) \<Rightarrow> (w, result))"

definition endpoint_changed :: "host_profile \<Rightarrow> resolved_host \<Rightarrow> bool" where
  "endpoint_changed r resolved =
     (confirmed_fingerprint r \<noteq> None \<and> (hp_hostname r \<noteq> rh_hostname resolved \<or> hp_port r \<noteq> rh_port resolved))"

definition check_alias :: "'t record_json \<Rightarrow> (string \<Rightarrow> string) \<Rightarrow> string \<Rightarrow> 't world \<Rightarrow> 't world \<times> (io_error + report)" where
  "check_alias js sha alias w =
     (case open_record js w alias of
        Inl e \<Rightarrow> (w, Inl e)
      | Inr (resolved, p, loaded) \<Rightarrow>
          let r = (case loaded of
                Some r \<Rightarrow> r
              | None \<Rightarrow> \<lparr>hp_alias = alias, hp_hostname = rh_hostname resolved, hp_port = rh_port resolved,
                         hp_user = rh_user resolved, hp_proxyjump = rh_proxyjump resolved,
                         confirmed_fingerprint = None, trust = Pending\<rparr>)
          in case known_hosts_fingerprint sha w resolved (confirmed_fingerprint r) of
               Inl e \<Rightarrow> (w, Inl e)
             | Inr presented \<Rightarrow>
                 if endpoint_changed r resolved
                 then let r = r\<lparr>trust := Blocked\<rparr>
                      in save_then js w p r (Inr \<lparr>rep_action = ''check'', rep_profile = r, rep_presented = None\<rparr>)
                 else let r = r\<lparr>hp_hostname := rh_hostname resolved, hp_port := rh_port resolved,
                                hp_user := rh_user resolved, hp_proxyjump := rh_proxyjump resolved\<rparr>;
                          r = r\<lparr>trust := next_state r presented\<rparr>
                      in save_then js w p r
                           (Inr \<lparr>rep_action = ''check'', rep_profile = r,
                                 rep_presented = (case presented of Unique f \<Rightarrow> Some f | _ \<Rightarrow> None)\<rparr>))"

definition register_alias :: "'t record_json \<Rightarrow> (string \<Rightarrow> string) \<Rightarrow> string \<Rightarrow> 't world \<Rightarrow> 't world \<times> (io_error + report)" where
  "register_alias js sha alias w =
     (case open_record js w alias of
        Inl e \<Rightarrow> (w, Inl e)
      | Inr (resolved, p, None) \<Rightarrow> (w, Inl InvalidInput)
      | Inr (resolved, p, Some r) \<Rightarrow>
          if endpoint_changed r resolved
          then save_then js w p (r\<lparr>trust := Blocked\<rparr>) (Inl PermissionDenied)
          else case known_hosts_fingerprint sha w resolved (confirmed_fingerprint r) of
                 Inl e \<Rightarrow> (w, Inl e)
               | Inr NoFingerprint \<Rightarrow> (w, Inl NotFound)
               | Inr (Unique presented) \<Rightarrow>
                   if next_state r (Unique presented) = Blocked \<or>
                      (confirmed_fingerprint r \<noteq> None \<and> confirmed_fingerprint r \<noteq> Some presented)
                   then save_then js w p (r\<lparr>trust := Blocked\<rparr>) (Inl PermissionDenied)
                   else if trust r = Registered \<and> confirmed_fingerprint r = Some presented
                   then (w, Inr \<lparr>rep_action = ''register'', rep_profile = r, rep_presented = None\<rparr>)
                   else let r = r\<lparr>hp_hostname := rh_hostname resolved, hp_port := rh_port resolved,
                                  hp_user := rh_user resolved, hp_proxyjump := rh_proxyjump resolved,
                                  confirmed_fingerprint := Some presented, trust := Registered\<rparr>
                        in save_then js w p r (Inr \<lparr>rep_action = ''register'', rep_profile = r, rep_presented = None\<rparr>)
               | _ \<Rightarrow>
                   if confirmed_fingerprint r \<noteq> None
                   then save_then js w p (r\<lparr>trust := Blocked\<rparr>) (Inl PermissionDenied)
                   else (w, Inl PermissionDenied))"

definition status_alias :: "'t record_json \<Rightarrow> string \<Rightarrow> 't world \<Rightarrow> io_error + report" where
  "status_alias js alias w =
     (case record_path w alias of
        Inl e \<Rightarrow> Inl e
      | Inr p \<Rightarrow>
          (case load_record js w p of
             Inl e \<Rightarrow> Inl e
           | Inr None \<Rightarrow> Inl NotFound
           | Inr (Some r) \<Rightarrow> Inr \<lparr>rep_action = ''status'', rep_profile = r, rep_presented = None\<rparr>))"

definition is_registered_alias :: "'t record_json \<Rightarrow> string \<Rightarrow> 't world \<Rightarrow> io_error + bool" where
  "is_registered_alias js alias w =
     (case validate_alias alias of
        Inl e \<Rightarrow> Inl e
      | Inr u \<Rightarrow>
          (case record_path w alias of
             Inl e \<Rightarrow> Inl e
           | Inr p \<Rightarrow>
               (case load_record js w p of
                  Inl e \<Rightarrow> Inl e
                | Inr r \<Rightarrow> Inr (case r of Some r \<Rightarrow> trust r = Registered | None \<Rightarrow> False))))"

text \<open>The command line: \<open>None\<close> is the usage text, printed without an action.\<close>

definition run_host_profile_command :: "'t record_json \<Rightarrow> (string \<Rightarrow> string) \<Rightarrow> string list \<Rightarrow> 't world \<Rightarrow> 't world \<times> (io_error + report) option" where
  "run_host_profile_command js sha args w =
     (if args = [] \<or> list_ex (\<lambda>a. a \<in> {''-h'', ''--help'', ''help''}) args then (w, None)
      else let action = hd args
           in if action \<notin> {''check'', ''register'', ''status''} then (w, Some (Inl InvalidInput))
              else case filter (\<lambda>a. a \<noteq> ''--json'') (tl args) of
                     [] \<Rightarrow> (w, Some (Inl InvalidInput))
                   | alias # others \<Rightarrow>
                       (case validate_alias alias of
                          Inl e \<Rightarrow> (w, Some (Inl e))
                        | Inr u \<Rightarrow>
                            if action = ''check'' then map_prod id Some (check_alias js sha alias w)
                            else if action = ''register'' then map_prod id Some (register_alias js sha alias w)
                            else (w, Some (status_alias js alias w))))"

end
