(* ===== verification/Host_Props.thy ===== *)
theory Host_Props
  imports Host_Trust
begin

text \<open>
  What the trust records guarantee: a blocked host stays blocked, a host becomes registered
  only by the register command and with the fingerprint known_hosts presents, a confirmed
  fingerprint never changes, the scan of known_hosts and the host patterns mean what
  OpenSSH documents.
\<close>

section \<open>The records on disk\<close>

text \<open>
  What the code relies on in serde_json: a record written is read back, the keys of its object
  are the fields of the record, and the text of an object without its end is no JSON.
\<close>

definition record_fields :: "string set" where
  "record_fields = {''alias'', ''hostname'', ''port'', ''user'', ''proxyjump'', ''confirmed_fingerprint'', ''state''}"

definition json_ok :: "'t record_json \<Rightarrow> bool" where
  "json_ok js = (\<forall>r. decode_record js (encode_record js r) = Some r \<and>
     (\<exists>ks. object_keys js (encode_record js r) = Some (Some ks) \<and>
        set ks \<subseteq> record_fields) \<and>
     (\<forall>n. object_keys js (cut_record js r n) = None))"

text \<open>The instance that stores the records themselves, and nothing of one that was cut short.\<close>

definition plain_json :: "host_profile option record_json" where
  "plain_json = \<lparr>object_keys = map_option (\<lambda>r. Some [''alias'', ''hostname'', ''port'', ''user'', ''state'']),
     decode_record = (\<lambda>r. r), encode_record = Some, cut_record = (\<lambda>r n. None)\<rparr>"

lemma plain_json_ok: "json_ok plain_json"
  by (auto simp: json_ok_def plain_json_def record_fields_def)

text \<open>The record the commands find for an alias.\<close>

definition stored :: "'t record_json \<Rightarrow> 't world \<Rightarrow> string \<Rightarrow> host_profile option" where
  "stored js w alias =
     (case record_path w alias of
        Inl e \<Rightarrow> None
      | Inr p \<Rightarrow> (case load_record js w p of Inr (Some r) \<Rightarrow> Some r | _ \<Rightarrow> None))"

lemma secret_shape: "s \<in> set SECRET_FIELD_NAMES \<Longrightarrow> length s \<in> {8, 10, 11, 12, 13} \<and> (length s = 8 \<longrightarrow> hd s = CHR ''p'')"
  unfolding SECRET_FIELD_NAMES_def by (simp, elim disjE) simp_all

lemma lower_not_secret: "length k \<notin> {8, 10, 11, 12, 13} \<Longrightarrow> lower k \<notin> set SECRET_FIELD_NAMES"
  by (auto simp: lower_def dest: secret_shape)

lemma field_not_secret:
  "lower ''alias'' \<notin> set SECRET_FIELD_NAMES" "lower ''port'' \<notin> set SECRET_FIELD_NAMES"
  "lower ''user'' \<notin> set SECRET_FIELD_NAMES" "lower ''proxyjump'' \<notin> set SECRET_FIELD_NAMES"
  "lower ''confirmed_fingerprint'' \<notin> set SECRET_FIELD_NAMES" "lower ''state'' \<notin> set SECRET_FIELD_NAMES"
  by (rule lower_not_secret, simp)+

lemma hostname_not_secret: "lower ''hostname'' \<notin> set SECRET_FIELD_NAMES"
proof
  assume "lower ''hostname'' \<in> set SECRET_FIELD_NAMES"
  from secret_shape [OF this] have "hd (lower ''hostname'') = CHR ''p''" by (simp add: lower_def)
  then show False by (simp add: lower_def lower_char_def)
qed

lemma fields_not_secret:
  "k \<in> record_fields \<Longrightarrow> lower k \<notin> set SECRET_FIELD_NAMES"
  unfolding record_fields_def
  by (elim insertE emptyE) (simp_all only: field_not_secret hostname_not_secret not_False_eq_True)

lemma reject_encoded:
  assumes "json_ok js"
  shows "reject_secret_fields js (encode_record js r) = Inr ()"
proof -
  obtain ks where k: "object_keys js (encode_record js r) = Some (Some ks)"
      "set ks \<subseteq> record_fields"
    using assms unfolding json_ok_def by blast
  have "lower x \<notin> set SECRET_FIELD_NAMES" if "x \<in> set ks" for x
    by (rule fields_not_secret [OF subsetD [OF k(2) that]])
  then show ?thesis using k(1) by (auto simp: reject_secret_fields_def list_ex_iff)
qed

lemma env_records [simp]: "env_nonempty (w\<lparr>records := f\<rparr>) = env_nonempty w"
  by (simp add: env_nonempty_def fun_eq_iff)

lemma record_path_records [simp]: "record_path (w\<lparr>records := f\<rparr>) alias = record_path w alias"
  by (simp add: record_path_def profile_dir_def cong: option.case_cong)

text \<open>A save leaves the new record, the old one, or a file that no command can read.\<close>

definition no_record :: "'t record_json \<Rightarrow> 't world \<Rightarrow> string \<Rightarrow> bool" where
  "no_record js w alias = (\<exists>p. record_path w alias = Inr p \<and> load_record js w p = Inl InvalidData)"

definition write_fails :: "'t world \<Rightarrow> string \<Rightarrow> bool" where
  "write_fails w alias = (\<exists>p e. record_path w alias = Inr p \<and> write_to w p = Untouched e)"

definition write_cut :: "'t world \<Rightarrow> string \<Rightarrow> bool" where
  "write_cut w alias = (\<exists>p e n. record_path w alias = Inr p \<and> write_to w p = CutShort e n)"

lemma load_saved:
  assumes "json_ok js"
  shows "load_record js (w\<lparr>records := m(p := Some (encode_record js r))\<rparr>) p =
      (case read_error w p of Some e \<Rightarrow> Inl e | None \<Rightarrow> Inr (Some r))"
    "load_record js (w\<lparr>records := m(p := Some (cut_record js r n))\<rparr>) p =
      (case read_error w p of Some e \<Rightarrow> Inl e | None \<Rightarrow> Inl InvalidData)"
proof -
  have d: "decode_record js (encode_record js r) = Some r" "object_keys js (cut_record js r n) = None"
    using assms by (simp_all add: json_ok_def)
  show "load_record js (w\<lparr>records := m(p := Some (encode_record js r))\<rparr>) p =
      (case read_error w p of Some e \<Rightarrow> Inl e | None \<Rightarrow> Inr (Some r))"
    using reject_encoded [OF assms, of r] d(1) by (simp add: load_record_def split: option.split)
  show "load_record js (w\<lparr>records := m(p := Some (cut_record js r n))\<rparr>) p =
      (case read_error w p of Some e \<Rightarrow> Inl e | None \<Rightarrow> Inl InvalidData)"
    using d(2) by (simp add: load_record_def reject_secret_fields_def split: option.split)
qed

lemma stored_save_any:
  assumes "json_ok js" "record_path w alias = Inr p"
  shows "stored js (fst (save_then js w p r res)) alias \<in> {stored js w alias, Some r, None}"
  using assms(2) load_saved [OF assms(1), where m = "records w" and w = w and p = p and r = r]
  by (cases "write_to w p") (auto simp: stored_def save_then_def save_record_def split: option.splits)

lemma stored_save:
  assumes "json_ok js" "record_path w alias = Inr p" "stored js w alias = Some r0"
  shows "stored js (fst (save_then js w p r res)) alias = Some r \<or>
    stored js (fst (save_then js w p r res)) alias = Some r0 \<and> write_fails w alias \<or>
    stored js (fst (save_then js w p r res)) alias = None \<and> write_cut w alias \<and> no_record js (fst (save_then js w p r res)) alias"
proof -
  have "read_error w p = None"
    using assms(2,3) by (auto simp: stored_def load_record_def split: sum.splits option.splits)
  then show ?thesis using assms load_saved [OF assms(1), where m = "records w" and w = w and p = p and r = r]
    by (cases "write_to w p")
      (auto simp: stored_def save_then_def save_record_def no_record_def write_fails_def write_cut_def)
qed

section \<open>The effect of a command on the record\<close>

definition new_profile :: "string \<Rightarrow> resolved_host \<Rightarrow> host_profile" where
  "new_profile alias resolved =
     \<lparr>hp_alias = alias, hp_hostname = rh_hostname resolved, hp_port = rh_port resolved, hp_user = rh_user resolved,
      hp_proxyjump = rh_proxyjump resolved, confirmed_fingerprint = None, trust = Pending\<rparr>"

definition follow :: "resolved_host \<Rightarrow> host_profile \<Rightarrow> host_profile" where
  "follow resolved r =
     r\<lparr>hp_hostname := rh_hostname resolved, hp_port := rh_port resolved, hp_user := rh_user resolved,
       hp_proxyjump := rh_proxyjump resolved\<rparr>"

definition checked :: "resolved_host \<Rightarrow> presented_fingerprint \<Rightarrow> host_profile \<Rightarrow> host_profile" where
  "checked resolved presented r =
     (if endpoint_changed r resolved then r\<lparr>trust := Blocked\<rparr>
      else (follow resolved r)\<lparr>trust := next_state (follow resolved r) presented\<rparr>)"

definition registered :: "resolved_host \<Rightarrow> presented_fingerprint \<Rightarrow> host_profile \<Rightarrow> host_profile" where
  "registered resolved presented r =
     (if endpoint_changed r resolved then r\<lparr>trust := Blocked\<rparr>
      else case presented of
             NoFingerprint \<Rightarrow> r
           | Unique f \<Rightarrow>
               if next_state r (Unique f) = Blocked \<or> (confirmed_fingerprint r \<noteq> None \<and> confirmed_fingerprint r \<noteq> Some f)
               then r\<lparr>trust := Blocked\<rparr>
               else if trust r = Registered \<and> confirmed_fingerprint r = Some f then r
               else (follow resolved r)\<lparr>confirmed_fingerprint := Some f, trust := Registered\<rparr>
           | _ \<Rightarrow> if confirmed_fingerprint r \<noteq> None then r\<lparr>trust := Blocked\<rparr> else r)"

lemma open_record_Inr:
  "open_record js w alias = Inr (resolved, p, loaded) \<Longrightarrow>
     resolve_ssh_g w alias = Inr resolved \<and> record_path w alias = Inr p \<and> stored js w alias = loaded"
  by (auto simp: open_record_def stored_def split: sum.splits option.splits)

lemma check_saves:
  assumes "open_record js w alias = Inr (resolved, p, loaded)" "r = (case loaded of Some r \<Rightarrow> r | None \<Rightarrow> new_profile alias resolved)"
  shows "(\<exists>e. known_hosts_fingerprint sha w resolved (confirmed_fingerprint r) = Inl e) \<and> fst (check_alias js sha alias w) = w \<or>
    (\<exists>presented res. known_hosts_fingerprint sha w resolved (confirmed_fingerprint r) = Inr presented \<and>
      check_alias js sha alias w = save_then js w p (checked resolved presented r) res)"
  using assms
  by (cases loaded; cases "known_hosts_fingerprint sha w resolved (confirmed_fingerprint r)")
    (auto simp: check_alias_def checked_def follow_def Let_def new_profile_def)

lemma register_saves:
  assumes "open_record js w alias = Inr (resolved, p, Some r)"
  shows "(\<exists>e. known_hosts_fingerprint sha w resolved (confirmed_fingerprint r) = Inl e) \<and> fst (register_alias js sha alias w) = w \<or>
    (\<exists>presented. (known_hosts_fingerprint sha w resolved (confirmed_fingerprint r) = Inr presented \<or> endpoint_changed r resolved) \<and>
      (fst (register_alias js sha alias w) = w \<and> registered resolved presented r = r \<or>
       (\<exists>res. register_alias js sha alias w = save_then js w p (registered resolved presented r) res)))"
proof -
  have reg: "register_alias js sha alias w =
     (if endpoint_changed r resolved
      then save_then js w p (r\<lparr>trust := Blocked\<rparr>) (Inl PermissionDenied)
      else case known_hosts_fingerprint sha w resolved (confirmed_fingerprint r) of
             Inl e \<Rightarrow> (w, Inl e)
           | Inr NoFingerprint \<Rightarrow> (w, Inl NotFound)
           | Inr (Unique presented) \<Rightarrow>
               if next_state r (Unique presented) = Blocked \<or>
                  (confirmed_fingerprint r \<noteq> None \<and> confirmed_fingerprint r \<noteq> Some presented)
               then save_then js w p (r\<lparr>trust := Blocked\<rparr>) (Inl PermissionDenied)
               else if trust r = Registered \<and> confirmed_fingerprint r = Some presented
               then (w, Inr \<lparr>rep_action = ''register'', rep_profile = r, rep_presented = None\<rparr>)
               else let r = (follow resolved r)\<lparr>confirmed_fingerprint := Some presented, trust := Registered\<rparr>
                    in save_then js w p r (Inr \<lparr>rep_action = ''register'', rep_profile = r, rep_presented = None\<rparr>)
           | _ \<Rightarrow>
               if confirmed_fingerprint r \<noteq> None
               then save_then js w p (r\<lparr>trust := Blocked\<rparr>) (Inl PermissionDenied)
               else (w, Inl PermissionDenied))"
    by (simp only: register_alias_def assms sum.case prod.case option.case follow_def)
  show ?thesis
  proof (cases "endpoint_changed r resolved")
    case True
    then show ?thesis unfolding reg registered_def by auto
  next
    case False
    show ?thesis
    proof (cases "known_hosts_fingerprint sha w resolved (confirmed_fingerprint r)")
      case (Inr presented)
      with False show ?thesis unfolding reg registered_def Let_def by (cases presented) auto
    qed (use False in \<open>simp add: reg\<close>)
  qed
qed

text \<open>The reasons why a command leaves a record as it is.\<close>

definition undecided :: "(string \<Rightarrow> string) \<Rightarrow> 't world \<Rightarrow> string \<Rightarrow> host_profile \<Rightarrow> bool" where
  "undecided sha w alias r =
     ((\<exists>e. resolve_ssh_g w alias = Inl e) \<or>
      (\<exists>resolved e. resolve_ssh_g w alias = Inr resolved \<and>
        known_hosts_fingerprint sha w resolved (confirmed_fingerprint r) = Inl e) \<or> write_fails w alias)"

lemma open_stored:
  assumes "stored js w alias = Some r"
  obtains e where "resolve_ssh_g w alias = Inl e" "open_record js w alias = Inl e"
  | resolved p where "resolve_ssh_g w alias = Inr resolved" "record_path w alias = Inr p"
      "open_record js w alias = Inr (resolved, p, Some r)"
proof -
  obtain p where p: "record_path w alias = Inr p" "load_record js w p = Inr (Some r)"
    using assms by (auto simp: stored_def split: sum.splits option.splits)
  show thesis
  proof (cases "resolve_ssh_g w alias")
    case (Inl e)
    then show ?thesis by (intro that(1)) (simp_all add: open_record_def)
  next
    case (Inr resolved)
    then show ?thesis using p by (intro that(2)) (simp_all add: open_record_def)
  qed
qed

lemma check_effect:
  assumes "json_ok js" "stored js w alias = Some r" "w' = fst (check_alias js sha alias w)"
  shows "stored js w' alias = Some r \<and> undecided sha w alias r \<or> stored js w' alias = None \<and> write_cut w alias \<and> no_record js w' alias \<or>
    (\<exists>resolved presented. resolve_ssh_g w alias = Inr resolved \<and>
       known_hosts_fingerprint sha w resolved (confirmed_fingerprint r) = Inr presented \<and>
       stored js w' alias = Some (checked resolved presented r))"
  using assms(2)
proof (cases rule: open_stored)
  case (1 e)
  then show ?thesis using assms(2,3) by (auto simp: check_alias_def undecided_def)
next
  case (2 resolved p)
  have "r = (case Some r of Some r \<Rightarrow> r | None \<Rightarrow> new_profile alias resolved)" by simp
  from check_saves [OF 2(3) this, of sha] show ?thesis
  proof
    assume "(\<exists>e. known_hosts_fingerprint sha w resolved (confirmed_fingerprint r) = Inl e) \<and> fst (check_alias js sha alias w) = w"
    then show ?thesis using assms(2,3) 2(1) by (auto simp: undecided_def)
  next
    assume "\<exists>presented res. known_hosts_fingerprint sha w resolved (confirmed_fingerprint r) = Inr presented \<and>
      check_alias js sha alias w = save_then js w p (checked resolved presented r) res"
    then obtain presented res where c: "known_hosts_fingerprint sha w resolved (confirmed_fingerprint r) = Inr presented"
      "check_alias js sha alias w = save_then js w p (checked resolved presented r) res" by blast
    from stored_save [OF assms(1) 2(2) assms(2), of "checked resolved presented r" res]
    show ?thesis unfolding assms(3) c(2) undecided_def using 2(1) c(1) by blast
  qed
qed

lemma register_effect:
  assumes "json_ok js" "stored js w alias = Some r" "w' = fst (register_alias js sha alias w)"
  shows "stored js w' alias = Some r \<and> undecided sha w alias r \<or> stored js w' alias = None \<and> write_cut w alias \<and> no_record js w' alias \<or>
    (\<exists>resolved presented. resolve_ssh_g w alias = Inr resolved \<and>
       (known_hosts_fingerprint sha w resolved (confirmed_fingerprint r) = Inr presented \<or> endpoint_changed r resolved) \<and>
       stored js w' alias = Some (registered resolved presented r))"
  using assms(2)
proof (cases rule: open_stored)
  case (1 e)
  then show ?thesis using assms(2,3) by (auto simp: register_alias_def undecided_def)
next
  case (2 resolved p)
  from register_saves [OF 2(3), of sha] show ?thesis
  proof
    assume "(\<exists>e. known_hosts_fingerprint sha w resolved (confirmed_fingerprint r) = Inl e) \<and> fst (register_alias js sha alias w) = w"
    then show ?thesis using assms(2,3) 2(1) by (auto simp: undecided_def)
  next
    assume "\<exists>presented. (known_hosts_fingerprint sha w resolved (confirmed_fingerprint r) = Inr presented \<or> endpoint_changed r resolved) \<and>
      (fst (register_alias js sha alias w) = w \<and> registered resolved presented r = r \<or>
       (\<exists>res. register_alias js sha alias w = save_then js w p (registered resolved presented r) res))"
    then obtain presented where d: "known_hosts_fingerprint sha w resolved (confirmed_fingerprint r) = Inr presented \<or> endpoint_changed r resolved"
      and c: "fst (register_alias js sha alias w) = w \<and> registered resolved presented r = r \<or>
       (\<exists>res. register_alias js sha alias w = save_then js w p (registered resolved presented r) res)" by blast
    from c show ?thesis
    proof
      assume "fst (register_alias js sha alias w) = w \<and> registered resolved presented r = r"
      then have "stored js w' alias = Some (registered resolved presented r)" using assms(2,3) by simp
      then show ?thesis using 2(1) d by blast
    next
      assume "\<exists>res. register_alias js sha alias w = save_then js w p (registered resolved presented r) res"
      then obtain res where r: "register_alias js sha alias w = save_then js w p (registered resolved presented r) res" ..
      from stored_save [OF assms(1) 2(2) assms(2), of "registered resolved presented r" res]
      show ?thesis unfolding assms(3) r undecided_def using 2(1) d by blast
    qed
  qed
qed

section \<open>The state machine of trust\<close>

lemma follow_simps [simp]:
  "confirmed_fingerprint (follow resolved r) = confirmed_fingerprint r" "trust (follow resolved r) = trust r"
  "hp_hostname (follow resolved r) = rh_hostname resolved" "hp_port (follow resolved r) = rh_port resolved"
  by (simp_all add: follow_def)

lemma next_blocked: "trust r = Blocked \<Longrightarrow> next_state r presented = Blocked"
  by (auto simp: next_state_def split: option.split presented_fingerprint.split)

lemma next_registered:
  "next_state r presented = Registered \<Longrightarrow>
     trust r = Registered \<and> (\<exists>c. confirmed_fingerprint r = Some c \<and> (presented = NoFingerprint \<or> presented = Unique c))"
  by (auto simp: next_state_def split: option.splits presented_fingerprint.splits trust_state.splits if_splits)

lemma checked_facts:
  shows "trust r = Blocked \<Longrightarrow> trust (checked resolved presented r) = Blocked"
    and "confirmed_fingerprint (checked resolved presented r) = confirmed_fingerprint r"
    and "trust (checked resolved presented r) = Registered \<Longrightarrow> trust r = Registered \<and>
      (\<exists>c. confirmed_fingerprint r = Some c \<and> (presented = NoFingerprint \<or> presented = Unique c)) \<and>
      hp_hostname r = rh_hostname resolved \<and> hp_port r = rh_port resolved"
  using next_registered [of "follow resolved r" presented]
  by (auto simp: checked_def next_blocked endpoint_changed_def split: if_splits)

lemma registered_facts:
  shows "trust r = Blocked \<Longrightarrow> trust (registered resolved presented r) = Blocked"
    and "confirmed_fingerprint r = Some c \<Longrightarrow> confirmed_fingerprint (registered resolved presented r) = Some c"
    and "trust r \<noteq> Registered \<Longrightarrow> trust (registered resolved presented r) = Registered \<Longrightarrow>
      \<exists>f. presented = Unique f \<and> confirmed_fingerprint (registered resolved presented r) = Some f \<and>
          hp_hostname (registered resolved presented r) = rh_hostname resolved \<and>
          hp_port (registered resolved presented r) = rh_port resolved"
    and "trust r = Registered \<Longrightarrow> trust (registered resolved presented r) = Registered \<Longrightarrow> confirmed_fingerprint r = Some c \<Longrightarrow>
      (presented = NoFingerprint \<or> presented = Unique c) \<and> hp_hostname r = rh_hostname resolved \<and> hp_port r = rh_port resolved"
  by (auto simp: registered_def next_blocked endpoint_changed_def split: presented_fingerprint.splits if_splits)

lemma blocked_not_registered:
  "stored js w alias = Some r \<Longrightarrow> trust r = Blocked \<Longrightarrow> is_registered_alias js alias w \<noteq> Inr True"
  by (auto simp: is_registered_alias_def stored_def split: sum.splits option.splits)

text \<open>A record file that does not parse stays as it is: every command fails and changes nothing.\<close>

lemma no_record_stays:
  assumes "no_record js w alias"
  shows "fst (check_alias js sha alias w) = w" "\<exists>e. snd (check_alias js sha alias w) = Inl e"
    "fst (register_alias js sha alias w) = w" "\<exists>e. snd (register_alias js sha alias w) = Inl e"
    "status_alias js alias w = Inl InvalidData" "is_registered_alias js alias w \<noteq> Inr True"
proof -
  obtain p where p: "record_path w alias = Inr p" "load_record js w p = Inl InvalidData"
    using assms unfolding no_record_def by blast
  have "\<exists>e. open_record js w alias = Inl e" using p by (cases "resolve_ssh_g w alias") (simp_all add: open_record_def)
  then obtain e where e: "open_record js w alias = Inl e" by blast
  show "fst (check_alias js sha alias w) = w" "\<exists>e. snd (check_alias js sha alias w) = Inl e"
    "fst (register_alias js sha alias w) = w" "\<exists>e. snd (register_alias js sha alias w) = Inl e"
    by (simp_all add: check_alias_def register_alias_def e)
  show "status_alias js alias w = Inl InvalidData" "is_registered_alias js alias w \<noteq> Inr True"
    by (simp_all add: status_alias_def is_registered_alias_def p split: sum.split)
qed

text \<open>
  C5: A blocked host stays blocked. Whatever ssh, the environment and known_hosts say, a
  check or a register of an alias whose record is blocked leaves a blocked record - or, when
  the write of the record fails half way, a file that no command can read any more - and before
  and after it the query used before a remote session is opened does not answer that the
  alias is registered.
\<close>

theorem blocked_is_absorbing:
  assumes "json_ok js" "stored js w alias = Some r" "trust r = Blocked"
    "w' = fst (check_alias js sha alias w) \<or> w' = fst (register_alias js sha alias w)"
  shows "is_registered_alias js alias w \<noteq> Inr True \<and> is_registered_alias js alias w' \<noteq> Inr True \<and>
    ((\<exists>r'. stored js w' alias = Some r' \<and> trust r' = Blocked) \<or> write_cut w alias \<and> no_record js w' alias)"
proof (intro conjI)
  show "is_registered_alias js alias w \<noteq> Inr True" by (rule blocked_not_registered [OF assms(2,3)])
  show *: "(\<exists>r'. stored js w' alias = Some r' \<and> trust r' = Blocked) \<or> write_cut w alias \<and> no_record js w' alias"
    using assms(4)
  proof
    assume "w' = fst (check_alias js sha alias w)"
    from check_effect [OF assms(1,2) this] show ?thesis using assms(3) checked_facts(1) by auto
  next
    assume "w' = fst (register_alias js sha alias w)"
    from register_effect [OF assms(1,2) this] show ?thesis using assms(3) registered_facts(1) by auto
  qed
  from * show "is_registered_alias js alias w' \<noteq> Inr True"
    using blocked_not_registered no_record_stays(6) by blast
qed

definition example_world :: "(file_path \<Rightarrow> host_profile option) \<Rightarrow> host_profile option world" where
  "example_world m =
     \<lparr>env = [''WINSMUX_HOST_PROFILE_DIR'' \<mapsto> ''d'', ''WINSMUX_HOST_PROFILE_KNOWN_HOSTS'' \<mapsto> ''k''],
      run_ssh = (\<lambda>p args. Inr (True, ''hostname h'')),
      text_files = [[''k''] \<mapsto> ''h t k''],
      records = (\<lambda>p. map_option Some (m p)), read_error = (\<lambda>p. None), write_to = (\<lambda>p. Written)\<rparr>"

definition example_path :: file_path where
  "example_path = [''d'', ''lab.json'']"

definition example_host :: resolved_host where
  "example_host =
     \<lparr>rh_hostname = ''h'', rh_lookup_name = ''h'', rh_port = 22, rh_user = [], rh_proxyjump = None,
      rh_user_known_hosts = Unspecified, rh_global_known_hosts = []\<rparr>"

definition example_profile :: "string option \<Rightarrow> trust_state \<Rightarrow> host_profile" where
  "example_profile f s =
     \<lparr>hp_alias = ''lab'', hp_hostname = ''h'', hp_port = 22, hp_user = [], hp_proxyjump = None,
      confirmed_fingerprint = f, trust = s\<rparr>"

lemma example_env:
  "env_nonempty (example_world m) ''WINSMUX_HOST_PROFILE_DIR'' = Some ''d''"
  "env_nonempty (example_world m) ''WINSMUX_HOST_PROFILE_KNOWN_HOSTS'' = Some ''k''"
  by (simp_all add: env_nonempty_def example_world_def trim_def is_space_def)

lemma example_record_path: "record_path (example_world m) ''lab'' = Inr example_path"
  by (simp add: record_path_def profile_dir_def example_env example_path_def)

lemma example_load: "load_record plain_json (example_world m) example_path = Inr (m example_path)"
proof -
  have "reject_secret_fields plain_json (Some r) = Inr ()" for r
    using reject_encoded [OF plain_json_ok, of r] by (simp add: plain_json_def)
  moreover have "records (example_world m) = (\<lambda>p. map_option Some (m p))" "read_error (example_world m) = (\<lambda>p. None)"
    "decode_record plain_json = (\<lambda>r. r)"
    by (simp_all add: example_world_def plain_json_def)
  ultimately show ?thesis by (simp add: load_record_def split: option.split)
qed

lemma example_resolve: "resolve_ssh_g (example_world m) ''lab'' = Inr example_host"
proof -
  have "parse_ssh_g ''hostname h'' = Inr example_host" by code_simp
  moreover have "lower ''h'' \<noteq> lower ''lab''" by (simp add: lower_def)
  ultimately show ?thesis by (simp add: resolve_ssh_g_def example_world_def) (simp add: example_host_def)
qed

lemma example_fingerprint:
  assumes "c = None \<or> c = Some ''sha256:k''"
  shows "known_hosts_fingerprint (\<lambda>b. b) (example_world m) example_host c = Inr (Unique ''sha256:k'')"
proof -
  have scan: "scan_known_hosts_text (\<lambda>b. b) example_host ''h t k'' ([], None, False) = ([], Some ''sha256:k'', False)"
    by code_simp
  have "known_hosts_files (example_world m) example_host = [[''k'']]"
    by (simp add: known_hosts_files_def example_env)
  moreover have "text_files (example_world m) [''k''] = Some ''h t k''" "read_error (example_world m) = (\<lambda>p. None)"
    by (simp_all add: example_world_def)
  ultimately show ?thesis
    using assms by (auto simp: known_hosts_fingerprint_def scan)
qed

lemmas example_world_simps = example_record_path example_load example_resolve example_fingerprint open_record_def

lemma example_stored: "stored plain_json (example_world m) ''lab'' = m example_path"
  by (simp add: stored_def example_world_simps split: option.split)

theorem blocked_is_absorbing_witness:
  "\<exists>r'. stored plain_json (fst (register_alias plain_json (\<lambda>b. b) ''lab''
       (example_world [example_path \<mapsto> example_profile None Blocked]))) ''lab'' = Some r' \<and> trust r' = Blocked"
proof -
  let ?w = "example_world [example_path \<mapsto> example_profile None Blocked]"
  have r: "stored plain_json ?w ''lab'' = Some (example_profile None Blocked)" "trust (example_profile None Blocked) = Blocked"
    by (simp_all add: example_stored) (simp add: example_profile_def)
  have "\<not> write_cut ?w ''lab''" by (simp add: write_cut_def) (simp add: example_world_def)
  with blocked_is_absorbing [OF plain_json_ok r disjI2 [OF refl], of "\<lambda>b. b"] show ?thesis by blast
qed

text \<open>
  A host becomes registered only by the register command: a check never registers, and
  a register that turns a record into a registered one confirms the one fingerprint that
  known_hosts presents for the endpoint ssh resolves, and records that endpoint.
\<close>

theorem registered_only_by_register:
  assumes "json_ok js" "\<not> (\<exists>r. stored js w alias = Some r \<and> trust r = Registered)"
  shows "\<not> (\<exists>r. stored js (fst (check_alias js sha alias w)) alias = Some r \<and> trust r = Registered) \<and>
    (\<forall>r'. stored js (fst (register_alias js sha alias w)) alias = Some r' \<and> trust r' = Registered \<longrightarrow>
       (\<exists>r resolved f. stored js w alias = Some r \<and> trust r \<noteq> Blocked \<and> resolve_ssh_g w alias = Inr resolved \<and>
          known_hosts_fingerprint sha w resolved (confirmed_fingerprint r) = Inr (Unique f) \<and>
          confirmed_fingerprint r' = Some f \<and> hp_hostname r' = rh_hostname resolved \<and> hp_port r' = rh_port resolved))"
proof (intro conjI allI impI)
  show "\<not> (\<exists>r. stored js (fst (check_alias js sha alias w)) alias = Some r \<and> trust r = Registered)"
  proof (cases "open_record js w alias")
    case (Inr x)
    obtain resolved p loaded where x: "open_record js w alias = Inr (resolved, p, loaded)" using Inr by (cases x) auto
    define r where "r = (case loaded of Some r \<Rightarrow> r | None \<Rightarrow> new_profile alias resolved)"
    have r: "trust r \<noteq> Registered"
      using assms(2) open_record_Inr [OF x] by (auto simp: r_def new_profile_def split: option.splits)
    have path: "record_path w alias = Inr p" using open_record_Inr [OF x] by blast
    from check_saves [OF x r_def, of sha] show ?thesis
    proof
      assume "(\<exists>e. known_hosts_fingerprint sha w resolved (confirmed_fingerprint r) = Inl e) \<and> fst (check_alias js sha alias w) = w"
      then show ?thesis using assms(2) by simp
    next
      assume "\<exists>presented res. known_hosts_fingerprint sha w resolved (confirmed_fingerprint r) = Inr presented \<and>
        check_alias js sha alias w = save_then js w p (checked resolved presented r) res"
      then obtain presented res where c: "check_alias js sha alias w = save_then js w p (checked resolved presented r) res" by blast
      from stored_save_any [OF assms(1) path, of "checked resolved presented r" res] checked_facts(3) [of resolved presented r] r
      show ?thesis unfolding c using assms(2) by auto
    qed
  qed (use assms(2) in \<open>simp add: check_alias_def\<close>)
next
  fix r' assume r': "stored js (fst (register_alias js sha alias w)) alias = Some r' \<and> trust r' = Registered"
  show "\<exists>r resolved f. stored js w alias = Some r \<and> trust r \<noteq> Blocked \<and> resolve_ssh_g w alias = Inr resolved \<and>
          known_hosts_fingerprint sha w resolved (confirmed_fingerprint r) = Inr (Unique f) \<and>
          confirmed_fingerprint r' = Some f \<and> hp_hostname r' = rh_hostname resolved \<and> hp_port r' = rh_port resolved"
  proof (cases "stored js w alias")
    case None
    have "fst (register_alias js sha alias w) = w"
    proof (cases "open_record js w alias")
      case (Inr x)
      obtain resolved p loaded where "open_record js w alias = Inr (resolved, p, loaded)" using Inr by (cases x) auto
      with open_record_Inr [OF this] None show ?thesis by (simp add: register_alias_def)
    qed (simp add: register_alias_def)
    then show ?thesis using r' None by simp
  next
    case (Some r)
    have t: "trust r \<noteq> Registered" using assms(2) Some by blast
    from register_effect [OF assms(1) Some refl, of sha] r' t obtain resolved presented where e:
      "resolve_ssh_g w alias = Inr resolved"
      "known_hosts_fingerprint sha w resolved (confirmed_fingerprint r) = Inr presented \<or> endpoint_changed r resolved"
      "r' = registered resolved presented r" by auto
    have "trust r \<noteq> Blocked" using registered_facts(1) [of r resolved presented] r' e(3) by auto
    moreover have "\<not> endpoint_changed r resolved" using r' e(3) by (auto simp: registered_def)
    ultimately show ?thesis using registered_facts(3) [OF t, of resolved presented] r' e Some by auto
  qed
qed

theorem registered_only_by_register_witness:
  "\<not> (\<exists>r. stored plain_json (fst (check_alias plain_json (\<lambda>b. b) ''lab''
       (example_world [example_path \<mapsto> example_profile None Pending]))) ''lab'' = Some r \<and> trust r = Registered)"
  using registered_only_by_register [OF plain_json_ok, of "example_world [example_path \<mapsto> example_profile None Pending]" "''lab''"]
  by (simp add: example_stored) (simp add: example_profile_def)

text \<open>
  C27: A confirmed fingerprint is pinned. No check and no register ever replaces it, and after
  either a record is registered only if ssh resolves the recorded host name and port and
  known_hosts presents that same fingerprint or none - or if the record is the old one, because
  ssh did not resolve the alias, a known_hosts file could not be read, or the new record could not
  be written. A write that fails half way leaves a file that no command can read.
\<close>

theorem fingerprint_is_pinned:
  assumes "json_ok js" "stored js w alias = Some r" "confirmed_fingerprint r = Some c"
    "w' = fst (check_alias js sha alias w) \<or> w' = fst (register_alias js sha alias w)"
  shows "(write_cut w alias \<and> no_record js w' alias) \<or>
    (\<exists>r'. stored js w' alias = Some r' \<and> confirmed_fingerprint r' = Some c \<and>
      (trust r' = Registered \<longrightarrow>
        (\<exists>resolved. resolve_ssh_g w alias = Inr resolved \<and> hp_hostname r = rh_hostname resolved \<and>
           hp_port r = rh_port resolved \<and>
           (known_hosts_fingerprint sha w resolved (Some c) = Inr NoFingerprint \<or>
            known_hosts_fingerprint sha w resolved (Some c) = Inr (Unique c))) \<or>
        r' = r \<and>
        ((\<exists>e. resolve_ssh_g w alias = Inl e) \<or>
         (\<exists>resolved e. resolve_ssh_g w alias = Inr resolved \<and> known_hosts_fingerprint sha w resolved (Some c) = Inl e) \<or>
         write_fails w alias)))"
  using assms(4)
proof
  assume "w' = fst (check_alias js sha alias w)"
  from check_effect [OF assms(1,2) this] show ?thesis
  proof (elim disjE exE conjE)
    fix resolved presented
    assume k: "resolve_ssh_g w alias = Inr resolved" "known_hosts_fingerprint sha w resolved (confirmed_fingerprint r) = Inr presented"
      "stored js w' alias = Some (checked resolved presented r)"
    have "confirmed_fingerprint (checked resolved presented r) = Some c" using checked_facts(2) assms(3) by simp
    then show ?thesis using checked_facts(3) [of resolved presented r] k assms(3) by auto
  qed (use assms(3) in \<open>auto simp: undecided_def\<close>)
next
  assume "w' = fst (register_alias js sha alias w)"
  from register_effect [OF assms(1,2) this] show ?thesis
  proof (elim disjE exE conjE)
    fix resolved presented
    assume k: "resolve_ssh_g w alias = Inr resolved" "known_hosts_fingerprint sha w resolved (confirmed_fingerprint r) = Inr presented"
      "stored js w' alias = Some (registered resolved presented r)"
    have "trust (registered resolved presented r) = Registered \<Longrightarrow>
      (presented = NoFingerprint \<or> presented = Unique c) \<and> hp_hostname r = rh_hostname resolved \<and> hp_port r = rh_port resolved"
      using assms(3) by (auto simp: registered_def endpoint_changed_def split: presented_fingerprint.splits if_splits)
    then show ?thesis using registered_facts(2) [OF assms(3), of resolved presented] k assms(3) by auto
  next
    fix resolved presented
    assume k: "endpoint_changed r resolved" "stored js w' alias = Some (registered resolved presented r)"
    have "trust (registered resolved presented r) = Blocked" using k(1) by (simp add: registered_def)
    then show ?thesis using registered_facts(2) [OF assms(3), of resolved presented] k(2) by auto
  qed (use assms(3) in \<open>auto simp: undecided_def\<close>)
qed

text \<open>known_hosts presents another key than the confirmed one.\<close>

theorem fingerprint_is_pinned_witness:
  "\<exists>r'. stored plain_json (fst (check_alias plain_json (\<lambda>b. b) ''lab''
       (example_world [example_path \<mapsto> example_profile (Some ''sha256:k'') Registered]))) ''lab'' = Some r' \<and>
     confirmed_fingerprint r' = Some ''sha256:k''"
proof -
  let ?w = "example_world [example_path \<mapsto> example_profile (Some ''sha256:k'') Registered]"
  have r: "stored plain_json ?w ''lab'' = Some (example_profile (Some ''sha256:k'') Registered)"
    "confirmed_fingerprint (example_profile (Some ''sha256:k'') Registered) = Some ''sha256:k''"
    by (simp_all add: example_stored) (simp add: example_profile_def)
  have "\<not> write_cut ?w ''lab''" by (simp add: write_cut_def) (simp add: example_world_def)
  with fingerprint_is_pinned [OF plain_json_ok r disjI1 [OF refl], of "\<lambda>b. b"] show ?thesis by blast
qed

section \<open>Runs of commands\<close>

text \<open>
  Between two commands everything but the record files may change: \<open>HWorld\<close> puts another
  environment, other known_hosts files and another ssh configuration in place.
\<close>

datatype 't host_event = HCheck string | HRegister string | HWorld "'t world"

definition host_step :: "'t record_json \<Rightarrow> (string \<Rightarrow> string) \<Rightarrow> 't world \<Rightarrow> 't host_event \<Rightarrow> 't world" where
  "host_step js sha w e =
     (case e of
        HCheck a \<Rightarrow> fst (check_alias js sha a w)
      | HRegister a \<Rightarrow> fst (register_alias js sha a w)
      | HWorld v \<Rightarrow> v\<lparr>records := records w\<rparr>)"

definition trusted :: "'t record_json \<Rightarrow> 't world \<Rightarrow> bool" where
  "trusted js w = (\<forall>p t r. records w p = Some t \<and> object_keys js t \<noteq> None \<and> decode_record js t = Some r \<and> trust r = Registered \<longrightarrow>
     confirmed_fingerprint r \<noteq> None)"

lemma trustedD:
  "trusted js w \<Longrightarrow> records w p = Some t \<Longrightarrow> object_keys js t = Some ks \<Longrightarrow> decode_record js t = Some r \<Longrightarrow>
    trust r = Registered \<Longrightarrow> \<exists>f. confirmed_fingerprint r = Some f"
  unfolding trusted_def by (metis not_None_eq)

lemma trusted_save:
  assumes "json_ok js" "trusted js w" "trust r = Registered \<Longrightarrow> confirmed_fingerprint r \<noteq> None"
  shows "trusted js (fst (save_then js w p r res))"
proof -
  have d: "decode_record js (encode_record js r) = Some r" "\<And>n. object_keys js (cut_record js r n) = None"
    using assms(1) by (simp_all add: json_ok_def)
  show ?thesis unfolding trusted_def [of js "fst _"]
    using d assms(3) trustedD [OF assms(2)]
    by (cases "write_to w p") (auto simp: save_then_def save_record_def split: if_splits)
qed

lemma stored_trusted:
  "trusted js w \<Longrightarrow> stored js w alias = Some r \<Longrightarrow> trust r = Registered \<Longrightarrow> confirmed_fingerprint r \<noteq> None"
  by (auto simp: stored_def load_record_def reject_secret_fields_def dest: trustedD split: sum.splits option.splits if_splits)

lemma world_trusted [simp]: "trusted js (v\<lparr>records := records w\<rparr>) = trusted js w"
  by (simp add: trusted_def)

lemma check_trusted:
  assumes "json_ok js" "trusted js w"
  shows "trusted js (fst (check_alias js sha alias w))"
proof (cases "open_record js w alias")
  case (Inr x)
  obtain resolved p loaded where x: "open_record js w alias = Inr (resolved, p, loaded)" using Inr by (cases x) auto
  from check_saves [OF x refl, of sha] show ?thesis
  proof (elim disjE exE conjE)
    fix presented res
    assume c: "check_alias js sha alias w = save_then js w p
      (checked resolved presented (case loaded of Some r \<Rightarrow> r | None \<Rightarrow> new_profile alias resolved)) res"
    show ?thesis
      unfolding c using checked_facts(2,3) by (intro trusted_save [OF assms]) fastforce
  qed (use assms in simp)
qed (use assms in \<open>simp add: check_alias_def\<close>)

lemma register_trusted:
  assumes "json_ok js" "trusted js w"
  shows "trusted js (fst (register_alias js sha alias w))"
proof (cases "open_record js w alias")
  case (Inr x)
  obtain resolved p loaded where x: "open_record js w alias = Inr (resolved, p, loaded)" using Inr by (cases x) auto
  show ?thesis
  proof (cases loaded)
    case (Some r)
    have c: "confirmed_fingerprint (registered resolved presented r) \<noteq> None"
      if "trust (registered resolved presented r) = Registered" for presented
      using registered_facts(2,3) [of r] stored_trusted [OF assms(2)] open_record_Inr [OF x] Some that
      by (cases "trust r = Registered") fastforce+
    have "fst (register_alias js sha alias w) = w \<or>
      (\<exists>presented res. register_alias js sha alias w = save_then js w p (registered resolved presented r) res)"
      using register_saves [of js w "alias" resolved p r sha] x Some by blast
    then show ?thesis
    proof (elim disjE exE)
      fix presented res
      assume r: "register_alias js sha alias w = save_then js w p (registered resolved presented r) res"
      show ?thesis unfolding r by (rule trusted_save [OF assms c])
    qed (use assms(2) in simp)
  qed (use x assms in \<open>simp add: register_alias_def\<close>)
qed (use assms in \<open>simp add: register_alias_def\<close>)

interpretation host_machine: machine "host_step js sha" "\<lambda>w. json_ok js \<longrightarrow> trusted js w" for js sha
proof
  fix w e assume "json_ok js \<longrightarrow> trusted js w"
  then show "json_ok js \<longrightarrow> trusted js (host_step js sha w e)"
    by (cases e) (auto simp: host_step_def check_trusted register_trusted)
qed

text \<open>
  C26: In every reachable state a registered host has a confirmed fingerprint: from an empty
  store of records, after any sequence of checks and registers with any changes of the
  environment, of ssh and of known_hosts in between, an alias for which a remote session
  would be opened has one.
\<close>

theorem reachable_registered_confirmed:
  assumes "json_ok js" "records w = Map.empty"
    "is_registered_alias js alias (fold (\<lambda>e w. host_step js sha w e) events w) = Inr True"
  shows "\<exists>r f. stored js (fold (\<lambda>e w. host_step js sha w e) events w) alias = Some r \<and>
    trust r = Registered \<and> confirmed_fingerprint r = Some f"
proof -
  let ?w = "fold (\<lambda>e w. host_step js sha w e) events w"
  have "json_ok js \<longrightarrow> trusted js w" using assms(2) by (simp add: trusted_def)
  from host_machine.run_inv [OF this] assms(1) have t: "trusted js ?w" by blast
  obtain r where "stored js ?w alias = Some r" "trust r = Registered"
    using assms(3) by (auto simp: is_registered_alias_def stored_def split: sum.splits option.splits)
  with stored_trusted [OF t] show ?thesis by fastforce
qed

lemma example_save: "save_then plain_json (example_world m) p r res = (example_world (m(p \<mapsto> r)), res)"
  by (simp add: save_then_def save_record_def) (auto simp: example_world_def plain_json_def)

lemma example_run:
  "host_step plain_json (\<lambda>b. b) (host_step plain_json (\<lambda>b. b) (example_world Map.empty) (HCheck ''lab'')) (HRegister ''lab'')
    = example_world [example_path \<mapsto> example_profile (Some ''sha256:k'') Registered]"
proof -
  have 1: "host_step plain_json (\<lambda>b. b) (example_world Map.empty) (HCheck ''lab'')
      = example_world [example_path \<mapsto> example_profile None Pending]"
    by (simp add: host_step_def check_alias_def example_world_simps endpoint_changed_def example_save)
      (simp add: example_profile_def example_host_def next_state_def Let_def)
  have 2: "open_record plain_json (example_world [example_path \<mapsto> example_profile None Pending]) ''lab'' =
      Inr (example_host, example_path, Some (example_profile None Pending))"
    by (simp add: example_world_simps)
  have 3: "\<not> endpoint_changed (example_profile None Pending) example_host"
    "confirmed_fingerprint (example_profile None Pending) = None" "trust (example_profile None Pending) = Pending"
    by (simp_all add: endpoint_changed_def example_profile_def)
  show ?thesis
    unfolding 1
    by (simp add: host_step_def register_alias_def 2 3 example_fingerprint example_save next_state_def Let_def)
      (simp add: example_profile_def example_host_def)
qed

theorem reachable_registered_confirmed_witness:
  "\<exists>r f. stored plain_json (fold (\<lambda>e w. host_step plain_json (\<lambda>b. b) w e) [HCheck ''lab'', HRegister ''lab'']
       (example_world Map.empty)) ''lab'' = Some r \<and> trust r = Registered \<and> confirmed_fingerprint r = Some f"
proof (rule reachable_registered_confirmed [OF plain_json_ok])
  show "records (example_world Map.empty) = Map.empty" by (simp add: example_world_def)
  have "validate_alias ''lab'' = Inr ()" by code_simp
  then show "is_registered_alias plain_json ''lab'' (fold (\<lambda>e w. host_step plain_json (\<lambda>b. b) w e)
      [HCheck ''lab'', HRegister ''lab''] (example_world Map.empty)) = Inr True"
    by (simp add: example_run is_registered_alias_def example_world_simps) (simp add: example_profile_def)
qed

section \<open>Host patterns\<close>

text \<open>The language of a pattern as documented: a star is any text, a question mark any character.\<close>

fun glob_lang :: "string \<Rightarrow> string set" where
  "glob_lang [] = {[]}"
| "glob_lang (b # p) =
     (if b = CHR ''*'' then {u @ v | u v. v \<in> glob_lang p}
      else if b = CHR ''?'' then {c # v | c v. v \<in> glob_lang p}
      else {b # v | v. v \<in> glob_lang p})"

lemma glob_correct:
  "ssh_glob_match p n \<longleftrightarrow> n \<in> glob_lang p"
  "glob_suffix p n \<longleftrightarrow> (\<exists>u v. n = u @ v \<and> v \<in> glob_lang p)"
proof (induction p n and p n rule: ssh_glob_match_glob_suffix.induct)
  case (2 b p n)
  then show ?case
    by (cases n) auto
next
  case (3 p n)
  show ?case
  proof (cases "ssh_glob_match p n")
    case True
    with 3(1) have "n = [] @ n \<and> n \<in> glob_lang p" by simp
    with True show ?thesis by (auto simp: glob_suffix.simps [of p n])
  next
    case False
    show ?thesis
    proof (cases n)
      case Nil
      with 3(1) False show ?thesis by (simp add: glob_suffix.simps [of p "[]"])
    next
      case (Cons a m)
      have "glob_suffix p (a # m) = glob_suffix p m"
        using False Cons by (subst glob_suffix.simps) simp
      also have "\<dots> = (\<exists>u v. m = u @ v \<and> v \<in> glob_lang p)" using 3(2) False Cons by simp
      also have "\<dots> = (\<exists>u v. a # m = u @ v \<and> v \<in> glob_lang p)"
        using 3(1) False Cons by (auto simp: Cons_eq_append_conv)
      finally show ?thesis using Cons by simp
    qed
  qed
qed simp

lemma fold_matches:
  "fold (\<lambda>q (p, n). if f q = None then (p, n) else if the (f q) then (p, n \<or> g q) else (p \<or> g q, n)) qs (a, b) =
     (a \<or> (\<exists>q\<in>set qs. f q = Some False \<and> g q), b \<or> (\<exists>q\<in>set qs. f q = Some True \<and> g q))"
  by (induction qs arbitrary: a b) auto

text \<open>
  Host patterns match what ssh_config documents: a list of patterns matches a host when
  one of its patterns describes the host and none of its negated patterns does, where a
  star stands for any text and a question mark for any one character, letter case ignored.
\<close>

theorem pattern_list_documented:
  "pattern_list_matches pats host \<longleftrightarrow>
     (\<exists>q\<in>set (map trim (split_on (CHR '','') pats)). q \<noteq> [] \<and> hd q \<noteq> CHR ''!'' \<and> lower host \<in> glob_lang (lower q)) \<and>
     \<not> (\<exists>q\<in>set (map trim (split_on (CHR '','') pats)). q \<noteq> [] \<and> hd q = CHR ''!'' \<and> lower host \<in> glob_lang (lower (tl q)))"
proof -
  define f where "f q = (if trim q = [] then None else Some (hd (trim q) = CHR ''!''))" for q
  define g where "g q = ssh_glob_match (lower (if hd (trim q) = CHR ''!'' then tl (trim q) else trim q)) (lower host)" for q
  have step: "(\<lambda>pattern (positive, negated).
       let pattern = trim pattern
       in if pattern = [] then (positive, negated)
          else case strip_prefix ''!'' pattern of
                 Some rest \<Rightarrow> (positive, negated \<or> ssh_glob_match (lower rest) (lower host))
               | None \<Rightarrow> (positive \<or> ssh_glob_match (lower pattern) (lower host), negated)) =
     (\<lambda>q (p, n). if f q = None then (p, n) else if the (f q) then (p, n \<or> g q) else (p \<or> g q, n))"
  proof (intro ext, clarify)
    fix q p n
    show "(let pattern = trim q
       in if pattern = [] then (p, n)
          else case strip_prefix ''!'' pattern of
                 Some rest \<Rightarrow> (p, n \<or> ssh_glob_match (lower rest) (lower host))
               | None \<Rightarrow> (p \<or> ssh_glob_match (lower pattern) (lower host), n)) =
      (if f q = None then (p, n) else if the (f q) then (p, n \<or> g q) else (p \<or> g q, n))"
      by (cases "trim q") (auto simp: f_def g_def strip_prefix_def Let_def)
  qed
  show ?thesis
    unfolding pattern_list_matches_def Let_def [of "lower host"] step fold_matches
    by (auto simp: f_def g_def glob_correct split: if_splits)
qed

section \<open>The scan of known_hosts\<close>

datatype known_line = RevokedKey string | HostKey string | OtherLine

definition classify_line :: "(string \<Rightarrow> string) \<Rightarrow> resolved_host \<Rightarrow> string \<Rightarrow> known_line" where
  "classify_line sha host raw =
     (let line = trim raw
      in if line = [] \<or> hd line = CHR ''#'' \<or> strip_prefix ''|1|'' line \<noteq> None then OtherLine
         else case strip_prefix ''@revoked'' line of
           Some rest \<Rightarrow>
             let parts = split_whitespace (trim rest)
             in if part parts 1 \<noteq> [] \<and> part parts 2 \<noteq> [] \<and>
                   (strip_prefix ''|1|'' (part parts 0) \<noteq> None \<or> host_names_match (part parts 0) host)
                then RevokedKey (fingerprint_blob sha (part parts 2)) else OtherLine
         | None \<Rightarrow>
             let parts = split_whitespace line
             in if hd line \<noteq> CHR ''@'' \<and> part parts 1 \<noteq> [] \<and> part parts 2 \<noteq> [] \<and> host_names_match (part parts 0) host
                then HostKey (fingerprint_blob sha (part parts 2)) else OtherLine)"

definition revoked_keys :: "known_line list \<Rightarrow> string list" where
  "revoked_keys ls = List.map_filter (\<lambda>l. case l of RevokedKey f \<Rightarrow> Some f | _ \<Rightarrow> None) ls"

definition host_keys :: "known_line list \<Rightarrow> string list" where
  "host_keys ls = List.map_filter (\<lambda>l. case l of HostKey f \<Rightarrow> Some f | _ \<Rightarrow> None) ls"

lemma keys_simps [simp]:
  "revoked_keys [] = []" "host_keys [] = []"
  "revoked_keys (RevokedKey f # ls) = f # revoked_keys ls" "host_keys (RevokedKey f # ls) = host_keys ls"
  "revoked_keys (HostKey f # ls) = revoked_keys ls" "host_keys (HostKey f # ls) = f # host_keys ls"
  "revoked_keys (OtherLine # ls) = revoked_keys ls" "host_keys (OtherLine # ls) = host_keys ls"
  by (simp_all add: revoked_keys_def host_keys_def)

lemma scan_line_classified:
  "scan_line sha host raw (revoked, found, ambiguous) =
     (case classify_line sha host raw of
        RevokedKey f \<Rightarrow> (revoked @ [f], found, ambiguous)
      | HostKey f \<Rightarrow> (revoked, (case found of None \<Rightarrow> Some f | Some e \<Rightarrow> Some e),
                     ambiguous \<or> (\<exists>e. found = Some e \<and> e \<noteq> f))
      | OtherLine \<Rightarrow> (revoked, found, ambiguous))"
  by (auto simp: scan_line_def classify_line_def Let_def split: option.split)

lemma scan_lines:
  "fold (scan_line sha host) ls (revoked, found, ambiguous) =
     (let ks = map (classify_line sha host) ls
      in (revoked @ revoked_keys ks,
          (case found of Some e \<Rightarrow> Some e | None \<Rightarrow> (case host_keys ks of [] \<Rightarrow> None | f # _ \<Rightarrow> Some f)),
          ambiguous \<or> (\<exists>f\<in>set (host_keys ks). \<exists>e. (found = Some e \<or> (found = None \<and> e = hd (host_keys ks))) \<and> e \<noteq> f)))"
proof (induction ls arbitrary: revoked found ambiguous)
  case Nil
  then show ?case by (auto split: option.split)
next
  case (Cons l ls)
  then show ?case
    by (cases "classify_line sha host l"; cases found) (auto simp: scan_line_classified Let_def)
qed

lemma fold_texts:
  "fold (scan_known_hosts_text sha host) texts s = fold (scan_line sha host) (concat (map text_lines texts)) s"
  by (induction texts arbitrary: s) (auto simp: scan_known_hosts_text_def)

definition known_lines :: "(string \<Rightarrow> string) \<Rightarrow> resolved_host \<Rightarrow> string list \<Rightarrow> known_line list" where
  "known_lines sha host texts = map (classify_line sha host) (concat (map text_lines texts))"

lemma read_known_hosts_texts:
  "read_known_hosts w ps = Inr texts \<Longrightarrow> texts = List.map_filter (text_files w) ps"
  by (induction ps arbitrary: texts) (auto split: option.splits sum.splits simp: map_filter_simps)

text \<open>
  The fingerprint presented for a host is decided by all the known_hosts files together, when
  each that exists can be read:
  a confirmed key that a matching line revokes is revoked; two different keys for the host
  are ambiguous; a single key is presented unless a matching line revokes it; comments,
  hashed names, other markers and lines for other hosts count for nothing.
\<close>

theorem known_hosts_fingerprint_decides:
  assumes "read_known_hosts w (known_hosts_files w host) = Inr texts"
  shows "known_hosts_fingerprint sha w host confirmed =
    Inr (if \<exists>c. confirmed = Some c \<and> c \<in> set (revoked_keys (known_lines sha host texts)) then Revoked
     else case remdups (host_keys (known_lines sha host texts)) of
            [] \<Rightarrow> NoFingerprint
          | [f] \<Rightarrow> if f \<in> set (revoked_keys (known_lines sha host texts)) then Revoked else Unique f
          | _ \<Rightarrow> Ambiguous)"
proof -
  define ks where "ks = map (classify_line sha host) (concat (map text_lines texts))"
  have scan: "fold (scan_known_hosts_text sha host) texts ([], None, False) =
      (revoked_keys ks, (case host_keys ks of [] \<Rightarrow> None | f # _ \<Rightarrow> Some f),
       \<exists>f\<in>set (host_keys ks). hd (host_keys ks) \<noteq> f)"
    by (simp add: fold_texts scan_lines ks_def Let_def)
  have empty: "ks = []" if "texts = []" using that by (simp add: ks_def)
  have keys: "(\<exists>f\<in>set (host_keys ks). hd (host_keys ks) \<noteq> f) \<longleftrightarrow>
      (\<exists>a b l. remdups (host_keys ks) = a # b # l)"
    and one: "\<And>f. remdups (host_keys ks) = [f] \<Longrightarrow> \<exists>l. host_keys ks = f # l"
    and none: "remdups (host_keys ks) = [] \<longleftrightarrow> host_keys ks = []"
  proof -
    show "remdups (host_keys ks) = [] \<longleftrightarrow> host_keys ks = []" by simp
    show "\<exists>l. host_keys ks = f # l" if f: "remdups (host_keys ks) = [f]" for f
    proof -
      have "set (host_keys ks) = {f}" using arg_cong [OF f, of set] by simp
      then show ?thesis by (cases "host_keys ks") auto
    qed
    show "(\<exists>f\<in>set (host_keys ks). hd (host_keys ks) \<noteq> f) \<longleftrightarrow> (\<exists>a b l. remdups (host_keys ks) = a # b # l)"
    proof
      assume "\<exists>f\<in>set (host_keys ks). hd (host_keys ks) \<noteq> f"
      then obtain f where f: "f \<in> set (remdups (host_keys ks))" "hd (host_keys ks) \<in> set (remdups (host_keys ks))"
        "hd (host_keys ks) \<noteq> f" unfolding set_remdups by (cases "host_keys ks") auto
      then show "\<exists>a b l. remdups (host_keys ks) = a # b # l"
        by (cases "remdups (host_keys ks)" rule: remdups_adj.cases) auto
    next
      assume "\<exists>a b l. remdups (host_keys ks) = a # b # l"
      then obtain a b l where r: "remdups (host_keys ks) = a # b # l" by blast
      then have "a \<noteq> b" "a \<in> set (host_keys ks)" "b \<in> set (host_keys ks)"
        using distinct_remdups [of "host_keys ks"] set_remdups [of "host_keys ks"] by auto
      then show "\<exists>f\<in>set (host_keys ks). hd (host_keys ks) \<noteq> f" by metis
    qed
  qed
  have L: "known_lines sha host texts = ks" by (simp add: known_lines_def ks_def)
  have "known_hosts_fingerprint sha w host confirmed =
    Inr (if \<exists>c. confirmed = Some c \<and> c \<in> set (revoked_keys ks) then Revoked
     else case remdups (host_keys ks) of
            [] \<Rightarrow> NoFingerprint
          | [f] \<Rightarrow> if f \<in> set (revoked_keys ks) then Revoked else Unique f
          | _ \<Rightarrow> Ambiguous)"
  proof (cases "remdups (host_keys ks)" rule: remdups_adj.cases)
    case 1
    then have "host_keys ks = []" by simp
    with empty show ?thesis
      by (auto simp: known_hosts_fingerprint_def assms scan)
  next
    case (2 f)
    then obtain l where "host_keys ks = f # l" using one by blast
    moreover have "texts \<noteq> []" using empty 2 by auto
    ultimately show ?thesis
      using 2 keys by (auto simp: known_hosts_fingerprint_def assms scan)
  next
    case (3 a b l)
    moreover have "texts \<noteq> []" using empty 3 by auto
    ultimately show ?thesis
      using keys by (auto simp: known_hosts_fingerprint_def assms scan)
  qed
  then show ?thesis unfolding L .
qed

end
