(* ===== verification/Wire.thy ===== *)
theory Wire
  imports Text "HOL-Library.Word"
begin

text \<open>
  The length-prefixed protocol of the remote helper
  (core/crates/winsmux-remote-helper/src/lib.rs): messages and their limits, frames,
  base64, the validation of messages, the negotiation and the server loop.

  serde_json is the parameter \<open>wire_json\<close>: writing a message, reading a value, its \<open>type\<close>
  field, and reading a message from a value. A reader is the bytes it will deliver and
  whether it then fails instead of ending; a writer takes whole frames until it fails, after any
  number of bytes of one. Text is a list of UTF-8 bytes.
\<close>

unbundle bit_operations_syntax

section \<open>Limits\<close>

type_synonym byte = "8 word"

definition MAX_FRAME_LEN :: nat where "MAX_FRAME_LEN = 13915"
definition PROTOCOL_VERSION :: nat where "PROTOCOL_VERSION = 1"
definition MAX_CLIENT_VERSION_BYTES :: nat where "MAX_CLIENT_VERSION_BYTES = 64"
definition NONCE_HEX_LEN :: nat where "NONCE_HEX_LEN = 64"
definition MAX_CAPABILITY_LEN :: nat where "MAX_CAPABILITY_LEN = 32"
definition MAX_CAPABILITIES :: nat where "MAX_CAPABILITIES = 8"
definition MAX_REJECT_DETAIL_BYTES :: nat where "MAX_REJECT_DETAIL_BYTES = 128"
definition MAX_EXECUTABLE_BYTES :: nat where "MAX_EXECUTABLE_BYTES = 256"
definition MAX_ARGV_COUNT :: nat where "MAX_ARGV_COUNT = 8"
definition MAX_ARGV_ELEM_BYTES :: nat where "MAX_ARGV_ELEM_BYTES = 256"
definition MAX_SESSION_ID_HEX :: nat where "MAX_SESSION_ID_HEX = 32"
definition MAX_PTY_IO_CHUNK :: nat where "MAX_PTY_IO_CHUNK = 256"
definition MAX_PTY_COLS :: nat where "MAX_PTY_COLS = 512"
definition MAX_PTY_ROWS :: nat where "MAX_PTY_ROWS = 512"

definition SUPPORTED_CAPABILITIES :: "string list" where
  "SUPPORTED_CAPABILITIES = [''frame-v1'', ''pty-v1'', ''agent-path-v1'', ''session-lifecycle-v1'']"

section \<open>Messages\<close>

record agent_resolution =
  absolute_path :: "string option"
  user_candidates :: "string list"

datatype reject_code =
    VersionMismatch | UnknownType | Malformed | Oversized | PeerLimit | Unsupported
  | SessionNotFound | ControllerBusy | NotController | SpawnFailed

datatype message =
    Hello nat string string "string list" nat
  | Welcome nat string "string list" nat
  | Reject reject_code string
  | PtyStart string "agent_resolution option" "string list" nat nat
  | PtyStarted string nat "string option"
  | PtyStartAck string
  | PtyExited string
  | PtyAttach string
  | PtyAttached string nat
  | PtyDetach
  | PtyDetached
  | PtyStop string
  | PtyStopped
  | PtyInput string
  | PtyOutput string
  | PtyResize nat nat

fun type_name :: "message \<Rightarrow> string" where
  "type_name (Hello v c n cs l) = ''hello''"
| "type_name (Welcome v n cs l) = ''welcome''"
| "type_name (Reject c d) = ''reject''"
| "type_name (PtyStart e r a c w) = ''pty-start''"
| "type_name (PtyStarted s p e) = ''pty-started''"
| "type_name (PtyStartAck s) = ''pty-start-ack''"
| "type_name (PtyExited s) = ''pty-exited''"
| "type_name (PtyAttach s) = ''pty-attach''"
| "type_name (PtyAttached s p) = ''pty-attached''"
| "type_name PtyDetach = ''pty-detach''"
| "type_name PtyDetached = ''pty-detached''"
| "type_name (PtyStop s) = ''pty-stop''"
| "type_name PtyStopped = ''pty-stopped''"
| "type_name (PtyInput d) = ''pty-input''"
| "type_name (PtyOutput d) = ''pty-output''"
| "type_name (PtyResize c r) = ''pty-resize''"

text \<open>\<open>is_char_boundary\<close>: not in front of a continuation byte.\<close>

definition is_char_boundary :: "string \<Rightarrow> nat \<Rightarrow> bool" where
  "is_char_boundary s i =
     (i = 0 \<or> i = length s \<or> (i < length s \<and> \<not> (128 \<le> (of_char (s ! i) :: nat) \<and> (of_char (s ! i) :: nat) < 192)))"

fun boundary_before :: "string \<Rightarrow> nat \<Rightarrow> nat" where
  "boundary_before s 0 = 0"
| "boundary_before s (Suc n) = (if is_char_boundary s (Suc n) then Suc n else boundary_before s n)"

definition truncate_detail :: "string \<Rightarrow> string" where
  "truncate_detail detail =
     (if length detail \<le> MAX_REJECT_DETAIL_BYTES then detail
      else take (boundary_before detail MAX_REJECT_DETAIL_BYTES) detail)"

definition reject :: "reject_code \<Rightarrow> string \<Rightarrow> message" where
  "reject code detail = Reject code (truncate_detail detail)"

section \<open>Base64\<close>

definition TABLE :: string where
  "TABLE = ''ABCDEFGHIJKLMNOPQRSTUVWXYZabcdefghijklmnopqrstuvwxyz0123456789+/''"

definition base64_value :: "char \<Rightarrow> byte option" where
  "base64_value c =
     (let n = of_char c :: nat
      in if 65 \<le> n \<and> n \<le> 90 then Some (of_nat (n - 65))
         else if 97 \<le> n \<and> n \<le> 122 then Some (of_nat (n - 97 + 26))
         else if 48 \<le> n \<and> n \<le> 57 then Some (of_nat (n - 48 + 52))
         else if n = 43 then Some 62
         else if n = 47 then Some 63
         else None)"

definition table_char :: "byte \<Rightarrow> char" where
  "table_char i = TABLE ! unat i"

definition encode_chunk :: "byte \<Rightarrow> byte option \<Rightarrow> byte option \<Rightarrow> string" where
  "encode_chunk a b c =
     [table_char (drop_bit 2 a),
      table_char (push_bit 4 (a AND 3) OR drop_bit 4 (case b of Some b \<Rightarrow> b | None \<Rightarrow> 0)),
      (case b of Some b \<Rightarrow> table_char (push_bit 2 (b AND 15) OR drop_bit 6 (case c of Some c \<Rightarrow> c | None \<Rightarrow> 0))
               | None \<Rightarrow> CHR ''=''),
      (case c of Some c \<Rightarrow> table_char (c AND 63) | None \<Rightarrow> CHR ''='')]"

fun encode_base64 :: "byte list \<Rightarrow> string" where
  "encode_base64 [] = []"
| "encode_base64 [a] = encode_chunk a None None"
| "encode_base64 [a, b] = encode_chunk a (Some b) None"
| "encode_base64 (a # b # c # rest) = encode_chunk a (Some b) (Some c) @ encode_base64 rest"

text \<open>The loop over the chunks of four; a padded chunk must be the last one.\<close>

fun decode_chunks :: "string \<Rightarrow> byte list option" where
  "decode_chunks (p # q # r # s # rest) =
     do { a \<leftarrow> base64_value p;
          b \<leftarrow> base64_value q;
          let x = push_bit 2 a OR drop_bit 4 b;
          if r = CHR ''='' then (if rest \<noteq> [] \<or> s \<noteq> CHR ''='' \<or> b AND 15 \<noteq> 0 then None else Some [x])
          else do {
            c \<leftarrow> base64_value r;
            let y = push_bit 4 b OR drop_bit 2 c;
            if s = CHR ''='' then (if rest \<noteq> [] \<or> c AND 3 \<noteq> 0 then None else Some [x, y])
            else do {
              d \<leftarrow> base64_value s;
              let z = push_bit 6 c OR d;
              more \<leftarrow> decode_chunks rest;
              Some (x # y # z # more) } } }"
| "decode_chunks rest = Some []"

definition decode_base64 :: "string \<Rightarrow> byte list option" where
  "decode_base64 v =
     (if v = [] \<or> length v mod 4 \<noteq> 0 then None
      else do { decoded \<leftarrow> decode_chunks v; if encode_base64 decoded = v then Some decoded else None })"

section \<open>Legal messages\<close>

definition has_nul :: "string \<Rightarrow> bool" where
  "has_nul s = (char_of (0::nat) \<in> set s)"

definition unix_absolute_path_is_legal :: "string \<Rightarrow> bool" where
  "unix_absolute_path_is_legal path =
     (path \<noteq> [] \<and> length path \<le> MAX_EXECUTABLE_BYTES \<and> hd path = CHR ''/'' \<and> \<not> has_nul path \<and>
      list_all (\<lambda>component. component \<noteq> ''.'' \<and> component \<noteq> ''..'') (split_on (CHR ''/'') path))"

definition session_id_is_legal :: "string \<Rightarrow> bool" where
  "session_id_is_legal session_id =
     (length session_id = MAX_SESSION_ID_HEX \<and>
      list_all (\<lambda>b. is_digit b \<or> (97 \<le> (of_char b :: nat) \<and> (of_char b :: nat) \<le> 102)) session_id)"

definition nonce_is_legal :: "string \<Rightarrow> bool" where
  "nonce_is_legal nonce = (length nonce = NONCE_HEX_LEN \<and> list_all is_hex nonce)"

definition capability_is_legal :: "string \<Rightarrow> bool" where
  "capability_is_legal item =
     list_all (\<lambda>b. (97 \<le> (of_char b :: nat) \<and> (of_char b :: nat) \<le> 122) \<or> is_digit b \<or> b = CHR ''-'') item"

definition client_version_is_legal :: "string \<Rightarrow> bool" where
  "client_version_is_legal v =
     (length v > 0 \<and> length v \<le> MAX_CLIENT_VERSION_BYTES \<and>
      list_all (\<lambda>b. is_alnum b \<or> b \<in> {CHR ''.'', CHR ''_'', CHR ''-''}) v)"

definition dimensions_are_legal :: "nat \<Rightarrow> nat \<Rightarrow> bool" where
  "dimensions_are_legal cols rows =
     (\<not> (cols = 0 \<or> cols > MAX_PTY_COLS \<or> rows = 0 \<or> rows > MAX_PTY_ROWS))"

text \<open>The outcome is the detail of the first check that fails.\<close>

fun validate_message :: "message \<Rightarrow> string + unit" where
  "validate_message (PtyStart executable resolution argv cols rows) =
     (if executable = [] \<or> length executable > MAX_EXECUTABLE_BYTES \<or> has_nul executable
      then Inl ''executable is illegal''
      else if length argv > MAX_ARGV_COUNT \<or> list_ex (\<lambda>a. length a > MAX_ARGV_ELEM_BYTES \<or> has_nul a) argv
      then Inl ''argv is illegal''
      else if (case resolution of Some r \<Rightarrow> executable \<notin> {''claude'', ''codex''} | None \<Rightarrow> False)
      then Inl ''resolution executable is illegal''
      else if (case resolution of
                 Some r \<Rightarrow> (case absolute_path r of Some p \<Rightarrow> \<not> unix_absolute_path_is_legal p | None \<Rightarrow> False) \<or>
                           list_ex (\<lambda>p. \<not> unix_absolute_path_is_legal p) (user_candidates r)
               | None \<Rightarrow> False)
      then Inl ''resolution path is illegal''
      else if (case resolution of
                 Some r \<Rightarrow> length argv + length (user_candidates r) >
                           (if absolute_path r \<noteq> None then MAX_ARGV_COUNT - 1 else MAX_ARGV_COUNT)
               | None \<Rightarrow> False)
      then Inl ''resolution argv and candidates are illegal''
      else if \<not> dimensions_are_legal cols rows then Inl ''PTY dimensions are illegal''
      else Inr ())"
| "validate_message (PtyStarted session_id child_pid resolved_executable) =
     (if \<not> session_id_is_legal session_id then Inl ''session_id is illegal''
      else if child_pid = 0 then Inl ''child_pid is illegal''
      else if (case resolved_executable of Some p \<Rightarrow> \<not> unix_absolute_path_is_legal p | None \<Rightarrow> False)
      then Inl ''resolved_executable is illegal''
      else Inr ())"
| "validate_message (PtyAttached session_id child_pid) =
     (if \<not> session_id_is_legal session_id then Inl ''session_id is illegal''
      else if child_pid = 0 then Inl ''child_pid is illegal'' else Inr ())"
| "validate_message (PtyStartAck s) = (if session_id_is_legal s then Inr () else Inl ''session_id is illegal'')"
| "validate_message (PtyExited s) = (if session_id_is_legal s then Inr () else Inl ''session_id is illegal'')"
| "validate_message (PtyAttach s) = (if session_id_is_legal s then Inr () else Inl ''session_id is illegal'')"
| "validate_message (PtyStop s) = (if session_id_is_legal s then Inr () else Inl ''session_id is illegal'')"
| "validate_message (PtyInput d) =
     (case decode_base64 d of
        None \<Rightarrow> Inl ''data_b64 is illegal''
      | Some bs \<Rightarrow> if bs = [] \<or> length bs > MAX_PTY_IO_CHUNK then Inl ''data_b64 decoded length is illegal'' else Inr ())"
| "validate_message (PtyOutput d) =
     (case decode_base64 d of
        None \<Rightarrow> Inl ''data_b64 is illegal''
      | Some bs \<Rightarrow> if bs = [] \<or> length bs > MAX_PTY_IO_CHUNK then Inl ''data_b64 decoded length is illegal'' else Inr ())"
| "validate_message (PtyResize cols rows) =
     (if dimensions_are_legal cols rows then Inr () else Inl ''PTY dimensions are illegal'')"
| "validate_message (Reject code detail) =
     (if length detail > MAX_REJECT_DETAIL_BYTES then Inl ''reject detail is illegal'' else Inr ())"
| "validate_message _ = Inr ()"

section \<open>Frames\<close>

datatype wire_error = UnexpectedEof | BadData | ReadFailed | WriteFailed

record reader =
  bytes_left :: "byte list"
  then_fails :: bool

record 'j wire_json =
  to_vec :: "message \<Rightarrow> byte list option"
  from_slice :: "byte list \<Rightarrow> 'j option"
  type_field :: "'j \<Rightarrow> string option"
  from_value :: "'j \<Rightarrow> message option"

definition encode_payload :: "'j wire_json \<Rightarrow> message \<Rightarrow> byte list option" where
  "encode_payload js m = to_vec js m"

definition to_be_bytes :: "nat \<Rightarrow> byte list" where
  "to_be_bytes n = [of_nat (n div 16777216), of_nat (n div 65536), of_nat (n div 256), of_nat n]"

definition from_be_bytes :: "byte list \<Rightarrow> nat" where
  "from_be_bytes bs = foldl (\<lambda>a b. a * 256 + unat b) 0 bs"

definition encode_frame :: "'j wire_json \<Rightarrow> message \<Rightarrow> wire_error + byte list" where
  "encode_frame js m =
     (case encode_payload js m of
        None \<Rightarrow> Inl BadData
      | Some payload \<Rightarrow>
          if length payload > MAX_FRAME_LEN then Inl BadData
          else Inr (to_be_bytes (length payload) @ payload))"

definition read_exact :: "reader \<Rightarrow> nat \<Rightarrow> wire_error + (byte list \<times> reader)" where
  "read_exact r n =
     (if n \<le> length (bytes_left r)
      then Inr (take n (bytes_left r), r\<lparr>bytes_left := drop n (bytes_left r)\<rparr>)
      else Inl (if then_fails r then ReadFailed else UnexpectedEof))"

text \<open>
  A frame, or the message to answer with; the reader after a truncated payload is at its
  end.
\<close>

definition read_frame :: "reader \<Rightarrow> wire_error + ((message + byte list) \<times> reader)" where
  "read_frame r =
     (case read_exact r 4 of
        Inl e \<Rightarrow> Inl e
      | Inr (prefix, r) \<Rightarrow>
          let declared = from_be_bytes prefix
          in if declared > MAX_FRAME_LEN
             then Inr (Inl (reject Oversized ''frame payload larger than MAX_FRAME_LEN''), r)
             else if declared = 0
             then Inr (Inl (reject Malformed ''frame payload length is zero''), r)
             else case read_exact r declared of
                    Inl UnexpectedEof \<Rightarrow>
                      Inr (Inl (reject Malformed ''truncated frame payload''), r\<lparr>bytes_left := []\<rparr>)
                  | Inl e \<Rightarrow> Inl e
                  | Inr (payload, r) \<Rightarrow> Inr (Inr payload, r))"

definition known_types :: "string list" where
  "known_types =
     [''hello'', ''welcome'', ''reject'', ''pty-start'', ''pty-started'', ''pty-start-ack'', ''pty-exited'',
      ''pty-attach'', ''pty-attached'', ''pty-detach'', ''pty-detached'', ''pty-stop'', ''pty-stopped'',
      ''pty-input'', ''pty-output'', ''pty-resize'']"

definition decode_payload :: "'j wire_json \<Rightarrow> byte list \<Rightarrow> message + message" where
  "decode_payload js payload =
     (case from_slice js payload of
        None \<Rightarrow> Inl (reject Malformed ''payload is not JSON'')
      | Some v \<Rightarrow>
          (case type_field js v of
             None \<Rightarrow> Inl (reject Malformed ''payload type is missing'')
           | Some kind \<Rightarrow>
               if kind \<notin> set known_types
               then Inl (reject UnknownType (''unknown type '' @ [char_of (39::nat)] @ kind @ [char_of (39::nat)]))
               else case from_value js v of
                      None \<Rightarrow> Inl (reject Malformed ''payload fields are invalid'')
                    | Some m \<Rightarrow> (case validate_message m of Inl d \<Rightarrow> Inl (reject Malformed d) | Inr u \<Rightarrow> Inr m)))"

section \<open>Negotiation\<close>

definition selected_capabilities :: "string list \<Rightarrow> string list" where
  "selected_capabilities capabilities = filter (\<lambda>c. c \<in> set capabilities) SUPPORTED_CAPABILITIES"

fun negotiate :: "'j wire_json \<Rightarrow> message \<Rightarrow> message" where
  "negotiate js (Hello protocol_version client_version nonce capabilities peer_frame_limit) =
     (if protocol_version \<noteq> PROTOCOL_VERSION
      then reject VersionMismatch (''unsupported protocol_version '' @ show_digits protocol_version)
      else if \<not> client_version_is_legal client_version then reject Malformed ''client_version is illegal''
      else if \<not> nonce_is_legal nonce then reject Malformed ''nonce must be 32-byte hex''
      else if length capabilities > MAX_CAPABILITIES \<or>
              list_ex (\<lambda>c. c = [] \<or> length c > MAX_CAPABILITY_LEN \<or> \<not> capability_is_legal c) capabilities
      then reject Malformed ''capabilities are illegal''
      else let welcome = Welcome PROTOCOL_VERSION nonce (selected_capabilities capabilities) MAX_FRAME_LEN;
               welcome_len = (case encode_payload js welcome of
                                Some p \<Rightarrow> length p mod 4294967296 | None \<Rightarrow> 4294967295)
           in if peer_frame_limit < welcome_len then reject PeerLimit ''peer_frame_limit cannot carry Welcome''
              else welcome)"
| "negotiate js _ = reject UnknownType ''first frame must be hello''"

definition respond_after_negotiation :: "'j wire_json \<Rightarrow> byte list \<Rightarrow> message" where
  "respond_after_negotiation js payload =
     (case decode_payload js payload of
        Inl r \<Rightarrow> r
      | Inr (Hello _ _ _ _ _) \<Rightarrow> reject UnknownType ''hello is not accepted after Welcome''
      | Inr (Welcome _ _ _ _) \<Rightarrow> reject UnknownType ''welcome is not accepted from the peer''
      | Inr (Reject _ _) \<Rightarrow> reject UnknownType ''reject is not an accepted follow-on type''
      | Inr m \<Rightarrow>
          if (case m of PtyStart _ _ _ _ _ \<Rightarrow> True | PtyStartAck _ \<Rightarrow> True | PtyAttach _ \<Rightarrow> True | PtyDetach \<Rightarrow> True
                 | PtyStop _ \<Rightarrow> True | PtyInput _ \<Rightarrow> True | PtyResize _ _ \<Rightarrow> True | _ \<Rightarrow> False)
          then reject Unsupported ''pty-v1 is supported only by the Linux broker''
          else reject UnknownType ''server-only message is not accepted from the peer'')"

section \<open>The server\<close>

lemma read_frame_shorter:
  "read_frame r = Inr (x, r') \<Longrightarrow> length (bytes_left r') < length (bytes_left r)"
  by (auto simp: read_frame_def read_exact_def Let_def split: if_splits sum.splits wire_error.splits)

text \<open>
  A writer: whether the k-th frame is written and flushed, or after how many of its bytes that
  fails. The functions give what is written, and how they end.
\<close>

type_synonym frame_writer = "nat \<Rightarrow> nat option"

definition write_frame ::
    "'j wire_json \<Rightarrow> frame_writer \<Rightarrow> nat \<Rightarrow> message \<Rightarrow> byte list \<Rightarrow> byte list \<times> (wire_error + unit)" where
  "write_frame js wr k m out =
     (case encode_frame js m of
        Inl e \<Rightarrow> (out, Inl e)
      | Inr f \<Rightarrow> (case wr k of None \<Rightarrow> (out @ f, Inr ()) | Some n \<Rightarrow> (out @ take n f, Inl WriteFailed)))"

function serve_loop ::
    "'j wire_json \<Rightarrow> frame_writer \<Rightarrow> nat \<Rightarrow> reader \<Rightarrow> byte list \<Rightarrow> byte list \<times> (wire_error + unit)" where
  "serve_loop js wr k r out =
     (case read_frame r of
        Inr (Inr payload, r') \<Rightarrow>
          (case write_frame js wr k (respond_after_negotiation js payload) out of
             (out', Inl e) \<Rightarrow> (out', Inl e)
           | (out', Inr u) \<Rightarrow> serve_loop js wr (k + 1) r' out')
      | Inr (Inl rej, r') \<Rightarrow>
          (case write_frame js wr k rej out of
             (out', Inl e) \<Rightarrow> (out', Inl e)
           | (out', Inr u) \<Rightarrow>
               if (case rej of Reject Oversized _ \<Rightarrow> True | _ \<Rightarrow> False) then (out', Inr ())
               else serve_loop js wr (k + 1) r' out')
      | Inl UnexpectedEof \<Rightarrow> (out, Inr ())
      | Inl e \<Rightarrow> (out, Inl e))"
  by pat_completeness auto
termination
  by (relation "measure (\<lambda>(js, wr, k, r, out). length (bytes_left r))") (auto dest: read_frame_shorter)

declare serve_loop.simps [simp del]

definition serve_stdio :: "'j wire_json \<Rightarrow> frame_writer \<Rightarrow> reader \<Rightarrow> byte list \<times> (wire_error + unit)" where
  "serve_stdio js wr r =
     (case read_frame r of
        Inl e \<Rightarrow> ([], Inl e)
      | Inr (Inl rej, r') \<Rightarrow> write_frame js wr 0 rej []
      | Inr (Inr first, r') \<Rightarrow>
          let reply = (case decode_payload js first of Inr m \<Rightarrow> negotiate js m | Inl rej \<Rightarrow> rej)
          in case write_frame js wr 0 reply [] of
               (out, Inl e) \<Rightarrow> (out, Inl e)
             | (out, Inr u) \<Rightarrow>
                 if (case reply of Welcome _ _ _ _ \<Rightarrow> True | _ \<Rightarrow> False) then serve_loop js wr 1 r' out else (out, Inr ()))"

end
