(* ===== verification/Bytes.thy ===== *)
theory Bytes
  imports Main "HOL-Library.Word"
begin

text \<open>
  Bytes as 8-bit words, and the arithmetic of base64 on them: how three bytes become four
  indices of six bits and come back.
\<close>

unbundle bit_operations_syntax

lemma less_8: "n < 8 \<longleftrightarrow> n = 0 \<or> (n = 1 \<or> n = 2 \<or> n = 3) \<or> n = 4 \<or> (n = 5 \<or> n = 6 \<or> n = (7::nat))"
  by auto

lemma byte_eqI:
  fixes x y :: "8 word"
  assumes "bit x 0 = bit y 0" "bit x 1 = bit y 1" "bit x 2 = bit y 2" "bit x 3 = bit y 3"
    "bit x 4 = bit y 4" "bit x 5 = bit y 5" "bit x 6 = bit y 6" "bit x 7 = bit y 7"
  shows "x = y"
proof (rule bit_word_eqI)
  fix n assume "n < LENGTH(8)"
  then have "n < 8" by simp
  with assms show "bit x n = bit y n" unfolding less_8 by (elim disjE) simp_all
qed

lemma small_word:
  fixes w :: "8 word"
  assumes "\<not> bit w 6" "\<not> bit w 7"
  shows "unat w < 64"
proof -
  have "w = take_bit 6 w"
    using assms by (intro byte_eqI) (simp_all add: bit_take_bit_iff)
  then have "unat w = unat (take_bit 6 w)" by simp
  also have "\<dots> = take_bit 6 (unat w)" by (simp add: unsigned_take_bit_eq)
  also have "\<dots> < 64" by (simp add: take_bit_eq_mod)
  finally show ?thesis .
qed

text \<open>The four indices of a chunk, and the bytes they give back.\<close>

lemma chunk_small:
  fixes a b c :: "8 word"
  shows "unat (drop_bit 2 a) < 64" "unat (push_bit 4 (a AND 3) OR drop_bit 4 b) < 64"
    "unat (push_bit 2 (b AND 15) OR drop_bit 6 c) < 64" "unat (c AND 63) < 64"
  by (rule small_word; auto simp: bit_simps dest: bit_imp_le_length)+

lemma chunk_back:
  fixes a b c :: "8 word"
  shows "push_bit 2 (drop_bit 2 a) OR drop_bit 4 (push_bit 4 (a AND 3) OR drop_bit 4 b) = a"
    "push_bit 4 (push_bit 4 (a AND 3) OR drop_bit 4 b) OR drop_bit 2 (push_bit 2 (b AND 15) OR drop_bit 6 c) = b"
    "push_bit 6 (push_bit 2 (b AND 15) OR drop_bit 6 c) OR (c AND 63) = c"
    "(push_bit 4 (a AND 3) OR drop_bit 4 0) AND 15 = 0"
    "(push_bit 2 (b AND 15) OR drop_bit 6 0) AND 3 = 0"
  by (rule byte_eqI; simp add: bit_simps)+

end
