(* ===== verification/Wire_Props.thy ===== *)
theory Wire_Props
  imports Wire Bytes
begin

text \<open>
  The guarantees of the protocol: base64 is read back and canonical, frames are read back,
  the negotiation accepts exactly the legal requests, every reply fits the limits, and
  after the negotiation the server only answers with rejections.
\<close>

section \<open>Base64\<close>

lemma table_values: "map base64_value TABLE = map (\<lambda>i. Some (word_of_nat i)) [0..<64]"
  by (simp add: TABLE_def base64_value_def upt_rec)

lemma table_length: "length TABLE = 64"
  by (simp add: TABLE_def)

lemma table_no_pad: "CHR ''='' \<notin> set TABLE"
  by (simp add: TABLE_def)

lemma base64_table:
  assumes "unat i < 64"
  shows "base64_value (table_char i) = Some i" "table_char i \<noteq> CHR ''=''"
proof -
  have "base64_value (TABLE ! unat i) = map base64_value TABLE ! unat i" using assms by (simp add: table_length)
  also have "\<dots> = Some i" unfolding table_values using assms by simp
  finally show "base64_value (table_char i) = Some i" by (simp add: table_char_def)
  have "TABLE ! unat i \<in> set TABLE" using assms by (simp add: table_length)
  then show "table_char i \<noteq> CHR ''=''" using table_no_pad by (auto simp: table_char_def)
qed

lemma decode_quad:
  assumes "unat i < 64" "unat j < 64"
  shows "decode_chunks [table_char i, table_char j, CHR ''='', CHR ''=''] =
      (if j AND 15 \<noteq> 0 then None else Some [push_bit 2 i OR drop_bit 4 j])"
    "unat k < 64 \<Longrightarrow> decode_chunks [table_char i, table_char j, table_char k, CHR ''=''] =
      (if k AND 3 \<noteq> 0 then None else Some [push_bit 2 i OR drop_bit 4 j, push_bit 4 j OR drop_bit 2 k])"
    "unat k < 64 \<Longrightarrow> unat l < 64 \<Longrightarrow> decode_chunks ([table_char i, table_char j, table_char k, table_char l] @ rest) =
      map_option (\<lambda>more. (push_bit 2 i OR drop_bit 4 j) # (push_bit 4 j OR drop_bit 2 k) # (push_bit 6 k OR l) # more)
        (decode_chunks rest)"
  using assms by (auto simp: base64_table split: Option.bind_split)

lemma decode_encode_chunks: "decode_chunks (encode_base64 bs) = Some bs"
proof (induction bs rule: encode_base64.induct)
  case (2 a)
  show ?case
    unfolding encode_base64.simps encode_chunk_def option.case
      decode_quad(1) [OF chunk_small(1) chunk_small(2)] chunk_back(1) chunk_back(4)
    by (rule if_not_P) simp
next
  case (3 a b)
  show ?case
    unfolding encode_base64.simps encode_chunk_def option.case
      decode_quad(2) [OF chunk_small(1) chunk_small(2) chunk_small(3)] chunk_back(1,2) chunk_back(5)
    by (rule if_not_P) simp
next
  case (4 a b c rest)
  show ?case
    unfolding encode_base64.simps encode_chunk_def option.case
      decode_quad(3) [OF chunk_small(1) chunk_small(2) chunk_small(3) chunk_small(4)] chunk_back(1-3) 4 option.map
    by (rule refl)
qed simp

lemma length_chunk: "length (encode_chunk a b c) = 4"
  by (simp add: encode_chunk_def)

lemma encode_length: "length (encode_base64 bs) mod 4 = 0"
  by (induction bs rule: encode_base64.induct) (simp_all add: length_chunk)

lemma encode_nonempty: "encode_base64 bs = [] \<longleftrightarrow> bs = []"
  by (cases bs rule: encode_base64.cases) (simp_all add: encode_chunk_def)

lemma base64_exact: "decode_base64 s = Some bs \<longleftrightarrow> bs \<noteq> [] \<and> s = encode_base64 bs"
proof
  assume "decode_base64 s = Some bs"
  then have "s \<noteq> []" "encode_base64 bs = s"
    unfolding decode_base64_def by (simp_all split: if_splits Option.bind_splits)
  then show "bs \<noteq> [] \<and> s = encode_base64 bs" using encode_nonempty [of bs] by blast
next
  assume s: "bs \<noteq> [] \<and> s = encode_base64 bs"
  then have "\<not> (s = [] \<or> length s mod 4 \<noteq> 0)" using encode_nonempty [of bs] encode_length [of bs] by simp
  moreover have "decode_chunks s = Some bs" using s decode_encode_chunks by simp
  ultimately show "decode_base64 s = Some bs"
    unfolding decode_base64_def using s by (simp only: if_False) simp
qed

text \<open>
  Base64 is exact in both directions: a text decodes to some bytes exactly when it is
  the encoding of them and they are not empty, so every chunk sent is received unchanged
  and no second spelling of a chunk is accepted.
\<close>

theorem base64_round_trip:
  "decode_base64 s = Some bs \<longleftrightarrow> bs \<noteq> [] \<and> s = encode_base64 bs"
  by (rule base64_exact)

section \<open>Frames\<close>

lemma be_round_trip: "n < 4294967296 \<Longrightarrow> from_be_bytes (to_be_bytes n) = n"
proof -
  assume n: "n < 4294967296"
  define a where "a = n div 256"
  define b where "b = a div 256"
  define c where "c = b div 256"
  have ab: "n div 65536 = b" "n div 16777216 = c" by (simp_all add: a_def b_def c_def div_mult2_eq [symmetric])
  have c: "c < 256" using n ab(2) by linarith
  have "from_be_bytes (to_be_bytes n) = ((c mod 256 * 256 + b mod 256) * 256 + a mod 256) * 256 + n mod 256"
    by (simp add: from_be_bytes_def to_be_bytes_def unat_of_nat ab a_def [symmetric])
  also have "c mod 256 * 256 + b mod 256 = b" using c div_mult_mod_eq [of b 256] by (simp add: c_def)
  also have "b * 256 + a mod 256 = a" using div_mult_mod_eq [of a 256] by (simp add: b_def)
  also have "a * 256 + n mod 256 = n" using div_mult_mod_eq [of n 256] by (simp add: a_def)
  finally show ?thesis .
qed

lemma type_name_known: "type_name m \<in> set known_types"
  by (cases m) (simp_all only: type_name.simps known_types_def list.set insert_iff refl simp_thms)

text \<open>What the code relies on in serde_json for one message: it is written, and read back.\<close>

definition json_round :: "'j wire_json \<Rightarrow> message \<Rightarrow> byte list \<Rightarrow> bool" where
  "json_round js m p =
     (to_vec js m = Some p \<and> p \<noteq> [] \<and>
      (\<exists>v. from_slice js p = Some v \<and> type_field js v = Some (type_name m) \<and> from_value js v = Some m))"

lemma read_frame_encode:
  assumes "to_vec js m = Some p" "p \<noteq> []" "encode_frame js m = Inr f"
  shows "read_frame \<lparr>bytes_left = f @ rest, then_fails = b\<rparr> = Inr (Inr p, \<lparr>bytes_left = rest, then_fails = b\<rparr>)"
proof -
  have len: "length p \<le> MAX_FRAME_LEN" and f: "f = to_be_bytes (length p) @ p"
    using assms by (auto simp: encode_frame_def encode_payload_def split: if_splits)
  have be: "from_be_bytes (to_be_bytes (length p)) = length p"
    using len by (intro be_round_trip) (simp add: MAX_FRAME_LEN_def)
  have four: "length (to_be_bytes n) = 4" for n by (simp add: to_be_bytes_def)
  then have "read_exact \<lparr>bytes_left = f @ rest, then_fails = b\<rparr> 4 =
      Inr (to_be_bytes (length p), \<lparr>bytes_left = p @ rest, then_fails = b\<rparr>)"
    by (simp add: read_exact_def f)
  with be len assms(2) show ?thesis
    by (simp add: read_frame_def Let_def read_exact_def)
qed

text \<open>
  C29: What one side frames, the other reads: for a legal message that fits the frame limit
  the reader takes exactly the frame from the stream, whatever follows it, and decodes the
  message.
\<close>

theorem frame_round_trip:
  assumes "json_round js m p" "validate_message m = Inr ()" "length p \<le> MAX_FRAME_LEN"
  shows "\<exists>f. encode_frame js m = Inr f \<and>
    read_frame \<lparr>bytes_left = f @ rest, then_fails = b\<rparr> = Inr (Inr p, \<lparr>bytes_left = rest, then_fails = b\<rparr>) \<and>
    decode_payload js p = Inr m"
proof -
  have p: "to_vec js m = Some p" "p \<noteq> []" using assms(1) by (auto simp: json_round_def)
  then obtain f where f: "encode_frame js m = Inr f" using assms(3) by (simp add: encode_frame_def encode_payload_def)
  have "decode_payload js p = Inr m"
    using assms(1,2) type_name_known [of m] by (auto simp: json_round_def decode_payload_def)
  with f read_frame_encode [OF p f] show ?thesis by blast
qed

text \<open>A codec that knows the message \<open>pty-detach\<close> only.\<close>

definition detach_json :: "unit wire_json" where
  "detach_json = \<lparr>to_vec = (\<lambda>m. if m = PtyDetach then Some [123, 125] else None),
     from_slice = (\<lambda>p. Some ()), type_field = (\<lambda>v. Some ''pty-detach''), from_value = (\<lambda>v. Some PtyDetach)\<rparr>"

theorem frame_round_trip_witness:
  "\<exists>f. encode_frame detach_json PtyDetach = Inr f \<and>
    read_frame \<lparr>bytes_left = f @ [1, 2], then_fails = False\<rparr> =
      Inr (Inr [123, 125], \<lparr>bytes_left = [1, 2], then_fails = False\<rparr>) \<and>
    decode_payload detach_json [123, 125] = Inr PtyDetach"
  using frame_round_trip [of detach_json PtyDetach "[123, 125]" "[1, 2]" False]
  by (simp add: json_round_def detach_json_def MAX_FRAME_LEN_def)

section \<open>Negotiation\<close>

text \<open>
  The helper welcomes exactly the legal requests: the first message must be a hello of
  protocol version 1 with a legal client version, a nonce of 32 bytes in hexadecimal, at
  most eight legal capabilities and a frame limit that can carry the answer; the welcome
  echoes the nonce, announces the frame limit, and selects the supported capabilities the
  client asked for, in the order of the server.
\<close>

theorem negotiate_welcomes_legal:
  "negotiate js m = Welcome v n cs l \<longleftrightarrow>
     (\<exists>cv caps limit. m = Hello PROTOCOL_VERSION cv n caps limit \<and> client_version_is_legal cv \<and> nonce_is_legal n \<and>
        length caps \<le> MAX_CAPABILITIES \<and>
        list_all (\<lambda>c. c \<noteq> [] \<and> length c \<le> MAX_CAPABILITY_LEN \<and> capability_is_legal c) caps \<and>
        (case encode_payload js (Welcome PROTOCOL_VERSION n (filter (\<lambda>c. c \<in> set caps) SUPPORTED_CAPABILITIES) MAX_FRAME_LEN) of
           Some p \<Rightarrow> length p mod 4294967296 \<le> limit | None \<Rightarrow> 4294967295 \<le> limit) \<and>
        v = PROTOCOL_VERSION \<and> l = MAX_FRAME_LEN \<and> cs = filter (\<lambda>c. c \<in> set caps) SUPPORTED_CAPABILITIES)"
proof (cases m)
  case (Hello pv cv nonce caps limit)
  have ex: "list_ex (\<lambda>c. c = [] \<or> length c > MAX_CAPABILITY_LEN \<or> \<not> capability_is_legal c) caps \<longleftrightarrow>
      \<not> list_all (\<lambda>c. c \<noteq> [] \<and> length c \<le> MAX_CAPABILITY_LEN \<and> capability_is_legal c) caps"
    by (auto simp: list_ex_iff list_all_iff not_le)
  show ?thesis
    unfolding Hello negotiate.simps ex Let_def selected_capabilities_def
    by (auto simp: reject_def not_less split: option.splits)
qed (auto simp: reject_def)

section \<open>Replies\<close>

lemma boundary_le: "boundary_before s n \<le> n"
  by (induction n) auto

lemma truncate_fits: "length (truncate_detail d) \<le> MAX_REJECT_DETAIL_BYTES"
  using boundary_le [of d MAX_REJECT_DETAIL_BYTES] by (auto simp: truncate_detail_def)

lemma reject_valid [simp]: "validate_message (reject c d) = Inr ()"
  using truncate_fits [of d] by (simp add: reject_def)

definition is_reject :: "message \<Rightarrow> bool" where
  "is_reject m = (\<exists>c d. m = Reject c d)"

definition is_welcome :: "message \<Rightarrow> bool" where
  "is_welcome m = (\<exists>v n cs l. m = Welcome v n cs l)"

lemma is_reject_reject [simp]: "is_reject (reject c d)"
  by (simp add: is_reject_def reject_def)

lemma negotiate_reply: "(is_reject (negotiate js m) \<or> is_welcome (negotiate js m)) \<and> validate_message (negotiate js m) = Inr ()"
  by (cases m) (auto simp: Let_def is_welcome_def)

lemma decode_reject: "decode_payload js p = Inl m \<Longrightarrow> is_reject m \<and> validate_message m = Inr ()"
  by (auto simp: decode_payload_def split: option.splits if_splits sum.splits)

lemma respond_reject: "is_reject (respond_after_negotiation js p) \<and> validate_message (respond_after_negotiation js p) = Inr ()"
proof (cases "decode_payload js p")
  case (Inl m)
  with decode_reject [OF Inl] show ?thesis by (simp add: respond_after_negotiation_def)
next
  case (Inr m)
  then show ?thesis by (cases m) (simp_all add: respond_after_negotiation_def)
qed

lemma read_frame_reject: "read_frame r = Inr (Inl m, r') \<Longrightarrow> is_reject m \<and> validate_message m = Inr ()"
  by (auto simp: read_frame_def Let_def split: sum.splits if_splits wire_error.splits)

definition framed :: "'j wire_json \<Rightarrow> message list \<Rightarrow> byte list \<Rightarrow> bool" where
  "framed js ms out = (\<exists>fs. list_all2 (\<lambda>m f. encode_frame js m = Inr f) ms fs \<and> out = concat fs)"

lemma framed_append: "framed js ms out \<Longrightarrow> encode_frame js m = Inr f \<Longrightarrow> framed js (ms @ [m]) (out @ f)"
proof -
  assume "framed js ms out" and f: "encode_frame js m = Inr f"
  then obtain fs where "list_all2 (\<lambda>m f. encode_frame js m = Inr f) ms fs" "out = concat fs" by (auto simp: framed_def)
  with f show ?thesis
    unfolding framed_def by (intro exI [of _ "fs @ [f]"]) (simp add: list_all2_appendI)
qed

definition good_replies :: "message list \<Rightarrow> bool" where
  "good_replies ms = (list_all is_reject ms \<and> list_all (\<lambda>m. validate_message m = Inr ()) ms)"

text \<open>
  What is written: whole frames, and after them, if the writer failed, the bytes of one more that
  it took.
\<close>

definition wrote :: "'j wire_json \<Rightarrow> frame_writer \<Rightarrow> message list \<Rightarrow> byte list \<times> (wire_error + unit) \<Rightarrow> bool" where
  "wrote js wr ms res =
     (\<exists>out rest. fst res = out @ rest \<and> framed js ms out \<and>
       (rest = [] \<or> (\<exists>n m f. wr (length ms) = Some n \<and> encode_frame js m = Inr f \<and> rest = take n f \<and>
          validate_message m = Inr () \<and> (ms \<noteq> [] \<longrightarrow> is_reject m) \<and> snd res = Inl WriteFailed)))"

lemma wroteI: "framed js ms out \<Longrightarrow> wrote js wr ms (out, x)"
  unfolding wrote_def by (intro exI [of _ out] exI [of _ "[]"]) simp

lemma write_frame_wrote:
  assumes "framed js ms out" "validate_message m = Inr ()" "ms \<noteq> [] \<longrightarrow> is_reject m"
  obtains f where "write_frame js wr (length ms) m out = (out @ f, Inr ())" "framed js (ms @ [m]) (out @ f)"
  | out' e where "write_frame js wr (length ms) m out = (out', Inl e)" "wrote js wr ms (out', Inl e)"
proof (cases "encode_frame js m")
  case (Inl e)
  then show ?thesis using that(2) wroteI [OF assms(1)] by (simp add: write_frame_def)
next
  case (Inr f)
  show ?thesis
  proof (cases "wr (length ms)")
    case None
    then show ?thesis using that(1) framed_append [OF assms(1) Inr] Inr by (simp add: write_frame_def)
  next
    case (Some n)
    have "wrote js wr ms (out @ take n f, Inl WriteFailed)"
      unfolding wrote_def using assms Inr Some by (intro exI [of _ out] exI [of _ "take n f"]) auto
    then show ?thesis using that(2) Inr Some by (simp add: write_frame_def)
  qed
qed

lemma serve_loop_replies:
  "framed js ms out \<Longrightarrow> k = length ms \<Longrightarrow> \<exists>more. wrote js wr (ms @ more) (serve_loop js wr k r out) \<and> good_replies more"
proof (induction js wr k r out arbitrary: ms rule: serve_loop.induct)
  case (1 js wr k r out)
  have stop: "\<exists>more. wrote js wr (ms @ more) (out', x) \<and> good_replies more" if "wrote js wr ms (out', x)" for out' x
    using that by (intro exI [of _ "[]"]) (simp add: good_replies_def)
  have more: "\<exists>more. wrote js wr (ms @ more) res \<and> good_replies more"
    if m: "is_reject m \<and> validate_message m = Inr ()" "\<exists>more. wrote js wr ((ms @ [m]) @ more) res \<and> good_replies more" for m res
  proof -
    obtain more where "wrote js wr ((ms @ [m]) @ more) res" "good_replies more" using m(2) by blast
    with m(1) show ?thesis by (intro exI [of _ "m # more"]) (simp add: good_replies_def)
  qed
  show ?case
  proof (cases "read_frame r")
    case (Inl e)
    with 1(4) stop wroteI [OF 1(3)] show ?thesis by (cases e) (simp_all add: serve_loop.simps [of js wr "length ms" r out])
  next
    case (Inr x)
    obtain y r' where x: "x = (y, r')" by fastforce
    show ?thesis
    proof (cases y)
      case (Inl rej)
      note rr = read_frame_reject [OF Inr [unfolded x Inl]]
      from 1(3) rr [THEN conjunct2] show ?thesis
      proof (rule write_frame_wrote [where wr = wr])
        show "ms \<noteq> [] \<longrightarrow> is_reject rej" using rr by simp
      next
        fix f assume f: "write_frame js wr (length ms) rej out = (out @ f, Inr ())" "framed js (ms @ [rej]) (out @ f)"
        show ?thesis
        proof (cases "case rej of Reject Oversized _ \<Rightarrow> True | _ \<Rightarrow> False")
          case True
          have "wrote js wr (ms @ [rej]) (out @ f, Inr ())" by (rule wroteI [OF f(2)])
          with True f(1) Inr x \<open>y = Inl rej\<close> rr 1(4) show ?thesis
            by (intro exI [of _ "[rej]"]) (simp add: serve_loop.simps [of js wr "length ms" r out] good_replies_def)
        next
          case False
          have "\<exists>more. wrote js wr ((ms @ [rej]) @ more) (serve_loop js wr (k + 1) r' (out @ f)) \<and> good_replies more"
            by (rule 1(1) [OF Inr x [symmetric] \<open>y = Inl rej\<close> f(1) [folded 1(4), symmetric] refl False f(2)]) (simp add: 1(4))
          from more [OF rr this] False f(1) Inr x \<open>y = Inl rej\<close> 1(4)
          show ?thesis by (simp add: serve_loop.simps [of js wr "length ms" r out])
        qed
      next
        fix out' e assume "write_frame js wr (length ms) rej out = (out', Inl e)" "wrote js wr ms (out', Inl e)"
        with stop Inr x \<open>y = Inl rej\<close> 1(4) show ?thesis by (simp add: serve_loop.simps [of js wr "length ms" r out])
      qed
    next
      case p: (Inr payload)
      let ?m = "respond_after_negotiation js payload"
      note rr = respond_reject [of js payload]
      from 1(3) rr [THEN conjunct2] show ?thesis
      proof (rule write_frame_wrote [where wr = wr])
        show "ms \<noteq> [] \<longrightarrow> is_reject ?m" using rr by simp
      next
        fix f assume f: "write_frame js wr (length ms) ?m out = (out @ f, Inr ())" "framed js (ms @ [?m]) (out @ f)"
        have "\<exists>more. wrote js wr ((ms @ [?m]) @ more) (serve_loop js wr (k + 1) r' (out @ f)) \<and> good_replies more"
          by (rule 1(2) [OF Inr x [symmetric] p f(1) [folded 1(4), symmetric] refl f(2)]) (simp add: 1(4))
        from more [OF rr this] f(1) Inr x p 1(4)
        show ?thesis by (simp add: serve_loop.simps [of js wr "length ms" r out])
      next
        fix out' e assume "write_frame js wr (length ms) ?m out = (out', Inl e)" "wrote js wr ms (out', Inl e)"
        with stop Inr x p 1(4) show ?thesis by (simp add: serve_loop.simps [of js wr "length ms" r out])
      qed
    qed
  qed
qed

lemma serve_stdio_wrote:
  "\<exists>ms. wrote js wr ms (serve_stdio js wr r) \<and> list_all (\<lambda>m. validate_message m = Inr ()) ms \<and> list_all is_reject (tl ms) \<and>
     (length ms \<le> 1 \<or> is_welcome (hd ms)) \<and> (ms \<noteq> [] \<longrightarrow> snd (serve_stdio js wr r) = Inr () \<or> is_welcome (hd ms))"
proof -
  have nil: "framed js [] []" by (simp add: framed_def)
  show ?thesis
  proof (cases "read_frame r")
    case (Inl e)
    with wroteI [OF nil] show ?thesis by (intro exI [of _ "[]"]) (simp add: serve_stdio_def)
  next
    case (Inr x)
    obtain y r' where x: "x = (y, r')" by fastforce
    define reply where "reply = (case y of Inl rej \<Rightarrow> rej
      | Inr first \<Rightarrow> (case decode_payload js first of Inr m \<Rightarrow> negotiate js m | Inl rej \<Rightarrow> rej))"
    have valid: "validate_message reply = Inr ()"
      using read_frame_reject [of r] Inr x decode_reject [of js] negotiate_reply [of js]
      by (auto simp: reply_def split: sum.split)
    from nil valid show ?thesis
    proof (rule write_frame_wrote [where wr = wr])
      show "[] \<noteq> [] \<longrightarrow> is_reject reply" by simp
    next
      fix out' e assume w: "write_frame js wr (length []) reply [] = (out', Inl e)" "wrote js wr [] (out', Inl e)"
      have "serve_stdio js wr r = (out', Inl e)"
        using w(1) Inr x by (cases y) (simp_all add: serve_stdio_def reply_def)
      with w(2) show ?thesis by (intro exI [of _ "[]"]) simp
    next
      fix f assume w: "write_frame js wr (length []) reply [] = ([] @ f, Inr ())" "framed js ([] @ [reply]) ([] @ f)"
      show ?thesis
      proof (cases "\<exists>first. y = Inr first \<and> is_welcome reply")
        case True
        from serve_loop_replies [OF w(2), of 1 wr r'] obtain more where
          m: "wrote js wr ([reply] @ more) (serve_loop js wr 1 r' f)" "good_replies more" by auto
        have "serve_stdio js wr r = serve_loop js wr 1 r' f"
          using True w(1) Inr x by (auto simp: serve_stdio_def reply_def is_welcome_def)
        with m show ?thesis
          using valid True by (intro exI [of _ "reply # more"]) (simp add: good_replies_def)
      next
        case False
        then have "serve_stdio js wr r = (f, Inr ())"
          using w(1) Inr x by (cases y) (auto simp: serve_stdio_def reply_def is_welcome_def split: message.splits)
        with wroteI [OF w(2)] valid show ?thesis by (intro exI [of _ "[reply]"]) simp
      qed
    qed
  qed
qed

text \<open>
  C28: Whatever bytes a peer sends, the server returns, and what it writes is a sequence of
  whole frames of valid messages: one reply to the first frame, and after it, only if that
  reply was a welcome, rejections; it never accepts a second negotiation or a terminal command.
  Bytes of a further frame (\<open>rest\<close>) follow only when the writer fails on that frame: it is of the
  next message, which is valid and, after the first, a rejection, and the server ends with the
  error of the writer.
\<close>

theorem serve_stdio_only_rejects:
  "\<exists>ms out rest. fst (serve_stdio js wr r) = out @ rest \<and> framed js ms out \<and> list_all (\<lambda>m. validate_message m = Inr ()) ms \<and>
     list_all is_reject (tl ms) \<and> (length ms \<le> 1 \<or> is_welcome (hd ms)) \<and>
     (rest = [] \<or> (\<exists>n m f. wr (length ms) = Some n \<and> encode_frame js m = Inr f \<and> rest = take n f \<and>
        validate_message m = Inr () \<and> (ms = [] \<or> is_reject m \<and> is_welcome (hd ms)) \<and>
        snd (serve_stdio js wr r) = Inl WriteFailed))"
proof -
  obtain ms where ms: "wrote js wr ms (serve_stdio js wr r)" "list_all (\<lambda>m. validate_message m = Inr ()) ms" "list_all is_reject (tl ms)"
    "length ms \<le> 1 \<or> is_welcome (hd ms)" "ms \<noteq> [] \<longrightarrow> snd (serve_stdio js wr r) = Inr () \<or> is_welcome (hd ms)"
    using serve_stdio_wrote by blast
  from ms(1) obtain out rest where w: "fst (serve_stdio js wr r) = out @ rest" "framed js ms out"
    "rest = [] \<or> (\<exists>n m f. wr (length ms) = Some n \<and> encode_frame js m = Inr f \<and> rest = take n f \<and>
       validate_message m = Inr () \<and> (ms \<noteq> [] \<longrightarrow> is_reject m) \<and> snd (serve_stdio js wr r) = Inl WriteFailed)"
    unfolding wrote_def by blast
  have "rest = [] \<or> (\<exists>n m f. wr (length ms) = Some n \<and> encode_frame js m = Inr f \<and> rest = take n f \<and>
       validate_message m = Inr () \<and> (ms = [] \<or> is_reject m \<and> is_welcome (hd ms)) \<and> snd (serve_stdio js wr r) = Inl WriteFailed)"
    using w(3) ms(5) by auto
  then show ?thesis using w(1,2) ms(2,3,4) by blast
qed

end
