(* ===== verification/Graph.thy ===== *)
theory Graph
  imports Ordered "HOL-Library.Product_Lexorder"
begin

text \<open>
  The git graph (\<open>src/git-graph/src\<close>): the commit log, the assignment of lanes to the
  commits in the order of the log, the segments between rows, and the layout with its lane
  spans and merge markers. Branch ids are 64-bit counters; a panic of
  \<open>assert_unique_expectations\<close> or of an index is \<open>None\<close>. The floating-point drawing of
  \<open>render.rs\<close> is left out, its bridges and its escaping of text are here.
\<close>

section \<open>Commits\<close>

record commit =
  cm_id :: string
  cm_parents :: "string list"
  cm_message :: string

datatype commit_kind = KHead | KMerge | KNormal

definition commit_kind_of :: "commit \<Rightarrow> bool \<Rightarrow> commit_kind" where
  "commit_kind_of c is_head =
     (if is_head then KHead else if 2 \<le> length (cm_parents c) then KMerge else KNormal)"

definition parse_log_line :: "string \<Rightarrow> commit option" where
  "parse_log_line line =
     (let trimmed = trim line
      in if trimmed = [] then None
         else case split_whitespace trimmed of
           [] \<Rightarrow> None
         | cid # ps \<Rightarrow> Some \<lparr>cm_id = cid, cm_parents = ps, cm_message = take 12 cid\<rparr>)"

definition parse_stdin_log :: "string \<Rightarrow> commit list" where
  "parse_stdin_log input = List.map_filter parse_log_line (text_lines input)"

section \<open>Lanes\<close>

definition wrap64 :: "nat \<Rightarrow> nat" where
  [arith16]: "wrap64 n = n mod 18446744073709551616"

record lane =
  ln_branch :: nat
  ln_expecting :: string

record row =
  rw_commit :: commit
  rw_commit_lane :: nat
  rw_in :: "lane list"
  rw_out :: "lane list"

text \<open>\<open>assert_unique_expectations\<close>: whether the assertion holds of every lane.\<close>

fun all_fresh :: "lane list \<Rightarrow> string list \<Rightarrow> bool" where
  "all_fresh [] seen = True"
| "all_fresh (l # ls) seen = (ln_expecting l \<notin> set seen \<and> all_fresh ls (ln_expecting l # seen))"

definition assert_unique_expectations :: "lane list \<Rightarrow> unit option" where
  "assert_unique_expectations ls = (if all_fresh ls [] then Some () else None)"

text \<open>The lane of a commit: the one that waits for it, or a new one at the right.\<close>

definition claim_lane :: "commit \<Rightarrow> lane list \<Rightarrow> nat \<Rightarrow> nat \<times> lane list \<times> nat" where
  "claim_lane c active nxt =
     (case position (\<lambda>l. ln_expecting l = cm_id c) active of
        Some i \<Rightarrow> (i, active, nxt)
      | None \<Rightarrow>
          (length active, active @ [\<lparr>ln_branch = nxt, ln_expecting = cm_id c\<rparr>], wrap64 (nxt + 1)))"

text \<open>The commit's lane goes on to the first parent, or ends.\<close>

definition advance_lane :: "commit \<Rightarrow> nat \<Rightarrow> lane list \<Rightarrow> lane list option" where
  "advance_lane c commit_lane active =
     (case get active commit_lane of
        None \<Rightarrow> None
      | Some own \<Rightarrow>
          (case cm_parents c of
             [] \<Rightarrow> Some (drop_nth commit_lane active)
           | first # _ \<Rightarrow>
               if position (\<lambda>l. ln_expecting l = first \<and> ln_branch l \<noteq> ln_branch own) active \<noteq> None
               then Some (drop_nth commit_lane active)
               else Some (active[commit_lane := own\<lparr>ln_expecting := first\<rparr>])))"

text \<open>The other parents get a lane each, unless one waits for them already.\<close>

fun open_parents :: "string list \<Rightarrow> lane list \<Rightarrow> nat \<Rightarrow> lane list \<times> nat" where
  "open_parents [] active nxt = (active, nxt)"
| "open_parents (p # ps) active nxt =
     (if list_all (\<lambda>l. ln_expecting l \<noteq> p) active
      then open_parents ps (active @ [\<lparr>ln_branch = nxt, ln_expecting = p\<rparr>]) (wrap64 (nxt + 1))
      else open_parents ps active nxt)"

fun assign_loop :: "commit list \<Rightarrow> lane list \<Rightarrow> nat \<Rightarrow> row list option" where
  "assign_loop [] active nxt = Some []"
| "assign_loop (c # cs) active nxt =
     (let (commit_lane, lanes_in, nxt1) = claim_lane c active nxt
      in do {
        _ \<leftarrow> assert_unique_expectations lanes_in;
        moved \<leftarrow> advance_lane c commit_lane lanes_in;
        (let (lanes_out, nxt2) = open_parents (drop 1 (cm_parents c)) moved nxt1
         in do {
           _ \<leftarrow> assert_unique_expectations lanes_out;
           rest \<leftarrow> assign_loop cs lanes_out nxt2;
           Some (\<lparr>rw_commit = c, rw_commit_lane = commit_lane, rw_in = lanes_in, rw_out = lanes_out\<rparr> # rest)
         })
      })"

definition assign_lanes :: "commit list \<Rightarrow> row list option" where
  "assign_lanes commits = assign_loop commits [] 0"

section \<open>Segments between two rows\<close>

datatype segment_kind = Straight | ShiftRight | ShiftLeft | Spawn | Absorb

record segment =
  sg_branch :: nat
  sg_kind :: segment_kind
  sg_col_in :: "nat option"
  sg_col_out :: "nat option"

fun segment_kind_of :: "nat option \<Rightarrow> nat option \<Rightarrow> segment_kind option" where
  "segment_kind_of (Some a) (Some b) =
     Some (if a = b then Straight else if a < b then ShiftRight else ShiftLeft)"
| "segment_kind_of None (Some b) = Some Spawn"
| "segment_kind_of (Some a) None = Some Absorb"
| "segment_kind_of None None = None"

definition segment_of :: "lane list \<Rightarrow> lane list \<Rightarrow> nat \<Rightarrow> segment option" where
  "segment_of out next_in b =
     (let col_in = position (\<lambda>l. ln_branch l = b) out;
          col_out = position (\<lambda>l. ln_branch l = b) next_in
      in map_option (\<lambda>k. \<lparr>sg_branch = b, sg_kind = k, sg_col_in = col_in, sg_col_out = col_out\<rparr>)
           (segment_kind_of col_in col_out))"

definition build_segments :: "lane list \<Rightarrow> lane list \<Rightarrow> commit \<Rightarrow> nat \<Rightarrow> segment list option" where
  "build_segments out next_in next_commit next_commit_lane =
     those (map (segment_of out next_in) (sort (remdups (map ln_branch (out @ next_in)))))"

section \<open>Layout\<close>

record lane_span =
  sp_branch :: nat
  sp_col :: nat
  sp_start :: nat
  sp_end :: nat

record merge_marker =
  mm_row :: nat
  mm_from :: nat
  mm_to :: nat
  mm_color :: nat

record graph_layout =
  gl_rows :: "row list"
  gl_spans :: "lane_span list"
  gl_markers :: "merge_marker list"

type_synonym open_spans = "(nat \<times> nat \<times> nat) list"

definition push_lane_span :: "lane_span list \<Rightarrow> nat \<Rightarrow> nat \<Rightarrow> nat \<Rightarrow> nat \<Rightarrow> lane_span list" where
  "push_lane_span spans b col start_row end_row =
     (if start_row = end_row then spans
      else spans @ [\<lparr>sp_branch = b, sp_col = col, sp_start = start_row, sp_end = end_row\<rparr>])"

fun open_lanes :: "nat \<Rightarrow> nat \<Rightarrow> lane list \<Rightarrow> open_spans \<Rightarrow> open_spans" where
  "open_lanes k col [] active = active"
| "open_lanes k col (l # ls) active =
     open_lanes k (Suc col) ls
       (case map_of active (ln_branch l) of
          Some _ \<Rightarrow> active
        | None \<Rightarrow> tree_insert (ln_branch l) (k, col) active)"

fun shift_lanes :: "nat \<Rightarrow> nat \<Rightarrow> lane list \<Rightarrow> open_spans \<Rightarrow> lane_span list \<Rightarrow> open_spans \<times> lane_span list" where
  "shift_lanes k col [] active spans = (active, spans)"
| "shift_lanes k col (l # ls) active spans =
     (case map_of active (ln_branch l) of
        Some (start_row, active_col) \<Rightarrow>
          if active_col \<noteq> col
          then shift_lanes k (Suc col) ls (tree_insert (ln_branch l) (k + 1, col) active)
                 (push_lane_span spans (ln_branch l) active_col start_row k)
          else shift_lanes k (Suc col) ls active spans
      | None \<Rightarrow> shift_lanes k (Suc col) ls (tree_insert (ln_branch l) (k + 1, col) active) spans)"

fun close_lanes :: "nat \<Rightarrow> nat list \<Rightarrow> open_spans \<Rightarrow> lane_span list \<Rightarrow> open_spans \<times> lane_span list" where
  "close_lanes k [] active spans = (active, spans)"
| "close_lanes k (b # bs) active spans =
     (case map_of active b of
        Some (start_row, col) \<Rightarrow>
          close_lanes k bs (tree_remove b active) (push_lane_span spans b col start_row k)
      | None \<Rightarrow> close_lanes k bs active spans)"

definition dead_ids :: "open_spans \<Rightarrow> lane list \<Rightarrow> nat list" where
  "dead_ids active out = filter (\<lambda>b. b \<notin> set (map ln_branch out)) (map fst active)"

fun span_loop :: "nat \<Rightarrow> row list \<Rightarrow> open_spans \<Rightarrow> lane_span list \<Rightarrow> open_spans \<times> lane_span list" where
  "span_loop k [] active spans = (active, spans)"
| "span_loop k (r # rs) active spans =
     (let opened = open_lanes k 0 (rw_in r) active;
          (moved, spans1) = shift_lanes k 0 (rw_out r) opened spans;
          (kept, spans2) = close_lanes k (dead_ids moved (rw_out r)) moved spans1
      in span_loop (Suc k) rs kept spans2)"

definition close_rest :: "nat \<Rightarrow> open_spans \<Rightarrow> lane_span list \<Rightarrow> lane_span list" where
  "close_rest end_row active spans =
     foldl (\<lambda>acc (b, start_row, col). push_lane_span acc b col start_row end_row) spans active"

definition span_key :: "lane_span \<Rightarrow> nat \<times> nat \<times> nat \<times> nat" where
  "span_key s = (sp_start s, sp_col s, sp_branch s, sp_end s)"

definition build_lane_spans :: "row list \<Rightarrow> lane_span list" where
  "build_lane_spans rows =
     (let (active, spans) = span_loop 0 rows [] []
      in sort_key span_key (close_rest (length rows) active spans))"

definition merge_marker_of :: "nat \<Rightarrow> row \<Rightarrow> string \<Rightarrow> merge_marker option" where
  "merge_marker_of k r p =
     (case position (\<lambda>l. ln_expecting l = p) (rw_out r) of
        None \<Rightarrow> None
      | Some from_col \<Rightarrow>
          if from_col \<noteq> rw_commit_lane r
          then Some \<lparr>mm_row = k, mm_from = from_col, mm_to = rw_commit_lane r,
                     mm_color = ln_branch (rw_out r ! from_col)\<rparr>
          else None)"

fun marker_loop :: "nat \<Rightarrow> row list \<Rightarrow> merge_marker list" where
  "marker_loop k [] = []"
| "marker_loop k (r # rs) =
     (if length (cm_parents (rw_commit r)) < 2 then []
      else List.map_filter (merge_marker_of k r) (drop 1 (cm_parents (rw_commit r)))) @ marker_loop (Suc k) rs"

definition build_merge_markers :: "row list \<Rightarrow> merge_marker list" where
  "build_merge_markers rows = marker_loop 0 rows"

definition build_layout :: "row list \<Rightarrow> graph_layout" where
  "build_layout rows =
     \<lparr>gl_rows = rows, gl_spans = build_lane_spans rows, gl_markers = build_merge_markers rows\<rparr>"

section \<open>Drawing\<close>

text \<open>A bridge: its columns at the two ends, the row it starts from and its branch.\<close>

type_synonym bridge = "nat \<times> nat \<times> nat \<times> nat"

definition lane_bridge :: "nat \<Rightarrow> row \<Rightarrow> nat \<Rightarrow> nat \<Rightarrow> bridge option" where
  "lane_bridge k r current col_in =
     (let b = ln_branch (rw_in r ! col_in)
      in if b = current then None
         else case position (\<lambda>l. ln_branch l = b) (rw_out r) of
           None \<Rightarrow> None
         | Some col_out \<Rightarrow> if col_in \<noteq> col_out then Some (col_in, col_out, k, b) else None)"

definition parent_bridge :: "nat \<Rightarrow> row \<Rightarrow> nat \<Rightarrow> nat \<Rightarrow> bridge option" where
  "parent_bridge k r current parent_index =
     (case position (\<lambda>l. ln_expecting l = cm_parents (rw_commit r) ! parent_index) (rw_out r) of
        None \<Rightarrow> None
      | Some col_out \<Rightarrow>
          let b = (if parent_index = 0 then current else ln_branch (rw_out r ! col_out))
          in if rw_commit_lane r \<noteq> col_out then Some (rw_commit_lane r, col_out, k, b) else None)"

definition render_lane_bridges :: "row \<Rightarrow> nat \<Rightarrow> bridge list" where
  "render_lane_bridges r k =
     (if rw_in r = [] \<or> length (rw_in r) \<le> rw_commit_lane r then []
      else let current = ln_branch (rw_in r ! rw_commit_lane r)
           in List.map_filter (lane_bridge k r current) [0 ..< length (rw_in r)] @
              List.map_filter (parent_bridge k r current) [0 ..< length (cm_parents (rw_commit r))])"

definition max_lanes :: "graph_layout \<Rightarrow> nat" where
  "max_lanes g =
     (let ns = concat (map (\<lambda>r. [length (rw_in r), length (rw_out r), rw_commit_lane r + 1]) (gl_rows g)) @
               map (\<lambda>s. sp_col s + 1) (gl_spans g) @ map (\<lambda>m. mm_from m + 1) (gl_markers g) @
               map (\<lambda>m. mm_to m + 1) (gl_markers g)
      in if ns = [] then 1 else fold max ns 0)"

definition short_hash :: "string \<Rightarrow> string" where
  "short_hash cid = (if length cid < 7 then cid else take 7 cid)"

text \<open>\<open>str::replace\<close> of one character by a text\<close>

definition replace_char :: "char \<Rightarrow> string \<Rightarrow> string \<Rightarrow> string" where
  "replace_char c by s = concat (map (\<lambda>x. if x = c then by else [x]) s)"

definition escape_xml :: "string \<Rightarrow> string" where
  "escape_xml v =
     replace_char (char_of (34::nat)) ''&quot;''
       (replace_char (CHR ''>'') ''&gt;'' (replace_char (CHR ''<'') ''&lt;'' (replace_char (CHR ''&'') ''&amp;'' v)))"

definition PALETTE :: "string list" where
  "PALETTE = [''#EF9F27'', ''#D4537E'', ''#378ADD'', ''#1D9E75'', ''#7F77DD'', ''#D85A30'', ''#639922'', ''#A32D2D'']"

definition color_for :: "nat \<Rightarrow> string" where
  "color_for b = PALETTE ! (b mod length PALETTE)"

text \<open>The program: the log is parsed and cut, the lanes assigned, the layout built.\<close>

definition graph_of_log :: "string \<Rightarrow> nat \<Rightarrow> graph_layout option" where
  "graph_of_log input maxc = map_option build_layout (assign_lanes (take maxc (parse_stdin_log input)))"

end
