(* ===== verification/Graph_Props.thy ===== *)
theory Graph_Props
  imports Graph
begin

text \<open>
  What holds of the git graph: the assignment of lanes never panics and keeps, row after row,
  the lanes the commits still to come will need; the spans of the layout cover exactly the
  stretches where a lane goes straight on; every merge has its markers.
\<close>

section \<open>Lists of lanes\<close>

abbreviation exps :: "lane list \<Rightarrow> string list" where
  "exps ls \<equiv> map ln_expecting ls"

abbreviation brs :: "lane list \<Rightarrow> nat list" where
  "brs ls \<equiv> map ln_branch ls"

lemma map_drop_nth: "map f (drop_nth i xs) = drop_nth i (map f xs)"
  by (simp add: drop_nth_def take_map drop_map)

lemma distinct_drop_nth: "distinct xs \<Longrightarrow> distinct (drop_nth i xs)"
  unfolding drop_nth_def
  by (simp add: set_take_disj_set_drop_if_distinct)

lemma set_drop_nth:
  assumes "distinct xs" "i < length xs"
  shows "set (drop_nth i xs) = set xs - {xs ! i}"
proof -
  have xs: "xs = take i xs @ xs ! i # drop (Suc i) xs"
    using assms(2) by (rule id_take_nth_drop)
  with assms(1) have "distinct (take i xs @ xs ! i # drop (Suc i) xs)" by metis
  moreover have "set xs = set (take i xs) \<union> insert (xs ! i) (set (drop (Suc i) xs))"
    by (subst xs) simp
  ultimately show ?thesis
    by (auto simp: drop_nth_def)
qed

lemma position_exp:
  assumes "position (\<lambda>l. ln_expecting l = e) ls = Some i"
  shows "i < length ls \<and> ln_expecting (ls ! i) = e"
  using position_Some [OF assms] by simp

lemma all_fresh_distinct:
  "all_fresh ls seen \<longleftrightarrow> distinct (exps ls) \<and> set (exps ls) \<inter> set seen = {}"
  by (induction ls arbitrary: seen) auto

lemma assert_unique_ok: "distinct (exps ls) \<Longrightarrow> assert_unique_expectations ls = Some ()"
  by (simp add: assert_unique_expectations_def all_fresh_distinct)

definition lanes_ok :: "lane list \<Rightarrow> nat \<Rightarrow> bool" where
  "lanes_ok ls nxt = (distinct (exps ls) \<and> distinct (brs ls) \<and> (\<forall>b\<in>set (brs ls). b < nxt))"

lemma lanes_okD:
  "lanes_ok ls nxt \<Longrightarrow> distinct (exps ls)"
  "lanes_ok ls nxt \<Longrightarrow> distinct (brs ls)"
  by (simp_all add: lanes_ok_def)

lemma lanes_ok_push:
  assumes "lanes_ok ls nxt" "e \<notin> set (exps ls)"
  shows "lanes_ok (ls @ [\<lparr>ln_branch = nxt, ln_expecting = e\<rparr>]) (Suc nxt)"
  using assms by (fastforce simp: lanes_ok_def)

section \<open>One row\<close>

lemma claim_lane_ok:
  assumes "lanes_ok active nxt" "nxt + 1 < 18446744073709551616"
    "claim_lane c active nxt = (i, ain, n1)"
  shows "lanes_ok ain n1 \<and> i < length ain \<and> ln_expecting (ain ! i) = cm_id c \<and> n1 \<le> nxt + 1 \<and>
    (if cm_id c \<in> set (exps active) then ain = active
     else ain = active @ [\<lparr>ln_branch = nxt, ln_expecting = cm_id c\<rparr>])"
proof (cases "position (\<lambda>l. ln_expecting l = cm_id c) active")
  case None
  then have "cm_id c \<notin> set (exps active)" by (auto simp: position_None)
  with None assms lanes_ok_push [OF assms(1)] show ?thesis
    by (auto simp: claim_lane_def wrap64_def)
next
  case (Some j)
  from position_exp [OF Some] have "cm_id c \<in> set (exps active)"
    by (metis length_map nth_map nth_mem)
  with Some position_exp [OF Some] assms show ?thesis
    by (simp add: claim_lane_def)
qed

lemma lanes_ok_drop: "lanes_ok ls n \<Longrightarrow> lanes_ok (drop_nth i ls) n"
  using set_drop_nth_subset [of i "brs ls"]
  unfolding lanes_ok_def map_drop_nth by (blast intro: distinct_drop_nth)

lemma advance_lane_ok:
  assumes ok: "lanes_ok ls n" and i: "i < length ls" and e: "ln_expecting (ls ! i) = cm_id c"
  shows "\<exists>m. advance_lane c i ls = Some m \<and> lanes_ok m n \<and>
    set (exps m) = set (exps ls) - {cm_id c} \<union> set (take 1 (cm_parents c))"
proof -
  note d = lanes_okD [OF ok]
  have gone: "set (exps (drop_nth i ls)) = set (exps ls) - {cm_id c}"
    using set_drop_nth [OF d(1), of i] i e by (simp add: map_drop_nth)
  show ?thesis
  proof (cases "cm_parents c")
    case Nil
    with i gone lanes_ok_drop [OF ok] show ?thesis by (simp add: advance_lane_def get_def)
  next
    case (Cons p ps)
    let ?P = "\<lambda>l. ln_expecting l = p \<and> ln_branch l \<noteq> ln_branch (ls ! i)"
    show ?thesis
    proof (cases "position ?P ls")
      case (Some j)
      from position_Some [OF Some] have j: "j < length ls" "ln_expecting (ls ! j) = p" "j \<noteq> i" by auto
      then have "p \<in> set (exps ls)" by (metis length_map nth_map nth_mem)
      moreover have "p \<noteq> cm_id c"
        using nth_eq_iff_index_eq [OF d(1), of i j] i e j by auto
      moreover note calculation
      with Cons Some i gone lanes_ok_drop [OF ok] show ?thesis
        by (auto simp: advance_lane_def get_def)
    next
      case None
      let ?m = "ls[i := (ls ! i)\<lparr>ln_expecting := p\<rparr>]"
      have ex: "exps ?m = (exps ls)[i := p]" by (simp add: map_update)
      have br: "brs ?m = brs ls" using i by (simp add: map_update list_update_same_conv)
      have "p \<notin> set (exps ls) - {exps ls ! i}"
      proof
        assume "p \<in> set (exps ls) - {exps ls ! i}"
        then obtain j where j: "j < length ls" "ln_expecting (ls ! j) = p" "ln_expecting (ls ! i) \<noteq> p"
          using i by (auto simp: in_set_conv_nth)
        then have "j \<noteq> i" by auto
        then have "ln_branch (ls ! j) \<noteq> ln_branch (ls ! i)"
          using nth_eq_iff_index_eq [OF d(2), of j i] i j by simp
        with None j show False by (auto simp: position_None)
      qed
      then have de: "distinct (exps ?m)" using d(1) unfolding ex by (rule distinct_list_update [rotated])
      have "set (exps ?m) = insert p (set (exps ls) - {cm_id c})"
        using set_update_distinct [OF d(1), of i p] i e unfolding ex by simp
      moreover from de ok br have "lanes_ok ?m n" unfolding lanes_ok_def by metis
      ultimately show ?thesis
        using Cons None i by (simp add: advance_lane_def get_def)
    qed
  qed
qed

lemma open_parents_ok:
  assumes "lanes_ok ls n" "n + length ps < 18446744073709551616" "open_parents ps ls n = (out, n2)"
  shows "lanes_ok out n2 \<and> n2 \<le> n + length ps \<and> set (exps out) = set (exps ls) \<union> set ps"
  using assms
proof (induction ps arbitrary: ls n)
  case (Cons p ps)
  show ?case
  proof (cases "p \<in> set (exps ls)")
    case True
    then have "\<not> list_all (\<lambda>l. ln_expecting l \<noteq> p) ls" by (auto simp: list_all_iff)
    with Cons True show ?thesis by fastforce
  next
    case False
    then have "list_all (\<lambda>l. ln_expecting l \<noteq> p) ls" by (auto simp: list_all_iff)
    with Cons.prems Cons.IH [OF lanes_ok_push [OF Cons.prems(1) False]] show ?thesis
      by (simp add: wrap64_def)
  qed
qed simp

text \<open>A row that follows lanes \<open>prev\<close>.\<close>

definition row_ok :: "lane list \<Rightarrow> row \<Rightarrow> bool" where
  "row_ok prev r =
     ((if cm_id (rw_commit r) \<in> set (exps prev) then rw_in r = prev
       else \<exists>b. rw_in r = prev @ [\<lparr>ln_branch = b, ln_expecting = cm_id (rw_commit r)\<rparr>]) \<and>
      rw_commit_lane r < length (rw_in r) \<and>
      ln_expecting (rw_in r ! rw_commit_lane r) = cm_id (rw_commit r) \<and>
      distinct (exps (rw_in r)) \<and> distinct (brs (rw_in r)) \<and>
      distinct (exps (rw_out r)) \<and> distinct (brs (rw_out r)) \<and>
      set (exps (rw_out r)) = set (exps (rw_in r)) - {cm_id (rw_commit r)} \<union> set (cm_parents (rw_commit r)))"

fun rows_ok :: "lane list \<Rightarrow> row list \<Rightarrow> bool" where
  "rows_ok prev [] = True"
| "rows_ok prev (r # rs) = (row_ok prev r \<and> rows_ok (rw_out r) rs)"

text \<open>The branch ids a log can use up.\<close>

definition id_budget :: "commit list \<Rightarrow> nat" where
  "id_budget cs = sum_list (map (\<lambda>c. Suc (length (cm_parents c))) cs)"

lemma assign_loop_ok:
  assumes "lanes_ok active nxt" "nxt + id_budget cs < 18446744073709551616"
  shows "\<exists>rows. assign_loop cs active nxt = Some rows \<and> map rw_commit rows = cs \<and> rows_ok active rows"
  using assms
proof (induction cs arbitrary: active nxt)
  case (Cons c cs)
  obtain i ain n1 where cl: "claim_lane c active nxt = (i, ain, n1)" by (metis prod_cases3)
  have "nxt + 1 < 18446744073709551616" using Cons.prems(2) by (simp add: id_budget_def)
  note ci = claim_lane_ok [OF Cons.prems(1) this cl]
  then obtain m where m: "advance_lane c i ain = Some m" "lanes_ok m n1"
    "set (exps m) = set (exps ain) - {cm_id c} \<union> set (take 1 (cm_parents c))"
    using advance_lane_ok by blast
  obtain out n2 where op: "open_parents (drop 1 (cm_parents c)) m n1 = (out, n2)" by (metis surj_pair)
  have "n1 + length (drop 1 (cm_parents c)) < 18446744073709551616"
    using ci Cons.prems(2) unfolding id_budget_def list.map sum_list.Cons length_drop by linarith
  note po = open_parents_ok [OF m(2) this op]
  have "n2 + id_budget cs < 18446744073709551616"
    using po ci Cons.prems(2) unfolding id_budget_def list.map sum_list.Cons length_drop by linarith
  then obtain rows where rows: "assign_loop cs out n2 = Some rows" "map rw_commit rows = cs" "rows_ok out rows"
    using Cons.IH po by blast
  have "set (exps out) = set (exps ain) - {cm_id c} \<union> set (cm_parents c)"
    using po m(3) by (metis append_take_drop_id set_append sup_assoc)
  then have "row_ok active \<lparr>rw_commit = c, rw_commit_lane = i, rw_in = ain, rw_out = out\<rparr>"
    using ci po unfolding row_ok_def lanes_ok_def by simp
  moreover have "assert_unique_expectations ain = Some ()" "assert_unique_expectations out = Some ()"
    using ci po lanes_okD(1) assert_unique_ok by blast+
  ultimately show ?case using cl m(1) op rows by simp
qed (simp add: id_budget_def)

lemma assign_lanes_ok:
  assumes "id_budget commits < 18446744073709551616"
  shows "\<exists>rows. assign_lanes commits = Some rows \<and> map rw_commit rows = commits \<and> rows_ok [] rows"
  using assign_loop_ok [of "[]" 0 commits] assms by (simp add: assign_lanes_def lanes_ok_def)

lemma rows_ok_nth:
  "rows_ok prev rows \<Longrightarrow> i < length rows \<Longrightarrow>
   row_ok (if i = 0 then prev else rw_out (rows ! (i - 1))) (rows ! i)"
proof (induction rows arbitrary: prev i)
  case (Cons r rs)
  show ?case
  proof (cases i)
    case (Suc j)
    with Cons.prems have "row_ok (if j = 0 then rw_out r else rw_out (rs ! (j - 1))) (rs ! j)"
      by (intro Cons.IH) simp_all
    with Suc show ?thesis by (cases j) simp_all
  qed (use Cons.prems in simp)
qed simp

section \<open>The lanes of a log\<close>

text \<open>A log in which every parent comes after its child, once.\<close>

fun complete_log :: "commit list \<Rightarrow> bool" where
  "complete_log [] = True"
| "complete_log (c # cs) =
     (cm_id c \<notin> set (map cm_id cs) \<and>
      list_all (\<lambda>p. p \<in> set (map cm_id cs)) (cm_parents c) \<and> complete_log cs)"

lemma waits_for_later:
  assumes "rows_ok prev rows" "complete_log (map rw_commit rows)"
    "set (exps prev) \<subseteq> set (map cm_id (map rw_commit rows))"
  shows "rows \<noteq> [] \<Longrightarrow> rw_out (last rows) = []"
  using assms
proof (induction rows arbitrary: prev)
  case (Cons r rs)
  have ok: "row_ok prev r" and rest: "rows_ok (rw_out r) rs" using Cons.prems by simp_all
  have log: "set (cm_parents (rw_commit r)) \<subseteq> set (map cm_id (map rw_commit rs))"
    "complete_log (map rw_commit rs)"
    using Cons.prems(3) by (simp_all add: list_all_iff subset_iff)
  have ins: "set (exps (rw_in r)) = insert (cm_id (rw_commit r)) (set (exps prev))"
  proof (cases "cm_id (rw_commit r) \<in> set (exps prev)")
    case False
    then obtain b where "rw_in r = prev @ [\<lparr>ln_branch = b, ln_expecting = cm_id (rw_commit r)\<rparr>]"
      using ok unfolding row_ok_def by auto
    then show ?thesis by simp
  qed (use ok in \<open>auto simp: row_ok_def\<close>)
  have "set (exps (rw_out r)) = set (exps (rw_in r)) - {cm_id (rw_commit r)} \<union> set (cm_parents (rw_commit r))"
    using ok unfolding row_ok_def by blast
  then have out: "set (exps (rw_out r)) \<subseteq> set (map cm_id (map rw_commit rs))"
    using ins log(1) Cons.prems(4) by auto
  show ?case
  proof (cases "rs = []")
    case True
    with out show ?thesis by simp
  next
    case False
    with Cons.IH [OF False rest log(2) out] show ?thesis by simp
  qed
qed simp

text \<open>
  The assignment of lanes never panics on a log whose commits and parents fit the 64-bit
  counter. It gives one row for each commit, in order. In every row the lanes have distinct
  branches and wait for distinct commits, the commit sits in the lane that waits for it, and
  the lanes that leave the row wait for what came in less the commit, and for its parents. A
  row takes over the lanes of the row before and opens one only for a commit nobody waits for.
\<close>

theorem assign_lanes_rows:
  assumes "id_budget commits < 18446744073709551616"
  shows "\<exists>rows. assign_lanes commits = Some rows \<and> map rw_commit rows = commits \<and>
    (\<forall>i<length rows.
       (let r = rows ! i; c = rw_commit r; prev = (if i = 0 then [] else rw_out (rows ! (i - 1)))
        in rw_commit_lane r < length (rw_in r) \<and>
           ln_expecting (rw_in r ! rw_commit_lane r) = cm_id c \<and>
           distinct (exps (rw_in r)) \<and> distinct (brs (rw_in r)) \<and>
           distinct (exps (rw_out r)) \<and> distinct (brs (rw_out r)) \<and>
           set (exps (rw_out r)) = set (exps (rw_in r)) - {cm_id c} \<union> set (cm_parents c) \<and>
           (if cm_id c \<in> set (exps prev) then rw_in r = prev
            else \<exists>b. rw_in r = prev @ [\<lparr>ln_branch = b, ln_expecting = cm_id c\<rparr>])))"
proof -
  obtain rows where rows: "assign_lanes commits = Some rows" "map rw_commit rows = commits" "rows_ok [] rows"
    using assign_lanes_ok [OF assms] by blast
  from rows_ok_nth [OF rows(3)] have "\<forall>i<length rows.
      row_ok (if i = 0 then [] else rw_out (rows ! (i - 1))) (rows ! i)" by blast
  then show ?thesis
    using rows(1,2) unfolding row_ok_def Let_def by blast
qed

definition example_log :: "commit list" where
  "example_log =
     map (\<lambda>(i, ps). \<lparr>cm_id = i, cm_parents = ps, cm_message = i\<rparr>)
       [(''M'', [''B'', ''F'']), (''B'', [''A'']), (''F'', [''E'']), (''E'', [''A'']), (''A'', [])]"

lemma assign_lanes_rows_witness:
  "\<exists>rows. assign_lanes example_log = Some rows \<and> map rw_commit rows = example_log"
  using assign_lanes_rows [of example_log] by (force simp: example_log_def id_budget_def)

text \<open>
  On a complete log, in which every parent is listed once and after its children, no lane
  is left waiting: the last row leaves no lane.
\<close>

theorem complete_log_ends_all_lanes:
  assumes "id_budget commits < 18446744073709551616" "complete_log commits" "commits \<noteq> []"
  shows "\<exists>rows. assign_lanes commits = Some rows \<and> rows \<noteq> [] \<and> rw_out (last rows) = []"
proof -
  obtain rows where rows: "assign_lanes commits = Some rows" "map rw_commit rows = commits" "rows_ok [] rows"
    using assign_lanes_ok [OF assms(1)] by blast
  then have "rows \<noteq> []" using assms(3) by auto
  with waits_for_later [OF rows(3)] rows assms(2) show ?thesis by simp
qed

lemma complete_log_ends_all_lanes_witness:
  "\<exists>rows. assign_lanes example_log = Some rows \<and> rows \<noteq> [] \<and> rw_out (last rows) = []"
  using complete_log_ends_all_lanes [of example_log]
  by (simp add: example_log_def id_budget_def)

end
