(* ===== verification/Graph_Spans.thy ===== *)
theory Graph_Spans
  imports Graph_Props
begin

text \<open>
  What holds of the layout of the git graph: the ordered map of open spans, the effect of one
  row on it, and with that the stretches the lane spans cover, and the merge markers.
\<close>

section \<open>Columns\<close>

definition col_of :: "lane list \<Rightarrow> nat \<Rightarrow> nat option" where
  "col_of ls b = position (\<lambda>l. ln_branch l = b) ls"

lemma col_of_simps [simp]:
  "col_of [] b = None"
  "col_of (l # ls) b = (if ln_branch l = b then Some 0 else map_option Suc (col_of ls b))"
  by (simp_all add: col_of_def)

lemma col_of_None: "col_of ls b = None \<longleftrightarrow> b \<notin> set (brs ls)"
  by (induction ls) auto

lemma col_of_get:
  assumes "distinct (brs ls)"
  shows "col_of ls b = Some c \<longleftrightarrow> get (brs ls) c = Some b"
  using assms
proof (induction ls arbitrary: c)
  case (Cons l ls)
  show ?case
  proof (cases "ln_branch l = b")
    case True
    with Cons.prems have "get (brs ls) j \<noteq> Some b" for j
      by (metis distinct.simps(2) get_Some list.simps(9) nth_mem)
    with True show ?thesis by (cases c) simp_all
  next
    case False
    with Cons show ?thesis by (cases c) simp_all
  qed
qed (simp add: get_def)

lemma col_of_append:
  "col_of (xs @ ys) b = (case col_of xs b of Some i \<Rightarrow> Some i | None \<Rightarrow> map_option ((+) (length xs)) (col_of ys b))"
  by (cases "col_of ys b"; induction xs) (auto split: option.splits)

section \<open>One row of the span loop\<close>

abbreviation ended :: "nat \<Rightarrow> nat \<Rightarrow> nat \<Rightarrow> nat \<Rightarrow> lane_span" where
  "ended b c s k \<equiv> \<lparr>sp_branch = b, sp_col = c, sp_start = s, sp_end = k\<rparr>"

lemma set_push_lane_span:
  "set (push_lane_span spans b c s k) = set spans \<union> (if s = k then {} else {ended b c s k})"
  by (simp add: push_lane_span_def)

lemma open_lanes_map:
  "map_of (open_lanes k col ls active) b =
   (case map_of active b of Some x \<Rightarrow> Some x | None \<Rightarrow> map_option (\<lambda>i. (k, col + i)) (col_of ls b))"
  by (induction ls arbitrary: col active)
     (auto simp: option.map_comp comp_def split: option.splits)

lemma open_lanes_sorted:
  "sorted_wrt (<) (map fst active) \<Longrightarrow> sorted_wrt (<) (map fst (open_lanes k col ls active))"
  by (induction ls arbitrary: col active) (auto split: option.splits intro: sorted_tree_insert)

lemma shift_lanes_map:
  assumes "distinct (brs ls)"
  shows "map_of (fst (shift_lanes k col ls active spans)) b =
    (case col_of ls b of
       None \<Rightarrow> map_of active b
     | Some i \<Rightarrow> (case map_of active b of
         None \<Rightarrow> Some (k + 1, col + i)
       | Some (s, c) \<Rightarrow> if c = col + i then Some (s, c) else Some (k + 1, col + i)))"
  using assms
proof (induction ls arbitrary: col active spans)
  case (Cons l ls)
  then have none: "col_of ls (ln_branch l) = None" by (simp add: col_of_None)
  with Cons show ?case
    by (cases "map_of active (ln_branch l)"; cases "b = ln_branch l"; cases "col_of ls b")
       (auto split: option.split)
qed simp

lemma shift_lanes_sorted:
  "sorted_wrt (<) (map fst active) \<Longrightarrow>
   sorted_wrt (<) (map fst (fst (shift_lanes k col ls active spans)))"
  by (induction ls arbitrary: col active spans)
     (simp_all add: sorted_tree_insert split: option.split)

lemma shift_lanes_spans:
  assumes "distinct (brs ls)"
  shows "x \<in> set (snd (shift_lanes k col ls active spans)) \<longleftrightarrow> x \<in> set spans \<or>
    (\<exists>b s c i. x = ended b c s k \<and> col_of ls b = Some i \<and> map_of active b = Some (s, c) \<and> c \<noteq> col + i \<and> s \<noteq> k)"
  using assms
proof (induction ls arbitrary: col active spans)
  case (Cons l ls)
  let ?new = "\<lambda>col ls active. \<exists>b s c i. x = ended b c s k \<and> col_of ls b = Some i \<and>
    map_of active b = Some (s, c) \<and> c \<noteq> col + i \<and> s \<noteq> k"
  from Cons.prems have none: "col_of ls (ln_branch l) = None" by (simp add: col_of_None)
  have rest: "?new (Suc col) ls (tree_insert (ln_branch l) v active) \<longleftrightarrow> ?new (Suc col) ls active" for v
    using none by (metis fun_upd_apply map_of_tree_insert option.distinct(1))
  have split: "?new col (l # ls) active \<longleftrightarrow> ?new (Suc col) ls active \<or>
      (\<exists>s c. x = ended (ln_branch l) c s k \<and> map_of active (ln_branch l) = Some (s, c) \<and> c \<noteq> col \<and> s \<noteq> k)"
    using none by (auto split: if_splits) (metis add_Suc_right option.distinct(1) option.inject)+
  show ?case
  proof (cases "map_of active (ln_branch l)")
    case None
    with Cons rest show ?thesis unfolding split by simp
  next
    case (Some e)
    obtain s c where e: "e = (s, c)" by (cases e)
    show ?thesis
    proof (cases "c = col")
      case True
      with Cons Some e show ?thesis unfolding split by simp
    next
      case False
      with Cons Some e rest show ?thesis unfolding split by (auto simp: set_push_lane_span)
    qed
  qed
qed simp

lemma close_lanes_map:
  "map_of (fst (close_lanes k bs active spans)) b = (if b \<in> set bs then None else map_of active b)"
  by (induction bs arbitrary: active spans) (auto split: option.splits)

lemma close_lanes_sorted:
  "sorted_wrt (<) (map fst active) \<Longrightarrow>
   sorted_wrt (<) (map fst (fst (close_lanes k bs active spans)))"
  by (induction bs arbitrary: active spans) (simp_all add: sorted_tree_remove split: option.split)

lemma close_lanes_spans:
  "x \<in> set (snd (close_lanes k bs active spans)) \<longleftrightarrow> x \<in> set spans \<or>
     (\<exists>b s c. b \<in> set bs \<and> x = ended b c s k \<and> map_of active b = Some (s, c) \<and> s \<noteq> k)"
proof (induction bs arbitrary: active spans)
  case (Cons b bs)
  show ?case
  proof (cases "map_of active b")
    case None
    with Cons show ?thesis by (simp; metis option.distinct(1))
  next
    case (Some e)
    obtain s c where e: "e = (s, c)" by (cases e)
    have upd: "((map_of active)(b := None)) b' = Some v \<longleftrightarrow> b' \<noteq> b \<and> map_of active b' = Some v" for b' v
      by simp
    show ?thesis
      unfolding close_lanes.simps Some e option.case prod.case Cons map_of_tree_remove upd set_push_lane_span
      using Some e by (cases "s = k") (simp; metis option.inject prod.inject)+
  qed
qed simp

section \<open>What the spans cover\<close>

text \<open>A lane goes straight through a row: in and out in the same column.\<close>

definition goes_straight :: "row \<Rightarrow> nat \<Rightarrow> nat \<Rightarrow> bool" where
  "goes_straight r b c = (col_of (rw_in r) b = Some c \<and> col_of (rw_out r) b = Some c)"

definition covers :: "lane_span set \<Rightarrow> nat \<Rightarrow> nat \<Rightarrow> nat \<Rightarrow> bool" where
  "covers spans k b c = (\<exists>s\<in>spans. sp_branch s = b \<and> sp_col s = c \<and> sp_start s \<le> k \<and> k < sp_end s)"

definition spans_inv :: "row list \<Rightarrow> nat \<Rightarrow> lane list \<Rightarrow> open_spans \<Rightarrow> lane_span list \<Rightarrow> bool" where
  "spans_inv rows k prev active spans =
     (sorted_wrt (<) (map fst active) \<and>
      (\<forall>b. map_option snd (map_of active b) = col_of prev b) \<and>
      (\<forall>b s c. map_of active b = Some (s, c) \<longrightarrow> s \<le> k) \<and>
      (\<forall>x\<in>set spans. sp_start x < sp_end x \<and> sp_end x \<le> k) \<and>
      (\<forall>i b c. i < k \<longrightarrow> goes_straight (rows ! i) b c =
         (covers (set spans) i b c \<or> (\<exists>s. map_of active b = Some (s, c) \<and> s \<le> i))))"

text \<open>The effect of one row, over the map of the open spans.\<close>

lemma row_effect:
  assumes prev: "\<forall>b. map_option snd (map_of active b) = col_of prev b"
    and ok: "row_ok prev r"
    and opened: "opened = open_lanes k 0 (rw_in r) active"
    and moved: "(moved, spans1) = shift_lanes k 0 (rw_out r) opened spans"
    and kept: "(kept, spans2) = close_lanes k (dead_ids moved (rw_out r)) moved spans1"
  shows "map_option snd (map_of opened b) = col_of (rw_in r) b"
    and "map_of opened b = Some (s, c) \<Longrightarrow> map_of active b = Some (s, c) \<or> s = k \<and> map_of active b = None"
    and "map_of kept b = Some (s, c) \<longleftrightarrow> col_of (rw_out r) b = Some c \<and>
      (map_of opened b = Some (s, c) \<or> s = Suc k \<and> (\<forall>s'. map_of opened b \<noteq> Some (s', c)))"
    and "x \<in> set spans2 \<longleftrightarrow> x \<in> set spans \<or>
      (\<exists>b s c. x = ended b c s k \<and> map_of opened b = Some (s, c) \<and> s \<noteq> k \<and> col_of (rw_out r) b \<noteq> Some c)"
proof -
  have dout: "distinct (brs (rw_out r))" using ok by (simp add: row_ok_def)
  have mo: "map_of opened b = (case map_of active b of Some x \<Rightarrow> Some x | None \<Rightarrow> map_option (\<lambda>i. (k, i)) (col_of (rw_in r) b))" for b
    unfolding opened open_lanes_map by (cases "map_of active b") simp_all
  have "col_of (rw_in r) b = (case col_of prev b of Some c \<Rightarrow> Some c | None \<Rightarrow> col_of (rw_in r) b)"
    using ok unfolding row_ok_def by (auto simp: col_of_append split: option.splits if_splits)
  then show "map_option snd (map_of opened b) = col_of (rw_in r) b"
    using spec [OF prev, of b] unfolding mo
    by (cases "map_of active b"; cases "col_of prev b") (auto simp: option.map_comp comp_def option.map_ident)
  show "map_of opened b = Some (s, c) \<Longrightarrow> map_of active b = Some (s, c) \<or> s = k \<and> map_of active b = None"
    unfolding mo by (cases "map_of active b") auto
  have mm: "map_of moved b = (case col_of (rw_out r) b of None \<Rightarrow> map_of opened b
     | Some i \<Rightarrow> (case map_of opened b of None \<Rightarrow> Some (k + 1, i)
         | Some (s, c) \<Rightarrow> if c = i then Some (s, c) else Some (k + 1, i)))" for b
    using shift_lanes_map [OF dout, of k 0 opened spans b] arg_cong [OF moved, of fst]
    unfolding add_0 fst_conv by metis
  have dead: "b \<in> set (dead_ids moved (rw_out r)) \<longleftrightarrow> col_of (rw_out r) b = None \<and> map_of moved b \<noteq> None" for b
    unfolding dead_ids_def by (auto simp: col_of_None map_of_eq_None_iff)
  have mk: "map_of kept b = (if col_of (rw_out r) b = None then None else map_of moved b)"
    using close_lanes_map [of k "dead_ids moved (rw_out r)" moved spans1 b] arg_cong [OF kept, of fst]
    unfolding dead by (cases "map_of moved b") auto
  show "map_of kept b = Some (s, c) \<longleftrightarrow> col_of (rw_out r) b = Some c \<and>
      (map_of opened b = Some (s, c) \<or> s = Suc k \<and> (\<forall>s'. map_of opened b \<noteq> Some (s', c)))"
    unfolding mk mm by (auto split: option.split)
  have s1: "x \<in> set spans1 \<longleftrightarrow> x \<in> set spans \<or> (\<exists>b s c i. x = ended b c s k \<and> col_of (rw_out r) b = Some i \<and>
      map_of opened b = Some (s, c) \<and> c \<noteq> i \<and> s \<noteq> k)"
    using shift_lanes_spans [OF dout, of x k 0 opened spans] arg_cong [OF moved, of snd] by simp
  have gone: "col_of (rw_out r) b = None \<and> map_of moved b \<noteq> None \<and> map_of moved b = Some v \<longleftrightarrow>
      col_of (rw_out r) b = None \<and> map_of opened b = Some v" for b v
    using mm [of b] by auto
  have s2: "x \<in> set spans2 \<longleftrightarrow> x \<in> set spans1 \<or> (\<exists>b s c. x = ended b c s k \<and> col_of (rw_out r) b = None \<and>
      map_of opened b = Some (s, c) \<and> s \<noteq> k)"
    using close_lanes_spans [of x k "dead_ids moved (rw_out r)" moved spans1] arg_cong [OF kept, of snd]
    unfolding dead snd_conv using gone by metis
  have other: "col_of (rw_out r) b \<noteq> Some c \<longleftrightarrow> col_of (rw_out r) b = None \<or> (\<exists>i. col_of (rw_out r) b = Some i \<and> c \<noteq> i)" for b c
    by (cases "col_of (rw_out r) b") auto
  show "x \<in> set spans2 \<longleftrightarrow> x \<in> set spans \<or>
      (\<exists>b s c. x = ended b c s k \<and> map_of opened b = Some (s, c) \<and> s \<noteq> k \<and> col_of (rw_out r) b \<noteq> Some c)"
    unfolding s2 s1 other by blast
qed

lemma covers_new:
  assumes "\<And>x. x \<in> T \<longleftrightarrow> x \<in> S \<or> (\<exists>b s c. x = ended b c s k \<and> P b s c)"
  shows "covers T i b c \<longleftrightarrow> covers S i b c \<or> (\<exists>s. P b s c \<and> s \<le> i \<and> i < k)"
proof
  assume "covers T i b c"
  then obtain x where x: "x \<in> T" "sp_branch x = b" "sp_col x = c" "sp_start x \<le> i" "i < sp_end x"
    unfolding covers_def by blast
  from x(1) assms [of x] x(2-) show "covers S i b c \<or> (\<exists>s. P b s c \<and> s \<le> i \<and> i < k)"
    unfolding covers_def by auto
next
  assume "covers S i b c \<or> (\<exists>s. P b s c \<and> s \<le> i \<and> i < k)"
  then show "covers T i b c"
  proof
    assume "\<exists>s. P b s c \<and> s \<le> i \<and> i < k"
    then obtain s where "P b s c" "s \<le> i" "i < k" by blast
    with assms [of "ended b c s k"] show ?thesis
      unfolding covers_def by (intro bexI [of _ "ended b c s k"]) auto
  qed (use assms in \<open>unfold covers_def, blast\<close>)
qed

lemma spans_inv_step:
  assumes inv: "spans_inv rows k prev active spans"
    and r: "rows ! k = r"
    and ok: "row_ok prev r"
    and opened: "opened = open_lanes k 0 (rw_in r) active"
    and moved: "(moved, spans1) = shift_lanes k 0 (rw_out r) opened spans"
    and kept: "(kept, spans2) = close_lanes k (dead_ids moved (rw_out r)) moved spans1"
  shows "spans_inv rows (Suc k) (rw_out r) kept spans2"
proof -
  have srt: "sorted_wrt (<) (map fst active)"
    and prev: "\<forall>b. map_option snd (map_of active b) = col_of prev b"
    and le: "\<And>b s c. map_of active b = Some (s, c) \<Longrightarrow> s \<le> k"
    and bnd: "\<And>x. x \<in> set spans \<Longrightarrow> sp_start x < sp_end x \<and> sp_end x \<le> k"
    and cov: "\<And>i b c. i < k \<Longrightarrow> goes_straight (rows ! i) b c \<longleftrightarrow>
      covers (set spans) i b c \<or> (\<exists>s. map_of active b = Some (s, c) \<and> s \<le> i)"
    using inv unfolding spans_inv_def by blast+
  note eff = row_effect [OF prev ok opened moved kept]
  have ole: "map_of opened b = Some (s, c) \<Longrightarrow> s \<le> k" for b s c
    using eff(2) le by blast
  have "sorted_wrt (<) (map fst kept)"
    using close_lanes_sorted [OF shift_lanes_sorted [OF open_lanes_sorted [OF srt, of k 0 "rw_in r"]]] opened
      arg_cong [OF moved, of fst] arg_cong [OF kept, of fst] unfolding fst_conv by simp
  moreover have "map_option snd (map_of kept b) = col_of (rw_out r) b" for b
  proof (cases "col_of (rw_out r) b")
    case None
    with eff(3) [of b] show ?thesis by (cases "map_of kept b") auto
  next
    case (Some c)
    with eff(3) [of b _ c] have "\<exists>s. map_of kept b = Some (s, c)" by blast
    with Some show ?thesis by auto
  qed
  moreover have "map_of kept b = Some (s, c) \<Longrightarrow> s \<le> Suc k" for b s c
    using eff(3) ole le_SucI by blast
  moreover have "x \<in> set spans2 \<Longrightarrow> sp_start x < sp_end x \<and> sp_end x \<le> Suc k" for x
  proof -
    assume "x \<in> set spans2"
    then consider "x \<in> set spans" | b s c where "x = ended b c s k" "map_of opened b = Some (s, c)" "s \<noteq> k"
      unfolding eff(4) by blast
    then show "sp_start x < sp_end x \<and> sp_end x \<le> Suc k"
    proof cases
      case 1
      with bnd [of x] show ?thesis by simp
    next
      case 2
      with ole [of b s c] show ?thesis by simp
    qed
  qed
  moreover have "goes_straight (rows ! i) b c \<longleftrightarrow>
      covers (set spans2) i b c \<or> (\<exists>s. map_of kept b = Some (s, c) \<and> s \<le> i)" if "i < Suc k" for i b c
  proof -
    have cov2: "covers (set spans2) i b c \<longleftrightarrow> covers (set spans) i b c \<or>
      (\<exists>s. (map_of opened b = Some (s, c) \<and> s \<noteq> k \<and> col_of (rw_out r) b \<noteq> Some c) \<and> s \<le> i \<and> i < k)"
      using eff(4) by (rule covers_new)
    show ?thesis
    proof (cases "i < k")
      case True
      have "(\<exists>s. map_of active b = Some (s, c) \<and> s \<le> i) \<longleftrightarrow> (\<exists>s. map_of opened b = Some (s, c) \<and> s \<le> i)"
      proof
        assume "\<exists>s. map_of active b = Some (s, c) \<and> s \<le> i"
        then show "\<exists>s. map_of opened b = Some (s, c) \<and> s \<le> i"
          unfolding opened open_lanes_map by auto
      next
        assume "\<exists>s. map_of opened b = Some (s, c) \<and> s \<le> i"
        then obtain s where "map_of opened b = Some (s, c)" "s \<le> i" by blast
        with eff(2) [of b s c] True show "\<exists>s. map_of active b = Some (s, c) \<and> s \<le> i" by auto
      qed
      then have "goes_straight (rows ! i) b c \<longleftrightarrow>
          covers (set spans) i b c \<or> (\<exists>s. map_of opened b = Some (s, c) \<and> s \<le> i)"
        using cov [OF True] by blast
      moreover have "map_of kept b = Some (s, c) \<and> s \<le> i \<longleftrightarrow>
          col_of (rw_out r) b = Some c \<and> map_of opened b = Some (s, c) \<and> s \<le> i" for s
        using eff(3) [of b s c] True by auto
      ultimately show ?thesis
        using cov2 True by (metis leD)
    next
      case False
      with that have i: "i = k" by simp
      have "\<not> covers (set spans) k b c" using bnd unfolding covers_def by fastforce
      with cov2 i have no: "\<not> covers (set spans2) i b c" by simp
      have "col_of (rw_in r) b = Some c \<longleftrightarrow> (\<exists>s. map_of opened b = Some (s, c))"
        unfolding eff(1) [symmetric] by (cases "map_of opened b") auto
      then show ?thesis
        using no i r eff(3) ole unfolding goes_straight_def by (metis Suc_n_not_le_n)
    qed
  qed
  ultimately show ?thesis unfolding spans_inv_def by blast
qed

lemma span_loop_inv:
  assumes "spans_inv rows k prev active spans" "rs = drop k rows" "rows_ok prev rs"
    "(active', spans') = span_loop k rs active spans"
  shows "\<exists>last. spans_inv rows (max k (length rows)) last active' spans'"
  using assms
proof (induction rs arbitrary: k prev active spans)
  case (Cons r rs)
  obtain moved spans1 where m: "(moved, spans1) = shift_lanes k 0 (rw_out r) (open_lanes k 0 (rw_in r) active) spans"
    by (metis surj_pair)
  obtain kept spans2 where kp: "(kept, spans2) = close_lanes k (dead_ids moved (rw_out r)) moved spans1"
    by (metis surj_pair)
  have k: "k < length rows" "rows ! k = r" "rs = drop (Suc k) rows"
    using Cons.prems(2) by (metis drop_all not_less list.distinct(1), metis nth_via_drop, metis drop_Suc tl_drop list.sel(3))
  have "spans_inv rows (Suc k) (rw_out r) kept spans2"
    using spans_inv_step [OF Cons.prems(1) k(2) _ refl m kp] Cons.prems(3) by simp
  moreover have "(active', spans') = span_loop (Suc k) rs kept spans2"
    using Cons.prems(4) by (simp add: m [symmetric] kp [symmetric])
  ultimately have "\<exists>last. spans_inv rows (max (Suc k) (length rows)) last active' spans'"
    using Cons.IH k(3) Cons.prems(3) by simp
  with k(1) show ?case by (simp add: max_absorb2 Suc_leI)
qed (auto simp: max_absorb1)

lemma set_close_rest:
  "x \<in> set (close_rest n active spans) \<longleftrightarrow>
   x \<in> set spans \<or> (\<exists>b s c. x = ended b c s n \<and> (b, s, c) \<in> set active \<and> s \<noteq> n)"
  unfolding close_rest_def
proof (induction active arbitrary: spans)
  case (Cons e active)
  obtain b s c where e: "e = (b, s, c)" by (metis prod_cases3)
  show ?case
    unfolding foldl.simps Cons e prod.case set_push_lane_span
    by (cases "s = n") auto
qed simp

lemma lane_spans_core:
  assumes "rows_ok [] rows"
  shows "(i < length rows \<longrightarrow> goes_straight (rows ! i) b c = covers (set (build_lane_spans rows)) i b c) \<and>
    (x \<in> set (build_lane_spans rows) \<longrightarrow> sp_start x < sp_end x \<and> sp_end x \<le> length rows)"
proof -
  obtain active spans where lp: "(active, spans) = span_loop 0 rows [] []" by (metis surj_pair)
  have "spans_inv rows 0 [] [] []" by (simp add: spans_inv_def)
  then obtain prev where inv: "spans_inv rows (length rows) prev active spans"
    using span_loop_inv [OF _ _ assms lp] by fastforce
  have "distinct (map fst active)"
    using inv unfolding spans_inv_def by (simp add: strict_sorted_iff)
  then have act: "(b, s, c) \<in> set active \<longleftrightarrow> map_of active b = Some (s, c)" for b s c
    by (simp add: map_of_eq_Some_iff)
  have all: "x \<in> set (build_lane_spans rows) \<longleftrightarrow> x \<in> set spans \<or>
      (\<exists>b s c. x = ended b c s (length rows) \<and> map_of active b = Some (s, c) \<and> s \<noteq> length rows)" for x
    unfolding build_lane_spans_def lp [symmetric] by (simp add: set_close_rest act)
  have "i < length rows \<longrightarrow> goes_straight (rows ! i) b c = covers (set (build_lane_spans rows)) i b c"
    using inv unfolding covers_new [OF all] spans_inv_def by (metis leD)
  moreover have "x \<in> set (build_lane_spans rows) \<longrightarrow> sp_start x < sp_end x \<and> sp_end x \<le> length rows"
    using inv le_neq_trans unfolding all spans_inv_def by fastforce
  ultimately show ?thesis by blast
qed

section \<open>The layout of a log\<close>

text \<open>
  C34: the lane spans cover exactly the stretches where a lane goes straight on: between a row
  and the next a column has a span of a branch if and only if the branch enters and leaves the
  row in this column. Every span is at least one row high and ends inside the picture, and the
  spans come in the order of their first row, column, branch and last row.
\<close>

theorem lane_spans_cover:
  assumes "id_budget commits < 18446744073709551616" "assign_lanes commits = Some rows"
  shows "(\<forall>i<length rows. \<forall>b c.
      get (brs (rw_in (rows ! i))) c = Some b \<and> get (brs (rw_out (rows ! i))) c = Some b \<longleftrightarrow>
      (\<exists>s\<in>set (build_lane_spans rows).
         sp_branch s = b \<and> sp_col s = c \<and> sp_start s \<le> i \<and> i < sp_end s)) \<and>
    (\<forall>s\<in>set (build_lane_spans rows). sp_start s < sp_end s \<and> sp_end s \<le> length rows) \<and>
    sorted (map span_key (build_lane_spans rows))"
proof -
  have ok: "rows_ok [] rows" using assign_lanes_ok [OF assms(1)] assms(2) by auto
  have "goes_straight (rows ! i) b c \<longleftrightarrow>
      get (brs (rw_in (rows ! i))) c = Some b \<and> get (brs (rw_out (rows ! i))) c = Some b"
    if "i < length rows" for i b c
  proof -
    have "distinct (brs (rw_in (rows ! i)))" "distinct (brs (rw_out (rows ! i)))"
      using rows_ok_nth [OF ok that] by (auto simp: row_ok_def)
    then show ?thesis unfolding goes_straight_def by (simp add: col_of_get)
  qed
  then have cov: "\<forall>i<length rows. \<forall>b c.
      get (brs (rw_in (rows ! i))) c = Some b \<and> get (brs (rw_out (rows ! i))) c = Some b \<longleftrightarrow>
      (\<exists>s\<in>set (build_lane_spans rows).
         sp_branch s = b \<and> sp_col s = c \<and> sp_start s \<le> i \<and> i < sp_end s)"
    using lane_spans_core [OF ok] unfolding covers_def by blast
  have bnd: "\<forall>s\<in>set (build_lane_spans rows). sp_start s < sp_end s \<and> sp_end s \<le> length rows"
    using lane_spans_core [OF ok] by blast
  have "sorted (map span_key (build_lane_spans rows))"
    unfolding build_lane_spans_def by (simp add: case_prod_unfold Let_def)
  with cov bnd show ?thesis by blast
qed

lemma lane_spans_cover_witness:
  "\<exists>rows. assign_lanes example_log = Some rows \<and> sorted (map span_key (build_lane_spans rows))"
proof -
  have "id_budget example_log < 18446744073709551616" by (simp add: example_log_def id_budget_def)
  moreover from assign_lanes_ok [OF this] obtain rows where "assign_lanes example_log = Some rows" by blast
  ultimately show ?thesis using lane_spans_cover [of example_log rows] by blast
qed

text \<open>The marker of a parent of a row.\<close>

lemma marker_loop_set:
  "m \<in> set (marker_loop k rows) \<longleftrightarrow>
   (\<exists>i<length rows. \<exists>p\<in>set (drop 1 (cm_parents (rw_commit (rows ! i)))). merge_marker_of (k + i) (rows ! i) p = Some m)"
proof (induction rows arbitrary: k)
  case (Cons r rs)
  have head: "m \<in> set (if length (cm_parents (rw_commit r)) < 2 then []
      else List.map_filter (merge_marker_of k r) (drop 1 (cm_parents (rw_commit r)))) \<longleftrightarrow>
    (\<exists>p\<in>set (drop 1 (cm_parents (rw_commit r))). merge_marker_of k r p = Some m)"
    by (cases "cm_parents (rw_commit r)") (force simp: map_filter_def)+
  show ?case
    unfolding marker_loop.simps set_append Un_iff head Cons
    by (simp add: Ex_less_Suc2)
qed simp

lemma merge_marker_of_Some:
  assumes "row_ok prev r"
  shows "merge_marker_of k r p = Some m \<longleftrightarrow>
    (\<exists>l. get (rw_out r) (mm_from m) = Some l \<and> ln_expecting l = p \<and> mm_color m = ln_branch l \<and>
         mm_row m = k \<and> mm_to m = rw_commit_lane r \<and> mm_from m \<noteq> rw_commit_lane r)"
proof (cases "position (\<lambda>l. ln_expecting l = p) (rw_out r)")
  case None
  then have "\<forall>l\<in>set (rw_out r). ln_expecting l \<noteq> p" by (simp add: position_None)
  then show ?thesis unfolding merge_marker_of_def None by (auto simp: get_Some)
next
  case (Some i)
  have d: "distinct (exps (rw_out r))" using assms by (simp add: row_ok_def)
  from position_exp [OF Some] have i: "i < length (rw_out r)" "ln_expecting (rw_out r ! i) = p" by simp_all
  then have "get (rw_out r) j = Some l \<and> ln_expecting l = p \<longleftrightarrow> j = i \<and> l = rw_out r ! i" for j l
    using nth_eq_iff_index_eq [OF d, of j i] by (auto simp: get_Some)
  then have "(\<exists>l. get (rw_out r) (mm_from m) = Some l \<and> ln_expecting l = p \<and> mm_color m = ln_branch l \<and>
         mm_row m = k \<and> mm_to m = rw_commit_lane r \<and> mm_from m \<noteq> rw_commit_lane r) \<longleftrightarrow>
      mm_from m = i \<and> mm_color m = ln_branch (rw_out r ! i) \<and> mm_row m = k \<and> mm_to m = rw_commit_lane r \<and>
      i \<noteq> rw_commit_lane r" by metis
  then show ?thesis unfolding merge_marker_of_def Some
    by (cases m) auto
qed

text \<open>
  A merge commit has a marker for each of its further parents, at the lane that waits for
  the parent, unless this lane came to stand in the column of the commit itself; there are no
  other markers. Every further parent does have a lane.
\<close>

theorem merge_markers_exact:
  assumes "id_budget commits < 18446744073709551616" "assign_lanes commits = Some rows"
  shows "(m \<in> set (build_merge_markers rows) \<longleftrightarrow>
      (\<exists>r l. get rows (mm_row m) = Some r \<and> get (rw_out r) (mm_from m) = Some l \<and>
         ln_expecting l \<in> set (drop 1 (cm_parents (rw_commit r))) \<and> mm_color m = ln_branch l \<and>
         mm_to m = rw_commit_lane r \<and> mm_from m \<noteq> rw_commit_lane r)) \<and>
    (\<forall>r\<in>set rows. \<forall>p\<in>set (cm_parents (rw_commit r)). \<exists>l\<in>set (rw_out r). ln_expecting l = p)"
proof -
  have ok: "rows_ok [] rows" using assign_lanes_ok [OF assms(1)] assms(2) by auto
  have "merge_marker_of (0 + i) (rows ! i) p = Some m \<longleftrightarrow>
      (\<exists>l. get (rw_out (rows ! i)) (mm_from m) = Some l \<and> ln_expecting l = p \<and> mm_color m = ln_branch l \<and>
         mm_row m = 0 + i \<and> mm_to m = rw_commit_lane (rows ! i) \<and> mm_from m \<noteq> rw_commit_lane (rows ! i))"
    if "i < length rows" for i p
    using rows_ok_nth [OF ok that] by (rule merge_marker_of_Some)
  then have "m \<in> set (build_merge_markers rows) \<longleftrightarrow>
      (\<exists>r l. get rows (mm_row m) = Some r \<and> get (rw_out r) (mm_from m) = Some l \<and>
         ln_expecting l \<in> set (drop 1 (cm_parents (rw_commit r))) \<and> mm_color m = ln_branch l \<and>
         mm_to m = rw_commit_lane r \<and> mm_from m \<noteq> rw_commit_lane r)"
    (is "_ \<longleftrightarrow> ?marked")
  proof -
    assume eq: "\<And>i p. i < length rows \<Longrightarrow> merge_marker_of (0 + i) (rows ! i) p = Some m \<longleftrightarrow>
      (\<exists>l. get (rw_out (rows ! i)) (mm_from m) = Some l \<and> ln_expecting l = p \<and> mm_color m = ln_branch l \<and>
         mm_row m = 0 + i \<and> mm_to m = rw_commit_lane (rows ! i) \<and> mm_from m \<noteq> rw_commit_lane (rows ! i))"
    show ?thesis
    proof
      assume "m \<in> set (build_merge_markers rows)"
      then obtain i p where "i < length rows" "p \<in> set (drop 1 (cm_parents (rw_commit (rows ! i))))"
        "merge_marker_of (0 + i) (rows ! i) p = Some m"
        unfolding build_merge_markers_def marker_loop_set by blast
      with eq [of i p] obtain l where l: "get (rw_out (rows ! i)) (mm_from m) = Some l" "ln_expecting l = p"
        "mm_color m = ln_branch l" "mm_row m = i" "mm_to m = rw_commit_lane (rows ! i)"
        "mm_from m \<noteq> rw_commit_lane (rows ! i)" by auto
      have "get rows (mm_row m) = Some (rows ! i)" using l(4) \<open>i < length rows\<close> by (simp add: get_Some)
      with l \<open>p \<in> set (drop 1 (cm_parents (rw_commit (rows ! i))))\<close> show ?marked by blast
    next
      assume ?marked
      then obtain l where "mm_row m < length rows" "get (rw_out (rows ! mm_row m)) (mm_from m) = Some l"
        "ln_expecting l \<in> set (drop 1 (cm_parents (rw_commit (rows ! mm_row m))))" "mm_color m = ln_branch l"
        "mm_to m = rw_commit_lane (rows ! mm_row m)" "mm_from m \<noteq> rw_commit_lane (rows ! mm_row m)"
        unfolding get_Some [of rows] by blast
      with eq [of "mm_row m" "ln_expecting l"] have "merge_marker_of (0 + mm_row m) (rows ! mm_row m) (ln_expecting l) = Some m"
        by simp
      with \<open>mm_row m < length rows\<close> \<open>ln_expecting l \<in> _\<close> show "m \<in> set (build_merge_markers rows)"
        unfolding build_merge_markers_def marker_loop_set by blast
    qed
  qed
  moreover have "\<exists>l\<in>set (rw_out r). ln_expecting l = p"
    if "r \<in> set rows" "p \<in> set (cm_parents (rw_commit r))" for r p
  proof -
    from that(1) obtain i where i: "i < length rows" "rows ! i = r" by (auto simp: in_set_conv_nth)
    have "p \<in> set (exps (rw_out r))"
      using rows_ok_nth [OF ok i(1)] that(2) unfolding i(2) row_ok_def by blast
    then show ?thesis by auto
  qed
  ultimately show ?thesis by (intro conjI ballI)
qed

lemma merge_markers_exact_witness:
  "\<exists>rows. assign_lanes example_log = Some rows \<and>
     (\<forall>r\<in>set rows. \<forall>p\<in>set (cm_parents (rw_commit r)). \<exists>l\<in>set (rw_out r). ln_expecting l = p)"
proof -
  have "id_budget example_log < 18446744073709551616" by (simp add: example_log_def id_budget_def)
  moreover from assign_lanes_ok [OF this] obtain rows where "assign_lanes example_log = Some rows" by blast
  ultimately show ?thesis using merge_markers_exact [of example_log rows] by blast
qed

end
