(* ===== verification/Vt_Attrs.thy ===== *)
theory Vt_Attrs
  imports Text "HOL-Library.Word"
begin

unbundle bit_operations_syntax

text \<open>
  The drawing attributes of the terminal emulator
  (\<open>src/core/crates/vt100-winsmux/src/attrs.rs\<close>, the attributes of \<open>term.rs\<close> and SGR of
  \<open>screen.rs\<close>): colours and the mode byte, the escape codes that turn one set of attributes
  into another, and the reading of the SGR parameters. The parameters of a control sequence
  are what the \<open>vte\<close> crate hands over, a list of lists of 16-bit numbers.
\<close>

section \<open>Attributes\<close>

datatype color = Color_Default | Idx "8 word" | Rgb "8 word" "8 word" "8 word"

definition TEXT_MODE_INTENSITY :: "8 word" where "TEXT_MODE_INTENSITY = 3"
definition TEXT_MODE_BOLD :: "8 word" where "TEXT_MODE_BOLD = 1"
definition TEXT_MODE_DIM :: "8 word" where "TEXT_MODE_DIM = 2"
definition TEXT_MODE_ITALIC :: "8 word" where "TEXT_MODE_ITALIC = 4"
definition TEXT_MODE_UNDERLINE :: "8 word" where "TEXT_MODE_UNDERLINE = 8"
definition TEXT_MODE_INVERSE :: "8 word" where "TEXT_MODE_INVERSE = 16"
definition TEXT_MODE_BLINK :: "8 word" where "TEXT_MODE_BLINK = 32"
definition TEXT_MODE_HIDDEN :: "8 word" where "TEXT_MODE_HIDDEN = 64"
definition TEXT_MODE_STRIKETHROUGH :: "8 word" where "TEXT_MODE_STRIKETHROUGH = 128"

lemmas text_modes =
  TEXT_MODE_INTENSITY_def TEXT_MODE_BOLD_def TEXT_MODE_DIM_def TEXT_MODE_ITALIC_def
  TEXT_MODE_UNDERLINE_def TEXT_MODE_INVERSE_def TEXT_MODE_BLINK_def TEXT_MODE_HIDDEN_def
  TEXT_MODE_STRIKETHROUGH_def

record attrs =
  at_fg :: color
  at_bg :: color
  at_mode :: "8 word"

definition default_attrs :: attrs where
  "default_attrs = \<lparr>at_fg = Color_Default, at_bg = Color_Default, at_mode = 0\<rparr>"

definition attr_bold :: "attrs \<Rightarrow> bool" where
  "attr_bold a = (at_mode a AND TEXT_MODE_BOLD \<noteq> 0)"

definition attr_dim :: "attrs \<Rightarrow> bool" where
  "attr_dim a = (at_mode a AND TEXT_MODE_DIM \<noteq> 0)"

definition attr_intensity :: "attrs \<Rightarrow> 8 word" where
  "attr_intensity a = at_mode a AND TEXT_MODE_INTENSITY"

definition set_bold :: "attrs \<Rightarrow> attrs" where
  "set_bold a = a\<lparr>at_mode := (at_mode a AND NOT TEXT_MODE_INTENSITY) OR TEXT_MODE_BOLD\<rparr>"

definition set_dim :: "attrs \<Rightarrow> attrs" where
  "set_dim a = a\<lparr>at_mode := (at_mode a AND NOT TEXT_MODE_INTENSITY) OR TEXT_MODE_DIM\<rparr>"

definition set_normal_intensity :: "attrs \<Rightarrow> attrs" where
  "set_normal_intensity a = a\<lparr>at_mode := at_mode a AND NOT TEXT_MODE_INTENSITY\<rparr>"

definition attr_italic :: "attrs \<Rightarrow> bool" where
  "attr_italic a = (at_mode a AND TEXT_MODE_ITALIC \<noteq> 0)"

definition set_italic :: "bool \<Rightarrow> attrs \<Rightarrow> attrs" where
  "set_italic on a = a\<lparr>at_mode := (if on then at_mode a OR TEXT_MODE_ITALIC else at_mode a AND NOT TEXT_MODE_ITALIC)\<rparr>"

definition attr_underline :: "attrs \<Rightarrow> bool" where
  "attr_underline a = (at_mode a AND TEXT_MODE_UNDERLINE \<noteq> 0)"

definition set_underline :: "bool \<Rightarrow> attrs \<Rightarrow> attrs" where
  "set_underline on a =
     a\<lparr>at_mode := (if on then at_mode a OR TEXT_MODE_UNDERLINE else at_mode a AND NOT TEXT_MODE_UNDERLINE)\<rparr>"

definition attr_inverse :: "attrs \<Rightarrow> bool" where
  "attr_inverse a = (at_mode a AND TEXT_MODE_INVERSE \<noteq> 0)"

definition set_inverse :: "bool \<Rightarrow> attrs \<Rightarrow> attrs" where
  "set_inverse on a =
     a\<lparr>at_mode := (if on then at_mode a OR TEXT_MODE_INVERSE else at_mode a AND NOT TEXT_MODE_INVERSE)\<rparr>"

definition attr_blink :: "attrs \<Rightarrow> bool" where
  "attr_blink a = (at_mode a AND TEXT_MODE_BLINK \<noteq> 0)"

definition set_blink :: "bool \<Rightarrow> attrs \<Rightarrow> attrs" where
  "set_blink on a = a\<lparr>at_mode := (if on then at_mode a OR TEXT_MODE_BLINK else at_mode a AND NOT TEXT_MODE_BLINK)\<rparr>"

definition attr_hidden :: "attrs \<Rightarrow> bool" where
  "attr_hidden a = (at_mode a AND TEXT_MODE_HIDDEN \<noteq> 0)"

definition set_hidden :: "bool \<Rightarrow> attrs \<Rightarrow> attrs" where
  "set_hidden on a = a\<lparr>at_mode := (if on then at_mode a OR TEXT_MODE_HIDDEN else at_mode a AND NOT TEXT_MODE_HIDDEN)\<rparr>"

definition attr_strikethrough :: "attrs \<Rightarrow> bool" where
  "attr_strikethrough a = (at_mode a AND TEXT_MODE_STRIKETHROUGH \<noteq> 0)"

definition set_strikethrough :: "bool \<Rightarrow> attrs \<Rightarrow> attrs" where
  "set_strikethrough on a =
     a\<lparr>at_mode := (if on then at_mode a OR TEXT_MODE_STRIKETHROUGH else at_mode a AND NOT TEXT_MODE_STRIKETHROUGH)\<rparr>"

section \<open>Writing attributes\<close>

datatype intensity = Normal | Bold | Dim

record term_attrs =
  ta_fg :: "color option"
  ta_bg :: "color option"
  ta_intensity :: "intensity option"
  ta_italic :: "bool option"
  ta_underline :: "bool option"
  ta_inverse :: "bool option"
  ta_blink :: "bool option"
  ta_hidden :: "bool option"
  ta_strikethrough :: "bool option"

definition fg_params :: "color \<Rightarrow> nat list" where
  "fg_params c = (case c of
     Color_Default \<Rightarrow> [39]
   | Idx i \<Rightarrow> if i < 8 then [unat (i + 30)] else if i < 16 then [unat (i + 82)] else [38, 5, unat i]
   | Rgb r g b \<Rightarrow> [38, 2, unat r, unat g, unat b])"

definition bg_params :: "color \<Rightarrow> nat list" where
  "bg_params c = (case c of
     Color_Default \<Rightarrow> [49]
   | Idx i \<Rightarrow> if i < 8 then [unat (i + 40)] else if i < 16 then [unat (i + 92)] else [48, 5, unat i]
   | Rgb r g b \<Rightarrow> [48, 2, unat r, unat g, unat b])"

definition intensity_params :: "intensity \<Rightarrow> nat list" where
  "intensity_params i = (case i of Normal \<Rightarrow> [22] | Bold \<Rightarrow> [1] | Dim \<Rightarrow> [2])"

definition flag_params :: "nat \<Rightarrow> nat \<Rightarrow> bool \<Rightarrow> nat list" where
  "flag_params yes no on = (if on then [yes] else [no])"

definition term_attrs_params :: "term_attrs \<Rightarrow> nat list" where
  "term_attrs_params d =
     case_option [] fg_params (ta_fg d) @ case_option [] bg_params (ta_bg d) @
     case_option [] intensity_params (ta_intensity d) @
     case_option [] (flag_params 3 23) (ta_italic d) @ case_option [] (flag_params 4 24) (ta_underline d) @
     case_option [] (flag_params 7 27) (ta_inverse d) @ case_option [] (flag_params 5 25) (ta_blink d) @
     case_option [] (flag_params 8 28) (ta_hidden d) @ case_option [] (flag_params 9 29) (ta_strikethrough d)"

text \<open>A control sequence with its parameters and its final character.\<close>

fun join_params :: "nat list \<Rightarrow> string" where
  "join_params [] = []"
| "join_params [n] = show_digits n"
| "join_params (n # m # ns) = show_digits n @ CHR '';'' # join_params (m # ns)"

definition csi :: "nat list \<Rightarrow> char \<Rightarrow> string" where
  "csi ns c = char_of (27::nat) # CHR ''['' # join_params ns @ [c]"

definition write_term_attrs :: "term_attrs \<Rightarrow> string" where
  "write_term_attrs d =
     (if ta_fg d = None \<and> ta_bg d = None \<and> ta_intensity d = None \<and> ta_italic d = None \<and>
         ta_underline d = None \<and> ta_inverse d = None \<and> ta_blink d = None \<and> ta_hidden d = None \<and>
         ta_strikethrough d = None
      then [] else csi (term_attrs_params d) (CHR ''m''))"

definition ClearAttrs :: string where
  "ClearAttrs = csi [] (CHR ''m'')"

text \<open>The difference of two attributes; an impossible intensity is the panic of \<open>unreachable!\<close>.\<close>

definition intensity_of :: "8 word \<Rightarrow> intensity option" where
  "intensity_of i =
     (if i = 0 then Some Normal else if i = TEXT_MODE_BOLD then Some Bold
      else if i = TEXT_MODE_DIM then Some Dim else None)"

definition changed :: "'a \<Rightarrow> 'a \<Rightarrow> 'a option" where
  "changed x y = (if x = y then None else Some x)"

definition attrs_diff :: "attrs \<Rightarrow> attrs \<Rightarrow> term_attrs option" where
  "attrs_diff a b =
     (let d = (\<lambda>i. \<lparr>ta_fg = changed (at_fg a) (at_fg b), ta_bg = changed (at_bg a) (at_bg b),
                    ta_intensity = i,
                    ta_italic = changed (attr_italic a) (attr_italic b),
                    ta_underline = changed (attr_underline a) (attr_underline b),
                    ta_inverse = changed (attr_inverse a) (attr_inverse b),
                    ta_blink = changed (attr_blink a) (attr_blink b),
                    ta_hidden = changed (attr_hidden a) (attr_hidden b),
                    ta_strikethrough = changed (attr_strikethrough a) (attr_strikethrough b)\<rparr>)
      in if attr_intensity a = attr_intensity b then Some (d None)
         else map_option (\<lambda>i. d (Some i)) (intensity_of (attr_intensity a)))"

definition write_escape_code_diff :: "attrs \<Rightarrow> attrs \<Rightarrow> string option" where
  "write_escape_code_diff a b =
     (if a \<noteq> b \<and> a = default_attrs then Some ClearAttrs else map_option write_term_attrs (attrs_diff a b))"

section \<open>Reading SGR\<close>

definition u16_to_u8 :: "nat \<Rightarrow> 8 word option" where
  "u16_to_u8 i = (if i > 255 then None else Some (of_nat i))"

text \<open>A parameter of its own that is a byte, as \<open>next_param_u8\<close> takes it.\<close>

fun next_param_u8 :: "nat list list \<Rightarrow> (8 word \<times> nat list list) option" where
  "next_param_u8 ([n] # ps) = map_option (\<lambda>b. (b, ps)) (u16_to_u8 n)"
| "next_param_u8 _ = None"

text \<open>The colour that follows 38 or 48 in parameters of its own; \<open>None\<close> where the loop returns.\<close>

definition separate_color :: "nat list list \<Rightarrow> (color \<times> nat list list) option" where
  "separate_color ps = (case ps of
     [] \<Rightarrow> None
   | q # ps1 \<Rightarrow>
       if q = [2] then
         (case next_param_u8 ps1 of None \<Rightarrow> None | Some (r, ps2) \<Rightarrow>
         (case next_param_u8 ps2 of None \<Rightarrow> None | Some (g, ps3) \<Rightarrow>
         (case next_param_u8 ps3 of None \<Rightarrow> None | Some (b, ps4) \<Rightarrow> Some (Rgb r g b, ps4))))
       else if q = [5] then map_option (\<lambda>(i, ps2). (Idx i, ps2)) (next_param_u8 ps1)
       else None)"

text \<open>
  The colour in the sub-parameters of one parameter: \<open>Some None\<close> when a number is no byte,
  where the loop returns.
\<close>

definition joined_color :: "nat \<Rightarrow> nat list \<Rightarrow> color option option" where
  "joined_color n p =
     (if length p = 5 \<and> take 2 p = [n, 2] then
        Some (case (u16_to_u8 (p ! 2), u16_to_u8 (p ! 3), u16_to_u8 (p ! 4)) of
                (Some r, Some g, Some b) \<Rightarrow> Some (Rgb r g b) | _ \<Rightarrow> None)
      else if length p = 3 \<and> take 2 p = [n, 5] then Some (map_option Idx (u16_to_u8 (p ! 2)))
      else None)"

definition in_range :: "nat \<Rightarrow> nat \<Rightarrow> nat list \<Rightarrow> bool" where
  "in_range lo hi p = (length p = 1 \<and> lo \<le> p ! 0 \<and> p ! 0 \<le> hi)"

lemma next_param_u8_shorter: "next_param_u8 ps = Some (b, rest) \<Longrightarrow> length rest < length ps"
  by (cases ps rule: next_param_u8.cases) auto

lemma separate_color_shorter: "separate_color ps = Some (c, rest) \<Longrightarrow> length rest < length ps"
  unfolding separate_color_def
  by (auto split: list.splits if_splits option.splits dest!: next_param_u8_shorter)

text \<open>The parameters that only set or clear attributes.\<close>

definition sgr_simple :: "nat list \<Rightarrow> (attrs \<Rightarrow> attrs) option" where
  "sgr_simple p =
     (if p = [0] then Some (\<lambda>_. default_attrs)
      else if p = [1] then Some set_bold
      else if p = [2] then Some set_dim
      else if p = [3] then Some (set_italic True)
      else if p = [4] then Some (set_underline True)
      else if p = [5] \<or> p = [6] then Some (set_blink True)
      else if p = [7] then Some (set_inverse True)
      else if p = [8] then Some (set_hidden True)
      else if p = [9] then Some (set_strikethrough True)
      else if p = [22] then Some set_normal_intensity
      else if p = [23] then Some (set_italic False)
      else if p = [24] then Some (set_underline False)
      else if p = [25] then Some (set_blink False)
      else if p = [27] then Some (set_inverse False)
      else if p = [28] then Some (set_hidden False)
      else if p = [29] then Some (set_strikethrough False)
      else if p = [39] then Some (\<lambda>a. a\<lparr>at_fg := Color_Default\<rparr>)
      else if p = [49] then Some (\<lambda>a. a\<lparr>at_bg := Color_Default\<rparr>)
      else None)"

text \<open>The parameters that stand for an indexed colour, with what is taken off the number.\<close>

definition sgr_indexed :: "nat list \<Rightarrow> (bool \<times> 8 word) option" where
  "sgr_indexed p =
     (if in_range 30 37 p then Some (True, 30)
      else if in_range 40 47 p then Some (False, 40)
      else if in_range 90 97 p then Some (True, 82)
      else if in_range 100 107 p then Some (False, 92)
      else None)"

definition set_color :: "bool \<Rightarrow> color \<Rightarrow> attrs \<Rightarrow> attrs" where
  "set_color fg c a = (if fg then a\<lparr>at_fg := c\<rparr> else a\<lparr>at_bg := c\<rparr>)"

function sgr_loop :: "nat list list \<Rightarrow> attrs \<Rightarrow> attrs" where
  "sgr_loop [] a = a"
| "sgr_loop (p # ps) a =
     (case sgr_simple p of
        Some f \<Rightarrow> sgr_loop ps (f a)
      | None \<Rightarrow>
      (case sgr_indexed p of
        Some (fg, off) \<Rightarrow>
          (case u16_to_u8 (p ! 0) of
             None \<Rightarrow> a
           | Some n \<Rightarrow> sgr_loop ps (set_color fg (Idx (n - off)) a))
      | None \<Rightarrow>
      (case (joined_color 38 p, joined_color 48 p) of
        (Some c, _) \<Rightarrow> (case c of None \<Rightarrow> a | Some c' \<Rightarrow> sgr_loop ps (set_color True c' a))
      | (None, Some c) \<Rightarrow> (case c of None \<Rightarrow> a | Some c' \<Rightarrow> sgr_loop ps (set_color False c' a))
      | (None, None) \<Rightarrow>
          if p = [38] \<or> p = [48] then
            (case separate_color ps of
               None \<Rightarrow> a
             | Some (c, rest) \<Rightarrow> sgr_loop rest (set_color (p = [38]) c a))
          else sgr_loop ps a)))"
  by pat_completeness auto
termination
  by (relation "measure (\<lambda>(ps, a). length ps)") (auto dest: separate_color_shorter)

definition sgr :: "nat list list \<Rightarrow> attrs \<Rightarrow> attrs" where
  "sgr params a = (if params = [] then default_attrs else sgr_loop params a)"

end
