(* ===== verification/Utf8.thy ===== *)
theory Utf8
  imports Text
begin

text \<open>
  Characters and their encodings, as the standard library of Rust has them: a character is its
  code point, a Unicode scalar value; a \<open>String\<close> is its characters or its UTF-8 bytes,
  whichever the code looks at.
\<close>

definition is_scalar :: "nat \<Rightarrow> bool" where
  "is_scalar c = (c < 1114112 \<and> \<not> (55296 \<le> c \<and> c < 57344))"

text \<open>\<open>char::encode_utf8\<close>\<close>

definition utf8 :: "nat \<Rightarrow> string" where
  "utf8 c = map char_of
     (if c < 128 then [c]
      else if c < 2048 then [192 + c div 64, 128 + c mod 64]
      else if c < 65536 then [224 + c div 4096, 128 + c div 64 mod 64, 128 + c mod 64]
      else [240 + c div 262144, 128 + c div 4096 mod 64, 128 + c div 64 mod 64, 128 + c mod 64])"

definition utf8_text :: "nat list \<Rightarrow> string" where
  "utf8_text cs = concat (map utf8 cs)"

text \<open>\<open>String::from_utf8\<close>: the bytes must be the encodings of some characters.\<close>

definition utf8_width :: "nat \<Rightarrow> nat" where
  "utf8_width b = (if b < 128 then 1 else if b < 224 then 2 else if b < 240 then 3 else 4)"

fun utf8_point :: "nat list \<Rightarrow> nat" where
  "utf8_point [a] = a"
| "utf8_point [a, b] = a mod 32 * 64 + b mod 64"
| "utf8_point [a, b, c] = a mod 16 * 4096 + b mod 64 * 64 + c mod 64"
| "utf8_point [a, b, c, d] = a mod 8 * 262144 + b mod 64 * 4096 + c mod 64 * 64 + d mod 64"
| "utf8_point _ = 0"

definition utf8_first :: "string \<Rightarrow> string" where
  "utf8_first bs = take (utf8_width (of_char (hd bs))) bs"

definition first_point :: "string \<Rightarrow> nat" where
  "first_point bs = utf8_point (map of_char (utf8_first bs))"

function from_utf8 :: "string \<Rightarrow> nat list option" where
  "from_utf8 [] = Some []"
| "from_utf8 (b # bs) =
     (if is_scalar (first_point (b # bs)) \<and> utf8 (first_point (b # bs)) = utf8_first (b # bs)
      then map_option ((#) (first_point (b # bs))) (from_utf8 (drop (utf8_width (of_char b)) (b # bs)))
      else None)"
  by pat_completeness auto
termination
  by (relation "measure length") (auto simp: utf8_width_def)

declare from_utf8.simps(2) [simp del]

section \<open>Reading back\<close>

lemma of_char_list: "map of_char (map char_of xs :: string) = map (\<lambda>n. n mod 256) (xs :: nat list)"
  by (simp add: comp_def)

lemma div_split:
  fixes c :: nat
  shows "c = c div 64 * 64 + c mod 64" "c div 64 = c div 4096 * 64 + c div 64 mod 64"
    "c div 4096 = c div 262144 * 64 + c div 4096 mod 64"
  using div_mod_decomp [of c 64] div_mod_decomp [of "c div 64" 64] div_mod_decomp [of "c div 4096" 64]
  by (simp_all add: div_mult2_eq [symmetric])

lemma utf8_bytes:
  assumes "c < 1114112"
  shows "map of_char (utf8 c) =
     (if c < 128 then [c]
      else if c < 2048 then [192 + c div 64, 128 + c mod 64]
      else if c < 65536 then [224 + c div 4096, 128 + c div 64 mod 64, 128 + c mod 64]
      else [240 + c div 262144, 128 + c div 4096 mod 64, 128 + c div 64 mod 64, 128 + c mod 64])"
proof -
  have m: "c mod 64 < 64" "c div 64 mod 64 < 64" "c div 4096 mod 64 < 64" by simp_all
  have d: "c < 2048 \<Longrightarrow> c div 64 < 32" "c < 65536 \<Longrightarrow> c div 4096 < 16" "c div 262144 < 8" using assms by linarith+
  show ?thesis
    unfolding utf8_def of_char_list using m d by (auto simp: mod_less)
qed

lemma utf8_point_of:
  assumes "c < 1114112"
  shows "utf8_point (map of_char (utf8 c)) = c"
proof -
  have d: "c < 2048 \<Longrightarrow> c div 64 < 32" "c < 65536 \<Longrightarrow> c div 4096 < 16" "c div 262144 < 8" using assms by linarith+
  have e: "(192 + a) mod 32 = a mod 32" "(224 + a) mod 16 = a mod 16" "(240 + a) mod 8 = a mod 8"
    "(128 + a) mod 64 = a mod 64" for a :: nat
    by (simp_all add: mod_add_eq [symmetric, of 192] mod_add_eq [symmetric, of 224] mod_add_eq [symmetric, of 240]
        mod_add_eq [symmetric, of 128])
  have s: "c div 64 * 64 + c mod 64 = c"
    "c div 4096 * 4096 + c div 64 mod 64 * 64 + c mod 64 = c"
    "c div 262144 * 262144 + c div 4096 mod 64 * 4096 + c div 64 mod 64 * 64 + c mod 64 = c"
    using div_split [of c] by linarith+
  show ?thesis
    unfolding utf8_bytes [OF assms] using d by (auto simp: e s)
qed

lemma utf8_width_of:
  assumes "c < 1114112"
  shows "utf8 c \<noteq> [] \<and> utf8_width (of_char (hd (utf8 c))) = length (utf8 c)"
proof -
  have d: "c < 2048 \<Longrightarrow> c div 64 < 32" "c < 65536 \<Longrightarrow> c div 4096 < 16" using assms by linarith+
  have ne: "utf8 c \<noteq> []" by (simp add: utf8_def)
  then have "of_char (hd (utf8 c)) = hd (map of_char (utf8 c) :: nat list)" by (simp add: hd_map)
  moreover have "length (utf8 c) = length (map of_char (utf8 c) :: nat list)" by simp
  ultimately show ?thesis
    unfolding utf8_bytes [OF assms] using ne d by (auto simp: utf8_width_def)
qed

lemma from_utf8_char:
  assumes "is_scalar c"
  shows "from_utf8 (utf8 c @ bs) = map_option ((#) c) (from_utf8 bs)"
proof -
  have c: "c < 1114112" using assms by (simp add: is_scalar_def)
  obtain x xs where x: "utf8 c = x # xs" "utf8_width (of_char x) = length (utf8 c)"
    using utf8_width_of [OF c] by (cases "utf8 c") auto
  have "utf8_first (utf8 c @ bs) = utf8 c" by (simp add: utf8_first_def x)
  moreover then have "first_point (utf8 c @ bs) = c" by (simp add: first_point_def utf8_point_of [OF c])
  ultimately show ?thesis
    using assms x from_utf8.simps(2) [of x "xs @ bs"] by simp
qed

lemma from_utf8_text: "\<forall>c\<in>set cs. is_scalar c \<Longrightarrow> from_utf8 (utf8_text cs) = Some cs"
  by (induction cs) (auto simp: utf8_text_def from_utf8_char)

lemma utf8_ascii: "(of_char c :: nat) < 128 \<Longrightarrow> utf8 (of_char c) = [c]"
  by (simp add: utf8_def)

lemma utf8_text_ascii: "\<forall>c\<in>set s. (of_char c :: nat) < 128 \<Longrightarrow> utf8_text (map of_char s) = s"
  by (induction s) (auto simp: utf8_text_def utf8_ascii)

end
