(* ===== verification/Vt_Cells.thy ===== *)
theory Vt_Cells
  imports Vt_Attrs Utf8
begin

text \<open>
  Cells and rows of the terminal emulator (\<open>src/core/crates/vt100-winsmux/src/cell.rs\<close> and
  \<open>row.rs\<close>). A character is its code point; its width is what the \<open>unicode-width\<close> crate says,
  a parameter. A cell keeps the UTF-8 bytes of its text in 22 bytes and its length, with two
  flags, in one byte. Out-of-range indices and slices panic: \<open>None\<close>.
\<close>

section \<open>Cells\<close>

type_synonym char_width = "nat \<Rightarrow> nat option"

definition CONTENT_BYTES :: nat where "CONTENT_BYTES = 22"
definition IS_WIDE :: "8 word" where "IS_WIDE = 128"
definition IS_WIDE_CONTINUATION :: "8 word" where "IS_WIDE_CONTINUATION = 64"
definition LEN_BITS :: "8 word" where "LEN_BITS = 31"

record vcell =
  vc_bytes :: string
  vc_len :: "8 word"
  vc_attrs :: attrs

definition cell_new :: vcell where
  "cell_new = \<lparr>vc_bytes = replicate CONTENT_BYTES (char_of (0::nat)), vc_len = 0, vc_attrs = default_attrs\<rparr>"

definition cell_len :: "vcell \<Rightarrow> nat" where
  "cell_len c = unat (vc_len c AND LEN_BITS)"

definition has_contents :: "vcell \<Rightarrow> bool" where
  "has_contents c = (cell_len c > 0)"

definition is_wide :: "vcell \<Rightarrow> bool" where
  "is_wide c = (vc_len c AND IS_WIDE \<noteq> 0)"

definition is_wide_continuation :: "vcell \<Rightarrow> bool" where
  "is_wide_continuation c = (vc_len c AND IS_WIDE_CONTINUATION \<noteq> 0)"

definition set_wide :: "bool \<Rightarrow> vcell \<Rightarrow> vcell" where
  "set_wide wide c = c\<lparr>vc_len := (if wide then vc_len c OR IS_WIDE else vc_len c AND NOT IS_WIDE)\<rparr>"

definition set_wide_continuation :: "bool \<Rightarrow> vcell \<Rightarrow> vcell" where
  "set_wide_continuation wide c =
     c\<lparr>vc_len := (if wide then vc_len c OR IS_WIDE_CONTINUATION else vc_len c AND NOT IS_WIDE_CONTINUATION)\<rparr>"

definition append_char :: "nat \<Rightarrow> nat \<Rightarrow> vcell \<Rightarrow> vcell option" where
  "append_char start ch c =
     (let bs = utf8 ch
      in if start + length bs \<le> length (vc_bytes c)
         then Some (c\<lparr>vc_bytes := take start (vc_bytes c) @ bs @ drop (start + length bs) (vc_bytes c),
                      vc_len := vc_len c + of_nat (length bs)\<rparr>)
         else None)"

definition cell_set :: "char_width \<Rightarrow> nat \<Rightarrow> attrs \<Rightarrow> vcell \<Rightarrow> vcell option" where
  "cell_set w ch a c =
     do {
       c1 \<leftarrow> append_char 0 ch (c\<lparr>vc_len := 0\<rparr>);
       Some ((set_wide (1 < (case w ch of None \<Rightarrow> 1 | Some n \<Rightarrow> n)) c1)\<lparr>vc_attrs := a\<rparr>)
     }"

definition cell_append :: "nat \<Rightarrow> vcell \<Rightarrow> vcell option" where
  "cell_append ch c =
     (if cell_len c \<ge> CONTENT_BYTES - 4 then Some c
      else let c1 = (if cell_len c = 0
                     then c\<lparr>vc_bytes := (vc_bytes c)[0 := CHR '' ''], vc_len := vc_len c + 1\<rparr> else c)
           in append_char (cell_len c1) ch c1)"

definition cell_clear :: "attrs \<Rightarrow> vcell \<Rightarrow> vcell" where
  "cell_clear a c = c\<lparr>vc_len := 0, vc_attrs := a\<rparr>"

definition cell_contents :: "vcell \<Rightarrow> string" where
  "cell_contents c = take (cell_len c) (vc_bytes c)"

section \<open>Rows\<close>

record vrow =
  vr_cells :: "vcell list"
  vr_wrapped :: bool

definition row_new :: "nat \<Rightarrow> vrow" where
  "row_new cols = \<lparr>vr_cells = replicate cols cell_new, vr_wrapped = False\<rparr>"

definition row_cols :: "vrow \<Rightarrow> nat option" where
  "row_cols r = (if length (vr_cells r) < 65536 then Some (length (vr_cells r)) else None)"

definition row_clear :: "attrs \<Rightarrow> vrow \<Rightarrow> vrow" where
  "row_clear a r = r\<lparr>vr_cells := map (cell_clear a) (vr_cells r), vr_wrapped := False\<rparr>"

definition row_get :: "vrow \<Rightarrow> nat \<Rightarrow> vcell option" where
  "row_get r col = get (vr_cells r) col"

definition row_insert :: "nat \<Rightarrow> vcell \<Rightarrow> vrow \<Rightarrow> vrow option" where
  "row_insert i c r =
     (if i \<le> length (vr_cells r)
      then Some (r\<lparr>vr_cells := insert_nth i c (vr_cells r), vr_wrapped := False\<rparr>) else None)"

definition clear_wide :: "nat \<Rightarrow> vrow \<Rightarrow> vrow" where
  "clear_wide col r =
     (case get (vr_cells r) col of
        None \<Rightarrow> r
      | Some c \<Rightarrow>
          if is_wide c then
            (case get (vr_cells r) (add16 col 1) of
               None \<Rightarrow> r
             | Some n \<Rightarrow> r\<lparr>vr_cells := (vr_cells r)[add16 col 1 := cell_clear (vc_attrs n) n]\<rparr>)
          else if is_wide_continuation c then
            if col > 0 then
              (let p = vr_cells r ! (col - 1)
               in r\<lparr>vr_cells := (vr_cells r)[col - 1 := cell_clear (vc_attrs p) p]\<rparr>)
            else r
          else r)"

definition row_remove :: "nat \<Rightarrow> vrow \<Rightarrow> vrow option" where
  "row_remove i r =
     (let r1 = clear_wide i r
      in if i < length (vr_cells r1)
         then Some (r1\<lparr>vr_cells := drop_nth i (vr_cells r1), vr_wrapped := False\<rparr>) else None)"

definition row_erase :: "nat \<Rightarrow> attrs \<Rightarrow> vrow \<Rightarrow> vrow option" where
  "row_erase i a r =
     (case get (vr_cells r) i of
        None \<Rightarrow> None
      | Some c \<Rightarrow>
          let wide = is_wide c; r1 = clear_wide i r;
              r2 = r1\<lparr>vr_cells := (vr_cells r1)[i := cell_clear a (vr_cells r1 ! i)]\<rparr>
          in do {
               cols \<leftarrow> row_cols r2;
               Some (if i = sub16 cols (if wide then 2 else 1) then r2\<lparr>vr_wrapped := False\<rparr> else r2)
             })"

definition row_truncate :: "nat \<Rightarrow> vrow \<Rightarrow> vrow option" where
  "row_truncate len r =
     (let cs = take len (vr_cells r)
      in if len = 0 \<or> length cs < len then None
         else let l = cs ! (len - 1)
              in Some (r\<lparr>vr_cells := (if is_wide l then cs[len - 1 := cell_clear (vc_attrs l) l] else cs),
                         vr_wrapped := False\<rparr>))"

text \<open>\<open>Vec::resize\<close>\<close>

definition vec_resize :: "nat \<Rightarrow> 'a \<Rightarrow> 'a list \<Rightarrow> 'a list" where
  "vec_resize n x xs = take n xs @ replicate (n - length xs) x"

definition row_resize :: "nat \<Rightarrow> vcell \<Rightarrow> vrow \<Rightarrow> vrow" where
  "row_resize len c r = r\<lparr>vr_cells := vec_resize len c (vr_cells r), vr_wrapped := False\<rparr>"

definition row_wrap :: "bool \<Rightarrow> vrow \<Rightarrow> vrow" where
  "row_wrap wrap r = r\<lparr>vr_wrapped := wrap\<rparr>"

text \<open>The text of a row from a column on, over a width.\<close>

fun row_text_loop :: "(nat \<times> vcell) list \<Rightarrow> bool \<Rightarrow> nat \<Rightarrow> string \<Rightarrow> nat \<times> string" where
  "row_text_loop [] was_wide prev_col out = (prev_col, out)"
| "row_text_loop ((col, c) # cs) was_wide prev_col out =
     (if was_wide then row_text_loop cs False prev_col out
      else if has_contents c then
        (let gap = sub16 col prev_col
         in row_text_loop cs (is_wide c) (add16 (add16 prev_col gap) (if is_wide c then 2 else 1))
              (out @ replicate gap (CHR '' '') @ cell_contents c))
      else row_text_loop cs (is_wide c) prev_col out)"

definition row_write_contents :: "nat \<Rightarrow> nat \<Rightarrow> bool \<Rightarrow> vrow \<Rightarrow> string \<Rightarrow> string" where
  "row_write_contents start width wrapping r out =
     (let (prev_col, out1) =
        row_text_loop (take width (drop start (zip [0 ..< length (vr_cells r)] (vr_cells r)))) False start out
      in if prev_col = start \<and> wrapping then out1 @ [char_of (10::nat)] else out1)"

end
