(* ===== verification/Vt_Grid.thy ===== *)
theory Vt_Grid
  imports Vt_Cells
begin

text \<open>
  The grid of the terminal emulator (\<open>src/core/crates/vt100-winsmux/src/grid.rs\<close>): the rows
  on screen, the cursor and the saved cursor, the scroll region and the scrollback. Positions
  and sizes are u16 values with the wrap-around of a release build; a function that can panic
  gives an option.
\<close>

section \<open>State\<close>

record vsize =
  sz_rows :: nat
  sz_cols :: nat

record vpos =
  ps_row :: nat
  ps_col :: nat

record grid =
  gr_size :: vsize
  gr_pos :: vpos
  gr_saved_pos :: vpos
  gr_rows :: "vrow list"
  gr_top :: nat
  gr_bottom :: nat
  gr_origin :: bool
  gr_saved_origin :: bool
  gr_scrollback :: "vrow list"
  gr_limit :: nat
  gr_offset :: nat

definition origin_pos :: vpos where
  "origin_pos = \<lparr>ps_row = 0, ps_col = 0\<rparr>"

abbreviation rows_of :: "grid \<Rightarrow> nat" where
  "rows_of g \<equiv> sz_rows (gr_size g)"

abbreviation cols_of :: "grid \<Rightarrow> nat" where
  "cols_of g \<equiv> sz_cols (gr_size g)"

abbreviation cur_row :: "grid \<Rightarrow> nat" where
  "cur_row g \<equiv> ps_row (gr_pos g)"

abbreviation cur_col :: "grid \<Rightarrow> nat" where
  "cur_col g \<equiv> ps_col (gr_pos g)"

definition set_row :: "nat \<Rightarrow> grid \<Rightarrow> grid" where
  "set_row i g = g\<lparr>gr_pos := (gr_pos g)\<lparr>ps_row := i\<rparr>\<rparr>"

definition set_col :: "nat \<Rightarrow> grid \<Rightarrow> grid" where
  "set_col i g = g\<lparr>gr_pos := (gr_pos g)\<lparr>ps_col := i\<rparr>\<rparr>"

section \<open>Making, clearing, resizing\<close>

definition grid_new :: "vsize \<Rightarrow> nat \<Rightarrow> grid" where
  "grid_new sz limit =
     \<lparr>gr_size = sz, gr_pos = origin_pos, gr_saved_pos = origin_pos, gr_rows = [], gr_top = 0,
      gr_bottom = sub16 (sz_rows sz) 1, gr_origin = False, gr_saved_origin = False,
      gr_scrollback = [], gr_limit = limit, gr_offset = 0\<rparr>"

definition allocate_rows :: "grid \<Rightarrow> grid" where
  "allocate_rows g =
     (if gr_rows g = [] then g\<lparr>gr_rows := replicate (rows_of g) (row_new (cols_of g))\<rparr> else g)"

definition new_row :: "grid \<Rightarrow> vrow" where
  "new_row g = row_new (cols_of g)"

definition grid_clear :: "grid \<Rightarrow> grid" where
  "grid_clear g =
     g\<lparr>gr_pos := origin_pos, gr_saved_pos := origin_pos, gr_rows := map (row_clear default_attrs) (gr_rows g),
       gr_top := 0, gr_bottom := sub16 (rows_of g) 1, gr_origin := False, gr_saved_origin := False\<rparr>"

definition row_clamp_top :: "bool \<Rightarrow> grid \<Rightarrow> grid \<times> nat" where
  "row_clamp_top limit g =
     (if limit \<and> cur_row g < gr_top g then (set_row (gr_top g) g, gr_top g - cur_row g) else (g, 0))"

definition row_clamp_bottom :: "bool \<Rightarrow> grid \<Rightarrow> grid \<times> nat" where
  "row_clamp_bottom limit g =
     (let bottom = (if limit then gr_bottom g else sub16 (rows_of g) 1)
      in if cur_row g > bottom then (set_row bottom g, cur_row g - bottom) else (g, 0))"

definition row_clamp :: "grid \<Rightarrow> grid" where
  "row_clamp g = (if cur_row g > sub16 (rows_of g) 1 then set_row (sub16 (rows_of g) 1) g else g)"

definition col_clamp :: "grid \<Rightarrow> grid" where
  "col_clamp g = (if cur_col g > sub16 (cols_of g) 1 then set_col (sub16 (cols_of g) 1) g else g)"

definition fit_region :: "grid \<Rightarrow> grid" where
  "fit_region g =
     (let g1 = (if gr_bottom g \<ge> rows_of g then g\<lparr>gr_bottom := sub16 (rows_of g) 1\<rparr> else g)
      in if gr_bottom g1 < gr_top g1 then g1\<lparr>gr_top := 0\<rparr> else g1)"

definition clamp_saved :: "grid \<Rightarrow> grid" where
  "clamp_saved g =
     (let g1 = (if ps_row (gr_saved_pos g) > sub16 (rows_of g) 1
                then g\<lparr>gr_saved_pos := (gr_saved_pos g)\<lparr>ps_row := sub16 (rows_of g) 1\<rparr>\<rparr> else g)
      in if ps_col (gr_saved_pos g1) > sub16 (cols_of g1) 1
         then g1\<lparr>gr_saved_pos := (gr_saved_pos g1)\<lparr>ps_col := sub16 (cols_of g1) 1\<rparr>\<rparr> else g1)"

definition resize_rows :: "vsize \<Rightarrow> grid \<Rightarrow> grid" where
  "resize_rows sz g =
     (let g1 = g\<lparr>gr_size := sz\<rparr>;
          g2 = g1\<lparr>gr_rows := map (row_resize (sz_cols sz) cell_new) (gr_rows g1)\<rparr>
      in g2\<lparr>gr_rows := vec_resize (sz_rows sz) (new_row g2) (gr_rows g2)\<rparr>)"

definition grid_set_size :: "vsize \<Rightarrow> grid \<Rightarrow> grid" where
  "grid_set_size sz g =
     (let g1 = (if sz_cols sz \<noteq> cols_of g then g\<lparr>gr_rows := map (row_wrap False) (gr_rows g)\<rparr> else g);
          g2 = (if gr_bottom g1 = sub16 (rows_of g1) 1 then g1\<lparr>gr_bottom := sub16 (sz_rows sz) 1\<rparr> else g1);
          g3 = fit_region (resize_rows sz g2)
      in clamp_saved (col_clamp (fst (row_clamp_bottom False (fst (row_clamp_top False g3))))))"

section \<open>The cursor\<close>

definition set_pos :: "vpos \<Rightarrow> grid \<Rightarrow> grid" where
  "set_pos pos g =
     (let p = (if gr_origin g then pos\<lparr>ps_row := sat_add16 (ps_row pos) (gr_top g)\<rparr> else pos)
      in col_clamp (fst (row_clamp_bottom (gr_origin g) (fst (row_clamp_top (gr_origin g) (g\<lparr>gr_pos := p\<rparr>))))))"

definition grid_save_cursor :: "grid \<Rightarrow> grid" where
  "grid_save_cursor g = g\<lparr>gr_saved_pos := gr_pos g, gr_saved_origin := gr_origin g\<rparr>"

definition grid_restore_cursor :: "grid \<Rightarrow> grid" where
  "grid_restore_cursor g = g\<lparr>gr_pos := gr_saved_pos g, gr_origin := gr_saved_origin g\<rparr>"

definition set_origin_mode :: "bool \<Rightarrow> grid \<Rightarrow> grid" where
  "set_origin_mode mode g = set_pos origin_pos (g\<lparr>gr_origin := mode\<rparr>)"

definition in_scroll_region :: "grid \<Rightarrow> bool" where
  "in_scroll_region g = (gr_top g \<le> cur_row g \<and> cur_row g \<le> gr_bottom g)"

definition scroll_region_active :: "grid \<Rightarrow> bool" where
  "scroll_region_active g = (gr_top g \<noteq> 0 \<or> gr_bottom g \<noteq> sub16 (rows_of g) 1)"

definition set_scroll_region :: "nat \<Rightarrow> nat \<Rightarrow> grid \<Rightarrow> grid" where
  "set_scroll_region tp bottom g =
     (let b = min bottom (sub16 (rows_of g) 1);
          g1 = (if tp < b then g\<lparr>gr_top := tp, gr_bottom := b\<rparr>
                else g\<lparr>gr_top := 0, gr_bottom := sub16 (rows_of g) 1\<rparr>)
      in set_col 0 (set_row (gr_top g1) g1))"

section \<open>Rows and cells\<close>

text \<open>The rows in view. The offset into the scrollback never exceeds its length, see \<open>grid_ok\<close>.\<close>

definition visible_rows :: "grid \<Rightarrow> vrow list" where
  "visible_rows g =
     take (length (gr_rows g)) (drop (length (gr_scrollback g) - gr_offset g) (gr_scrollback g)) @
     take (length (gr_rows g) - gr_offset g) (gr_rows g)"

definition drawing_row :: "nat \<Rightarrow> grid \<Rightarrow> vrow option" where
  "drawing_row i g = get (gr_rows g) i"

definition visible_cell :: "vpos \<Rightarrow> grid \<Rightarrow> vcell option" where
  "visible_cell p g = do { r \<leftarrow> get (visible_rows g) (ps_row p); row_get r (ps_col p) }"

definition drawing_cell :: "vpos \<Rightarrow> grid \<Rightarrow> vcell option" where
  "drawing_cell p g = do { r \<leftarrow> drawing_row (ps_row p) g; row_get r (ps_col p) }"

text \<open>A row, or a cell, that the code takes mutably and unwraps.\<close>

definition on_row :: "nat \<Rightarrow> (vrow \<Rightarrow> vrow option) \<Rightarrow> grid \<Rightarrow> grid option" where
  "on_row i f g =
     (case get (gr_rows g) i of
        None \<Rightarrow> None
      | Some r \<Rightarrow> map_option (\<lambda>r'. g\<lparr>gr_rows := (gr_rows g)[i := r']\<rparr>) (f r))"

definition on_cell :: "vpos \<Rightarrow> (vcell \<Rightarrow> vcell option) \<Rightarrow> grid \<Rightarrow> grid option" where
  "on_cell p f g =
     on_row (ps_row p)
       (\<lambda>r. case row_get r (ps_col p) of
              None \<Rightarrow> None
            | Some c \<Rightarrow> map_option (\<lambda>c'. r\<lparr>vr_cells := (vr_cells r)[ps_col p := c']\<rparr>) (f c)) g"

text \<open>A cell that may be missing: nothing happens then.\<close>

definition on_cell_if :: "vpos \<Rightarrow> (vcell \<Rightarrow> vcell option) \<Rightarrow> grid \<Rightarrow> grid option" where
  "on_cell_if p f g = (if drawing_cell p g = None then Some g else on_cell p f g)"

definition on_current_row :: "(vrow \<Rightarrow> vrow option) \<Rightarrow> grid \<Rightarrow> grid option" where
  "on_current_row f g = on_row (cur_row g) f g"

definition set_scrollback :: "nat \<Rightarrow> grid \<Rightarrow> grid" where
  "set_scrollback n g = g\<lparr>gr_offset := min n (length (gr_scrollback g))\<rparr>"

definition clear_scrollback :: "grid \<Rightarrow> grid" where
  "clear_scrollback g = g\<lparr>gr_scrollback := [], gr_offset := 0\<rparr>"

section \<open>Erasing, inserting and deleting cells\<close>

definition erase_all :: "attrs \<Rightarrow> grid \<Rightarrow> grid" where
  "erase_all a g = g\<lparr>gr_rows := map (row_clear a) (gr_rows g)\<rparr>"

definition erase_row_forward :: "attrs \<Rightarrow> grid \<Rightarrow> grid option" where
  "erase_row_forward a g =
     on_current_row (each_opt (\<lambda>col. row_erase col a) [cur_col g ..< cols_of g]) g"

definition erase_row_backward :: "attrs \<Rightarrow> grid \<Rightarrow> grid option" where
  "erase_row_backward a g =
     on_current_row (each_opt (\<lambda>col. row_erase col a) [0 ..< Suc (min (cur_col g) (sub16 (cols_of g) 1))]) g"

definition erase_all_forward :: "attrs \<Rightarrow> grid \<Rightarrow> grid option" where
  "erase_all_forward a g =
     erase_row_forward a
       (g\<lparr>gr_rows := take (cur_row g + 1) (gr_rows g) @ map (row_clear a) (drop (cur_row g + 1) (gr_rows g))\<rparr>)"

definition erase_all_backward :: "attrs \<Rightarrow> grid \<Rightarrow> grid option" where
  "erase_all_backward a g =
     erase_row_backward a
       (g\<lparr>gr_rows := map (row_clear a) (take (cur_row g) (gr_rows g)) @ drop (cur_row g) (gr_rows g)\<rparr>)"

definition erase_row :: "attrs \<Rightarrow> grid \<Rightarrow> grid option" where
  "erase_row a g = on_current_row (\<lambda>r. Some (row_clear a r)) g"

definition set_cell_continuation :: "nat \<Rightarrow> bool \<Rightarrow> vrow \<Rightarrow> vrow option" where
  "set_cell_continuation i wide r =
     map_option (\<lambda>c. r\<lparr>vr_cells := (vr_cells r)[i := set_wide_continuation wide c]\<rparr>) (row_get r i)"

definition insert_one_cell :: "nat \<Rightarrow> bool \<Rightarrow> vrow \<Rightarrow> vrow option" where
  "insert_one_cell i wide r =
     do {
       r1 \<leftarrow> (if wide then set_cell_continuation i False r else Some r);
       r2 \<leftarrow> row_insert i cell_new r1;
       (if wide then set_cell_continuation i True r2 else Some r2)
     }"

definition insert_cells :: "nat \<Rightarrow> grid \<Rightarrow> grid option" where
  "insert_cells count g =
     do {
       wide \<leftarrow> (if cur_col g < cols_of g then map_option is_wide_continuation (drawing_cell (gr_pos g) g)
               else Some False);
       on_current_row
         (\<lambda>r. do { r1 \<leftarrow> repeat_opt count (insert_one_cell (cur_col g) wide) r; row_truncate (cols_of g) r1 }) g
     }"

definition delete_cells :: "nat \<Rightarrow> grid \<Rightarrow> grid option" where
  "delete_cells count g =
     on_current_row
       (\<lambda>r. do {
          r1 \<leftarrow> repeat_opt (min count (sub16 (cols_of g) (cur_col g))) (row_remove (cur_col g)) r;
          Some (row_resize (cols_of g) cell_new r1)
        }) g"

definition erase_cells :: "nat \<Rightarrow> attrs \<Rightarrow> grid \<Rightarrow> grid option" where
  "erase_cells count a g =
     on_current_row
       (each_opt (\<lambda>col. row_erase col a) [cur_col g ..< min (sat_add16 (cur_col g) count) (cols_of g)]) g"

section \<open>Inserting and deleting lines, scrolling\<close>

text \<open>\<open>Vec::insert\<close> and \<open>Vec::remove\<close>\<close>

definition vec_insert :: "nat \<Rightarrow> 'a \<Rightarrow> 'a list \<Rightarrow> 'a list option" where
  "vec_insert i x xs = (if i \<le> length xs then Some (insert_nth i x xs) else None)"

definition vec_remove :: "nat \<Rightarrow> 'a list \<Rightarrow> ('a \<times> 'a list) option" where
  "vec_remove i xs = (if i < length xs then Some (xs ! i, drop_nth i xs) else None)"

definition unwrap_bottom :: "grid \<Rightarrow> grid option" where
  "unwrap_bottom g = on_row (gr_bottom g) (\<lambda>r. Some (row_wrap False r)) g"

definition insert_line :: "grid \<Rightarrow> grid option" where
  "insert_line g =
     do {
       (_, rs) \<leftarrow> vec_remove (gr_bottom g) (gr_rows g);
       rs1 \<leftarrow> vec_insert (cur_row g) (new_row g) rs;
       unwrap_bottom (g\<lparr>gr_rows := rs1\<rparr>)
     }"

definition insert_lines :: "nat \<Rightarrow> grid \<Rightarrow> grid option" where
  "insert_lines count g = repeat_opt count insert_line g"

definition delete_line :: "grid \<Rightarrow> grid option" where
  "delete_line g =
     do {
       rs \<leftarrow> vec_insert (gr_bottom g + 1) (new_row g) (gr_rows g);
       (_, rs1) \<leftarrow> vec_remove (cur_row g) rs;
       Some (g\<lparr>gr_rows := rs1\<rparr>)
     }"

definition delete_lines :: "nat \<Rightarrow> grid \<Rightarrow> grid option" where
  "delete_lines count g = repeat_opt (min count (sub16 (rows_of g) (cur_row g))) delete_line g"

text \<open>A row that leaves at the top of the whole screen goes to the scrollback, which is cut at its limit.\<close>

definition keep_row :: "vrow \<Rightarrow> grid \<Rightarrow> grid" where
  "keep_row r g =
     (let sb = gr_scrollback g @ [r];
          sb1 = drop (length sb - gr_limit g) sb
      in g\<lparr>gr_scrollback := sb1,
           gr_offset := (if gr_offset g > 0 then min (length sb1) (gr_offset g + 1) else gr_offset g)\<rparr>)"

definition scroll_up_line :: "grid \<Rightarrow> grid option" where
  "scroll_up_line g =
     do {
       rs \<leftarrow> vec_insert (gr_bottom g + 1) (new_row g) (gr_rows g);
       (removed, rs1) \<leftarrow> vec_remove (gr_top g) rs;
       (let g1 = g\<lparr>gr_rows := rs1\<rparr>
        in Some (if gr_limit g1 > 0 \<and> \<not> scroll_region_active g1 then keep_row removed g1 else g1))
     }"

definition scroll_up :: "nat \<Rightarrow> grid \<Rightarrow> grid option" where
  "scroll_up count g = repeat_opt (min count (sub16 (rows_of g) (gr_top g))) scroll_up_line g"

definition scroll_down_line :: "grid \<Rightarrow> grid option" where
  "scroll_down_line g =
     do {
       (_, rs) \<leftarrow> vec_remove (gr_bottom g) (gr_rows g);
       rs1 \<leftarrow> vec_insert (gr_top g) (new_row g) rs;
       unwrap_bottom (g\<lparr>gr_rows := rs1\<rparr>)
     }"

definition scroll_down :: "nat \<Rightarrow> grid \<Rightarrow> grid option" where
  "scroll_down count g = repeat_opt count scroll_down_line g"

section \<open>Moving the cursor\<close>

definition row_inc_clamp :: "nat \<Rightarrow> grid \<Rightarrow> grid" where
  "row_inc_clamp count g =
     fst (row_clamp_bottom (in_scroll_region g) (set_row (sat_add16 (cur_row g) count) g))"

definition row_inc_scroll :: "nat \<Rightarrow> grid \<Rightarrow> (grid \<times> nat) option" where
  "row_inc_scroll count g =
     (let inside = in_scroll_region g;
          (g1, lines1) = row_clamp_bottom inside (set_row (sat_add16 (cur_row g) count) g)
      in if inside then map_option (\<lambda>g2. (g2, lines1)) (scroll_up lines1 g1) else Some (g1, 0))"

definition row_dec_clamp :: "nat \<Rightarrow> grid \<Rightarrow> grid" where
  "row_dec_clamp count g = fst (row_clamp_top (in_scroll_region g) (set_row (cur_row g - count) g))"

definition row_dec_scroll :: "nat \<Rightarrow> grid \<Rightarrow> grid option" where
  "row_dec_scroll count g =
     (let extra = count - cur_row g;
          (g1, lines1) = row_clamp_top (in_scroll_region g) (set_row (cur_row g - count) g)
      in scroll_down (add16 lines1 extra) g1)"

definition grid_row_set :: "nat \<Rightarrow> grid \<Rightarrow> grid" where
  "grid_row_set i g = row_clamp (set_row i g)"

definition col_inc :: "nat \<Rightarrow> grid \<Rightarrow> grid" where
  "col_inc count g = set_col (sat_add16 (cur_col g) count) g"

definition col_inc_clamp :: "nat \<Rightarrow> grid \<Rightarrow> grid" where
  "col_inc_clamp count g = col_clamp (col_inc count g)"

definition col_dec :: "nat \<Rightarrow> grid \<Rightarrow> grid" where
  "col_dec count g = set_col (cur_col g - count) g"

definition col_tab :: "grid \<Rightarrow> grid" where
  "col_tab g = col_clamp (set_col (add16 (cur_col g - cur_col g mod 8) 8) g)"

definition grid_col_set :: "nat \<Rightarrow> grid \<Rightarrow> grid" where
  "grid_col_set i g = col_clamp (set_col i g)"

definition col_wrap :: "nat \<Rightarrow> bool \<Rightarrow> grid \<Rightarrow> grid option" where
  "col_wrap width wrap g =
     (if cur_col g > sub16 (cols_of g) width then
        do {
          (g1, scrolled) \<leftarrow> row_inc_scroll 1 (set_col 0 g);
          (let prev = sub16 (cur_row g) scrolled
           in on_row prev (\<lambda>r. Some (row_wrap (wrap \<and> add16 prev 1 = cur_row g1) r)) g1)
        }
      else Some g)"

section \<open>Text\<close>

fun grid_text_loop :: "nat \<Rightarrow> vrow list \<Rightarrow> bool \<Rightarrow> string \<Rightarrow> string" where
  "grid_text_loop cols [] wrapping out = out"
| "grid_text_loop cols (r # rs) wrapping out =
     (let out1 = row_write_contents 0 cols wrapping r out;
          out2 = (if vr_wrapped r then out1 else out1 @ [char_of (10::nat)])
      in grid_text_loop cols rs (vr_wrapped r) out2)"

definition grid_write_contents :: "grid \<Rightarrow> string" where
  "grid_write_contents g =
     rev (dropWhile (\<lambda>c. c = char_of (10::nat)) (rev (grid_text_loop (cols_of g) (visible_rows g) False [])))"

end
