(* ===== verification/Vt_Screen.thy ===== *)
theory Vt_Screen
  imports Vt_Grid
begin

text \<open>
  The screen of the terminal emulator (\<open>src/core/crates/vt100-winsmux/src/screen.rs\<close>) and the
  dispatch of terminal events to it (\<open>perform.rs\<close>, \<open>parser.rs\<close>). The events are those of the
  \<open>vte\<close> crate, which cuts the bytes into characters, control codes and sequences. The
  callbacks are those of the unit type, which the program uses: they do nothing.
\<close>

section \<open>Operating system commands\<close>

definition hex_val :: "char \<Rightarrow> nat option" where
  "hex_val b =
     (let n = (of_char b :: nat)
      in if 48 \<le> n \<and> n \<le> 57 then Some (n - 48)
         else if 97 \<le> n \<and> n \<le> 102 then Some (n - 97 + 10)
         else if 65 \<le> n \<and> n \<le> 70 then Some (n - 65 + 10)
         else None)"

text \<open>\<open>char::from\<close> of a byte is the code point of this number, pushed as UTF-8.\<close>

fun percent_decode :: "string \<Rightarrow> string" where
  "percent_decode [] = []"
| "percent_decode (b # bs) =
     (if b = CHR ''%'' \<and> 2 \<le> length bs then
        (case (hex_val (bs ! 0), hex_val (bs ! 1)) of
           (Some hi, Some lo) \<Rightarrow> utf8 (hi * 16 + lo) @ percent_decode (drop 2 bs)
         | _ \<Rightarrow> utf8 (of_char b) @ percent_decode bs)
      else utf8 (of_char b) @ percent_decode bs)"

definition parse_osc7_uri :: "string \<Rightarrow> string" where
  "parse_osc7_uri raw =
     percent_decode
       (case strip_prefix ''file://'' raw of
          None \<Rightarrow> raw
        | Some rest \<Rightarrow> if CHR ''/'' \<in> set rest then dropWhile (\<lambda>c. c \<noteq> CHR ''/'') rest else rest)"

text \<open>\<open>str::from_utf8\<close>: whether bytes are valid UTF-8.\<close>

definition continuation :: "nat \<Rightarrow> nat \<Rightarrow> nat \<Rightarrow> bool" where
  "continuation lo hi n = (lo \<le> n \<and> n \<le> hi)"

function utf8_valid :: "nat list \<Rightarrow> bool" where
  "utf8_valid bs = (case bs of
     [] \<Rightarrow> True
   | b # r \<Rightarrow>
       if b < 128 then utf8_valid r
       else if 194 \<le> b \<and> b \<le> 223 then
         1 \<le> length r \<and> continuation 128 191 (r ! 0) \<and> utf8_valid (drop 1 r)
       else if 224 \<le> b \<and> b \<le> 239 then
         2 \<le> length r \<and>
         continuation (if b = 224 then 160 else 128) (if b = 237 then 159 else 191) (r ! 0) \<and>
         continuation 128 191 (r ! 1) \<and> utf8_valid (drop 2 r)
       else if 240 \<le> b \<and> b \<le> 244 then
         3 \<le> length r \<and>
         continuation (if b = 240 then 144 else 128) (if b = 244 then 143 else 191) (r ! 0) \<and>
         continuation 128 191 (r ! 1) \<and> continuation 128 191 (r ! 2) \<and> utf8_valid (drop 3 r)
       else False)"
  by pat_completeness auto
termination by (relation "measure length") auto

declare utf8_valid.simps [simp del]

definition is_utf8 :: "string \<Rightarrow> bool" where
  "is_utf8 s = utf8_valid (map of_char s)"

section \<open>State\<close>

definition MODE_APPLICATION_KEYPAD :: "8 word" where "MODE_APPLICATION_KEYPAD = 1"
definition MODE_APPLICATION_CURSOR :: "8 word" where "MODE_APPLICATION_CURSOR = 2"
definition MODE_HIDE_CURSOR :: "8 word" where "MODE_HIDE_CURSOR = 4"
definition MODE_ALTERNATE_SCREEN :: "8 word" where "MODE_ALTERNATE_SCREEN = 8"
definition MODE_BRACKETED_PASTE :: "8 word" where "MODE_BRACKETED_PASTE = 16"

datatype mouse_mode = Mouse_None | Press | PressRelease | ButtonMotion | AnyMotion
datatype mouse_encoding = Enc_Default | Utf8 | Sgr

record screen =
  sc_grid :: grid
  sc_alt :: grid
  sc_attrs :: attrs
  sc_saved_attrs :: attrs
  sc_modes :: "8 word"
  sc_mouse_mode :: mouse_mode
  sc_mouse_encoding :: mouse_encoding
  sc_title :: string
  sc_path :: "string option"
  sc_squelch_cleared :: bool
  sc_squelch_pending :: bool
  sc_bells :: nat

definition screen_new :: "vsize \<Rightarrow> nat \<Rightarrow> screen" where
  "screen_new sz limit =
     \<lparr>sc_grid = allocate_rows (grid_new sz limit), sc_alt = grid_new sz 0, sc_attrs = default_attrs,
      sc_saved_attrs = default_attrs, sc_modes = 0, sc_mouse_mode = Mouse_None,
      sc_mouse_encoding = Enc_Default, sc_title = [], sc_path = None, sc_squelch_cleared = False,
      sc_squelch_pending = False, sc_bells = 0\<rparr>"

definition set_mode :: "8 word \<Rightarrow> screen \<Rightarrow> screen" where
  "set_mode m s = s\<lparr>sc_modes := sc_modes s OR m\<rparr>"

definition clear_mode :: "8 word \<Rightarrow> screen \<Rightarrow> screen" where
  "clear_mode m s = s\<lparr>sc_modes := sc_modes s AND NOT m\<rparr>"

definition has_mode :: "8 word \<Rightarrow> screen \<Rightarrow> bool" where
  "has_mode m s = (sc_modes s AND m \<noteq> 0)"

text \<open>The grid in use, read and changed.\<close>

definition grid_of :: "screen \<Rightarrow> grid" where
  "grid_of s = (if has_mode MODE_ALTERNATE_SCREEN s then sc_alt s else sc_grid s)"

definition on_grid :: "(grid \<Rightarrow> grid) \<Rightarrow> screen \<Rightarrow> screen" where
  "on_grid f s =
     (if has_mode MODE_ALTERNATE_SCREEN s then s\<lparr>sc_alt := f (sc_alt s)\<rparr> else s\<lparr>sc_grid := f (sc_grid s)\<rparr>)"

definition on_grid_opt :: "(grid \<Rightarrow> grid option) \<Rightarrow> screen \<Rightarrow> screen option" where
  "on_grid_opt f s = map_option (\<lambda>g. on_grid (\<lambda>_. g) s) (f (grid_of s))"

definition screen_set_size :: "nat \<Rightarrow> nat \<Rightarrow> screen \<Rightarrow> screen" where
  "screen_set_size rows cols s =
     (let sz = \<lparr>sz_rows = rows, sz_cols = cols\<rparr>
      in s\<lparr>sc_grid := grid_set_size sz (sc_grid s), sc_alt := grid_set_size sz (sc_alt s)\<rparr>)"

definition screen_set_scrollback :: "nat \<Rightarrow> screen \<Rightarrow> screen" where
  "screen_set_scrollback n s = on_grid (set_scrollback n) s"

definition screen_contents :: "screen \<Rightarrow> string" where
  "screen_contents s = grid_write_contents (grid_of s)"

text \<open>The text of the rows, cut to some columns, and the text between two cells.\<close>

definition screen_rows :: "nat \<Rightarrow> nat \<Rightarrow> screen \<Rightarrow> string list" where
  "screen_rows start width s = map (\<lambda>r. row_write_contents start width False r []) (visible_rows (grid_of s))"

fun between_loop :: "nat \<Rightarrow> nat \<Rightarrow> nat \<Rightarrow> nat \<Rightarrow> nat \<Rightarrow> (nat \<times> vrow) list \<Rightarrow> string \<Rightarrow> string" where
  "between_loop cols start_row start_col end_row end_col [] out = out"
| "between_loop cols start_row start_col end_row end_col ((i, r) # rs) out =
     between_loop cols start_row start_col end_row end_col rs
       (if i = start_row then
          (let out1 = row_write_contents start_col (sub16 cols start_col) False r out
           in if vr_wrapped r then out1 else out1 @ [char_of (10::nat)])
        else if i = end_row then row_write_contents 0 end_col False r out
        else
          (let out1 = row_write_contents 0 cols False r out
           in if vr_wrapped r then out1 else out1 @ [char_of (10::nat)]))"

definition contents_between :: "nat \<Rightarrow> nat \<Rightarrow> nat \<Rightarrow> nat \<Rightarrow> screen \<Rightarrow> string" where
  "contents_between start_row start_col end_row end_col s =
     (if start_row < end_row then
        (let rs = visible_rows (grid_of s)
         in between_loop (cols_of (grid_of s)) start_row start_col end_row end_col
              (take (end_row - start_row + 1) (drop start_row (zip [0 ..< length rs] rs))) [])
      else if start_row = end_row then
        (if start_col < end_col
         then (case get (screen_rows start_col (end_col - start_col) s) start_row of None \<Rightarrow> [] | Some t \<Rightarrow> t)
         else [])
      else [])"

definition set_title :: "string \<Rightarrow> screen \<Rightarrow> screen" where
  "set_title raw s = (if is_utf8 raw then s\<lparr>sc_title := raw\<rparr> else s)"

definition set_path :: "string \<Rightarrow> screen \<Rightarrow> screen" where
  "set_path raw s =
     (if is_utf8 raw then
        (let path = parse_osc7_uri raw in if path \<noteq> [] then s\<lparr>sc_path := Some path\<rparr> else s)
      else s)"

definition take_squelch_cleared :: "screen \<Rightarrow> screen \<times> bool" where
  "take_squelch_cleared s = (s\<lparr>sc_squelch_cleared := False\<rparr>, sc_squelch_cleared s)"

definition take_audible_bell :: "screen \<Rightarrow> screen \<times> bool" where
  "take_audible_bell s = (s\<lparr>sc_bells := 0\<rparr>, sc_bells s > 0)"

definition set_squelch_clear_pending :: "bool \<Rightarrow> screen \<Rightarrow> screen" where
  "set_squelch_clear_pending v s = s\<lparr>sc_squelch_pending := v\<rparr>"

definition check_squelch_signal :: "screen \<Rightarrow> screen" where
  "check_squelch_signal s =
     (if sc_squelch_pending s then s\<lparr>sc_squelch_cleared := True, sc_squelch_pending := False\<rparr> else s)"

definition enter_alternate_grid :: "screen \<Rightarrow> screen" where
  "enter_alternate_grid s =
     (let s1 = set_mode MODE_ALTERNATE_SCREEN (on_grid (set_scrollback 0) s)
      in s1\<lparr>sc_alt := allocate_rows (sc_alt s1)\<rparr>)"

definition exit_alternate_grid :: "screen \<Rightarrow> screen" where
  "exit_alternate_grid s = clear_mode MODE_ALTERNATE_SCREEN s"

definition save_cursor :: "screen \<Rightarrow> screen" where
  "save_cursor s = (on_grid grid_save_cursor s)\<lparr>sc_saved_attrs := sc_attrs s\<rparr>"

definition restore_cursor :: "screen \<Rightarrow> screen" where
  "restore_cursor s = (on_grid grid_restore_cursor s)\<lparr>sc_attrs := sc_saved_attrs s\<rparr>"

definition set_mouse_mode :: "mouse_mode \<Rightarrow> screen \<Rightarrow> screen" where
  "set_mouse_mode m s = s\<lparr>sc_mouse_mode := m\<rparr>"

definition clear_mouse_mode :: "mouse_mode \<Rightarrow> screen \<Rightarrow> screen" where
  "clear_mouse_mode m s = (if sc_mouse_mode s = m then s\<lparr>sc_mouse_mode := Mouse_None\<rparr> else s)"

definition set_mouse_encoding :: "mouse_encoding \<Rightarrow> screen \<Rightarrow> screen" where
  "set_mouse_encoding e s = s\<lparr>sc_mouse_encoding := e\<rparr>"

definition clear_mouse_encoding :: "mouse_encoding \<Rightarrow> screen \<Rightarrow> screen" where
  "clear_mouse_encoding e s = (if sc_mouse_encoding s = e then s\<lparr>sc_mouse_encoding := Enc_Default\<rparr> else s)"

section \<open>Text\<close>

text \<open>A character of no width joins the cell before the cursor, or the end of the row above.\<close>

definition text_combining :: "nat \<Rightarrow> grid \<Rightarrow> grid option" where
  "text_combining ch g =
     (let pos = gr_pos g
      in if ps_col pos > 0 then
           (case drawing_cell (pos\<lparr>ps_col := ps_col pos - 1\<rparr>) g of
              None \<Rightarrow> None
            | Some c \<Rightarrow>
                on_cell (if is_wide_continuation c then pos\<lparr>ps_col := sub16 (ps_col pos) 2\<rparr>
                         else pos\<lparr>ps_col := ps_col pos - 1\<rparr>) (cell_append ch) g)
         else if ps_row pos > 0 then
           (case drawing_row (ps_row pos - 1) g of
              None \<Rightarrow> None
            | Some r \<Rightarrow>
                if vr_wrapped r then
                  (case drawing_cell \<lparr>ps_row = ps_row pos - 1, ps_col = sub16 (cols_of g) 1\<rparr> g of
                     None \<Rightarrow> None
                   | Some c \<Rightarrow>
                       on_cell \<lparr>ps_row = ps_row pos - 1,
                                ps_col = (if is_wide_continuation c then sub16 (cols_of g) 2 else sub16 (cols_of g) 1)\<rparr>
                         (cell_append ch) g)
                else Some g)
         else Some g)"

text \<open>The two halves of wide characters that a new character cuts are wiped.\<close>

definition text_wipe :: "char_width \<Rightarrow> attrs \<Rightarrow> grid \<Rightarrow> grid option" where
  "text_wipe w a g =
     (let pos = gr_pos g
      in do {
           g1 \<leftarrow> (case drawing_cell pos g of
                    None \<Rightarrow> Some g
                  | Some c \<Rightarrow>
                      if is_wide_continuation c
                      then on_cell_if (pos\<lparr>ps_col := sub16 (ps_col pos) 1\<rparr>) (\<lambda>p. Some (cell_clear a p)) g
                      else Some g);
           (case drawing_cell pos g1 of
              None \<Rightarrow> Some g1
            | Some c \<Rightarrow>
                if is_wide c then on_cell_if (pos\<lparr>ps_col := add16 (ps_col pos) 1\<rparr>) (cell_set w 32 a) g1
                else Some g1)
         })"

text \<open>The second half of a wide character.\<close>

definition text_second_half :: "attrs \<Rightarrow> grid \<Rightarrow> grid option" where
  "text_second_half a g =
     (let pos = gr_pos g
      in do {
           g1 \<leftarrow> (case drawing_cell pos g of
                    None \<Rightarrow> Some g
                  | Some c \<Rightarrow>
                      if is_wide c then
                        (let nn = pos\<lparr>ps_col := add16 (ps_col pos) 1\<rparr>
                         in case drawing_cell nn g of
                              None \<Rightarrow> Some g
                            | Some _ \<Rightarrow> do {
                                g2 \<leftarrow> on_cell nn (\<lambda>c. Some (cell_clear a c)) g;
                                (if ps_col nn = sub16 (cols_of g) 1
                                 then (if drawing_row (ps_row pos) g2 = None then Some g2
                                       else on_row (ps_row pos) (\<lambda>r. Some (row_wrap False r)) g2)
                                 else Some g2)
                              })
                      else Some g);
           g3 \<leftarrow> on_cell_if pos (\<lambda>c. Some (set_wide_continuation True (cell_clear default_attrs c))) g1;
           Some (col_inc 1 g3)
         })"

definition text_drawn :: "char_width \<Rightarrow> nat \<Rightarrow> nat \<Rightarrow> attrs \<Rightarrow> grid \<Rightarrow> grid option" where
  "text_drawn w width ch a g =
     do {
       g1 \<leftarrow> text_wipe w a g;
       (if drawing_cell (gr_pos g1) g1 = None then Some g1
        else do {
          g2 \<leftarrow> on_cell (gr_pos g1) (cell_set w ch a) g1;
          (if width > 1 then text_second_half a (col_inc 1 g2) else Some (col_inc 1 g2))
        })
     }"

definition text_wraps :: "nat \<Rightarrow> grid \<Rightarrow> bool option" where
  "text_wraps width g =
     (if cur_col g > sub16 (cols_of g) width then
        map_option (\<lambda>c. has_contents c \<or> is_wide_continuation c)
          (drawing_cell \<lparr>ps_row = cur_row g, ps_col = sub16 (cols_of g) 1\<rparr> g)
      else Some False)"

definition text_grid :: "char_width \<Rightarrow> nat \<Rightarrow> nat \<Rightarrow> attrs \<Rightarrow> grid \<Rightarrow> grid option" where
  "text_grid w width ch a g =
     do {
       wrap \<leftarrow> text_wraps width g;
       g1 \<leftarrow> col_wrap width wrap g;
       (if width = 0 then text_combining ch g1 else text_drawn w width ch a g1)
     }"

definition text_char :: "char_width \<Rightarrow> nat \<Rightarrow> screen \<Rightarrow> screen option" where
  "text_char w ch s =
     (if w ch = None \<and> ch < 256 then Some s
      else let width = (case w ch of None \<Rightarrow> 1 | Some n \<Rightarrow> n)
           in if 65536 \<le> width then None else on_grid_opt (text_grid w width ch (sc_attrs s)) s)"

section \<open>Control codes and sequences\<close>

definition lf :: "screen \<Rightarrow> screen option" where
  "lf s = on_grid_opt (\<lambda>g. map_option fst (row_inc_scroll 1 g)) s"

definition ris :: "screen \<Rightarrow> screen" where
  "ris s = screen_new (gr_size (sc_grid s)) (gr_limit (sc_grid s))"

definition ed :: "nat \<Rightarrow> screen \<Rightarrow> screen option" where
  "ed mode s =
     (let a = sc_attrs s
      in if mode = 0 then on_grid_opt (erase_all_forward a) s
         else if mode = 1 then on_grid_opt (erase_all_backward a) s
         else if mode = 2 then Some (check_squelch_signal (on_grid (erase_all a) s))
         else if mode = 3 then Some (check_squelch_signal (on_grid clear_scrollback s))
         else Some s)"

definition el :: "nat \<Rightarrow> screen \<Rightarrow> screen option" where
  "el mode s =
     (let a = sc_attrs s
      in if mode = 0 then on_grid_opt (erase_row_forward a) s
         else if mode = 1 then on_grid_opt (erase_row_backward a) s
         else if mode = 2 then on_grid_opt (erase_row a) s
         else Some s)"

definition cnl :: "nat \<Rightarrow> screen \<Rightarrow> screen" where
  "cnl n s = on_grid (row_inc_clamp n) (on_grid (grid_col_set 0) s)"

definition cpl :: "nat \<Rightarrow> screen \<Rightarrow> screen" where
  "cpl n s = on_grid (row_dec_clamp n) (on_grid (grid_col_set 0) s)"

definition cup :: "nat \<times> nat \<Rightarrow> screen \<Rightarrow> screen" where
  "cup p s = on_grid (set_pos \<lparr>ps_row = sub16 (fst p) 1, ps_col = sub16 (snd p) 1\<rparr>) s"

definition decstbm :: "nat \<times> nat \<Rightarrow> screen \<Rightarrow> screen" where
  "decstbm p s = on_grid (set_scroll_region (sub16 (fst p) 1) (sub16 (snd p) 1)) s"

definition decset_one :: "nat list \<Rightarrow> screen \<Rightarrow> screen" where
  "decset_one p s =
     (if p = [1] then set_mode MODE_APPLICATION_CURSOR s
      else if p = [6] then on_grid (set_origin_mode True) s
      else if p = [9] then set_mouse_mode Press s
      else if p = [25] then clear_mode MODE_HIDE_CURSOR s
      else if p = [47] then enter_alternate_grid s
      else if p = [1000] then set_mouse_mode PressRelease s
      else if p = [1002] then set_mouse_mode ButtonMotion s
      else if p = [1003] then set_mouse_mode AnyMotion s
      else if p = [1005] then set_mouse_encoding Utf8 s
      else if p = [1006] then set_mouse_encoding Sgr s
      else if p = [1049] then
        (let s1 = save_cursor s
         in enter_alternate_grid (s1\<lparr>sc_alt := grid_clear (sc_alt s1)\<rparr>))
      else if p = [2004] then set_mode MODE_BRACKETED_PASTE s
      else s)"

definition decset :: "nat list list \<Rightarrow> screen \<Rightarrow> screen" where
  "decset params s = fold decset_one params s"

definition decrst_one :: "nat list \<Rightarrow> screen \<Rightarrow> screen" where
  "decrst_one p s =
     (if p = [1] then clear_mode MODE_APPLICATION_CURSOR s
      else if p = [6] then on_grid (set_origin_mode False) s
      else if p = [9] then clear_mouse_mode Press s
      else if p = [25] then set_mode MODE_HIDE_CURSOR s
      else if p = [47] then exit_alternate_grid s
      else if p = [1000] then clear_mouse_mode PressRelease s
      else if p = [1002] then clear_mouse_mode ButtonMotion s
      else if p = [1003] then clear_mouse_mode AnyMotion s
      else if p = [1005] then clear_mouse_encoding Utf8 s
      else if p = [1006] then clear_mouse_encoding Sgr s
      else if p = [1049] then restore_cursor (exit_alternate_grid s)
      else if p = [2004] then clear_mode MODE_BRACKETED_PASTE s
      else s)"

definition decrst :: "nat list list \<Rightarrow> screen \<Rightarrow> screen" where
  "decrst params s = fold decrst_one params s"

section \<open>Dispatch\<close>

text \<open>The events of the \<open>vte\<close> crate.\<close>

datatype vt_event =
    Print nat
  | Execute nat
  | EscDispatch string char
  | CsiDispatch "nat list list" string char
  | OscDispatch "string list"

definition print_char :: "char_width \<Rightarrow> nat \<Rightarrow> screen \<Rightarrow> screen option" where
  "print_char w c s = (if c = 65533 \<or> (128 \<le> c \<and> c < 160) then Some s else text_char w c s)"

definition execute :: "nat \<Rightarrow> screen \<Rightarrow> screen option" where
  "execute b s =
     (if b = 7 then Some (s\<lparr>sc_bells := wrap32 (sc_bells s + 1)\<rparr>)
      else if b = 8 then Some (on_grid (col_dec 1) s)
      else if b = 9 then Some (on_grid col_tab s)
      else if b = 10 \<or> b = 11 \<or> b = 12 then lf s
      else if b = 13 then Some (on_grid (grid_col_set 0) s)
      else Some s)"

definition esc_dispatch :: "string \<Rightarrow> char \<Rightarrow> screen \<Rightarrow> screen option" where
  "esc_dispatch inters b s =
     (if inters \<noteq> [] then Some s
      else if b = CHR ''7'' then Some (save_cursor s)
      else if b = CHR ''8'' then Some (restore_cursor s)
      else if b = CHR ''='' then Some (set_mode MODE_APPLICATION_KEYPAD s)
      else if b = CHR ''>'' then Some (clear_mode MODE_APPLICATION_KEYPAD s)
      else if b = CHR ''M'' then on_grid_opt (row_dec_scroll 1) s
      else if b = CHR ''c'' then Some (ris s)
      else Some s)"

text \<open>The first number of a parameter, 0 for none.\<close>

definition first_of :: "nat list list \<Rightarrow> nat \<Rightarrow> nat" where
  "first_of params i = (case get params i of None \<Rightarrow> 0 | Some [] \<Rightarrow> 0 | Some (n # _) \<Rightarrow> n)"

definition canonicalize_params_1 :: "nat list list \<Rightarrow> nat \<Rightarrow> nat" where
  "canonicalize_params_1 params d = (if first_of params 0 = 0 then d else first_of params 0)"

definition canonicalize_params_2 :: "nat list list \<Rightarrow> nat \<Rightarrow> nat \<Rightarrow> nat \<times> nat" where
  "canonicalize_params_2 params d1 d2 =
     (if first_of params 0 = 0 then d1 else first_of params 0,
      if first_of params 1 = 0 then d2 else first_of params 1)"

definition canonicalize_params_decstbm :: "nat list list \<Rightarrow> vsize \<Rightarrow> nat \<times> nat" where
  "canonicalize_params_decstbm params sz =
     (if first_of params 0 = 0 then 1 else first_of params 0,
      if first_of params 1 = 0 then sz_rows sz else first_of params 1)"

definition csi_plain :: "nat list list \<Rightarrow> char \<Rightarrow> screen \<Rightarrow> screen option" where
  "csi_plain params c s =
     (let n1 = canonicalize_params_1 params 1; n0 = canonicalize_params_1 params 0
      in if c = CHR ''@'' then on_grid_opt (insert_cells n1) s
         else if c = CHR ''A'' then Some (on_grid (row_dec_clamp n1) s)
         else if c = CHR ''B'' then Some (on_grid (row_inc_clamp n1) s)
         else if c = CHR ''C'' then Some (on_grid (col_inc_clamp n1) s)
         else if c = CHR ''D'' then Some (on_grid (col_dec n1) s)
         else if c = CHR ''E'' then Some (cnl n1 s)
         else if c = CHR ''F'' then Some (cpl n1 s)
         else if c = CHR ''G'' then Some (on_grid (grid_col_set (sub16 n1 1)) s)
         else if c = CHR ''H'' \<or> c = CHR ''f'' then Some (cup (canonicalize_params_2 params 1 1) s)
         else if c = CHR ''J'' then ed n0 s
         else if c = CHR ''K'' then el n0 s
         else if c = CHR ''L'' then on_grid_opt (insert_lines n1) s
         else if c = CHR ''M'' then on_grid_opt (delete_lines n1) s
         else if c = CHR ''P'' then on_grid_opt (delete_cells n1) s
         else if c = CHR ''S'' then on_grid_opt (scroll_up n1) s
         else if c = CHR ''T'' then on_grid_opt (scroll_down n1) s
         else if c = CHR ''X'' then on_grid_opt (erase_cells n1 (sc_attrs s)) s
         else if c = CHR ''d'' then Some (on_grid (grid_row_set (sub16 n1 1)) s)
         else if c = CHR ''m'' then Some (s\<lparr>sc_attrs := sgr params (sc_attrs s)\<rparr>)
         else if c = CHR ''r'' then
           Some (decstbm (canonicalize_params_decstbm params (gr_size (grid_of s))) s)
         else if c = CHR ''s'' then Some (save_cursor s)
         else if c = CHR ''u'' then Some (restore_cursor s)
         else Some s)"

definition csi_private :: "nat list list \<Rightarrow> char \<Rightarrow> screen \<Rightarrow> screen option" where
  "csi_private params c s =
     (if c = CHR ''J'' then ed (canonicalize_params_1 params 0) s
      else if c = CHR ''K'' then el (canonicalize_params_1 params 0) s
      else if c = CHR ''h'' then Some (decset params s)
      else if c = CHR ''l'' then Some (decrst params s)
      else Some s)"

definition csi_dispatch :: "nat list list \<Rightarrow> string \<Rightarrow> char \<Rightarrow> screen \<Rightarrow> screen option" where
  "csi_dispatch params inters c s =
     (case inters of
        [] \<Rightarrow> csi_plain params c s
      | i # _ \<Rightarrow> if i = CHR ''?'' then csi_private params c s else Some s)"

definition osc_dispatch :: "string list \<Rightarrow> screen \<Rightarrow> screen" where
  "osc_dispatch params s =
     (case params of
        [] \<Rightarrow> s
      | p # rest \<Rightarrow>
          if p = ''9999'' then s\<lparr>sc_squelch_cleared := True\<rparr>
          else if length rest = 1 \<and> (p = ''0'' \<or> p = ''2'') then set_title (rest ! 0) s
          else if length rest = 1 \<and> p = ''7'' then set_path (rest ! 0) s
          else s)"

definition perform :: "char_width \<Rightarrow> vt_event \<Rightarrow> screen \<Rightarrow> screen option" where
  "perform w e s = (case e of
     Print c \<Rightarrow> print_char w c s
   | Execute b \<Rightarrow> execute b s
   | EscDispatch inters b \<Rightarrow> esc_dispatch inters b s
   | CsiDispatch params inters c \<Rightarrow> csi_dispatch params inters c s
   | OscDispatch params \<Rightarrow> Some (osc_dispatch params s))"

text \<open>\<open>Parser::process\<close>: the \<open>vte\<close> parser, a parameter, turns bytes into events.\<close>

definition process :: "char_width \<Rightarrow> ('p \<Rightarrow> string \<Rightarrow> 'p \<times> vt_event list) \<Rightarrow> string \<Rightarrow> 'p \<times> screen \<Rightarrow> ('p \<times> screen) option" where
  "process w vte bytes ps =
     (let (p', es) = vte (fst ps) bytes
      in map_option (\<lambda>s. (p', s)) (each_opt (perform w) es (snd ps)))"

end
