(* ===== verification/Vt_Attrs_Props.thy ===== *)
theory Vt_Attrs_Props
  imports Vt_Attrs
begin

text \<open>
  What holds of the drawing attributes: the flags of the mode byte are independent of each
  other, and a terminal that reads the codes written for a change of attributes has made it.
\<close>

section \<open>The bits of the mode byte\<close>

lemma flag_bit:
  fixes m :: "8 word"
  shows "m AND 1 \<noteq> 0 \<longleftrightarrow> bit m 0" "m AND 2 \<noteq> 0 \<longleftrightarrow> bit m 1" "m AND 4 \<noteq> 0 \<longleftrightarrow> bit m 2"
    "m AND 8 \<noteq> 0 \<longleftrightarrow> bit m 3" "m AND 16 \<noteq> 0 \<longleftrightarrow> bit m 4" "m AND 32 \<noteq> 0 \<longleftrightarrow> bit m 5"
    "m AND 64 \<noteq> 0 \<longleftrightarrow> bit m 6" "m AND 128 \<noteq> 0 \<longleftrightarrow> bit m 7"
  using and_exp_eq_0_iff_not_bit [of m 0] and_exp_eq_0_iff_not_bit [of m 1]
    and_exp_eq_0_iff_not_bit [of m 2] and_exp_eq_0_iff_not_bit [of m 3]
    and_exp_eq_0_iff_not_bit [of m 4] and_exp_eq_0_iff_not_bit [of m 5]
    and_exp_eq_0_iff_not_bit [of m 6] and_exp_eq_0_iff_not_bit [of m 7]
  by simp_all

lemma attr_bits:
  "attr_italic a \<longleftrightarrow> bit (at_mode a) 2" "attr_underline a \<longleftrightarrow> bit (at_mode a) 3"
  "attr_inverse a \<longleftrightarrow> bit (at_mode a) 4" "attr_blink a \<longleftrightarrow> bit (at_mode a) 5"
  "attr_hidden a \<longleftrightarrow> bit (at_mode a) 6" "attr_strikethrough a \<longleftrightarrow> bit (at_mode a) 7"
  "attr_bold a \<longleftrightarrow> bit (at_mode a) 0" "attr_dim a \<longleftrightarrow> bit (at_mode a) 1"
  by (simp_all only: attr_italic_def attr_underline_def attr_inverse_def attr_blink_def attr_hidden_def
        attr_strikethrough_def attr_bold_def attr_dim_def text_modes flag_bit)

lemma bit_flag_mask:
  assumes "n < 8"
  shows "bit (1 :: 8 word) n \<longleftrightarrow> n = 0" "bit (2 :: 8 word) n \<longleftrightarrow> n = 1" "bit (4 :: 8 word) n \<longleftrightarrow> n = 2"
    "bit (8 :: 8 word) n \<longleftrightarrow> n = 3" "bit (16 :: 8 word) n \<longleftrightarrow> n = 4" "bit (32 :: 8 word) n \<longleftrightarrow> n = 5"
    "bit (64 :: 8 word) n \<longleftrightarrow> n = 6" "bit (128 :: 8 word) n \<longleftrightarrow> n = 7" "bit (3 :: 8 word) n \<longleftrightarrow> n = 0 \<or> n = 1"
  using assms
  by (auto simp: less_Suc_eq numeral_eq_Suc)

text \<open>Every setter changes its own bits and no others, and leaves the colours.\<close>

lemma bit_set_flag:
  fixes m c :: "8 word"
  assumes "n < 8" "bit c n \<longleftrightarrow> n = k"
  shows "bit (if on then m OR c else m AND NOT c) n \<longleftrightarrow> (if n = k then on else bit m n)"
  using assms by (cases "n = k") (auto simp: bit_or_iff bit_and_iff bit_not_iff)

lemma bit_set_intensity:
  fixes m c :: "8 word"
  assumes "n < 8"
  shows "bit (m AND NOT 3) n \<longleftrightarrow> (if n < 2 then False else bit m n)"
    and "(bit c n \<longleftrightarrow> n = k) \<Longrightarrow> k < 2 \<Longrightarrow>
      bit ((m AND NOT 3) OR c) n \<longleftrightarrow> (if n < 2 then n = k else bit m n)"
proof -
  have "bit (m AND NOT 3) n \<longleftrightarrow> bit m n \<and> \<not> bit (3 :: 8 word) n"
    using assms by (simp only: bit_and_iff bit_not_iff possible_bit_word) simp
  then show "bit (m AND NOT 3) n \<longleftrightarrow> (if n < 2 then False else bit m n)"
    unfolding bit_flag_mask(9) [OF assms] by auto
  then show "(bit c n \<longleftrightarrow> n = k) \<Longrightarrow> k < 2 \<Longrightarrow>
      bit ((m AND NOT 3) OR c) n \<longleftrightarrow> (if n < 2 then n = k else bit m n)"
    by (simp add: bit_or_iff)
qed

lemma set_bits:
  assumes "n < 8"
  shows "bit (at_mode (set_italic on a)) n \<longleftrightarrow> (if n = 2 then on else bit (at_mode a) n)"
    "bit (at_mode (set_underline on a)) n \<longleftrightarrow> (if n = 3 then on else bit (at_mode a) n)"
    "bit (at_mode (set_inverse on a)) n \<longleftrightarrow> (if n = 4 then on else bit (at_mode a) n)"
    "bit (at_mode (set_blink on a)) n \<longleftrightarrow> (if n = 5 then on else bit (at_mode a) n)"
    "bit (at_mode (set_hidden on a)) n \<longleftrightarrow> (if n = 6 then on else bit (at_mode a) n)"
    "bit (at_mode (set_strikethrough on a)) n \<longleftrightarrow> (if n = 7 then on else bit (at_mode a) n)"
    "bit (at_mode (set_bold a)) n \<longleftrightarrow> (if n < 2 then n = 0 else bit (at_mode a) n)"
    "bit (at_mode (set_dim a)) n \<longleftrightarrow> (if n < 2 then n = 1 else bit (at_mode a) n)"
    "bit (at_mode (set_normal_intensity a)) n \<longleftrightarrow> (if n < 2 then False else bit (at_mode a) n)"
  unfolding set_italic_def set_underline_def set_inverse_def set_blink_def set_hidden_def
    set_strikethrough_def set_bold_def set_dim_def set_normal_intensity_def text_modes
    attrs.select_convs attrs.update_convs
  using bit_set_flag [OF assms bit_flag_mask(3) [OF assms], of on "at_mode a"]
    bit_set_flag [OF assms bit_flag_mask(4) [OF assms], of on "at_mode a"]
    bit_set_flag [OF assms bit_flag_mask(5) [OF assms], of on "at_mode a"]
    bit_set_flag [OF assms bit_flag_mask(6) [OF assms], of on "at_mode a"]
    bit_set_flag [OF assms bit_flag_mask(7) [OF assms], of on "at_mode a"]
    bit_set_flag [OF assms bit_flag_mask(8) [OF assms], of on "at_mode a"]
    bit_set_intensity(1) [OF assms, of "at_mode a"]
    bit_set_intensity(2) [OF assms bit_flag_mask(1) [OF assms], of "at_mode a"]
    bit_set_intensity(2) [OF assms bit_flag_mask(2) [OF assms], of "at_mode a"]
  by simp_all

lemma set_keeps_colors [simp]:
  "at_fg (set_italic on a) = at_fg a" "at_bg (set_italic on a) = at_bg a"
  "at_fg (set_underline on a) = at_fg a" "at_bg (set_underline on a) = at_bg a"
  "at_fg (set_inverse on a) = at_fg a" "at_bg (set_inverse on a) = at_bg a"
  "at_fg (set_blink on a) = at_fg a" "at_bg (set_blink on a) = at_bg a"
  "at_fg (set_hidden on a) = at_fg a" "at_bg (set_hidden on a) = at_bg a"
  "at_fg (set_strikethrough on a) = at_fg a" "at_bg (set_strikethrough on a) = at_bg a"
  "at_fg (set_bold a) = at_fg a" "at_bg (set_bold a) = at_bg a"
  "at_fg (set_dim a) = at_fg a" "at_bg (set_dim a) = at_bg a"
  "at_fg (set_normal_intensity a) = at_fg a" "at_bg (set_normal_intensity a) = at_bg a"
  by (simp_all add: set_italic_def set_underline_def set_inverse_def set_blink_def set_hidden_def
      set_strikethrough_def set_bold_def set_dim_def set_normal_intensity_def)

section \<open>The written parameters, read back\<close>

abbreviation singles :: "nat list \<Rightarrow> nat list list" where
  "singles ns \<equiv> map (\<lambda>n. [n]) ns"

lemma u16_to_u8_unat [simp]: "u16_to_u8 (unat (x :: 8 word)) = Some x"
proof -
  have "unat x < 2 ^ LENGTH(8)" by (rule unsigned_less)
  then show ?thesis by (simp add: u16_to_u8_def)
qed

lemma unat_shift:
  fixes i :: "8 word"
  assumes "unat i < 16" "k \<le> 100"
  shows "unat (i + of_nat k) = unat i + k"
  using assms by (simp add: unat_word_ariths unat_of_nat)

lemma sgr_simple_color: "30 \<le> n \<Longrightarrow> n \<noteq> 39 \<Longrightarrow> n \<noteq> 49 \<Longrightarrow> sgr_simple [n] = None"
  by (auto simp: sgr_simple_def)

lemma sgr_loop_indexed:
  assumes "sgr_indexed [unat (i + off)] = Some (fg, off)" "30 \<le> unat (i + off)"
    "unat (i + off) \<noteq> 39" "unat (i + off) \<noteq> 49"
  shows "sgr_loop ([unat (i + off)] # ps) a = sgr_loop ps (set_color fg (Idx i) a)"
  using assms by (simp add: sgr_simple_color)

lemma sgr_loop_separate:
  assumes "n = 38 \<or> n = 48" "separate_color ps = Some (c, rest)"
  shows "sgr_loop ([n] # ps) a = sgr_loop rest (set_color (n = 38) c a)"
proof -
  have "sgr_indexed [n] = None" "joined_color 38 [n] = None" "joined_color 48 [n] = None"
    using assms(1) by (auto simp: sgr_indexed_def in_range_def joined_color_def)
  with assms show ?thesis by (auto simp: sgr_simple_color)
qed

lemma separate_written:
  "separate_color ([5] # [unat i] # ps) = Some (Idx i, ps)"
  "separate_color ([2] # [unat r] # [unat g] # [unat b] # ps) = Some (Rgb r g b, ps)"
  by (simp_all add: separate_color_def)

lemma sgr_fg: "sgr_loop (singles (fg_params c) @ ps) a = sgr_loop ps (a\<lparr>at_fg := c\<rparr>)"
proof (cases c)
  case Color_Default
  then show ?thesis by (simp add: fg_params_def sgr_simple_def)
next
  case (Idx i)
  consider "i < 8" | "\<not> i < 8" "i < 16" | "\<not> i < 8" "\<not> i < 16" by blast
  then show ?thesis
  proof cases
    case 1
    then have u: "unat i < 8" by (simp add: word_less_nat_alt)
    then have v: "unat (i + 30) = unat i + 30" using unat_shift [of i 30] by simp
    have "sgr_indexed [unat (i + 30)] = Some (True, 30)"
      using u unfolding v by (simp add: sgr_indexed_def in_range_def)
    then have "sgr_loop ([unat (i + 30)] # ps) a = sgr_loop ps (set_color True (Idx i) a)"
      using u v by (intro sgr_loop_indexed) simp_all
    with Idx 1 show ?thesis by (simp add: fg_params_def set_color_def del: sgr_loop.simps)
  next
    case 2
    then have u: "8 \<le> unat i" "unat i < 16" by (simp_all add: word_less_nat_alt)
    then have v: "unat (i + 82) = unat i + 82" using unat_shift [of i 82] by simp
    have "sgr_indexed [unat (i + 82)] = Some (True, 82)"
      using u unfolding v by (simp add: sgr_indexed_def in_range_def)
    then have "sgr_loop ([unat (i + 82)] # ps) a = sgr_loop ps (set_color True (Idx i) a)"
      using u v by (intro sgr_loop_indexed) simp_all
    with Idx 2 show ?thesis by (simp add: fg_params_def set_color_def del: sgr_loop.simps)
  next
    case 3
    with Idx show ?thesis
      using sgr_loop_separate [of 38, OF _ separate_written(1)]
      by (simp add: fg_params_def set_color_def del: sgr_loop.simps)
  qed
next
  case (Rgb r g b)
  then show ?thesis
    using sgr_loop_separate [of 38, OF _ separate_written(2)]
    by (simp add: fg_params_def set_color_def del: sgr_loop.simps)
qed

lemma sgr_bg: "sgr_loop (singles (bg_params c) @ ps) a = sgr_loop ps (a\<lparr>at_bg := c\<rparr>)"
proof (cases c)
  case Color_Default
  then show ?thesis by (simp add: bg_params_def sgr_simple_def)
next
  case (Idx i)
  consider "i < 8" | "\<not> i < 8" "i < 16" | "\<not> i < 8" "\<not> i < 16" by blast
  then show ?thesis
  proof cases
    case 1
    then have u: "unat i < 8" by (simp add: word_less_nat_alt)
    then have v: "unat (i + 40) = unat i + 40" using unat_shift [of i 40] by simp
    have "sgr_indexed [unat (i + 40)] = Some (False, 40)"
      using u unfolding v by (simp add: sgr_indexed_def in_range_def)
    then have "sgr_loop ([unat (i + 40)] # ps) a = sgr_loop ps (set_color False (Idx i) a)"
      using u v by (intro sgr_loop_indexed) simp_all
    with Idx 1 show ?thesis by (simp add: bg_params_def set_color_def del: sgr_loop.simps)
  next
    case 2
    then have u: "8 \<le> unat i" "unat i < 16" by (simp_all add: word_less_nat_alt)
    then have v: "unat (i + 92) = unat i + 92" using unat_shift [of i 92] by simp
    have "sgr_indexed [unat (i + 92)] = Some (False, 92)"
      using u unfolding v by (simp add: sgr_indexed_def in_range_def)
    then have "sgr_loop ([unat (i + 92)] # ps) a = sgr_loop ps (set_color False (Idx i) a)"
      using u v by (intro sgr_loop_indexed) simp_all
    with Idx 2 show ?thesis by (simp add: bg_params_def set_color_def del: sgr_loop.simps)
  next
    case 3
    with Idx show ?thesis
      using sgr_loop_separate [of 48, OF _ separate_written(1)]
      by (simp add: bg_params_def set_color_def del: sgr_loop.simps)
  qed
next
  case (Rgb r g b)
  then show ?thesis
    using sgr_loop_separate [of 48, OF _ separate_written(2)]
    by (simp add: bg_params_def set_color_def del: sgr_loop.simps)
qed

definition set_intensity :: "intensity \<Rightarrow> attrs \<Rightarrow> attrs" where
  "set_intensity i = (case i of Normal \<Rightarrow> set_normal_intensity | Bold \<Rightarrow> set_bold | Dim \<Rightarrow> set_dim)"

lemma sgr_modes:
  "sgr_loop (singles (intensity_params i) @ ps) a = sgr_loop ps (set_intensity i a)"
  "sgr_loop (singles (flag_params 3 23 on) @ ps) a = sgr_loop ps (set_italic on a)"
  "sgr_loop (singles (flag_params 4 24 on) @ ps) a = sgr_loop ps (set_underline on a)"
  "sgr_loop (singles (flag_params 7 27 on) @ ps) a = sgr_loop ps (set_inverse on a)"
  "sgr_loop (singles (flag_params 5 25 on) @ ps) a = sgr_loop ps (set_blink on a)"
  "sgr_loop (singles (flag_params 8 28 on) @ ps) a = sgr_loop ps (set_hidden on a)"
  "sgr_loop (singles (flag_params 9 29 on) @ ps) a = sgr_loop ps (set_strikethrough on a)"
  by (cases i; simp add: intensity_params_def set_intensity_def sgr_simple_def)
     (cases on; simp add: flag_params_def sgr_simple_def)+

definition apply_opt :: "('a \<Rightarrow> attrs \<Rightarrow> attrs) \<Rightarrow> 'a option \<Rightarrow> attrs \<Rightarrow> attrs" where
  "apply_opt f x a = (case x of None \<Rightarrow> a | Some y \<Rightarrow> f y a)"

definition apply_term_attrs :: "term_attrs \<Rightarrow> attrs \<Rightarrow> attrs" where
  "apply_term_attrs d a =
     apply_opt set_strikethrough (ta_strikethrough d) (apply_opt set_hidden (ta_hidden d)
      (apply_opt set_blink (ta_blink d) (apply_opt set_inverse (ta_inverse d)
      (apply_opt set_underline (ta_underline d) (apply_opt set_italic (ta_italic d)
      (apply_opt set_intensity (ta_intensity d) (apply_opt (\<lambda>c a. a\<lparr>at_bg := c\<rparr>) (ta_bg d)
      (apply_opt (\<lambda>c a. a\<lparr>at_fg := c\<rparr>) (ta_fg d) a))))))))"

lemma sgr_opt:
  assumes "\<And>x ps a. sgr_loop (singles (w x) @ ps) a = sgr_loop ps (f x a)"
  shows "sgr_loop (singles (case_option [] w y) @ ps) a = sgr_loop ps (apply_opt f y a)"
  by (cases y) (simp_all add: apply_opt_def assms)

lemma sgr_term_attrs: "sgr_loop (singles (term_attrs_params d)) a = apply_term_attrs d a"
proof -
  have "sgr_loop (singles (term_attrs_params d) @ []) a = sgr_loop [] (apply_term_attrs d a)"
    unfolding term_attrs_params_def map_append append_assoc apply_term_attrs_def
    by (simp only: sgr_opt [OF sgr_fg] sgr_opt [OF sgr_bg] sgr_opt [OF sgr_modes(1)] sgr_opt [OF sgr_modes(2)]
        sgr_opt [OF sgr_modes(3)] sgr_opt [OF sgr_modes(4)] sgr_opt [OF sgr_modes(5)] sgr_opt [OF sgr_modes(6)]
        sgr_opt [OF sgr_modes(7)])
  then show ?thesis by simp
qed

section \<open>The round trip\<close>

lemma intensity_bits:
  fixes m :: "8 word"
  assumes "m AND 3 \<noteq> 3"
  shows "intensity_of (m AND 3) = Some (if bit m 0 then Bold else if bit m 1 then Dim else Normal)"
    and "\<not> (bit m 0 \<and> bit m 1)"
proof -
  have eq: "m AND 3 = k \<longleftrightarrow> (bit k 0 = bit m 0) \<and> (bit k 1 = bit m 1) \<and> (\<forall>n<8. 2 \<le> n \<longrightarrow> \<not> bit k n)"
    for k :: "8 word"
  proof
    assume "m AND 3 = k"
    then have "\<And>n. bit k n = (bit m n \<and> bit (3 :: 8 word) n)" by (auto simp: bit_and_iff)
    then show "(bit k 0 = bit m 0) \<and> (bit k 1 = bit m 1) \<and> (\<forall>n<8. 2 \<le> n \<longrightarrow> \<not> bit k n)"
      using bit_flag_mask(9) by auto
  next
    assume k: "(bit k 0 = bit m 0) \<and> (bit k 1 = bit m 1) \<and> (\<forall>n<8. 2 \<le> n \<longrightarrow> \<not> bit k n)"
    show "m AND 3 = k"
    proof (rule bit_word_eqI)
      fix n :: nat assume n: "n < LENGTH(8)"
      show "bit (m AND 3) n = bit k n"
        using k n bit_flag_mask(9) [of n] by (cases "n < 2") (auto simp: bit_and_iff less_2_cases_iff)
    qed
  qed
  have "\<not> bit (3 :: 8 word) n" if "n < 8" "2 \<le> n" for n
    using that(2) bit_flag_mask(9) [OF that(1)] by simp
  then show nb: "\<not> (bit m 0 \<and> bit m 1)" using assms eq [of 3] by auto
  show "intensity_of (m AND 3) = Some (if bit m 0 then Bold else if bit m 1 then Dim else Normal)"
    unfolding intensity_of_def text_modes eq using nb bit_flag_mask(1,2) by auto
qed

lemma case_option_Nil: "(\<And>x. f x \<noteq> []) \<Longrightarrow> case_option [] f y = [] \<longleftrightarrow> y = None"
  by (cases y) simp_all

lemma params_not_Nil:
  "fg_params c \<noteq> []" "bg_params c \<noteq> []" "intensity_params i \<noteq> []" "flag_params m n on \<noteq> []"
  by (simp_all add: fg_params_def bg_params_def intensity_params_def flag_params_def
      split: color.split intensity.split)

lemma params_Nil:
  "term_attrs_params d = [] \<longleftrightarrow>
   ta_fg d = None \<and> ta_bg d = None \<and> ta_intensity d = None \<and> ta_italic d = None \<and> ta_underline d = None \<and>
   ta_inverse d = None \<and> ta_blink d = None \<and> ta_hidden d = None \<and> ta_strikethrough d = None"
  unfolding term_attrs_params_def append_is_Nil_conv
  by (simp only: case_option_Nil params_not_Nil not_False_eq_True)

lemma bits_apply:
  assumes "\<And>on a. bit (at_mode (f on a)) n \<longleftrightarrow> (if n = k then on else bit (at_mode a) n)"
  shows "bit (at_mode (apply_opt f (changed (bit ma k) (bit mb k)) a)) n \<longleftrightarrow>
    (if n = k then (if bit ma k = bit mb k then bit (at_mode a) n else bit ma k) else bit (at_mode a) n)"
proof (cases "bit ma k = bit mb k")
  case False
  then have "apply_opt f (changed (bit ma k) (bit mb k)) a = f (bit ma k) a"
    by (simp add: apply_opt_def changed_def)
  with False show ?thesis using assms [of "bit ma k" a] by simp
qed (simp add: apply_opt_def changed_def)

lemma colors_apply:
  assumes "\<And>x a. at_fg (f x a) = at_fg a \<and> at_bg (f x a) = at_bg a"
  shows "at_fg (apply_opt f y a) = at_fg a" "at_bg (apply_opt f y a) = at_bg a"
  using assms by (simp_all add: apply_opt_def split: option.split)

lemma set_intensity_colors: "at_fg (set_intensity i a) = at_fg a \<and> at_bg (set_intensity i a) = at_bg a"
  by (cases i) (simp_all add: set_intensity_def)

lemma bit_set_intensity_of:
  assumes "n < 8" "\<not> (bit m 0 \<and> bit m 1)"
  shows "bit (at_mode (set_intensity (if bit m 0 then Bold else if bit m 1 then Dim else Normal) a)) n \<longleftrightarrow>
    (if n < 2 then bit m n else bit (at_mode a) n)"
  using assms(2) set_bits(7,8,9) [OF assms(1), of a]
  by (auto simp: set_intensity_def less_2_cases_iff)

lemma apply_diff:
  assumes "attrs_diff a b = Some d" "attr_intensity a \<noteq> TEXT_MODE_INTENSITY"
  shows "apply_term_attrs d b = a"
proof -
  let ?m = "at_mode a"
  have m3: "?m AND 3 \<noteq> 3" using assms(2) by (simp add: attr_intensity_def text_modes)
  note ib = intensity_bits [OF m3]
  let ?i = "if attr_intensity a = attr_intensity b then None
    else Some (if bit ?m 0 then Bold else if bit ?m 1 then Dim else Normal)"
  have d: "d = \<lparr>ta_fg = changed (at_fg a) (at_fg b), ta_bg = changed (at_bg a) (at_bg b), ta_intensity = ?i,
      ta_italic = changed (bit ?m 2) (bit (at_mode b) 2), ta_underline = changed (bit ?m 3) (bit (at_mode b) 3),
      ta_inverse = changed (bit ?m 4) (bit (at_mode b) 4), ta_blink = changed (bit ?m 5) (bit (at_mode b) 5),
      ta_hidden = changed (bit ?m 6) (bit (at_mode b) 6),
      ta_strikethrough = changed (bit ?m 7) (bit (at_mode b) 7)\<rparr>"
    using assms(1) ib(1) unfolding attrs_diff_def attr_bits Let_def
    by (simp add: attr_intensity_def text_modes split: if_splits)
  have same: "bit (at_mode b) n = bit ?m n" if "attr_intensity a = attr_intensity b" "n < 2" for n
  proof -
    have "bit (at_mode a AND 3) n = bit (at_mode b AND 3) n"
      using that(1) by (simp add: attr_intensity_def text_modes)
    moreover have "bit (3 :: 8 word) n" using that(2) bit_flag_mask(9) [of n] by auto
    ultimately show ?thesis by (simp add: bit_and_iff)
  qed
  let ?b0 = "apply_opt (\<lambda>c a. a\<lparr>at_bg := c\<rparr>) (ta_bg d) (apply_opt (\<lambda>c a. a\<lparr>at_fg := c\<rparr>) (ta_fg d) b)"
  have b0: "at_fg ?b0 = at_fg a" "at_bg ?b0 = at_bg a" "at_mode ?b0 = at_mode b"
    unfolding d by (simp_all add: apply_opt_def changed_def)
  let ?b1 = "apply_opt set_intensity (ta_intensity d) ?b0"
  have b1: "bit (at_mode ?b1) n \<longleftrightarrow> (if n < 2 then bit ?m n else bit (at_mode b) n)" if "n < 8" for n
  proof (cases "attr_intensity a = attr_intensity b")
    case True
    then have "?b1 = ?b0" unfolding d by (simp add: apply_opt_def)
    with same [OF True] b0(3) show ?thesis by simp
  next
    case False
    then have "?b1 = set_intensity (if bit ?m 0 then Bold else if bit ?m 1 then Dim else Normal) ?b0"
      unfolding d by (simp add: apply_opt_def)
    with bit_set_intensity_of [OF that ib(2), of ?b0] b0(3) show ?thesis by simp
  qed
  have ta: "ta_italic d = changed (bit ?m 2) (bit (at_mode b) 2)" "ta_underline d = changed (bit ?m 3) (bit (at_mode b) 3)"
    "ta_inverse d = changed (bit ?m 4) (bit (at_mode b) 4)" "ta_blink d = changed (bit ?m 5) (bit (at_mode b) 5)"
    "ta_hidden d = changed (bit ?m 6) (bit (at_mode b) 6)" "ta_strikethrough d = changed (bit ?m 7) (bit (at_mode b) 7)"
    unfolding d by simp_all
  have "bit (at_mode (apply_term_attrs d b)) n = bit ?m n" if n: "n < 8" for n
  proof -
    have "n = 0 \<or> (n = 1 \<or> n = 2) \<or> (n = 3 \<or> n = 4) \<or> (n = 5 \<or> n = 6) \<or> n = 7" using n by arith
    then show ?thesis
      unfolding apply_term_attrs_def ta
        bits_apply [of set_strikethrough n 7 ?m "at_mode b", OF set_bits(6) [OF n]]
        bits_apply [of set_hidden n 6 ?m "at_mode b", OF set_bits(5) [OF n]]
        bits_apply [of set_blink n 5 ?m "at_mode b", OF set_bits(4) [OF n]]
        bits_apply [of set_inverse n 4 ?m "at_mode b", OF set_bits(3) [OF n]]
        bits_apply [of set_underline n 3 ?m "at_mode b", OF set_bits(2) [OF n]]
        bits_apply [of set_italic n 2 ?m "at_mode b", OF set_bits(1) [OF n]] b1 [OF n]
      by (elim disjE) simp_all
  qed
  then have "at_mode (apply_term_attrs d b) = ?m" by (intro bit_word_eqI) simp
  moreover have "at_fg (apply_term_attrs d b) = at_fg a" "at_bg (apply_term_attrs d b) = at_bg a"
    unfolding apply_term_attrs_def
    by (simp_all add: colors_apply b0 set_intensity_colors)
  ultimately show ?thesis by simp
qed

text \<open>
  C22: attributes make a round trip through the escape codes: for attributes whose intensity is
  not bold and dim at once, the code that turns other attributes into them is either empty,
  when they are the same, or one SGR sequence, and a terminal with the other attributes that
  reads its parameters ends with the attributes that were written.
\<close>

theorem attrs_round_trip:
  assumes "attr_intensity a \<noteq> TEXT_MODE_INTENSITY"
  shows "\<exists>out. write_escape_code_diff a b = Some out \<and>
    (out = [] \<and> a = b \<or>
     (\<exists>ns. out = csi ns (CHR ''m'') \<and> sgr (map (\<lambda>n. [n]) ns) b = a))"
proof (cases "a \<noteq> b \<and> a = default_attrs")
  case True
  then have "write_escape_code_diff a b = Some (csi [] (CHR ''m''))" "sgr (map (\<lambda>n. [n]) []) b = a"
    unfolding write_escape_code_diff_def if_P [OF True] by (simp_all add: ClearAttrs_def sgr_def True)
  then show ?thesis by blast
next
  case False
  have "at_mode a AND 3 \<noteq> 3" using assms by (simp add: attr_intensity_def text_modes)
  then have "intensity_of (attr_intensity a) \<noteq> None"
    using intensity_bits(1) by (simp add: attr_intensity_def text_modes)
  then have "attrs_diff a b \<noteq> None" by (auto simp: attrs_diff_def Let_def)
  then obtain d where d: "attrs_diff a b = Some d" by blast
  with False have w: "write_escape_code_diff a b = Some (write_term_attrs d)"
    by (auto simp: write_escape_code_diff_def)
  have undo: "apply_term_attrs d b = a" using d assms by (rule apply_diff)
  show ?thesis
  proof (cases "term_attrs_params d = []")
    case True
    then have "write_term_attrs d = []"
      by (simp add: write_term_attrs_def params_Nil)
    moreover have "a = b" using undo sgr_term_attrs [of d b] True by simp
    ultimately show ?thesis using w by simp
  next
    case False
    then have "write_term_attrs d = csi (term_attrs_params d) (CHR ''m'')"
      unfolding write_term_attrs_def params_Nil by (rule if_not_P)
    moreover have "sgr (map (\<lambda>n. [n]) (term_attrs_params d)) b = a"
      using undo False sgr_term_attrs [of d b] by (simp add: sgr_def)
    ultimately show ?thesis using w by blast
  qed
qed

lemma attrs_round_trip_witness:
  "\<exists>out. write_escape_code_diff (set_bold (set_underline True default_attrs)) default_attrs = Some out"
  using attrs_round_trip [of "set_bold (set_underline True default_attrs)" default_attrs]
  by (auto simp: attr_intensity_def set_bold_def set_underline_def default_attrs_def text_modes)

end
