(* ===== verification/Vt_Row_Props.thy ===== *)
theory Vt_Row_Props
  imports Vt_Cells Vt_Attrs_Props
begin

text \<open>
  What holds of the cells and rows of the terminal emulator: the length and the flags of a cell
  do not disturb each other, the text of a cell is always valid UTF-8, and in a row the two
  halves of wide characters stay together.
\<close>

section \<open>The length byte\<close>

lemma wide_bit: "is_wide c \<longleftrightarrow> bit (vc_len c) 7"
  by (simp only: is_wide_def IS_WIDE_def flag_bit)

lemma cont_bit: "is_wide_continuation c \<longleftrightarrow> bit (vc_len c) 6"
  by (simp only: is_wide_continuation_def IS_WIDE_CONTINUATION_def flag_bit)

lemma cell_len_mod: "cell_len c = unat (vc_len c) mod 32"
proof -
  have "vc_len c AND 31 = take_bit 5 (vc_len c)"
    by (simp add: take_bit_eq_mask mask_eq_exp_minus_1)
  then show ?thesis
    unfolding cell_len_def LEN_BITS_def by (simp add: take_bit_eq_mod unat_mod_distrib)
qed

lemma unat_add_small:
  fixes x :: "8 word"
  assumes "unat x mod 32 + n < 32"
  shows "unat (x + of_nat n) = unat x + n"
proof -
  have "unat x < 2 ^ LENGTH(8)" by (rule unsigned_less)
  then have "unat x div 32 < 8" by simp
  moreover have "unat x = unat x div 32 * 32 + unat x mod 32" by simp
  ultimately have "unat x + n < 256" using assms by linarith
  then show ?thesis by (simp add: unat_word_ariths unat_of_nat)
qed

lemma len_add:
  assumes "cell_len c + n < 32" "vc_len c' = vc_len c + of_nat n"
  shows "cell_len c' = cell_len c + n" "is_wide c' = is_wide c"
    "is_wide_continuation c' = is_wide_continuation c"
proof -
  have u: "unat (vc_len c') = unat (vc_len c) + n"
    using assms unat_add_small unfolding cell_len_mod by simp
  show "cell_len c' = cell_len c + n" using assms(1) unfolding cell_len_mod u
    by (metis mod_add_left_eq mod_less)
  have "unat (vc_len c) + n = unat (vc_len c) div 32 * 32 + (unat (vc_len c) mod 32 + n)" by simp
  also have "\<dots> div 32 = unat (vc_len c) div 32"
    using assms(1) unfolding cell_len_mod by (subst div_mult_self3) simp_all
  finally have d: "unat (vc_len c') div 32 = unat (vc_len c) div 32" unfolding u .
  have "bit x k \<longleftrightarrow> odd (unat x div 2 ^ k)" for x :: "8 word" and k
    using bit_unsigned_iff [of x k, where 'a = nat] by (simp add: bit_iff_odd)
  moreover have "m div 128 = m div 32 div 4" "m div 64 = m div 32 div 2" for m :: nat
    by (simp_all add: div_mult2_eq [symmetric])
  ultimately show "is_wide c' = is_wide c" "is_wide_continuation c' = is_wide_continuation c"
    unfolding wide_bit cont_bit using d by simp_all
qed

lemma len_flags:
  "cell_len (set_wide b c) = cell_len c" "is_wide (set_wide b c) = b"
  "is_wide_continuation (set_wide b c) = is_wide_continuation c"
  "cell_len (set_wide_continuation b c) = cell_len c" "is_wide_continuation (set_wide_continuation b c) = b"
  "is_wide (set_wide_continuation b c) = is_wide c"
proof -
  have low: "x AND 31 = y AND 31" if "\<And>n. n < 5 \<Longrightarrow> bit x n = bit y n" for x y :: "8 word"
  proof (rule bit_word_eqI)
    fix n assume "n < LENGTH(8)"
    then show "bit (x AND 31) n = bit (y AND 31) n"
      using that [of n] by (cases "n < 5") (auto simp: bit_and_iff less_Suc_eq numeral_eq_Suc)
  qed
  have w: "bit (vc_len (set_wide b c)) n \<longleftrightarrow> (if n = 7 then b else bit (vc_len c) n)" if "n < 8" for n
  proof -
    have "vc_len (set_wide b c) = (if b then vc_len c OR IS_WIDE else vc_len c AND NOT IS_WIDE)"
      by (simp add: set_wide_def)
    then show ?thesis
      unfolding IS_WIDE_def by (simp only: bit_set_flag [OF that bit_flag_mask(8) [OF that]])
  qed
  have k: "bit (vc_len (set_wide_continuation b c)) n \<longleftrightarrow> (if n = 6 then b else bit (vc_len c) n)" if "n < 8" for n
  proof -
    have "vc_len (set_wide_continuation b c) =
        (if b then vc_len c OR IS_WIDE_CONTINUATION else vc_len c AND NOT IS_WIDE_CONTINUATION)"
      by (simp add: set_wide_continuation_def)
    then show ?thesis
      unfolding IS_WIDE_CONTINUATION_def by (simp only: bit_set_flag [OF that bit_flag_mask(7) [OF that]])
  qed
  show "cell_len (set_wide b c) = cell_len c" "cell_len (set_wide_continuation b c) = cell_len c"
    unfolding cell_len_def LEN_BITS_def by (intro arg_cong [where f = unat] low; simp add: w k)+
  show "is_wide (set_wide b c) = b" "is_wide_continuation (set_wide b c) = is_wide_continuation c"
    "is_wide_continuation (set_wide_continuation b c) = b" "is_wide (set_wide_continuation b c) = is_wide c"
    unfolding wide_bit cont_bit by (simp_all add: w k)
qed

lemma zero_len:
  assumes "vc_len c = 0"
  shows "cell_len c = 0" "\<not> is_wide c" "\<not> is_wide_continuation c"
  using assms by (simp_all add: cell_len_def is_wide_def is_wide_continuation_def)

section \<open>Cells\<close>

text \<open>A cell has its 22 bytes, and its text is some characters in UTF-8.\<close>

definition cell_ok :: "vcell \<Rightarrow> bool" where
  "cell_ok c = (length (vc_bytes c) = CONTENT_BYTES \<and> cell_len c \<le> CONTENT_BYTES \<and>
     (\<exists>chs. cell_contents c = concat (map utf8 chs)))"

abbreviation plain :: "vcell \<Rightarrow> bool" where
  "plain c \<equiv> \<not> is_wide c \<and> \<not> is_wide_continuation c"

lemma cell_ok_empty: "length (vc_bytes c) = CONTENT_BYTES \<Longrightarrow> cell_len c = 0 \<Longrightarrow> cell_ok c"
  by (auto simp: cell_ok_def cell_contents_def intro!: exI [of _ "[]"])

lemma cell_new_ok [simp]: "cell_ok cell_new" "\<not> is_wide cell_new" "\<not> is_wide_continuation cell_new"
  "cell_len cell_new = 0"
  using zero_len [of cell_new] cell_ok_empty [of cell_new] by (simp_all add: cell_new_def)

lemma cell_clear_ok [simp]:
  "cell_ok c \<Longrightarrow> cell_ok (cell_clear a c)" "\<not> is_wide (cell_clear a c)"
  "\<not> is_wide_continuation (cell_clear a c)" "cell_len (cell_clear a c) = 0" "vc_attrs (cell_clear a c) = a"
  using zero_len [of "cell_clear a c"] cell_ok_empty [of "cell_clear a c"]
  by (simp_all add: cell_clear_def cell_ok_def)

lemma set_continuation_ok [simp]:
  "cell_ok (set_wide_continuation b c) = cell_ok c"
  unfolding cell_ok_def cell_contents_def len_flags
  by (simp add: set_wide_continuation_def)

lemma utf8_length: "1 \<le> length (utf8 ch)" "length (utf8 ch) \<le> 4"
  by (simp_all add: utf8_def)

lemma append_char_ok:
  assumes "length (vc_bytes c) = CONTENT_BYTES" "cell_len c + length (utf8 ch) \<le> CONTENT_BYTES"
  shows "\<exists>c'. append_char (cell_len c) ch c = Some c' \<and> length (vc_bytes c') = CONTENT_BYTES \<and>
    cell_len c' = cell_len c + length (utf8 ch) \<and> is_wide c' = is_wide c \<and>
    is_wide_continuation c' = is_wide_continuation c \<and> vc_attrs c' = vc_attrs c \<and>
    cell_contents c' = cell_contents c @ utf8 ch"
proof -
  let ?bs = "utf8 ch"
  let ?c = "c\<lparr>vc_bytes := take (cell_len c) (vc_bytes c) @ ?bs @ drop (cell_len c + length ?bs) (vc_bytes c),
    vc_len := vc_len c + of_nat (length ?bs)\<rparr>"
  have short: "cell_len c < CONTENT_BYTES" using assms(2) utf8_length(1) [of ch] by linarith
  have "cell_len c + length ?bs < 32" using assms(2) by (simp add: CONTENT_BYTES_def)
  from len_add [OF this, of ?c] have l: "cell_len ?c = cell_len c + length ?bs" "is_wide ?c = is_wide c"
    "is_wide_continuation ?c = is_wide_continuation c" by simp_all
  have "append_char (cell_len c) ch c = Some ?c"
    using assms by (simp add: append_char_def Let_def)
  moreover have "cell_contents ?c = cell_contents c @ ?bs"
    using assms short unfolding cell_contents_def l by (simp add: min_def)
  ultimately show ?thesis
    using l assms short by (intro exI [of _ ?c]) (simp add: min_def)
qed

lemma cell_set_ok:
  assumes "length (vc_bytes c) = CONTENT_BYTES"
  shows "\<exists>c'. cell_set w ch a c = Some c' \<and> cell_ok c' \<and>
    is_wide c' = (1 < (case w ch of None \<Rightarrow> 1 | Some n \<Rightarrow> n)) \<and> \<not> is_wide_continuation c' \<and>
    cell_contents c' = utf8 ch \<and> vc_attrs c' = a"
proof -
  let ?z = "c\<lparr>vc_len := 0\<rparr>" and ?w = "1 < (case w ch of None \<Rightarrow> 1 | Some n \<Rightarrow> n)"
  have z: "cell_len ?z = 0" "\<not> is_wide ?z" "\<not> is_wide_continuation ?z" using zero_len [of ?z] by simp_all
  have "length (vc_bytes ?z) = CONTENT_BYTES" "cell_len ?z + length (utf8 ch) \<le> CONTENT_BYTES"
    using assms z utf8_length(2) [of ch] by (simp_all add: CONTENT_BYTES_def)
  from append_char_ok [OF this] obtain c1 where c1: "append_char 0 ch ?z = Some c1"
    "length (vc_bytes c1) = CONTENT_BYTES" "cell_len c1 = length (utf8 ch)" "\<not> is_wide_continuation c1"
    "cell_contents c1 = utf8 ch"
    using z by (auto simp: cell_contents_def)
  let ?c = "(set_wide ?w c1)\<lparr>vc_attrs := a\<rparr>"
  have same: "cell_len ?c = cell_len (set_wide ?w c1)" "is_wide ?c = is_wide (set_wide ?w c1)"
    "is_wide_continuation ?c = is_wide_continuation (set_wide ?w c1)" "vc_bytes ?c = vc_bytes c1"
    by (simp_all add: cell_len_def is_wide_def is_wide_continuation_def set_wide_def)
  have cc: "cell_contents ?c = utf8 ch"
    using c1(5) unfolding cell_contents_def same len_flags by simp
  moreover have "cell_ok ?c"
    using c1(2,3) utf8_length(2) [of ch] cc
    unfolding cell_ok_def same len_flags
    by (auto simp: CONTENT_BYTES_def intro!: exI [of _ "[ch]"])
  ultimately show ?thesis
    using c1 same len_flags by (intro exI [of _ ?c]) (simp add: cell_set_def)
qed

lemma space_char: "CHR '' '' = char_of (32 :: nat)"
  by code_simp

lemma cell_append_ok:
  assumes "cell_ok c"
  shows "\<exists>c'. cell_append ch c = Some c' \<and> cell_ok c' \<and> is_wide c' = is_wide c \<and>
    is_wide_continuation c' = is_wide_continuation c \<and> vc_attrs c' = vc_attrs c"
proof (cases "cell_len c \<ge> CONTENT_BYTES - 4")
  case True
  with assms show ?thesis by (simp add: cell_append_def)
next
  case False
  have b: "length (vc_bytes c) = CONTENT_BYTES" using assms by (simp add: cell_ok_def)
  then obtain x xs where x: "vc_bytes c = x # xs" by (cases "vc_bytes c") (simp_all add: CONTENT_BYTES_def)
  obtain c1 where app: "cell_append ch c = append_char (cell_len c1) ch c1"
    and c1: "length (vc_bytes c1) = CONTENT_BYTES" "cell_len c1 \<le> CONTENT_BYTES - 4" "is_wide c1 = is_wide c"
      "is_wide_continuation c1 = is_wide_continuation c" "vc_attrs c1 = vc_attrs c"
      "\<exists>chs. cell_contents c1 = concat (map utf8 chs)"
  proof (cases "cell_len c = 0")
    case True
    let ?s = "c\<lparr>vc_bytes := (vc_bytes c)[0 := CHR '' ''], vc_len := vc_len c + 1\<rparr>"
    have "cell_len c + 1 < 32" using True by simp
    from len_add [OF this, of ?s] have l: "cell_len ?s = 1" "is_wide ?s = is_wide c"
      "is_wide_continuation ?s = is_wide_continuation c" using True by simp_all
    have "cell_contents ?s = concat (map utf8 [32])"
      unfolding cell_contents_def l using x space_char by (simp add: utf8_def)
    then have e: "\<exists>chs. cell_contents ?s = concat (map utf8 chs)" by blast
    show ?thesis
      by (rule that [of ?s]; (rule e)?) (use False True l b in \<open>simp_all add: cell_append_def CONTENT_BYTES_def\<close>)
  next
    case nz: False
    show ?thesis
      by (rule that [of c]) (use False nz assms b in \<open>simp_all add: cell_append_def cell_ok_def\<close>)
  qed
  have fits: "cell_len c1 + length (utf8 ch) \<le> CONTENT_BYTES"
    using c1(2) utf8_length(2) [of ch] by (simp add: CONTENT_BYTES_def)
  from append_char_ok [OF c1(1) fits] obtain c' where c': "append_char (cell_len c1) ch c1 = Some c'"
    "length (vc_bytes c') = CONTENT_BYTES" "cell_len c' = cell_len c1 + length (utf8 ch)"
    "is_wide c' = is_wide c1" "is_wide_continuation c' = is_wide_continuation c1" "vc_attrs c' = vc_attrs c1"
    "cell_contents c' = cell_contents c1 @ utf8 ch" by blast
  from c1(6) obtain chs where "cell_contents c1 = concat (map utf8 chs)" by blast
  then have "cell_contents c' = concat (map utf8 (chs @ [ch]))" using c'(7) by simp
  then have "cell_ok c'" using c'(2,3) fits unfolding cell_ok_def by metis
  with c' c1 app show ?thesis by simp
qed

section \<open>Wide characters in a row\<close>

text \<open>
  A stretch of cells joins up: each second half follows a first half and each first half is
  followed by its second half, the stretch starting after a first half (\<open>v\<close>) and ending in
  one (\<open>u\<close>) or not.
\<close>

fun joins :: "bool \<Rightarrow> vcell list \<Rightarrow> bool \<Rightarrow> bool" where
  "joins v [] u = (v = u)"
| "joins v (c # cs) u =
     (is_wide_continuation c = v \<and> \<not> (is_wide c \<and> is_wide_continuation c) \<and> joins (is_wide c) cs u)"

lemma joins_append: "joins v (xs @ ys) u \<longleftrightarrow> (\<exists>m. joins v xs m \<and> joins m ys u)"
  by (induction xs arbitrary: v) auto

lemma joins_plain: "\<forall>c\<in>set cs. plain c \<Longrightarrow> joins False cs False"
  by (induction cs) auto

lemma joins_end: "joins v xs u \<Longrightarrow> joins v xs u' \<Longrightarrow> u = u'"
  by (induction xs arbitrary: v) auto

lemma joins_last: "joins v cs u \<Longrightarrow> cs \<noteq> [] \<Longrightarrow> u = is_wide (last cs)"
  by (induction cs arbitrary: v) (auto split: if_splits)

lemma joins_nth:
  assumes "joins v cs u" "i < length cs"
  shows "joins v (take i cs) (is_wide_continuation (cs ! i)) \<and> joins (is_wide (cs ! i)) (drop (Suc i) cs) u \<and>
    \<not> (is_wide (cs ! i) \<and> is_wide_continuation (cs ! i))"
proof -
  have "cs = take i cs @ cs ! i # drop (Suc i) cs" using assms(2) by (rule id_take_nth_drop)
  then have "joins v (take i cs @ cs ! i # drop (Suc i) cs) u" using assms(1) by metis
  then show ?thesis unfolding joins_append by auto
qed

lemma joins_at_wide:
  assumes "joins v cs u" "i < length cs" "is_wide (cs ! i)"
  shows "joins v (take i cs) False" "joins True (drop (Suc i) cs) u" "\<not> is_wide_continuation (cs ! i)"
  using joins_nth [OF assms(1,2)] assms(3) by auto

lemma joins_split: "joins v cs u \<Longrightarrow> \<exists>m. joins v (take i cs) m \<and> joins m (drop i cs) u"
  by (metis append_take_drop_id joins_append)

text \<open>A row of a given width: its cells are sound and the halves of wide characters join up.\<close>

definition cells_ok :: "vcell list \<Rightarrow> bool" where
  "cells_ok cs = ((\<forall>c\<in>set cs. cell_ok c) \<and> joins False cs False)"

definition vrow_ok :: "nat \<Rightarrow> vrow \<Rightarrow> bool" where
  "vrow_ok n r = (length (vr_cells r) = n \<and> cells_ok (vr_cells r))"

lemma cells_ok_cut:
  assumes "\<forall>c\<in>set xs. cell_ok c" "\<forall>c\<in>set ys. cell_ok c" "joins False xs False" "joins False ys False"
  shows "cells_ok (xs @ ys)" "cell_ok c \<Longrightarrow> plain c \<Longrightarrow> cells_ok (xs @ c # ys)"
  using assms by (auto simp: cells_ok_def joins_append)

lemma cells_ok_clear [simp]: "cells_ok cs \<Longrightarrow> cells_ok (map (cell_clear a) cs)"
  unfolding cells_ok_def using joins_plain [of "map (cell_clear a) cs"] by auto

lemma row_new_ok [simp]: "vrow_ok n (row_new n)"
  by (auto simp: vrow_ok_def row_new_def cells_ok_def intro!: joins_plain)

lemma row_clear_ok [simp]: "vrow_ok n r \<Longrightarrow> vrow_ok n (row_clear a r)"
  by (simp add: vrow_ok_def row_clear_def)

lemma row_wrap_ok [simp]: "vrow_ok n (row_wrap b r) = vrow_ok n r"
  by (simp add: vrow_ok_def row_wrap_def)

lemma wrapped_ok [simp]: "vrow_ok n (r\<lparr>vr_wrapped := b\<rparr>) = vrow_ok n r"
  by (simp add: vrow_ok_def)

text \<open>
  Wiping the other half of the wide character at a place cuts the row there: both sides of the
  place are sound on their own.
\<close>

definition cut_at :: "nat \<Rightarrow> vcell list \<Rightarrow> bool" where
  "cut_at i cs = ((\<forall>c\<in>set cs. cell_ok c) \<and> i < length cs \<and>
     joins False (take i cs) False \<and> joins False (drop (Suc i) cs) False)"

lemma cut_at_update:
  assumes "cut_at i cs" "cell_ok c" "plain c"
  shows "cells_ok (cs[i := c])"
proof -
  have "cs[i := c] = take i cs @ c # drop (Suc i) cs"
    using assms(1) by (simp add: cut_at_def upd_conv_take_nth_drop)
  then show ?thesis
    using cells_ok_cut(2) [of "take i cs" "drop (Suc i) cs" c] assms
    by (auto simp: cut_at_def dest: in_set_takeD in_set_dropD)
qed

lemma cut_at_remove: "cut_at i cs \<Longrightarrow> cells_ok (drop_nth i cs)"
  unfolding drop_nth_def
  by (intro cells_ok_cut) (auto simp: cut_at_def dest: in_set_takeD in_set_dropD)

text \<open>Replacing the other half of the character at a place by a plain cell cuts the row there.\<close>

lemma cells_ok_update: "cells_ok cs \<Longrightarrow> cell_ok x \<Longrightarrow> \<forall>c\<in>set (cs[k := x]). cell_ok c"
  using set_update_subset_insert [of cs k x] by (auto simp: cells_ok_def)

lemma cut_wide:
  assumes "cells_ok cs" "i < length cs" "is_wide (cs ! i)"
  shows "Suc i < length cs" "cell_ok x \<Longrightarrow> plain x \<Longrightarrow> cut_at i (cs[Suc i := x])"
proof -
  have j: "joins False cs False" using assms(1) by (simp add: cells_ok_def)
  note jn = joins_at_wide [OF j assms(2,3)]
  show suc: "Suc i < length cs"
  proof (rule ccontr)
    assume "\<not> Suc i < length cs"
    then have "drop (Suc i) cs = []" by simp
    with jn show False by simp
  qed
  then have d: "drop (Suc i) cs = cs ! Suc i # drop (Suc (Suc i)) cs" by (simp add: Cons_nth_drop_Suc)
  assume x: "cell_ok x" "plain x"
  have "joins False (drop (Suc (Suc i)) cs) False" using jn(2) d by (auto split: if_splits)
  then have "joins False (drop (Suc i) (cs[Suc i := x])) False"
    using suc x by (simp add: drop_update_swap) (simp add: d)
  then show "cut_at i (cs[Suc i := x])"
    using cells_ok_update [OF assms(1) x(1)] jn(1) assms(2) by (simp add: cut_at_def)
qed

lemma cut_continuation:
  assumes "cells_ok cs" "i < length cs" "is_wide_continuation (cs ! i)"
  shows "0 < i" "is_wide (cs ! (i - 1))" "cell_ok x \<Longrightarrow> plain x \<Longrightarrow> cut_at i (cs[i - 1 := x])"
proof -
  have j: "joins False cs False" using assms(1) by (simp add: cells_ok_def)
  note jn = joins_nth [OF j assms(2)]
  show pos: "0 < i" using jn assms(3) by (cases i) auto
  have t: "take i cs = take (i - 1) cs @ [cs ! (i - 1)]"
    using take_Suc_conv_app_nth [of "i - 1" cs] pos assms(2) by simp
  show "is_wide (cs ! (i - 1))" using jn assms(3) unfolding t joins_append by auto
  assume x: "cell_ok x" "plain x"
  have "joins False (take (i - 1) cs) False" using jn assms(3) unfolding t joins_append by auto
  then have "joins False (take i (cs[i - 1 := x])) False"
    using pos assms(2) x unfolding take_update_swap t by (auto simp: list_update_append joins_append)
  then show "cut_at i (cs[i - 1 := x])"
    using cells_ok_update [OF assms(1) x(1)] jn pos assms(2,3) by (auto simp: cut_at_def)
qed

lemma cut_plain: "cells_ok cs \<Longrightarrow> i < length cs \<Longrightarrow> plain (cs ! i) \<Longrightarrow> cut_at i cs"
  using joins_nth [of False cs False i] by (simp add: cells_ok_def cut_at_def)

lemma clear_wide_cuts:
  assumes "cells_ok (vr_cells r)" "i < length (vr_cells r)" "length (vr_cells r) < 65536"
  shows "cut_at i (vr_cells (clear_wide i r)) \<and> length (vr_cells (clear_wide i r)) = length (vr_cells r) \<and>
    vr_cells (clear_wide i r) ! i = vr_cells r ! i \<and> vr_wrapped (clear_wide i r) = vr_wrapped r"
proof -
  let ?cs = "vr_cells r" and ?c = "vr_cells r ! i"
  have ok: "\<forall>c\<in>set ?cs. cell_ok c" using assms(1) by (simp add: cells_ok_def)
  have g: "get ?cs i = Some ?c" using assms(2) by (simp add: get_def)
  consider "is_wide ?c" | "\<not> is_wide ?c" "is_wide_continuation ?c" | "plain ?c" by blast
  then show ?thesis
  proof cases
    case 1
    note suc = cut_wide(1) [OF assms(1,2) 1]
    let ?n = "?cs ! Suc i"
    have a1: "add16 i 1 = Suc i" using suc assms(3) by simp
    have r: "clear_wide i r = r\<lparr>vr_cells := ?cs[Suc i := cell_clear (vc_attrs ?n) ?n]\<rparr>"
      using 1 suc a1 by (simp add: clear_wide_def g) (simp add: get_def)
    have "cell_ok (cell_clear (vc_attrs ?n) ?n)" using ok suc by simp
    from cut_wide(2) [OF assms(1,2) 1 this] r show ?thesis by simp
  next
    case 2
    note pos = cut_continuation(1) [OF assms(1,2) 2(2)]
    let ?p = "?cs ! (i - 1)"
    have r: "clear_wide i r = r\<lparr>vr_cells := ?cs[i - 1 := cell_clear (vc_attrs ?p) ?p]\<rparr>"
      using 2 pos by (simp add: clear_wide_def g Let_def)
    have "cell_ok (cell_clear (vc_attrs ?p) ?p)" using ok pos assms(2) by simp
    from cut_continuation(3) [OF assms(1,2) 2(2) this] r pos show ?thesis by simp
  next
    case 3
    with cut_plain [OF assms(1,2) 3] g show ?thesis by (simp add: clear_wide_def)
  qed
qed

lemma row_erase_ok:
  assumes "vrow_ok n r" "i < n" "n < 65536"
  shows "\<exists>r'. row_erase i a r = Some r' \<and> vrow_ok n r'"
proof -
  let ?r1 = "clear_wide i r"
  have c: "cut_at i (vr_cells ?r1)" "length (vr_cells ?r1) = n"
    using clear_wide_cuts [of r i] assms by (auto simp: vrow_ok_def)
  then have "cells_ok ((vr_cells ?r1)[i := cell_clear a (vr_cells ?r1 ! i)])"
    using assms(2) by (intro cut_at_update) (auto simp: cut_at_def)
  with c assms show ?thesis
    by (simp add: row_erase_def row_cols_def get_def vrow_ok_def Let_def)
qed

lemma row_remove_ok:
  assumes "cells_ok (vr_cells r)" "i < length (vr_cells r)" "length (vr_cells r) < 65536"
  shows "\<exists>r'. row_remove i r = Some r' \<and> cells_ok (vr_cells r') \<and> length (vr_cells r') = length (vr_cells r) - 1"
proof -
  let ?r1 = "clear_wide i r"
  have c: "cut_at i (vr_cells ?r1)" "length (vr_cells ?r1) = length (vr_cells r)"
    using clear_wide_cuts [OF assms] by auto
  with assms(2) length_drop_nth [of i "vr_cells ?r1"] cut_at_remove [OF c(1)] show ?thesis
    by (simp add: row_remove_def Let_def)
qed

lemma vec_resize_ok:
  assumes "cells_ok cs" "n < length cs \<Longrightarrow> 0 < n \<Longrightarrow> \<not> is_wide (cs ! (n - 1))"
  shows "cells_ok (vec_resize n cell_new cs)" "length (vec_resize n cell_new cs) = n"
proof -
  have j: "joins False (take n cs) False"
  proof (cases "n < length cs \<and> 0 < n")
    case True
    then have ne: "take n cs \<noteq> []" by auto
    obtain m where m: "joins False (take n cs) m" using assms(1) joins_split unfolding cells_ok_def by blast
    have "last (take n cs) = cs ! (n - 1)" using True ne by (simp add: last_conv_nth min_def)
    with joins_last [OF m ne] assms(2) True m show ?thesis by simp
  next
    case False
    with assms(1) show ?thesis by (cases "n = 0") (auto simp: cells_ok_def)
  qed
  have "\<forall>c\<in>set (take n cs). cell_ok c" using assms(1) by (auto simp: cells_ok_def dest: in_set_takeD)
  then show "cells_ok (vec_resize n cell_new cs)"
    unfolding vec_resize_def using j by (intro cells_ok_cut) (auto intro: joins_plain)
  show "length (vec_resize n cell_new cs) = n" by (simp add: vec_resize_def)
qed

lemma row_resize_ok:
  assumes "cells_ok (vr_cells r)" "n < length (vr_cells r) \<Longrightarrow> 0 < n \<Longrightarrow> \<not> is_wide (vr_cells r ! (n - 1))"
  shows "vrow_ok n (row_resize n cell_new r)"
  using vec_resize_ok [OF assms] by (simp add: row_resize_def vrow_ok_def)

lemma row_truncate_ok:
  assumes "cells_ok (vr_cells r)" "0 < n" "n \<le> length (vr_cells r)"
  shows "\<exists>r'. row_truncate n r = Some r' \<and> vrow_ok n r'"
proof -
  let ?cs = "take n (vr_cells r)"
  let ?l = "?cs ! (n - 1)"
  have ne: "?cs \<noteq> []" "length ?cs = n" using assms by auto
  have ok: "\<forall>c\<in>set ?cs. cell_ok c" using assms(1) by (auto simp: cells_ok_def dest: in_set_takeD)
  obtain m where m: "joins False ?cs m" using assms(1) joins_split unfolding cells_ok_def by blast
  have l: "last ?cs = ?l" using ne by (simp add: last_conv_nth)
  have "cells_ok (if is_wide ?l then ?cs[n - 1 := cell_clear (vc_attrs ?l) ?l] else ?cs)"
  proof (cases "is_wide ?l")
    case True
    have "n - 1 < length ?cs" using ne assms(2) by simp
    from joins_at_wide [OF m this True] have "joins False (take (n - 1) ?cs) False" by simp
    then have "cut_at (n - 1) ?cs" using ok ne assms(2) by (simp add: cut_at_def)
    moreover have "cell_ok ?l" using ok ne assms(2) by (metis diff_less nth_mem zero_less_one)
    ultimately show ?thesis using True by (simp add: cut_at_update)
  next
    case False
    with joins_last [OF m ne(1)] l m ok show ?thesis by (simp add: cells_ok_def)
  qed
  with assms(2) ne show ?thesis
    by (cases "is_wide ?l") (simp_all add: row_truncate_def Let_def vrow_ok_def)
qed

end
