(* ===== verification/Vt_Grid_Props.thy ===== *)
theory Vt_Grid_Props
  imports Vt_Grid Vt_Row_Props
begin

text \<open>
  What holds of the grid: a well-formed grid, one that has its rows, stays so under every
  operation, none of which can then panic.
\<close>

section \<open>Well-formed grids\<close>

definition pos_ok :: "vsize \<Rightarrow> vpos \<Rightarrow> bool" where
  "pos_ok sz p = (ps_row p < sz_rows sz \<and> ps_col p \<le> sz_cols sz)"

definition size_ok :: "vsize \<Rightarrow> bool" where
  "size_ok sz = (2 \<le> sz_rows sz \<and> sz_rows sz < 65536 \<and> 2 \<le> sz_cols sz \<and> sz_cols sz < 65536)"

text \<open>The frame of a grid: its size, cursors, scroll region and scrollback.\<close>

definition frame_ok :: "grid \<Rightarrow> bool" where
  "frame_ok g =
     (size_ok (gr_size g) \<and> pos_ok (gr_size g) (gr_pos g) \<and> pos_ok (gr_size g) (gr_saved_pos g) \<and>
      gr_top g \<le> gr_bottom g \<and> 0 < gr_bottom g \<and> gr_bottom g < rows_of g \<and>
      length (gr_scrollback g) \<le> gr_limit g \<and> gr_offset g \<le> length (gr_scrollback g))"

text \<open>A grid is well formed when its rows are all there, or not allocated yet.\<close>

definition rows_all :: "grid \<Rightarrow> bool" where
  "rows_all g = (\<forall>r\<in>set (gr_rows g). vrow_ok (cols_of g) r)"

definition grid_ok :: "grid \<Rightarrow> bool" where
  "grid_ok g = (frame_ok g \<and> rows_all g \<and> (gr_rows g = [] \<or> length (gr_rows g) = rows_of g))"

definition grid_live :: "grid \<Rightarrow> bool" where
  "grid_live g = (frame_ok g \<and> rows_all g \<and> length (gr_rows g) = rows_of g)"

lemma grid_live_ok: "grid_live g \<Longrightarrow> grid_ok g"
  by (simp add: grid_live_def grid_ok_def)

lemma grid_liveI: "grid_ok g \<Longrightarrow> gr_rows g \<noteq> [] \<Longrightarrow> grid_live g"
  by (simp add: grid_live_def grid_ok_def)

lemma frameD:
  assumes "frame_ok g"
  shows "2 \<le> rows_of g" "rows_of g < 65536" "2 \<le> cols_of g" "cols_of g < 65536"
    "cur_row g < rows_of g" "cur_col g \<le> cols_of g" "gr_top g \<le> gr_bottom g" "gr_bottom g < rows_of g"
    "sub16 (rows_of g) 1 = rows_of g - 1" "sub16 (cols_of g) 1 = cols_of g - 1" "0 < gr_bottom g"
  using assms by (simp_all add: frame_ok_def size_ok_def pos_ok_def)

lemma live_frame: "grid_live g \<Longrightarrow> frame_ok g"
  by (simp add: grid_live_def)

lemma live_rows:
  assumes "grid_live g"
  shows "length (gr_rows g) = rows_of g" "i < rows_of g \<Longrightarrow> vrow_ok (cols_of g) (gr_rows g ! i)"
    "i < rows_of g \<Longrightarrow> get (gr_rows g) i = Some (gr_rows g ! i)"
  using assms by (simp_all add: grid_live_def rows_all_def get_def)

lemma frame_ok_rows [simp]: "frame_ok (g\<lparr>gr_rows := rs\<rparr>) = frame_ok g"
  by (simp add: frame_ok_def)

lemma rows_all_frame [simp]: "rows_all (g\<lparr>gr_pos := p\<rparr>) = rows_all g"
  by (simp add: rows_all_def)

lemma live_with_rows:
  assumes "grid_live g" "length rs = rows_of g" "\<forall>r\<in>set rs. vrow_ok (cols_of g) r"
  shows "grid_live (g\<lparr>gr_rows := rs\<rparr>)"
  using assms by (simp add: grid_live_def rows_all_def)

lemma with_pos:
  assumes "pos_ok (gr_size g) p"
  shows "grid_live g \<Longrightarrow> grid_live (g\<lparr>gr_pos := p\<rparr>)" "grid_ok g \<Longrightarrow> grid_ok (g\<lparr>gr_pos := p\<rparr>)"
  using assms by (simp_all add: grid_live_def grid_ok_def frame_ok_def)

section \<open>Cursor movements\<close>

text \<open>
  A movement only changes the cursor, and leaves it on the grid. Clamping does so from any
  position.
\<close>

definition moves :: "grid \<Rightarrow> grid \<Rightarrow> bool" where
  "moves g g' = (\<exists>p. g' = g\<lparr>gr_pos := p\<rparr> \<and> pos_ok (gr_size g) p)"

lemma moves_live: "moves g g' \<Longrightarrow> grid_live g \<Longrightarrow> grid_live g'"
  "moves g g' \<Longrightarrow> grid_ok g \<Longrightarrow> grid_ok g'"
  by (auto simp: moves_def with_pos)

lemma moves_frame: "moves g g' \<Longrightarrow> frame_ok g \<Longrightarrow> frame_ok g'"
  by (auto simp: moves_def frame_ok_def)

lemma set_row_pos: "set_row i g = g\<lparr>gr_pos := \<lparr>ps_row = i, ps_col = cur_col g\<rparr>\<rparr>"
  by (cases "gr_pos g") (simp add: set_row_def)

lemma set_col_pos: "set_col i g = g\<lparr>gr_pos := \<lparr>ps_row = cur_row g, ps_col = i\<rparr>\<rparr>"
  by (cases "gr_pos g") (simp add: set_col_def)

lemma same_pos: "g = g\<lparr>gr_pos := \<lparr>ps_row = cur_row g, ps_col = cur_col g\<rparr>\<rparr>"
  by (cases g; cases "gr_pos g") simp

lemma row_clamp_bottom_pos:
  assumes "frame_ok g"
  shows "\<exists>i. i < rows_of g \<and> fst (row_clamp_bottom b (g\<lparr>gr_pos := p\<rparr>)) = g\<lparr>gr_pos := \<lparr>ps_row = i, ps_col = ps_col p\<rparr>\<rparr>"
proof -
  note f = frameD [OF assms]
  show ?thesis
  proof (cases "ps_row p > (if b then gr_bottom g else rows_of g - 1)")
    case True
    then have "fst (row_clamp_bottom b (g\<lparr>gr_pos := p\<rparr>)) =
        g\<lparr>gr_pos := \<lparr>ps_row = (if b then gr_bottom g else rows_of g - 1), ps_col = ps_col p\<rparr>\<rparr>"
      using f by (cases b) (simp_all add: row_clamp_bottom_def Let_def set_row_pos)
    then show ?thesis using f by (intro exI [of _ "if b then gr_bottom g else rows_of g - 1"]) auto
  next
    case False
    then have "fst (row_clamp_bottom b (g\<lparr>gr_pos := p\<rparr>)) = g\<lparr>gr_pos := \<lparr>ps_row = ps_row p, ps_col = ps_col p\<rparr>\<rparr>"
      using f by (cases p; cases b) (simp_all add: row_clamp_bottom_def Let_def)
    then show ?thesis using False f by (intro exI [of _ "ps_row p"]) (auto split: if_splits)
  qed
qed

lemma row_clamp_top_pos:
  "\<exists>i. fst (row_clamp_top b (g\<lparr>gr_pos := p\<rparr>)) = g\<lparr>gr_pos := \<lparr>ps_row = i, ps_col = ps_col p\<rparr>\<rparr> \<and> (i = gr_top g \<or> i = ps_row p)"
  by (cases p) (auto simp: row_clamp_top_def set_row_pos)

lemma col_clamp_pos:
  assumes "frame_ok g" "i < rows_of g"
  shows "moves g (col_clamp (g\<lparr>gr_pos := \<lparr>ps_row = i, ps_col = c\<rparr>\<rparr>))"
  using assms frameD [OF assms(1)]
  by (auto simp: moves_def col_clamp_def set_col_pos pos_ok_def)

lemma set_pos_moves: "frame_ok g \<Longrightarrow> moves g (set_pos p g)"
proof -
  assume f: "frame_ok g"
  let ?p = "if gr_origin g then p\<lparr>ps_row := sat_add16 (ps_row p) (gr_top g)\<rparr> else p"
  obtain i where i: "fst (row_clamp_top (gr_origin g) (g\<lparr>gr_pos := ?p\<rparr>)) = g\<lparr>gr_pos := \<lparr>ps_row = i, ps_col = ps_col ?p\<rparr>\<rparr>"
    using row_clamp_top_pos by blast
  obtain j where j: "j < rows_of g"
    "fst (row_clamp_bottom (gr_origin g) (g\<lparr>gr_pos := \<lparr>ps_row = i, ps_col = ps_col ?p\<rparr>\<rparr>)) = g\<lparr>gr_pos := \<lparr>ps_row = j, ps_col = ps_col ?p\<rparr>\<rparr>"
    using row_clamp_bottom_pos [OF f, of "gr_origin g" "\<lparr>ps_row = i, ps_col = ps_col ?p\<rparr>"] by auto
  show ?thesis
    unfolding set_pos_def Let_def i j(2) by (rule col_clamp_pos [OF f j(1)])
qed

lemma row_inc_clamp_moves: "frame_ok g \<Longrightarrow> moves g (row_inc_clamp n g)"
proof -
  assume f: "frame_ok g"
  obtain i where "i < rows_of g" "row_inc_clamp n g = g\<lparr>gr_pos := \<lparr>ps_row = i, ps_col = cur_col g\<rparr>\<rparr>"
    using row_clamp_bottom_pos [OF f, of "in_scroll_region g" "\<lparr>ps_row = sat_add16 (cur_row g) n, ps_col = cur_col g\<rparr>"]
    unfolding row_inc_clamp_def set_row_pos by auto
  with frameD [OF f] show ?thesis by (auto simp: moves_def pos_ok_def)
qed

lemma row_dec_clamp_moves: "frame_ok g \<Longrightarrow> moves g (row_dec_clamp n g)"
proof -
  assume f: "frame_ok g"
  obtain i where "i = gr_top g \<or> i = cur_row g - n" "row_dec_clamp n g = g\<lparr>gr_pos := \<lparr>ps_row = i, ps_col = cur_col g\<rparr>\<rparr>"
    using row_clamp_top_pos [where b = "in_scroll_region g" and g = g and
        p = "\<lparr>ps_row = cur_row g - n, ps_col = cur_col g\<rparr>"]
    unfolding row_dec_clamp_def set_row_pos by auto
  with frameD [OF f] show ?thesis by (auto simp: moves_def pos_ok_def)
qed

lemma row_set_moves: "frame_ok g \<Longrightarrow> moves g (grid_row_set i g)"
  using frameD [of g] by (auto simp: moves_def grid_row_set_def row_clamp_def set_row_pos pos_ok_def)

lemma col_set_moves: "frame_ok g \<Longrightarrow> moves g (grid_col_set i g)"
  using col_clamp_pos [of g "cur_row g" i] frameD(5) [of g] by (simp add: grid_col_set_def set_col_pos)

lemma col_inc_clamp_moves: "frame_ok g \<Longrightarrow> moves g (col_inc_clamp i g)"
  using col_clamp_pos [of g "cur_row g"] frameD(5) [of g] by (simp add: col_inc_clamp_def col_inc_def set_col_pos)

lemma col_tab_moves: "frame_ok g \<Longrightarrow> moves g (col_tab g)"
  using col_clamp_pos [of g "cur_row g"] frameD(5) [of g] by (simp add: col_tab_def set_col_pos)

lemma col_dec_moves: "frame_ok g \<Longrightarrow> moves g (col_dec i g)"
  using frameD [of g] by (auto simp: moves_def col_dec_def set_col_pos pos_ok_def)

lemma set_row_moves: "frame_ok g \<Longrightarrow> i < rows_of g \<Longrightarrow> moves g (set_row i g)"
  using frameD [of g] by (auto simp: moves_def set_row_pos pos_ok_def)

lemma set_col_moves: "frame_ok g \<Longrightarrow> i \<le> cols_of g \<Longrightarrow> moves g (set_col i g)"
  using frameD [of g] by (auto simp: moves_def set_col_pos pos_ok_def)

lemma region_ok:
  assumes "grid_ok g" "tp \<le> b" "0 < b" "b < rows_of g"
  shows "grid_ok (g\<lparr>gr_top := tp, gr_bottom := b\<rparr>)"
  using assms by (simp add: grid_ok_def frame_ok_def rows_all_def)

lemma set_scroll_region_ok: "grid_ok g \<Longrightarrow> grid_ok (set_scroll_region tp b g) \<and> gr_rows (set_scroll_region tp b g) = gr_rows g"
proof -
  assume g: "grid_ok g"
  then have f: "frame_ok g" by (simp add: grid_ok_def)
  let ?b = "min b (sub16 (rows_of g) 1)"
  let ?g = "if tp < ?b then g\<lparr>gr_top := tp, gr_bottom := ?b\<rparr> else g\<lparr>gr_top := 0, gr_bottom := sub16 (rows_of g) 1\<rparr>"
  have ok: "grid_ok ?g" using region_ok [OF g] frameD [OF f] by auto
  then have f': "frame_ok ?g" by (simp add: grid_ok_def)
  have "gr_top ?g < rows_of ?g" using frameD(7,8) [OF f'] by linarith
  then have m: "moves ?g (set_row (gr_top ?g) ?g)" using set_row_moves [OF f'] by blast
  have "moves (set_row (gr_top ?g) ?g) (set_col 0 (set_row (gr_top ?g) ?g))"
    by (intro set_col_moves moves_frame [OF m f']) simp
  then have "grid_ok (set_col 0 (set_row (gr_top ?g) ?g))" using moves_live(2) m ok by blast
  moreover have "set_scroll_region tp b g = set_col 0 (set_row (gr_top ?g) ?g)"
    by (simp only: set_scroll_region_def Let_def)
  moreover have "gr_rows (set_col 0 (set_row i ?g)) = gr_rows g" for i
    by (simp add: set_row_def set_col_def)
  ultimately show ?thesis by metis
qed

lemma set_origin_mode_ok: "grid_ok g \<Longrightarrow> grid_ok (set_origin_mode m g) \<and> gr_rows (set_origin_mode m g) = gr_rows g"
proof -
  assume g: "grid_ok g"
  then have ok: "grid_ok (g\<lparr>gr_origin := m\<rparr>)" by (simp add: grid_ok_def frame_ok_def rows_all_def)
  then have mv: "moves (g\<lparr>gr_origin := m\<rparr>) (set_origin_mode m g)"
    unfolding set_origin_mode_def by (intro set_pos_moves) (simp add: grid_ok_def)
  with moves_live(2) [OF mv ok] show ?thesis by (auto simp: moves_def)
qed

lemma save_restore_ok:
  "grid_ok g \<Longrightarrow> grid_ok (grid_save_cursor g)" "grid_ok g \<Longrightarrow> grid_ok (grid_restore_cursor g)"
  "gr_rows (grid_save_cursor g) = gr_rows g" "gr_rows (grid_restore_cursor g) = gr_rows g"
  by (simp_all add: grid_ok_def frame_ok_def rows_all_def grid_save_cursor_def grid_restore_cursor_def)

lemma scrollback_ok:
  "grid_ok g \<Longrightarrow> grid_ok (set_scrollback n g)" "grid_ok g \<Longrightarrow> grid_ok (clear_scrollback g)"
  "gr_rows (set_scrollback n g) = gr_rows g" "gr_rows (clear_scrollback g) = gr_rows g"
  by (simp_all add: grid_ok_def frame_ok_def rows_all_def set_scrollback_def clear_scrollback_def)

section \<open>Making and resizing\<close>

lemma grid_new_ok: "size_ok sz \<Longrightarrow> grid_ok (grid_new sz n)"
  by (auto simp: grid_ok_def frame_ok_def rows_all_def grid_new_def size_ok_def pos_ok_def origin_pos_def)

lemma allocate_rows_live: "grid_ok g \<Longrightarrow> grid_live (allocate_rows g)"
  by (auto simp: grid_ok_def grid_live_def frame_ok_def rows_all_def allocate_rows_def)

lemma grid_clear_ok: "grid_ok g \<Longrightarrow> grid_ok (grid_clear g)"
proof -
  assume g: "grid_ok g"
  then have "frame_ok g" by (simp add: grid_ok_def)
  note f = frameD [OF this]
  have "pos_ok (gr_size g) origin_pos" using f by (simp add: origin_pos_def pos_ok_def)
  then have "frame_ok (grid_clear g)" using g f by (simp add: grid_ok_def frame_ok_def grid_clear_def)
  moreover have "rows_all (grid_clear g)" using g by (simp add: grid_ok_def rows_all_def grid_clear_def)
  ultimately show "grid_ok (grid_clear g)" using g by (auto simp: grid_ok_def grid_clear_def)
qed

text \<open>A new width cuts no wide character in two.\<close>

definition cuts_no_wide :: "nat \<Rightarrow> grid \<Rightarrow> bool" where
  "cuts_no_wide n g = (\<forall>r\<in>set (gr_rows g). n < length (vr_cells r) \<longrightarrow> \<not> is_wide (vr_cells r ! (n - 1)))"

lemma size_okD:
  assumes "size_ok (gr_size g)"
  shows "sub16 (rows_of g) 1 = rows_of g - 1" "sub16 (cols_of g) 1 = cols_of g - 1" "2 \<le> rows_of g" "2 \<le> cols_of g"
  using assms by (simp_all add: size_ok_def)

lemma fit_region_ok:
  assumes "size_ok (gr_size g)" "0 < gr_bottom g"
  shows "\<exists>tp b. fit_region g = g\<lparr>gr_top := tp, gr_bottom := b\<rparr> \<and> tp \<le> b \<and> 0 < b \<and> b < rows_of g"
proof -
  let ?b = "if gr_bottom g \<ge> rows_of g then rows_of g - 1 else gr_bottom g"
  let ?t = "if ?b < gr_top g then 0 else gr_top g"
  have "fit_region g = g\<lparr>gr_top := ?t, gr_bottom := ?b\<rparr>"
    using size_okD [OF assms(1)] unfolding fit_region_def Let_def
    by (cases "gr_bottom g \<ge> rows_of g"; cases "?b < gr_top g") simp_all
  moreover have "?t \<le> ?b" "0 < ?b" "?b < rows_of g" using size_okD(3) [OF assms(1)] assms(2) by auto
  ultimately show ?thesis by blast
qed

lemma clamp_cursor_ok:
  assumes "size_ok (gr_size g)"
  shows "\<exists>p. col_clamp (fst (row_clamp_bottom False (fst (row_clamp_top False g)))) = g\<lparr>gr_pos := p\<rparr> \<and> pos_ok (gr_size g) p"
proof -
  let ?p = "\<lparr>ps_row = min (cur_row g) (rows_of g - 1), ps_col = min (cur_col g) (cols_of g - 1)\<rparr>"
  have "col_clamp (fst (row_clamp_bottom False (fst (row_clamp_top False g)))) = g\<lparr>gr_pos := ?p\<rparr>"
    using size_okD [OF assms] same_pos [of g]
    unfolding row_clamp_top_def row_clamp_bottom_def Let_def col_clamp_def
    by (cases "cur_row g > rows_of g - 1"; cases "cur_col g > cols_of g - 1")
       (simp_all add: set_row_pos set_col_pos min_def)
  moreover have "pos_ok (gr_size g) ?p" using size_okD [OF assms] by (auto simp: pos_ok_def)
  ultimately show ?thesis by blast
qed

lemma clamp_saved_ok:
  assumes "size_ok (gr_size g)"
  shows "\<exists>p. clamp_saved g = g\<lparr>gr_saved_pos := p\<rparr> \<and> pos_ok (gr_size g) p"
proof -
  let ?s = "gr_saved_pos g"
  let ?p = "\<lparr>ps_row = min (ps_row ?s) (rows_of g - 1), ps_col = min (ps_col ?s) (cols_of g - 1)\<rparr>"
  have "g = g\<lparr>gr_saved_pos := \<lparr>ps_row = ps_row ?s, ps_col = ps_col ?s\<rparr>\<rparr>"
    by (cases g; cases ?s) simp
  then have "clamp_saved g = g\<lparr>gr_saved_pos := ?p\<rparr>"
    using size_okD [OF assms] unfolding clamp_saved_def Let_def
    by (cases ?s; cases "ps_row ?s > rows_of g - 1"; cases "ps_col ?s > cols_of g - 1") (simp_all add: min_def)
  moreover have "pos_ok (gr_size g) ?p" using size_okD [OF assms] by (auto simp: pos_ok_def)
  ultimately show ?thesis by blast
qed

lemma resize_rows_ok:
  assumes rows: "\<forall>r\<in>set (gr_rows g). cells_ok (vr_cells r)" and cut: "cuts_no_wide (sz_cols sz) g"
  shows "\<exists>rs. resize_rows sz g = g\<lparr>gr_size := sz, gr_rows := rs\<rparr> \<and> length rs = sz_rows sz \<and>
    (\<forall>r\<in>set rs. vrow_ok (sz_cols sz) r)"
proof -
  let ?rs = "vec_resize (sz_rows sz) (row_new (sz_cols sz)) (map (row_resize (sz_cols sz) cell_new) (gr_rows g))"
  have "\<forall>r\<in>set (gr_rows g). vrow_ok (sz_cols sz) (row_resize (sz_cols sz) cell_new r)"
    using rows cut by (auto intro!: row_resize_ok simp: cuts_no_wide_def)
  then have "\<forall>r\<in>set ?rs. vrow_ok (sz_cols sz) r"
    by (auto simp: vec_resize_def dest!: in_set_takeD)
  moreover have "resize_rows sz g = g\<lparr>gr_size := sz, gr_rows := ?rs\<rparr>"
    by (simp add: resize_rows_def new_row_def Let_def)
  moreover have "length ?rs = sz_rows sz" by (simp add: vec_resize_def)
  ultimately show ?thesis by blast
qed

lemma grid_set_size_live:
  assumes g: "grid_ok g" and sz: "size_ok sz" and cut: "cuts_no_wide (sz_cols sz) g"
  shows "grid_live (grid_set_size sz g) \<and> gr_size (grid_set_size sz g) = sz"
proof -
  let ?g1 = "if sz_cols sz \<noteq> cols_of g then g\<lparr>gr_rows := map (row_wrap False) (gr_rows g)\<rparr> else g"
  obtain g2 where g2: "g2 = (if gr_bottom ?g1 = sub16 (rows_of ?g1) 1 then ?g1\<lparr>gr_bottom := sub16 (sz_rows sz) 1\<rparr> else ?g1)"
    by blast
  have "\<forall>r\<in>set (gr_rows g). cells_ok (vr_cells r)" using g by (simp add: grid_ok_def rows_all_def vrow_ok_def)
  then have rows: "\<forall>r\<in>set (gr_rows g2). cells_ok (vr_cells r)" unfolding g2 by (auto simp: row_wrap_def)
  have cut2: "cuts_no_wide (sz_cols sz) g2" using cut unfolding g2 by (auto simp: cuts_no_wide_def row_wrap_def)
  have same: "gr_scrollback g2 = gr_scrollback g" "gr_limit g2 = gr_limit g" "gr_offset g2 = gr_offset g"
    unfolding g2 by simp_all
  obtain rs where rs: "resize_rows sz g2 = g2\<lparr>gr_size := sz, gr_rows := rs\<rparr>" "length rs = sz_rows sz"
    "\<forall>r\<in>set rs. vrow_ok (sz_cols sz) r" using resize_rows_ok [OF rows cut2] by blast
  obtain g3 where g3: "g3 = g2\<lparr>gr_size := sz, gr_rows := rs\<rparr>" by blast
  have s3: "gr_size g3 = sz" "size_ok (gr_size g3)" using sz by (simp_all add: g3)
  have "0 < gr_bottom g2"
    using g sz size_okD(1) [of g] frameD(11) [of g] unfolding g2 by (auto simp: grid_ok_def size_ok_def)
  then have b3: "0 < gr_bottom g3" by (simp add: g3)
  obtain tp b where fr: "fit_region g3 = g3\<lparr>gr_top := tp, gr_bottom := b\<rparr>" "tp \<le> b" "0 < b" "b < rows_of g3"
    using fit_region_ok [OF s3(2) b3] by blast
  obtain g4 where g4: "g4 = g3\<lparr>gr_top := tp, gr_bottom := b\<rparr>" by blast
  have s4: "gr_size g4 = sz" "size_ok (gr_size g4)" using s3 by (simp_all add: g4)
  obtain p where p: "col_clamp (fst (row_clamp_bottom False (fst (row_clamp_top False g4)))) = g4\<lparr>gr_pos := p\<rparr>"
    "pos_ok sz p" using clamp_cursor_ok [OF s4(2)] s4(1) by auto
  have s5: "size_ok (gr_size (g4\<lparr>gr_pos := p\<rparr>))" using s4 by simp
  obtain q where q: "clamp_saved (g4\<lparr>gr_pos := p\<rparr>) = g4\<lparr>gr_pos := p, gr_saved_pos := q\<rparr>" "pos_ok sz q"
    using clamp_saved_ok [OF s5] s4(1) by auto
  have res: "grid_set_size sz g = g4\<lparr>gr_pos := p, gr_saved_pos := q\<rparr>"
    unfolding grid_set_size_def Let_def g2 [symmetric] rs(1) g3 [symmetric] fr(1) g4 [symmetric] p(1) q(1) ..
  have "frame_ok (grid_set_size sz g)"
    using p(2) q(2) fr(2,3,4) sz g same s3(1)
    unfolding res frame_ok_def by (simp add: g4 g3 grid_ok_def frame_ok_def)
  then show ?thesis
    using rs(2,3) unfolding grid_live_def res rows_all_def by (simp add: g4 g3)
qed

section \<open>Changing rows and cells\<close>

lemma on_row_live:
  assumes "grid_live g" "i < rows_of g" "\<exists>r'. f (gr_rows g ! i) = Some r' \<and> vrow_ok (cols_of g) r'"
  shows "\<exists>r'. f (gr_rows g ! i) = Some r' \<and> on_row i f g = Some (g\<lparr>gr_rows := (gr_rows g)[i := r']\<rparr>) \<and>
    grid_live (g\<lparr>gr_rows := (gr_rows g)[i := r']\<rparr>)"
proof -
  obtain r' where r': "f (gr_rows g ! i) = Some r'" "vrow_ok (cols_of g) r'" using assms(3) by blast
  have "grid_live (g\<lparr>gr_rows := (gr_rows g)[i := r']\<rparr>)"
    using assms(1) r'(2) set_update_subset_insert [of "gr_rows g" i r']
    by (intro live_with_rows) (auto simp: grid_live_def rows_all_def)
  with r' live_rows(3) [OF assms(1,2)] show ?thesis by (simp add: on_row_def)
qed

lemma on_current_row_live:
  assumes "grid_live g" "\<And>r. vrow_ok (cols_of g) r \<Longrightarrow> \<exists>r'. f r = Some r' \<and> vrow_ok (cols_of g) r'"
  shows "\<exists>g'. on_current_row f g = Some g' \<and> grid_live g'"
proof -
  have i: "cur_row g < rows_of g" using frameD(5) [OF live_frame [OF assms(1)]] .
  show ?thesis
    using on_row_live [of g "cur_row g" f, OF assms(1) i assms(2) [OF live_rows(2) [OF assms(1) i]]]
    unfolding on_current_row_def by blast
qed

lemma erase_loop_ok:
  assumes "vrow_ok n r" "n < 65536" "\<forall>i\<in>set cols. i < n"
  shows "\<exists>r'. each_opt (\<lambda>col. row_erase col a) cols r = Some r' \<and> vrow_ok n r'"
  by (rule each_opt_inv [where I = "vrow_ok n"]) (use assms row_erase_ok in auto)

lemma erase_all_ok: "grid_ok g \<Longrightarrow> grid_ok (erase_all a g)" "gr_rows (erase_all a g) = [] \<longleftrightarrow> gr_rows g = []"
  by (auto simp: erase_all_def grid_ok_def rows_all_def)

lemma erase_row_forward_live: "grid_live g \<Longrightarrow> \<exists>g'. erase_row_forward a g = Some g' \<and> grid_live g'"
  unfolding erase_row_forward_def
  by (intro on_current_row_live erase_loop_ok) (auto dest: live_frame frameD)

lemma erase_row_backward_live:
  assumes g: "grid_live g"
  shows "\<exists>g'. erase_row_backward a g = Some g' \<and> grid_live g'"
  unfolding erase_row_backward_def
  using frameD [OF live_frame [OF g]]
  by (intro on_current_row_live [OF g] erase_loop_ok) auto

lemma clear_some_rows:
  assumes "grid_live g"
  shows "grid_live (g\<lparr>gr_rows := take n (gr_rows g) @ map (row_clear a) (drop n (gr_rows g))\<rparr>)"
    "grid_live (g\<lparr>gr_rows := map (row_clear a) (take n (gr_rows g)) @ drop n (gr_rows g)\<rparr>)"
  using assms live_rows(1) [OF assms]
  by (intro live_with_rows; auto simp: grid_live_def rows_all_def dest: in_set_takeD in_set_dropD)+

lemma erase_all_forward_live: "grid_live g \<Longrightarrow> \<exists>g'. erase_all_forward a g = Some g' \<and> grid_live g'"
  unfolding erase_all_forward_def by (intro erase_row_forward_live clear_some_rows)

lemma erase_all_backward_live: "grid_live g \<Longrightarrow> \<exists>g'. erase_all_backward a g = Some g' \<and> grid_live g'"
  unfolding erase_all_backward_def by (intro erase_row_backward_live clear_some_rows)

lemma erase_row_live: "grid_live g \<Longrightarrow> \<exists>g'. erase_row a g = Some g' \<and> grid_live g'"
  unfolding erase_row_def by (intro on_current_row_live) auto

lemma erase_cells_live: "grid_live g \<Longrightarrow> \<exists>g'. erase_cells n a g = Some g' \<and> grid_live g'"
  unfolding erase_cells_def
  by (intro on_current_row_live erase_loop_ok) (auto dest: live_frame frameD)

text \<open>Inserting cells: the row grows, its cells staying sound, and is cut at the end.\<close>

definition growing :: "nat \<Rightarrow> nat \<Rightarrow> bool \<Rightarrow> vrow \<Rightarrow> bool" where
  "growing n i wide r =
     (cells_ok (vr_cells r) \<and> n \<le> length (vr_cells r) \<and> i \<le> length (vr_cells r) \<and>
      (if wide then i < length (vr_cells r) \<and> is_wide_continuation (vr_cells r ! i)
       else i < length (vr_cells r) \<longrightarrow> \<not> is_wide_continuation (vr_cells r ! i)))"

lemma insert_one_cell_ok:
  assumes "growing n i wide r"
  shows "\<exists>r'. insert_one_cell i wide r = Some r' \<and> growing n i wide r'"
proof -
  let ?cs = "vr_cells r"
  have ok: "\<forall>c\<in>set ?cs. cell_ok c" and j: "joins False ?cs False" using assms by (auto simp: growing_def cells_ok_def)
  have okt: "\<forall>c\<in>set (take i ?cs). cell_ok c" "\<forall>c\<in>set (drop k ?cs). cell_ok c" for k
    using ok by (auto dest: in_set_takeD in_set_dropD)
  show ?thesis
  proof (cases wide)
    case True
    with assms have i: "i < length ?cs" "is_wide_continuation (?cs ! i)" by (auto simp: growing_def)
    let ?c = "set_wide_continuation False (?cs ! i)" and ?n = "set_wide_continuation True cell_new"
    note jn = joins_nth [OF j i(1)]
    have "joins True [?n] False" "joins False [?c] False"
      using jn i(2) by (simp_all add: len_flags)
    then have "joins False (take i ?cs @ [?n] @ [?c] @ drop (Suc i) ?cs) False"
      using jn i(2) by (auto simp: joins_append)
    then have good: "cells_ok (take i ?cs @ ?n # ?c # drop (Suc i) ?cs)"
      using ok okt i(1) by (auto simp: cells_ok_def)
    have "(insert_nth i cell_new (?cs[i := ?c])) [i := ?n] = take i ?cs @ ?n # ?c # drop (Suc i) ?cs"
      using i(1) by (simp add: insert_nth_def list_update_append drop_update_swap upd_conv_take_nth_drop
          take_Cons' min_def)
    then have "insert_one_cell i wide r =
        Some (r\<lparr>vr_cells := take i ?cs @ ?n # ?c # drop (Suc i) ?cs, vr_wrapped := False\<rparr>)"
      using True i(1)
      by (simp add: insert_one_cell_def set_cell_continuation_def row_get_def row_insert_def get_def
          length_insert_nth) (simp add: insert_nth_def nth_append)
    moreover have "(take i ?cs @ ?n # ?c # drop (Suc i) ?cs) ! i = ?n"
      using i(1) by (simp add: nth_append min_def)
    ultimately show ?thesis
      using good i(1) assms True by (auto simp: growing_def len_flags)
  next
    case False
    with assms have i: "i \<le> length ?cs" "i < length ?cs \<longrightarrow> \<not> is_wide_continuation (?cs ! i)"
      by (auto simp: growing_def)
    have "joins False (take i ?cs) False \<and> joins False (drop i ?cs) False"
    proof (cases "i < length ?cs")
      case True
      with joins_nth [OF j True] i(2) show ?thesis by (simp add: Cons_nth_drop_Suc [symmetric])
    next
      case False
      with i(1) j show ?thesis by simp
    qed
    then have "cells_ok (take i ?cs @ cell_new # drop i ?cs)"
      using okt by (intro cells_ok_cut) auto
    then show ?thesis
      using False i(1) assms
      by (auto simp: insert_one_cell_def row_insert_def insert_nth_def growing_def nth_append min_def)
  qed
qed

lemma insert_cells_live:
  assumes g: "grid_live g"
  shows "\<exists>g'. insert_cells n g = Some g' \<and> grid_live g'"
proof -
  note f = frameD [OF live_frame [OF g]]
  obtain r where r: "get (gr_rows g) (cur_row g) = Some r" "vrow_ok (cols_of g) r" "r = gr_rows g ! cur_row g"
    using live_rows [OF g] f(5) by blast
  let ?wide = "cur_col g < cols_of g \<and> is_wide_continuation (vr_cells r ! cur_col g)"
  have w: "(if cur_col g < cols_of g then map_option is_wide_continuation (drawing_cell (gr_pos g) g) else Some False)
      = Some ?wide"
    using r by (auto simp: drawing_cell_def drawing_row_def row_get_def get_def vrow_ok_def)
  have "growing (cols_of g) (cur_col g) ?wide r"
    using r(2) f(6) by (auto simp: growing_def vrow_ok_def)
  then obtain r1 where r1: "repeat_opt n (insert_one_cell (cur_col g) ?wide) r = Some r1"
    "growing (cols_of g) (cur_col g) ?wide r1"
    using repeat_opt_inv [where I = "growing (cols_of g) (cur_col g) ?wide" and
        f = "insert_one_cell (cur_col g) ?wide", OF insert_one_cell_ok] by blast
  obtain r2 where r2: "row_truncate (cols_of g) r1 = Some r2" "vrow_ok (cols_of g) r2"
    using row_truncate_ok [of r1 "cols_of g"] r1(2) f(3) by (auto simp: growing_def)
  have "\<exists>r'. (do { r1 \<leftarrow> repeat_opt n (insert_one_cell (cur_col g) ?wide) (gr_rows g ! cur_row g);
      row_truncate (cols_of g) r1 }) = Some r' \<and> vrow_ok (cols_of g) r'"
    using r1(1) r2 r(3) by simp
  from on_row_live [where i = "cur_row g" and f = "\<lambda>r. do { r1 \<leftarrow> repeat_opt n (insert_one_cell (cur_col g) ?wide) r;
      row_truncate (cols_of g) r1 }", OF g f(5) this] show ?thesis
    unfolding insert_cells_def w on_current_row_def by auto
qed

lemma delete_cells_live:
  assumes g: "grid_live g"
  shows "\<exists>g'. delete_cells n g = Some g' \<and> grid_live g'"
proof -
  note f = frameD [OF live_frame [OF g]]
  let ?k = "min n (sub16 (cols_of g) (cur_col g))"
  have k: "?k \<le> cols_of g - cur_col g" using f by simp
  have run: "m \<le> cols_of g - cur_col g \<Longrightarrow> cells_ok (vr_cells r) \<Longrightarrow> length (vr_cells r) \<le> cols_of g \<Longrightarrow>
      cur_col g + m \<le> length (vr_cells r) \<Longrightarrow>
      \<exists>r'. repeat_opt m (row_remove (cur_col g)) r = Some r' \<and> cells_ok (vr_cells r') \<and> length (vr_cells r') \<le> cols_of g"
    for m r
  proof (induction m arbitrary: r)
    case (Suc m)
    then obtain r1 where r1: "row_remove (cur_col g) r = Some r1" "cells_ok (vr_cells r1)"
      "length (vr_cells r1) = length (vr_cells r) - 1"
      using row_remove_ok [of r "cur_col g"] f by auto
    with Suc.IH [of r1] Suc.prems show ?case by simp
  qed simp
  have "\<exists>r'. (do { r1 \<leftarrow> repeat_opt ?k (row_remove (cur_col g)) r; Some (row_resize (cols_of g) cell_new r1) }) = Some r' \<and>
      vrow_ok (cols_of g) r'" if "vrow_ok (cols_of g) r" for r
  proof -
    have "cur_col g + ?k \<le> cols_of g" using k f(6) by linarith
    moreover have "length (vr_cells r) = cols_of g" "cells_ok (vr_cells r)" using that by (simp_all add: vrow_ok_def)
    ultimately obtain r1 where "repeat_opt ?k (row_remove (cur_col g)) r = Some r1" "cells_ok (vr_cells r1)"
      "length (vr_cells r1) \<le> cols_of g"
      using run [OF k, of r] by (metis order_refl)
    with row_resize_ok [of r1 "cols_of g"] show ?thesis by simp
  qed
  then show ?thesis unfolding delete_cells_def by (rule on_current_row_live [OF g])
qed

section \<open>Scrolling\<close>

lemma set_insert_nth: "set (insert_nth i x xs) \<subseteq> insert x (set xs)"
  unfolding insert_nth_def using set_take_subset [of i xs] set_drop_subset [of i xs] by auto

lemma new_row_ok: "vrow_ok (cols_of g) (new_row g)"
  by (simp add: new_row_def)

lemma shifted_rows:
  assumes "grid_live g" "i < rows_of g" "j < rows_of g"
  shows "\<exists>rs. (do { (_, rs) \<leftarrow> vec_remove i (gr_rows g); vec_insert j (new_row g) rs }) = Some rs \<and>
    grid_live (g\<lparr>gr_rows := rs\<rparr>)"
proof -
  let ?rs = "insert_nth j (new_row g) (drop_nth i (gr_rows g))"
  have l: "length (gr_rows g) = rows_of g" using assms(1) by (rule live_rows)
  have "length ?rs = rows_of g" using assms l by (simp add: length_insert_nth length_drop_nth)
  moreover have "\<forall>r\<in>set ?rs. vrow_ok (cols_of g) r"
  proof -
    have "set ?rs \<subseteq> insert (new_row g) (set (gr_rows g))"
      by (rule order_trans [OF set_insert_nth insert_mono [OF set_drop_nth_subset]])
    then show ?thesis using assms(1) new_row_ok [of g] by (auto simp: grid_live_def rows_all_def)
  qed
  ultimately have "grid_live (g\<lparr>gr_rows := ?rs\<rparr>)" using assms(1) by (intro live_with_rows)
  moreover have "(do { (_, rs) \<leftarrow> vec_remove i (gr_rows g); vec_insert j (new_row g) rs }) = Some ?rs"
    using assms l by (simp add: vec_remove_def vec_insert_def length_drop_nth)
  ultimately show ?thesis by blast
qed

lemma shifted_rows_back:
  assumes "grid_live g" "i < rows_of g" "j < rows_of g"
  shows "\<exists>rs x. (do { rs \<leftarrow> vec_insert (i + 1) (new_row g) (gr_rows g); vec_remove j rs }) = Some (x, rs) \<and>
    grid_live (g\<lparr>gr_rows := rs\<rparr>)"
proof -
  let ?is = "insert_nth (i + 1) (new_row g) (gr_rows g)"
  let ?rs = "drop_nth j ?is"
  have l: "length (gr_rows g) = rows_of g" using assms(1) by (rule live_rows)
  have li: "length ?is = Suc (rows_of g)" using assms l by (simp add: length_insert_nth)
  then have "length ?rs = rows_of g" using assms by (simp add: length_drop_nth)
  moreover have "\<forall>r\<in>set ?rs. vrow_ok (cols_of g) r"
  proof -
    have "set ?rs \<subseteq> insert (new_row g) (set (gr_rows g))"
      by (rule order_trans [OF set_drop_nth_subset set_insert_nth])
    then show ?thesis using assms(1) new_row_ok [of g] by (auto simp: grid_live_def rows_all_def)
  qed
  ultimately have "grid_live (g\<lparr>gr_rows := ?rs\<rparr>)" using assms(1) by (intro live_with_rows)
  moreover have "(do { rs \<leftarrow> vec_insert (i + 1) (new_row g) (gr_rows g); vec_remove j rs }) = Some (?is ! j, ?rs)"
    using assms l li by (simp add: vec_remove_def vec_insert_def)
  ultimately show ?thesis by blast
qed

lemma unwrap_bottom_live:
  assumes "grid_live g"
  shows "\<exists>g'. unwrap_bottom g = Some g' \<and> grid_live g' \<and> gr_pos g' = gr_pos g"
  unfolding unwrap_bottom_def
  using on_row_live [OF assms frameD(8) [OF live_frame [OF assms]], of "\<lambda>r. Some (row_wrap False r)"]
    live_rows(2) [OF assms frameD(8) [OF live_frame [OF assms]]] by auto

lemma insert_line_live: "grid_live g \<Longrightarrow> \<exists>g'. insert_line g = Some g' \<and> grid_live g'"
proof -
  assume g: "grid_live g"
  note f = frameD [OF live_frame [OF g]]
  obtain rs where rs: "(do { (_, rs) \<leftarrow> vec_remove (gr_bottom g) (gr_rows g); vec_insert (cur_row g) (new_row g) rs }) = Some rs"
    "grid_live (g\<lparr>gr_rows := rs\<rparr>)" using shifted_rows [OF g f(8,5)] by blast
  have "insert_line g = unwrap_bottom (g\<lparr>gr_rows := rs\<rparr>)"
    using rs(1) by (auto simp: insert_line_def split: bind_splits)
  with unwrap_bottom_live [OF rs(2)] show ?thesis by auto
qed

lemma scroll_down_line_live: "grid_live g \<Longrightarrow> \<exists>g'. scroll_down_line g = Some g' \<and> grid_live g' \<and> gr_pos g' = gr_pos g"
proof -
  assume g: "grid_live g"
  note f = frameD [OF live_frame [OF g]]
  have "gr_top g < rows_of g" using f by linarith
  then obtain rs where rs: "(do { (_, rs) \<leftarrow> vec_remove (gr_bottom g) (gr_rows g); vec_insert (gr_top g) (new_row g) rs }) = Some rs"
    "grid_live (g\<lparr>gr_rows := rs\<rparr>)" using shifted_rows [OF g f(8)] by blast
  have "scroll_down_line g = unwrap_bottom (g\<lparr>gr_rows := rs\<rparr>)"
    using rs(1) by (auto simp: scroll_down_line_def split: bind_splits)
  with unwrap_bottom_live [OF rs(2)] show ?thesis by auto
qed

lemma delete_line_live: "grid_live g \<Longrightarrow> \<exists>g'. delete_line g = Some g' \<and> grid_live g'"
proof -
  assume g: "grid_live g"
  note f = frameD [OF live_frame [OF g]]
  obtain rs x where rs: "(do { rs \<leftarrow> vec_insert (gr_bottom g + 1) (new_row g) (gr_rows g); vec_remove (cur_row g) rs }) = Some (x, rs)"
    "grid_live (g\<lparr>gr_rows := rs\<rparr>)" using shifted_rows_back [OF g f(8,5)] by blast
  then show ?thesis by (auto simp: delete_line_def split: bind_splits)
qed

lemma keep_row_live: "grid_live g \<Longrightarrow> 0 < gr_limit g \<Longrightarrow> grid_live (keep_row r g)"
  by (auto simp: keep_row_def Let_def grid_live_def frame_ok_def rows_all_def)

lemma scroll_up_line_live:
  "grid_live g \<Longrightarrow> \<exists>g'. scroll_up_line g = Some g' \<and> grid_live g' \<and> gr_pos g' = gr_pos g \<and> gr_size g' = gr_size g"
proof -
  assume g: "grid_live g"
  note f = frameD [OF live_frame [OF g]]
  have t: "gr_top g < rows_of g" using f by linarith
  obtain rs x where rs: "(do { rs \<leftarrow> vec_insert (gr_bottom g + 1) (new_row g) (gr_rows g); vec_remove (gr_top g) rs }) = Some (x, rs)"
    "grid_live (g\<lparr>gr_rows := rs\<rparr>)" using shifted_rows_back [OF g f(8) t] by blast
  have "scroll_up_line g = Some (if gr_limit (g\<lparr>gr_rows := rs\<rparr>) > 0 \<and> \<not> scroll_region_active (g\<lparr>gr_rows := rs\<rparr>)
      then keep_row x (g\<lparr>gr_rows := rs\<rparr>) else g\<lparr>gr_rows := rs\<rparr>)"
    using rs(1) by (auto simp: scroll_up_line_def Let_def split: bind_splits)
  then show ?thesis
    using rs(2) keep_row_live [OF rs(2), of x] by (auto simp: keep_row_def Let_def)
qed

lemma insert_lines_live: "grid_live g \<Longrightarrow> \<exists>g'. insert_lines n g = Some g' \<and> grid_live g'"
  unfolding insert_lines_def by (rule repeat_opt_inv [where I = grid_live]) (rule insert_line_live)

lemma delete_lines_live: "grid_live g \<Longrightarrow> \<exists>g'. delete_lines n g = Some g' \<and> grid_live g'"
  unfolding delete_lines_def by (rule repeat_opt_inv [where I = grid_live]) (rule delete_line_live)

lemma scroll_down_live: "grid_live g \<Longrightarrow> \<exists>g'. scroll_down n g = Some g' \<and> grid_live g'"
  unfolding scroll_down_def
  by (rule repeat_opt_inv [where I = grid_live]) (use scroll_down_line_live in blast)+

lemma scroll_up_live:
  assumes "grid_live g"
  shows "\<exists>g'. scroll_up n g = Some g' \<and> grid_live g' \<and> gr_pos g' = gr_pos g \<and> gr_size g' = gr_size g"
  unfolding scroll_up_def
  by (rule repeat_opt_inv [where I = "\<lambda>g'. grid_live g' \<and> gr_pos g' = gr_pos g \<and> gr_size g' = gr_size g"])
     (use scroll_up_line_live assms in \<open>force+\<close>)

lemma row_inc_scroll_live:
  assumes g: "grid_live g"
  shows "\<exists>g' k. row_inc_scroll n g = Some (g', k) \<and> grid_live g' \<and> gr_size g' = gr_size g \<and> cur_col g' = cur_col g"
proof -
  obtain i where i: "i < rows_of g"
    "fst (row_clamp_bottom (in_scroll_region g) (g\<lparr>gr_pos := \<lparr>ps_row = sat_add16 (cur_row g) n, ps_col = cur_col g\<rparr>\<rparr>)) =
      g\<lparr>gr_pos := \<lparr>ps_row = i, ps_col = cur_col g\<rparr>\<rparr>"
    using row_clamp_bottom_pos [OF live_frame [OF g], of "in_scroll_region g"
        "\<lparr>ps_row = sat_add16 (cur_row g) n, ps_col = cur_col g\<rparr>"] by auto
  let ?g1 = "g\<lparr>gr_pos := \<lparr>ps_row = i, ps_col = cur_col g\<rparr>\<rparr>"
  obtain k where k: "row_clamp_bottom (in_scroll_region g) (set_row (sat_add16 (cur_row g) n) g) = (?g1, k)"
    unfolding set_row_pos by (metis i(2) surjective_pairing)
  have live1: "grid_live ?g1"
    using i(1) frameD(6) [OF live_frame [OF g]] by (intro with_pos(1) g) (simp add: pos_ok_def)
  from scroll_up_live [OF live1, of k] k live1 show ?thesis
    by (auto simp: row_inc_scroll_def)
qed

lemma row_dec_scroll_live:
  assumes g: "grid_live g"
  shows "\<exists>g'. row_dec_scroll n g = Some g' \<and> grid_live g'"
proof -
  obtain i where i: "fst (row_clamp_top (in_scroll_region g) (g\<lparr>gr_pos := \<lparr>ps_row = cur_row g - n, ps_col = cur_col g\<rparr>\<rparr>)) =
      g\<lparr>gr_pos := \<lparr>ps_row = i, ps_col = cur_col g\<rparr>\<rparr>" "i = gr_top g \<or> i = cur_row g - n"
    using row_clamp_top_pos [where b = "in_scroll_region g" and g = g and
        p = "\<lparr>ps_row = cur_row g - n, ps_col = cur_col g\<rparr>"] by auto
  let ?g1 = "g\<lparr>gr_pos := \<lparr>ps_row = i, ps_col = cur_col g\<rparr>\<rparr>"
  obtain k where k: "row_clamp_top (in_scroll_region g) (set_row (cur_row g - n) g) = (?g1, k)"
    unfolding set_row_pos by (metis i(1) surjective_pairing)
  have live1: "grid_live ?g1"
    using i(2) frameD [OF live_frame [OF g]] by (intro with_pos(1) g) (auto simp: pos_ok_def)
  from scroll_down_live [OF live1] k show ?thesis by (simp add: row_dec_scroll_def Let_def)
qed

lemma col_wrap_live:
  assumes g: "grid_live g" and w: "width \<le> 2"
  shows "\<exists>g'. col_wrap width wrap g = Some g' \<and> grid_live g' \<and> gr_size g' = gr_size g \<and> cur_col g' + width \<le> cols_of g'"
proof (cases "cur_col g > sub16 (cols_of g) width")
  case False
  with g w frameD [OF live_frame [OF g]] show ?thesis by (simp add: col_wrap_def)
next
  case True
  note f = frameD [OF live_frame [OF g]]
  let ?g0 = "set_col 0 g"
  have g0: "grid_live ?g0" "gr_size ?g0 = gr_size g" "cur_row ?g0 = cur_row g" "cur_col ?g0 = 0"
    using moves_live(1) [OF set_col_moves [OF live_frame [OF g], of 0] g] by (simp_all add: set_col_pos)
  obtain g1 k where r: "row_inc_scroll 1 ?g0 = Some (g1, k)" "grid_live g1" "gr_size g1 = gr_size ?g0" "cur_col g1 = cur_col ?g0"
    using row_inc_scroll_live [OF g0(1)] by blast
  have "k \<le> cur_row g"
    using r(1) f unfolding row_inc_scroll_def Let_def row_clamp_bottom_def in_scroll_region_def set_col_pos set_row_pos
    by (auto simp: sat_add16_def split: if_splits)
  then have prev: "sub16 (cur_row g) k < rows_of g1" using f g0 r(3) by simp
  let ?f = "\<lambda>r. Some (row_wrap (wrap \<and> add16 (sub16 (cur_row g) k) 1 = cur_row g1) r)"
  have "\<exists>r'. ?f (gr_rows g1 ! sub16 (cur_row g) k) = Some r' \<and> vrow_ok (cols_of g1) r'"
    using live_rows(2) [OF r(2) prev] by simp
  from on_row_live [where f = ?f, OF r(2) prev this] r g0 True f w show ?thesis
    by (auto simp: col_wrap_def Let_def)
qed

end
