(* ===== verification/Vt_Text_Props.thy ===== *)
theory Vt_Text_Props
  imports Vt_Screen Vt_Grid_Props
begin

text \<open>
  What printing a character does to a well-formed grid: it never panics, leaves the grid well
  formed, and changes only the row of the cursor around the cursor (and the rows it scrolls).
\<close>

section \<open>Widths\<close>

text \<open>What the program relies on of the \<open>unicode-width\<close> crate: no character is wider than two columns, a space takes one.\<close>

definition width_ok :: "char_width \<Rightarrow> bool" where
  "width_ok w = (w 32 = Some 1 \<and> (\<forall>c n. w c = Some n \<longrightarrow> n \<le> 2))"

abbreviation width_of :: "char_width \<Rightarrow> nat \<Rightarrow> nat" where
  "width_of w ch \<equiv> (case w ch of None \<Rightarrow> 1 | Some n \<Rightarrow> n)"

lemma width_of_le: "width_ok w \<Longrightarrow> width_of w ch \<le> 2"
  by (cases "w ch") (auto simp: width_ok_def)

lemma space_ok:
  assumes "width_ok w" "cell_ok c"
  shows "\<exists>x. cell_set w 32 a c = Some x \<and> cell_ok x \<and> plain x"
  using cell_set_ok [of c w 32 a] assms by (auto simp: width_ok_def cell_ok_def)

section \<open>A row put into a grid\<close>

definition put_row :: "nat \<Rightarrow> vrow \<Rightarrow> grid \<Rightarrow> grid" where
  "put_row i r g = g\<lparr>gr_rows := (gr_rows g)[i := r]\<rparr>"

lemma put_row_frame [simp]:
  "gr_pos (put_row i r g) = gr_pos g" "gr_size (put_row i r g) = gr_size g"
  "length (gr_rows (put_row i r g)) = length (gr_rows g)"
  "set_col c (put_row i r g) = put_row i r (set_col c g)" "col_inc n (put_row i r g) = put_row i r (col_inc n g)"
  by (simp_all add: put_row_def set_col_def col_inc_def)

lemma put_row_same: "i < length (gr_rows g) \<Longrightarrow> put_row i (gr_rows g ! i) g = g"
  by (simp add: put_row_def)

lemma put_row_cell:
  "i < length (gr_rows g) \<Longrightarrow> ps_row p = i \<Longrightarrow> drawing_cell p (put_row i r g) = get (vr_cells r) (ps_col p)"
  by (simp add: drawing_cell_def drawing_row_def put_row_def row_get_def get_def)

lemma put_row_on_cell:
  assumes "i < length (gr_rows g)" "ps_row p = i" "ps_col p < length (vr_cells r)"
    "f (vr_cells r ! ps_col p) = Some c"
  shows "on_cell p f (put_row i r g) = Some (put_row i (r\<lparr>vr_cells := (vr_cells r)[ps_col p := c]\<rparr>) g)"
  using assms by (simp add: on_cell_def on_row_def put_row_def row_get_def get_def)

lemma put_row_on_cell_if:
  assumes "i < length (gr_rows g)" "ps_row p = i" "ps_col p < length (vr_cells r)"
    "f (vr_cells r ! ps_col p) = Some c"
  shows "on_cell_if p f (put_row i r g) = Some (put_row i (r\<lparr>vr_cells := (vr_cells r)[ps_col p := c]\<rparr>) g)"
  using put_row_on_cell [where f = f, OF assms] put_row_cell [OF assms(1,2)] assms(3) by (simp add: on_cell_if_def get_def)

lemma put_row_live:
  assumes "grid_live g" "vrow_ok (cols_of g) r"
  shows "grid_live (put_row i r g)"
  unfolding put_row_def
  using assms live_rows(1) [OF assms(1)] set_update_subset_insert [of "gr_rows g" i r]
  by (intro live_with_rows) (auto simp: grid_live_def rows_all_def)

section \<open>Characters of no width\<close>

lemma append_on_cell_live:
  assumes g: "grid_live g" and p: "ps_row p < rows_of g" "ps_col p < cols_of g"
  shows "\<exists>g'. on_cell p (cell_append ch) g = Some g' \<and> grid_live g' \<and> gr_pos g' = gr_pos g"
proof -
  let ?r = "gr_rows g ! ps_row p"
  have r: "vrow_ok (cols_of g) ?r" and i: "ps_row p < length (gr_rows g)"
    using live_rows [OF g] p(1) by auto
  let ?cs = "vr_cells ?r"
  have cs: "cells_ok ?cs" "ps_col p < length ?cs" using r p(2) by (simp_all add: vrow_ok_def)
  then have "cell_ok (?cs ! ps_col p)" by (simp add: cells_ok_def)
  then obtain c where c: "cell_append ch (?cs ! ps_col p) = Some c" "cell_ok c" "is_wide c = is_wide (?cs ! ps_col p)"
    "is_wide_continuation c = is_wide_continuation (?cs ! ps_col p)" using cell_append_ok by blast
  have "joins False (?cs[ps_col p := c]) False"
    using joins_nth [of False ?cs False "ps_col p"] cs c(3,4)
    by (auto simp: cells_ok_def upd_conv_take_nth_drop joins_append)
  then have "cells_ok (?cs[ps_col p := c])" using cells_ok_update [OF cs(1) c(2)] by (simp add: cells_ok_def)
  then have "grid_live (put_row (ps_row p) (?r\<lparr>vr_cells := ?cs[ps_col p := c]\<rparr>) g)"
    using r by (intro put_row_live g) (simp add: vrow_ok_def)
  with put_row_on_cell [OF i refl cs(2), of "cell_append ch", OF c(1)] show ?thesis
    unfolding put_row_same [OF i] by simp
qed

lemma drawing_cell_live:
  assumes g: "grid_live g" and "ps_row p < rows_of g" "ps_col p < cols_of g"
  shows "\<exists>c. drawing_cell p g = Some c \<and> (is_wide_continuation c \<longrightarrow> 0 < ps_col p)"
proof -
  let ?r = "gr_rows g ! ps_row p"
  have "vrow_ok (cols_of g) ?r" and "ps_row p < length (gr_rows g)" using live_rows [OF g] assms(2) by auto
  with assms(3) cut_continuation(1) [of "vr_cells ?r" "ps_col p"] show ?thesis
    by (simp add: drawing_cell_def drawing_row_def row_get_def get_def vrow_ok_def)
qed

lemma text_combining_live:
  assumes g: "grid_live g"
  shows "\<exists>g'. text_combining ch g = Some g' \<and> grid_live g' \<and> gr_pos g' = gr_pos g"
proof -
  note f = frameD [OF live_frame [OF g]]
  consider "0 < cur_col g" | "cur_col g = 0" "0 < cur_row g" | "cur_col g = 0" "cur_row g = 0" by auto
  then show ?thesis
  proof cases
    case 1
    obtain c where c: "drawing_cell ((gr_pos g)\<lparr>ps_col := cur_col g - 1\<rparr>) g = Some c"
      "is_wide_continuation c \<longrightarrow> 1 < cur_col g"
    proof -
      have "cur_col g - 1 < cols_of g" using f(6) 1 by linarith
      then have "\<exists>c. drawing_cell ((gr_pos g)\<lparr>ps_col := cur_col g - 1\<rparr>) g = Some c \<and>
          (is_wide_continuation c \<longrightarrow> 0 < cur_col g - 1)"
        using drawing_cell_live [OF g, of "(gr_pos g)\<lparr>ps_col := cur_col g - 1\<rparr>"] f(5) by simp
      then show thesis using that by auto
    qed
    let ?p = "if is_wide_continuation c then (gr_pos g)\<lparr>ps_col := sub16 (cur_col g) 2\<rparr>
              else (gr_pos g)\<lparr>ps_col := cur_col g - 1\<rparr>"
    have "ps_row ?p < rows_of g" "ps_col ?p < cols_of g" using f c(2) 1 by auto
    from append_on_cell_live [OF g this] show ?thesis
      using 1 c(1) by (simp add: text_combining_def Let_def)
  next
    case 2
    let ?q = "\<lparr>ps_row = cur_row g - 1, ps_col = cols_of g - 1\<rparr>"
    have "ps_row ?q < rows_of g" "ps_col ?q < cols_of g" using f by simp_all
    from drawing_cell_live [OF g this] obtain c where c: "drawing_cell ?q g = Some c" by blast
    let ?p = "\<lparr>ps_row = cur_row g - 1, ps_col = (if is_wide_continuation c then cols_of g - 2 else cols_of g - 1)\<rparr>"
    have "ps_row ?p < rows_of g" "ps_col ?p < cols_of g" using f by auto
    from append_on_cell_live [OF g this] have
      "\<exists>g'. on_cell ?p (cell_append ch) g = Some g' \<and> grid_live g' \<and> gr_pos g' = gr_pos g" .
    moreover have "drawing_row (cur_row g - 1) g = Some (gr_rows g ! (cur_row g - 1))"
      using live_rows(1) [OF g] f by (simp add: drawing_row_def get_def)
    ultimately show ?thesis
      using 2 c g f by (cases "is_wide_continuation c") (simp_all add: text_combining_def Let_def)
  next
    case 3
    with g show ?thesis by (simp add: text_combining_def)
  qed
qed

section \<open>Characters that take a place\<close>

text \<open>Outside the columns around the cursor, a row stays as it is.\<close>

definition same_beyond :: "nat \<Rightarrow> nat \<Rightarrow> vrow \<Rightarrow> vrow \<Rightarrow> bool" where
  "same_beyond lo hi r r' =
     (length (vr_cells r') = length (vr_cells r) \<and>
      (\<forall>k < length (vr_cells r). k < lo \<or> hi < k \<longrightarrow> vr_cells r' ! k = vr_cells r ! k))"

lemma same_beyond_refl [simp]: "same_beyond lo hi r r"
  by (simp add: same_beyond_def)

lemma same_beyond_update:
  "same_beyond lo hi r r' \<Longrightarrow> lo \<le> k \<Longrightarrow> k \<le> hi \<Longrightarrow> same_beyond lo hi r (r'\<lparr>vr_cells := (vr_cells r')[k := x]\<rparr>)"
  by (auto simp: same_beyond_def nth_list_update)

lemma same_beyond_wrap [simp]: "same_beyond lo hi r (row_wrap b r') = same_beyond lo hi r r'"
  by (simp add: same_beyond_def row_wrap_def)

text \<open>The wrap mark of a row is kept, or taken away where \<open>e\<close> holds.\<close>

definition wrap_kept :: "bool \<Rightarrow> vrow \<Rightarrow> vrow \<Rightarrow> bool" where
  "wrap_kept e r r' = (vr_wrapped r' = vr_wrapped r \<or> e \<and> \<not> vr_wrapped r')"

lemma wrap_kept_simps [simp]:
  "wrap_kept e r r" "wrap_kept e r (r'\<lparr>vr_cells := cs\<rparr>) = wrap_kept e r r'" "wrap_kept e (r\<lparr>vr_cells := cs\<rparr>) r' = wrap_kept e r r'"
  by (simp_all add: wrap_kept_def)

lemma wrap_kept_trans: "wrap_kept False r r' \<Longrightarrow> wrap_kept e r' r'' \<Longrightarrow> wrap_kept e r r''"
  by (auto simp: wrap_kept_def)

lemma text_wipe_row:
  assumes w: "width_ok w" and i: "cur_row g < length (gr_rows g)" and r: "vrow_ok n r"
    and c: "cur_col g < n" "n < 65536"
  shows "\<exists>r'. text_wipe w a (put_row (cur_row g) r g) = Some (put_row (cur_row g) r' g) \<and>
    cut_at (cur_col g) (vr_cells r') \<and> same_beyond (cur_col g - 1) (cur_col g + 1) r r' \<and> wrap_kept False r r'"
proof -
  let ?i = "cur_row g" and ?k = "cur_col g"
  let ?c = "vr_cells r ! ?k"
  have cs: "cells_ok (vr_cells r)" "?k < length (vr_cells r)" using r c by (simp_all add: vrow_ok_def)
  have ok: "x < length (vr_cells r) \<Longrightarrow> cell_ok (vr_cells r ! x)" for x using cs(1) by (simp add: cells_ok_def)
  note cell = put_row_cell [OF i refl, of r]
  have here: "drawing_cell (gr_pos g) (put_row ?i r g) = Some ?c" using cell cs(2) by (simp add: get_def)
  consider "is_wide_continuation ?c" | "\<not> is_wide_continuation ?c" "is_wide ?c" | "plain ?c" by blast
  then show ?thesis
  proof cases
    case 1
    note cc = cut_continuation [OF cs 1]
    let ?x = "cell_clear a (vr_cells r ! (?k - 1))"
    let ?r = "r\<lparr>vr_cells := (vr_cells r)[?k - 1 := ?x]\<rparr>"
    have "?k - 1 < length (vr_cells r)" using cs(2) by simp
    from put_row_on_cell_if [where p = "(gr_pos g)\<lparr>ps_col := ?k - 1\<rparr>" and f = "\<lambda>p. Some (cell_clear a p)", OF i, of r] this
    have cut: "on_cell_if ((gr_pos g)\<lparr>ps_col := ?k - 1\<rparr>) (\<lambda>p. Some (cell_clear a p)) (put_row ?i r g) =
        Some (put_row ?i ?r g)" by simp
    have nw: "\<not> is_wide ?c"
      using joins_nth [of False "vr_cells r" False ?k] cs 1 by (auto simp: cells_ok_def)
    have "drawing_cell (gr_pos g) (put_row ?i ?r g) = Some ?c"
      using put_row_cell [OF i refl, of ?r] cs(2) cc(1) by (simp add: get_def)
    then have "text_wipe w a (put_row ?i r g) = Some (put_row ?i ?r g)"
      using here 1 cut nw cc(1) c by (simp add: text_wipe_def Let_def)
    moreover have "cut_at ?k (vr_cells ?r)"
      using cc(3) [of ?x] ok [of "?k - 1"] cs(2) by simp
    moreover have "same_beyond (?k - 1) (?k + 1) r ?r" "wrap_kept False r ?r" by (rule same_beyond_update) auto
    ultimately show ?thesis by blast
  next
    case 2
    note suc = cut_wide(1) [OF cs 2(2)]
    obtain x where x: "cell_set w 32 a (vr_cells r ! (?k + 1)) = Some x" "cell_ok x" "plain x"
      using space_ok [OF w ok, of "?k + 1"] suc by auto
    let ?r = "r\<lparr>vr_cells := (vr_cells r)[?k + 1 := x]\<rparr>"
    have p1: "ps_row ((gr_pos g)\<lparr>ps_col := ?k + 1\<rparr>) = ?i" "ps_col ((gr_pos g)\<lparr>ps_col := ?k + 1\<rparr>) = ?k + 1"
      "ps_col ((gr_pos g)\<lparr>ps_col := ?k + 1\<rparr>) < length (vr_cells r)" using suc by simp_all
    have "cell_set w 32 a (vr_cells r ! ps_col ((gr_pos g)\<lparr>ps_col := ?k + 1\<rparr>)) = Some x" using x(1) by simp
    from put_row_on_cell_if [where f = "cell_set w 32 a", OF i p1(1,3) this]
    have set: "on_cell_if ((gr_pos g)\<lparr>ps_col := ?k + 1\<rparr>) (cell_set w 32 a) (put_row ?i r g) = Some (put_row ?i ?r g)"
      unfolding p1(2) .
    have "add16 ?k 1 = ?k + 1" using suc r c(2) by (simp add: vrow_ok_def)
    then have "text_wipe w a (put_row ?i r g) = Some (put_row ?i ?r g)"
      using here 2 set by (simp add: text_wipe_def Let_def)
    moreover have "cut_at ?k (vr_cells ?r)" using cut_wide(2) [OF cs 2(2) x(2,3)] by simp
    moreover have "same_beyond (?k - 1) (?k + 1) r ?r" "wrap_kept False r ?r" by (rule same_beyond_update) auto
    ultimately show ?thesis by blast
  next
    case 3
    then have "text_wipe w a (put_row ?i r g) = Some (put_row ?i r g)"
      using here by (simp add: text_wipe_def Let_def)
    with cut_plain [OF cs 3] show ?thesis using same_beyond_refl wrap_kept_simps(1) by blast
  qed
qed

lemma second_half_row:
  assumes i: "cur_row g < length (gr_rows g)" and m: "cur_col g < n" "n < 65536"
    and r: "length (vr_cells r) = n" "\<forall>c\<in>set (vr_cells r). cell_ok c"
    and half: "joins False (take (cur_col g) (vr_cells r)) True" "joins False (drop (cur_col g) (vr_cells r)) False"
  shows "\<exists>r'. text_second_half a (put_row (cur_row g) r g) = Some (put_row (cur_row g) r' (col_inc 1 g)) \<and>
    vrow_ok n r' \<and> same_beyond (cur_col g) (cur_col g + 1) r r' \<and> wrap_kept (cur_col g + 1 = sub16 (cols_of g) 1) r r'"
proof -
  let ?i = "cur_row g" and ?k = "cur_col g"
  let ?cs = "vr_cells r"
  let ?c = "?cs ! ?k" and ?nn = "(gr_pos g)\<lparr>ps_col := ?k + 1\<rparr>"
  obtain wipe where wipe: "wipe = (\<lambda>g. case drawing_cell (gr_pos g) g of
        None \<Rightarrow> Some g
      | Some c \<Rightarrow> if is_wide c then
          (let nn = (gr_pos g)\<lparr>ps_col := add16 (cur_col g) 1\<rparr>
           in case drawing_cell nn g of
                None \<Rightarrow> Some g
              | Some _ \<Rightarrow> do {
                  g2 \<leftarrow> on_cell nn (\<lambda>c. Some (cell_clear a c)) g;
                  (if ps_col nn = sub16 (cols_of g) 1
                   then (if drawing_row (cur_row g) g2 = None then Some g2
                         else on_row (cur_row g) (\<lambda>r. Some (row_wrap False r)) g2)
                   else Some g2) }) else Some g)" by blast
  have here: "drawing_cell (gr_pos g) (put_row ?i r g) = Some ?c"
    using put_row_cell [OF i refl, of r] m r(1) by (simp add: get_def)
  have dc: "cells_ok (drop ?k ?cs)" using half(2) r(2) by (auto simp: cells_ok_def dest: in_set_dropD)
  have d0: "0 < length (drop ?k ?cs)" "drop ?k ?cs ! 0 = ?c" using m r(1) by simp_all
  have "\<exists>r1. wipe (put_row ?i r g) = Some (put_row ?i r1 g) \<and> same_beyond (?k + 1) (?k + 1) r r1 \<and>
      (\<forall>c\<in>set (vr_cells r1). cell_ok c) \<and> joins False (drop (Suc ?k) (vr_cells r1)) False \<and>
      wrap_kept (?k + 1 = sub16 (cols_of g) 1) r r1"
  proof (cases "is_wide ?c")
    case True
    note cw = cut_wide [OF dc d0(1), unfolded d0(2), OF True]
    have suc: "?k + 1 < length ?cs" using cw(1) by simp
    let ?x = "cell_clear a (?cs ! (?k + 1))"
    let ?r = "r\<lparr>vr_cells := ?cs[?k + 1 := ?x]\<rparr>"
    have p1: "ps_row ?nn = ?i" "ps_col ?nn = ?k + 1" "ps_col ?nn < length (vr_cells r)" using suc by simp_all
    from put_row_on_cell [where f = "\<lambda>c. Some (cell_clear a c)", OF i p1(1,3) refl]
    have cut: "on_cell ?nn (\<lambda>c. Some (cell_clear a c)) (put_row ?i r g) = Some (put_row ?i ?r g)"
      unfolding p1(2) .
    have there: "drawing_cell ?nn (put_row ?i r g) = Some (?cs ! (?k + 1))"
      using put_row_cell [OF i p1(1), of r] suc by (simp add: get_def)
    have wrap: "on_row ?i (\<lambda>r. Some (row_wrap False r)) (put_row ?i ?r g) = Some (put_row ?i (row_wrap False ?r) g)"
      "drawing_row ?i (put_row ?i ?r g) \<noteq> None"
      using i by (simp_all add: on_row_def put_row_def get_def drawing_row_def)
    have a1: "add16 ?k 1 = ?k + 1" using m by simp
    have w: "wipe (put_row ?i r g) = Some (put_row ?i (if ?k + 1 = sub16 (cols_of g) 1 then row_wrap False ?r else ?r) g)"
      unfolding wipe by (simp only: put_row_frame a1 here there True cut wrap Let_def option.case if_True
          bind.bind_lunit p1(2) simp_thms split: if_split) simp
    have ok: "cell_ok ?x" using r(2) suc by simp
    have "cut_at 0 ((drop ?k ?cs)[Suc 0 := ?x])" using cw(2) ok by simp
    then have "joins False (drop (Suc ?k) (?cs[?k + 1 := ?x])) False"
      using suc by (simp add: cut_at_def drop_update_swap)
    moreover have "\<forall>c\<in>set (?cs[?k + 1 := ?x]). cell_ok c"
      using r(2) ok set_update_subset_insert [of ?cs "?k + 1" ?x] by auto
    ultimately show ?thesis
      using w by (intro exI [of _ "if ?k + 1 = sub16 (cols_of g) 1 then row_wrap False ?r else ?r"])
        (auto simp: row_wrap_def same_beyond_def wrap_kept_def)
  next
    case False
    then have "wipe (put_row ?i r g) = Some (put_row ?i r g)" unfolding wipe by (simp add: here)
    moreover have "drop ?k ?cs = ?c # drop (Suc ?k) ?cs" using m r(1) by (simp add: Cons_nth_drop_Suc)
    then have "joins False (drop (Suc ?k) ?cs) False" using half(2) False by simp
    ultimately show ?thesis using r(2) same_beyond_refl wrap_kept_simps(1) by blast
  qed
  then obtain r1 where r1: "wipe (put_row ?i r g) = Some (put_row ?i r1 g)" "same_beyond (?k + 1) (?k + 1) r r1"
    "\<forall>c\<in>set (vr_cells r1). cell_ok c" "joins False (drop (Suc ?k) (vr_cells r1)) False"
    "wrap_kept (?k + 1 = sub16 (cols_of g) 1) r r1" by blast
  let ?cs1 = "vr_cells r1"
  have len: "length ?cs1 = n" using r1(2) r(1) by (simp add: same_beyond_def)
  have t: "take ?k ?cs1 = take ?k ?cs"
    using r1(2) by (intro nth_equalityI) (auto simp: same_beyond_def)
  let ?y = "set_wide_continuation True (cell_clear default_attrs (?cs1 ! ?k))"
  have oky: "cell_ok ?y" using r1(3) len m by simp
  have "joins False (take ?k ?cs @ [?y] @ drop (Suc ?k) ?cs1) False"
    using half(1) r1(4) by (auto simp: joins_append len_flags)
  then have "cells_ok (?cs1[?k := ?y])"
    using r1(3) oky set_update_subset_insert [of ?cs1 ?k ?y] len m t
    by (auto simp: cells_ok_def upd_conv_take_nth_drop)
  then have "vrow_ok n (r1\<lparr>vr_cells := ?cs1[?k := ?y]\<rparr>)" using len by (simp add: vrow_ok_def)
  moreover have "same_beyond ?k (?k + 1) r (r1\<lparr>vr_cells := ?cs1[?k := ?y]\<rparr>)"
    using r1(2) by (auto simp: same_beyond_def nth_list_update)
  moreover have "wrap_kept (?k + 1 = sub16 (cols_of g) 1) r (r1\<lparr>vr_cells := ?cs1[?k := ?y]\<rparr>)" using r1(5) by simp
  moreover have "ps_col (gr_pos g) < length ?cs1" using len m by simp
  from put_row_on_cell_if [where f = "\<lambda>c. Some (set_wide_continuation True (cell_clear default_attrs c))",
      OF i refl this refl]
  have "text_second_half a (put_row ?i r g) = Some (put_row ?i (r1\<lparr>vr_cells := ?cs1[?k := ?y]\<rparr>) (col_inc 1 g))"
    using r1(1) unfolding wipe text_second_half_def Let_def by simp
  ultimately show ?thesis by blast
qed

text \<open>A character of one or two columns, drawn where it fits.\<close>

definition drawn_row :: "nat \<Rightarrow> nat \<Rightarrow> nat \<Rightarrow> nat \<Rightarrow> attrs \<Rightarrow> nat \<Rightarrow> vrow \<Rightarrow> vrow \<Rightarrow> bool" where
  "drawn_row n cols k ch a width r r' =
     (vrow_ok n r' \<and> same_beyond (k - 1) (k + width) r r' \<and> wrap_kept (k + width = sub16 cols 1) r r' \<and>
      cell_contents (vr_cells r' ! k) = utf8 ch \<and> vc_attrs (vr_cells r' ! k) = a \<and>
      is_wide (vr_cells r' ! k) = (1 < width))"

lemma text_drawn_row:
  assumes w: "width_ok w" and i: "cur_row g < length (gr_rows g)" and r: "vrow_ok n r" and n: "n < 65536"
    and width: "width = width_of w ch" "0 < width" "cur_col g + width \<le> n"
  shows "\<exists>r'. text_drawn w width ch a (put_row (cur_row g) r g) = Some (put_row (cur_row g) r' (col_inc width g)) \<and>
    drawn_row n (cols_of g) (cur_col g) ch a width r r'"
proof -
  let ?i = "cur_row g" and ?k = "cur_col g"
  have k: "?k < n" using width by simp
  have len: "length (vr_cells r) = n" using r by (simp add: vrow_ok_def)
  obtain r1 where r1: "text_wipe w a (put_row ?i r g) = Some (put_row ?i r1 g)" "cut_at ?k (vr_cells r1)"
    "same_beyond (?k - 1) (?k + 1) r r1" "wrap_kept False r r1" using text_wipe_row [OF w i r k n] by blast
  have len1: "length (vr_cells r1) = n" using r1(3) len by (simp add: same_beyond_def)
  have ok1: "\<forall>c\<in>set (vr_cells r1). cell_ok c" using r1(2) by (simp add: cut_at_def)
  then have "length (vc_bytes (vr_cells r1 ! ?k)) = CONTENT_BYTES" using k len1 by (simp add: cell_ok_def)
  from cell_set_ok [OF this, of w ch a] obtain c where c: "cell_set w ch a (vr_cells r1 ! ?k) = Some c" "cell_ok c"
    "is_wide c = (1 < width)" "\<not> is_wide_continuation c" "cell_contents c = utf8 ch" "vc_attrs c = a"
    using width(1) by auto
  let ?r2 = "r1\<lparr>vr_cells := (vr_cells r1)[?k := c]\<rparr>"
  have "ps_col (gr_pos g) < length (vr_cells r1)" using k len1 by simp
  from put_row_on_cell [where f = "cell_set w ch a", OF i refl this c(1)]
  have set: "on_cell (gr_pos g) (cell_set w ch a) (put_row ?i r1 g) = Some (put_row ?i ?r2 g)" .
  have "drawing_cell (gr_pos g) (put_row ?i r1 g) \<noteq> None"
    using put_row_cell [OF i refl, of r1] k len1 by (simp add: get_def)
  then have run: "text_drawn w width ch a (put_row ?i r g) =
      (if width > 1 then text_second_half a (put_row ?i ?r2 (col_inc 1 g)) else Some (put_row ?i ?r2 (col_inc 1 g)))"
    using r1(1) set by (auto simp: text_drawn_def)
  have width2: "width \<le> 2" using width_of_le [OF w] width(1) by simp
  show ?thesis
  proof (cases "width = 1")
    case True
    have "cells_ok ((vr_cells r1)[?k := c])" using cut_at_update [OF r1(2) c(2)] c(3,4) True by simp
    then have "drawn_row n (cols_of g) ?k ch a width r ?r2"
      using r1(3) wrap_kept_trans [OF r1(4) wrap_kept_simps(1)] len len1 k c(3,5,6) True by (auto simp: drawn_row_def vrow_ok_def same_beyond_def nth_list_update)
    then show ?thesis using run True by auto
  next
    case False
    then have two: "width = 2" using width(2) width2 by simp
    let ?g1 = "col_inc 1 g"
    have g1: "cur_row ?g1 = ?i" "cur_col ?g1 = ?k + 1" "?i < length (gr_rows ?g1)"
      using k n i by (simp_all add: col_inc_def set_col_def sat_add16_def)
    let ?cs = "(vr_cells r1)[?k := c]"
    have "take (?k + 1) ?cs = take ?k (vr_cells r1) @ [c]"
      using k len1 by (simp add: take_Suc_conv_app_nth)
    then have h1: "joins False (take (?k + 1) ?cs) True"
      using r1(2) c(3,4) two by (auto simp: cut_at_def joins_append)
    have h2: "joins False (drop (?k + 1) ?cs) False" using r1(2) by (simp add: cut_at_def)
    have ok2: "\<forall>c\<in>set ?cs. cell_ok c" using ok1 c(2) set_update_subset_insert [of "vr_cells r1" ?k c] by auto
    have m: "cur_col ?g1 < n" using g1(2) two width(3) by simp
    obtain r3 where r3: "text_second_half a (put_row ?i ?r2 ?g1) = Some (put_row ?i r3 (col_inc 1 ?g1))"
      "vrow_ok n r3" "same_beyond (?k + 1) (?k + 2) ?r2 r3" "wrap_kept (?k + 2 = sub16 (cols_of g) 1) ?r2 r3"
      using second_half_row [of ?g1 n ?r2 a] m n g1 h1 h2 ok2 len1 by (auto simp: numeral_2_eq_2 col_inc_def set_col_def)
    have "col_inc 1 ?g1 = col_inc width g"
      using two k n by (simp add: col_inc_def set_col_def sat_add16_def)
    moreover have "wrap_kept (?k + width = sub16 (cols_of g) 1) r r3"
      using wrap_kept_trans [OF r1(4)] r3(4) two by simp
    then have "drawn_row n (cols_of g) ?k ch a width r r3"
      using r3(2,3) r1(3) len len1 k c(3,5,6) two by (auto simp: drawn_row_def same_beyond_def nth_list_update)
    ultimately show ?thesis using run two r3(1) by auto
  qed
qed

lemma text_drawn_live:
  assumes w: "width_ok w" and g: "grid_live g" and width: "width = width_of w ch" "0 < width" "cur_col g + width \<le> cols_of g"
  shows "\<exists>g'. text_drawn w width ch a g = Some g' \<and> grid_live g'"
proof -
  note f = frameD [OF live_frame [OF g]]
  have i: "cur_row g < length (gr_rows g)" using f(5) live_rows(1) [OF g] by simp
  have r: "vrow_ok (cols_of g) (gr_rows g ! cur_row g)" using live_rows(2) [OF g f(5)] .
  from text_drawn_row [OF w i r f(4) width] obtain r' where r': "text_drawn w width ch a g =
      Some (put_row (cur_row g) r' (col_inc width g))" "vrow_ok (cols_of g) r'"
    unfolding put_row_same [OF i] by (auto simp: drawn_row_def)
  have "moves g (col_inc width g)"
    using set_col_moves [OF live_frame [OF g]] width(3) f(4) by (simp add: col_inc_def sat_add16_def)
  then have g1: "grid_live (col_inc width g)" "gr_size (col_inc width g) = gr_size g"
    using moves_live(1) g by (auto simp: col_inc_def set_col_def)
  then have "grid_live (put_row (cur_row g) r' (col_inc width g))"
    using r'(2) by (intro put_row_live) simp_all
  with r'(1) show ?thesis by blast
qed

lemma text_wraps_Some:
  assumes g: "grid_live g"
  shows "text_wraps width g \<noteq> None"
  using drawing_cell_live [OF g, of "\<lparr>ps_row = cur_row g, ps_col = cols_of g - 1\<rparr>"] frameD [OF live_frame [OF g]]
  by (auto simp: text_wraps_def)

lemma text_grid_live:
  assumes w: "width_ok w" and g: "grid_live g"
  shows "\<exists>g'. text_grid w (width_of w ch) ch a g = Some g' \<and> grid_live g'"
proof -
  let ?width = "width_of w ch"
  obtain wrap where wrap: "text_wraps ?width g = Some wrap" using text_wraps_Some [OF g] by blast
  obtain g1 where g1: "col_wrap ?width wrap g = Some g1" "grid_live g1" "cur_col g1 + ?width \<le> cols_of g1"
    using col_wrap_live [OF g width_of_le [OF w], of ch wrap] by auto
  have "text_grid w ?width ch a g = (if ?width = 0 then text_combining ch g1 else text_drawn w ?width ch a g1)"
    using wrap g1(1) by (simp add: text_grid_def)
  with text_combining_live [OF g1(2), of ch] text_drawn_live [OF w g1(2) refl, of ch a] g1(3) show ?thesis
    by (cases "?width = 0") auto
qed

end
