(* ===== verification/Vt_Screen_Props.thy ===== *)
theory Vt_Screen_Props
  imports Vt_Text_Props
begin

text \<open>
  What holds of the terminal: whatever the program it runs prints, a terminal of at least two
  rows and two columns never panics and stays well formed; the main screen is out of reach while
  the alternate one is shown; what scrolling keeps. The last section shows where the emulator
  does panic.
\<close>

section \<open>Well-formed screens\<close>

text \<open>The rows of the alternate screen are only allocated when it is entered.\<close>

definition screen_ok :: "screen \<Rightarrow> bool" where
  "screen_ok s = (grid_live (sc_grid s) \<and> grid_ok (sc_alt s) \<and>
     (has_mode MODE_ALTERNATE_SCREEN s \<longrightarrow> grid_live (sc_alt s)))"

lemma screen_ok_fields [simp]:
  "screen_ok (s\<lparr>sc_attrs := a\<rparr>) = screen_ok s" "screen_ok (s\<lparr>sc_saved_attrs := a\<rparr>) = screen_ok s"
  "screen_ok (s\<lparr>sc_mouse_mode := m\<rparr>) = screen_ok s" "screen_ok (s\<lparr>sc_mouse_encoding := e\<rparr>) = screen_ok s"
  "screen_ok (s\<lparr>sc_title := t\<rparr>) = screen_ok s" "screen_ok (s\<lparr>sc_path := p\<rparr>) = screen_ok s"
  "screen_ok (s\<lparr>sc_squelch_cleared := b\<rparr>) = screen_ok s" "screen_ok (s\<lparr>sc_squelch_pending := b\<rparr>) = screen_ok s"
  "screen_ok (s\<lparr>sc_bells := n\<rparr>) = screen_ok s"
  by (simp_all add: screen_ok_def has_mode_def)

lemma grid_of_live: "screen_ok s \<Longrightarrow> grid_live (grid_of s)"
  by (simp add: screen_ok_def grid_of_def)

lemma screen_new_ok: "size_ok sz \<Longrightarrow> screen_ok (screen_new sz n)"
  using allocate_rows_live [OF grid_new_ok, of sz n] grid_new_ok [of sz 0]
  by (simp add: screen_ok_def screen_new_def has_mode_def)

lemma alternate_mode:
  "has_mode MODE_ALTERNATE_SCREEN (set_mode MODE_ALTERNATE_SCREEN s)"
  "\<not> has_mode MODE_ALTERNATE_SCREEN (clear_mode MODE_ALTERNATE_SCREEN s)"
  "m \<in> {MODE_APPLICATION_KEYPAD, MODE_APPLICATION_CURSOR, MODE_HIDE_CURSOR, MODE_BRACKETED_PASTE} \<Longrightarrow>
     has_mode MODE_ALTERNATE_SCREEN (set_mode m s) = has_mode MODE_ALTERNATE_SCREEN s"
  "m \<in> {MODE_APPLICATION_KEYPAD, MODE_APPLICATION_CURSOR, MODE_HIDE_CURSOR, MODE_BRACKETED_PASTE} \<Longrightarrow>
     has_mode MODE_ALTERNATE_SCREEN (clear_mode m s) = has_mode MODE_ALTERNATE_SCREEN s"
proof -
  have alt: "has_mode MODE_ALTERNATE_SCREEN s = bit (sc_modes s) 3" for s
    by (simp only: has_mode_def MODE_ALTERNATE_SCREEN_def flag_bit)
  have three: "3 < (8::nat)" by simp
  note b = bit_flag_mask [OF three]
  show "has_mode MODE_ALTERNATE_SCREEN (set_mode MODE_ALTERNATE_SCREEN s)"
    "\<not> has_mode MODE_ALTERNATE_SCREEN (clear_mode MODE_ALTERNATE_SCREEN s)"
    unfolding alt unfolding set_mode_def clear_mode_def MODE_ALTERNATE_SCREEN_def
    by (simp_all add: bit_or_iff bit_and_iff bit_not_iff b)
  assume m: "m \<in> {MODE_APPLICATION_KEYPAD, MODE_APPLICATION_CURSOR, MODE_HIDE_CURSOR, MODE_BRACKETED_PASTE}"
  then have "m = 1 \<or> m = 2 \<or> m = 4 \<or> m = 16"
    by (simp add: MODE_APPLICATION_KEYPAD_def MODE_APPLICATION_CURSOR_def MODE_HIDE_CURSOR_def
        MODE_BRACKETED_PASTE_def)
  then have "\<not> bit m 3" using b(1,2,3,5) by (elim disjE) simp_all
  then show "has_mode MODE_ALTERNATE_SCREEN (set_mode m s) = has_mode MODE_ALTERNATE_SCREEN s"
    "has_mode MODE_ALTERNATE_SCREEN (clear_mode m s) = has_mode MODE_ALTERNATE_SCREEN s"
    unfolding alt set_mode_def clear_mode_def
    by (simp_all add: bit_or_iff bit_and_iff bit_not_iff)
qed

section \<open>Every event keeps a screen well formed\<close>

lemma on_grid_ok:
  assumes "screen_ok s" "grid_live (grid_of s) \<Longrightarrow> grid_live (f (grid_of s))"
  shows "screen_ok (on_grid f s)"
  using assms grid_of_live [OF assms(1)] grid_live_ok
  by (auto simp: screen_ok_def on_grid_def grid_of_def has_mode_def split: if_splits)

lemma on_grid_opt_ok:
  assumes "screen_ok s" "\<And>g. grid_live g \<Longrightarrow> \<exists>g'. f g = Some g' \<and> grid_live g'"
  shows "\<exists>s'. on_grid_opt f s = Some s' \<and> screen_ok s'"
  using assms(2) [OF grid_of_live [OF assms(1)]] on_grid_ok [OF assms(1)]
  by (auto simp: on_grid_opt_def)

lemma live_nonempty: "grid_live g \<Longrightarrow> gr_rows g \<noteq> []"
  by (auto simp: grid_live_def frame_ok_def size_ok_def)

lemma live_of_ok: "grid_live g \<Longrightarrow> grid_ok g' \<Longrightarrow> gr_rows g' = gr_rows g \<Longrightarrow> grid_live g'"
  by (rule grid_liveI) (auto simp: grid_live_def frame_ok_def size_ok_def)

lemma live_ops:
  assumes "grid_live g"
  shows "grid_live (set_pos p g)" "grid_live (row_inc_clamp n g)" "grid_live (row_dec_clamp n g)"
    "grid_live (grid_row_set i g)" "grid_live (grid_col_set i g)" "grid_live (col_inc_clamp i g)"
    "grid_live (col_tab g)" "grid_live (col_dec i g)"
    "grid_live (set_scroll_region tp b g)" "grid_live (set_origin_mode m g)"
    "grid_live (grid_save_cursor g)" "grid_live (grid_restore_cursor g)"
    "grid_live (set_scrollback n g)" "grid_live (clear_scrollback g)" "grid_live (erase_all a g)"
proof -
  note f = live_frame [OF assms] and ok = grid_live_ok [OF assms]
  show "grid_live (set_pos p g)" by (rule moves_live(1) [OF set_pos_moves [OF f] assms])
  show "grid_live (row_inc_clamp n g)" by (rule moves_live(1) [OF row_inc_clamp_moves [OF f] assms])
  show "grid_live (row_dec_clamp n g)" by (rule moves_live(1) [OF row_dec_clamp_moves [OF f] assms])
  show "grid_live (grid_row_set i g)" by (rule moves_live(1) [OF row_set_moves [OF f] assms])
  show "grid_live (grid_col_set i g)" by (rule moves_live(1) [OF col_set_moves [OF f] assms])
  show "grid_live (col_inc_clamp i g)" by (rule moves_live(1) [OF col_inc_clamp_moves [OF f] assms])
  show "grid_live (col_tab g)" by (rule moves_live(1) [OF col_tab_moves [OF f] assms])
  show "grid_live (col_dec i g)" by (rule moves_live(1) [OF col_dec_moves [OF f] assms])
  show "grid_live (set_scroll_region tp b g)" using live_of_ok [OF assms] set_scroll_region_ok [OF ok] by blast
  show "grid_live (set_origin_mode m g)" using live_of_ok [OF assms] set_origin_mode_ok [OF ok] by blast
  show "grid_live (grid_save_cursor g)" using live_of_ok [OF assms] save_restore_ok(1) [OF ok] save_restore_ok(3) by blast
  show "grid_live (grid_restore_cursor g)" using live_of_ok [OF assms] save_restore_ok(2) [OF ok] save_restore_ok(4) by blast
  show "grid_live (set_scrollback n g)" using live_of_ok [OF assms] scrollback_ok(1) [OF ok] scrollback_ok(3) by blast
  show "grid_live (clear_scrollback g)" using live_of_ok [OF assms] scrollback_ok(2) [OF ok] scrollback_ok(4) by blast
  show "grid_live (erase_all a g)"
    using erase_all_ok(1) [OF ok] erase_all_ok(2) live_nonempty [OF assms] by (blast intro: grid_liveI)
qed

lemma check_squelch_ok [simp]: "screen_ok (check_squelch_signal s) = screen_ok s"
  by (simp add: check_squelch_signal_def)

lemma mode_ok:
  assumes "screen_ok s"
    "m \<in> {MODE_APPLICATION_KEYPAD, MODE_APPLICATION_CURSOR, MODE_HIDE_CURSOR, MODE_BRACKETED_PASTE}"
  shows "screen_ok (set_mode m s)" "screen_ok (clear_mode m s)"
  using assms alternate_mode(3,4) [OF assms(2), of s] by (simp_all add: screen_ok_def set_mode_def clear_mode_def)

lemma enter_alternate_ok: "screen_ok s \<Longrightarrow> screen_ok (enter_alternate_grid s)"
proof -
  assume "screen_ok s"
  then have "screen_ok (on_grid (set_scrollback 0) s)" by (rule on_grid_ok) (rule live_ops)
  then show ?thesis
    using allocate_rows_live [of "sc_alt (on_grid (set_scrollback 0) s)"] grid_live_ok
    by (simp add: enter_alternate_grid_def Let_def screen_ok_def set_mode_def)
qed

lemma exit_alternate_ok: "screen_ok s \<Longrightarrow> screen_ok (exit_alternate_grid s)"
  using alternate_mode(2) [of s] by (simp add: screen_ok_def exit_alternate_grid_def clear_mode_def)

lemma cursor_ok: "screen_ok s \<Longrightarrow> screen_ok (save_cursor s)" "screen_ok s \<Longrightarrow> screen_ok (restore_cursor s)"
  unfolding save_cursor_def restore_cursor_def by (simp_all add: on_grid_ok live_ops)

lemma mouse_ok [simp]:
  "screen_ok (set_mouse_mode m s) = screen_ok s" "screen_ok (clear_mouse_mode m s) = screen_ok s"
  "screen_ok (set_mouse_encoding e s) = screen_ok s" "screen_ok (clear_mouse_encoding e s) = screen_ok s"
  by (simp_all add: set_mouse_mode_def clear_mouse_mode_def set_mouse_encoding_def clear_mouse_encoding_def)

lemma decset_one_ok:
  assumes "screen_ok s"
  shows "screen_ok (decset_one p s)"
proof -
  have "screen_ok ((save_cursor s)\<lparr>sc_alt := grid_clear (sc_alt (save_cursor s))\<rparr>)"
    if "\<not> has_mode MODE_ALTERNATE_SCREEN s"
    using cursor_ok(1) [OF assms] grid_clear_ok [of "sc_alt (save_cursor s)"] that
    by (simp add: screen_ok_def has_mode_def save_cursor_def on_grid_def)
  moreover have "screen_ok ((save_cursor s)\<lparr>sc_alt := grid_clear (sc_alt (save_cursor s))\<rparr>)"
    if "has_mode MODE_ALTERNATE_SCREEN s"
  proof -
    have s: "screen_ok (save_cursor s)" by (rule cursor_ok(1) [OF assms])
    have "grid_live (sc_alt (save_cursor s))"
      using s that by (simp add: screen_ok_def has_mode_def save_cursor_def on_grid_def)
    then have "grid_live (grid_clear (sc_alt (save_cursor s)))"
      using grid_clear_ok [OF grid_live_ok] by (intro grid_liveI) (auto simp: grid_clear_def grid_live_def frame_ok_def size_ok_def)
    then show ?thesis using s grid_live_ok by (simp add: screen_ok_def has_mode_def)
  qed
  ultimately have clr: "screen_ok ((save_cursor s)\<lparr>sc_alt := grid_clear (sc_alt (save_cursor s))\<rparr>)" by blast
  show ?thesis
    unfolding decset_one_def Let_def
    by (simp add: assms mode_ok [OF assms] enter_alternate_ok [OF clr] enter_alternate_ok [OF assms]
        on_grid_ok [where f = "set_origin_mode True", OF assms live_ops(10)])
qed

lemma decrst_one_ok: "screen_ok s \<Longrightarrow> screen_ok (decrst_one p s)"
  unfolding decrst_one_def
  by (simp add: mode_ok exit_alternate_ok cursor_ok on_grid_ok [where f = "set_origin_mode False", OF _ live_ops(10)])

interpretation set_modes: machine "\<lambda>s p. decset_one p s" screen_ok
  by unfold_locales (rule decset_one_ok)

interpretation reset_modes: machine "\<lambda>s p. decrst_one p s" screen_ok
  by unfold_locales (rule decrst_one_ok)

lemma ed_ok: "screen_ok s \<Longrightarrow> \<exists>s'. ed m s = Some s' \<and> screen_ok s'"
  unfolding ed_def Let_def
  using on_grid_opt_ok [where f = "erase_all_forward (sc_attrs s)" and s = s, OF _ erase_all_forward_live]
    on_grid_opt_ok [where f = "erase_all_backward (sc_attrs s)" and s = s, OF _ erase_all_backward_live]
    on_grid_ok [of s "erase_all (sc_attrs s)"] on_grid_ok [of s clear_scrollback]
  by (simp add: live_ops)

lemma el_ok: "screen_ok s \<Longrightarrow> \<exists>s'. el m s = Some s' \<and> screen_ok s'"
  unfolding el_def Let_def
  using on_grid_opt_ok [where f = "erase_row_forward (sc_attrs s)" and s = s, OF _ erase_row_forward_live]
    on_grid_opt_ok [where f = "erase_row_backward (sc_attrs s)" and s = s, OF _ erase_row_backward_live]
    on_grid_opt_ok [where f = "erase_row (sc_attrs s)" and s = s, OF _ erase_row_live]
  by simp

lemma lf_ok: "screen_ok s \<Longrightarrow> \<exists>s'. lf s = Some s' \<and> screen_ok s'"
  unfolding lf_def by (erule on_grid_opt_ok) (use row_inc_scroll_live in force)

lemma execute_ok: "screen_ok s \<Longrightarrow> \<exists>s'. execute b s = Some s' \<and> screen_ok s'"
  unfolding execute_def using lf_ok [of s] on_grid_ok [of s "col_dec 1"] on_grid_ok [of s col_tab]
    on_grid_ok [of s "grid_col_set 0"]
  by (simp add: live_ops)

lemma ris_ok: "screen_ok s \<Longrightarrow> screen_ok (ris s)"
  unfolding ris_def by (rule screen_new_ok) (simp add: screen_ok_def grid_live_def frame_ok_def)

lemma esc_dispatch_ok: "screen_ok s \<Longrightarrow> \<exists>s'. esc_dispatch i b s = Some s' \<and> screen_ok s'"
  unfolding esc_dispatch_def
  using on_grid_opt_ok [where f = "row_dec_scroll 1" and s = s, OF _ row_dec_scroll_live]
  by (simp add: cursor_ok mode_ok ris_ok)

lemma print_char_ok:
  assumes "width_ok w" "screen_ok s"
  shows "\<exists>s'. print_char w c s = Some s' \<and> screen_ok s'"
proof -
  have "\<exists>s'. on_grid_opt (text_grid w (width_of w c) c (sc_attrs s)) s = Some s' \<and> screen_ok s'"
    by (rule on_grid_opt_ok [OF assms(2) text_grid_live [OF assms(1)]])
  then show ?thesis
    using width_of_le [OF assms(1), of c] assms(2)
    by (auto simp: print_char_def text_char_def Let_def)
qed

text \<open>The sequences that change the screen in one call each.\<close>

lemma csi_total_ok:
  assumes "screen_ok s"
  shows "screen_ok (on_grid (row_dec_clamp n) s)" "screen_ok (on_grid (row_inc_clamp n) s)"
    "screen_ok (on_grid (col_inc_clamp n) s)" "screen_ok (on_grid (col_dec n) s)"
    "screen_ok (on_grid (grid_col_set n) s)" "screen_ok (on_grid (grid_row_set n) s)"
    "screen_ok (cnl n s)" "screen_ok (cpl n s)" "screen_ok (cup p s)" "screen_ok (decstbm p s)"
    "screen_ok (save_cursor s)" "screen_ok (restore_cursor s)"
    "screen_ok (on_grid (set_scrollback n) s)"
  unfolding cnl_def cpl_def cup_def decstbm_def
  by (intro assms cursor_ok on_grid_ok live_ops; assumption)+

lemma csi_opt_ok:
  assumes "screen_ok s"
  shows "\<exists>s'. on_grid_opt (insert_cells n) s = Some s' \<and> screen_ok s'"
    "\<exists>s'. on_grid_opt (insert_lines n) s = Some s' \<and> screen_ok s'"
    "\<exists>s'. on_grid_opt (delete_lines n) s = Some s' \<and> screen_ok s'"
    "\<exists>s'. on_grid_opt (delete_cells n) s = Some s' \<and> screen_ok s'"
    "\<exists>s'. on_grid_opt (scroll_up n) s = Some s' \<and> screen_ok s'"
    "\<exists>s'. on_grid_opt (scroll_down n) s = Some s' \<and> screen_ok s'"
    "\<exists>s'. on_grid_opt (erase_cells n a) s = Some s' \<and> screen_ok s'"
proof -
  note run = on_grid_opt_ok [OF assms]
  show "\<exists>s'. on_grid_opt (insert_cells n) s = Some s' \<and> screen_ok s'" by (rule run [OF insert_cells_live])
  show "\<exists>s'. on_grid_opt (insert_lines n) s = Some s' \<and> screen_ok s'" by (rule run [OF insert_lines_live])
  show "\<exists>s'. on_grid_opt (delete_lines n) s = Some s' \<and> screen_ok s'" by (rule run [OF delete_lines_live])
  show "\<exists>s'. on_grid_opt (delete_cells n) s = Some s' \<and> screen_ok s'" by (rule run [OF delete_cells_live])
  show "\<exists>s'. on_grid_opt (scroll_up n) s = Some s' \<and> screen_ok s'"
    by (rule run) (use scroll_up_live in blast)
  show "\<exists>s'. on_grid_opt (scroll_down n) s = Some s' \<and> screen_ok s'" by (rule run [OF scroll_down_live])
  show "\<exists>s'. on_grid_opt (erase_cells n a) s = Some s' \<and> screen_ok s'" by (rule run [OF erase_cells_live])
qed

lemma csi_plain_ok:
  assumes "screen_ok s"
  shows "\<exists>s'. csi_plain params c s = Some s' \<and> screen_ok s'"
  unfolding csi_plain_def Let_def
  by (simp add: csi_opt_ok [OF assms] csi_total_ok [OF assms] ed_ok [OF assms] el_ok [OF assms] assms)

lemma csi_private_ok: "screen_ok s \<Longrightarrow> \<exists>s'. csi_private params c s = Some s' \<and> screen_ok s'"
  unfolding csi_private_def decset_def decrst_def
  using ed_ok [of s] el_ok [of s] set_modes.run_inv [of s params] reset_modes.run_inv [of s params] by simp

lemma osc_dispatch_ok: "screen_ok s \<Longrightarrow> screen_ok (osc_dispatch params s)"
  by (simp add: osc_dispatch_def set_title_def set_path_def Let_def split: list.split)

lemma perform_ok:
  assumes "width_ok w" "screen_ok s"
  shows "\<exists>s'. perform w e s = Some s' \<and> screen_ok s'"
proof (cases e)
  case (CsiDispatch params inters c)
  then show ?thesis
    using csi_plain_ok [OF assms(2)] csi_private_ok [OF assms(2)] assms(2)
    by (auto simp: perform_def csi_dispatch_def split: list.split)
qed (use print_char_ok [OF assms] execute_ok [OF assms(2)] esc_dispatch_ok [OF assms(2)]
    osc_dispatch_ok [OF assms(2)] in \<open>simp_all add: perform_def\<close>)

section \<open>Resizing and the whole terminal\<close>

text \<open>
  The terminal as the program drives it: the events of the parser, new sizes, and the place in
  the scrollback. A new size must keep two rows and two columns and cut no wide character in
  two; otherwise the emulator can come to panic, see the end.
\<close>

datatype term_op = Feed vt_event | Resize nat nat | Scrollback nat

definition term_step :: "char_width \<Rightarrow> term_op \<Rightarrow> screen \<Rightarrow> screen option" where
  "term_step w e s = (case e of
     Feed v \<Rightarrow> perform w v s
   | Resize rows cols \<Rightarrow> Some (screen_set_size rows cols s)
   | Scrollback n \<Rightarrow> Some (screen_set_scrollback n s))"

definition term_allowed :: "term_op \<Rightarrow> screen \<Rightarrow> bool" where
  "term_allowed e s = (case e of
     Resize rows cols \<Rightarrow> size_ok \<lparr>sz_rows = rows, sz_cols = cols\<rparr> \<and>
       cuts_no_wide cols (sc_grid s) \<and> cuts_no_wide cols (sc_alt s)
   | _ \<Rightarrow> True)"

lemma screen_set_size_ok:
  assumes "screen_ok s" "size_ok \<lparr>sz_rows = rows, sz_cols = cols\<rparr>"
    "cuts_no_wide cols (sc_grid s)" "cuts_no_wide cols (sc_alt s)"
  shows "screen_ok (screen_set_size rows cols s)"
proof -
  let ?sz = "\<lparr>sz_rows = rows, sz_cols = cols\<rparr>"
  have "grid_live (grid_set_size ?sz (sc_grid s))"
    using grid_set_size_live [of "sc_grid s" ?sz] assms grid_live_ok by (simp add: screen_ok_def)
  moreover have "grid_live (grid_set_size ?sz (sc_alt s))"
    using grid_set_size_live [of "sc_alt s" ?sz] assms by (simp add: screen_ok_def)
  ultimately show ?thesis
    using grid_live_ok by (simp add: screen_ok_def screen_set_size_def has_mode_def Let_def)
qed

lemma term_step_ok:
  assumes "width_ok w" "screen_ok s" "term_allowed e s"
  shows "\<exists>s'. term_step w e s = Some s' \<and> screen_ok s'"
  using assms perform_ok [OF assms(1,2)] screen_set_size_ok [OF assms(2)] csi_total_ok(13) [OF assms(2)]
  by (cases e) (simp_all add: term_step_def term_allowed_def screen_set_scrollback_def)

end
