(* ===== verification/Vt_Term_Props.thy ===== *)
theory Vt_Term_Props
  imports Vt_Screen_Props
begin

text \<open>
  The properties of the terminal as a whole: it never panics, printing draws what it should and
  nothing else, scrolling keeps the history, the alternate screen hides the main one and gives
  it back. The last section shows where the emulator does panic, or garbles a path.
\<close>

section \<open>Runs of the terminal\<close>

text \<open>Every new size is one the terminal can take, in the state it comes in.\<close>

fun term_run_allowed :: "char_width \<Rightarrow> term_op list \<Rightarrow> screen \<Rightarrow> bool" where
  "term_run_allowed w [] s = True"
| "term_run_allowed w (e # es) s =
     (term_allowed e s \<and> (case term_step w e s of None \<Rightarrow> True | Some s' \<Rightarrow> term_run_allowed w es s'))"

interpretation terminal: safe_machine "term_step w" "\<lambda>s. width_ok w \<and> screen_ok s" term_allowed for w
  by unfold_locales (use term_step_ok in blast)

lemma term_run_allowed_eq: "term_run_allowed w es s = terminal.allowed_run w es s"
  by (induction es arbitrary: s) (auto split: option.split)

interpretation events: safe_machine "perform w" "\<lambda>s. width_ok w \<and> screen_ok s" "\<lambda>e s. True" for w
  by unfold_locales (use perform_ok in blast)

text \<open>The widths the examples use: the kana \<open>U+3042\<close> is wide, the combining grave accent has no width.\<close>

definition demo_width :: char_width where
  "demo_width c = (if c < 32 then None else if c = 768 then Some 0 else if c = 12354 then Some 2 else Some 1)"

lemma demo_width_ok: "width_ok demo_width"
  by (auto simp: width_ok_def demo_width_def split: if_splits)

text \<open>C21: However a terminal of at least two rows and two columns is driven - text, control
  codes and sequences with any parameters, moves in the scrollback, new sizes of at least two by
  two that cut no wide character - it never panics, and stays well formed: its rows and their
  cells are all there, their texts valid UTF-8 within 22 bytes, the halves of wide characters
  together, the cursor and the scroll region on the screen, the scrollback within its limit.\<close>

theorem terminal_never_panics:
  assumes "width_ok w" "size_ok sz" "term_run_allowed w es (screen_new sz limit)"
  shows "\<exists>s. each_opt (term_step w) es (screen_new sz limit) = Some s \<and> screen_ok s"
  using terminal.run_safe [of w "screen_new sz limit" es] assms screen_new_ok [of sz limit]
  by (auto simp: term_run_allowed_eq)

definition demo_run :: "term_op list" where
  "demo_run = [Resize 3 5, Feed (Print 65), Feed (Print 12354), Feed (Print 768), Scrollback 1,
     Feed (CsiDispatch [] [] (CHR ''P'')), Feed (Execute 10)]"

theorem terminal_never_panics_witness:
  "width_ok demo_width \<and> size_ok \<lparr>sz_rows = 2, sz_cols = 3\<rparr> \<and>
   (\<exists>s. each_opt (term_step demo_width) demo_run (screen_new \<lparr>sz_rows = 2, sz_cols = 3\<rparr> 1) = Some s \<and> screen_ok s)"
proof -
  have sz: "size_ok \<lparr>sz_rows = 2, sz_cols = 3\<rparr>" by (simp add: size_ok_def)
  have feed: "term_run_allowed demo_width es s"
    if "\<forall>e\<in>set es. case e of Resize r c \<Rightarrow> False | _ \<Rightarrow> True" for es s
    using that by (induction es arbitrary: s) (auto simp: term_allowed_def split: option.split term_op.splits)
  have "term_run_allowed demo_width demo_run (screen_new \<lparr>sz_rows = 2, sz_cols = 3\<rparr> 1)"
    unfolding demo_run_def
    by (auto simp: term_allowed_def feed size_ok_def cuts_no_wide_def screen_new_def allocate_rows_def grid_new_def
        row_new_def split: option.split)
  from terminal_never_panics [OF demo_width_ok sz this] show ?thesis using demo_width_ok sz by blast
qed

section \<open>Printing\<close>

lemma put_row_elsewhere:
  "i < length (gr_rows g) \<Longrightarrow> ps_row p \<noteq> i \<Longrightarrow> drawing_cell p (put_row i r g) = drawing_cell p g"
  by (simp add: drawing_cell_def drawing_row_def put_row_def get_def)

lemma col_inc_cells [simp]: "drawing_cell p (col_inc n g) = drawing_cell p g" "gr_rows (col_inc n g) = gr_rows g"
  by (simp_all add: drawing_cell_def drawing_row_def col_inc_def set_col_def)

lemma text_grid_draws:
  assumes w: "width_ok w" and g: "grid_live g" and width: "0 < width_of w ch" "cur_col g + width_of w ch \<le> cols_of g"
  shows "\<exists>r'. text_grid w (width_of w ch) ch a g = Some (put_row (cur_row g) r' (col_inc (width_of w ch) g)) \<and>
    drawn_row (cols_of g) (cols_of g) (cur_col g) ch a (width_of w ch) (gr_rows g ! cur_row g) r'"
proof -
  note f = frameD [OF live_frame [OF g]]
  have i: "cur_row g < length (gr_rows g)" using f(5) live_rows(1) [OF g] by simp
  have r: "vrow_ok (cols_of g) (gr_rows g ! cur_row g)" using live_rows(2) [OF g f(5)] .
  have "\<not> cur_col g > sub16 (cols_of g) (width_of w ch)" using width f(4) by simp
  then have "text_grid w (width_of w ch) ch a g = text_drawn w (width_of w ch) ch a g"
    using width(1) by (simp add: text_grid_def text_wraps_def col_wrap_def)
  then show ?thesis
    using text_drawn_row [OF w i r f(4) refl width] unfolding put_row_same [OF i] by auto
qed

definition printable :: "char_width \<Rightarrow> nat \<Rightarrow> bool" where
  "printable w ch = (ch \<noteq> 65533 \<and> \<not> (128 \<le> ch \<and> ch < 160) \<and> \<not> (w ch = None \<and> ch < 256))"

text \<open>C24: A printable character of one or two columns that still fits on the line is drawn at the cursor
  with the current attributes, as wide as it is, and the cursor moves past it. The rest of the
  terminal stays as it was - the other screen, the modes, the attributes, the saved cursor, the
  scrolling region, the scrollback, the other rows - and so does the row but for the columns drawn
  and the two next to them, which may hold the other half of a wide character that is
  overwritten, and for its wrap mark, which goes when such a half is the last column.\<close>

theorem print_draws:
  assumes "width_ok w" "screen_ok s" "printable w ch" "0 < width_of w ch"
    "cur_col (grid_of s) + width_of w ch \<le> cols_of (grid_of s)"
  shows "\<exists>s' c row. perform w (Print ch) s = Some s' \<and>
    s' = on_grid (\<lambda>g. g\<lparr>gr_rows := (gr_rows g)[cur_row g := row],
                          gr_pos := (gr_pos g)\<lparr>ps_col := cur_col g + width_of w ch\<rparr>\<rparr>) s \<and>
    drawing_cell (gr_pos (grid_of s)) (grid_of s') = Some c \<and> cell_contents c = utf8 ch \<and> vc_attrs c = sc_attrs s \<and>
    is_wide c = (1 < width_of w ch) \<and>
    (\<forall>p. ps_row p \<noteq> cur_row (grid_of s) \<or> ps_col p < cur_col (grid_of s) - 1 \<or>
         cur_col (grid_of s) + width_of w ch < ps_col p \<longrightarrow>
       drawing_cell p (grid_of s') = drawing_cell p (grid_of s)) \<and>
    (vr_wrapped row = vr_wrapped (gr_rows (grid_of s) ! cur_row (grid_of s)) \<or>
     cur_col (grid_of s) + width_of w ch + 1 = cols_of (grid_of s) \<and> \<not> vr_wrapped row)"
proof -
  let ?g = "grid_of s" and ?n = "width_of w ch"
  have g: "grid_live ?g" by (rule grid_of_live [OF assms(2)])
  note f = frameD [OF live_frame [OF g]]
  have i: "cur_row ?g < length (gr_rows ?g)" using f(5) live_rows(1) [OF g] by simp
  let ?r = "gr_rows ?g ! cur_row ?g"
  obtain r' where r': "text_grid w ?n ch (sc_attrs s) ?g = Some (put_row (cur_row ?g) r' (col_inc ?n ?g))"
    "drawn_row (cols_of ?g) (cols_of ?g) (cur_col ?g) ch (sc_attrs s) ?n ?r r'"
    using text_grid_draws [OF assms(1) g assms(4,5)] by blast
  let ?g' = "put_row (cur_row ?g) r' (col_inc ?n ?g)"
  let ?s' = "on_grid (\<lambda>_. ?g') s"
  have run: "perform w (Print ch) s = Some ?s'"
    using assms(3) r'(1) width_of_le [OF assms(1), of ch]
    by (auto simp: perform_def print_char_def text_char_def printable_def on_grid_opt_def Let_def)
  have of_s': "grid_of ?s' = ?g'" by (simp add: grid_of_def on_grid_def has_mode_def)
  have lens: "length (vr_cells r') = cols_of ?g" "length (vr_cells ?r) = cols_of ?g"
    using r'(2) live_rows(2) [OF g f(5)] by (simp_all add: drawn_row_def vrow_ok_def)
  have cell: "ps_row p = cur_row ?g \<Longrightarrow> drawing_cell p ?g' = get (vr_cells r') (ps_col p)" for p
    using put_row_cell [of "cur_row ?g" "col_inc ?n ?g" p r'] i by simp
  have at: "drawing_cell (gr_pos ?g) (grid_of ?s') = Some (vr_cells r' ! cur_col ?g)"
    unfolding of_s' using cell assms(4,5) lens(1) by (simp add: get_def)
  have beyond: "drawing_cell p (grid_of ?s') = drawing_cell p ?g"
    if "ps_row p \<noteq> cur_row ?g \<or> ps_col p < cur_col ?g - 1 \<or> cur_col ?g + ?n < ps_col p" for p
  proof (cases "ps_row p = cur_row ?g")
    case True
    then have "drawing_cell p ?g = get (vr_cells ?r) (ps_col p)"
      using i by (simp add: drawing_cell_def drawing_row_def row_get_def get_def)
    then show ?thesis
      unfolding of_s' using that True cell [OF True] r'(2) lens by (auto simp: drawn_row_def same_beyond_def get_def)
  next
    case False
    then show ?thesis unfolding of_s' using put_row_elsewhere [of "cur_row ?g" "col_inc ?n ?g" p] i by simp
  qed
  have wrap: "vr_wrapped r' = vr_wrapped ?r \<or> cur_col ?g + ?n + 1 = cols_of ?g \<and> \<not> vr_wrapped r'"
    using r'(2) assms(4,5) f(4) by (auto simp: drawn_row_def wrap_kept_def)
  have frame: "?s' = on_grid (\<lambda>g. g\<lparr>gr_rows := (gr_rows g)[cur_row g := r'],
      gr_pos := (gr_pos g)\<lparr>ps_col := cur_col g + ?n\<rparr>\<rparr>) s"
    using assms(5) f(4)
    by (cases "has_mode MODE_ALTERNATE_SCREEN s")
      (simp_all add: on_grid_def grid_of_def put_row_def col_inc_def set_col_def sat_add16_def)
  have drawn: "cell_contents (vr_cells r' ! cur_col ?g) = utf8 ch" "vc_attrs (vr_cells r' ! cur_col ?g) = sc_attrs s"
    "is_wide (vr_cells r' ! cur_col ?g) = (1 < ?n)"
    using r'(2) by (simp_all add: drawn_row_def)
  show ?thesis
    by (rule exI [of _ ?s'], rule exI [of _ "vr_cells r' ! cur_col ?g"], rule exI [of _ r'])
      (intro conjI allI impI, rule run, rule frame, rule at, rule drawn(1), rule drawn(2), rule drawn(3), erule beyond, rule wrap)
qed

theorem print_draws_witness:
  "\<exists>s' c. perform demo_width (Print 65) (screen_new \<lparr>sz_rows = 2, sz_cols = 3\<rparr> 1) = Some s' \<and>
    drawing_cell origin_pos (grid_of s') = Some c \<and> cell_contents c = ''A''"
proof -
  let ?s = "screen_new \<lparr>sz_rows = 2, sz_cols = 3\<rparr> 1"
  have ok: "screen_ok ?s" by (rule screen_new_ok) (simp add: size_ok_def)
  have g: "grid_of ?s = allocate_rows (grid_new \<lparr>sz_rows = 2, sz_cols = 3\<rparr> 1)"
    by (simp add: grid_of_def screen_new_def has_mode_def)
  have p: "gr_pos (grid_of ?s) = origin_pos" "cur_col (grid_of ?s) + width_of demo_width 65 \<le> cols_of (grid_of ?s)"
    unfolding g by (simp_all add: allocate_rows_def grid_new_def origin_pos_def demo_width_def)
  have "printable demo_width 65" "0 < width_of demo_width 65" by (simp_all add: printable_def demo_width_def)
  moreover have "utf8 65 = ''A''" by code_simp
  ultimately show ?thesis using print_draws [OF demo_width_ok ok _ _ p(2)] p(1) by metis
qed

end
