(* ===== verification/Vt_History.thy ===== *)
theory Vt_History
  imports Vt_Term_Props
begin

text \<open>
  Scrolling the whole screen, against a simple picture of it: the history of the terminal is
  one list of rows, the scrollback followed by the screen. Scrolling up appends blank rows to
  the history and drops the oldest beyond the limit; a view back in the history stays where it
  is.
\<close>

section \<open>The history\<close>

definition history :: "grid \<Rightarrow> vrow list" where
  "history g = gr_scrollback g @ gr_rows g"

definition keeps_history :: "grid \<Rightarrow> bool" where
  "keeps_history g = (grid_live g \<and> \<not> scroll_region_active g \<and> 0 < gr_limit g)"

text \<open>What \<open>n\<close> lines of scrolling do.\<close>

definition scrolled :: "nat \<Rightarrow> grid \<Rightarrow> grid \<Rightarrow> bool" where
  "scrolled n g g' =
     (keeps_history g' \<and> gr_size g' = gr_size g \<and> gr_limit g' = gr_limit g \<and>
      length (gr_scrollback g') = min (gr_limit g) (length (gr_scrollback g) + n) \<and>
      history g' = drop (length (gr_scrollback g) + n - gr_limit g) (history g @ replicate n (new_row g)) \<and>
      gr_offset g' = (if gr_offset g > 0 then min (length (gr_scrollback g')) (gr_offset g + n) else 0))"

lemma scrolled_refl: "keeps_history g \<Longrightarrow> scrolled 0 g g"
  by (auto simp: scrolled_def keeps_history_def grid_live_def frame_ok_def)

lemma scroll_line_history:
  assumes "keeps_history g"
  shows "\<exists>g'. scroll_up_line g = Some g' \<and> scrolled 1 g g'"
proof -
  have g: "grid_live g" and na: "gr_top g = 0" "gr_bottom g = rows_of g - 1" and lim: "0 < gr_limit g"
    using assms frameD(9) [OF live_frame, of g] by (auto simp: keeps_history_def scroll_region_active_def)
  note f = frameD [OF live_frame [OF g]]
  have len: "length (gr_rows g) = rows_of g" using live_rows(1) [OF g] .
  then obtain r rs where rows: "gr_rows g = r # rs" using f(1) by (cases "gr_rows g") auto
  have sb: "length (gr_scrollback g) \<le> gr_limit g" "gr_offset g \<le> length (gr_scrollback g)"
    using g by (simp_all add: grid_live_def frame_ok_def)
  let ?g1 = "g\<lparr>gr_rows := rs @ [new_row g]\<rparr>"
  have ins: "vec_insert (gr_bottom g + 1) (new_row g) (gr_rows g) = Some (r # rs @ [new_row g])"
    using na len f(1) rows by (simp add: vec_insert_def insert_nth_def)
  have rem: "vec_remove (gr_top g) (r # rs @ [new_row g]) = Some (r, rs @ [new_row g])"
    using na by (simp add: vec_remove_def drop_nth_def)
  have na1: "\<not> scroll_region_active ?g1" using na f(9) by (simp add: scroll_region_active_def)
  have "scroll_up_line g = Some (keep_row r ?g1)"
    unfolding scroll_up_line_def ins bind.bind_lunit rem prod.case Let_def using na1 lim by simp
  moreover have "grid_live (keep_row r ?g1)"
    using scroll_up_line_live [OF g] calculation by auto
  moreover have "\<not> scroll_region_active (keep_row r ?g1)"
    using na1 by (simp add: keep_row_def scroll_region_active_def Let_def)
  moreover have "history (keep_row r ?g1) =
      drop (length (gr_scrollback g) + 1 - gr_limit g) (history g @ replicate 1 (new_row g))"
    using sb(1) rows lim by (simp add: history_def keep_row_def Let_def)
  ultimately show ?thesis
    using lim sb by (auto simp: scrolled_def keeps_history_def keep_row_def Let_def)
qed

lemma scrolled_trans:
  assumes "scrolled m g g1" "scrolled n g1 g2" "keeps_history g"
  shows "scrolled (m + n) g g2"
proof -
  have nr: "new_row g1 = new_row g" using assms(1) by (simp add: scrolled_def new_row_def)
  have sb: "length (gr_scrollback g) \<le> gr_limit g" "gr_offset g \<le> length (gr_scrollback g)"
    using assms(3) by (auto simp: keeps_history_def grid_live_def frame_ok_def)
  have h1: "history g1 = drop (length (gr_scrollback g) + m - gr_limit g) (history g @ replicate m (new_row g))"
    "length (gr_scrollback g1) = min (gr_limit g) (length (gr_scrollback g) + m)" "gr_limit g1 = gr_limit g"
    using assms(1) by (simp_all add: scrolled_def)
  have h2: "history g2 = drop (length (gr_scrollback g1) + n - gr_limit g1) (history g1 @ replicate n (new_row g1))"
    using assms(2) by (simp add: scrolled_def)
  have d: "length (gr_scrollback g) + m - gr_limit g \<le> length (history g @ replicate m (new_row g))"
    by (simp add: history_def)
  have join: "drop i (drop j xs @ ys) = drop (i + j) (xs @ ys)" if "j \<le> length xs" for i j and xs ys :: "vrow list"
    using that by simp
  have "length (gr_scrollback g1) + n - gr_limit g + (length (gr_scrollback g) + m - gr_limit g) =
      length (gr_scrollback g) + (m + n) - gr_limit g" using h1(2) by simp
  then have "history g2 = drop (length (gr_scrollback g) + (m + n) - gr_limit g) (history g @ replicate (m + n) (new_row g))"
    unfolding h2 nr h1(1,3) join [OF d] by (simp only: replicate_add append_assoc)
  then show ?thesis
    using assms(1,2) sb unfolding scrolled_def by (auto simp: min_def)
qed

lemma scroll_lines_history:
  "keeps_history g \<Longrightarrow> \<exists>g'. repeat_opt n scroll_up_line g = Some g' \<and> scrolled n g g'"
proof (induction n arbitrary: g)
  case 0
  then show ?case by (simp add: scrolled_refl)
next
  case (Suc n)
  from scroll_line_history [OF Suc.prems] obtain g1 where g1: "scroll_up_line g = Some g1" "scrolled 1 g g1" by blast
  then have "keeps_history g1" by (simp add: scrolled_def)
  from Suc.IH [OF this] obtain g2 where "repeat_opt n scroll_up_line g1 = Some g2" "scrolled n g1 g2" by blast
  with g1 scrolled_trans [OF g1(2) _ Suc.prems, of n g2] show ?case by auto
qed

lemma scroll_up_scrolled:
  assumes "keeps_history g"
  shows "\<exists>g'. scroll_up n g = Some g' \<and> scrolled (min n (rows_of g)) g g'"
proof -
  have "gr_top g = 0" "sub16 (rows_of g) 0 = rows_of g"
    using assms frameD(2) [OF live_frame, of g] by (auto simp: keeps_history_def scroll_region_active_def)
  then show ?thesis using scroll_lines_history [OF assms] by (simp add: scroll_up_def)
qed

text \<open>The rows in view are a window of the history.\<close>

lemma visible_window:
  assumes "gr_offset g \<le> length (gr_scrollback g)"
  shows "visible_rows g = take (length (gr_rows g)) (drop (length (gr_scrollback g) - gr_offset g) (history g))"
  using assms by (simp add: visible_rows_def history_def)

text \<open>C23: While the whole screen scrolls, the scrollback and the screen are one history: scrolling
  up by some lines appends that many blank rows to it and drops the oldest rows beyond the limit
  of the scrollback, so no row within the limit is lost, duplicated or moved.\<close>

theorem scroll_up_history:
  assumes "grid_live g" "\<not> scroll_region_active g" "0 < gr_limit g"
  shows "\<exists>g'. scroll_up n g = Some g' \<and>
    gr_scrollback g' @ gr_rows g' =
      drop (length (gr_scrollback g) + min n (rows_of g) - gr_limit g)
        (gr_scrollback g @ gr_rows g @ replicate (min n (rows_of g)) (new_row g)) \<and>
    length (gr_rows g') = rows_of g \<and>
    length (gr_scrollback g') = min (gr_limit g) (length (gr_scrollback g) + min n (rows_of g))"
proof -
  have k: "keeps_history g" using assms by (simp add: keeps_history_def)
  obtain g' where g': "scroll_up n g = Some g'" "scrolled (min n (rows_of g)) g g'"
    using scroll_up_scrolled [OF k] by blast
  then have "length (gr_rows g') = rows_of g"
    by (simp add: scrolled_def keeps_history_def grid_live_def)
  with g' show ?thesis by (simp add: scrolled_def history_def)
qed

theorem scroll_up_history_witness:
  "\<exists>g'. scroll_up 1 (allocate_rows (grid_new \<lparr>sz_rows = 2, sz_cols = 3\<rparr> 5)) = Some g' \<and>
    length (gr_scrollback g') = 1"
proof -
  let ?g = "allocate_rows (grid_new \<lparr>sz_rows = 2, sz_cols = 3\<rparr> 5)"
  have "grid_live ?g" by (rule allocate_rows_live [OF grid_new_ok]) (simp add: size_ok_def)
  moreover have "\<not> scroll_region_active ?g" "0 < gr_limit ?g" "gr_scrollback ?g = []" "gr_limit ?g = 5" "rows_of ?g = 2"
    by (simp_all add: allocate_rows_def grid_new_def scroll_region_active_def)
  ultimately show ?thesis using scroll_up_history [of ?g 1] by auto
qed

text \<open>A user who looks back in the scrollback keeps the rows in view while the screen scrolls
  on below, as long as the oldest of them are within the limit; at the bottom, the view follows
  the screen.\<close>

theorem scrolled_view_holds:
  assumes "grid_live g" "\<not> scroll_region_active g" "gr_offset g + min n (rows_of g) \<le> gr_limit g"
    "0 < gr_limit g"
  shows "\<exists>g'. scroll_up n g = Some g' \<and>
    visible_rows g' = (if 0 < gr_offset g then visible_rows g else gr_rows g')"
proof -
  have k: "keeps_history g" using assms by (simp add: keeps_history_def)
  let ?n = "min n (rows_of g)"
  obtain g' where g': "scroll_up n g = Some g'" "scrolled ?n g g'" using scroll_up_scrolled [OF k] by blast
  have off: "gr_offset g \<le> length (gr_scrollback g)" and len: "length (gr_rows g) = rows_of g"
    using assms(1) by (simp_all add: grid_live_def frame_ok_def)
  have sb: "length (gr_scrollback g') = min (gr_limit g) (length (gr_scrollback g) + ?n)"
    and len': "length (gr_rows g') = rows_of g"
    and hist: "history g' = drop (length (gr_scrollback g) + ?n - gr_limit g) (history g @ replicate ?n (new_row g))"
    and off': "gr_offset g' = (if gr_offset g > 0 then min (length (gr_scrollback g')) (gr_offset g + ?n) else 0)"
    using g'(2) by (simp_all add: scrolled_def keeps_history_def grid_live_def)
  show ?thesis
  proof (cases "0 < gr_offset g")
    case True
    have o: "gr_offset g' = gr_offset g + ?n" using off' sb off assms(3) True by simp
    let ?d = "length (gr_scrollback g) + ?n - gr_limit g"
    have "length (gr_scrollback g') - gr_offset g' + ?d = length (gr_scrollback g) - gr_offset g"
      using sb o off assms(3) by linarith
    then have "visible_rows g' = take (rows_of g) (drop (length (gr_scrollback g) - gr_offset g) (history g @ replicate ?n (new_row g)))"
      using visible_window [of g'] o sb off assms(3) len' by (simp only: hist drop_drop) simp
    moreover have "rows_of g \<le> length (history g) - (length (gr_scrollback g) - gr_offset g)"
      using len off by (simp add: history_def)
    ultimately show ?thesis using visible_window [OF off] len True g'(1) by simp
  next
    case False
    then show ?thesis using off' g'(1) by (simp add: visible_rows_def)
  qed
qed

theorem scrolled_view_holds_witness:
  "\<exists>g'. scroll_up 1 (allocate_rows (grid_new \<lparr>sz_rows = 2, sz_cols = 3\<rparr> 5)) = Some g' \<and> visible_rows g' = gr_rows g'"
proof -
  let ?g = "allocate_rows (grid_new \<lparr>sz_rows = 2, sz_cols = 3\<rparr> 5)"
  have "grid_live ?g" by (rule allocate_rows_live [OF grid_new_ok]) (simp add: size_ok_def)
  moreover have "\<not> scroll_region_active ?g" "gr_offset ?g + min 1 (rows_of ?g) \<le> gr_limit ?g" "0 < gr_limit ?g"
    "gr_offset ?g = 0"
    by (simp_all add: allocate_rows_def grid_new_def scroll_region_active_def)
  ultimately show ?thesis using scrolled_view_holds [of ?g 1] by auto
qed

end
