(* ===== verification/Vt_Alternate.thy ===== *)
theory Vt_Alternate
  imports Vt_History
begin

text \<open>
  The alternate screen, and the places where the emulator panics or garbles what it is told.
\<close>

section \<open>The alternate screen\<close>

text \<open>The events that leave the alternate screen: a reset, and resetting mode 47 or 1049.\<close>

definition leaves_alternate :: "vt_event \<Rightarrow> bool" where
  "leaves_alternate e = (case e of
     EscDispatch inters b \<Rightarrow> inters = [] \<and> b = CHR ''c''
   | CsiDispatch params inters c \<Rightarrow>
       inters \<noteq> [] \<and> hd inters = CHR ''?'' \<and> c = CHR ''l'' \<and> ([47] \<in> set params \<or> [1049] \<in> set params)
   | _ \<Rightarrow> False)"

text \<open>A screen that shows the alternate grid and whose main grid is a given one.\<close>

definition hides :: "grid \<Rightarrow> screen \<Rightarrow> bool" where
  "hides m s = (has_mode MODE_ALTERNATE_SCREEN s \<and> sc_grid s = m)"

lemma hides_fields [simp]:
  "hides m (s\<lparr>sc_attrs := a\<rparr>) = hides m s" "hides m (s\<lparr>sc_saved_attrs := a\<rparr>) = hides m s"
  "hides m (s\<lparr>sc_mouse_mode := mm\<rparr>) = hides m s" "hides m (s\<lparr>sc_mouse_encoding := e\<rparr>) = hides m s"
  "hides m (s\<lparr>sc_title := t\<rparr>) = hides m s" "hides m (s\<lparr>sc_path := p\<rparr>) = hides m s"
  "hides m (s\<lparr>sc_squelch_cleared := b\<rparr>) = hides m s" "hides m (s\<lparr>sc_squelch_pending := b\<rparr>) = hides m s"
  "hides m (s\<lparr>sc_bells := n\<rparr>) = hides m s" "hides m (s\<lparr>sc_alt := g\<rparr>) = hides m s"
  by (simp_all add: hides_def has_mode_def)

lemma hides_on_grid [simp]: "hides m s \<Longrightarrow> hides m (on_grid f s)"
  by (simp add: hides_def on_grid_def has_mode_def)

text \<open>If it returns, an operation leaves it so.\<close>

definition hides_all :: "grid \<Rightarrow> screen option \<Rightarrow> bool" where
  "hides_all m x = (\<forall>s. x = Some s \<longrightarrow> hides m s)"

lemma hides_all_simps [simp]: "hides_all m None" "hides_all m (Some s) = hides m s"
  by (simp_all add: hides_all_def)

lemma hides_on_grid_opt [simp]: "hides m s \<Longrightarrow> hides_all m (on_grid_opt f s)"
  by (auto simp: on_grid_opt_def hides_all_def)

lemma hides_modes:
  assumes "hides m s" "n \<in> {MODE_APPLICATION_KEYPAD, MODE_APPLICATION_CURSOR, MODE_HIDE_CURSOR, MODE_BRACKETED_PASTE}"
  shows "hides m (set_mode n s)" "hides m (clear_mode n s)"
  using assms(1) alternate_mode(3,4) [OF assms(2), of s] by (simp_all add: hides_def set_mode_def clear_mode_def)

lemma hides_ops [simp]:
  "hides m (check_squelch_signal s) = hides m s"
  "hides m s \<Longrightarrow> hides m (save_cursor s)" "hides m s \<Longrightarrow> hides m (restore_cursor s)"
  "hides m (set_mouse_mode mm s) = hides m s" "hides m (clear_mouse_mode mm s) = hides m s"
  "hides m (set_mouse_encoding e s) = hides m s" "hides m (clear_mouse_encoding e s) = hides m s"
  by (simp_all add: check_squelch_signal_def save_cursor_def restore_cursor_def set_mouse_mode_def
      clear_mouse_mode_def set_mouse_encoding_def clear_mouse_encoding_def)

lemma hides_enter [simp]: "hides m s \<Longrightarrow> hides m (enter_alternate_grid s)"
  using alternate_mode(1) [of "on_grid (set_scrollback 0) s"] hides_on_grid [of m s "set_scrollback 0"]
  by (simp add: enter_alternate_grid_def Let_def) (auto simp: hides_def set_mode_def on_grid_def has_mode_def)

lemma hides_decset_one: "hides m s \<Longrightarrow> hides m (decset_one p s)"
  unfolding decset_one_def Let_def by (simp add: hides_modes)

lemma hides_decset: "hides m s \<Longrightarrow> hides m (decset params s)"
  unfolding decset_def
  by (rule machine.run_inv [OF machine.intro, where step = "\<lambda>s p. decset_one p s" and inv = "hides m"])
     (rule hides_decset_one)

lemma hides_decrst:
  "hides m s \<Longrightarrow> [47] \<notin> set params \<Longrightarrow> [1049] \<notin> set params \<Longrightarrow> hides m (decrst params s)"
  unfolding decrst_def
proof (induction params arbitrary: s)
  case (Cons p ps)
  then have "hides m (decrst_one p s)"
    unfolding decrst_one_def by (auto simp: hides_modes)
  with Cons show ?case by simp
qed simp

lemma hides_opts:
  assumes "hides m s"
  shows "hides_all m (lf s)" "hides_all m (ed k s)" "hides_all m (el k s)" "hides_all m (text_char w ch s)"
  using assms by (simp_all add: lf_def ed_def el_def text_char_def Let_def)

lemma hides_csi_plain: "hides m s \<Longrightarrow> hides_all m (csi_plain params c s)"
  unfolding csi_plain_def Let_def cnl_def cpl_def cup_def decstbm_def by (simp add: hides_opts)

lemma hides_perform:
  assumes "hides m s" "\<not> leaves_alternate e"
  shows "hides_all m (perform w e s)"
proof (cases e)
  case (Print c)
  with assms(1) show ?thesis by (simp add: perform_def print_char_def hides_opts)
next
  case (Execute b)
  with assms(1) show ?thesis by (simp add: perform_def execute_def hides_opts)
next
  case (EscDispatch i b)
  with assms show ?thesis by (simp add: perform_def esc_dispatch_def hides_modes leaves_alternate_def)
next
  case (CsiDispatch params i c)
  have "hides_all m (csi_private params c s)"
    if "c = CHR ''l'' \<longrightarrow> [47] \<notin> set params \<and> [1049] \<notin> set params"
    using that assms(1) by (simp add: csi_private_def hides_opts hides_decset hides_decrst)
  with CsiDispatch assms hides_csi_plain [OF assms(1)] show ?thesis
    by (auto simp: perform_def csi_dispatch_def leaves_alternate_def split: list.split)
next
  case (OscDispatch params)
  with assms(1) show ?thesis
    by (simp add: perform_def osc_dispatch_def set_title_def set_path_def Let_def split: list.split)
qed

lemma alternate_run:
  assumes "width_ok w" "screen_ok s" "has_mode MODE_ALTERNATE_SCREEN s" "\<forall>e\<in>set es. \<not> leaves_alternate e"
  shows "\<exists>s'. each_opt (perform w) es s = Some s' \<and> has_mode MODE_ALTERNATE_SCREEN s' \<and> sc_grid s' = sc_grid s"
proof -
  have "\<exists>s'. each_opt (perform w) es s = Some s' \<and> screen_ok s' \<and> hides (sc_grid s) s'"
  proof (rule each_opt_inv [where I = "\<lambda>t. screen_ok t \<and> hides (sc_grid s) t"])
    show "screen_ok s \<and> hides (sc_grid s) s" using assms by (simp add: hides_def)
    show "\<exists>y. perform w e t = Some y \<and> screen_ok y \<and> hides (sc_grid s) y"
      if "e \<in> set es" "screen_ok t \<and> hides (sc_grid s) t" for e t
      using perform_ok [OF assms(1), of t e] hides_perform [of "sc_grid s" t e w] that assms(4)
      by (auto simp: hides_all_def)
  qed
  then show ?thesis by (auto simp: hides_def)
qed

text \<open>A program in full screen: it enters mode 1049, runs, and leaves it.\<close>

definition enter_1049 :: vt_event where "enter_1049 = CsiDispatch [[1049]] ''?'' (CHR ''h'')"
definition leave_1049 :: vt_event where "leave_1049 = CsiDispatch [[1049]] ''?'' (CHR ''l'')"

lemma enter_1049_run:
  "\<not> has_mode MODE_ALTERNATE_SCREEN s \<Longrightarrow> \<exists>s1. perform w enter_1049 s = Some s1 \<and>
    hides (set_scrollback 0 (grid_save_cursor (sc_grid s))) s1"
  by (simp add: perform_def enter_1049_def csi_dispatch_def csi_private_def decset_def decset_one_def Let_def
      enter_alternate_grid_def hides_def alternate_mode(1))
     (simp add: set_mode_def save_cursor_def on_grid_def has_mode_def MODE_ALTERNATE_SCREEN_def)

lemma leave_1049_run:
  "has_mode MODE_ALTERNATE_SCREEN s \<Longrightarrow> \<exists>s1. perform w leave_1049 s = Some s1 \<and>
    \<not> has_mode MODE_ALTERNATE_SCREEN s1 \<and> sc_grid s1 = grid_restore_cursor (sc_grid s)"
  using alternate_mode(2) [of s]
  by (simp add: perform_def leave_1049_def csi_dispatch_def csi_private_def decrst_def decrst_one_def
      exit_alternate_grid_def restore_cursor_def on_grid_def)
     (simp add: clear_mode_def has_mode_def)

text \<open>C25: A program that runs in full screen gives the main screen back: after entering mode 1049,
  printing anything, and leaving it, the screen shows the same rows, with the cursor where it
  was and the same scrollback and scroll region.\<close>

theorem full_screen_round_trip:
  assumes "width_ok w" "screen_ok s" "\<not> has_mode MODE_ALTERNATE_SCREEN s"
    "\<forall>e\<in>set es. \<not> leaves_alternate e"
  shows "\<exists>s'. each_opt (perform w) (enter_1049 # es @ [leave_1049]) s = Some s' \<and>
    \<not> has_mode MODE_ALTERNATE_SCREEN s' \<and>
    sc_grid s' = (sc_grid s)\<lparr>gr_saved_pos := gr_pos (sc_grid s), gr_saved_origin := gr_origin (sc_grid s), gr_offset := 0\<rparr>"
proof -
  obtain s1 where s1: "perform w enter_1049 s = Some s1" "hides (set_scrollback 0 (grid_save_cursor (sc_grid s))) s1"
    using enter_1049_run [OF assms(3)] by blast
  have ok1: "screen_ok s1" using perform_ok [OF assms(1,2), of enter_1049] s1(1) by simp
  have h1: "has_mode MODE_ALTERNATE_SCREEN s1" "sc_grid s1 = set_scrollback 0 (grid_save_cursor (sc_grid s))"
    using s1(2) by (simp_all add: hides_def)
  obtain s2 where s2: "each_opt (perform w) es s1 = Some s2" "has_mode MODE_ALTERNATE_SCREEN s2" "sc_grid s2 = sc_grid s1"
    using alternate_run [OF assms(1) ok1 h1(1) assms(4)] by blast
  obtain s3 where s3: "perform w leave_1049 s2 = Some s3" "\<not> has_mode MODE_ALTERNATE_SCREEN s3"
    "sc_grid s3 = grid_restore_cursor (sc_grid s2)" using leave_1049_run [OF s2(2)] by blast
  have "each_opt (perform w) (enter_1049 # es @ [leave_1049]) s = Some s3"
    using s1(1) s2(1) s3(1) by (simp add: each_opt_append)
  moreover have "sc_grid s3 = (sc_grid s)\<lparr>gr_saved_pos := gr_pos (sc_grid s), gr_saved_origin := gr_origin (sc_grid s), gr_offset := 0\<rparr>"
    unfolding s3(3) s2(3) h1(2) by (simp add: grid_restore_cursor_def set_scrollback_def grid_save_cursor_def)
  ultimately show ?thesis using s3(2) by blast
qed

theorem full_screen_round_trip_witness:
  "\<exists>s'. each_opt (perform demo_width) [enter_1049, Print 12354, EscDispatch [] (CHR ''7''), Execute 10, leave_1049]
      (screen_new \<lparr>sz_rows = 2, sz_cols = 3\<rparr> 1) = Some s' \<and>
    gr_rows (sc_grid s') = replicate 2 (row_new 3)"
proof -
  let ?s = "screen_new \<lparr>sz_rows = 2, sz_cols = 3\<rparr> 1"
  have "screen_ok ?s" by (rule screen_new_ok) (simp add: size_ok_def)
  moreover have "\<not> has_mode MODE_ALTERNATE_SCREEN ?s" by (simp add: has_mode_def screen_new_def)
  moreover have "\<forall>e\<in>set [Print 12354, EscDispatch [] (CHR ''7''), Execute 10]. \<not> leaves_alternate e"
    by (simp add: leaves_alternate_def)
  moreover have "gr_rows (sc_grid ?s) = replicate 2 (row_new 3)"
    by (simp add: screen_new_def allocate_rows_def grid_new_def)
  ultimately show ?thesis
    using full_screen_round_trip [OF demo_width_ok, of ?s "[Print 12354, EscDispatch [] (CHR ''7''), Execute 10]"]
    by auto
qed

section \<open>Where the emulator panics or garbles\<close>

text \<open>In a terminal of one row, text that runs past the last column panics: the wrap scrolls the
  only row away and then looks for the row above it, at row 65535.\<close>

theorem one_row_wrap_panics:
  assumes "gr_size (grid_of s) = \<lparr>sz_rows = 1, sz_cols = cols\<rparr>" "0 < cols" "cols < 65536"
    "length (gr_rows (grid_of s)) = 1" "gr_top (grid_of s) = 0" "gr_bottom (grid_of s) = 0" "cur_row (grid_of s) = 0"
    "printable w ch" "cols < cur_col (grid_of s) + width_of w ch" "width_of w ch \<le> cols"
  shows "perform w (Print ch) s = None"
proof -
  let ?g = "grid_of s" and ?n = "width_of w ch"
  obtain row where row: "gr_rows ?g = [row]" using assms(4) by (metis length_0_conv length_Suc_conv One_nat_def)
  have past: "cur_col ?g > sub16 cols ?n" using assms(3,9,10) by simp
  have g0: "set_col 0 ?g = ?g\<lparr>gr_pos := \<lparr>ps_row = 0, ps_col = 0\<rparr>\<rparr>" using assms(7) by (simp add: set_col_pos)
  have one: "sub16 (Suc 0) 0 = 1" "sat_add16 0 (Suc 0) = 1" by (simp_all add: sat_add16_def)
  let ?g1 = "?g\<lparr>gr_pos := \<lparr>ps_row = 0, ps_col = 0\<rparr>\<rparr>"
  have up: "\<exists>g2. scroll_up 1 ?g1 = Some g2 \<and> length (gr_rows g2) = 1"
    using assms(1,5,6) row one
    by (simp add: scroll_up_def scroll_up_line_def vec_insert_def vec_remove_def insert_nth_def drop_nth_def
        keep_row_def Let_def)
  have "row_inc_scroll 1 (set_col 0 ?g) = map_option (\<lambda>g2. (g2, 1)) (scroll_up 1 ?g1)"
    unfolding g0 using assms(5,6) one
    by (simp add: row_inc_scroll_def in_scroll_region_def row_clamp_bottom_def set_row_def)
  then obtain g2 where g2: "row_inc_scroll 1 (set_col 0 ?g) = Some (g2, 1)" "length (gr_rows g2) = 1"
    using up by auto
  have far: "sub16 0 (Suc 0) = 65535" by (simp add: sub16_def)
  have "col_wrap ?n b ?g = None" for b
    using past assms(1,7) g2 far by (simp add: col_wrap_def on_row_def get_def Let_def)
  then have "text_grid w ?n ch a ?g = None" for a by (simp add: text_grid_def)
  then show ?thesis
    using assms(3,8,10)
    by (auto simp: perform_def print_char_def text_char_def printable_def on_grid_opt_def Let_def)
qed

theorem one_row_wrap_panics_witness:
  "perform demo_width (Print 12354) (on_grid (grid_col_set 1) (screen_new \<lparr>sz_rows = 1, sz_cols = 2\<rparr> 0)) = None"
proof -
  let ?s = "on_grid (grid_col_set 1) (screen_new \<lparr>sz_rows = 1, sz_cols = 2\<rparr> 0)"
  have "grid_of ?s = grid_col_set 1 (allocate_rows (grid_new \<lparr>sz_rows = 1, sz_cols = 2\<rparr> 0))"
    by (simp add: grid_of_def on_grid_def has_mode_def screen_new_def)
  also have "\<dots> = (allocate_rows (grid_new \<lparr>sz_rows = 1, sz_cols = 2\<rparr> 0))\<lparr>gr_pos := \<lparr>ps_row = 0, ps_col = 1\<rparr>\<rparr>"
    by (simp add: grid_col_set_def col_clamp_def set_col_pos allocate_rows_def grid_new_def origin_pos_def)
  finally have g: "grid_of ?s = \<dots>" .
  show ?thesis
    by (rule one_row_wrap_panics [where cols = 2]; (unfold g)?)
       (simp_all add: allocate_rows_def grid_new_def printable_def demo_width_def)
qed

text \<open>Likewise, in a row that starts with the second half of a wide character, which a new size can
  leave behind, a character of no width panics.\<close>

lemma orphan_half_panics:
  assumes "drawing_cell \<lparr>ps_row = cur_row g, ps_col = 0\<rparr> g = Some c" "is_wide_continuation c" "cur_col g = 1"
    "length (vr_cells (gr_rows g ! cur_row g)) < 65536"
  shows "text_combining ch g = None"
proof -
  have p: "(gr_pos g)\<lparr>ps_col := 0\<rparr> = \<lparr>ps_row = cur_row g, ps_col = 0\<rparr>" by (cases "gr_pos g") simp
  have far: "sub16 (Suc 0) 2 = 65535" by (simp add: sub16_def)
  have "get (vr_cells (gr_rows g ! cur_row g)) 65535 = None" using assms(4) by (simp add: get_def)
  then have "on_cell ((gr_pos g)\<lparr>ps_col := 65535\<rparr>) (cell_append ch) g = None"
    by (auto simp: on_cell_def on_row_def row_get_def get_def)
  then show ?thesis using assms(1,2,3) far by (simp add: text_combining_def p Let_def)
qed

lemma resize_keeps_rows [simp]:
  "gr_rows (fit_region g) = gr_rows g" "gr_size (fit_region g) = gr_size g"
  "gr_rows (clamp_saved g) = gr_rows g" "gr_size (clamp_saved g) = gr_size g"
  "gr_rows (col_clamp g) = gr_rows g" "gr_size (col_clamp g) = gr_size g"
  "gr_rows (fst (row_clamp_top b g)) = gr_rows g" "gr_size (fst (row_clamp_top b g)) = gr_size g"
  "gr_rows (fst (row_clamp_bottom b g)) = gr_rows g" "gr_size (fst (row_clamp_bottom b g)) = gr_size g"
  by (simp_all add: fit_region_def clamp_saved_def col_clamp_def row_clamp_top_def row_clamp_bottom_def
      set_row_def set_col_def Let_def)

lemma resized_row:
  assumes "i < length (gr_rows g)" "i < sz_rows sz"
  shows "gr_size (grid_set_size sz g) = sz"
    "vr_cells (gr_rows (grid_set_size sz g) ! i) = vec_resize (sz_cols sz) cell_new (vr_cells (gr_rows g ! i))"
  using assms
  by (auto simp: grid_set_size_def resize_rows_def vec_resize_def nth_append row_resize_def row_wrap_def Let_def)

text \<open>A new size that puts the right edge through a wide character leaves its first half alone at
  the end of the row: the grid is no longer well formed, which is how a later sequence can panic.\<close>

theorem resize_cuts_wide_characters:
  assumes "grid_live g" "size_ok sz" "i < rows_of g" "i < sz_rows sz" "sz_cols sz < cols_of g"
    "is_wide (vr_cells (gr_rows g ! i) ! (sz_cols sz - 1))"
  shows "\<not> grid_live (grid_set_size sz g)"
proof
  assume live: "grid_live (grid_set_size sz g)"
  let ?n = "sz_cols sz" and ?cs = "vr_cells (gr_rows g ! i)"
  have i: "i < length (gr_rows g)" and len: "length ?cs = cols_of g"
    using live_rows [OF assms(1)] assms(3) by (auto simp: vrow_ok_def)
  note r = resized_row [OF i assms(4)]
  have "vrow_ok ?n (gr_rows (grid_set_size sz g) ! i)" using live_rows(2) [OF live, of i] assms(4) r(1) by simp
  then have "joins False (vec_resize ?n cell_new ?cs) False" unfolding vrow_ok_def cells_ok_def r(2) by simp
  then have j: "joins False (take ?n ?cs) False" using len assms(5) by (simp add: vec_resize_def)
  have n: "0 < ?n" using assms(2) by (simp add: size_ok_def)
  then have ne: "take ?n ?cs \<noteq> []" using len assms(5) by auto
  then have "last (take ?n ?cs) = ?cs ! (?n - 1)" using n len assms(5) by (simp add: last_conv_nth)
  then show False using joins_last [OF j ne] assms(6) by simp
qed

theorem resize_cuts_wide_characters_witness:
  "\<exists>g. grid_live g \<and> cols_of g = 3 \<and> \<not> grid_live (grid_set_size \<lparr>sz_rows = 2, sz_cols = 2\<rparr> g)"
proof -
  let ?w = "set_wide True cell_new" and ?c = "set_wide_continuation True cell_new"
  let ?r = "\<lparr>vr_cells = [cell_new, ?w, ?c], vr_wrapped = False\<rparr>"
  let ?g0 = "allocate_rows (grid_new \<lparr>sz_rows = 2, sz_cols = 3\<rparr> 5)"
  have g0: "grid_live ?g0" by (rule allocate_rows_live [OF grid_new_ok]) (simp add: size_ok_def)
  have b: "length (vc_bytes cell_new) = CONTENT_BYTES" by (simp add: cell_new_def)
  have "cell_ok ?w" by (rule cell_ok_empty) (use b in \<open>simp add: set_wide_def\<close>, simp add: len_flags)
  then have "vrow_ok 3 ?r" by (simp add: vrow_ok_def cells_ok_def len_flags)
  then have live: "grid_live (put_row 0 ?r ?g0)"
    by (intro put_row_live g0) (simp add: allocate_rows_def grid_new_def)
  moreover have "cols_of (put_row 0 ?r ?g0) = 3" "rows_of (put_row 0 ?r ?g0) = 2"
    "gr_rows (put_row 0 ?r ?g0) ! 0 = ?r"
    by (simp_all add: allocate_rows_def grid_new_def put_row_def)
  moreover have "size_ok \<lparr>sz_rows = 2, sz_cols = 2\<rparr>" by (simp add: size_ok_def)
  ultimately show ?thesis
    using resize_cuts_wide_characters [of "put_row 0 ?r ?g0" "\<lparr>sz_rows = 2, sz_cols = 2\<rparr>" 0]
    by (intro exI [of _ "put_row 0 ?r ?g0"]) (simp add: len_flags)
qed

text \<open>The percent-encoding of a path, every byte of it written as two hex digits.\<close>

definition hex_digit :: "nat \<Rightarrow> char" where
  "hex_digit n = char_of (if n < 10 then 48 + n else 55 + n)"

definition percent_encode :: "string \<Rightarrow> string" where
  "percent_encode bs =
     concat (map (\<lambda>b. [CHR ''%'', hex_digit (of_char b div 16), hex_digit (of_char b mod 16)]) bs)"

lemma hex_val_digit: "n < 16 \<Longrightarrow> hex_val (hex_digit n) = Some n"
  by (simp add: hex_val_def hex_digit_def Let_def)

lemma percent_decode_encode: "percent_decode (percent_encode bs) = concat (map (\<lambda>b. utf8 (of_char b)) bs)"
proof (induction bs)
  case (Cons b bs)
  have "of_char b < (256 :: nat)" by (rule nat_of_char_less_256)
  then have d: "of_char b div 16 < (16 :: nat)" by (simp add: less_mult_imp_div_less)
  have "hex_val (hex_digit (of_char b mod 16)) = Some (of_char b mod 16)" by (rule hex_val_digit) simp
  then show ?case
    using Cons.IH hex_val_digit [OF d] by (simp add: percent_encode_def numeral_2_eq_2)
qed (simp add: percent_encode_def)

lemma utf8_same: "utf8 (of_char b) = [b] \<longleftrightarrow> of_char b < (128 :: nat)"
  using nat_of_char_less_256 [of b] by (auto simp: utf8_def)

lemma utf8_longer: "of_char b \<ge> (128 :: nat) \<Longrightarrow> length (utf8 (of_char b)) = 2"
  using nat_of_char_less_256 [of b] by (auto simp: utf8_def simp del: nat_of_char_less_256)

text \<open>The path a shell reports with OSC 7 is decoded byte by byte into characters: a path of ASCII
  bytes comes back as it was encoded, any other one comes out garbled, as Latin-1 text.\<close>

theorem percent_decode_ascii_only:
  "percent_decode (percent_encode bs) = bs \<longleftrightarrow> (\<forall>b\<in>set bs. of_char b < (128 :: nat))"
proof
  assume "\<forall>b\<in>set bs. of_char b < (128 :: nat)"
  then show "percent_decode (percent_encode bs) = bs"
    unfolding percent_decode_encode by (induction bs) (simp_all add: utf8_same)
next
  assume "percent_decode (percent_encode bs) = bs"
  then have "length (concat (map (\<lambda>b. utf8 (of_char b)) bs)) = length bs" unfolding percent_decode_encode by simp
  moreover have "length (concat (map (\<lambda>b. utf8 (of_char b)) bs)) = length bs + length (filter (\<lambda>b. of_char b \<ge> (128 :: nat)) bs)"
  proof (induction bs)
    case (Cons b bs)
    then show ?case using utf8_longer [of b] utf8_same [of b] by (cases "of_char b < (128 :: nat)") simp_all
  qed simp
  ultimately have "filter (\<lambda>b. of_char b \<ge> (128 :: nat)) bs = []" by simp
  then show "\<forall>b\<in>set bs. of_char b < (128 :: nat)" by (auto simp: filter_empty_conv)
qed

theorem percent_decode_ascii_only_witness:
  "percent_decode (percent_encode ''/a b'') = ''/a b''"
  using percent_decode_ascii_only [of "''/a b''"] by simp

end
