(* ===== verification/Recipe.thy ===== *)
theory Recipe
  imports Ordered
begin

text \<open>
  The workspace plan (\<open>src/core/src/workspace_recipe.rs\<close>): a recipe of the project's settings
  is checked, its panes bound to slots, and the plan returned. The YAML library and the
  derived deserialisers are the parameter \<open>yaml\<close>, the SHA-256 fingerprint of the serialised plan
  is the parameter \<open>digest\<close>. Errors keep their kind, not their message.
\<close>

section \<open>Data\<close>

record slot_capabilities =
  sl_slot_id :: string
  sl_file_edit :: bool
  sl_verification :: bool
  sl_structured_result :: bool

record worktree_def =
  wt_mode :: string
  wt_name_template :: "string option"

record pane_def =
  pd_pane_key :: string
  pd_workflow_role :: string
  pd_slot_ref :: "string option"
  pd_slot_selector :: "string list option"
  pd_requires :: "string list"
  pd_region :: string
  pd_worktree :: worktree_def

record startup_action =
  ac_action_id :: string
  ac_kind :: string
  ac_pane_ref :: string

record recipe_def =
  rc_schema_version :: nat
  rc_panes :: "pane_def list"
  rc_startup_actions :: "startup_action list"

record norm_worktree =
  nw_mode :: string
  nw_name :: "string option"

record norm_pane =
  np_pane_key :: string
  np_workflow_role :: string
  np_slot_id :: string
  np_required :: "string list"
  np_region :: string
  np_worktree :: norm_worktree

record workspace_plan =
  wp_schema_version :: nat
  wp_config_fingerprint :: string
  wp_recipe_id :: string
  wp_workflow_id :: "string option"
  wp_panes :: "norm_pane list"
  wp_startup_actions :: "startup_action list"
  wp_bindings :: "(string \<times> string) list"

text \<open>What the YAML library gives of a value: a mapping by its string keys, a number, a text, a recipe.\<close>

record 'v yaml =
  y_mapping :: "'v \<Rightarrow> (string \<Rightarrow> 'v option) option"
  y_i64 :: "'v \<Rightarrow> int option"
  y_string :: "'v \<Rightarrow> string option"
  y_recipe :: "'v \<Rightarrow> recipe_def option"

type_synonym plan_digest =
  "nat \<Rightarrow> string \<Rightarrow> string option \<Rightarrow> norm_pane list \<Rightarrow> startup_action list \<Rightarrow> (string \<times> string) list \<Rightarrow> string"

definition SCHEMA_VERSION :: nat where "SCHEMA_VERSION = 1"
definition DOCUMENT_CONFIG_VERSION :: int where "DOCUMENT_CONFIG_VERSION = 1"
definition WORKFLOW_ID_TOKEN :: string where "WORKFLOW_ID_TOKEN = ''{{workflow-id}}''"
definition WINDOWS_MAX_COMPONENT_LENGTH :: nat where "WINDOWS_MAX_COMPONENT_LENGTH = 255"

definition WINDOWS_RESERVED_PATH_NAMES :: "string list" where
  "WINDOWS_RESERVED_PATH_NAMES =
     [''con'', ''prn'', ''aux'', ''nul'', ''com1'', ''com2'', ''com3'', ''com4'', ''com5'', ''com6'', ''com7'',
      ''com8'', ''com9'', ''lpt1'', ''lpt2'', ''lpt3'', ''lpt4'', ''lpt5'', ''lpt6'', ''lpt7'', ''lpt8'', ''lpt9'']"

section \<open>Identifiers and names\<close>

definition is_lower :: "char \<Rightarrow> bool" where
  "is_lower c = (97 \<le> (of_char c :: nat) \<and> (of_char c :: nat) \<le> 122)"

definition lower_or_digit :: "char \<Rightarrow> bool" where
  "lower_or_digit c = (is_lower c \<or> is_digit c)"

definition is_stable_id :: "string \<Rightarrow> bool" where
  "is_stable_id v =
     (case split_on (CHR ''-'') v of
        [] \<Rightarrow> False
      | first # parts \<Rightarrow>
          first \<noteq> [] \<and> is_lower (hd first) \<and> list_all lower_or_digit first \<and>
          list_all (\<lambda>p. p \<noteq> [] \<and> list_all lower_or_digit p) parts)"

text \<open>Whether a text holds \<open>sk-\<close> and at least twenty characters of a key after it.\<close>

definition key_char :: "char \<Rightarrow> bool" where
  "key_char c = (lower_or_digit c \<or> c = CHR ''_'' \<or> c = CHR ''-'')"

fun contains_credential :: "string \<Rightarrow> bool" where
  "contains_credential [] = False"
| "contains_credential (c # cs) =
     ((take 3 (c # cs) = ''sk-'' \<and> 20 \<le> length (takeWhile key_char (drop 3 (c # cs)))) \<or> contains_credential cs)"

definition reject_synthetic_credential :: "string \<Rightarrow> io_error + unit" where
  "reject_synthetic_credential v = ensure (\<not> contains_credential v) InvalidData"

definition require_stable_id :: "string \<Rightarrow> io_error + unit" where
  "require_stable_id v = attempt (ensure (is_stable_id v) InvalidData) (\<lambda>_. reject_synthetic_credential v)"

text \<open>\<open>str::replace\<close> of the token, and \<open>str::contains\<close>\<close>

function replace_token :: "string \<Rightarrow> string \<Rightarrow> string" where
  "replace_token rep [] = []"
| "replace_token rep (c # cs) =
     (if take 15 (c # cs) = WORKFLOW_ID_TOKEN then rep @ replace_token rep (drop 15 (c # cs))
      else c # replace_token rep cs)"
  by pat_completeness auto
termination by (relation "measure (length \<circ> snd)") auto

fun contains_text :: "string \<Rightarrow> string \<Rightarrow> bool" where
  "contains_text p [] = (p = [])"
| "contains_text p (c # cs) = (take (length p) (c # cs) = p \<or> contains_text p cs)"

definition is_windows_reserved_path_name :: "string \<Rightarrow> bool" where
  "is_windows_reserved_path_name v = (lower (hd (split_on (CHR ''.'') v)) \<in> set WINDOWS_RESERVED_PATH_NAMES)"

definition is_safe_worktree_name :: "string \<Rightarrow> bool \<Rightarrow> bool" where
  "is_safe_worktree_name v is_template =
     (if length v > WINDOWS_MAX_COMPONENT_LENGTH then False
      else let n = (if is_template then replace_token ''workflow-id'' v else v)
           in case n of
                [] \<Rightarrow> False
              | first # rest \<Rightarrow>
                  lower_or_digit first \<and> \<not> contains_text ''..'' n \<and> last n \<noteq> CHR ''.'' \<and>
                  \<not> is_windows_reserved_path_name n \<and>
                  list_all (\<lambda>b. lower_or_digit b \<or> b \<in> {CHR ''.'', CHR ''_'', CHR ''-''}) rest)"

definition normalize_worktree :: "worktree_def \<Rightarrow> string option \<Rightarrow> io_error + norm_worktree" where
  "normalize_worktree wt workflow_id =
     (if wt_mode wt = ''managed'' then
        attempt (ok_or InvalidData (wt_name_template wt)) (\<lambda>template.
        attempt (ensure (is_safe_worktree_name template True) InvalidData) (\<lambda>_.
        attempt (if contains_text WORKFLOW_ID_TOKEN template
                 then attempt (ok_or InvalidInput workflow_id) (\<lambda>wid. Inr (replace_token wid template))
                 else Inr template) (\<lambda>name.
        attempt (ensure (is_safe_worktree_name name False) InvalidData) (\<lambda>_.
        attempt (reject_synthetic_credential name) (\<lambda>_.
        Inr \<lparr>nw_mode = wt_mode wt, nw_name = Some name\<rparr>)))))
      else if wt_mode wt = ''read-only-reference'' then
        (if wt_name_template wt \<noteq> None then Inl InvalidData
         else Inr \<lparr>nw_mode = wt_mode wt, nw_name = None\<rparr>)
      else Inl InvalidData)"

section \<open>Slots\<close>

definition canonical_slot_identity :: "string \<Rightarrow> io_error + string" where
  "canonical_slot_identity v =
     (let c = lower (trim v) in attempt (require_stable_id c) (\<lambda>_. Inr c))"

type_synonym slot_catalog = "(string \<times> slot_capabilities) list"

definition add_slot :: "slot_capabilities \<Rightarrow> slot_catalog \<Rightarrow> io_error + slot_catalog" where
  "add_slot slot cat =
     attempt (canonical_slot_identity (sl_slot_id slot)) (\<lambda>cid.
     if map_of cat cid \<noteq> None then Inl InvalidData else Inr (tree_insert cid slot cat))"

definition validate_slot_catalog :: "slot_capabilities list \<Rightarrow> io_error + slot_catalog" where
  "validate_slot_catalog slots = each_try add_slot slots []"

definition append_capability :: "string \<Rightarrow> string list \<Rightarrow> io_error + string list" where
  "append_capability c target =
     (if c \<notin> {''file-edit'', ''review''} then Inl InvalidData
      else Inr (if c \<in> set target then target else target @ [c]))"

definition append_capabilities :: "string list \<Rightarrow> string list \<Rightarrow> io_error + string list" where
  "append_capabilities requested target = each_try append_capability requested target"

definition slot_supports_all :: "slot_capabilities \<Rightarrow> string list \<Rightarrow> bool" where
  "slot_supports_all slot required =
     list_all (\<lambda>c. if c = ''file-edit'' then sl_file_edit slot
                   else if c = ''review'' then sl_verification slot \<and> sl_structured_result slot
                   else False) required"

definition require_capabilities :: "slot_capabilities \<Rightarrow> string list \<Rightarrow> io_error + unit" where
  "require_capabilities slot required = ensure (slot_supports_all slot required) InvalidData"

section \<open>Panes and startup actions\<close>

definition required_of :: "pane_def \<Rightarrow> io_error + string list" where
  "required_of p =
     attempt (append_capabilities (pd_requires p) []) (\<lambda>req.
     case pd_slot_selector p of
       None \<Rightarrow> Inr req
     | Some caps \<Rightarrow> if caps = [] then Inl InvalidData else append_capabilities caps req)"

definition bind_slot :: "slot_catalog \<Rightarrow> pane_def \<Rightarrow> string list \<Rightarrow> io_error + string" where
  "bind_slot cat p required = (case (pd_slot_ref p, pd_slot_selector p) of
     (Some slot_id, None) \<Rightarrow>
       attempt (require_stable_id slot_id) (\<lambda>_.
       attempt (canonical_slot_identity slot_id) (\<lambda>cid.
       attempt (ok_or InvalidData (map_of cat cid)) (\<lambda>slot.
       attempt (require_capabilities slot required) (\<lambda>_.
       Inr (sl_slot_id slot)))))
   | (None, Some _) \<Rightarrow>
       (let matches = filter (\<lambda>s. slot_supports_all s required) (map snd cat)
        in if length matches \<noteq> 1 then Inl InvalidData else Inr (sl_slot_id (hd matches)))
   | _ \<Rightarrow> Inl InvalidData)"

text \<open>The panes done so far, with their keys, and the bindings.\<close>

type_synonym pane_acc = "string list \<times> norm_pane list \<times> (string \<times> string) list"

definition add_pane :: "slot_catalog \<Rightarrow> string option \<Rightarrow> pane_def \<Rightarrow> pane_acc \<Rightarrow> io_error + pane_acc" where
  "add_pane cat workflow_id p = (\<lambda>(keys, panes, bindings).
     attempt (require_stable_id (pd_pane_key p)) (\<lambda>_.
     attempt (require_stable_id (pd_workflow_role p)) (\<lambda>_.
     attempt (require_stable_id (pd_region p)) (\<lambda>_.
     attempt (ensure (pd_pane_key p \<notin> set keys) InvalidData) (\<lambda>_.
     attempt (required_of p) (\<lambda>required.
     attempt (bind_slot cat p required) (\<lambda>slot_id.
     attempt (normalize_worktree (pd_worktree p) workflow_id) (\<lambda>worktree.
     Inr (set_insert (pd_pane_key p) keys,
          panes @ [\<lparr>np_pane_key = pd_pane_key p, np_workflow_role = pd_workflow_role p, np_slot_id = slot_id,
                    np_required = required, np_region = pd_region p, np_worktree = worktree\<rparr>],
          tree_insert (pd_pane_key p) slot_id bindings)))))))))"

type_synonym action_acc = "string list \<times> startup_action list"

definition add_action :: "string list \<Rightarrow> norm_pane list \<Rightarrow> startup_action \<Rightarrow> action_acc \<Rightarrow> io_error + action_acc" where
  "add_action keys panes a = (\<lambda>(ids, actions).
     attempt (require_stable_id (ac_action_id a)) (\<lambda>_.
     attempt (require_stable_id (ac_pane_ref a)) (\<lambda>_.
     attempt (ensure (ac_action_id a \<notin> set ids) InvalidData) (\<lambda>_.
     attempt (ensure (ac_pane_ref a \<in> set keys) InvalidData) (\<lambda>_.
     attempt (ensure (ac_kind a \<in> {''ensure-managed-worktree'', ''ensure-slot-ready''}) InvalidData) (\<lambda>_.
     attempt (ok_or InvalidData (List.find (\<lambda>p. np_pane_key p = ac_pane_ref a) panes)) (\<lambda>target.
     if ac_kind a = ''ensure-managed-worktree'' \<and> nw_mode (np_worktree target) \<noteq> ''managed'' then Inl InvalidData
     else Inr (set_insert (ac_action_id a) ids, actions @ [a]))))))))"

section \<open>The plan\<close>

text \<open>\<open>str::parse\<close> for a 64-bit signed integer\<close>

definition parse_i64 :: "string \<Rightarrow> int option" where
  "parse_i64 s = (case s of
     CHR ''-'' # r \<Rightarrow>
       if r \<noteq> [] \<and> hd r = CHR ''+'' then None
       else map_option (\<lambda>n. - int n) (parse_uint 9223372036854775808 r)
   | _ \<Rightarrow> map_option int (parse_uint 9223372036854775807 s))"

definition is_supported_version :: "'v yaml \<Rightarrow> 'v \<Rightarrow> bool" where
  "is_supported_version y v =
     (case y_i64 y v of
        Some n \<Rightarrow> n = DOCUMENT_CONFIG_VERSION
      | None \<Rightarrow> (case y_string y v of
                   Some t \<Rightarrow> parse_i64 (trim t) = Some DOCUMENT_CONFIG_VERSION
                 | None \<Rightarrow> False))"

definition validate_document_config_version :: "'v yaml \<Rightarrow> 'v \<Rightarrow> io_error + unit" where
  "validate_document_config_version y root =
     attempt (ok_or InvalidData (y_mapping y root)) (\<lambda>m.
     let canonical = m ''config-version''; legacy = m ''config_version''
     in if canonical \<noteq> None \<and> legacy \<noteq> None then Inl InvalidData
        else case (if canonical \<noteq> None then canonical else legacy) of
               None \<Rightarrow> Inr ()
             | Some v \<Rightarrow> ensure (is_supported_version y v) InvalidData)"

definition mapping_value :: "'v yaml \<Rightarrow> 'v \<Rightarrow> string \<Rightarrow> io_error + 'v option" where
  "mapping_value y root key = attempt (ok_or InvalidData (y_mapping y root)) (\<lambda>m. Inr (m key))"

definition find_recipe :: "'v yaml \<Rightarrow> 'v \<Rightarrow> string \<Rightarrow> io_error + recipe_def" where
  "find_recipe y root recipe_id =
     attempt (mapping_value y root ''workspace-recipes'') (\<lambda>found.
     attempt (ok_or InvalidInput found) (\<lambda>recipes.
     attempt (ok_or InvalidData (y_mapping y recipes)) (\<lambda>by_id.
     attempt (ok_or InvalidInput (by_id recipe_id)) (\<lambda>v.
     ok_or InvalidData (y_recipe y v)))))"

definition normalize_recipe ::
  "plan_digest \<Rightarrow> string \<Rightarrow> string option \<Rightarrow> slot_capabilities list \<Rightarrow> recipe_def \<Rightarrow> io_error + workspace_plan" where
  "normalize_recipe digest recipe_id workflow_id slots recipe =
     attempt (ensure (rc_schema_version recipe = SCHEMA_VERSION) InvalidData) (\<lambda>_.
     attempt (ensure (rc_panes recipe \<noteq> []) InvalidData) (\<lambda>_.
     attempt (validate_slot_catalog slots) (\<lambda>cat.
     attempt (each_try (add_pane cat workflow_id) (rc_panes recipe) ([], [], [])) (\<lambda>(keys, panes, bindings).
     attempt (each_try (add_action keys panes) (rc_startup_actions recipe) ([], [])) (\<lambda>(_, actions).
     Inr \<lparr>wp_schema_version = SCHEMA_VERSION,
          wp_config_fingerprint = ''sha256:'' @ digest SCHEMA_VERSION recipe_id workflow_id panes actions bindings,
          wp_recipe_id = recipe_id, wp_workflow_id = workflow_id, wp_panes = panes,
          wp_startup_actions = actions, wp_bindings = bindings\<rparr>)))))"

definition normalize_workspace_plan ::
  "'v yaml \<Rightarrow> plan_digest \<Rightarrow> 'v \<Rightarrow> string \<Rightarrow> string option \<Rightarrow> slot_capabilities list \<Rightarrow> io_error + workspace_plan" where
  "normalize_workspace_plan y digest root recipe_id workflow_id slots =
     attempt (require_stable_id recipe_id) (\<lambda>_.
     attempt (case workflow_id of Some v \<Rightarrow> require_stable_id v | None \<Rightarrow> Inr ()) (\<lambda>_.
     attempt (validate_document_config_version y root) (\<lambda>_.
     attempt (find_recipe y root recipe_id) (\<lambda>recipe.
     normalize_recipe digest recipe_id workflow_id slots recipe))))"

end
