(* ===== verification/Workflow.thy ===== *)
theory Workflow
  imports Recipe
begin

text \<open>
  The workflow of a workspace plan (\<open>src/core/src/workflow.rs\<close>): its nodes are checked against
  the plan and put in order, each after the nodes it depends on. The deserialiser of a
  workflow is the parameter \<open>y_workflow\<close>, the rest of the YAML library that of the plan.
\<close>

section \<open>Data\<close>

record node_def =
  nd_node_id :: string
  nd_pane_ref :: string
  nd_depends_on :: "string list"
  nd_action :: string

record workflow_def =
  wd_schema_version :: nat
  wd_recipe_ref :: string
  wd_nodes :: "node_def list"

record norm_node =
  nn_node_id :: string
  nn_pane_ref :: string
  nn_depends_on :: "string list"
  nn_action :: string
  nn_idempotency_key :: string

record norm_workflow =
  nf_schema_version :: nat
  nf_workflow_id :: string
  nf_recipe_ref :: string
  nf_run_id :: string
  nf_topological_order :: "string list"
  nf_nodes :: "norm_node list"

definition WORKFLOW_SCHEMA_VERSION :: nat where "WORKFLOW_SCHEMA_VERSION = 1"
definition MAX_WORKFLOW_NODES :: nat where "MAX_WORKFLOW_NODES = 128"

definition workflow_require_stable_id :: "string \<Rightarrow> io_error + unit" where
  "workflow_require_stable_id v = ensure (length v \<le> 128 \<and> is_stable_id v) InvalidData"

section \<open>Checking the nodes\<close>

type_synonym node_map = "(string \<times> node_def) list"

definition check_dependency :: "string \<Rightarrow> string \<Rightarrow> string list \<Rightarrow> io_error + string list" where
  "check_dependency node_id d seen =
     attempt (workflow_require_stable_id d) (\<lambda>_.
     if d = node_id \<or> d \<in> set seen then Inl InvalidData else Inr (set_insert d seen))"

definition add_node :: "(string \<times> string) list \<Rightarrow> node_def \<Rightarrow> node_map \<Rightarrow> io_error + node_map" where
  "add_node bindings node defs =
     attempt (workflow_require_stable_id (nd_node_id node)) (\<lambda>_.
     attempt (workflow_require_stable_id (nd_pane_ref node)) (\<lambda>_.
     attempt (ensure (nd_action node = ''operator-dispatch'') InvalidData) (\<lambda>_.
     attempt (ensure (map_of bindings (nd_pane_ref node) \<noteq> None) InvalidData) (\<lambda>_.
     attempt (each_try (check_dependency (nd_node_id node)) (nd_depends_on node) []) (\<lambda>_.
     if map_of defs (nd_node_id node) \<noteq> None then Inl InvalidData
     else Inr (tree_insert (nd_node_id node) node defs))))))"

definition known_dependencies :: "node_map \<Rightarrow> bool" where
  "known_dependencies defs =
     list_all (\<lambda>(_, node). list_all (\<lambda>d. map_of defs d \<noteq> None) (nd_depends_on node)) defs"

section \<open>The order\<close>

type_synonym degrees = "(string \<times> nat) list"

definition indegrees :: "node_map \<Rightarrow> degrees" where
  "indegrees defs = map (\<lambda>(i, node). (i, length (nd_depends_on node))) defs"

definition dependents :: "node_map \<Rightarrow> string \<Rightarrow> string list" where
  "dependents defs n =
     sort (concat (map (\<lambda>(_, node). map (\<lambda>_. nd_node_id node) (filter (\<lambda>d. d = n) (nd_depends_on node))) defs))"

text \<open>A finished node takes one off the degree of each node that depends on it.\<close>

definition release_child :: "string \<Rightarrow> degrees \<times> string list \<Rightarrow> io_error + degrees \<times> string list" where
  "release_child child = (\<lambda>(degree, ready).
     attempt (ok_or InvalidData (map_of degree child)) (\<lambda>d.
     if d = 0 then Inl InvalidData
     else Inr (AList.update child (d - 1) degree, if d - 1 = 0 then set_insert child ready else ready)))"

definition release :: "string list \<Rightarrow> degrees \<times> string list \<Rightarrow> io_error + degrees \<times> string list" where
  "release children st = each_try release_child children st"

definition load :: "degrees \<times> string list \<Rightarrow> nat" where
  "load st = sum_list (map snd (fst st)) + length (snd st)"

lemma sum_update:
  "map_of degree c = Some d \<Longrightarrow> 0 < d \<Longrightarrow>
     Suc (sum_list (map snd (AList.update c (d - 1) degree))) = sum_list (map snd degree)"
  by (induction degree) (auto split: if_splits)

lemma release_child_load:
  assumes "release_child c st = Inr st'"
  shows "load st' \<le> load st"
proof -
  obtain degree ready where st: "st = (degree, ready)" by (cases st)
  obtain d where d: "map_of degree c = Some d" "0 < d"
    "st' = (AList.update c (d - 1) degree, if d - 1 = 0 then set_insert c ready else ready)"
    using assms unfolding st release_child_def by (auto split: if_splits)
  show ?thesis
    using sum_update [OF d(1,2)] length_set_insert [of c ready] by (auto simp: st d(3) load_def)
qed

lemma release_load: "release cs st = Inr st' \<Longrightarrow> load st' \<le> load st"
  unfolding release_def
proof (induction cs arbitrary: st)
  case (Cons c cs)
  then obtain st1 where "release_child c st = Inr st1" "each_try release_child cs st1 = Inr st'" by auto
  with Cons.IH release_child_load show ?case by (blast intro: order_trans)
qed simp

text \<open>Kahn's algorithm, always taking the least node that is ready.\<close>

function order_nodes :: "(string \<Rightarrow> string list) \<Rightarrow> degrees \<Rightarrow> string list \<Rightarrow> string list \<Rightarrow> io_error + string list" where
  "order_nodes children degree [] order = Inr order"
| "order_nodes children degree (n # ready) order =
     (case release (children n) (degree, ready) of
        Inl e \<Rightarrow> Inl e
      | Inr (degree', ready') \<Rightarrow> order_nodes children degree' ready' (order @ [n]))"
  by pat_completeness auto
termination
  by (relation "measure (\<lambda>(_, degree, ready, _). load (degree, ready))")
     (auto dest!: release_load simp: load_def)

definition topological_order :: "node_map \<Rightarrow> io_error + string list" where
  "topological_order defs =
     (let degree = indegrees defs;
          ready = map fst (filter (\<lambda>(_, d). d = 0) degree)
      in attempt (order_nodes (dependents defs) degree ready []) (\<lambda>order.
         if length order \<noteq> length defs then Inl InvalidData else Inr order))"

section \<open>The workflow\<close>

definition norm_node_of :: "(string \<times> string) list \<Rightarrow> string \<Rightarrow> node_map \<Rightarrow> string \<Rightarrow> norm_node option" where
  "norm_node_of bindings run_id defs i =
     do {
       node \<leftarrow> map_of defs i;
       pane \<leftarrow> map_of bindings (nd_pane_ref node);
       Some \<lparr>nn_node_id = nd_node_id node, nn_pane_ref = pane, nn_depends_on = sort (nd_depends_on node),
             nn_action = nd_action node, nn_idempotency_key = run_id @ '':'' @ i\<rparr>
     }"

definition find_workflow ::
  "'v yaml \<Rightarrow> ('v \<Rightarrow> workflow_def option) \<Rightarrow> 'v \<Rightarrow> string \<Rightarrow> io_error + workflow_def" where
  "find_workflow y y_workflow root workflow_id =
     attempt (ok_or InvalidData (y_mapping y root)) (\<lambda>m.
     attempt (ok_or InvalidInput (m ''workflows'')) (\<lambda>ws.
     attempt (ok_or InvalidData (y_mapping y ws)) (\<lambda>by_id.
     attempt (ok_or InvalidInput (by_id workflow_id)) (\<lambda>v.
     ok_or InvalidData (y_workflow v)))))"

text \<open>The outer option is the panic of an index that is not there.\<close>

definition normalize_definition ::
  "workspace_plan \<Rightarrow> string \<Rightarrow> string \<Rightarrow> workflow_def \<Rightarrow> (io_error + norm_workflow) option" where
  "normalize_definition plan workflow_id run_id d =
     (case attempt (ensure (wd_schema_version d = WORKFLOW_SCHEMA_VERSION) InvalidData) (\<lambda>_.
           attempt (workflow_require_stable_id (wd_recipe_ref d)) (\<lambda>_.
           attempt (ensure (wd_recipe_ref d = wp_recipe_id plan) InvalidData) (\<lambda>_.
           attempt (ensure (wd_nodes d \<noteq> [] \<and> length (wd_nodes d) \<le> MAX_WORKFLOW_NODES) InvalidData) (\<lambda>_.
           attempt (each_try (add_node (wp_bindings plan)) (wd_nodes d) []) (\<lambda>defs.
           attempt (ensure (known_dependencies defs) InvalidData) (\<lambda>_.
           attempt (topological_order defs) (\<lambda>order. Inr (defs, order)))))))) of
        Inl e \<Rightarrow> Some (Inl e)
      | Inr (defs, order) \<Rightarrow>
          map_option (\<lambda>nodes.
            Inr \<lparr>nf_schema_version = WORKFLOW_SCHEMA_VERSION, nf_workflow_id = workflow_id,
                 nf_recipe_ref = wd_recipe_ref d, nf_run_id = run_id, nf_topological_order = order, nf_nodes = nodes\<rparr>)
            (those (map (norm_node_of (wp_bindings plan) run_id defs) order)))"

definition normalize_workflow ::
  "'v yaml \<Rightarrow> ('v \<Rightarrow> workflow_def option) \<Rightarrow> 'v \<Rightarrow> string \<Rightarrow> string \<Rightarrow> workspace_plan \<Rightarrow> (io_error + norm_workflow) option" where
  "normalize_workflow y y_workflow root workflow_id run_id plan =
     (case attempt (workflow_require_stable_id workflow_id) (\<lambda>_.
           attempt (workflow_require_stable_id run_id) (\<lambda>_.
           find_workflow y y_workflow root workflow_id)) of
        Inl e \<Rightarrow> Some (Inl e)
      | Inr d \<Rightarrow> normalize_definition plan workflow_id run_id d)"

text \<open>\<open>normalize_workspace_plan_payload\<close>: a plan, with its workflow when there is a run.\<close>

definition normalize_payload ::
  "'v yaml \<Rightarrow> ('v \<Rightarrow> workflow_def option) \<Rightarrow> plan_digest \<Rightarrow> 'v \<Rightarrow> string \<Rightarrow> string option \<Rightarrow> string option \<Rightarrow>
   slot_capabilities list \<Rightarrow> (io_error + (workspace_plan \<times> norm_workflow option)) option" where
  "normalize_payload y y_workflow digest root recipe_id workflow_id run_id slots =
     (if run_id \<noteq> None \<and> workflow_id = None then Some (Inl InvalidInput)
      else case normalize_workspace_plan y digest root recipe_id workflow_id slots of
             Inl e \<Rightarrow> Some (Inl e)
           | Inr plan \<Rightarrow>
               (case (run_id, workflow_id) of
                  (None, _) \<Rightarrow> Some (Inr (plan, None))
                | (Some r, Some w) \<Rightarrow>
                    map_option (\<lambda>res. attempt res (\<lambda>f. Inr (plan, Some f)))
                      (normalize_workflow y y_workflow root w r plan)
                | (Some _, None) \<Rightarrow> None))"

end
