(* ===== verification/Recipe_Props.thy ===== *)
theory Recipe_Props
  imports Recipe
begin

text \<open>
  What holds of a workspace plan: its panes are the panes of the recipe, each bound to one slot
  that can do what the pane needs; its actions aim at its panes; the names of its worktrees are
  single path components.
\<close>

section \<open>The catalog of slots\<close>

lemma tree_insert_fresh:
  "map_of es k = None \<Longrightarrow> length (filter P (map snd (tree_insert k v es))) =
     length (filter P (map snd es)) + (if P v then 1 else 0)"
  by (induction es) (auto split: if_splits)

definition catalog_of :: "slot_capabilities list \<Rightarrow> slot_catalog \<Rightarrow> bool" where
  "catalog_of slots cat = ((\<forall>P. length (filter P (map snd cat)) = length (filter P slots)) \<and>
     (\<forall>k s. map_of cat k = Some s \<longrightarrow> s \<in> set slots \<and> canonical_slot_identity (sl_slot_id s) = Inr k))"

lemma add_slot_catalog:
  assumes "catalog_of slots cat" "add_slot s cat = Inr cat'"
  shows "catalog_of (slots @ [s]) cat'"
proof -
  obtain k where k: "canonical_slot_identity (sl_slot_id s) = Inr k" "map_of cat k = None" "cat' = tree_insert k s cat"
    using assms(2) by (auto simp: add_slot_def split: if_splits)
  then show ?thesis
    using assms(1) tree_insert_fresh [OF k(2)] by (auto simp: catalog_of_def)
qed

lemma validate_slot_catalog_sound:
  assumes "validate_slot_catalog slots = Inr cat"
  shows "catalog_of slots cat"
proof (rule each_try_inv [where I = catalog_of, OF assms [unfolded validate_slot_catalog_def]])
  show "catalog_of [] []" by (simp add: catalog_of_def)
qed (rule add_slot_catalog)

section \<open>Names of worktrees\<close>

lemma contains_text_infix: "contains_text p s \<longleftrightarrow> (\<exists>xs ys. s = xs @ p @ ys)"
proof (induction s)
  case Nil
  then show ?case by auto
next
  case (Cons c cs)
  have "take (length p) (c # cs) = p \<longleftrightarrow> (\<exists>ys. c # cs = p @ ys)"
    by (metis append_eq_conv_conj append_take_drop_id)
  with Cons show ?case by (auto simp: Cons_eq_append_conv)
qed

text \<open>A name that is one component of a path, on Windows too.\<close>

definition path_component :: "string \<Rightarrow> bool" where
  "path_component n = (n \<noteq> [] \<and> length n \<le> 255 \<and>
     (\<forall>c\<in>set n. lower_or_digit c \<or> c \<in> {CHR ''.'', CHR ''_'', CHR ''-''}) \<and>
     lower_or_digit (hd n) \<and> last n \<noteq> CHR ''.'' \<and> \<not> contains_text ''..'' n \<and>
     \<not> is_windows_reserved_path_name n)"

lemma safe_name_component: "is_safe_worktree_name n False \<longleftrightarrow> path_component n"
  by (auto simp: is_safe_worktree_name_def path_component_def WINDOWS_MAX_COMPONENT_LENGTH_def list_all_iff
      split: list.split)

lemma normalize_worktree_sound:
  assumes "normalize_worktree wt wid = Inr nw"
  shows "nw_mode nw = wt_mode wt \<and>
    (case nw_name nw of
       None \<Rightarrow> nw_mode nw = ''read-only-reference''
     | Some n \<Rightarrow> nw_mode nw = ''managed'' \<and> path_component n \<and> \<not> contains_credential n)"
  using assms
  by (auto simp: normalize_worktree_def reject_synthetic_credential_def safe_name_component split: if_splits)

section \<open>Panes\<close>

text \<open>A pane of the plan stands for a pane of the recipe.\<close>

definition resolves :: "slot_catalog \<Rightarrow> string option \<Rightarrow> pane_def \<Rightarrow> norm_pane \<Rightarrow> bool" where
  "resolves cat wid d p =
     (np_pane_key p = pd_pane_key d \<and> np_workflow_role p = pd_workflow_role d \<and> np_region p = pd_region d \<and>
      is_stable_id (np_pane_key p) \<and> required_of d = Inr (np_required p) \<and>
      bind_slot cat d (np_required p) = Inr (np_slot_id p) \<and>
      normalize_worktree (pd_worktree d) wid = Inr (np_worktree p))"

definition panes_ok :: "slot_catalog \<Rightarrow> string option \<Rightarrow> pane_def list \<Rightarrow> pane_acc \<Rightarrow> bool" where
  "panes_ok cat wid ds = (\<lambda>(keys, panes, bindings).
     set keys = np_pane_key ` set panes \<and> distinct (map np_pane_key panes) \<and>
     list_all2 (resolves cat wid) ds panes \<and>
     map_of bindings = map_of (map (\<lambda>p. (np_pane_key p, np_slot_id p)) panes) \<and>
     sorted_wrt (<) (map fst bindings))"

lemma map_of_snoc_fresh: "k \<notin> fst ` set xs \<Longrightarrow> map_of (xs @ [(k, v)]) = (map_of xs)(k \<mapsto> v)"
  using map_of_eq_None_iff [of xs k] by (auto simp: map_add_def fun_eq_iff split: option.split)

lemma add_pane_ok:
  assumes "panes_ok cat wid ds acc" "add_pane cat wid d acc = Inr acc'"
  shows "panes_ok cat wid (ds @ [d]) acc'"
proof -
  obtain keys panes bindings where acc: "acc = (keys, panes, bindings)" by (cases acc)
  from assms(2) obtain required slot_id worktree where
    ok: "is_stable_id (pd_pane_key d)" "pd_pane_key d \<notin> set keys" "required_of d = Inr required"
      "bind_slot cat d required = Inr slot_id" "normalize_worktree (pd_worktree d) wid = Inr worktree"
    and acc': "acc' = (set_insert (pd_pane_key d) keys,
          panes @ [\<lparr>np_pane_key = pd_pane_key d, np_workflow_role = pd_workflow_role d, np_slot_id = slot_id,
                    np_required = required, np_region = pd_region d, np_worktree = worktree\<rparr>],
          tree_insert (pd_pane_key d) slot_id bindings)"
    unfolding acc add_pane_def require_stable_id_def by auto
  have fresh: "pd_pane_key d \<notin> fst ` set (map (\<lambda>p. (np_pane_key p, np_slot_id p)) panes)"
    using assms(1) ok(2) by (auto simp: acc panes_ok_def)
  then show ?thesis
    using assms(1) ok map_of_snoc_fresh [OF fresh]
    by (auto simp: acc acc' panes_ok_def resolves_def sorted_tree_insert intro!: list_all2_appendI)
qed

lemma panes_sound:
  assumes "each_try (add_pane cat wid) ds ([], [], []) = Inr acc"
  shows "panes_ok cat wid ds acc"
proof (rule each_try_inv [where I = "panes_ok cat wid", OF assms])
  show "panes_ok cat wid [] ([], [], [])" by (simp add: panes_ok_def)
qed (rule add_pane_ok)

section \<open>Capabilities\<close>

lemma append_capabilities_set:
  assumes "append_capabilities requested target = Inr out"
  shows "set out = set target \<union> set requested"
proof -
  have "set requested \<union> set target = set out"
    using assms unfolding append_capabilities_def
    by (rule each_try_inv [where I = "\<lambda>pre out. set pre \<union> set target = set out"])
       (auto simp: append_capability_def split: if_splits)
  then show ?thesis by blast
qed

lemma required_of_set:
  assumes "required_of d = Inr req"
  shows "set req = set (pd_requires d) \<union> (case pd_slot_selector d of None \<Rightarrow> {} | Some caps \<Rightarrow> set caps)"
  using assms append_capabilities_set
  by (auto simp: required_of_def split: option.splits if_splits dest!: append_capabilities_set)

text \<open>Where a pane is bound: to the slot it names, or to the only slot that fits its selector.\<close>

lemma bind_slot_sound:
  assumes "catalog_of slots cat" "bind_slot cat d req = Inr slot_id"
  shows "\<exists>s\<in>set slots. sl_slot_id s = slot_id \<and> slot_supports_all s req \<and>
    (pd_slot_selector d \<noteq> None \<longrightarrow> filter (\<lambda>s. slot_supports_all s req) slots = [s])"
proof (cases "pd_slot_ref d")
  case (Some ref)
  with assms show ?thesis
    by (auto simp: bind_slot_def require_capabilities_def catalog_of_def split: option.splits)
next
  case None
  let ?P = "\<lambda>s. slot_supports_all s req"
  obtain caps where sel: "pd_slot_selector d = Some caps" "length (filter ?P (map snd cat)) = 1"
    "slot_id = sl_slot_id (hd (filter ?P (map snd cat)))"
    using assms(2) None by (auto simp: bind_slot_def Let_def split: option.splits if_splits)
  obtain s where s: "filter ?P (map snd cat) = [s]"
    using sel(2) by (cases "filter ?P (map snd cat)") auto
  have "length (filter ?P slots) = 1" using assms(1) sel(2) unfolding catalog_of_def by metis
  then obtain t where t: "filter ?P slots = [t]" by (cases "filter ?P slots") auto
  have "length (filter (\<lambda>x. ?P x \<and> x = s) (map snd cat)) = length (filter (\<lambda>x. ?P x \<and> x = s) slots)"
    using assms(1) unfolding catalog_of_def by blast
  then have "length (filter (\<lambda>x. x = s) (filter ?P (map snd cat))) = length (filter (\<lambda>x. x = s) (filter ?P slots))"
    by (simp add: conj_commute)
  then have "s = t" unfolding s t by (simp split: if_splits)
  moreover have "t \<in> set slots \<and> ?P t" using filter_eq_ConsD [OF t] by auto
  ultimately show ?thesis using sel(3) s t by auto
qed

section \<open>Startup actions\<close>

definition actions_ok :: "norm_pane list \<Rightarrow> startup_action list \<Rightarrow> action_acc \<Rightarrow> bool" where
  "actions_ok panes done_so_far = (\<lambda>(ids, actions).
     done_so_far = actions \<and> set ids = ac_action_id ` set actions \<and> distinct (map ac_action_id actions) \<and>
     (\<forall>a\<in>set actions. \<exists>p\<in>set panes. np_pane_key p = ac_pane_ref a \<and>
        (ac_kind a = ''ensure-managed-worktree'' \<longrightarrow> nw_mode (np_worktree p) = ''managed'')))"

lemma add_action_ok:
  assumes "actions_ok panes as acc" "add_action keys panes a acc = Inr acc'"
  shows "actions_ok panes (as @ [a]) acc'"
proof -
  obtain ids actions where acc: "acc = (ids, actions)" by (cases acc)
  from assms(2) obtain target where t: "ac_action_id a \<notin> set ids"
    "List.find (\<lambda>p. np_pane_key p = ac_pane_ref a) panes = Some target"
    "ac_kind a = ''ensure-managed-worktree'' \<longrightarrow> nw_mode (np_worktree target) = ''managed''"
    "acc' = (set_insert (ac_action_id a) ids, actions @ [a])"
    unfolding acc add_action_def by (auto split: if_splits)
  have "target \<in> set panes \<and> np_pane_key target = ac_pane_ref a"
    using t(2) by (auto simp: find_Some_iff)
  with assms(1) t(1,3,4) show ?thesis by (auto simp: acc actions_ok_def)
qed

lemma actions_sound:
  assumes "each_try (add_action keys panes) as ([], []) = Inr acc"
  shows "actions_ok panes as acc"
proof (rule each_try_inv [where I = "actions_ok panes", OF assms])
  show "actions_ok panes [] ([], [])" by (simp add: actions_ok_def)
qed (rule add_action_ok)

section \<open>The plan\<close>

lemma recipe_parts:
  assumes "normalize_recipe digest rid wid slots recipe = Inr plan"
  shows "\<exists>cat keys ids. rc_panes recipe \<noteq> [] \<and> catalog_of slots cat \<and>
    panes_ok cat wid (rc_panes recipe) (keys, wp_panes plan, wp_bindings plan) \<and>
    actions_ok (wp_panes plan) (rc_startup_actions recipe) (ids, wp_startup_actions plan) \<and>
    wp_recipe_id plan = rid \<and> wp_workflow_id plan = wid"
proof -
  from assms obtain cat where cat: "rc_panes recipe \<noteq> []" "validate_slot_catalog slots = Inr cat"
    unfolding normalize_recipe_def by auto
  with assms obtain keys panes bindings where ps:
    "each_try (add_pane cat wid) (rc_panes recipe) ([], [], []) = Inr (keys, panes, bindings)"
    unfolding normalize_recipe_def by auto
  with assms cat obtain ids actions where as:
    "each_try (add_action keys panes) (rc_startup_actions recipe) ([], []) = Inr (ids, actions)"
    unfolding normalize_recipe_def by auto
  have plan: "wp_panes plan = panes" "wp_bindings plan = bindings" "wp_startup_actions plan = actions"
    "wp_recipe_id plan = rid" "wp_workflow_id plan = wid"
    using assms cat ps as unfolding normalize_recipe_def by auto
  show ?thesis
    using cat(1) validate_slot_catalog_sound [OF cat(2)] panes_sound [OF ps] actions_sound [OF as]
    by (intro exI [of _ cat] exI [of _ keys] exI [of _ ids]) (simp add: plan)
qed

lemma plan_parts:
  assumes "normalize_workspace_plan y digest root rid wid slots = Inr plan"
  shows "\<exists>recipe cat keys ids. find_recipe y root rid = Inr recipe \<and> rc_panes recipe \<noteq> [] \<and> catalog_of slots cat \<and>
    panes_ok cat wid (rc_panes recipe) (keys, wp_panes plan, wp_bindings plan) \<and>
    actions_ok (wp_panes plan) (rc_startup_actions recipe) (ids, wp_startup_actions plan) \<and>
    wp_recipe_id plan = rid \<and> wp_workflow_id plan = wid"
proof -
  obtain recipe where "find_recipe y root rid = Inr recipe" "normalize_recipe digest rid wid slots recipe = Inr plan"
    using assms unfolding normalize_workspace_plan_def by auto
  with recipe_parts show ?thesis by blast
qed

text \<open>C30: A workspace plan that comes out is sound: it has panes, with different keys; each is bound,
  the same way in the table of bindings, to one of the given slots, which has every capability
  the pane needs; a worktree to be made has a name that is a single path component, also on
  Windows, and holds no key; every startup action aims at a pane of the plan, and a worktree is
  only made for a pane that manages one.\<close>

theorem plan_is_sound:
  assumes "normalize_workspace_plan y digest root rid wid slots = Inr plan"
  shows "wp_panes plan \<noteq> [] \<and> distinct (map np_pane_key (wp_panes plan)) \<and>
    (\<forall>k s. map_of (wp_bindings plan) k = Some s \<longleftrightarrow>
       (\<exists>p\<in>set (wp_panes plan). np_pane_key p = k \<and> np_slot_id p = s)) \<and>
    (\<forall>p\<in>set (wp_panes plan).
       (\<exists>s\<in>set slots. sl_slot_id s = np_slot_id p \<and> slot_supports_all s (np_required p)) \<and>
       (\<forall>n. nw_name (np_worktree p) = Some n \<longrightarrow> path_component n \<and> \<not> contains_credential n)) \<and>
    distinct (map ac_action_id (wp_startup_actions plan)) \<and>
    (\<forall>a\<in>set (wp_startup_actions plan). \<exists>p\<in>set (wp_panes plan). np_pane_key p = ac_pane_ref a \<and>
       (ac_kind a = ''ensure-managed-worktree'' \<longrightarrow> nw_name (np_worktree p) \<noteq> None))"
proof -
  obtain recipe :: recipe_def and cat keys ids where
    ne: "rc_panes recipe \<noteq> []" and cat: "catalog_of slots cat" and
    ps: "panes_ok cat wid (rc_panes recipe) (keys, wp_panes plan, wp_bindings plan)" and
    acts: "actions_ok (wp_panes plan) (rc_startup_actions recipe) (ids, wp_startup_actions plan)"
    using plan_parts [OF assms] by (elim exE conjE) (rule that)
  have dist: "distinct (map np_pane_key (wp_panes plan))" and l2: "list_all2 (resolves cat wid) (rc_panes recipe) (wp_panes plan)"
    and b: "map_of (wp_bindings plan) = map_of (map (\<lambda>p. (np_pane_key p, np_slot_id p)) (wp_panes plan))"
    using ps by (simp_all add: panes_ok_def)
  have each: "\<exists>d. resolves cat wid d p" if "p \<in> set (wp_panes plan)" for p
    using l2 that by (auto simp: list_all2_conv_all_nth in_set_conv_nth)
  have wt: "\<exists>wt. normalize_worktree wt wid = Inr (np_worktree p)" if "p \<in> set (wp_panes plan)" for p
    using each [OF that] by (auto simp: resolves_def)
  have "wp_panes plan \<noteq> []" using ne list_all2_lengthD [OF l2] by auto
  moreover have "map_of (wp_bindings plan) k = Some s \<longleftrightarrow>
      (\<exists>p\<in>set (wp_panes plan). np_pane_key p = k \<and> np_slot_id p = s)" for k s
  proof -
    have "distinct (map fst (map (\<lambda>p. (np_pane_key p, np_slot_id p)) (wp_panes plan)))"
      using dist by (simp add: comp_def)
    then show ?thesis unfolding b by (auto simp: map_of_eq_Some_iff)
  qed
  moreover have "\<exists>s\<in>set slots. sl_slot_id s = np_slot_id p \<and> slot_supports_all s (np_required p)"
    if "p \<in> set (wp_panes plan)" for p
    using each [OF that] unfolding resolves_def by (blast dest: bind_slot_sound [OF cat])
  moreover have "path_component n \<and> \<not> contains_credential n"
    if "p \<in> set (wp_panes plan)" "nw_name (np_worktree p) = Some n" for p n
    using wt [OF that(1)] that(2) by (auto dest: normalize_worktree_sound)
  moreover have "\<exists>p\<in>set (wp_panes plan). np_pane_key p = ac_pane_ref a \<and>
       (ac_kind a = ''ensure-managed-worktree'' \<longrightarrow> nw_name (np_worktree p) \<noteq> None)"
    if a: "a \<in> set (wp_startup_actions plan)" for a
  proof -
    have "\<exists>p\<in>set (wp_panes plan). np_pane_key p = ac_pane_ref a \<and>
        (ac_kind a = ''ensure-managed-worktree'' \<longrightarrow> nw_mode (np_worktree p) = ''managed'')"
      using acts a by (simp add: actions_ok_def)
    then obtain p where p: "p \<in> set (wp_panes plan)" "np_pane_key p = ac_pane_ref a"
      "ac_kind a = ''ensure-managed-worktree'' \<longrightarrow> nw_mode (np_worktree p) = ''managed''" by blast
    moreover have "nw_mode (np_worktree p) = ''managed'' \<Longrightarrow> nw_name (np_worktree p) \<noteq> None"
      using wt [OF p(1)] by (auto dest!: normalize_worktree_sound split: option.splits)
    ultimately show ?thesis by blast
  qed
  moreover have "distinct (map ac_action_id (wp_startup_actions plan))" using acts by (simp add: actions_ok_def)
  ultimately show ?thesis using dist by blast
qed

text \<open>An example: two panes, bound to two slots, one by a selector.\<close>

definition demo_yaml :: "nat yaml" where
  "demo_yaml =
     \<lparr>y_mapping = (\<lambda>v. if v = 0 then Some (\<lambda>k. if k = ''workspace-recipes'' then Some 1 else None)
                       else if v = 1 then Some (\<lambda>k. if k = ''fix'' then Some 2 else None) else None),
      y_i64 = (\<lambda>_. None), y_string = (\<lambda>_. None),
      y_recipe = (\<lambda>v. if v = 2 then Some
        \<lparr>rc_schema_version = 1,
         rc_panes =
           [\<lparr>pd_pane_key = ''code'', pd_workflow_role = ''a'', pd_slot_ref = Some ''w-1'', pd_slot_selector = None,
             pd_requires = [''file-edit''], pd_region = ''b'',
             pd_worktree = \<lparr>wt_mode = ''managed'', wt_name_template = Some ''wt''\<rparr>\<rparr>,
            \<lparr>pd_pane_key = ''check'', pd_workflow_role = ''a'', pd_slot_ref = None, pd_slot_selector = Some [''review''],
             pd_requires = [], pd_region = ''c'',
             pd_worktree = \<lparr>wt_mode = ''read-only-reference'', wt_name_template = None\<rparr>\<rparr>],
         rc_startup_actions = [\<lparr>ac_action_id = ''m'', ac_kind = ''ensure-managed-worktree'', ac_pane_ref = ''code''\<rparr>]\<rparr>
        else None)\<rparr>"

definition demo_slots :: "slot_capabilities list" where
  "demo_slots =
     [\<lparr>sl_slot_id = ''w-1'', sl_file_edit = True, sl_verification = False, sl_structured_result = False\<rparr>,
      \<lparr>sl_slot_id = ''W-2'', sl_file_edit = False, sl_verification = True, sl_structured_result = True\<rparr>]"

lemma demo_plan:
  "map_sum id wp_bindings (normalize_workspace_plan demo_yaml (\<lambda>_ _ _ _ _ _. []) 0 ''fix'' None demo_slots) =
     Inr [(''check'', ''W-2''), (''code'', ''w-1'')]"
  by code_simp

lemma demo_plan_ok:
  obtains plan where "normalize_workspace_plan demo_yaml (\<lambda>_ _ _ _ _ _. []) 0 ''fix'' None demo_slots = Inr plan"
    "wp_bindings plan = [(''check'', ''W-2''), (''code'', ''w-1'')]"
  using demo_plan by (cases "normalize_workspace_plan demo_yaml (\<lambda>_ _ _ _ _ _. []) 0 ''fix'' None demo_slots") auto

theorem plan_is_sound_witness:
  "\<exists>plan. normalize_workspace_plan demo_yaml (\<lambda>_ _ _ _ _ _. []) 0 ''fix'' None demo_slots = Inr plan \<and>
    (\<exists>p\<in>set (wp_panes plan). np_pane_key p = ''check'' \<and> np_slot_id p = ''W-2'')"
proof -
  obtain plan where p: "normalize_workspace_plan demo_yaml (\<lambda>_ _ _ _ _ _. []) 0 ''fix'' None demo_slots = Inr plan"
    "wp_bindings plan = [(''check'', ''W-2''), (''code'', ''w-1'')]" by (rule demo_plan_ok)
  have "map_of (wp_bindings plan) ''check'' = Some ''W-2''" by (simp add: p(2))
  with plan_is_sound [OF p(1)] p(1) show ?thesis by blast
qed

text \<open>A pane that asks for a slot by capabilities is bound only when exactly one of the given slots
  has them all.\<close>

theorem selector_is_unambiguous:
  assumes "normalize_workspace_plan y digest root rid wid slots = Inr plan" "find_recipe y root rid = Inr recipe"
    "i < length (wp_panes plan)" "pd_slot_selector (rc_panes recipe ! i) \<noteq> None"
  shows "\<exists>s. filter (\<lambda>s. slot_supports_all s (np_required (wp_panes plan ! i))) slots = [s] \<and>
    sl_slot_id s = np_slot_id (wp_panes plan ! i)"
proof -
  obtain cat keys where cat: "catalog_of slots cat" and
    ps: "panes_ok cat wid (rc_panes recipe) (keys, wp_panes plan, wp_bindings plan)"
    using plan_parts [OF assms(1)] assms(2) by auto
  then have "resolves cat wid (rc_panes recipe ! i) (wp_panes plan ! i)"
    using assms(3) by (simp add: panes_ok_def list_all2_conv_all_nth)
  then have "bind_slot cat (rc_panes recipe ! i) (np_required (wp_panes plan ! i)) = Inr (np_slot_id (wp_panes plan ! i))"
    by (simp add: resolves_def)
  from bind_slot_sound [OF cat this] assms(4) show ?thesis by blast
qed

theorem selector_is_unambiguous_witness:
  "\<exists>plan (recipe :: recipe_def). normalize_workspace_plan demo_yaml (\<lambda>_ _ _ _ _ _. []) 0 ''fix'' None demo_slots = Inr plan \<and>
    pd_slot_selector (rc_panes recipe ! 1) = Some [''review''] \<and>
    (\<exists>s. filter (\<lambda>s. slot_supports_all s (np_required (wp_panes plan ! 1))) demo_slots = [s])"
proof -
  obtain plan where p: "normalize_workspace_plan demo_yaml (\<lambda>_ _ _ _ _ _. []) 0 ''fix'' None demo_slots = Inr plan"
    "wp_bindings plan = [(''check'', ''W-2''), (''code'', ''w-1'')]" by (rule demo_plan_ok)
  have r: "\<exists>recipe. find_recipe demo_yaml 0 ''fix'' = Inr recipe \<and> length (rc_panes recipe) = 2 \<and>
      pd_slot_selector (rc_panes recipe ! 1) = Some [''review'']"
    by (simp add: find_recipe_def mapping_value_def demo_yaml_def)
  then obtain recipe where recipe: "find_recipe demo_yaml 0 ''fix'' = Inr recipe" "length (rc_panes recipe) = 2"
    "pd_slot_selector (rc_panes recipe ! 1) = Some [''review'']" by blast
  have "length (wp_panes plan) = 2"
    using plan_parts [OF p(1)] recipe(1,2) by (auto simp: panes_ok_def dest!: list_all2_lengthD)
  then show ?thesis
    using selector_is_unambiguous [OF p(1) recipe(1), of 1] recipe(3) p(1) by auto
qed

end
