(* ===== verification/Workflow_Props.thy ===== *)
theory Workflow_Props
  imports Workflow Recipe_Props
begin

text \<open>
  What holds of the order of a workflow: Kahn's algorithm never fails on its own account, it
  orders every node after its dependencies exactly when the dependencies have no cycle, and
  it always takes the least node that can go next, so the order is the only one of its kind.
\<close>

section \<open>The nodes\<close>

text \<open>What the checks leave: different nodes in order, under their own names, with known dependencies.\<close>

definition ids_of :: "node_map \<Rightarrow> string set" where
  "ids_of defs = fst ` set defs"

definition deps :: "node_map \<Rightarrow> string \<Rightarrow> string list" where
  "deps defs i = (case map_of defs i of None \<Rightarrow> [] | Some node \<Rightarrow> nd_depends_on node)"

definition graph_ok :: "node_map \<Rightarrow> bool" where
  "graph_ok defs =
     (sorted_wrt (<) (map fst defs) \<and> (\<forall>(i, node)\<in>set defs. nd_node_id node = i \<and> distinct (nd_depends_on node) \<and>
        set (nd_depends_on node) \<subseteq> ids_of defs))"

lemma graph_okD:
  assumes "graph_ok defs"
  shows "distinct (map fst defs)" "sorted_wrt (<) (map fst defs)"
    "i \<in> ids_of defs \<Longrightarrow> \<exists>node. (i, node) \<in> set defs \<and> map_of defs i = Some node \<and> nd_node_id node = i \<and>
       distinct (nd_depends_on node) \<and> set (nd_depends_on node) \<subseteq> ids_of defs"
    "distinct (deps defs i)" "set (deps defs i) \<subseteq> ids_of defs" "deps defs i \<noteq> [] \<Longrightarrow> i \<in> ids_of defs"
proof -
  show s: "sorted_wrt (<) (map fst defs)" using assms by (simp add: graph_ok_def)
  then show d: "distinct (map fst defs)" by (rule sorted_keys_distinct)
  show node: "\<exists>node. (i, node) \<in> set defs \<and> map_of defs i = Some node \<and> nd_node_id node = i \<and>
       distinct (nd_depends_on node) \<and> set (nd_depends_on node) \<subseteq> ids_of defs" if "i \<in> ids_of defs" for i
  proof -
    from that obtain node where n: "(i, node) \<in> set defs" by (auto simp: ids_of_def)
    moreover have "map_of defs i = Some node" using n d by simp
    moreover have "case (i, node) of (i, node) \<Rightarrow> nd_node_id node = i \<and> distinct (nd_depends_on node) \<and>
        set (nd_depends_on node) \<subseteq> ids_of defs"
      using assms n unfolding graph_ok_def by blast
    ultimately show ?thesis by auto
  qed
  have none: "map_of defs i = None" if "i \<notin> ids_of defs" for i
    using that by (simp add: ids_of_def map_of_eq_None_iff)
  show "distinct (deps defs i)" "set (deps defs i) \<subseteq> ids_of defs"
    using node [of i] none [of i] by (cases "i \<in> ids_of defs"; auto simp: deps_def)+
  show "deps defs i \<noteq> [] \<Longrightarrow> i \<in> ids_of defs"
    using none [of i] by (cases "i \<in> ids_of defs") (simp_all add: deps_def)
qed

lemma check_dependency_ok:
  "check_dependency i d seen = Inr seen' \<Longrightarrow> d \<noteq> i \<and> d \<notin> set seen \<and> set seen' = insert d (set seen)"
  by (auto simp: check_dependency_def split: if_splits)

lemma add_node_ok:
  assumes "add_node bindings node defs = Inr defs'"
  shows "defs' = tree_insert (nd_node_id node) node defs \<and> map_of defs (nd_node_id node) = None \<and>
    map_of bindings (nd_pane_ref node) \<noteq> None \<and> is_stable_id (nd_node_id node) \<and>
    nd_node_id node \<notin> set (nd_depends_on node) \<and> distinct (nd_depends_on node)"
proof -
  obtain seen where s: "each_try (check_dependency (nd_node_id node)) (nd_depends_on node) [] = Inr seen"
    and rest: "map_of defs (nd_node_id node) = None" "defs' = tree_insert (nd_node_id node) node defs"
      "map_of bindings (nd_pane_ref node) \<noteq> None" "is_stable_id (nd_node_id node)"
    using assms unfolding add_node_def workflow_require_stable_id_def by (force split: if_splits)
  have "set seen = set (nd_depends_on node) \<and> distinct (nd_depends_on node) \<and> nd_node_id node \<notin> set (nd_depends_on node)"
    by (rule each_try_inv [where I = "\<lambda>ds seen. set seen = set ds \<and> distinct ds \<and> nd_node_id node \<notin> set ds", OF s])
       (auto dest: check_dependency_ok)
  with rest show ?thesis by blast
qed

text \<open>The nodes that were added, and what holds of each.\<close>

definition nodes_ok :: "(string \<times> string) list \<Rightarrow> node_def list \<Rightarrow> node_map \<Rightarrow> bool" where
  "nodes_ok bindings ns defs =
     (sorted_wrt (<) (map fst defs) \<and> snd ` set defs = set ns \<and> length defs = length ns \<and>
      (\<forall>(i, node)\<in>set defs. nd_node_id node = i \<and> is_stable_id i \<and> map_of bindings (nd_pane_ref node) \<noteq> None \<and>
         i \<notin> set (nd_depends_on node) \<and> distinct (nd_depends_on node)))"

lemma tree_insert_new:
  assumes "map_of es k = None"
  shows "set (tree_insert k v es) = insert (k, v) (set es)" "length (tree_insert k v es) = Suc (length es)"
  using assms by (induction es) (auto split: if_splits)

lemma nodes_sound:
  assumes "each_try (add_node bindings) ns [] = Inr defs"
  shows "nodes_ok bindings ns defs"
proof (rule each_try_inv [where I = "nodes_ok bindings", OF assms])
  show "nodes_ok bindings [] []" by (simp add: nodes_ok_def)
  show "nodes_ok bindings (pre @ [n]) t'"
    if "nodes_ok bindings pre t" "add_node bindings n t = Inr t'" for pre n t t'
    using that(1) add_node_ok [OF that(2)] tree_insert_new [of t "nd_node_id n" n]
    by (auto simp: nodes_ok_def sorted_tree_insert)
qed

lemma nodes_graph_ok:
  assumes "nodes_ok bindings ns defs" "known_dependencies defs"
  shows "graph_ok defs"
proof -
  have "set (nd_depends_on node) \<subseteq> ids_of defs" if "(i, node) \<in> set defs" for i node
    using assms(2) that by (fastforce simp: known_dependencies_def list_all_iff ids_of_def map_of_eq_None_iff)
  then show ?thesis using assms(1) by (auto simp: nodes_ok_def graph_ok_def)
qed

section \<open>The greedy order\<close>

text \<open>A reference order: at each step the least node that is not placed and whose dependencies all are.\<close>

definition placeable :: "node_map \<Rightarrow> string list \<Rightarrow> string list" where
  "placeable defs placed = filter (\<lambda>i. i \<notin> set placed \<and> set (deps defs i) \<subseteq> set placed) (map fst defs)"

lemma set_placeable:
  "set (placeable defs placed) = {i \<in> ids_of defs. i \<notin> set placed \<and> set (deps defs i) \<subseteq> set placed}"
  by (auto simp: placeable_def ids_of_def)

lemma sorted_placeable: "graph_ok defs \<Longrightarrow> sorted_wrt (<) (placeable defs placed)"
  by (simp add: placeable_def graph_ok_def sorted_wrt_filter)

function greedy :: "node_map \<Rightarrow> string list \<Rightarrow> string list" where
  "greedy defs placed = (case placeable defs placed of [] \<Rightarrow> placed | c # _ \<Rightarrow> greedy defs (placed @ [c]))"
  by pat_completeness auto
termination
proof (relation "measure (\<lambda>(defs, placed). card (ids_of defs - set placed))")
  fix defs :: node_map and placed c cs
  assume "placeable defs placed = c # cs"
  then have "ids_of defs - set (placed @ [c]) \<subset> ids_of defs - set placed"
    using set_placeable [of defs placed] by auto
  then have "card (ids_of defs - set (placed @ [c])) < card (ids_of defs - set placed)"
    by (rule psubset_card_mono [rotated]) (simp add: ids_of_def)
  then show "((defs, placed @ [c]), defs, placed) \<in> measure (\<lambda>(defs, placed). card (ids_of defs - set placed))"
    by (simp only: in_measure split_conv)
qed simp

declare greedy.simps [simp del]

lemma deps_ids: "graph_ok defs \<Longrightarrow> n \<in> set (deps defs i) \<Longrightarrow> i \<in> ids_of defs"
  using graph_okD(6) [of defs i] by (cases "deps defs i") auto

text \<open>How many dependencies of a node are still to be placed.\<close>

definition remaining :: "node_map \<Rightarrow> string list \<Rightarrow> string \<Rightarrow> nat" where
  "remaining defs placed i = length (filter (\<lambda>d. d \<notin> set placed) (deps defs i))"

lemma remaining_0: "remaining defs placed i = 0 \<longleftrightarrow> set (deps defs i) \<subseteq> set placed"
  by (auto simp: remaining_def filter_empty_conv)

lemma remaining_snoc:
  assumes "distinct (deps defs i)" "n \<notin> set placed"
  shows "remaining defs placed i = remaining defs (placed @ [n]) i + (if n \<in> set (deps defs i) then 1 else 0)"
proof -
  have "length (filter (\<lambda>d. d \<notin> set placed) ds) =
      length (filter (\<lambda>d. d \<notin> set (placed @ [n])) ds) + (if n \<in> set ds then 1 else 0)" if "distinct ds" for ds
    using that assms(2) by (induction ds) auto
  with assms(1) show ?thesis by (simp add: remaining_def)
qed

section \<open>Releasing the nodes that depend on one\<close>

lemma set_dependents:
  assumes "graph_ok defs"
  shows "set (dependents defs n) = {i. n \<in> set (deps defs i)}"
proof (intro set_eqI iffI)
  fix i assume "i \<in> set (dependents defs n)"
  then obtain k node where n: "(k, node) \<in> set defs" "i = nd_node_id node" "n \<in> set (nd_depends_on node)"
    by (auto simp: dependents_def)
  then have "k = i" using assms by (auto simp: graph_ok_def)
  moreover have "map_of defs k = Some node" using n(1) graph_okD(1) [OF assms] by simp
  ultimately show "i \<in> {i. n \<in> set (deps defs i)}" using n(3) by (simp add: deps_def)
next
  fix i assume i: "i \<in> {i. n \<in> set (deps defs i)}"
  then have "i \<in> ids_of defs" using deps_ids [OF assms] by auto
  then obtain node where "(i, node) \<in> set defs" "map_of defs i = Some node" "nd_node_id node = i"
    using graph_okD(3) [OF assms] by blast
  with i show "i \<in> set (dependents defs n)" by (force simp: dependents_def deps_def)
qed

lemma filter_is: "distinct ds \<Longrightarrow> filter (\<lambda>d. d = n) ds = (if n \<in> set ds then [n] else [])"
  by (induction ds) auto

lemma distinct_dependents:
  assumes "graph_ok defs"
  shows "distinct (dependents defs n)"
proof -
  have "distinct (concat (map (\<lambda>(_, node). map (\<lambda>_. nd_node_id node) (filter (\<lambda>d. d = n) (nd_depends_on node))) es))"
    if "distinct (map fst es)" "\<forall>(i, node)\<in>set es. nd_node_id node = i \<and> distinct (nd_depends_on node)" for es :: node_map
    using that
  proof (induction es)
    case (Cons e es)
    obtain i node where e: "e = (i, node)" by (cases e)
    have "filter (\<lambda>d. d = n) (nd_depends_on node) = (if n \<in> set (nd_depends_on node) then [n] else [])"
      using Cons.prems(2) by (simp add: e filter_is)
    moreover have "i \<notin> (\<lambda>(_, node). nd_node_id node) ` set es"
      using Cons.prems by (force simp: e)
    ultimately show ?case using Cons by (auto simp: e)
  qed simp
  moreover have "\<forall>(i, node)\<in>set defs. nd_node_id node = i \<and> distinct (nd_depends_on node)"
    using assms by (auto simp: graph_ok_def)
  ultimately show ?thesis using graph_okD(1) [OF assms] by (simp add: dependents_def)
qed

lemma release_all:
  assumes "distinct cs" "\<forall>c\<in>set cs. \<exists>k. map_of degree c = Some (Suc k)" "sorted_wrt (<) ready"
  shows "\<exists>degree' ready'. release cs (degree, ready) = Inr (degree', ready') \<and>
    (\<forall>i. map_of degree' i = (if i \<in> set cs then map_option (\<lambda>k. k - 1) (map_of degree i) else map_of degree i)) \<and>
    set ready' = set ready \<union> {c \<in> set cs. map_of degree c = Some 1} \<and> sorted_wrt (<) ready'"
  using assms
proof (induction cs arbitrary: degree ready)
  case (Cons c cs)
  then obtain k where k: "map_of degree c = Some (Suc k)" by auto
  let ?degree = "AList.update c k degree" and ?ready = "if k = 0 then set_insert c ready else ready"
  have step: "release_child c (degree, ready) = Inr (?degree, ?ready)"
    by (simp add: release_child_def k)
  have c: "c \<notin> set cs" "distinct cs" using Cons.prems(1) by simp_all
  then have same: "map_of ?degree c' = map_of degree c'" if "c' \<in> set cs" for c'
    using that by (auto simp: update_conv')
  have "\<forall>c'\<in>set cs. \<exists>k. map_of ?degree c' = Some (Suc k)"
    using Cons.prems(2) same by simp
  moreover have "sorted_wrt (<) ?ready" using Cons.prems(3) by (simp add: sorted_set_insert)
  ultimately obtain degree' ready' where ih: "release cs (?degree, ?ready) = Inr (degree', ready')"
    "\<forall>i. map_of degree' i = (if i \<in> set cs then map_option (\<lambda>k. k - 1) (map_of ?degree i) else map_of ?degree i)"
    "set ready' = set ?ready \<union> {c' \<in> set cs. map_of ?degree c' = Some 1}" "sorted_wrt (<) ready'"
    using Cons.IH [OF c(2)] by blast
  have "release (c # cs) (degree, ready) = Inr (degree', ready')"
    using step ih(1) by (simp add: release_def)
  moreover have "map_of degree' i =
      (if i \<in> set (c # cs) then map_option (\<lambda>k. k - 1) (map_of degree i) else map_of degree i)" for i
    using ih(2) c(1) k by (cases "i = c") (simp_all add: update_conv')
  moreover have "set ready' = set ready \<union> {c' \<in> set (c # cs). map_of degree c' = Some 1}"
  proof -
    have "{c' \<in> set cs. map_of ?degree c' = Some 1} = {c' \<in> set cs. map_of degree c' = Some 1}"
      using same by auto
    moreover have "{c' \<in> set (c # cs). map_of degree c' = Some 1} =
        {c' \<in> set cs. map_of degree c' = Some 1} \<union> (if k = 0 then {c} else {})"
      using k by auto
    ultimately show ?thesis by (simp add: ih(3))
  qed
  ultimately show ?case using ih(4) by blast
qed (simp add: release_def)

lemma map_of_map_node: "map_of (map (\<lambda>(i, node). (i, f node)) defs) i = map_option f (map_of defs i)"
  by (induction defs) auto

section \<open>Kahn's algorithm takes the greedy order\<close>

definition kahn_inv :: "node_map \<Rightarrow> string list \<Rightarrow> degrees \<Rightarrow> bool" where
  "kahn_inv defs placed degree =
     ((\<forall>i\<in>ids_of defs. map_of degree i = Some (remaining defs placed i)) \<and>
      set placed \<subseteq> ids_of defs \<and> (\<forall>i\<in>set placed. set (deps defs i) \<subseteq> set placed))"

lemma kahn_step:
  assumes g: "graph_ok defs" and inv: "kahn_inv defs placed degree"
    and c: "placeable defs placed = n # ready"
  shows "\<exists>degree'. release (dependents defs n) (degree, ready) = Inr (degree', placeable defs (placed @ [n])) \<and>
    kahn_inv defs (placed @ [n]) degree'"
proof -
  have n: "n \<in> ids_of defs" "n \<notin> set placed" "set (deps defs n) \<subseteq> set placed"
    using set_placeable [of defs placed] c by auto
  have s: "sorted_wrt (<) (n # ready)" using sorted_placeable [OF g, of placed] c by simp
  have child: "i \<in> ids_of defs" "i \<notin> set placed" "i \<noteq> n" if "n \<in> set (deps defs i)" for i
    using that deps_ids [OF g that] inv n by (auto simp: kahn_inv_def)
  have rem: "remaining defs placed i = remaining defs (placed @ [n]) i + (if n \<in> set (deps defs i) then 1 else 0)" for i
    by (rule remaining_snoc) (use graph_okD(4) [OF g] n(2) in auto)
  have deg: "map_of degree i = Some (remaining defs placed i)" if "i \<in> ids_of defs" for i
    using that inv by (simp add: kahn_inv_def)
  have "\<forall>c\<in>set (dependents defs n). \<exists>k. map_of degree c = Some (Suc k)"
    using deg child rem by (auto simp: set_dependents [OF g])
  from release_all [OF distinct_dependents [OF g] this, of ready] s
  obtain degree' ready' where r: "release (dependents defs n) (degree, ready) = Inr (degree', ready')"
    "\<forall>i. map_of degree' i =
       (if n \<in> set (deps defs i) then map_option (\<lambda>k. k - 1) (map_of degree i) else map_of degree i)"
    "set ready' = set ready \<union> {c. n \<in> set (deps defs c) \<and> map_of degree c = Some 1}" "sorted_wrt (<) ready'"
    by (auto simp: set_dependents [OF g])
  have "set ready' = set (placeable defs (placed @ [n]))"
  proof -
    have "set ready = set (placeable defs placed) - {n}" using s by (auto simp: c)
    then show ?thesis
      unfolding r(3) set_placeable remaining_0 [symmetric] using child deg rem n(2) by auto
  qed
  then have "ready' = placeable defs (placed @ [n])"
    using r(4) sorted_placeable [OF g] by (blast intro: strict_sorted_equal)
  moreover have "kahn_inv defs (placed @ [n]) degree'"
    using inv n r(2) rem by (auto simp: kahn_inv_def)
  ultimately show ?thesis using r(1) by blast
qed

lemma order_nodes_greedy:
  assumes "graph_ok defs" "kahn_inv defs placed degree"
  shows "order_nodes (dependents defs) degree (placeable defs placed) placed = Inr (greedy defs placed)"
  using assms
proof (induction defs placed arbitrary: degree rule: greedy.induct)
  case (1 defs placed)
  show ?case
  proof (cases "placeable defs placed")
    case Nil
    then show ?thesis by (simp add: greedy.simps)
  next
    case (Cons n ready)
    obtain degree' where d: "release (dependents defs n) (degree, ready) = Inr (degree', placeable defs (placed @ [n]))"
      "kahn_inv defs (placed @ [n]) degree'"
      using kahn_step [OF 1(2,3) Cons] by blast
    have "order_nodes (dependents defs) degree' (placeable defs (placed @ [n])) (placed @ [n]) =
        Inr (greedy defs (placed @ [n]))"
      by (rule 1(1) [OF Cons 1(2) d(2)])
    then show ?thesis by (simp add: Cons d(1) greedy.simps [of defs placed])
  qed
qed

lemma kahn_start: "graph_ok defs \<Longrightarrow> kahn_inv defs [] (indegrees defs)"
  unfolding kahn_inv_def indegrees_def
  using graph_okD(3) [of defs] by (force simp: map_of_map_node remaining_def deps_def)

lemma ready_start:
  assumes "graph_ok defs"
  shows "map fst (filter (\<lambda>(_, d). d = 0) (indegrees defs)) = placeable defs []"
proof -
  have "map fst (filter (\<lambda>(_, d). d = 0) (indegrees es)) = filter (\<lambda>i. deps defs i = []) (map fst es)"
    if "\<forall>(i, node)\<in>set es. map_of defs i = Some node" for es
    using that by (induction es) (auto simp: indegrees_def deps_def)
  moreover have "\<forall>(i, node)\<in>set defs. map_of defs i = Some node"
    using graph_okD(1) [OF assms] by auto
  ultimately show ?thesis by (simp add: placeable_def)
qed

lemma topological_order_greedy:
  assumes "graph_ok defs"
  shows "topological_order defs =
    (if length (greedy defs []) = length defs then Inr (greedy defs []) else Inl InvalidData)"
  using order_nodes_greedy [OF assms kahn_start [OF assms]]
  by (simp add: topological_order_def ready_start [OF assms])

section \<open>What the greedy order is\<close>

text \<open>Every node placed was the least that could go next.\<close>

definition placed_ok :: "node_map \<Rightarrow> string list \<Rightarrow> bool" where
  "placed_ok defs p = (distinct p \<and> set p \<subseteq> ids_of defs \<and>
     (\<forall>k<length p. \<exists>cs. placeable defs (take k p) = p ! k # cs))"

lemma greedy_placed:
  assumes "placed_ok defs p"
  shows "placed_ok defs (greedy defs p) \<and> placeable defs (greedy defs p) = []"
  using assms
proof (induction defs p rule: greedy.induct)
  case (1 defs p)
  show ?case
  proof (cases "placeable defs p")
    case Nil
    with 1(2) show ?thesis by (simp add: greedy.simps)
  next
    case (Cons c cs)
    have "placed_ok defs (p @ [c])"
      using 1(2) Cons set_placeable [of defs p] by (auto simp: placed_ok_def nth_append less_Suc_eq)
    from 1(1) [OF Cons this] show ?thesis by (simp add: greedy.simps [of defs p] Cons)
  qed
qed

lemma placed_next:
  assumes "placed_ok defs p" "graph_ok defs" "k < length p"
  shows "set (deps defs (p ! k)) \<subseteq> set (take k p)"
    "j \<in> ids_of defs \<Longrightarrow> j \<notin> set (take k p) \<Longrightarrow> set (deps defs j) \<subseteq> set (take k p) \<Longrightarrow> p ! k \<le> j"
proof -
  obtain cs where c: "placeable defs (take k p) = p ! k # cs"
    using assms by (auto simp: placed_ok_def)
  then show "set (deps defs (p ! k)) \<subseteq> set (take k p)"
    using set_placeable [of defs "take k p"] by auto
  assume "j \<in> ids_of defs" "j \<notin> set (take k p)" "set (deps defs j) \<subseteq> set (take k p)"
  then have "j \<in> set (p ! k # cs)" using set_placeable [of defs "take k p"] c by auto
  moreover have "sorted_wrt (<) (p ! k # cs)" using sorted_placeable [OF assms(2), of "take k p"] c by simp
  ultimately show "p ! k \<le> j" by auto
qed

section \<open>Cycles\<close>

definition depends :: "node_map \<Rightarrow> (string \<times> string) set" where
  "depends defs = {(d, i). d \<in> set (deps defs i)}"

lemma depends_finite: "graph_ok defs \<Longrightarrow> finite (depends defs)"
  by (rule finite_subset [where B = "ids_of defs \<times> ids_of defs"])
     (auto simp: depends_def ids_of_def [of defs] dest: deps_ids graph_okD(5) [THEN subsetD])

lemma acyclic_complete:
  assumes "graph_ok defs" "acyclic (depends defs)" "placeable defs p = []"
  shows "ids_of defs \<subseteq> set p"
proof (rule ccontr)
  assume "\<not> ids_of defs \<subseteq> set p"
  then obtain i where "i \<in> ids_of defs - set p" by auto
  moreover have "wf (depends defs)" using assms depends_finite finite_acyclic_wf by blast
  ultimately obtain m where m: "m \<in> ids_of defs - set p"
    "\<And>d. (d, m) \<in> depends defs \<Longrightarrow> d \<notin> ids_of defs - set p"
    by (metis wfE_min)
  then have "set (deps defs m) \<subseteq> set p"
    using graph_okD(5) [OF assms(1), of m] by (auto simp: depends_def)
  with m(1) have "m \<in> set (placeable defs p)" by (simp add: set_placeable)
  with assms(3) show False by simp
qed

lemma complete_acyclic:
  assumes "graph_ok defs" "placed_ok defs p" "ids_of defs \<subseteq> set p"
  shows "acyclic (depends defs)"
proof -
  obtain f where f: "\<forall>i\<in>set p. f i < length p \<and> p ! f i = i"
    using bchoice [of "set p" "\<lambda>i k. k < length p \<and> p ! k = i"] by (auto simp: in_set_conv_nth)
  have dist: "distinct p" using assms(2) by (simp add: placed_ok_def)
  have "f d < f i" if di: "d \<in> set (deps defs i)" for d i
  proof -
    have i: "i \<in> set p" using deps_ids [OF assms(1) di] assms(3) by auto
    then have "d \<in> set (take (f i) p)"
      using placed_next(1) [OF assms(2,1), of "f i"] bspec [OF f i] di by auto
    then obtain j where j: "j < f i" "j < length p" "p ! j = d" by (auto simp: in_set_conv_nth)
    then have "d \<in> set p" by auto
    then have "f d = j" using j bspec [OF f, of d] nth_eq_iff_index_eq [OF dist, of "f d" j] by simp
    with j(1) show ?thesis by simp
  qed
  then have "depends defs \<subseteq> measure f" by (auto simp: depends_def)
  then have "wf (depends defs)" by (rule wf_subset [OF wf_measure])
  then show ?thesis by (rule wf_acyclic)
qed

lemma topological_order_acyclic:
  assumes "graph_ok defs"
  shows "topological_order defs = (if acyclic (depends defs) then Inr (greedy defs []) else Inl InvalidData)"
proof -
  have p: "placed_ok defs (greedy defs [])" "placeable defs (greedy defs []) = []"
    using greedy_placed [of defs "[]"] by (simp_all add: placed_ok_def)
  have card: "card (ids_of defs) = length defs"
    using distinct_card [OF graph_okD(1) [OF assms]] by (simp add: ids_of_def)
  have "length (greedy defs []) = card (set (greedy defs []))"
    using p(1) by (simp add: placed_ok_def distinct_card)
  moreover have "set (greedy defs []) \<subseteq> ids_of defs" "finite (ids_of defs)"
    using p(1) by (simp_all add: placed_ok_def ids_of_def)
  ultimately have "length (greedy defs []) = length defs \<longleftrightarrow> ids_of defs \<subseteq> set (greedy defs [])"
    using card by (metis card_subset_eq subset_antisym order_refl)
  then have "length (greedy defs []) = length defs \<longleftrightarrow> acyclic (depends defs)"
    using acyclic_complete [OF assms _ p(2)] complete_acyclic [OF assms p(1)] by blast
  then show ?thesis by (simp add: topological_order_greedy [OF assms])
qed

end
