(* ===== verification/Workflow_Plans.thy ===== *)
theory Workflow_Plans
  imports Workflow_Props "HOL-Library.Multiset"
begin

text \<open>
  What holds of a workflow as a whole: which definitions are accepted, what comes out, and that
  neither a panic nor the order of the nodes in the file can change it.
\<close>

section \<open>Which nodes are accepted\<close>

definition id_fine :: "string \<Rightarrow> bool" where
  "id_fine v = (length v \<le> 128 \<and> is_stable_id v)"

definition node_fine :: "(string \<times> string) list \<Rightarrow> node_def \<Rightarrow> bool" where
  "node_fine bindings n =
     (id_fine (nd_node_id n) \<and> id_fine (nd_pane_ref n) \<and> nd_action n = ''operator-dispatch'' \<and>
      map_of bindings (nd_pane_ref n) \<noteq> None \<and> (\<forall>d\<in>set (nd_depends_on n). id_fine d \<and> d \<noteq> nd_node_id n) \<and>
      distinct (nd_depends_on n))"

lemma check_dependencies:
  "(\<exists>s. each_try (check_dependency i) ds seen = Inr s) \<longleftrightarrow>
     (\<forall>d\<in>set ds. id_fine d \<and> d \<noteq> i) \<and> distinct ds \<and> set ds \<inter> set seen = {}"
proof (induction ds arbitrary: seen)
  case (Cons d ds)
  have "check_dependency i d seen =
      (if id_fine d \<and> d \<noteq> i \<and> d \<notin> set seen then Inr (set_insert d seen) else Inl InvalidData)"
    by (auto simp: check_dependency_def workflow_require_stable_id_def id_fine_def ensure_def)
  with Cons show ?case by auto
qed simp

lemma check_dependencies_error:
  assumes "each_try (check_dependency i) ds seen = Inl e"
  shows "e = InvalidData"
  by (rule each_try_error [where f = "check_dependency i", OF _ assms])
     (auto simp: check_dependency_def workflow_require_stable_id_def attempt_Inl split: if_splits)

lemma add_node_fine:
  "add_node bindings n defs =
     (if node_fine bindings n \<and> map_of defs (nd_node_id n) = None
      then Inr (tree_insert (nd_node_id n) n defs) else Inl InvalidData)"
proof (cases "each_try (check_dependency (nd_node_id n)) (nd_depends_on n) []")
  case (Inl e)
  then have "\<not> node_fine bindings n"
    using check_dependencies [of "nd_node_id n" "nd_depends_on n" "[]"] by (auto simp: node_fine_def)
  then show ?thesis
    using check_dependencies_error [OF Inl]
    by (simp add: add_node_def Inl workflow_require_stable_id_def ensure_def)
next
  case (Inr s)
  then have "(\<forall>d\<in>set (nd_depends_on n). id_fine d \<and> d \<noteq> nd_node_id n) \<and> distinct (nd_depends_on n)"
    using check_dependencies [of "nd_node_id n" "nd_depends_on n" "[]"] by blast
  then have "node_fine bindings n \<longleftrightarrow> id_fine (nd_node_id n) \<and> id_fine (nd_pane_ref n) \<and>
      nd_action n = ''operator-dispatch'' \<and> map_of bindings (nd_pane_ref n) \<noteq> None"
    by (auto simp: node_fine_def)
  then show ?thesis
    by (simp add: add_node_def Inr workflow_require_stable_id_def ensure_def id_fine_def)
qed

definition node_table :: "node_def list \<Rightarrow> node_map \<Rightarrow> node_map" where
  "node_table ns defs = fold (\<lambda>n. tree_insert (nd_node_id n) n) ns defs"

lemma add_nodes_fine:
  "each_try (add_node bindings) ns defs =
     (if (\<forall>n\<in>set ns. node_fine bindings n) \<and> distinct (map nd_node_id ns) \<and> nd_node_id ` set ns \<inter> ids_of defs = {}
      then Inr (node_table ns defs) else Inl InvalidData)"
proof (induction ns arbitrary: defs)
  case (Cons n ns)
  have "map_of defs (nd_node_id n) = None \<longleftrightarrow> nd_node_id n \<notin> ids_of defs"
    by (simp add: ids_of_def map_of_eq_None_iff)
  moreover have "ids_of (tree_insert (nd_node_id n) n defs) = insert (nd_node_id n) (ids_of defs)"
    by (simp add: ids_of_def)
  ultimately show ?case
    using Cons [of "tree_insert (nd_node_id n) n defs"] by (auto simp: add_node_fine node_table_def)
qed (simp add: node_table_def)

text \<open>The relation that must have no cycle.\<close>

definition runs_before :: "node_def list \<Rightarrow> (string \<times> string) set" where
  "runs_before ns = {(d, nd_node_id n) |d n. n \<in> set ns \<and> d \<in> set (nd_depends_on n)}"

definition nodes_accepted :: "(string \<times> string) list \<Rightarrow> node_def list \<Rightarrow> bool" where
  "nodes_accepted bindings ns =
     ((\<forall>n\<in>set ns. node_fine bindings n \<and> set (nd_depends_on n) \<subseteq> nd_node_id ` set ns) \<and> distinct (map nd_node_id ns))"

lemma node_table_ok:
  assumes "\<forall>n\<in>set ns. node_fine bindings n" "distinct (map nd_node_id ns)"
  shows "nodes_ok bindings ns (node_table ns [])"
  by (rule nodes_sound) (simp add: add_nodes_fine assms ids_of_def)

lemma nodes_ok_entries:
  assumes "nodes_ok bindings ns defs"
  shows "ids_of defs = nd_node_id ` set ns" "(i, n) \<in> set defs \<longleftrightarrow> n \<in> set ns \<and> i = nd_node_id n"
proof -
  have eq: "set defs = (\<lambda>n. (nd_node_id n, n)) ` set ns"
  proof (intro set_eqI iffI)
    fix e assume e: "e \<in> set defs"
    then have "snd e \<in> set ns" using assms by (auto simp: nodes_ok_def)
    moreover have "fst e = nd_node_id (snd e)" using assms e by (auto simp: nodes_ok_def)
    ultimately show "e \<in> (\<lambda>n. (nd_node_id n, n)) ` set ns" by (cases e) auto
  next
    fix e assume "e \<in> (\<lambda>n. (nd_node_id n, n)) ` set ns"
    then obtain n where n: "n \<in> set ns" "e = (nd_node_id n, n)" by auto
    then have "n \<in> snd ` set defs" using assms by (simp add: nodes_ok_def)
    then obtain i where "(i, n) \<in> set defs" by auto
    moreover have "nd_node_id n = i" using assms calculation by (auto simp: nodes_ok_def)
    ultimately show "e \<in> set defs" using n(2) by simp
  qed
  then show "ids_of defs = nd_node_id ` set ns" "(i, n) \<in> set defs \<longleftrightarrow> n \<in> set ns \<and> i = nd_node_id n"
    by (auto simp: ids_of_def image_image)
qed

lemma nodes_ok_known:
  assumes "nodes_ok bindings ns defs"
  shows "known_dependencies defs \<longleftrightarrow> (\<forall>n\<in>set ns. set (nd_depends_on n) \<subseteq> nd_node_id ` set ns)"
proof -
  have "map_of defs d \<noteq> None \<longleftrightarrow> d \<in> nd_node_id ` set ns" for d
    using nodes_ok_entries(1) [OF assms] by (simp add: map_of_eq_None_iff ids_of_def)
  then have "known_dependencies defs \<longleftrightarrow>
      (\<forall>(i, n)\<in>set defs. \<forall>d\<in>set (nd_depends_on n). d \<in> nd_node_id ` set ns)"
    by (simp add: known_dependencies_def list_all_iff)
  also have "\<dots> \<longleftrightarrow> (\<forall>n\<in>set ns. set (nd_depends_on n) \<subseteq> nd_node_id ` set ns)"
    using nodes_ok_entries(2) [OF assms] by fastforce
  finally show ?thesis .
qed

lemma nodes_ok_depends:
  assumes "nodes_ok bindings ns defs" "graph_ok defs"
  shows "depends defs = runs_before ns"
proof -
  have "d \<in> set (deps defs i) \<longleftrightarrow> (\<exists>n\<in>set ns. i = nd_node_id n \<and> d \<in> set (nd_depends_on n))" for d i
  proof
    assume d: "d \<in> set (deps defs i)"
    then obtain n where "(i, n) \<in> set defs" "map_of defs i = Some n"
      using deps_ids [OF assms(2) d] graph_okD(3) [OF assms(2)] by blast
    with d show "\<exists>n\<in>set ns. i = nd_node_id n \<and> d \<in> set (nd_depends_on n)"
      using nodes_ok_entries(2) [OF assms(1)] by (auto simp: deps_def)
  next
    assume "\<exists>n\<in>set ns. i = nd_node_id n \<and> d \<in> set (nd_depends_on n)"
    then obtain n where n: "(i, n) \<in> set defs" "d \<in> set (nd_depends_on n)"
      using nodes_ok_entries(2) [OF assms(1)] by blast
    then have "map_of defs i = Some n" using graph_okD(1) [OF assms(2)] by simp
    with n(2) show "d \<in> set (deps defs i)" by (simp add: deps_def)
  qed
  then show ?thesis by (auto simp: depends_def runs_before_def)
qed

text \<open>The whole check of a definition, in one equation.\<close>

lemma order_of_nodes:
  "attempt (each_try (add_node bindings) ns []) (\<lambda>defs.
     attempt (ensure (known_dependencies defs) InvalidData) (\<lambda>_.
     attempt (topological_order defs) (\<lambda>order. Inr (defs, order)))) =
   (if nodes_accepted bindings ns \<and> acyclic (runs_before ns)
    then Inr (node_table ns [], greedy (node_table ns []) []) else Inl InvalidData)"
proof (cases "(\<forall>n\<in>set ns. node_fine bindings n) \<and> distinct (map nd_node_id ns)")
  case True
  let ?defs = "node_table ns []"
  have ok: "nodes_ok bindings ns ?defs" using True node_table_ok by blast
  show ?thesis
  proof (cases "known_dependencies ?defs")
    case known: True
    then have "graph_ok ?defs" using ok nodes_graph_ok by blast
    then show ?thesis
      using True known nodes_ok_known [OF ok] nodes_ok_depends [OF ok]
      by (simp add: add_nodes_fine ids_of_def topological_order_acyclic nodes_accepted_def ensure_def)
  next
    case False
    then show ?thesis
      using True nodes_ok_known [OF ok] by (auto simp: add_nodes_fine ids_of_def nodes_accepted_def ensure_def)
  qed
next
  case False
  then show ?thesis by (auto simp: add_nodes_fine ids_of_def nodes_accepted_def)
qed

section \<open>The workflow of a definition\<close>

definition definition_accepted :: "workspace_plan \<Rightarrow> workflow_def \<Rightarrow> bool" where
  "definition_accepted plan d =
     (wd_schema_version d = WORKFLOW_SCHEMA_VERSION \<and> id_fine (wd_recipe_ref d) \<and> wd_recipe_ref d = wp_recipe_id plan \<and>
      wd_nodes d \<noteq> [] \<and> length (wd_nodes d) \<le> MAX_WORKFLOW_NODES \<and>
      nodes_accepted (wp_bindings plan) (wd_nodes d) \<and> acyclic (runs_before (wd_nodes d)))"

definition flow_order :: "workflow_def \<Rightarrow> string list" where
  "flow_order d = greedy (node_table (wd_nodes d) []) []"

lemma normalize_definition_unfold:
  "normalize_definition plan w run d =
     (if definition_accepted plan d
      then map_option (\<lambda>nodes. Inr \<lparr>nf_schema_version = WORKFLOW_SCHEMA_VERSION, nf_workflow_id = w,
             nf_recipe_ref = wd_recipe_ref d, nf_run_id = run, nf_topological_order = flow_order d, nf_nodes = nodes\<rparr>)
        (those (map (norm_node_of (wp_bindings plan) run (node_table (wd_nodes d) [])) (flow_order d)))
      else Some (Inl InvalidData))"
  unfolding normalize_definition_def order_of_nodes
  by (auto simp: definition_accepted_def flow_order_def workflow_require_stable_id_def id_fine_def ensure_def)

lemma accepted_graph:
  assumes "definition_accepted plan d"
  shows "nodes_ok (wp_bindings plan) (wd_nodes d) (node_table (wd_nodes d) [])" "graph_ok (node_table (wd_nodes d) [])"
    "placed_ok (node_table (wd_nodes d) []) (flow_order d)" "set (flow_order d) = nd_node_id ` set (wd_nodes d)"
proof -
  have a: "nodes_accepted (wp_bindings plan) (wd_nodes d)" "acyclic (runs_before (wd_nodes d))"
    using assms by (simp_all add: definition_accepted_def)
  show ok: "nodes_ok (wp_bindings plan) (wd_nodes d) (node_table (wd_nodes d) [])"
    using a(1) by (intro node_table_ok) (simp_all add: nodes_accepted_def)
  then show g: "graph_ok (node_table (wd_nodes d) [])"
    using a(1) nodes_ok_known [OF ok] nodes_graph_ok [OF ok] by (simp add: nodes_accepted_def)
  have p: "placed_ok (node_table (wd_nodes d) []) (flow_order d)"
    "placeable (node_table (wd_nodes d) []) (flow_order d) = []"
    using greedy_placed [of "node_table (wd_nodes d) []" "[]"] by (simp_all add: placed_ok_def flow_order_def)
  then show "placed_ok (node_table (wd_nodes d) []) (flow_order d)" by blast
  have "ids_of (node_table (wd_nodes d) []) \<subseteq> set (flow_order d)"
    using acyclic_complete [OF g _ p(2)] a(2) nodes_ok_depends [OF ok g] by simp
  then show "set (flow_order d) = nd_node_id ` set (wd_nodes d)"
    using p(1) nodes_ok_entries(1) [OF ok] by (auto simp: placed_ok_def)
qed

text \<open>A node of the workflow is the node of the definition, bound to the slot of its pane.\<close>

definition node_for :: "(string \<times> string) list \<Rightarrow> string \<Rightarrow> node_def \<Rightarrow> norm_node \<Rightarrow> bool" where
  "node_for bindings run n m =
     (nn_node_id m = nd_node_id n \<and> map_of bindings (nd_pane_ref n) = Some (nn_pane_ref m) \<and>
      nn_depends_on m = sort (nd_depends_on n) \<and> nn_action m = nd_action n \<and>
      nn_idempotency_key m = run @ '':'' @ nd_node_id n)"

lemma norm_node_of_ok:
  assumes "nodes_ok bindings ns defs" "i \<in> nd_node_id ` set ns"
  shows "\<exists>n\<in>set ns. \<exists>m. norm_node_of bindings run defs i = Some m \<and> nd_node_id n = i \<and> node_for bindings run n m"
proof -
  from assms(2) obtain n where n: "n \<in> set ns" "nd_node_id n = i" by auto
  then have "(i, n) \<in> set defs" using nodes_ok_entries(2) [OF assms(1)] by simp
  moreover have "distinct (map fst defs)" using assms(1) by (simp add: nodes_ok_def sorted_keys_distinct)
  ultimately have "map_of defs i = Some n" by simp
  moreover obtain pane where "map_of bindings (nd_pane_ref n) = Some pane"
    using assms(1) \<open>(i, n) \<in> set defs\<close> by (auto simp: nodes_ok_def)
  ultimately show ?thesis using n by (auto simp: norm_node_of_def node_for_def)
qed

lemma those_all: "\<forall>x\<in>set xs. \<exists>y. f x = Some y \<and> P x y \<Longrightarrow> \<exists>ys. those (map f xs) = Some ys \<and> list_all2 P xs ys"
  by (induction xs) auto

lemma accepted_nodes:
  assumes "definition_accepted plan d"
  shows "\<exists>nodes. those (map (norm_node_of (wp_bindings plan) run (node_table (wd_nodes d) [])) (flow_order d)) = Some nodes \<and>
    list_all2 (\<lambda>i m. \<exists>n\<in>set (wd_nodes d). nd_node_id n = i \<and> node_for (wp_bindings plan) run n m) (flow_order d) nodes"
  using norm_node_of_ok [OF accepted_graph(1) [OF assms]] accepted_graph(4) [OF assms]
  by (intro those_all) fastforce

lemma normalize_definition_Inr:
  assumes "normalize_definition plan w run d = Some (Inr f)"
  shows "definition_accepted plan d \<and> nf_topological_order f = flow_order d \<and> nf_run_id f = run \<and>
    list_all2 (\<lambda>i m. \<exists>n\<in>set (wd_nodes d). nd_node_id n = i \<and> node_for (wp_bindings plan) run n m) (flow_order d) (nf_nodes f)"
proof (cases "definition_accepted plan d")
  case True
  with assms accepted_nodes [OF True, of run] show ?thesis by (auto simp: normalize_definition_unfold)
qed (use assms in \<open>simp add: normalize_definition_unfold\<close>)

text \<open>C7: Exactly these definitions become a workflow: version 1, the recipe of the plan, 1 to 128
  nodes, each with well formed and different names, a pane of the plan and known, different
  dependencies other than itself - and no cycle. Every other definition is refused as invalid
  data; Kahn's loop never fails for a reason of its own, and no index panics.\<close>

theorem workflow_accepted_iff_acyclic:
  "if definition_accepted plan d
   then \<exists>f. normalize_definition plan w run d = Some (Inr f) \<and> nf_topological_order f = flow_order d
   else normalize_definition plan w run d = Some (Inl InvalidData)"
  using accepted_nodes [of plan d run] by (auto simp: normalize_definition_unfold)

section \<open>What comes out\<close>

lemma normalize_workflow_Inr:
  assumes "normalize_workflow y y_workflow root w run plan = Some (Inr f)"
  shows "\<exists>d. find_workflow y y_workflow root w = Inr d \<and> normalize_definition plan w run d = Some (Inr f) \<and>
    is_stable_id run \<and> is_stable_id w"
  using assms by (auto simp: normalize_workflow_def workflow_require_stable_id_def split: sum.splits)

text \<open>C6: A workflow that comes out runs every node of its definition once, each after all nodes it
  depends on; of the nodes that could go next it always takes the least name. Its nodes stand in
  that order, each with the slot its pane is bound to, and no two have the same key.\<close>

theorem workflow_order_is_topological:
  assumes "normalize_workflow y y_workflow root w run plan = Some (Inr f)"
  shows "\<exists>d. find_workflow y y_workflow root w = Inr d \<and>
    (let order = nf_topological_order f; nodes = set (wd_nodes d)
     in distinct order \<and> set order = nd_node_id ` nodes \<and> length order = length (wd_nodes d) \<and>
        (\<forall>k<length order.
           (\<forall>n\<in>nodes. nd_node_id n = order ! k \<longrightarrow> set (nd_depends_on n) \<subseteq> set (take k order)) \<and>
           (\<forall>n\<in>nodes. nd_node_id n \<notin> set (take k order) \<and> set (nd_depends_on n) \<subseteq> set (take k order) \<longrightarrow>
              order ! k \<le> nd_node_id n)) \<and>
        map nn_node_id (nf_nodes f) = order \<and> distinct (map nn_idempotency_key (nf_nodes f)) \<and>
        (\<forall>m\<in>set (nf_nodes f). \<exists>n\<in>nodes. node_for (wp_bindings plan) run n m))"
proof -
  obtain d where d: "find_workflow y y_workflow root w = Inr d" "normalize_definition plan w run d = Some (Inr f)"
    using normalize_workflow_Inr [OF assms] by blast
  let ?order = "flow_order d" and ?defs = "node_table (wd_nodes d) []"
  have acc: "definition_accepted plan d" and order: "nf_topological_order f = ?order"
    and nodes: "list_all2 (\<lambda>i m. \<exists>n\<in>set (wd_nodes d). nd_node_id n = i \<and> node_for (wp_bindings plan) run n m) ?order (nf_nodes f)"
    using normalize_definition_Inr [OF d(2)] by simp_all
  note g = accepted_graph [OF acc]
  have dist: "distinct ?order" using g(3) by (simp add: placed_ok_def)
  have ids: "distinct (map nd_node_id (wd_nodes d))" using acc by (simp add: definition_accepted_def nodes_accepted_def)
  have len: "length ?order = length (wd_nodes d)"
    using distinct_card [OF dist] distinct_card [OF ids] g(4) by simp
  have dep: "deps ?defs (nd_node_id n) = nd_depends_on n" if "n \<in> set (wd_nodes d)" for n
    using that nodes_ok_entries(2) [OF g(1)] graph_okD(1) [OF g(2)] by (simp add: deps_def)
  have keys: "nn_node_id m = i \<and> nn_idempotency_key m = run @ '':'' @ i" if "(i, m) \<in> set (zip ?order (nf_nodes f))" for i m
    using nodes that by (auto simp: list_all2_iff node_for_def)
  have names: "map nn_node_id (nf_nodes f) = ?order"
    using nodes keys by (auto simp: list_all2_conv_all_nth node_for_def intro!: nth_equalityI)
  have "map nn_idempotency_key (nf_nodes f) = map (\<lambda>i. run @ '':'' @ i) ?order"
    using nodes by (auto simp: list_all2_conv_all_nth node_for_def intro!: nth_equalityI)
  then have "distinct (map nn_idempotency_key (nf_nodes f))"
    using dist by (simp add: distinct_map inj_on_def)
  moreover have "\<exists>n\<in>set (wd_nodes d). node_for (wp_bindings plan) run n m" if "m \<in> set (nf_nodes f)" for m
    using nodes that by (auto simp: list_all2_conv_all_nth in_set_conv_nth)
  moreover have "set (nd_depends_on n) \<subseteq> set (take k ?order)"
    if "k < length ?order" "n \<in> set (wd_nodes d)" "nd_node_id n = ?order ! k" for k n
    using placed_next(1) [OF g(3,2) that(1)] dep [OF that(2)] that(3) by simp
  moreover have "?order ! k \<le> nd_node_id n"
    if "k < length ?order" "n \<in> set (wd_nodes d)" "nd_node_id n \<notin> set (take k ?order)"
      "set (nd_depends_on n) \<subseteq> set (take k ?order)" for k n
    using placed_next(2) [OF g(3,2) that(1), of "nd_node_id n"] dep [OF that(2)] that
      nodes_ok_entries(1) [OF g(1)] by simp
  ultimately show ?thesis
    using d(1) dist g(4) len names by (intro exI [of _ d]) (simp add: order Let_def)
qed

text \<open>An example: two nodes wait for the first, the last one for both.\<close>

definition demo_node :: "string \<Rightarrow> string list \<Rightarrow> node_def" where
  "demo_node i ds = \<lparr>nd_node_id = i, nd_pane_ref = ''code'', nd_depends_on = ds, nd_action = ''operator-dispatch''\<rparr>"

definition demo_nodes :: "node_def list" where
  "demo_nodes =
     [demo_node ''ship'' [''test'', ''lint''], demo_node ''test'' [''build''], demo_node ''lint'' [''build''],
      demo_node ''build'' []]"

definition demo_flow :: "nat \<Rightarrow> workflow_def option" where
  "demo_flow v = (if v = 2 then Some \<lparr>wd_schema_version = 1, wd_recipe_ref = ''fix'', wd_nodes = demo_nodes\<rparr> else None)"

definition flow_yaml :: "nat yaml" where
  "flow_yaml =
     \<lparr>y_mapping = (\<lambda>v. if v = 0 then Some (\<lambda>k. if k = ''workflows'' then Some 1 else None)
                       else if v = 1 then Some (\<lambda>k. if k = ''daily'' then Some 2 else None) else None),
      y_i64 = (\<lambda>_. None), y_string = (\<lambda>_. None), y_recipe = (\<lambda>_. None)\<rparr>"

definition flow_plan :: workspace_plan where
  "flow_plan =
     \<lparr>wp_schema_version = 1, wp_config_fingerprint = [], wp_recipe_id = ''fix'', wp_workflow_id = Some ''daily'',
      wp_panes = [], wp_startup_actions = [], wp_bindings = [(''code'', ''w-1'')]\<rparr>"

lemma demo_workflow:
  "map_option (map_sum id nf_topological_order) (normalize_workflow flow_yaml demo_flow 0 ''daily'' ''r1'' flow_plan) =
     Some (Inr [''build'', ''lint'', ''test'', ''ship''])"
  by code_simp

theorem workflow_order_is_topological_witness:
  "\<exists>f. normalize_workflow flow_yaml demo_flow 0 ''daily'' ''r1'' flow_plan = Some (Inr f) \<and>
    nf_topological_order f = [''build'', ''lint'', ''test'', ''ship''] \<and> distinct (map nn_idempotency_key (nf_nodes f))"
proof -
  obtain f where f: "normalize_workflow flow_yaml demo_flow 0 ''daily'' ''r1'' flow_plan = Some (Inr f)"
    "nf_topological_order f = [''build'', ''lint'', ''test'', ''ship'']"
    using demo_workflow
    by (cases "normalize_workflow flow_yaml demo_flow 0 ''daily'' ''r1'' flow_plan"; cases "the (normalize_workflow flow_yaml demo_flow 0 ''daily'' ''r1'' flow_plan)") auto
  from workflow_order_is_topological [OF f(1)] f show ?thesis by (auto simp: Let_def)
qed

text \<open>The order of the nodes in the file does not matter: the same nodes in another order give
  the same workflow, or the same error.\<close>

theorem workflow_ignores_file_order:
  assumes "mset ns = mset ns'"
  shows "normalize_definition plan w run (d\<lparr>wd_nodes := ns\<rparr>) = normalize_definition plan w run (d\<lparr>wd_nodes := ns'\<rparr>)"
proof -
  let ?d = "d\<lparr>wd_nodes := ns\<rparr>" and ?d' = "d\<lparr>wd_nodes := ns'\<rparr>"
  have sets: "set ns = set ns'" "length ns = length ns'" "ns = [] \<longleftrightarrow> ns' = []"
    using assms mset_eq_setD mset_eq_length by auto
  have "distinct (map nd_node_id ns) \<longleftrightarrow> distinct (map nd_node_id ns')"
    using assms by (intro mset_eq_imp_distinct_iff) simp
  then have acc: "definition_accepted plan ?d \<longleftrightarrow> definition_accepted plan ?d'"
    using sets by (simp add: definition_accepted_def nodes_accepted_def runs_before_def)
  show ?thesis
  proof (cases "definition_accepted plan ?d")
    case True
    have ok: "nodes_ok (wp_bindings plan) ns (node_table ns [])" "nodes_ok (wp_bindings plan) ns' (node_table ns' [])"
      using accepted_graph(1) [OF True] accepted_graph(1) [OF True [unfolded acc]] by simp_all
    have "set (node_table ns []) = set (node_table ns' [])"
      using nodes_ok_entries(2) [OF ok(1)] nodes_ok_entries(2) [OF ok(2)] sets(1) by auto
    then have "node_table ns [] = node_table ns' []"
      using ok by (intro sorted_keys_unique) (simp_all add: nodes_ok_def)
    then show ?thesis using acc by (simp add: normalize_definition_unfold flow_order_def)
  next
    case False
    then show ?thesis using acc by (simp add: normalize_definition_unfold)
  qed
qed

theorem workflow_ignores_file_order_witness:
  "normalize_definition flow_plan ''daily'' ''r1'' \<lparr>wd_schema_version = 1, wd_recipe_ref = ''fix'', wd_nodes = demo_nodes\<rparr> =
    normalize_definition flow_plan ''daily'' ''r1'' \<lparr>wd_schema_version = 1, wd_recipe_ref = ''fix'', wd_nodes = rev demo_nodes\<rparr>"
  using workflow_ignores_file_order [of demo_nodes "rev demo_nodes" flow_plan "''daily''" "''r1''"
      "\<lparr>wd_schema_version = 1, wd_recipe_ref = ''fix'', wd_nodes = []\<rparr>"] by simp

text \<open>Making the plan and the workflow of a run never panics, whatever the document and the slots:
  the lookups by index behind the checks always find what they look for.\<close>

theorem payload_never_panics:
  "normalize_payload y y_workflow digest root recipe_id workflow_id run_id slots \<noteq> None"
proof -
  have "normalize_definition plan w run d \<noteq> None" for plan w run d
    using accepted_nodes [of plan d run] by (auto simp: normalize_definition_unfold)
  then have "normalize_workflow y y_workflow root w run plan \<noteq> None" for w run plan
    by (simp add: normalize_workflow_def split: sum.split)
  then show ?thesis by (auto simp: normalize_payload_def split: sum.split option.split)
qed

section \<open>Keys\<close>

lemma split_on_chars: "x \<in> set s \<Longrightarrow> x = c \<or> (\<exists>p\<in>set (split_on c s). x \<in> set p)"
  by (induction s) (auto split: list.splits)

lemma stable_id_no_colon:
  assumes "is_stable_id v"
  shows "CHR '':'' \<notin> set v"
proof
  assume "CHR '':'' \<in> set v"
  then obtain p where p: "p \<in> set (split_on (CHR ''-'') v)" "CHR '':'' \<in> set p"
    using split_on_chars [of "CHR '':''" v "CHR ''-''"] by auto
  have "\<forall>p\<in>set (split_on (CHR ''-'') v). \<forall>x\<in>set p. lower_or_digit x"
    using assms by (auto simp: is_stable_id_def list_all_iff split: list.splits)
  with p have "lower_or_digit (CHR '':'')" by blast
  then show False by (simp add: lower_or_digit_def is_lower_def is_digit_def)
qed

lemma separated_injective:
  "a @ c # b = a' @ c # b' \<Longrightarrow> c \<notin> set a \<Longrightarrow> c \<notin> set a' \<Longrightarrow> a = a' \<and> b = b'"
proof (induction a arbitrary: a')
  case Nil
  then show ?case by (cases a') auto
next
  case (Cons x a)
  then show ?case by (cases a') auto
qed

lemma workflow_keys:
  assumes "normalize_workflow y y_workflow root w run plan = Some (Inr f)" "m \<in> set (nf_nodes f)"
  shows "nn_idempotency_key m = run @ CHR '':'' # nn_node_id m \<and> nf_run_id f = run \<and> CHR '':'' \<notin> set run"
proof -
  obtain d where d: "normalize_definition plan w run d = Some (Inr f)" "is_stable_id run"
    using normalize_workflow_Inr [OF assms(1)] by blast
  obtain n where "node_for (wp_bindings plan) run n m"
    using normalize_definition_Inr [OF d(1)] assms(2) by (auto simp: list_all2_conv_all_nth in_set_conv_nth)
  then show ?thesis
    using normalize_definition_Inr [OF d(1)] stable_id_no_colon [OF d(2)] by (simp add: node_for_def)
qed

text \<open>The key of a node names its run and the node: two nodes of any two workflows with the same
  key are the same node of the same run.\<close>

lemma idempotency_key_names_node:
  assumes "normalize_workflow y y_workflow root w run plan = Some (Inr f)" "m \<in> set (nf_nodes f)"
    "normalize_workflow y' y_workflow' root' w' run' plan' = Some (Inr f')" "m' \<in> set (nf_nodes f')"
    "nn_idempotency_key m = nn_idempotency_key m'"
  shows "nf_run_id f = nf_run_id f' \<and> nn_node_id m = nn_node_id m'"
  using workflow_keys [OF assms(1,2)] workflow_keys [OF assms(3,4)] assms(5)
    separated_injective [of run "CHR '':''" "nn_node_id m" run' "nn_node_id m'"] by simp

end
