(* ===== verification/Key_Input.thy ===== *)
theory Key_Input
  imports Utf8 "HOL-Library.Word"
begin

text \<open>
  The input of a client over SSH (\<open>src/core/src/ssh_input.rs\<close>): the parser that turns the
  characters of a terminal into events of keys, the mouse and pastes, and the reader that feeds
  it from the records of the Windows console. Characters are code points, \<open>u16\<close> numbers
  naturals; the events are those of the crossterm library.
\<close>

unbundle bit_operations_syntax

section \<open>Events\<close>

abbreviation ord :: "char \<Rightarrow> nat" where
  "ord c \<equiv> of_char c"

datatype key_code =
  KBackspace | KEnter | KLeft | KRight | KUp | KDown | KHome | KEnd | KPageUp | KPageDown | KTab | KBackTab
| KDelete | KInsert | KF nat | KChar nat | KEsc | KOther

record key_mods =
  m_shift :: bool
  m_alt :: bool
  m_ctrl :: bool

datatype mouse_button = LeftButton | MiddleButton | RightButton

datatype mouse_kind = MDown mouse_button | MUp mouse_button | MDrag mouse_button | Moved | MScrollUp | MScrollDown

datatype input_event =
  EKey key_code key_mods
| EMouse mouse_kind nat nat key_mods
| EPaste "nat list"
| EFocusGained
| EFocusLost
| EResize nat nat

definition no_mods :: key_mods where "no_mods = \<lparr>m_shift = False, m_alt = False, m_ctrl = False\<rparr>"
definition ctrl :: key_mods where "ctrl = no_mods\<lparr>m_ctrl := True\<rparr>"
definition alt :: key_mods where "alt = no_mods\<lparr>m_alt := True\<rparr>"

definition decode_modifiers :: "nat \<Rightarrow> key_mods" where
  "decode_modifiers n = (let m = n - 1 in \<lparr>m_shift = bit m 0, m_alt = bit m 1, m_ctrl = bit m 2\<rparr>)"

text \<open>A UTF-16 code unit: the character it completes, if it does, and the surrogate kept.\<close>

definition decode_utf16_unit :: "nat \<Rightarrow> nat option \<Rightarrow> nat option \<times> nat option" where
  "decode_utf16_unit unit high =
     (if 55296 \<le> unit \<and> unit \<le> 56319 then (None, Some unit)
      else if 56320 \<le> unit \<and> unit \<le> 57343 then
        (case high of
           Some hi \<Rightarrow> (let c = 65536 + (hi - 55296) * 1024 + (unit - 56320) in if is_scalar c then Some c else None)
         | None \<Rightarrow> None, None)
      else (if is_scalar unit then Some unit else None, None))"

section \<open>Base64\<close>

definition BASE64_CHARS :: string where
  "BASE64_CHARS = ''ABCDEFGHIJKLMNOPQRSTUVWXYZabcdefghijklmnopqrstuvwxyz0123456789+/''"

definition b64_index :: "char \<Rightarrow> 8 word option" where
  "b64_index c = map_option of_nat (position ((=) c) BASE64_CHARS)"

definition byte_of :: "8 word \<Rightarrow> char" where
  "byte_of w = char_of (unat w)"

fun base64_groups :: "string \<Rightarrow> string option" where
  "base64_groups (a # b # rest) =
     do {
       b0 \<leftarrow> b64_index a;
       b1 \<leftarrow> b64_index b;
       let first = byte_of (push_bit 2 b0 OR drop_bit 4 b1);
       (case rest of
          [] \<Rightarrow> Some [first]
        | c # rest' \<Rightarrow> do {
            b2 \<leftarrow> b64_index c;
            let second = byte_of (push_bit 4 b1 OR drop_bit 2 b2);
            (case rest' of
               [] \<Rightarrow> Some [first, second]
             | d # groups \<Rightarrow> do {
                 b3 \<leftarrow> b64_index d;
                 tail \<leftarrow> base64_groups groups;
                 Some (first # second # byte_of (push_bit 6 b2 OR b3) # tail)
               })
          })
     }"
| "base64_groups _ = Some []"

definition base64_decode :: "string \<Rightarrow> nat list option" where
  "base64_decode encoded =
     do { bytes \<leftarrow> base64_groups (filter (\<lambda>c. c \<noteq> CHR ''='') encoded); from_utf8 bytes }"

section \<open>The parser\<close>

datatype parse_state =
  Ground | Escape | CsiEntry | CsiParam | X10Mouse | Ss3 | Paste | PasteEsc | PasteBrk | PasteNum | Osc | OscEsc

record vt_parser =
  vp_state :: parse_state
  vp_params :: "nat list"
  vp_pidx :: nat
  vp_cur :: nat
  vp_has_digit :: bool
  vp_priv :: nat
  vp_x10_n :: nat
  vp_x10 :: "8 word list"
  vp_paste :: "nat list"
  vp_osc :: "nat list"
  vp_hi_sur :: "nat option"

definition parser_new :: vt_parser where
  "parser_new =
     \<lparr>vp_state = Ground, vp_params = replicate 8 0, vp_pidx = 0, vp_cur = 0, vp_has_digit = False, vp_priv = 0,
      vp_x10_n = 0, vp_x10 = [0, 0, 0], vp_paste = [], vp_osc = [], vp_hi_sur = None\<rparr>"

definition reset_csi :: "vt_parser \<Rightarrow> vt_parser" where
  "reset_csi p = p\<lparr>vp_params := replicate 8 0, vp_pidx := 0, vp_cur := 0, vp_has_digit := False, vp_priv := 0\<rparr>"

definition goto_state :: "parse_state \<Rightarrow> vt_parser \<Rightarrow> vt_parser" where
  "goto_state s p = p\<lparr>vp_state := s\<rparr>"

definition has_pending_escape :: "vt_parser \<Rightarrow> bool" where
  "has_pending_escape p = (vp_state p = Escape)"

definition flush_escape :: "vt_parser \<Rightarrow> vt_parser \<times> input_event list" where
  "flush_escape p = (if vp_state p = Escape then (goto_state Ground p, [EKey KEsc no_mods]) else (p, []))"

definition cancel_escape :: "vt_parser \<Rightarrow> vt_parser" where
  "cancel_escape p = (if vp_state p = Escape then goto_state Ground p else p)"

text \<open>A handler gives the parser after a character and the events it emits, in order.\<close>

definition ground_events :: "nat \<Rightarrow> input_event list" where
  "ground_events c =
     (if c \<in> {13, 10} then [EKey KEnter no_mods]
      else if c = 9 then [EKey KTab no_mods]
      else if c \<in> {127, 8} then [EKey KBackspace no_mods]
      else if c = 0 then [EKey (KChar 32) ctrl]
      else if 1 \<le> c \<and> c \<le> 26 then [EKey (KChar (97 + c - 1)) ctrl]
      else if c = 28 then [EKey (KChar (ord (CHR 0x5C))) ctrl]
      else if c = 29 then [EKey (KChar (ord (CHR '']''))) ctrl]
      else if c = 30 then [EKey (KChar (ord (CHR ''^''))) ctrl]
      else if c = 31 then [EKey (KChar (ord (CHR ''_''))) ctrl]
      else [EKey (KChar c) no_mods])"

definition on_ground :: "nat \<Rightarrow> vt_parser \<Rightarrow> vt_parser \<times> input_event list" where
  "on_ground c p = (if c = 27 then (goto_state Escape p, []) else (p, ground_events c))"

definition on_escape :: "nat \<Rightarrow> vt_parser \<Rightarrow> vt_parser \<times> input_event list" where
  "on_escape c p =
     (if c = ord (CHR ''['') then (goto_state CsiEntry (reset_csi p), [])
      else if c = ord (CHR ''O'') then (goto_state Ss3 p, [])
      else if c = 27 then (p, [EKey KEsc no_mods])
      else if c = ord (CHR '']'') then (goto_state Osc (p\<lparr>vp_osc := []\<rparr>), [])
      else if 32 \<le> c \<and> c \<le> 126 then (goto_state Ground p, [EKey (KChar c) alt])
      else (let (p', evs) = on_ground c (goto_state Ground p) in (p', EKey KEsc no_mods # evs)))"

definition finish_param :: "vt_parser \<Rightarrow> vt_parser" where
  "finish_param p =
     (if vp_pidx p < length (vp_params p)
      then p\<lparr>vp_params := (vp_params p)[vp_pidx p := vp_cur p], vp_pidx := vp_pidx p + 1, vp_cur := 0, vp_has_digit := False\<rparr>
      else p\<lparr>vp_cur := 0, vp_has_digit := False\<rparr>)"

definition add_digit :: "nat \<Rightarrow> nat \<Rightarrow> nat" where
  "add_digit cur d = sat_add16 (min 65535 (cur * 10)) d"

definition tilde_key :: "nat \<Rightarrow> key_code option" where
  "tilde_key n = map_of
     [(1, KHome), (7, KHome), (2, KInsert), (3, KDelete), (4, KEnd), (8, KEnd), (5, KPageUp), (6, KPageDown),
      (11, KF 1), (12, KF 2), (13, KF 3), (14, KF 4), (15, KF 5), (17, KF 6), (18, KF 7), (19, KF 8), (20, KF 9),
      (21, KF 10), (23, KF 11), (24, KF 12)] n"

definition dispatch_tilde :: "key_mods \<Rightarrow> vt_parser \<Rightarrow> input_event list" where
  "dispatch_tilde mods p = (case tilde_key (vp_params p ! 0) of None \<Rightarrow> [] | Some code \<Rightarrow> [EKey code mods])"

section \<open>The mouse\<close>

definition mouse_button_of :: "nat \<Rightarrow> mouse_button" where
  "mouse_button_of n = (if n = 1 then MiddleButton else if n = 2 then RightButton else LeftButton)"

definition sgr_kind :: "nat \<Rightarrow> bool \<Rightarrow> mouse_kind" where
  "sgr_kind pb is_release =
     (let btn_id = pb mod 4
      in if bit pb 6 then (if btn_id = 0 then MScrollUp else MScrollDown)
         else if is_release then MUp (mouse_button_of btn_id)
         else if bit pb 5 then (if btn_id = 3 then Moved else MDrag (mouse_button_of btn_id))
         else MDown (mouse_button_of btn_id))"

definition dispatch_sgr_mouse :: "nat \<Rightarrow> vt_parser \<Rightarrow> input_event list" where
  "dispatch_sgr_mouse final p =
     (if vp_pidx p < 3 then []
      else let pb = vp_params p ! 0
           in [EMouse (sgr_kind pb (final = ord (CHR ''m''))) (vp_params p ! 1 - 1) (vp_params p ! 2 - 1)
                 \<lparr>m_shift = bit pb 2, m_alt = bit pb 3, m_ctrl = bit pb 4\<rparr>])"

definition x10_kind :: "8 word \<Rightarrow> mouse_kind" where
  "x10_kind raw =
     (let btn_id = unat (raw AND 3)
      in if bit raw 6 then (if btn_id = 0 then MScrollUp else MScrollDown)
         else if bit raw 5 then (if btn_id = 3 then Moved else MDrag (mouse_button_of btn_id))
         else if btn_id = 3 then MUp LeftButton
         else MDown (mouse_button_of btn_id))"

text \<open>The outer option is the panic of an index past the buffer of three bytes.\<close>

definition on_x10 :: "nat \<Rightarrow> vt_parser \<Rightarrow> (vt_parser \<times> input_event list) option" where
  "on_x10 c p =
     (if vp_x10_n p \<ge> length (vp_x10 p) then None
      else let buf = (vp_x10 p)[vp_x10_n p := of_nat (min c 255)];
               p1 = p\<lparr>vp_x10 := buf, vp_x10_n := vp_x10_n p + 1\<rparr>
           in if vp_x10_n p1 < 3 then Some (p1, [])
              else let raw = buf ! 0 - 32
                   in Some (goto_state Ground p1,
                        [EMouse (x10_kind raw) (unat (buf ! 1 - 33)) (unat (buf ! 2 - 33))
                           \<lparr>m_shift = bit raw 2, m_alt = bit raw 3, m_ctrl = bit raw 4\<rparr>]))"

section \<open>Control sequences\<close>

definition csi_key :: "nat \<Rightarrow> key_code option" where
  "csi_key c = map_of
     (map (\<lambda>(l, k). (ord l, k))
       [(CHR ''A'', KUp), (CHR ''B'', KDown), (CHR ''C'', KRight), (CHR ''D'', KLeft), (CHR ''H'', KHome), (CHR ''F'', KEnd),
        (CHR ''P'', KF 1), (CHR ''Q'', KF 2), (CHR ''R'', KF 3), (CHR ''S'', KF 4)]) c"

definition csi_events :: "nat \<Rightarrow> vt_parser \<Rightarrow> input_event list" where
  "csi_events c p =
     (let mods = (if vp_pidx p \<ge> 2 then decode_modifiers (vp_params p ! 1) else no_mods)
      in case csi_key c of
           Some code \<Rightarrow> [EKey code mods]
         | None \<Rightarrow>
             if c = ord (CHR ''Z'') then [EKey KBackTab (no_mods\<lparr>m_shift := True\<rparr>)]
             else if c = ord (CHR ''I'') \<and> vp_pidx p \<le> 1 \<and> vp_params p ! 0 = 0 then [EFocusGained]
             else if c = ord (CHR ''O'') \<and> vp_pidx p \<le> 1 \<and> vp_params p ! 0 = 0 then [EFocusLost]
             else if c = ord (CHR ''~'') then dispatch_tilde mods p
             else [])"

definition dispatch_csi :: "nat \<Rightarrow> vt_parser \<Rightarrow> vt_parser \<times> input_event list" where
  "dispatch_csi c p =
     (if vp_priv p = ord (CHR ''<'') then (goto_state Ground p, dispatch_sgr_mouse c p)
      else if vp_priv p = ord (CHR ''?'') then (goto_state Ground p, [])
      else if c = ord (CHR ''~'') \<and> vp_pidx p \<ge> 1 \<and> vp_params p ! 0 = 200 then (goto_state Paste (p\<lparr>vp_paste := []\<rparr>), [])
      else (goto_state Ground p, csi_events c p))"

definition is_digit_char :: "nat \<Rightarrow> bool" where
  "is_digit_char c = (48 \<le> c \<and> c \<le> 57)"

definition is_final :: "nat \<Rightarrow> bool" where
  "is_final c = ((65 \<le> c \<and> c \<le> 90) \<or> (97 \<le> c \<and> c \<le> 122) \<or> c = ord (CHR ''~''))"

definition on_csi_entry :: "nat \<Rightarrow> vt_parser \<Rightarrow> vt_parser \<times> input_event list" where
  "on_csi_entry c p =
     (if c = ord (CHR ''<'') \<or> c = ord (CHR ''?'') then (goto_state CsiParam (p\<lparr>vp_priv := c\<rparr>), [])
      else if is_digit_char c then (goto_state CsiParam (p\<lparr>vp_cur := c - 48, vp_has_digit := True\<rparr>), [])
      else if c = ord (CHR '';'') then (goto_state CsiParam (finish_param p), [])
      else if c = ord (CHR ''M'') then (goto_state X10Mouse (p\<lparr>vp_x10_n := 0\<rparr>), [])
      else if is_final c then dispatch_csi c (finish_param p)
      else if c = 27 then (goto_state Escape p, [])
      else (goto_state Ground p, []))"

definition on_csi_param :: "nat \<Rightarrow> vt_parser \<Rightarrow> vt_parser \<times> input_event list" where
  "on_csi_param c p =
     (if is_digit_char c then (p\<lparr>vp_cur := add_digit (vp_cur p) (c - 48), vp_has_digit := True\<rparr>, [])
      else if c = ord (CHR '';'') \<or> c = ord (CHR '':'') then (finish_param p, [])
      else if is_final c then dispatch_csi c (finish_param p)
      else if c = 27 then (goto_state Escape p, [])
      else (goto_state Ground p, []))"

definition on_ss3 :: "nat \<Rightarrow> vt_parser \<Rightarrow> vt_parser \<times> input_event list" where
  "on_ss3 c p =
     (goto_state Ground p, [case csi_key c of Some code \<Rightarrow> EKey code no_mods | None \<Rightarrow> EKey (KChar c) alt])"

section \<open>Pastes and operating system commands\<close>

definition push_paste :: "nat list \<Rightarrow> vt_parser \<Rightarrow> vt_parser" where
  "push_paste cs p = p\<lparr>vp_paste := vp_paste p @ cs\<rparr>"

definition on_paste :: "nat \<Rightarrow> vt_parser \<Rightarrow> vt_parser" where
  "on_paste c p = (if c = 27 then goto_state PasteEsc p else push_paste [c] p)"

definition on_paste_esc :: "nat \<Rightarrow> vt_parser \<Rightarrow> vt_parser" where
  "on_paste_esc c p =
     (if c = ord (CHR ''['') then goto_state PasteBrk p else goto_state Paste (push_paste [27, c] p))"

definition on_paste_brk :: "nat \<Rightarrow> vt_parser \<Rightarrow> vt_parser" where
  "on_paste_brk c p =
     (if is_digit_char c then goto_state PasteNum (p\<lparr>vp_cur := c - 48\<rparr>)
      else goto_state Paste (push_paste [27, ord (CHR ''[''), c] p))"

definition on_paste_num :: "nat \<Rightarrow> vt_parser \<Rightarrow> vt_parser \<times> input_event list" where
  "on_paste_num c p =
     (if is_digit_char c then (p\<lparr>vp_cur := add_digit (vp_cur p) (c - 48)\<rparr>, [])
      else if c = ord (CHR ''~'') \<and> vp_cur p = 201 then (goto_state Ground (p\<lparr>vp_paste := []\<rparr>), [EPaste (vp_paste p)])
      else (goto_state Paste ((push_paste (27 # ord (CHR ''['') # map ord (show_digits (vp_cur p)) @ [c]) p)\<lparr>vp_cur := 0\<rparr>), []))"

definition OSC_LIMIT :: nat where "OSC_LIMIT = 131072"

definition dispatch_osc :: "vt_parser \<Rightarrow> input_event list" where
  "dispatch_osc p =
     (if take 3 (vp_osc p) \<noteq> map ord ''52;'' then []
      else let rest = drop 3 (vp_osc p)
           in case position (\<lambda>c. c = ord (CHR '';'')) rest of
                None \<Rightarrow> []
              | Some i \<Rightarrow>
                  let data = drop (i + 1) rest
                  in if data = [ord (CHR ''?'')] \<or> data = [] then []
                     else case base64_decode (utf8_text data) of
                            None \<Rightarrow> []
                          | Some text \<Rightarrow> if text = [] then [] else [EPaste text])"

definition on_osc :: "nat \<Rightarrow> vt_parser \<Rightarrow> vt_parser \<times> input_event list" where
  "on_osc c p =
     (if c = 7 then (goto_state Ground p, dispatch_osc p)
      else if c = 27 then (goto_state OscEsc p, [])
      else (if length (utf8_text (vp_osc p)) < OSC_LIMIT then p\<lparr>vp_osc := vp_osc p @ [c]\<rparr> else p, []))"

definition on_osc_esc :: "nat \<Rightarrow> vt_parser \<Rightarrow> vt_parser \<times> input_event list" where
  "on_osc_esc c p =
     (if c = ord (CHR 0x5C) then (goto_state Ground p, dispatch_osc p)
      else on_escape c (goto_state Escape (p\<lparr>vp_osc := []\<rparr>)))"

section \<open>One character\<close>

definition feed :: "nat \<Rightarrow> vt_parser \<Rightarrow> (vt_parser \<times> input_event list) option" where
  "feed c p = (case vp_state p of
     Ground \<Rightarrow> Some (on_ground c p)
   | Escape \<Rightarrow> Some (on_escape c p)
   | CsiEntry \<Rightarrow> Some (on_csi_entry c p)
   | CsiParam \<Rightarrow> Some (on_csi_param c p)
   | X10Mouse \<Rightarrow> on_x10 c p
   | Ss3 \<Rightarrow> Some (on_ss3 c p)
   | Paste \<Rightarrow> Some (on_paste c p, [])
   | PasteEsc \<Rightarrow> Some (on_paste_esc c p, [])
   | PasteBrk \<Rightarrow> Some (on_paste_brk c p, [])
   | PasteNum \<Rightarrow> Some (on_paste_num c p)
   | Osc \<Rightarrow> Some (on_osc c p)
   | OscEsc \<Rightarrow> Some (on_osc_esc c p))"

text \<open>What a text makes of the parser, with all its events.\<close>

fun feed_text :: "nat list \<Rightarrow> vt_parser \<Rightarrow> (vt_parser \<times> input_event list) option" where
  "feed_text [] p = Some (p, [])"
| "feed_text (c # cs) p =
     do { (p1, evs) \<leftarrow> feed c p; (p2, later) \<leftarrow> feed_text cs p1; Some (p2, evs @ later) }"

section \<open>The reader of the Windows console\<close>

datatype console_record =
  KeyRecord bool nat nat nat
| SizeRecord int int
| MouseRecord int int nat nat nat
| OtherRecord

definition vk_to_keycode :: "nat \<Rightarrow> key_code option" where
  "vk_to_keycode vk =
     (if 112 \<le> vk \<and> vk \<le> 123 then Some (KF (vk - 111))
      else map_of [(8, KBackspace), (9, KTab), (13, KEnter), (27, KEsc), (32, KChar 32), (33, KPageUp), (34, KPageDown),
        (35, KEnd), (36, KHome), (37, KLeft), (38, KUp), (39, KRight), (40, KDown), (45, KInsert), (46, KDelete)] vk)"

definition vk_modifiers :: "nat \<Rightarrow> key_mods" where
  "vk_modifiers state =
     \<lparr>m_shift = bit state 4, m_alt = (bit state 0 \<or> bit state 1), m_ctrl = (bit state 2 \<or> bit state 3)\<rparr>"

definition native_kind :: "nat \<Rightarrow> nat \<Rightarrow> mouse_kind option" where
  "native_kind buttons flags =
     (if bit flags 2 then
        (let delta = buttons div 65536 mod 65536 in Some (if 0 < delta \<and> delta < 32768 then MScrollUp else MScrollDown))
      else if bit flags 0 then
        Some (if bit buttons 0 then MDrag LeftButton else if bit buttons 1 then MDrag RightButton else Moved)
      else if bit buttons 0 then Some (MDown LeftButton)
      else if bit buttons 1 then Some (MDown RightButton)
      else if bit buttons 2 then Some (MDown MiddleButton)
      else if buttons = 0 \<and> flags = 0 then Some (MUp LeftButton)
      else None)"

definition convert_native_mouse :: "int \<Rightarrow> int \<Rightarrow> nat \<Rightarrow> nat \<Rightarrow> nat \<Rightarrow> input_event option" where
  "convert_native_mouse x y buttons state flags =
     map_option (\<lambda>kind. EMouse kind (nat (max x 0)) (nat (max y 0)) (vk_modifiers state)) (native_kind buttons flags)"

text \<open>A record read from the console: a key with a character feeds the parser, one without is a key by itself.\<close>

definition read_record :: "console_record \<Rightarrow> vt_parser \<Rightarrow> (vt_parser \<times> input_event list) option" where
  "read_record r p = (case r of
     KeyRecord down vk unit state \<Rightarrow>
       if \<not> down then Some (p, [])
       else if unit \<noteq> 0 then
         (let (ch, high) = decode_utf16_unit unit (vp_hi_sur p); p1 = p\<lparr>vp_hi_sur := high\<rparr>
          in case ch of None \<Rightarrow> Some (p1, []) | Some c \<Rightarrow> feed c p1)
       else Some (cancel_escape p, case vk_to_keycode vk of None \<Rightarrow> [] | Some code \<Rightarrow> [EKey code (vk_modifiers state)])
   | SizeRecord x y \<Rightarrow> Some (p, [EResize (nat (x mod 65536)) (nat (y mod 65536))])
   | MouseRecord x y buttons state flags \<Rightarrow>
       Some (p, case convert_native_mouse x y buttons state flags of None \<Rightarrow> [] | Some e \<Rightarrow> [e])
   | OtherRecord \<Rightarrow> Some (p, []))"

end
