(* ===== verification/Key_Output.thy ===== *)
theory Key_Output
  imports Key_Input
begin

text \<open>
  What the server writes to the program of a pane for a key or the mouse
  (\<open>src/core/src/input.rs\<close>), and what a client writes to its terminal to set the clipboard
  (\<open>src/core/src/copy_mode.rs\<close>, \<open>src/core/src/util.rs\<close>). Whether the server runs on Windows is
  the first argument of what depends on it.
\<close>

definition esc :: string where "esc = [char_of (27 :: nat)]"

section \<open>Keys\<close>

definition modifier_param :: "key_mods \<Rightarrow> nat" where
  "modifier_param m = 1 + (if m_shift m then 1 else 0) + (if m_alt m then 2 else 0) + (if m_ctrl m then 4 else 0)"

definition fkey_code :: "nat \<Rightarrow> nat option" where
  "fkey_code n = map_of [(5, 15), (6, 17), (7, 18), (8, 19), (9, 20), (10, 21), (11, 23), (12, 24)] n"

definition encode_fkey :: "nat \<Rightarrow> nat \<Rightarrow> string" where
  "encode_fkey n m =
     (if 1 \<le> n \<and> n \<le> 4 then
        (let suffix = ''PQRS'' ! (n - 1)
         in if m > 1 then esc @ ''[1;'' @ show_digits m @ [suffix] else esc @ ''O'' @ [suffix])
      else case fkey_code n of
             None \<Rightarrow> []
           | Some code \<Rightarrow>
               if m > 1 then esc @ ''['' @ show_digits code @ '';'' @ show_digits m @ ''~''
               else esc @ ''['' @ show_digits code @ ''~'')"

definition cursor_letter :: "key_code \<Rightarrow> char option" where
  "cursor_letter code = (case code of
     KUp \<Rightarrow> Some (CHR ''A'') | KDown \<Rightarrow> Some (CHR ''B'') | KRight \<Rightarrow> Some (CHR ''C'') | KLeft \<Rightarrow> Some (CHR ''D'')
   | KHome \<Rightarrow> Some (CHR ''H'') | KEnd \<Rightarrow> Some (CHR ''F'') | _ \<Rightarrow> None)"

definition tilde_number :: "key_code \<Rightarrow> nat option" where
  "tilde_number code = (case code of
     KInsert \<Rightarrow> Some 2 | KDelete \<Rightarrow> Some 3 | KPageUp \<Rightarrow> Some 5 | KPageDown \<Rightarrow> Some 6 | _ \<Rightarrow> None)"

text \<open>A character: what AltGr makes is taken as it is, Alt puts an escape before, Ctrl keeps the low five bits.\<close>

definition encode_char :: "nat \<Rightarrow> key_mods \<Rightarrow> string" where
  "encode_char c m =
     (if m_ctrl m \<and> m_alt m \<and> \<not> (97 \<le> c \<and> c \<le> 122) then utf8 c
      else if m_ctrl m \<and> m_alt m then esc @ [char_of (c mod 256 mod 32)]
      else if m_alt m then esc @ utf8 c
      else if m_ctrl m then [char_of (c mod 256 mod 32)]
      else utf8 c)"

definition encode_key_event :: "bool \<Rightarrow> key_code \<Rightarrow> key_mods \<Rightarrow> string option" where
  "encode_key_event windows code mods =
     (let m = modifier_param mods
      in case code of
           KChar c \<Rightarrow> Some (encode_char c mods)
         | KEnter \<Rightarrow> Some (if m > 1 \<and> windows \<and> \<not> m_ctrl mods then esc @ [char_of (13::nat)]
                           else if m > 1 then esc @ ''[13;'' @ show_digits m @ ''~'' else [char_of (13::nat)])
         | KTab \<Rightarrow> Some (if m > 1 then esc @ ''[9;'' @ show_digits m @ ''~'' else [char_of (9::nat)])
         | KBackTab \<Rightarrow> Some (if m > 1 then esc @ ''[9;'' @ show_digits (if even m then m + 1 else m) @ ''~'' else esc @ ''[Z'')
         | KBackspace \<Rightarrow> Some [char_of (8::nat)]
         | KEsc \<Rightarrow> Some esc
         | KF n \<Rightarrow> Some (encode_fkey n m)
         | KOther \<Rightarrow> None
         | _ \<Rightarrow>
             (case cursor_letter code of
                Some l \<Rightarrow> Some (if m > 1 then esc @ ''[1;'' @ show_digits m @ [l] else esc @ ''['' @ [l])
              | None \<Rightarrow>
                  (case tilde_number code of
                     Some n \<Rightarrow> Some (if m > 1 then esc @ ''['' @ show_digits n @ '';'' @ show_digits m @ ''~''
                                     else esc @ ''['' @ show_digits n @ ''~'')
                   | None \<Rightarrow> None)))"

section \<open>The mouse\<close>

text \<open>The argument is whether the program asked for the SGR encoding; the other one is of single bytes.\<close>

definition write_mouse_event :: "bool \<Rightarrow> nat \<Rightarrow> nat \<Rightarrow> nat \<Rightarrow> bool \<Rightarrow> string" where
  "write_mouse_event sgr button col row press =
     (if sgr then
        esc @ ''[<'' @ show_digits button @ '';'' @ show_digits col @ '';'' @ show_digits row @ [if press then CHR ''M'' else CHR ''m'']
      else if press then
        esc @ ''[M'' @ [char_of ((button + 32) mod 256), char_of (min (col mod 256) 223 + 32), char_of (min (row mod 256) 223 + 32)]
      else [])"

section \<open>The clipboard\<close>

definition b64_char :: "8 word \<Rightarrow> char" where
  "b64_char w = BASE64_CHARS ! unat w"

definition to_byte :: "char \<Rightarrow> 8 word" where
  "to_byte c = of_nat (of_char c)"

definition base64_chunk :: "8 word \<Rightarrow> 8 word \<Rightarrow> 8 word \<Rightarrow> string" where
  "base64_chunk b0 b1 b2 =
     [b64_char (drop_bit 2 b0), b64_char (push_bit 4 (b0 AND 3) OR drop_bit 4 b1),
      b64_char (push_bit 2 (b1 AND 15) OR drop_bit 6 b2), b64_char (b2 AND 63)]"

fun base64_encode :: "string \<Rightarrow> string" where
  "base64_encode [] = []"
| "base64_encode [a] = take 2 (base64_chunk (to_byte a) 0 0) @ ''==''"
| "base64_encode [a, b] = take 3 (base64_chunk (to_byte a) (to_byte b) 0) @ ''=''"
| "base64_encode (a # b # c # rest) = base64_chunk (to_byte a) (to_byte b) (to_byte c) @ base64_encode rest"

definition emit_osc52 :: "nat list \<Rightarrow> string" where
  "emit_osc52 text = esc @ '']52;c;'' @ base64_encode (utf8_text text) @ [char_of (7::nat)]"

end
