(* ===== verification/Key_Parser.thy ===== *)
theory Key_Parser
  imports Key_Output
begin

text \<open>
  What holds of the parser of a client's input on every input: it never panics, its numbers and
  buffers are bounded, and the numbers of a control sequence are read as they were printed.
\<close>

section \<open>A parser that cannot panic\<close>

definition parser_ok :: "vt_parser \<Rightarrow> bool" where
  "parser_ok p =
     (length (vp_params p) = 8 \<and> vp_pidx p \<le> 8 \<and> vp_cur p \<le> 65535 \<and> (\<forall>n\<in>set (vp_params p). n \<le> 65535) \<and>
      length (vp_x10 p) = 3 \<and> (vp_state p = X10Mouse \<longrightarrow> vp_x10_n p < 3) \<and>
      length (utf8_text (vp_osc p)) < OSC_LIMIT + 4)"

lemma add_digit_bound [simp]: "add_digit n d \<le> 65535"
  by (simp add: add_digit_def sat_add16_def)

lemma finish_param_ok [simp]: "parser_ok p \<Longrightarrow> parser_ok (finish_param p)"
  by (auto simp: parser_ok_def finish_param_def dest: subsetD [OF set_update_subset_insert])

lemma finish_param_same [simp]:
  "vp_state (finish_param p) = vp_state p" "vp_priv (finish_param p) = vp_priv p" "vp_cur (finish_param p) = 0"
  by (simp_all add: finish_param_def)

lemma goto_state_ok: "parser_ok p \<Longrightarrow> s \<noteq> X10Mouse \<Longrightarrow> parser_ok (goto_state s p)"
  by (simp add: parser_ok_def goto_state_def)

lemma reset_csi_ok: "parser_ok p \<Longrightarrow> parser_ok (reset_csi p)"
  by (simp add: parser_ok_def reset_csi_def)

lemma small_limit: "0 < OSC_LIMIT"
  by (simp add: OSC_LIMIT_def)

lemmas step_ok = goto_state_ok reset_csi_ok finish_param_ok

lemma dispatch_csi_ok: "parser_ok p \<Longrightarrow> parser_ok (fst (dispatch_csi c p))"
  by (auto simp: dispatch_csi_def intro!: goto_state_ok) (simp add: parser_ok_def)

lemma on_ground_ok: "parser_ok p \<Longrightarrow> parser_ok (fst (on_ground c p))"
  by (simp add: on_ground_def goto_state_ok)

lemma on_escape_ok:
  assumes "parser_ok p"
  shows "parser_ok (fst (on_escape c p))"
proof -
  have "parser_ok (fst (on_ground c (goto_state Ground p)))" using assms by (intro on_ground_ok goto_state_ok) simp_all
  moreover have "parser_ok (p\<lparr>vp_osc := []\<rparr>)" using assms small_limit by (simp add: parser_ok_def utf8_text_def)
  ultimately show ?thesis
    using assms by (auto simp: on_escape_def split_beta Let_def intro!: goto_state_ok reset_csi_ok)
qed

lemma on_csi_ok:
  assumes "parser_ok p" "vp_state p = CsiEntry \<or> vp_state p = CsiParam"
  shows "parser_ok (fst (on_csi_entry c p))" "parser_ok (fst (on_csi_param c p))"
proof -
  have "parser_ok (goto_state X10Mouse (p\<lparr>vp_x10_n := 0\<rparr>))" using assms by (simp add: parser_ok_def goto_state_def)
  moreover have "parser_ok (p\<lparr>vp_priv := n\<rparr>)" for n using assms by (simp add: parser_ok_def)
  moreover have "parser_ok (p\<lparr>vp_cur := n, vp_has_digit := True\<rparr>)" if "n \<le> 65535" for n
    using assms that by (simp add: parser_ok_def)
  moreover have "is_digit_char c \<Longrightarrow> c - 48 \<le> 65535" unfolding is_digit_char_def by linarith
  ultimately show "parser_ok (fst (on_csi_entry c p))" "parser_ok (fst (on_csi_param c p))"
    using assms(1) by (auto simp: on_csi_entry_def on_csi_param_def intro!: goto_state_ok dispatch_csi_ok finish_param_ok)
qed

lemma on_x10_ok:
  assumes "parser_ok p" "vp_state p = X10Mouse"
  shows "\<exists>p' evs. on_x10 c p = Some (p', evs) \<and> parser_ok p'"
  using assms by (auto simp: on_x10_def parser_ok_def goto_state_def Let_def)

lemma paste_ok: "parser_ok p \<Longrightarrow> parser_ok (push_paste cs p)"
  by (simp add: parser_ok_def push_paste_def)

lemma on_paste_ok:
  assumes "parser_ok p"
  shows "parser_ok (on_paste c p)" "parser_ok (on_paste_esc c p)" "parser_ok (on_paste_brk c p)" "parser_ok (fst (on_paste_num c p))"
proof -
  have "parser_ok (p\<lparr>vp_cur := n\<rparr>)" if "n \<le> 65535" for n using assms that by (simp add: parser_ok_def)
  moreover have "is_digit_char c \<Longrightarrow> c - 48 \<le> 65535" unfolding is_digit_char_def by linarith
  moreover have "parser_ok (goto_state Ground (p\<lparr>vp_paste := []\<rparr>))" using assms by (simp add: parser_ok_def goto_state_def)
  moreover have "parser_ok (goto_state Paste ((push_paste cs p)\<lparr>vp_cur := 0\<rparr>))" for cs
    using paste_ok [OF assms, of cs] by (simp add: parser_ok_def goto_state_def)
  ultimately show "parser_ok (on_paste c p)" "parser_ok (on_paste_esc c p)" "parser_ok (on_paste_brk c p)"
    "parser_ok (fst (on_paste_num c p))"
    using assms
    by (auto simp: on_paste_def on_paste_esc_def on_paste_brk_def on_paste_num_def intro!: goto_state_ok paste_ok)
qed

lemma length_utf8: "1 \<le> length (utf8 c)" "length (utf8 c) \<le> 4"
  by (simp_all add: utf8_def)

lemma on_osc_ok:
  assumes "parser_ok p" "vp_state p = Osc \<or> vp_state p = OscEsc"
  shows "parser_ok (fst (on_osc c p))" "parser_ok (fst (on_osc_esc c p))"
proof -
  have "length (utf8_text (vp_osc p @ [c])) < OSC_LIMIT + 4" if "length (utf8_text (vp_osc p)) < OSC_LIMIT"
    using that length_utf8(2) [of c] by (simp add: utf8_text_def)
  then have "parser_ok (p\<lparr>vp_osc := vp_osc p @ [c]\<rparr>)" if "length (utf8_text (vp_osc p)) < OSC_LIMIT"
    using assms that by (simp add: parser_ok_def)
  then show "parser_ok (fst (on_osc c p))" using assms(1) by (auto simp: on_osc_def intro!: goto_state_ok)
  have "parser_ok (p\<lparr>vp_osc := []\<rparr>)" using assms(1) small_limit by (simp add: parser_ok_def utf8_text_def)
  then show "parser_ok (fst (on_osc_esc c p))"
    using assms(1) by (auto simp: on_osc_esc_def intro!: goto_state_ok on_escape_ok)
qed

lemma feed_ok:
  assumes "parser_ok p"
  shows "\<exists>p' evs. feed c p = Some (p', evs) \<and> parser_ok p'"
  using assms on_ground_ok [OF assms, of c] on_escape_ok [OF assms, of c] on_csi_ok [OF assms, of c] on_x10_ok [OF assms, of c]
    on_paste_ok [OF assms, of c] on_osc_ok [OF assms, of c]
  by (cases "vp_state p") (auto simp: feed_def on_ss3_def goto_state_ok prod_eq_iff)

lemma read_record_ok:
  assumes "parser_ok p"
  shows "\<exists>p' evs. read_record r p = Some (p', evs) \<and> parser_ok p'"
proof -
  have "parser_ok (p\<lparr>vp_hi_sur := h\<rparr>)" for h using assms by (simp add: parser_ok_def)
  moreover have "parser_ok (cancel_escape p)" using assms by (simp add: cancel_escape_def goto_state_ok)
  ultimately show ?thesis
    using assms feed_ok by (auto simp: read_record_def split_beta Let_def split: console_record.split option.split)
qed

lemma flush_escape_ok: "parser_ok p \<Longrightarrow> parser_ok (fst (flush_escape p))"
  by (simp add: flush_escape_def goto_state_ok)

text \<open>What the reader does: it takes a record, or nothing came for a while.\<close>

datatype reader_event = Record console_record | Pause

definition reader_step :: "reader_event \<Rightarrow> vt_parser \<Rightarrow> vt_parser option" where
  "reader_step s p = (case s of
     Record r \<Rightarrow> map_option fst (read_record r p)
   | Pause \<Rightarrow> Some (fst (flush_escape p)))"

interpretation reader: safe_machine reader_step parser_ok "\<lambda>_ _. True"
proof
  show "\<exists>s'. reader_step e s = Some s' \<and> parser_ok s'" if "parser_ok s" for e s
    using that read_record_ok [of s] flush_escape_ok [of s] by (fastforce simp: reader_step_def split: reader_event.split)
qed

lemma parser_new_ok: "parser_ok parser_new"
  by (simp add: parser_ok_def parser_new_def utf8_text_def OSC_LIMIT_def)

text \<open>C14: Whatever the console delivers, in whatever portions, the reader never panics: the three bytes
  of an old mouse report never overrun their buffer. There are never more than eight parameters,
  every number stays within 16 bits and the text of an operating system command never exceeds
  its limit by more than three bytes.\<close>

theorem console_reader_bounded:
  "\<exists>p. each_opt reader_step steps parser_new = Some p \<and> vp_pidx p \<le> 8 \<and> length (vp_params p) = 8 \<and>
     list_all (\<lambda>n. n \<le> 65535) (vp_cur p # vp_params p) \<and> length (utf8_text (vp_osc p)) \<le> OSC_LIMIT + 3"
proof -
  obtain p where "each_opt reader_step steps parser_new = Some p" "parser_ok p"
    using reader.run_safe_always [OF parser_new_ok, of steps] by blast
  then show ?thesis by (auto simp: parser_ok_def list_all_iff)
qed

section \<open>Control sequences\<close>

lemma feed_text_append:
  "feed_text (cs @ ds) p =
     (case feed_text cs p of
        None \<Rightarrow> None
      | Some (p1, evs) \<Rightarrow> map_option (\<lambda>(p2, later). (p2, evs @ later)) (feed_text ds p1))"
  by (induction cs arbitrary: p) (auto simp: option.map_id split: option.splits Option.bind_split)

lemma feed_quiet: "feed c p = Some (q, []) \<Longrightarrow> feed_text (c # cs) p = feed_text cs q"
  by (simp add: option.map_id split: Option.bind_split)

text \<open>The digits of a number, in the middle of a sequence and at its start.\<close>

lemma foldl_digits_ge: "n \<le> foldl (\<lambda>a c. a * 10 + (of_char c - 48)) n ds" for n :: nat
proof (induction ds arbitrary: n)
  case (Cons d ds)
  have "n \<le> n * 10 + (of_char d - 48)" by simp
  also have "\<dots> \<le> foldl (\<lambda>a c. a * 10 + (of_char c - 48)) (n * 10 + (of_char d - 48)) ds" by (rule Cons)
  finally show ?case by simp
qed simp

lemma is_digit_ord: "is_digit d \<longleftrightarrow> is_digit_char (ord d)"
  by (simp add: is_digit_def is_digit_char_def)

lemma digit_not_special: "is_digit_char c \<Longrightarrow> c \<notin> {60, 63, 59, 58, 27, 91, 77}"
  by (auto simp: is_digit_char_def)

lemma feed_digits:
  assumes "list_all is_digit ds" "vp_state p = CsiParam"
    "foldl (\<lambda>a c. a * 10 + (of_char c - 48)) (vp_cur p) ds \<le> 65535" "ds \<noteq> []"
  shows "feed_text (map ord ds) p =
     Some (p\<lparr>vp_cur := foldl (\<lambda>a c. a * 10 + (of_char c - 48)) (vp_cur p) ds, vp_has_digit := True\<rparr>, [])"
  using assms
proof (induction ds arbitrary: p)
  case (Cons d ds)
  let ?n = "vp_cur p * 10 + (ord d - 48)"
  let ?p = "p\<lparr>vp_cur := ?n, vp_has_digit := True\<rparr>"
  have "?n \<le> 65535" using foldl_digits_ge [of ?n ds] Cons.prems(3) by simp
  then have "feed (ord d) p = Some (?p, [])"
    using Cons.prems(1,2) by (simp add: feed_def on_csi_param_def add_digit_def sat_add16_def is_digit_ord)
  then show ?case using Cons.IH [of ?p] Cons.prems by (cases "ds = []") simp_all
qed simp

lemma feed_number:
  assumes "n \<le> 65535" "vp_state p = CsiParam" "vp_cur p = 0"
  shows "feed_text (map ord (show_digits n)) p = Some (p\<lparr>vp_cur := n, vp_has_digit := True\<rparr>, [])"
  using feed_digits [of "show_digits n" p] show_digits_props [of n] assms by (simp add: digits_value_def)

text \<open>A parser right after the start of a control sequence reads a number as one within it.\<close>

lemma feed_entry_digit:
  assumes "is_digit d" "vp_state p = CsiEntry" "vp_cur p = 0"
  shows "feed_text (ord d # cs) p = feed_text (ord d # cs) (goto_state CsiParam p)"
proof -
  have "is_digit_char (ord d)" "ord d - 48 \<le> 65535" using assms(1) unfolding is_digit_ord is_digit_char_def by simp_all linarith
  then have "feed (ord d) p = feed (ord d) (goto_state CsiParam p)"
    using assms digit_not_special [of "ord d"]
    by (simp add: feed_def on_csi_entry_def on_csi_param_def goto_state_def add_digit_def sat_add16_def)
  then show ?thesis by simp
qed

lemma feed_entry_number:
  assumes "vp_state p = CsiEntry" "vp_cur p = 0"
  shows "feed_text (map ord (show_digits n) @ cs) p = feed_text (map ord (show_digits n) @ cs) (goto_state CsiParam p)"
proof -
  obtain d ds where "show_digits n = d # ds" "is_digit d"
    using show_digits_props [of n] by (cases "show_digits n") auto
  then show ?thesis using feed_entry_digit [OF _ assms] by simp
qed

text \<open>A parser in a control sequence: its introducer, the parameters read so far.\<close>

definition in_csi :: "nat \<Rightarrow> nat list \<Rightarrow> vt_parser \<Rightarrow> bool" where
  "in_csi priv ns p =
     (vp_state p = CsiParam \<and> vp_cur p = 0 \<and> vp_priv p = priv \<and> vp_pidx p = length ns \<and> length ns \<le> 8 \<and>
      vp_params p = ns @ replicate (8 - length ns) 0)"

lemma finish_in_csi:
  assumes "in_csi priv ns p" "length ns < 8"
  shows "in_csi priv (ns @ [n]) (finish_param (p\<lparr>vp_cur := n, vp_has_digit := True\<rparr>))"
proof -
  obtain k where "8 - length ns = Suc k" using assms(2) by (cases "8 - length ns") auto
  moreover from this have "8 - Suc (length ns) = k" by simp
  ultimately show ?thesis using assms by (simp add: in_csi_def finish_param_def list_update_append)
qed

lemma feed_param:
  assumes "in_csi priv ns p" "length ns < 8" "n \<le> 65535"
  shows "\<exists>q. in_csi priv (ns @ [n]) q \<and>
    feed_text (map ord (show_digits n) @ ord (CHR '';'') # cs) p = feed_text cs q"
proof (intro exI conjI)
  let ?q = "finish_param (p\<lparr>vp_cur := n, vp_has_digit := True\<rparr>)"
  show "in_csi priv (ns @ [n]) ?q" by (rule finish_in_csi [OF assms(1,2)])
  have "feed_text (map ord (show_digits n)) p = Some (p\<lparr>vp_cur := n, vp_has_digit := True\<rparr>, [])"
    using assms by (intro feed_number) (simp_all add: in_csi_def)
  then show "feed_text (map ord (show_digits n) @ ord (CHR '';'') # cs) p = feed_text cs ?q"
    using assms(1)
    by (simp add: feed_text_append feed_def on_csi_param_def is_digit_char_def in_csi_def option.map_id)
qed

lemma feed_last_param:
  assumes "in_csi priv ns p" "length ns < 8" "n \<le> 65535" "is_final c"
  shows "\<exists>q. in_csi priv (ns @ [n]) q \<and> feed_text (map ord (show_digits n) @ [c]) p = Some (dispatch_csi c q)"
proof (intro exI conjI)
  let ?q = "finish_param (p\<lparr>vp_cur := n, vp_has_digit := True\<rparr>)"
  show "in_csi priv (ns @ [n]) ?q" by (rule finish_in_csi [OF assms(1,2)])
  have "feed_text (map ord (show_digits n)) p = Some (p\<lparr>vp_cur := n, vp_has_digit := True\<rparr>, [])"
    using assms by (intro feed_number) (simp_all add: in_csi_def)
  moreover have "\<not> is_digit_char c" "c \<noteq> 59" "c \<noteq> 58" using assms(4) by (auto simp: is_final_def is_digit_char_def)
  ultimately show "feed_text (map ord (show_digits n) @ [c]) p = Some (dispatch_csi c ?q)"
    using assms(1,4)
    by (simp add: feed_text_append feed_def on_csi_param_def in_csi_def split_beta)
qed

lemma feed_csi_start:
  assumes "vp_state p = Ground"
  shows "\<exists>q. in_csi 0 [] q \<and> vp_osc q = vp_osc p \<and>
    feed_text (27 # ord (CHR ''['') # map ord (show_digits n) @ cs) p = feed_text (map ord (show_digits n) @ cs) q"
proof (intro exI conjI)
  let ?e = "goto_state CsiEntry (reset_csi (goto_state Escape p))"
  let ?q = "goto_state CsiParam ?e"
  show "in_csi 0 [] ?q" "vp_osc ?q = vp_osc p" by (simp_all add: in_csi_def goto_state_def reset_csi_def)
  have "feed_text (map ord (show_digits n) @ cs) ?e = feed_text (map ord (show_digits n) @ cs) ?q"
    by (rule feed_entry_number) (simp_all add: goto_state_def reset_csi_def)
  moreover have "feed_text (27 # ord (CHR ''['') # ds) p = feed_text ds ?e" for ds
    using assms by (simp add: feed_def on_ground_def on_escape_def goto_state_def split: Option.bind_split)
  ultimately show "feed_text (27 # ord (CHR ''['') # map ord (show_digits n) @ cs) p = feed_text (map ord (show_digits n) @ cs) ?q"
    by simp
qed

end
