(* ===== verification/Key_Clipboard.thy ===== *)
theory Key_Clipboard
  imports Key_Parser Bytes
begin

text \<open>
  Text that comes through the terminal of a client: the clipboard that \<open>emit_osc52\<close> sets is read
  back, and a bracketed paste arrives as it was sent unless an escape in it ends it early or
  hides its end.
\<close>

section \<open>Base64\<close>

lemma base64_chars: "length BASE64_CHARS = 64" "CHR ''='' \<notin> set BASE64_CHARS" "distinct BASE64_CHARS"
  by (simp_all add: BASE64_CHARS_def)

lemma position_nth: "distinct xs \<Longrightarrow> i < length xs \<Longrightarrow> position ((=) (xs ! i)) xs = Some i"
  by (induction xs arbitrary: i) (auto simp: nth_Cons split: nat.splits)

lemma b64_index_char:
  assumes "unat w < 64"
  shows "b64_index (b64_char w) = Some w" "b64_char w \<noteq> CHR ''=''"
proof -
  show "b64_index (b64_char w) = Some w"
    using assms position_nth [OF base64_chars(3), of "unat w"] by (simp add: b64_index_def b64_char_def base64_chars(1))
  have "b64_char w \<in> set BASE64_CHARS" using assms by (simp add: b64_char_def base64_chars(1))
  then show "b64_char w \<noteq> CHR ''=''" using base64_chars(2) by auto
qed

lemma byte_of_byte [simp]: "byte_of (to_byte c) = c"
  by (simp add: byte_of_def to_byte_def unat_of_nat)

lemma base64_quad:
  assumes "unat i < 64" "unat j < 64"
  shows "base64_groups (filter (\<lambda>c. c \<noteq> CHR ''='') ([b64_char i, b64_char j] @ ''=='')) =
      Some [byte_of (push_bit 2 i OR drop_bit 4 j)]"
    "unat k < 64 \<Longrightarrow> base64_groups (filter (\<lambda>c. c \<noteq> CHR ''='') ([b64_char i, b64_char j, b64_char k] @ ''='')) =
      Some [byte_of (push_bit 2 i OR drop_bit 4 j), byte_of (push_bit 4 j OR drop_bit 2 k)]"
    "unat k < 64 \<Longrightarrow> unat l < 64 \<Longrightarrow>
      base64_groups (filter (\<lambda>c. c \<noteq> CHR ''='') ([b64_char i, b64_char j, b64_char k, b64_char l] @ rest)) =
      map_option (\<lambda>tail. byte_of (push_bit 2 i OR drop_bit 4 j) # byte_of (push_bit 4 j OR drop_bit 2 k) #
          byte_of (push_bit 6 k OR l) # tail) (base64_groups (filter (\<lambda>c. c \<noteq> CHR ''='') rest))"
  using assms by (auto simp: b64_index_char split: Option.bind_split)

lemma base64_groups_back: "base64_groups (filter (\<lambda>c. c \<noteq> CHR ''='') (base64_encode bs)) = Some bs"
proof (induction bs rule: base64_encode.induct)
  case (2 a)
  have e: "base64_encode [a] = [b64_char (drop_bit 2 (to_byte a)), b64_char (push_bit 4 (to_byte a AND 3) OR drop_bit 4 0)] @ ''==''"
    by (simp only: base64_encode.simps base64_chunk_def) simp
  show ?case unfolding e base64_quad(1) [OF chunk_small(1,2)] chunk_back(1) by simp
next
  case (3 a b)
  have e: "base64_encode [a, b] = [b64_char (drop_bit 2 (to_byte a)), b64_char (push_bit 4 (to_byte a AND 3) OR drop_bit 4 (to_byte b)),
      b64_char (push_bit 2 (to_byte b AND 15) OR drop_bit 6 0)] @ ''=''"
    by (simp only: base64_encode.simps base64_chunk_def) simp
  show ?case unfolding e base64_quad(2) [OF chunk_small(1,2,3)] chunk_back(1,2) by simp
next
  case (4 a b c rest)
  show ?case
    unfolding base64_encode.simps base64_chunk_def base64_quad(3) [OF chunk_small(1,2,3,4)] chunk_back(1-3) 4
    by simp
qed simp

lemma base64_decode_encode: "\<forall>c\<in>set cs. is_scalar c \<Longrightarrow> base64_decode (base64_encode (utf8_text cs)) = Some cs"
  by (simp add: base64_decode_def base64_groups_back from_utf8_text)

section \<open>The clipboard\<close>

lemma base64_ascii: "\<forall>c\<in>set BASE64_CHARS. ord c < 128 \<and> ord c \<noteq> 7 \<and> ord c \<noteq> 27"
  by (simp add: BASE64_CHARS_def)

lemma b64_char_ascii: "unat w < 64 \<Longrightarrow> ord (b64_char w) < 128 \<and> ord (b64_char w) \<noteq> 7 \<and> ord (b64_char w) \<noteq> 27"
  using base64_ascii by (simp add: b64_char_def base64_chars(1))

lemma base64_chunk_ascii: "c \<in> set (base64_chunk a b d) \<Longrightarrow> ord c < 128 \<and> ord c \<noteq> 7 \<and> ord c \<noteq> 27"
  unfolding base64_chunk_def using chunk_small [THEN b64_char_ascii] by (auto simp del: push_bit_and)

lemma base64_encode_ascii: "c \<in> set (base64_encode bs) \<Longrightarrow> ord c < 128 \<and> ord c \<noteq> 7 \<and> ord c \<noteq> 27"
proof (induction bs rule: base64_encode.induct)
  case (2 a)
  then show ?case using base64_chunk_ascii [of c "to_byte a" 0 0] by (auto dest: in_set_takeD)
next
  case (3 a b)
  then show ?case using base64_chunk_ascii [of c "to_byte a" "to_byte b" 0] by (auto dest: in_set_takeD)
next
  case (4 a b d rest)
  then show ?case using base64_chunk_ascii [of c "to_byte a" "to_byte b" "to_byte d"] by auto
qed simp

lemma base64_length: "length (base64_encode bs) = 4 * ((length bs + 2) div 3)"
proof (induction bs rule: base64_encode.induct)
  case (4 a b c rest)
  have "(length rest + 3 + 2) div 3 = (length rest + 2) div 3 + 1" by presburger
  with 4 show ?case by (simp add: base64_chunk_def)
qed (simp_all add: base64_chunk_def)

lemma feed_osc_text:
  assumes "vp_state p = Osc" "\<forall>c\<in>set cs. c \<noteq> 7 \<and> c \<noteq> 27" "length (utf8_text (vp_osc p @ cs)) \<le> OSC_LIMIT"
  shows "feed_text cs p = Some (p\<lparr>vp_osc := vp_osc p @ cs\<rparr>, [])"
  using assms
proof (induction cs arbitrary: p)
  case (Cons c cs)
  have "length (utf8_text (vp_osc p)) < OSC_LIMIT"
    using Cons.prems(3) length_utf8(1) [of c] by (simp add: utf8_text_def)
  then have "feed c p = Some (p\<lparr>vp_osc := vp_osc p @ [c]\<rparr>, [])"
    using Cons.prems(1,2) by (simp add: feed_def on_osc_def)
  then show ?case using Cons.IH [of "p\<lparr>vp_osc := vp_osc p @ [c]\<rparr>"] Cons.prems by simp
qed simp

text \<open>C17: A text that one client puts on the clipboard of its terminal is, when the terminal sends it
  back in answer to a query, the text that the reader of another client pastes - for every text
  of at most 98298 bytes; the four thirds of it in base64 then still fit the buffer.\<close>

theorem clipboard_round_trip:
  assumes "vp_state p = Ground" "text \<noteq> []" "\<forall>c\<in>set text. is_scalar c" "length (utf8_text text) \<le> 98298"
  shows "\<exists>q. feed_text (map ord (emit_osc52 text)) p = Some (q, [EPaste text]) \<and> vp_state q = Ground"
proof -
  let ?b = "base64_encode (utf8_text text)"
  let ?cs = "map ord (''52;c;'' @ ?b)" and ?o = "goto_state Osc ((goto_state Escape p)\<lparr>vp_osc := []\<rparr>)"
  have ascii: "\<forall>c\<in>set (''52;c;'' @ ?b). ord c < 128 \<and> ord c \<noteq> 7 \<and> ord c \<noteq> 27"
    using base64_encode_ascii by auto
  then have u: "utf8_text ?cs = ''52;c;'' @ ?b" "utf8_text (map ord ?b) = ?b"
    by (intro utf8_text_ascii; simp)+
  have "(length (utf8_text text) + 2) div 3 \<le> (98298 + 2) div 3" using assms(4) by (intro div_le_mono) simp
  then have "length ?b \<le> 131064" by (simp add: base64_length)
  then have "length (utf8_text ?cs) \<le> OSC_LIMIT" unfolding u by (simp add: OSC_LIMIT_def)
  moreover have "\<forall>c\<in>set ?cs. c \<noteq> 7 \<and> c \<noteq> 27" using ascii by auto
  ultimately have osc: "feed_text ?cs ?o = Some (?o\<lparr>vp_osc := ?cs\<rparr>, [])"
    using feed_osc_text [of ?o ?cs] by (simp add: goto_state_def)
  have ne: "?b \<noteq> []" "length ?b \<noteq> 1"
  proof -
    have "utf8_text text \<noteq> []" using assms(2) length_utf8(1) by (cases "text") (auto simp: utf8_text_def utf8_def)
    then have "1 \<le> length (utf8_text text)" by (cases "utf8_text text") simp_all
    then have "1 \<le> (length (utf8_text text) + 2) div 3" by simp
    then show "?b \<noteq> []" "length ?b \<noteq> 1" using base64_length [of "utf8_text text"] by auto
  qed
  then have "map ord ?b \<noteq> [63]" by (cases ?b) auto
  then have d: "dispatch_osc (?o\<lparr>vp_osc := ?cs\<rparr>) = [EPaste text]"
    using ne(1) assms(2) base64_decode_encode [OF assms(3)] u(2) by (simp add: dispatch_osc_def)
  have bel: "feed_text [7] q = Some (goto_state Ground q, dispatch_osc q)" if "vp_state q = Osc" for q
    using that by (simp add: feed_def on_osc_def)
  have start: "feed_text (27 # ord (CHR '']'') # cs) p = feed_text cs ?o" for cs
    using assms(1) by (simp add: feed_def on_ground_def on_escape_def goto_state_def split: Option.bind_split)
  have "map ord (emit_osc52 text) = 27 # ord (CHR '']'') # ?cs @ [7]" by (simp add: emit_osc52_def esc_def)
  then have "feed_text (map ord (emit_osc52 text)) p = feed_text (?cs @ [7]) ?o" by (simp only: start)
  also have "\<dots> = Some (goto_state Ground (?o\<lparr>vp_osc := ?cs\<rparr>), [EPaste text])"
    using bel [of "?o\<lparr>vp_osc := ?cs\<rparr>"] unfolding feed_text_append osc d by (simp add: goto_state_def)
  finally show ?thesis by (simp add: goto_state_def)
qed

theorem clipboard_round_trip_witness:
  "\<exists>q. feed_text (map ord (emit_osc52 [104, 105, 8364])) parser_new = Some (q, [EPaste [104, 105, 8364]]) \<and> vp_state q = Ground"
  by (rule clipboard_round_trip) (simp_all add: parser_new_def is_scalar_def utf8_text_def utf8_def)

end
