(* ===== verification/Key_Trips.thy ===== *)
theory Key_Trips
  imports Key_Parser
begin

text \<open>
  Keys and mouse reports through two winsmux, one in a pane of the other: what the server writes
  for a key, the reader of the client inside gives back - for the keys that a terminal can tell
  apart, and two that it turns into others.
\<close>

section \<open>Reading one key\<close>

text \<open>The bytes as characters, then a pause, which makes an escape that stands alone a key.\<close>

definition read_key :: "string \<Rightarrow> vt_parser \<Rightarrow> (vt_parser \<times> input_event list) option" where
  "read_key bytes p =
     do { cs \<leftarrow> from_utf8 bytes;
          (p1, evs) \<leftarrow> feed_text cs p;
          let (p2, rest) = flush_escape p1;
          Some (p2, evs @ rest) }"

definition reads_as :: "string \<Rightarrow> input_event list \<Rightarrow> bool" where
  "reads_as bytes evs = (\<forall>p. vp_state p = Ground \<longrightarrow> (\<exists>q. read_key bytes p = Some (q, evs) \<and> vp_state q = Ground))"

lemma reads_asI:
  assumes "from_utf8 bytes = Some cs"
    "\<And>p. vp_state p = Ground \<Longrightarrow> \<exists>q. feed_text cs p = Some (q, evs) \<and> vp_state q = Ground"
  shows "reads_as bytes evs"
  using assms by (fastforce simp: reads_as_def read_key_def flush_escape_def)

lemma from_utf8_ascii:
  assumes "\<forall>c\<in>set s. ord c < 128"
  shows "from_utf8 s = Some (map ord s)"
proof -
  have "\<forall>c\<in>set (map ord s). is_scalar c" using assms by (fastforce simp: is_scalar_def)
  from from_utf8_text [OF this] show ?thesis by (simp only: utf8_text_ascii [OF assms])
qed

lemma digit_ascii: "\<forall>c\<in>set (show_digits n). ord c < 128"
  using show_digits_props [of n] by (auto simp: list_all_iff is_digit_def)

lemma after_dispatch:
  assumes "in_csi 0 ns q" "ns \<noteq> []" "hd ns \<noteq> 200"
  shows "\<exists>r. dispatch_csi c q = (r, csi_events c q) \<and> vp_state r = Ground"
  using assms by (cases ns) (auto simp: in_csi_def dispatch_csi_def goto_state_def)

lemma esc_eval [simp]: "esc = [char_of (27::nat)]" "map ord esc = [27]"
  by (simp_all add: esc_def)

lemma csi_one:
  assumes "n \<le> 65535" "n \<noteq> 200" "is_final (ord c)" "ord c < 128"
    "\<And>q. in_csi 0 [n] q \<Longrightarrow> csi_events (ord c) q = evs"
  shows "reads_as (esc @ ''['' @ show_digits n @ [c]) evs"
proof (rule reads_asI)
  show "from_utf8 (esc @ ''['' @ show_digits n @ [c]) = Some (27 # ord (CHR ''['') # map ord (show_digits n) @ [ord c])"
    using from_utf8_ascii [of "esc @ ''['' @ show_digits n @ [c]"] digit_ascii assms(4) by auto
  fix p :: vt_parser assume "vp_state p = Ground"
  from feed_csi_start [OF this] obtain q where q: "in_csi 0 [] q"
    "feed_text (27 # ord (CHR ''['') # map ord (show_digits n) @ [ord c]) p = feed_text (map ord (show_digits n) @ [ord c]) q" by blast
  obtain r where r: "in_csi 0 [n] r" "feed_text (map ord (show_digits n) @ [ord c]) q = Some (dispatch_csi (ord c) r)"
    using feed_last_param [OF q(1) _ assms(1,3)] by auto
  obtain s where "dispatch_csi (ord c) r = (s, csi_events (ord c) r)" "vp_state s = Ground"
    using after_dispatch [OF r(1), of "ord c"] assms(2) by auto
  then show "\<exists>q. feed_text (27 # ord (CHR ''['') # map ord (show_digits n) @ [ord c]) p = Some (q, evs) \<and> vp_state q = Ground"
    using q(2) r(2) assms(5) [OF r(1)] by auto
qed

lemma csi_two:
  assumes "n \<le> 65535" "n \<noteq> 200" "m \<le> 65535" "is_final (ord c)" "ord c < 128"
    "\<And>q. in_csi 0 [n, m] q \<Longrightarrow> csi_events (ord c) q = evs"
  shows "reads_as (esc @ ''['' @ show_digits n @ '';'' @ show_digits m @ [c]) evs"
proof (rule reads_asI)
  let ?cs = "map ord (show_digits n) @ ord (CHR '';'') # map ord (show_digits m) @ [ord c]"
  show "from_utf8 (esc @ ''['' @ show_digits n @ '';'' @ show_digits m @ [c]) = Some (27 # ord (CHR ''['') # ?cs)"
    using from_utf8_ascii [of "esc @ ''['' @ show_digits n @ '';'' @ show_digits m @ [c]"] digit_ascii assms(5) by auto
  fix p :: vt_parser assume "vp_state p = Ground"
  from feed_csi_start [OF this] obtain q where q: "in_csi 0 [] q"
    "feed_text (27 # ord (CHR ''['') # ?cs) p = feed_text ?cs q" by blast
  obtain r where r: "in_csi 0 [n] r" "feed_text ?cs q = feed_text (map ord (show_digits m) @ [ord c]) r"
    using feed_param [OF q(1) _ assms(1)] by fastforce
  obtain s where s: "in_csi 0 [n, m] s" "feed_text (map ord (show_digits m) @ [ord c]) r = Some (dispatch_csi (ord c) s)"
    using feed_last_param [OF r(1) _ assms(3,4)] by auto
  obtain t where "dispatch_csi (ord c) s = (t, csi_events (ord c) s)" "vp_state t = Ground"
    using after_dispatch [OF s(1), of "ord c"] assms(2) by auto
  then show "\<exists>q. feed_text (27 # ord (CHR ''['') # ?cs) p = Some (q, evs) \<and> vp_state q = Ground"
    using q(2) r(2) s(2) assms(6) [OF s(1)] by auto
qed

section \<open>Modifiers\<close>

lemma modifier_range: "1 \<le> modifier_param m" "modifier_param m \<le> 8"
  by (simp_all add: modifier_param_def)

lemma decode_modifier_param: "decode_modifiers (modifier_param m) = m"
  by (cases m; cases "m_shift m"; cases "m_alt m"; cases "m_ctrl m")
     (simp_all add: decode_modifiers_def modifier_param_def bit_iff_odd)

lemma modifier_param_1: "modifier_param m \<le> 1 \<longleftrightarrow> m = no_mods"
  by (cases m) (auto simp: modifier_param_def no_mods_def)

lemma no_param [simp]: "modifier_param no_mods = 1"
  by (simp add: modifier_param_def no_mods_def)

lemma csi_final_events:
  assumes "csi_key (ord l) = Some code"
  shows "in_csi 0 [n, modifier_param m] q \<Longrightarrow> csi_events (ord l) q = [EKey code m]"
    "in_csi 0 [n] q \<Longrightarrow> csi_events (ord l) q = [EKey code no_mods]"
  using assms by (simp_all add: in_csi_def csi_events_def decode_modifier_param)

lemma tilde_events:
  assumes "tilde_key n = Some code"
  shows "in_csi 0 [n, modifier_param m] q \<Longrightarrow> csi_events (ord (CHR ''~'')) q = [EKey code m]"
    "in_csi 0 [n] q \<Longrightarrow> csi_events (ord (CHR ''~'')) q = [EKey code no_mods]"
  using assms by (simp_all add: in_csi_def csi_events_def csi_key_def dispatch_tilde_def decode_modifier_param)

section \<open>Every key\<close>

text \<open>The sequences of keys that take modifiers.\<close>

lemma digit_one: "show_digits (Suc 0) = ''1''"
  by code_simp

lemma cursor_round_trip:
  assumes "cursor_letter code = Some l"
  shows "m \<noteq> no_mods \<Longrightarrow> reads_as (esc @ ''[1;'' @ show_digits (modifier_param m) @ [l]) [EKey code m]"
    "reads_as (esc @ ''['' @ [l]) [EKey code no_mods]"
proof -
  have key: "csi_key (ord l) = Some code" "is_final (ord l)" "ord l < 128" "l \<noteq> CHR ''M''"
    using assms by (cases code; auto simp: cursor_letter_def csi_key_def is_final_def)+
  note one = digit_one
  have "reads_as (esc @ ''['' @ show_digits 1 @ '';'' @ show_digits (modifier_param m) @ [l]) [EKey code m]"
    using modifier_range [of m] key csi_final_events(1) [OF key(1), of 1 m] by (intro csi_two) simp_all
  then show "reads_as (esc @ ''[1;'' @ show_digits (modifier_param m) @ [l]) [EKey code m]"
    by (simp add: one)
  show "reads_as (esc @ ''['' @ [l]) [EKey code no_mods]"
  proof (rule reads_asI)
    show "from_utf8 (esc @ ''['' @ [l]) = Some [27, ord (CHR ''[''), ord l]"
      using from_utf8_ascii [of "esc @ ''['' @ [l]"] key(3) by simp
    fix p :: vt_parser assume p: "vp_state p = Ground"
    have l: "\<not> is_digit_char (ord l)" "ord l \<noteq> 27" "ord l \<noteq> 60" "ord l \<noteq> 63" "ord l \<noteq> 59" "ord l \<noteq> 77" "ord l \<noteq> 126"
      using assms by (cases code; auto simp: cursor_letter_def is_digit_char_def)+
    show "\<exists>q. feed_text [27, ord (CHR ''[''), ord l] p = Some (q, [EKey code no_mods]) \<and> vp_state q = Ground"
      using p key(1,2) l
      by (simp add: feed_def on_ground_def on_escape_def goto_state_def reset_csi_def on_csi_entry_def dispatch_csi_def
          finish_param_def csi_events_def)
  qed
qed

lemma tilde_round_trip:
  assumes "tilde_key n = Some code"
  shows "reads_as (esc @ ''['' @ show_digits n @ '';'' @ show_digits (modifier_param m) @ ''~'') [EKey code m]"
    "reads_as (esc @ ''['' @ show_digits n @ ''~'') [EKey code no_mods]"
proof -
  have n: "n \<le> 24" "n \<noteq> 200" using assms by (auto simp: tilde_key_def split: if_splits)
  show "reads_as (esc @ ''['' @ show_digits n @ '';'' @ show_digits (modifier_param m) @ ''~'') [EKey code m]"
    using n modifier_range [of m] tilde_events(1) [OF assms] by (intro csi_two) (simp_all add: is_final_def)
  show "reads_as (esc @ ''['' @ show_digits n @ ''~'') [EKey code no_mods]"
    using n tilde_events(2) [OF assms] by (intro csi_one) (simp_all add: is_final_def)
qed

lemma fkey_round_trip:
  assumes "1 \<le> n" "n \<le> 12"
  shows "reads_as (encode_fkey n (modifier_param m)) [EKey (KF n) m]"
proof (cases "n \<le> 4")
  case True
  let ?l = "''PQRS'' ! (n - 1)"
  have n: "n = 1 \<or> n = 2 \<or> n = 3 \<or> n = 4" using True assms(1) by auto
  then have key: "csi_key (ord ?l) = Some (KF n)" "is_final (ord ?l)" "ord ?l < 128"
    by (auto simp: csi_key_def is_final_def)
  note one = digit_one
  show ?thesis
  proof (cases "m = no_mods")
    case plain: True
    have "reads_as (esc @ ''O'' @ [?l]) [EKey (KF n) no_mods]"
    proof (rule reads_asI)
      show "from_utf8 (esc @ ''O'' @ [?l]) = Some [27, ord (CHR ''O''), ord ?l]"
        using from_utf8_ascii [of "esc @ ''O'' @ [?l]"] key(3) by simp
      show "\<exists>q. feed_text [27, ord (CHR ''O''), ord ?l] p = Some (q, [EKey (KF n) no_mods]) \<and> vp_state q = Ground"
        if "vp_state p = Ground" for p
        using that key(1) by (simp add: feed_def on_ground_def on_escape_def goto_state_def on_ss3_def)
    qed
    then show ?thesis using True assms plain by (simp add: encode_fkey_def)
  next
    case False
    have "reads_as (esc @ ''['' @ show_digits 1 @ '';'' @ show_digits (modifier_param m) @ [?l]) [EKey (KF n) m]"
      using modifier_range [of m] key csi_final_events(1) [OF key(1), of 1 m] by (intro csi_two) simp_all
    moreover have "encode_fkey n (modifier_param m) = esc @ ''[1;'' @ show_digits (modifier_param m) @ [?l]"
      using True assms(1) False modifier_param_1 [of m] by (simp add: encode_fkey_def not_le)
    ultimately show ?thesis by (simp add: one)
  qed
next
  case False
  then have "n \<in> {5, 6, 7, 8, 9, 10, 11, 12}" using assms(2) by auto
  then obtain code where code: "fkey_code n = Some code" "tilde_key code = Some (KF n)"
    by (auto simp: fkey_code_def tilde_key_def)
  then show ?thesis
    using False tilde_round_trip [OF code(2)] modifier_param_1 [of m] by (cases "m = no_mods") (auto simp: encode_fkey_def)
qed

text \<open>The keys that come back as they are.\<close>

definition key_survives :: "key_code \<Rightarrow> key_mods \<Rightarrow> bool" where
  "key_survives code m = (case code of
     KChar c \<Rightarrow> \<not> m_shift m \<and>
       (if m_ctrl m then \<not> m_alt m \<and> (c = 32 \<or> (92 \<le> c \<and> c \<le> 95) \<or> (97 \<le> c \<and> c \<le> 122 \<and> c \<notin> {104, 105, 106, 109}))
        else if m_alt m then 32 \<le> c \<and> c \<le> 126 \<and> c \<notin> {79, 91, 93}
        else is_scalar c \<and> 32 \<le> c \<and> c \<noteq> 127)
   | KF n \<Rightarrow> 1 \<le> n \<and> n \<le> 12
   | KEnter \<Rightarrow> m = no_mods | KTab \<Rightarrow> m = no_mods | KBackspace \<Rightarrow> m = no_mods | KEsc \<Rightarrow> m = no_mods
   | KBackTab \<Rightarrow> False | KOther \<Rightarrow> False
   | _ \<Rightarrow> True)"

lemma control_round_trip:
  assumes "c = 32 \<or> (92 \<le> c \<and> c \<le> 95) \<or> (97 \<le> c \<and> c \<le> 122 \<and> c \<notin> {104, 105, 106, 109})"
  shows "reads_as [char_of (c mod 256 mod 32)] [EKey (KChar c) ctrl]"
proof (rule reads_asI)
  let ?b = "c mod 256 mod 32"
  have b: "?b < 32" by simp
  then show "from_utf8 [char_of ?b] = Some [?b]"
    using from_utf8_ascii [of "[char_of ?b]"] by simp
  consider "c = 32" | "92 \<le> c" "c \<le> 95" | "97 \<le> c" "c \<le> 122" "c \<notin> {104, 105, 106, 109}" using assms by blast
  then have "?b \<noteq> 27 \<and> ground_events ?b = [EKey (KChar c) ctrl]"
  proof cases
    case 2
    then have "c = 92 \<or> c = 93 \<or> c = 94 \<or> c = 95" by auto
    then show ?thesis by (auto simp: ground_events_def)
  next
    case 3
    have "96 \<le> c" using 3(1) by simp
    then obtain k where c: "c = 96 + k" using le_Suc_ex by blast
    have k: "1 \<le> k" "k \<le> 26" "k \<noteq> 8" "k \<noteq> 9" "k \<noteq> 10" "k \<noteq> 13" using 3 c by simp_all
    have "?b = (k + 3 * 32) mod 32" using k(2) by (simp add: c add.commute)
    also have "\<dots> = k" using k(2) by (simp only: mod_mult_self1) simp
    finally have "?b = k" .
    then show ?thesis using k by (simp add: ground_events_def c)
  qed (simp add: ground_events_def)
  then show "\<exists>q. feed_text [?b] p = Some (q, [EKey (KChar c) ctrl]) \<and> vp_state q = Ground" if "vp_state p = Ground" for p
    using that by (simp add: feed_def on_ground_def)
qed

lemma alt_round_trip:
  assumes "32 \<le> c" "c \<le> 126" "c \<notin> {79, 91, 93}"
  shows "reads_as (esc @ utf8 c) [EKey (KChar c) alt]"
proof (rule reads_asI)
  have "utf8 c = [char_of c]" using assms(2) by (simp add: utf8_def)
  then show "from_utf8 (esc @ utf8 c) = Some [27, c]"
    using from_utf8_ascii [of "esc @ utf8 c"] assms(2) by simp
  show "\<exists>q. feed_text [27, c] p = Some (q, [EKey (KChar c) alt]) \<and> vp_state q = Ground" if "vp_state p = Ground" for p
    using that assms by (simp add: feed_def on_ground_def on_escape_def goto_state_def)
qed

lemma plain_round_trip:
  assumes "is_scalar c" "32 \<le> c" "c \<noteq> 127"
  shows "reads_as (utf8 c) [EKey (KChar c) no_mods]"
proof (rule reads_asI)
  show "from_utf8 (utf8 c) = Some [c]" using from_utf8_char [OF assms(1), of "[]"] by simp
  show "\<exists>q. feed_text [c] p = Some (q, [EKey (KChar c) no_mods]) \<and> vp_state q = Ground" if "vp_state p = Ground" for p
    using that assms(2,3) by (simp add: feed_def on_ground_def ground_events_def)
qed

lemma byte_round_trip:
  assumes "b < 128" "b \<noteq> 27" "ground_events b = [e]"
  shows "reads_as [char_of b] [e]"
proof (rule reads_asI)
  show "from_utf8 [char_of b] = Some [b]" using from_utf8_ascii [of "[char_of b]"] assms(1) by simp
  show "\<exists>q. feed_text [b] p = Some (q, [e]) \<and> vp_state q = Ground" if "vp_state p = Ground" for p
    using that assms(2,3) by (simp add: feed_def on_ground_def)
qed

lemma esc_round_trip: "reads_as esc [EKey KEsc no_mods]"
proof -
  have "from_utf8 esc = Some [27]" using from_utf8_ascii [of esc] by simp
  then show ?thesis
    by (simp add: reads_as_def read_key_def feed_def on_ground_def flush_escape_def goto_state_def)
qed

lemma key_mods_cases:
  fixes m :: key_mods
  shows "m_ctrl m \<Longrightarrow> \<not> m_alt m \<Longrightarrow> \<not> m_shift m \<Longrightarrow> m = ctrl" "\<not> m_ctrl m \<Longrightarrow> m_alt m \<Longrightarrow> \<not> m_shift m \<Longrightarrow> m = alt"
    "\<not> m_ctrl m \<Longrightarrow> \<not> m_alt m \<Longrightarrow> \<not> m_shift m \<Longrightarrow> m = no_mods"
  by (cases m; simp add: ctrl_def alt_def no_mods_def)+

text \<open>C15: What the server writes for a key is read as that key again, with its modifiers, by the client
  of a winsmux in the pane, for the keys that have a code of their own: characters from the space
  on except DEL without modifiers; Ctrl with the space, \<open>\ ] ^ _\<close> and the letters a to z except h,
  i, j and m; Alt with the characters of ASCII except \<open>O [ ]\<close>; F1 to F12, the arrows, Home, End,
  Page Up, Page Down, Insert and Delete with any modifiers; and Enter, Tab, Backspace and Esc
  without modifiers.\<close>

theorem key_round_trip:
  assumes "key_survives code m"
  shows "\<exists>bytes. encode_key_event windows code m = Some bytes \<and> reads_as bytes [EKey code m]"
proof -
  have cursor: ?thesis if "cursor_letter code = Some l" "\<exists>bytes. encode_key_event windows code m =
      Some (if modifier_param m > 1 then esc @ ''[1;'' @ show_digits (modifier_param m) @ [l] else esc @ ''['' @ [l])" for l
    using that(2) cursor_round_trip [OF that(1)] modifier_param_1 [of m] by (cases "m = no_mods") auto
  have tilde: ?thesis if "tilde_key n = Some code" "encode_key_event windows code m =
      Some (if modifier_param m > 1 then esc @ ''['' @ show_digits n @ '';'' @ show_digits (modifier_param m) @ ''~''
            else esc @ ''['' @ show_digits n @ ''~'')" for n
    using that(2) tilde_round_trip [OF that(1)] modifier_param_1 [of m] by (cases "m = no_mods") auto
  show ?thesis
  proof (cases code)
    case (KChar c)
    then show ?thesis
      using assms control_round_trip [of c] alt_round_trip [of c] plain_round_trip [of c] key_mods_cases [of m]
      by (auto simp: key_survives_def encode_key_event_def encode_char_def split: if_splits)
  next
    case (KF n)
    then show ?thesis using assms fkey_round_trip [of n m] by (simp add: key_survives_def encode_key_event_def)
  next
    case KEnter
    then show ?thesis
      using assms byte_round_trip [of 13] by (simp add: key_survives_def encode_key_event_def ground_events_def)
  next
    case KTab
    then show ?thesis
      using assms byte_round_trip [of 9] by (simp add: key_survives_def encode_key_event_def ground_events_def)
  next
    case KBackspace
    then show ?thesis
      using assms byte_round_trip [of 8] by (simp add: key_survives_def encode_key_event_def ground_events_def)
  next
    case KEsc
    then show ?thesis using assms esc_round_trip by (simp add: key_survives_def encode_key_event_def)
  next
    case KInsert
    then show ?thesis
      by (intro tilde [of 2]) (simp_all add: tilde_key_def encode_key_event_def cursor_letter_def tilde_number_def)
  next
    case KDelete
    then show ?thesis
      by (intro tilde [of 3]) (simp_all add: tilde_key_def encode_key_event_def cursor_letter_def tilde_number_def)
  next
    case KPageUp
    then show ?thesis
      by (intro tilde [of 5]) (simp_all add: tilde_key_def encode_key_event_def cursor_letter_def tilde_number_def)
  next
    case KPageDown
    then show ?thesis
      by (intro tilde [of 6]) (simp_all add: tilde_key_def encode_key_event_def cursor_letter_def tilde_number_def)
  qed (use assms cursor in \<open>auto simp: key_survives_def encode_key_event_def cursor_letter_def Let_def\<close>)
qed

theorem key_round_trip_witness:
  "\<exists>bytes. encode_key_event True KLeft ctrl = Some bytes \<and> reads_as bytes [EKey KLeft ctrl]"
  by (rule key_round_trip) (simp add: key_survives_def)

section \<open>Keys that change\<close>

text \<open>Two keys come back as others. The encoder means to keep Shift in the parameter of Shift+Tab
  but sets the lowest bit of one plus the modifiers, which makes it Alt; and the reader takes
  Enter with Ctrl, which the encoder writes as number 13, for F3.\<close>

theorem shifted_tab_becomes_alt:
  "encode_key_event windows KBackTab (no_mods\<lparr>m_shift := True\<rparr>) = Some (esc @ ''[9;3~'') \<and>
   encode_key_event windows KTab alt = Some (esc @ ''[9;3~'') \<and>
   encode_key_event windows KTab (no_mods\<lparr>m_shift := True\<rparr>) = Some (esc @ ''[9;2~'') \<and>
   (\<exists>bytes. encode_key_event windows KEnter ctrl = Some bytes \<and> reads_as bytes [EKey (KF 3) ctrl])"
proof -
  have d: "show_digits (Suc (Suc 0)) = ''2''" "show_digits (Suc (Suc (Suc 0))) = ''3''" by code_simp+
  have n: "show_digits 13 = ''13''" by code_simp
  have "reads_as (esc @ ''['' @ show_digits 13 @ '';'' @ show_digits (modifier_param ctrl) @ ''~'') [EKey (KF 3) ctrl]"
    by (rule tilde_round_trip(1)) (simp add: tilde_key_def)
  moreover have "encode_key_event windows KEnter ctrl =
      Some (esc @ ''['' @ show_digits 13 @ '';'' @ show_digits (modifier_param ctrl) @ ''~'')"
    by (simp add: encode_key_event_def modifier_param_def ctrl_def no_mods_def n)
  moreover have "encode_key_event windows KBackTab (no_mods\<lparr>m_shift := True\<rparr>) = Some (esc @ ''[9;3~'') \<and>
      encode_key_event windows KTab alt = Some (esc @ ''[9;3~'') \<and>
      encode_key_event windows KTab (no_mods\<lparr>m_shift := True\<rparr>) = Some (esc @ ''[9;2~'')"
    by (simp add: encode_key_event_def modifier_param_def no_mods_def alt_def d)
  ultimately show ?thesis by blast
qed

section \<open>The mouse\<close>

lemma feed_sgr_start:
  assumes "vp_state p = Ground"
  shows "\<exists>q. in_csi (ord (CHR ''<'')) [] q \<and> feed_text (27 # ord (CHR ''['') # ord (CHR ''<'') # cs) p = feed_text cs q"
proof -
  have "\<exists>q. feed_text [27, ord (CHR ''[''), ord (CHR ''<'')] p = Some (q, []) \<and> in_csi (ord (CHR ''<'')) [] q"
    using assms
    by (simp add: feed_def on_ground_def on_escape_def goto_state_def reset_csi_def on_csi_entry_def in_csi_def)
  then show ?thesis
    using feed_text_append [of "[27, ord (CHR ''[''), ord (CHR ''<'')]" cs p] by (auto simp: option.map_id)
qed

lemma x10_start:
  assumes "vp_state p = Ground" "length (vp_x10 p) = 3"
  shows "\<exists>q. feed_text [27, ord (CHR ''[''), ord (CHR ''M'')] p = Some (q, []) \<and> vp_state q = X10Mouse \<and>
    vp_x10_n q = 0 \<and> length (vp_x10 q) = 3"
  using assms
  by (simp add: feed_def on_ground_def on_escape_def goto_state_def reset_csi_def on_csi_entry_def is_digit_char_def)

lemma x10_three:
  assumes "vp_state q = X10Mouse" "vp_x10_n q = 0" "length (vp_x10 q) = 3" "a \<le> 255" "b \<le> 255" "c \<le> 255"
  shows "\<exists>r. feed_text [a, b, c] q =
      Some (r, [EMouse (x10_kind (of_nat a - 32)) (unat ((of_nat b :: 8 word) - 33)) (unat ((of_nat c :: 8 word) - 33))
        \<lparr>m_shift = bit ((of_nat a :: 8 word) - 32) 2, m_alt = bit ((of_nat a :: 8 word) - 32) 3,
         m_ctrl = bit ((of_nat a :: 8 word) - 32) 4\<rparr>]) \<and> vp_state r = Ground"
proof -
  obtain x y z where buf: "vp_x10 q = [x, y, z]"
    using assms(3) by (auto simp: numeral_eq_Suc length_Suc_conv)
  have a: "feed a q = Some (q\<lparr>vp_x10 := [of_nat a, y, z], vp_x10_n := 1\<rparr>, [])"
    using assms by (simp add: feed_def on_x10_def buf min_def)
  have b: "feed b (q\<lparr>vp_x10 := [of_nat a, y, z], vp_x10_n := 1\<rparr>) = Some (q\<lparr>vp_x10 := [of_nat a, of_nat b, z], vp_x10_n := 2\<rparr>, [])"
    using assms by (simp add: feed_def on_x10_def min_def numeral_eq_Suc)
  show ?thesis
    unfolding feed_quiet [OF a] feed_quiet [OF b] using assms
    by (simp add: feed_def on_x10_def min_def goto_state_def numeral_2_eq_2 Let_def)
qed

lemma mouse_reports:
  assumes "button < 256" "1 \<le> col" "1 \<le> row" "vp_state p = Ground" "parser_ok p"
  shows "col \<le> 65535 \<Longrightarrow> row \<le> 65535 \<Longrightarrow> reads_as (write_mouse_event True button col row press)
      [EMouse (sgr_kind button (\<not> press)) (col - 1) (row - 1)
        \<lparr>m_shift = bit button 2, m_alt = bit button 3, m_ctrl = bit button 4\<rparr>]"
    "col \<le> 222 \<Longrightarrow> row \<le> 222 \<Longrightarrow> \<exists>q. feed_text (map ord (write_mouse_event False button col row True)) p =
      Some (q, [EMouse (x10_kind (of_nat button)) (col - 1) (row - 1)
        \<lparr>m_shift = bit button 2, m_alt = bit button 3, m_ctrl = bit button 4\<rparr>]) \<and> vp_state q = Ground"
proof -
  let ?c = "if press then CHR ''M'' else CHR ''m''"
  let ?lt = "ord (CHR ''<'')" and ?sc = "ord (CHR '';'')"
  let ?cs = "map ord (show_digits button) @ ?sc # map ord (show_digits col) @ ?sc # map ord (show_digits row) @ [ord ?c]"
  assume size: "col \<le> 65535" "row \<le> 65535"
  have b: "button \<le> 65535" using assms(1) by simp
  have fin: "is_final (ord ?c)" by (cases press) (simp_all add: is_final_def)
  show "reads_as (write_mouse_event True button col row press)
      [EMouse (sgr_kind button (\<not> press)) (col - 1) (row - 1)
        \<lparr>m_shift = bit button 2, m_alt = bit button 3, m_ctrl = bit button 4\<rparr>]"
  proof (rule reads_asI)
    have "\<forall>c\<in>set (write_mouse_event True button col row press). ord c < 128"
      using digit_ascii by (auto simp: write_mouse_event_def)
    from from_utf8_ascii [OF this]
    show "from_utf8 (write_mouse_event True button col row press) = Some (27 # ord (CHR ''['') # ?lt # ?cs)"
      by (simp add: write_mouse_event_def)
    fix p :: vt_parser assume "vp_state p = Ground"
    from feed_sgr_start [OF this] obtain q where q: "in_csi ?lt [] q" "feed_text (27 # ord (CHR ''['') # ?lt # ?cs) p = feed_text ?cs q"
      by blast
    obtain r where r: "in_csi ?lt [button] r"
      "feed_text ?cs q = feed_text (map ord (show_digits col) @ ?sc # map ord (show_digits row) @ [ord ?c]) r"
      using feed_param [OF q(1) _ b] by fastforce
    obtain s where s: "in_csi ?lt [button, col] s"
      "feed_text (map ord (show_digits col) @ ?sc # map ord (show_digits row) @ [ord ?c]) r = feed_text (map ord (show_digits row) @ [ord ?c]) s"
      using feed_param [OF r(1) _ size(1)] by fastforce
    obtain t where t: "in_csi ?lt [button, col, row] t"
      "feed_text (map ord (show_digits row) @ [ord ?c]) s = Some (dispatch_csi (ord ?c) t)"
      using feed_last_param [OF s(1) _ size(2) fin] by auto
    then show "\<exists>q. feed_text (27 # ord (CHR ''['') # ?lt # ?cs) p = Some (q,
        [EMouse (sgr_kind button (\<not> press)) (col - 1) (row - 1)
          \<lparr>m_shift = bit button 2, m_alt = bit button 3, m_ctrl = bit button 4\<rparr>]) \<and> vp_state q = Ground"
      unfolding q(2) r(2) s(2) t(2) using t(1)
      by (auto simp: dispatch_csi_def in_csi_def dispatch_sgr_mouse_def goto_state_def Let_def)
  qed
next
  assume size: "col \<le> 222" "row \<le> 222"
  let ?b = "(button + 32) mod 256"
  have bytes: "map ord (write_mouse_event False button col row True) = [27, ord (CHR ''[''), ord (CHR ''M''), ?b, col + 32, row + 32]"
    using size by (simp add: write_mouse_event_def min_def)
  have "(of_nat ?b :: 8 word) = of_nat (button + 32)" unfolding word_of_nat_eq_iff by (simp add: take_bit_eq_mod)
  then have w: "(of_nat ?b :: 8 word) - 32 = of_nat button" by simp
  have xy: "unat ((of_nat (n + 32) :: 8 word) - 33) = n - 1" if "1 \<le> n" "n \<le> 222" for n :: nat
  proof -
    have "(of_nat (n + 32) :: 8 word) - 33 = of_nat (n - 1)" using that(1) by (simp add: of_nat_diff)
    then show ?thesis using that(2) by (simp add: unat_of_nat)
  qed
  have len: "length (vp_x10 p) = 3" using assms(5) by (simp add: parser_ok_def)
  have mods: "bit (of_nat button :: 8 word) k = bit button k" if "k < 8" for k using that by (simp add: bit_simps)
  from x10_start [OF assms(4) len] obtain q where q: "feed_text [27, ord (CHR ''[''), ord (CHR ''M'')] p = Some (q, [])"
    "vp_state q = X10Mouse" "vp_x10_n q = 0" "length (vp_x10 q) = 3" by blast
  have "?b < 256" by simp
  then have small: "?b \<le> 255" "col + 32 \<le> 255" "row + 32 \<le> 255" using size by linarith+
  obtain r where r: "feed_text [?b, col + 32, row + 32] q =
      Some (r, [EMouse (x10_kind (of_nat ?b - 32)) (unat ((of_nat (col + 32) :: 8 word) - 33)) (unat ((of_nat (row + 32) :: 8 word) - 33))
        \<lparr>m_shift = bit ((of_nat ?b :: 8 word) - 32) 2, m_alt = bit ((of_nat ?b :: 8 word) - 32) 3,
         m_ctrl = bit ((of_nat ?b :: 8 word) - 32) 4\<rparr>])" "vp_state r = Ground"
    using x10_three [OF q(2-4) small] by blast
  have "feed_text (map ord (write_mouse_event False button col row True)) p = Some (r, [EMouse (x10_kind (of_nat button)) (col - 1) (row - 1)
        \<lparr>m_shift = bit button 2, m_alt = bit button 3, m_ctrl = bit button 4\<rparr>])"
    using feed_text_append [of "[27, ord (CHR ''[''), ord (CHR ''M'')]" "[?b, col + 32, row + 32]" p] q(1) r(1)
    unfolding bytes w xy [OF assms(2) size(1)] xy [OF assms(3) size(2)]
    by (simp add: mods del: feed_text.simps)
  with r(2) show "\<exists>q. feed_text (map ord (write_mouse_event False button col row True)) p =
      Some (q, [EMouse (x10_kind (of_nat button)) (col - 1) (row - 1)
        \<lparr>m_shift = bit button 2, m_alt = bit button 3, m_ctrl = bit button 4\<rparr>]) \<and> vp_state q = Ground" by blast
qed

text \<open>A mouse report that the server writes for a program is read as an event of the same button,
  modifiers and place, in the SGR encoding everywhere on a screen of 16-bit size. In the old
  encoding of three bytes a press is read so up to column and row 222.\<close>

theorem mouse_round_trip:
  assumes "button < 256" "1 \<le> col" "1 \<le> row" "vp_state p = Ground" "parser_ok p"
  shows "(col \<le> 65535 \<and> row \<le> 65535 \<longrightarrow> reads_as (write_mouse_event True button col row press)
      [EMouse (sgr_kind button (\<not> press)) (col - 1) (row - 1)
        \<lparr>m_shift = bit button 2, m_alt = bit button 3, m_ctrl = bit button 4\<rparr>]) \<and>
    (col \<le> 222 \<and> row \<le> 222 \<longrightarrow> (\<exists>q. feed_text (map ord (write_mouse_event False button col row True)) p =
      Some (q, [EMouse (x10_kind (of_nat button)) (col - 1) (row - 1)
        \<lparr>m_shift = bit button 2, m_alt = bit button 3, m_ctrl = bit button 4\<rparr>]) \<and> vp_state q = Ground))"
  using mouse_reports [OF assms] by blast

theorem mouse_round_trip_witness:
  "reads_as (write_mouse_event True 0 10 5 True)
      [EMouse (MDown LeftButton) 9 4 \<lparr>m_shift = False, m_alt = False, m_ctrl = False\<rparr>]"
proof -
  have "vp_state parser_new = Ground" by (simp add: parser_new_def)
  from mouse_round_trip [OF _ _ _ this parser_new_ok, of 0 10 5 True]
  show ?thesis by (simp add: sgr_kind_def mouse_button_of_def)
qed

end
