(* ===== verification/Paste.thy ===== *)
theory Paste
  imports Key_Parser
begin

text \<open>
  Bracketed pastes: how the server writes one to the program of a pane
  (\<open>write_paste_chunked\<close> of \<open>src/core/src/input.rs\<close>), and how a client on Windows finds one among
  the single keys its console delivers (\<open>bracket_paste_detect\<close> of \<open>src/core/src/app.rs\<close>). The
  sleeps between chunks have no effect on what is written.
\<close>

section \<open>Writing a paste\<close>

text \<open>Line ends become carriage returns.\<close>

fun normalize_newlines :: "string \<Rightarrow> string" where
  "normalize_newlines [] = []"
| "normalize_newlines [c] = (if ord c = 10 then [char_of (13::nat)] else [c])"
| "normalize_newlines (c # d # cs) =
     (if ord c = 13 \<and> ord d = 10 then char_of (13::nat) # normalize_newlines cs
      else if ord c = 10 then char_of (13::nat) # normalize_newlines (d # cs)
      else c # normalize_newlines (d # cs))"

definition PASTE_CHUNK :: nat where "PASTE_CHUNK = 512"

definition paste_open :: string where "paste_open = char_of (27::nat) # ''[200~''"
definition paste_close :: string where "paste_close = char_of (27::nat) # ''[201~''"

text \<open>
  The writer: for its n-th call and the bytes offered, how many it takes, or that it fails. A call
  for a chunk that takes none is tried again once. \<open>write_all\<close> of the standard library goes on
  until all is taken, a call takes none, or a call fails; the calls it repeats because they were
  interrupted are not counted. Each function gives the bytes written and the number of the
  next call; the errors of the two markers are ignored by the code.
\<close>

type_synonym writer = "nat \<Rightarrow> nat \<Rightarrow> nat option"

function write_all :: "writer \<Rightarrow> nat \<Rightarrow> string \<Rightarrow> string \<times> nat" where
  "write_all w n s =
     (if s = [] then ([], n)
      else case w n (length s) of
             Some (Suc k) \<Rightarrow> map_prod ((@) (take (Suc k) s)) id (write_all w (n + 1) (drop (Suc k) s))
           | _ \<Rightarrow> ([], n + 1))"
  by pat_completeness auto
termination
  by (relation "measure (\<lambda>(w, n, s). length s)") auto

declare write_all.simps [simp del]

function write_chunks :: "writer \<Rightarrow> nat \<Rightarrow> string \<Rightarrow> nat \<Rightarrow> string \<times> nat" where
  "write_chunks w n s offset =
     (if offset < length s then
        (let remaining = min (length s - offset) PASTE_CHUNK; chunk = take remaining (drop offset s)
         in case w n remaining of
              None \<Rightarrow> ([], n + 1)
            | Some 0 \<Rightarrow>
                (case w (n + 1) remaining of
                   Some (Suc k) \<Rightarrow> map_prod ((@) (take (Suc k) chunk)) id (write_chunks w (n + 2) s (offset + Suc k))
                 | _ \<Rightarrow> ([], n + 2))
            | Some (Suc k) \<Rightarrow> map_prod ((@) (take (Suc k) chunk)) id (write_chunks w (n + 1) s (offset + Suc k)))
      else ([], n))"
  by pat_completeness auto
termination
  by (relation "measure (\<lambda>(w, n, s, offset). length s - offset)") auto

declare write_chunks.simps [simp del]

definition write_paste_chunked :: "writer \<Rightarrow> string \<Rightarrow> bool \<Rightarrow> string" where
  "write_paste_chunked w s bracket =
     (let (before, n) = (if bracket then write_all w 0 paste_open else ([], 0));
          (body, n) = write_chunks w n (normalize_newlines s) 0;
          (after, n) = (if bracket then write_all w n paste_close else ([], n))
      in before @ body @ after)"

section \<open>Finding a paste among keys\<close>

type_synonym key = "key_code \<times> key_mods"

definition OPEN_SEQ :: "nat list" where "OPEN_SEQ = map ord paste_open"
definition CLOSE_SEQ :: "nat list" where "CLOSE_SEQ = map ord paste_close"

datatype detect_state =
  Idle | MatchOpen nat "key list" | Pasting "nat list" | MatchClose nat "nat list"

datatype detect_action = Forward key | Replay "key list" key | Consumed | PasteFound "nat list"

definition key_byte :: "key \<Rightarrow> nat option" where
  "key_byte k = (case fst k of
     KEsc \<Rightarrow> Some 27
   | KChar c \<Rightarrow> if c < 128 then Some c else None
   | KEnter \<Rightarrow> Some 13
   | _ \<Rightarrow> None)"

text \<open>What a key within a paste adds to it.\<close>

definition key_text :: "key \<Rightarrow> nat list" where
  "key_text k = (case fst k of KChar c \<Rightarrow> [c] | KEnter \<Rightarrow> [13] | KTab \<Rightarrow> [9] | KEsc \<Rightarrow> [27] | _ \<Rightarrow> [])"

definition flush_timeout :: "bool \<Rightarrow> detect_state \<Rightarrow> detect_state \<times> key list option" where
  "flush_timeout expired st = (case st of
     MatchOpen idx pending \<Rightarrow> if expired then (Idle, Some pending) else (st, None)
   | _ \<Rightarrow> (st, None))"

definition feed_pasting :: "nat list \<Rightarrow> key \<Rightarrow> detect_state \<times> detect_action" where
  "feed_pasting buf k =
     (if key_byte k = Some (hd CLOSE_SEQ) then (MatchClose 1 buf, Consumed)
      else (Pasting (buf @ key_text k), Consumed))"

text \<open>The outer option is the panic of an index past the end of a sequence.\<close>

definition detect :: "detect_state \<Rightarrow> key \<Rightarrow> (detect_state \<times> detect_action) option" where
  "detect st k = (case st of
     Idle \<Rightarrow>
       if key_byte k = Some (hd OPEN_SEQ) then Some (MatchOpen 1 [k], Consumed) else Some (Idle, Forward k)
   | MatchOpen idx pending \<Rightarrow>
       (case key_byte k of
          None \<Rightarrow> Some (Idle, Replay pending k)
        | Some b \<Rightarrow> do {
            e \<leftarrow> get OPEN_SEQ idx;
            if b = e then
              (if idx + 1 \<ge> length OPEN_SEQ then Some (Pasting [], Consumed)
               else Some (MatchOpen (idx + 1) (pending @ [k]), Consumed))
            else Some (Idle, Replay pending k)
          })
   | Pasting buf \<Rightarrow> Some (feed_pasting buf k)
   | MatchClose idx buf \<Rightarrow>
       (case key_byte k of
          None \<Rightarrow> Some (feed_pasting (buf @ take idx CLOSE_SEQ) k)
        | Some b \<Rightarrow> do {
            e \<leftarrow> get CLOSE_SEQ idx;
            if b = e then
              (if idx + 1 \<ge> length CLOSE_SEQ then Some (Idle, PasteFound buf)
               else Some (MatchClose (idx + 1) buf, Consumed))
            else Some (feed_pasting (buf @ take idx CLOSE_SEQ) k)
          }))"

fun detect_all :: "detect_state \<Rightarrow> key list \<Rightarrow> (detect_state \<times> detect_action list) option" where
  "detect_all st [] = Some (st, [])"
| "detect_all st (k # ks) =
     do { (st1, a) \<leftarrow> detect st k; (st2, later) \<leftarrow> detect_all st1 ks; Some (st2, a # later) }"

end
