(* ===== verification/Paste_Props.thy ===== *)
theory Paste_Props
  imports Paste
begin

text \<open>
  What holds of pastes: the detector of a Windows client finds exactly the text between the two
  markers and loses no key typed outside; the parser of an SSH client does so as long as no
  escape hides the end of the paste; the server writes all of a paste, with its line ends
  normalised.
\<close>

section \<open>The detector\<close>

lemma OPEN_SEQ_eval: "OPEN_SEQ = [27, 91, 50, 48, 48, 126]"
  by (simp add: OPEN_SEQ_def paste_open_def)

lemma CLOSE_SEQ_eval: "CLOSE_SEQ = [27, 91, 50, 48, 49, 126]"
  by (simp add: CLOSE_SEQ_def paste_close_def)

lemma key_byte_text: "key_byte k = Some b \<Longrightarrow> key_text k = [b]"
  by (auto simp: key_byte_def key_text_def split: key_code.splits if_splits)

lemma detect_all_append:
  "detect_all st (ks @ ls) =
     (case detect_all st ks of
        None \<Rightarrow> None
      | Some (st1, acts) \<Rightarrow> map_option (\<lambda>(st2, later). (st2, acts @ later)) (detect_all st1 ls))"
  by (induction ks arbitrary: st) (auto simp: option.map_id split: option.splits Option.bind_split)

text \<open>The state after some keys of a paste: the text so far, of which the last bytes may start the end marker.\<close>

definition paste_text :: "key list \<Rightarrow> nat list" where
  "paste_text ks = concat (map key_text ks)"

definition ends_paste :: "key list \<Rightarrow> bool" where
  "ends_paste ks = (\<exists>pre. map key_byte ks = pre @ map Some CLOSE_SEQ)"

definition pasting :: "key list \<Rightarrow> detect_state \<Rightarrow> bool" where
  "pasting ks st =
     (\<exists>i t. i < 6 \<and> t @ take i CLOSE_SEQ = paste_text ks \<and> (\<exists>pre. map key_byte ks = pre @ map Some (take i CLOSE_SEQ)) \<and>
        st = (if i = 0 then Pasting t else MatchClose i t))"

lemma close_length: "length CLOSE_SEQ = 6"
  by (simp add: CLOSE_SEQ_eval)

lemma pasting_step:
  assumes "pasting ks st" "\<not> ends_paste (ks @ [k])"
  shows "\<exists>st'. detect st k = Some (st', Consumed) \<and> pasting (ks @ [k]) st'"
proof -
  obtain i t pre where i: "i < 6" "t @ take i CLOSE_SEQ = paste_text ks" "map key_byte ks = pre @ map Some (take i CLOSE_SEQ)"
    "st = (if i = 0 then Pasting t else MatchClose i t)"
    using assms(1) unfolding pasting_def by blast
  have tx: "paste_text (ks @ [k]) = t @ take i CLOSE_SEQ @ key_text k" using i(2) by (simp add: paste_text_def)
  show ?thesis
  proof (cases "key_byte k = Some (CLOSE_SEQ ! i)")
    case True
    have snoc: "take (Suc i) CLOSE_SEQ = take i CLOSE_SEQ @ [CLOSE_SEQ ! i]"
      using i(1) by (simp add: take_Suc_conv_app_nth close_length)
    have bytes: "map key_byte (ks @ [k]) = pre @ map Some (take (Suc i) CLOSE_SEQ)" using i(3) True by (simp add: snoc)
    have "Suc i \<noteq> 6" using assms(2) bytes by (auto simp: ends_paste_def close_length)
    then have lt: "Suc i < 6" using i(1) by simp
    have "detect st k = Some (MatchClose (Suc i) t, Consumed)"
      using True lt i(4) by (cases i) (simp_all add: detect_def feed_pasting_def get_def close_length CLOSE_SEQ_eval)
    moreover have "pasting (ks @ [k]) (MatchClose (Suc i) t)"
      unfolding pasting_def using lt tx bytes key_byte_text [OF True]
      by (intro exI [of _ "Suc i"] exI [of _ t]) (auto simp: snoc)
    ultimately show ?thesis by blast
  next
    case False
    have st: "detect st k = Some (feed_pasting (t @ take i CLOSE_SEQ) k)"
      using False i(1,4) by (auto simp: detect_def get_def close_length feed_pasting_def split: option.split)
    show ?thesis
    proof (cases "key_byte k = Some 27")
      case True
      have "pasting (ks @ [k]) (MatchClose 1 (t @ take i CLOSE_SEQ))"
        unfolding pasting_def using tx key_byte_text [OF True] True
        by (intro exI [of _ 1] exI [of _ "t @ take i CLOSE_SEQ"]) (simp add: CLOSE_SEQ_eval)
      then show ?thesis using True st by (simp add: feed_pasting_def CLOSE_SEQ_eval)
    next
      case other: False
      have "pasting (ks @ [k]) (Pasting (t @ take i CLOSE_SEQ @ key_text k))"
        unfolding pasting_def using tx
        by (intro exI [of _ 0] exI [of _ "t @ take i CLOSE_SEQ @ key_text k"]) simp
      then show ?thesis using other st by (simp add: feed_pasting_def CLOSE_SEQ_eval)
    qed
  qed
qed

text \<open>Keys among which the end marker does not occur.\<close>

definition no_close :: "key list \<Rightarrow> bool" where
  "no_close ks = (\<forall>xs ys. map key_byte ks \<noteq> xs @ map Some CLOSE_SEQ @ ys)"

lemma no_close_snoc: "no_close (ks @ [k]) \<Longrightarrow> no_close ks \<and> \<not> ends_paste (ks @ [k])"
  unfolding no_close_def ends_paste_def by (metis append.assoc append_Nil2 map_append)

lemma pasting_run:
  "no_close ks \<Longrightarrow> \<exists>st. detect_all (Pasting []) ks = Some (st, replicate (length ks) Consumed) \<and> pasting ks st"
proof (induction ks rule: rev_induct)
  case Nil
  show ?case by (simp add: pasting_def paste_text_def)
next
  case (snoc k ks)
  with no_close_snoc obtain st where st: "detect_all (Pasting []) ks = Some (st, replicate (length ks) Consumed)" "pasting ks st"
    by blast
  from pasting_step [OF st(2)] no_close_snoc [OF snoc.prems]
  obtain st' where "detect st k = Some (st', Consumed)" "pasting (ks @ [k]) st'" by blast
  then show ?case using st(1) by (simp add: detect_all_append replicate_append_same [symmetric])
qed

lemma detect_close:
  assumes "pasting ks st" "map key_byte cs = map Some CLOSE_SEQ"
  shows "detect_all st cs = Some (Idle, replicate 5 Consumed @ [PasteFound (paste_text ks)])"
proof -
  obtain a b c d e f where cs: "cs = [a, b, c, d, e, f]" "key_byte a = Some 27" "key_byte b = Some 91" "key_byte c = Some 50"
    "key_byte d = Some 48" "key_byte e = Some 49" "key_byte f = Some 126"
    using assms(2) by (auto simp: CLOSE_SEQ_eval)
  obtain i t where i: "i < 6" "t @ take i CLOSE_SEQ = paste_text ks" "st = (if i = 0 then Pasting t else MatchClose i t)"
    using assms(1) unfolding pasting_def by blast
  have "i \<in> {0, 1, 2, 3, 4, 5}" using i(1) by auto
  then have "detect st a = Some (MatchClose 1 (paste_text ks), Consumed)"
    unfolding i(2) [symmetric] using i(3) cs(2) by (auto simp: detect_def feed_pasting_def get_def CLOSE_SEQ_eval)
  then show ?thesis
    unfolding cs(1) using cs(3-7) by (simp add: detect_def get_def CLOSE_SEQ_eval numeral_eq_Suc)
qed

lemma detect_open:
  assumes "map key_byte os = map Some OPEN_SEQ"
  shows "detect_all Idle os = Some (Pasting [], replicate 6 Consumed)"
proof -
  obtain a b c d e f where "os = [a, b, c, d, e, f]" "key_byte a = Some 27" "key_byte b = Some 91" "key_byte c = Some 50"
    "key_byte d = Some 48" "key_byte e = Some 48" "key_byte f = Some 126"
    using assms by (auto simp: OPEN_SEQ_eval)
  then show ?thesis by (simp add: detect_def get_def OPEN_SEQ_eval numeral_eq_Suc)
qed

text \<open>C16: When the keys of a start marker, of any text without an end marker, and of an end marker arrive,
  the detector takes them all and delivers the paste with exactly the text of the keys between -
  also when the text has escapes, or ends with what looks like the beginning of the end marker.\<close>

theorem detector_finds_paste:
  assumes "map key_byte os = map Some OPEN_SEQ" "no_close ks" "map key_byte cs = map Some CLOSE_SEQ"
  shows "detect_all Idle (os @ ks @ cs) =
    Some (Idle, replicate (length ks + 11) Consumed @ [PasteFound (paste_text ks)])"
proof -
  obtain st where st: "detect_all (Pasting []) ks = Some (st, replicate (length ks) Consumed)" "pasting ks st"
    using pasting_run [OF assms(2)] by blast
  have "replicate 6 Consumed @ replicate (length ks) Consumed @ replicate 5 Consumed = replicate (length ks + 11) Consumed"
    by (simp add: replicate_add [symmetric])
  then show ?thesis
    using detect_open [OF assms(1)] st detect_close [OF st(2) assms(3)]
    by (simp add: detect_all_append append_assoc [symmetric] del: append_assoc)
qed

definition char_keys :: "nat list \<Rightarrow> key list" where
  "char_keys cs = map (\<lambda>c. (if c = 27 then KEsc else KChar c, no_mods)) cs"

theorem detector_finds_paste_witness:
  "detect_all Idle (char_keys OPEN_SEQ @ char_keys [104, 27, 91, 50, 48] @ char_keys CLOSE_SEQ) =
    Some (Idle, replicate 16 Consumed @ [PasteFound [104, 27, 91, 50, 48]])"
proof -
  have "no_close (char_keys [104, 27, 91, 50, 48])"
    unfolding no_close_def by (auto simp: char_keys_def CLOSE_SEQ_eval key_byte_def Cons_eq_append_conv)
  then show ?thesis
    using detector_finds_paste [of "char_keys OPEN_SEQ" "char_keys [104, 27, 91, 50, 48]" "char_keys CLOSE_SEQ"]
    by (simp add: char_keys_def CLOSE_SEQ_eval OPEN_SEQ_eval key_byte_def paste_text_def key_text_def)
qed

section \<open>Keys that are no paste\<close>

definition no_open :: "key list \<Rightarrow> bool" where
  "no_open ks = (\<forall>xs ys. map key_byte ks \<noteq> xs @ map Some OPEN_SEQ @ ys)"

definition delivered :: "detect_action \<Rightarrow> key list" where
  "delivered a = (case a of Forward k \<Rightarrow> [k] | Replay ps k \<Rightarrow> ps @ [k] | _ \<Rightarrow> [])"

definition held_back :: "detect_state \<Rightarrow> key list" where
  "held_back st = (case st of MatchOpen i ps \<Rightarrow> ps | _ \<Rightarrow> [])"

definition waiting :: "detect_state \<Rightarrow> bool" where
  "waiting st = (case st of
     Idle \<Rightarrow> True
   | MatchOpen i ps \<Rightarrow> 0 < i \<and> i < 6 \<and> map key_byte ps = map Some (take i OPEN_SEQ)
   | _ \<Rightarrow> False)"

lemma open_length: "length OPEN_SEQ = 6"
  by (simp add: OPEN_SEQ_eval)

lemma waiting_step:
  assumes "waiting st" "map key_byte (held_back st @ [k]) \<noteq> map Some OPEN_SEQ"
  shows "\<exists>st' a. detect st k = Some (st', a) \<and> waiting st' \<and> delivered a @ held_back st' = held_back st @ [k]"
proof (cases st)
  case Idle
  then show ?thesis by (auto simp: detect_def waiting_def delivered_def held_back_def OPEN_SEQ_eval)
next
  case (MatchOpen i ps)
  with assms(1) have i: "0 < i" "i < 6" "map key_byte ps = map Some (take i OPEN_SEQ)" by (simp_all add: waiting_def)
  show ?thesis
  proof (cases "key_byte k = Some (OPEN_SEQ ! i)")
    case True
    have bytes: "map key_byte (ps @ [k]) = map Some (take (Suc i) OPEN_SEQ)"
      using i(2,3) True by (simp add: take_Suc_conv_app_nth open_length)
    then have "Suc i \<noteq> 6" using assms(2) MatchOpen by (auto simp: held_back_def open_length)
    then show ?thesis
      using MatchOpen True i bytes by (simp add: detect_def get_def open_length waiting_def delivered_def held_back_def)
  next
    case False
    then show ?thesis
      using MatchOpen i by (auto simp: detect_def get_def open_length waiting_def delivered_def held_back_def split: option.split)
  qed
qed (use assms(1) in \<open>simp_all add: waiting_def\<close>)

lemma no_open_part:
  assumes "no_open ks" "ks = as @ bs @ cs"
  shows "map key_byte bs \<noteq> map Some OPEN_SEQ" "no_open (as @ bs)"
proof -
  show "map key_byte bs \<noteq> map Some OPEN_SEQ"
  proof
    assume "map key_byte bs = map Some OPEN_SEQ"
    then have "map key_byte ks = map key_byte as @ map Some OPEN_SEQ @ map key_byte cs" using assms(2) by simp
    with assms(1) show False unfolding no_open_def by blast
  qed
  have "map key_byte ks = xs @ map Some OPEN_SEQ @ (ys @ map key_byte cs)" if "map key_byte (as @ bs) = xs @ map Some OPEN_SEQ @ ys"
    for xs ys
  proof -
    have "map key_byte ks = map key_byte (as @ bs) @ map key_byte cs" using assms(2) by simp
    then show ?thesis unfolding that by simp
  qed
  with assms(1) show "no_open (as @ bs)" unfolding no_open_def by blast
qed

text \<open>Keys that hold no start marker all get through, in order: after any of them, those delivered
  and those held back for a moment are together the keys that arrived.\<close>

theorem detector_keeps_keys:
  assumes "no_open ks"
  shows "\<exists>st acts. detect_all Idle ks = Some (st, acts) \<and> concat (map delivered acts) @ held_back st = ks \<and>
    snd (flush_timeout True st) = (if held_back st = [] then None else Some (held_back st))"
proof -
  from assms have "\<exists>st acts. detect_all Idle ks = Some (st, acts) \<and> waiting st \<and> concat (map delivered acts) @ held_back st = ks"
  proof (induction ks rule: rev_induct)
    case Nil
    show ?case by (simp add: waiting_def held_back_def)
  next
    case (snoc k ks)
    have "no_open ks" using no_open_part(2) [OF snoc.prems, of ks "[]" "[k]"] by simp
    with snoc.IH obtain st acts where st: "detect_all Idle ks = Some (st, acts)" "waiting st"
      "concat (map delivered acts) @ held_back st = ks" by blast
    have "map key_byte (held_back st @ [k]) \<noteq> map Some OPEN_SEQ"
      by (rule no_open_part(1) [OF snoc.prems, of "concat (map delivered acts)" _ "[]"]) (simp add: st(3) [symmetric])
    from waiting_step [OF st(2) this] obtain st' a where "detect st k = Some (st', a)" "waiting st'"
      "delivered a @ held_back st' = held_back st @ [k]" by blast
    moreover from this st(3) have "concat (map delivered (acts @ [a])) @ held_back st' = ks @ [k]" by simp
    moreover have "detect_all Idle (ks @ [k]) = Some (st', acts @ [a])"
      using st(1) \<open>detect st k = Some (st', a)\<close> by (simp add: detect_all_append)
    ultimately show ?case by blast
  qed
  then obtain st acts where st: "detect_all Idle ks = Some (st, acts)" "waiting st" "concat (map delivered acts) @ held_back st = ks"
    by blast
  have "snd (flush_timeout True st) = (if held_back st = [] then None else Some (held_back st))"
    using st(2) by (cases st) (auto simp: flush_timeout_def held_back_def waiting_def OPEN_SEQ_eval)
  with st show ?thesis by blast
qed

theorem detector_keeps_keys_witness:
  "\<exists>st acts. detect_all Idle (char_keys [27, 91, 65]) = Some (st, acts) \<and>
    concat (map delivered acts) @ held_back st = char_keys [27, 91, 65]"
proof -
  have "no_open (char_keys [27, 91, 65])"
    unfolding no_open_def by (auto simp: char_keys_def OPEN_SEQ_eval key_byte_def Cons_eq_append_conv)
  from detector_keeps_keys [OF this] show ?thesis by blast
qed

text \<open>After an escape that was typed, the start marker is not seen: the escape that begins it only breaks
  off the match, and the paste arrives as single keys. The end marker has no such gap.\<close>

lemma escape_hides_paste:
  "detect_all Idle (char_keys (27 # OPEN_SEQ)) =
     Some (Idle, [Consumed, Replay (char_keys [27]) (KEsc, no_mods)] @ map Forward (char_keys (tl OPEN_SEQ)))"
  by (simp add: char_keys_def OPEN_SEQ_eval detect_def get_def key_byte_def)

section \<open>Writing\<close>

definition good_writer :: "writer \<Rightarrow> bool" where
  "good_writer w = (\<forall>n m. 0 < m \<longrightarrow> (\<exists>k. w n m = Some k \<and> 0 < k \<and> k \<le> m))"

lemma write_all_good: "good_writer w \<Longrightarrow> fst (write_all w n s) = s"
proof (induction w n s rule: write_all.induct)
  case (1 w n s)
  show ?case
  proof (cases "s = []")
    case False
    then obtain k where k: "w n (length s) = Some (Suc k)"
      using "1.prems" unfolding good_writer_def by (metis gr0_conv_Suc length_greater_0_conv)
    have "fst (write_all w n s) = take (Suc k) s @ fst (write_all w (n + 1) (drop (Suc k) s))"
      using False k by (simp add: write_all.simps [of w n s])
    also have "fst (write_all w (n + 1) (drop (Suc k) s)) = drop (Suc k) s"
      by (rule "1.IH" [OF False k refl "1.prems"])
    finally show ?thesis by simp
  qed (simp add: write_all.simps [of w n "[]"])
qed

lemma write_chunks_all: "good_writer w \<Longrightarrow> fst (write_chunks w n s offset) = drop offset s"
proof (induction w n s offset rule: write_chunks.induct)
  case (1 w n s offset)
  show ?case
  proof (cases "offset < length s")
    case True
    let ?m = "min (length s - offset) PASTE_CHUNK"
    have "0 < ?m" using True by (simp add: PASTE_CHUNK_def)
    then obtain k where k: "w n ?m = Some (Suc k)" "Suc k \<le> ?m"
      using "1.prems" unfolding good_writer_def by (metis gr0_conv_Suc)
    have "fst (write_chunks w n s offset) = take (Suc k) (take ?m (drop offset s)) @ fst (write_chunks w (n + 1) s (offset + Suc k))"
      using True k(1) by (simp add: write_chunks.simps [of w n s offset])
    also have "fst (write_chunks w (n + 1) s (offset + Suc k)) = drop (offset + Suc k) s"
      by (rule 1(2) [OF True refl refl k(1) refl "1.prems"])
    also have "take (Suc k) (take ?m (drop offset s)) = take (Suc k) (drop offset s)" using k(2) by (simp add: min_def)
    also have "drop (offset + Suc k) s = drop (Suc k) (drop offset s)" by (simp add: add.commute)
    finally show ?thesis by (simp only: append_take_drop_id)
  next
    case False
    then show ?thesis by (simp add: write_chunks.simps [of w n s offset])
  qed
qed

lemma write_paste_all:
  "good_writer w \<Longrightarrow> write_paste_chunked w s True = paste_open @ normalize_newlines s @ paste_close"
  using write_all_good [of w] write_chunks_all [of w]
  by (simp add: write_paste_chunked_def split_def)

lemma normalize_no_newline: "char_of (10::nat) \<notin> set (normalize_newlines s)"
  by (induction s rule: normalize_newlines.induct) auto

section \<open>The parser of an SSH client\<close>

text \<open>A text in which no escape takes the parser away from it: after an escape comes something, and if
  that is a bracket then something that is no digit.\<close>

fun paste_safe :: "nat list \<Rightarrow> bool" where
  "paste_safe [] = True"
| "paste_safe [c] = (c \<noteq> 27)"
| "paste_safe [c, d] = (if c = 27 then d \<noteq> 91 else d \<noteq> 27)"
| "paste_safe (c # d # e # cs) =
     (if c \<noteq> 27 then paste_safe (d # e # cs)
      else if d \<noteq> 91 then paste_safe (e # cs)
      else \<not> is_digit_char e \<and> paste_safe cs)"

lemma push_paste_push [simp]: "push_paste ds (push_paste cs p) = push_paste (cs @ ds) p"
  by (simp add: push_paste_def)

lemma push_paste_state [simp]: "vp_state (push_paste cs p) = vp_state p" "vp_paste (push_paste cs p) = vp_paste p @ cs"
  by (simp_all add: push_paste_def)

lemma feed_paste_one:
  assumes "vp_state p = Paste"
  shows "c \<noteq> 27 \<Longrightarrow> feed_text (c # cs) p = feed_text cs (push_paste [c] p)"
    "d \<noteq> 91 \<Longrightarrow> feed_text (27 # d # cs) p = feed_text cs (push_paste [27, d] p)"
    "\<not> is_digit_char e \<Longrightarrow> feed_text (27 # 91 # e # cs) p = feed_text cs (push_paste [27, 91, e] p)"
proof -
  have esc: "feed 27 p = Some (goto_state PasteEsc p, [])" using assms by (simp add: feed_def on_paste_def)
  have brk: "feed 91 (goto_state PasteEsc p) = Some (goto_state PasteBrk (goto_state PasteEsc p), [])"
    by (simp add: feed_def on_paste_esc_def goto_state_def)
  show "feed_text (c # cs) p = feed_text cs (push_paste [c] p)" if "c \<noteq> 27"
    using that assms by (intro feed_quiet) (simp add: feed_def on_paste_def)
  have plain: "feed d (goto_state PasteEsc p) = Some (push_paste [27, d] p, [])" if "d \<noteq> 91"
    using that assms by (simp add: feed_def on_paste_esc_def goto_state_def push_paste_def)
  show "feed_text (27 # d # cs) p = feed_text cs (push_paste [27, d] p)" if "d \<noteq> 91"
    by (simp only: feed_quiet [OF esc] feed_quiet [OF plain [OF that]])
  have other: "feed e (goto_state PasteBrk (goto_state PasteEsc p)) = Some (push_paste [27, 91, e] p, [])" if "\<not> is_digit_char e"
    using that assms by (simp add: feed_def on_paste_brk_def goto_state_def push_paste_def)
  show "feed_text (27 # 91 # e # cs) p = feed_text cs (push_paste [27, 91, e] p)" if "\<not> is_digit_char e"
    by (simp only: feed_quiet [OF esc] feed_quiet [OF brk] feed_quiet [OF other [OF that]])
qed

lemma feed_paste_text: "paste_safe cs \<Longrightarrow> vp_state p = Paste \<Longrightarrow> feed_text (cs @ ds) p = feed_text ds (push_paste cs p)"
proof (induction cs arbitrary: p rule: paste_safe.induct)
  case 1
  then show ?case by (simp add: push_paste_def)
next
  case (4 c d e cs)
  then show ?case
    by (auto simp: feed_paste_one simp del: feed_text.simps split: if_splits)
qed (auto simp: feed_paste_one simp del: feed_text.simps split: if_splits)

lemma feed_paste_end:
  assumes "vp_state p = Paste"
  shows "\<exists>q. feed_text CLOSE_SEQ p = Some (q, [EPaste (vp_paste p)]) \<and> vp_state q = Ground"
  using assms
  by (simp add: CLOSE_SEQ_eval feed_def on_paste_def on_paste_esc_def on_paste_brk_def on_paste_num_def goto_state_def
      is_digit_char_def add_digit_def sat_add16_def)

lemma feed_paste_start:
  assumes "vp_state p = Ground"
  shows "\<exists>q. (\<forall>ds. feed_text (OPEN_SEQ @ ds) p = feed_text ds q) \<and> vp_state q = Paste \<and> vp_paste q = []"
proof -
  have "\<exists>q. feed_text OPEN_SEQ p = Some (q, []) \<and> vp_state q = Paste \<and> vp_paste q = []"
    using assms
    by (simp add: OPEN_SEQ_eval feed_def on_ground_def on_escape_def on_csi_entry_def on_csi_param_def goto_state_def
        is_digit_char_def is_final_def add_digit_def sat_add16_def reset_csi_def finish_param_def dispatch_csi_def)
  then show ?thesis by (auto simp: feed_text_append option.map_id)
qed

text \<open>C31: A paste the server writes for a program that asked for brackets reaches it whole when the program
  is winsmux again: the reader of its SSH client gives one paste with the text, its line ends
  carriage returns - for a writer that keeps taking bytes, and a text whose escapes, taken from
  the left, are each followed by a character that is not \<open>[\<close>, or by \<open>[\<close> and a character that is not
  a digit. (A number after \<open>ESC [\<close> is read as a number, so it may come back without its leading
  zeros, or end the paste.)\<close>

theorem paste_reaches_program:
  assumes "good_writer w" "normalize_newlines s = utf8_text cs" "\<forall>c\<in>set cs. is_scalar c" "paste_safe cs" "vp_state p = Ground"
  shows "\<exists>chars q. from_utf8 (write_paste_chunked w s True) = Some chars \<and> feed_text chars p = Some (q, [EPaste cs]) \<and>
    vp_state q = Ground"
proof -
  have marks: "utf8_text OPEN_SEQ = paste_open" "utf8_text CLOSE_SEQ = paste_close"
    unfolding OPEN_SEQ_def CLOSE_SEQ_def by (rule utf8_text_ascii; simp add: paste_open_def paste_close_def)+
  have "write_paste_chunked w s True = utf8_text (OPEN_SEQ @ cs @ CLOSE_SEQ)"
    using marks by (simp add: write_paste_all [OF assms(1)] assms(2) utf8_text_def)
  moreover have "\<forall>c\<in>set (OPEN_SEQ @ cs @ CLOSE_SEQ). is_scalar c"
    using assms(3) by (auto simp: OPEN_SEQ_eval CLOSE_SEQ_eval is_scalar_def)
  ultimately have read: "from_utf8 (write_paste_chunked w s True) = Some (OPEN_SEQ @ cs @ CLOSE_SEQ)"
    by (simp only: from_utf8_text)
  obtain q where q: "\<And>ds. feed_text (OPEN_SEQ @ ds) p = feed_text ds q" "vp_state q = Paste" "vp_paste q = []"
    using feed_paste_start [OF assms(5)] by blast
  have "feed_text (OPEN_SEQ @ cs @ CLOSE_SEQ) p = feed_text CLOSE_SEQ (push_paste cs q)"
    unfolding q(1) by (rule feed_paste_text [OF assms(4) q(2)])
  then show ?thesis using read feed_paste_end [of "push_paste cs q"] q(2,3) by auto
qed

theorem paste_reaches_program_witness:
  "\<exists>chars q. from_utf8 (write_paste_chunked (\<lambda>_ m. Some (min m 7)) (map char_of [104, 105, 10, 27, 111 :: nat]) True) = Some chars \<and>
    feed_text chars parser_new = Some (q, [EPaste [104, 105, 13, 27, 111]])"
proof -
  have "good_writer (\<lambda>_ m. Some (min m 7))" by (simp add: good_writer_def)
  then show ?thesis
    using paste_reaches_program [of "\<lambda>_ m. Some (min m 7)" "map char_of [104, 105, 10, 27, 111 :: nat]" "[104, 105, 13, 27, 111]" parser_new]
    by (auto simp: is_scalar_def parser_new_def utf8_text_def utf8_def)
qed

text \<open>A paste whose text ends with an escape never ends for that reader: the escape takes the one of
  the end marker for its own, the marker becomes text, and everything typed afterwards is taken
  for the paste.\<close>

theorem paste_swallows_end:
  assumes "paste_safe cs" "paste_safe ds" "vp_state p = Ground"
  shows "\<exists>q. feed_text (OPEN_SEQ @ (cs @ [27]) @ CLOSE_SEQ @ ds) p = Some (q, []) \<and> vp_state q = Paste \<and>
    vp_paste q = cs @ [27] @ CLOSE_SEQ @ ds"
proof -
  obtain q where q: "\<And>ds. feed_text (OPEN_SEQ @ ds) p = feed_text ds q" "vp_state q = Paste" "vp_paste q = []"
    using feed_paste_start [OF assms(3)] by blast
  have more: "paste_safe ([27] @ CLOSE_SEQ)" by (simp add: CLOSE_SEQ_eval)
  have "feed_text (OPEN_SEQ @ (cs @ [27]) @ CLOSE_SEQ @ ds) p = feed_text (cs @ ([27] @ CLOSE_SEQ) @ ds @ []) q"
    by (simp add: q(1))
  also have "\<dots> = feed_text (([27] @ CLOSE_SEQ) @ ds @ []) (push_paste cs q)"
    by (rule feed_paste_text [OF assms(1) q(2)])
  also have "\<dots> = feed_text (ds @ []) (push_paste ([27] @ CLOSE_SEQ) (push_paste cs q))"
    by (rule feed_paste_text [OF more]) (simp add: q(2))
  also have "\<dots> = feed_text [] (push_paste ds (push_paste ([27] @ CLOSE_SEQ) (push_paste cs q)))"
    by (rule feed_paste_text [OF assms(2)]) (simp add: q(2))
  finally show ?thesis using q(2,3) by simp
qed

theorem paste_swallows_end_witness:
  "\<exists>q. feed_text (OPEN_SEQ @ ([104] @ [27]) @ CLOSE_SEQ @ [108, 115, 13]) parser_new = Some (q, []) \<and> vp_state q = Paste"
  using paste_swallows_end [of "[104]" "[108, 115, 13]" parser_new] by (auto simp: parser_new_def)

text \<open>The server does not look at the text it pastes: an end marker in it ends the paste in the
  program, and what follows it is typed there - a line with its Enter, too.\<close>

theorem paste_breaks_out:
  assumes "good_writer w"
  shows "\<exists>chars q. from_utf8 (write_paste_chunked w (''hi'' @ paste_close @ ''ls'' @ [char_of (10::nat)]) True) = Some chars \<and>
    feed_text chars parser_new = Some (q, [EPaste [104, 105], EKey (KChar 108) no_mods, EKey (KChar 115) no_mods, EKey KEnter no_mods])"
proof -
  let ?cs = "[104, 105] @ CLOSE_SEQ @ [108, 115, 13]"
  have marks: "utf8_text OPEN_SEQ = paste_open" "utf8_text CLOSE_SEQ = paste_close"
    unfolding OPEN_SEQ_def CLOSE_SEQ_def by (rule utf8_text_ascii; simp add: paste_open_def paste_close_def)+
  have "normalize_newlines (''hi'' @ paste_close @ ''ls'' @ [char_of (10::nat)]) = utf8_text ?cs"
    using utf8_text_ascii [of "''hi'' @ paste_close @ ''ls'' @ [char_of (13::nat)]"]
    by (simp add: paste_close_def CLOSE_SEQ_eval)
  then have "write_paste_chunked w (''hi'' @ paste_close @ ''ls'' @ [char_of (10::nat)]) True = utf8_text (OPEN_SEQ @ ?cs @ CLOSE_SEQ)"
    using marks by (simp add: write_paste_all [OF assms] utf8_text_def)
  moreover have "\<forall>c\<in>set (OPEN_SEQ @ ?cs @ CLOSE_SEQ). is_scalar c"
    by (auto simp: OPEN_SEQ_eval CLOSE_SEQ_eval is_scalar_def)
  ultimately have read: "from_utf8 (write_paste_chunked w (''hi'' @ paste_close @ ''ls'' @ [char_of (10::nat)]) True) =
      Some (OPEN_SEQ @ ?cs @ CLOSE_SEQ)"
    by (simp only: from_utf8_text)
  have ground: "vp_state parser_new = Ground" by (simp add: parser_new_def)
  obtain q where q: "\<And>ds. feed_text (OPEN_SEQ @ ds) parser_new = feed_text ds q" "vp_state q = Paste" "vp_paste q = []"
    using feed_paste_start [OF ground] by blast
  obtain r where r: "feed_text CLOSE_SEQ (push_paste [104, 105] q) = Some (r, [EPaste [104, 105]])" "vp_state r = Ground"
    using feed_paste_end [of "push_paste [104, 105] q"] q(2,3) by auto
  have tail: "\<exists>q'. feed_text ([108, 115, 13] @ CLOSE_SEQ) r =
      Some (q', [EKey (KChar 108) no_mods, EKey (KChar 115) no_mods, EKey KEnter no_mods])"
    using r(2)
    by (simp add: CLOSE_SEQ_eval feed_def on_ground_def ground_events_def on_escape_def on_csi_entry_def on_csi_param_def
        goto_state_def is_digit_char_def is_final_def add_digit_def sat_add16_def reset_csi_def finish_param_def
        dispatch_csi_def csi_events_def csi_key_def dispatch_tilde_def tilde_key_def)
  have "feed_text (OPEN_SEQ @ ?cs @ CLOSE_SEQ) parser_new =
      feed_text (CLOSE_SEQ @ [108, 115, 13] @ CLOSE_SEQ) (push_paste [104, 105] q)"
    unfolding q(1) using feed_paste_text [of "[104, 105]" q "CLOSE_SEQ @ [108, 115, 13] @ CLOSE_SEQ"] q(2) by simp
  then have "\<exists>q'. feed_text (OPEN_SEQ @ ?cs @ CLOSE_SEQ) parser_new =
      Some (q', [EPaste [104, 105], EKey (KChar 108) no_mods, EKey (KChar 115) no_mods, EKey KEnter no_mods])"
    using tail unfolding feed_text_append [of CLOSE_SEQ] r(1) by auto
  with read show ?thesis by blast
qed

theorem paste_breaks_out_witness:
  "\<exists>chars. from_utf8 (write_paste_chunked (\<lambda>_ m. Some m) (''hi'' @ paste_close @ ''ls'' @ [char_of (10::nat)]) True) = Some chars"
  using paste_breaks_out [of "\<lambda>_ m. Some m"] by (auto simp: good_writer_def)

end
