(* ===== verification/Copy_Text.thy ===== *)
theory Copy_Text
  imports Utf8
begin

text \<open>
  The text side of copy mode (\<open>src/core/src/copy_mode.rs\<close>): classes of characters, the loops
  that walk over the characters of a row, and the search for a substring. A character is its
  code point. Which letters outside ASCII are alphanumeric, and what their lower case is, are
  tables of the standard library: parameters. An index out of range panics: \<open>None\<close>.
\<close>

section \<open>Characters\<close>

text \<open>\<open>char::is_whitespace\<close>: the property White_Space of Unicode.\<close>

definition white :: "nat \<Rightarrow> bool" where
  "white c = ((9 \<le> c \<and> c \<le> 13) \<or> c = 32 \<or> c = 133 \<or> c = 160 \<or> c = 5760 \<or> (8192 \<le> c \<and> c \<le> 8202) \<or>
              c = 8232 \<or> c = 8233 \<or> c = 8239 \<or> c = 8287 \<or> c = 12288)"

definition char_class :: "(nat \<Rightarrow> bool) \<Rightarrow> nat list \<Rightarrow> nat \<Rightarrow> nat" where
  "char_class alnum seps c =
     (if white c then 0
      else if c \<in> set seps then 2
      else if alnum c \<or> c = 95 then 1
      else 2)"

section \<open>Walking over a row\<close>

text \<open>The loop \<open>while i < len && p(cs[i]) { i += 1 }\<close>.\<close>

function skip_while :: "('a \<Rightarrow> bool) \<Rightarrow> 'a list \<Rightarrow> nat \<Rightarrow> nat" where
  "skip_while p cs i = (if i < length cs \<and> p (cs ! i) then skip_while p cs (i + 1) else i)"
  by pat_completeness auto
termination by (relation "measure (\<lambda>(p, cs, i). length cs - i)") auto

text \<open>The loop \<open>while i + 1 < len && p(cs[i + 1]) { i += 1 }\<close>.\<close>

function ahead_while :: "('a \<Rightarrow> bool) \<Rightarrow> 'a list \<Rightarrow> nat \<Rightarrow> nat" where
  "ahead_while p cs i = (if i + 1 < length cs \<and> p (cs ! (i + 1)) then ahead_while p cs (i + 1) else i)"
  by pat_completeness auto
termination by (relation "measure (\<lambda>(p, cs, i). length cs - i)") auto

declare skip_while.simps [simp del] ahead_while.simps [simp del]

text \<open>The loop \<open>while i > 0 && p(cs[i - 1]) { i -= 1 }\<close>.\<close>

fun back_while :: "('a \<Rightarrow> bool) \<Rightarrow> 'a list \<Rightarrow> nat \<Rightarrow> nat option" where
  "back_while p cs 0 = Some 0"
| "back_while p cs (Suc i) =
     (case get cs i of None \<Rightarrow> None | Some c \<Rightarrow> if p c then back_while p cs i else Some (Suc i))"

text \<open>The loop \<open>while i > 0 && p(cs[i]) { i -= 1 }\<close>.\<close>

fun here_while :: "('a \<Rightarrow> bool) \<Rightarrow> 'a list \<Rightarrow> nat \<Rightarrow> nat option" where
  "here_while p cs 0 = Some 0"
| "here_while p cs (Suc i) =
     (case get cs (Suc i) of None \<Rightarrow> None | Some c \<Rightarrow> if p c then here_while p cs i else Some (Suc i))"

section \<open>Trimming\<close>

definition trim_end :: "nat list \<Rightarrow> nat list" where
  "trim_end s = rev (dropWhile white (rev s))"

definition blank :: "nat list \<Rightarrow> bool" where
  "blank s = list_all white s"

section \<open>Words\<close>

text \<open>
  The columns the word motions compute in a row. The class of a character is a parameter.
\<close>

definition word_forward :: "(nat \<Rightarrow> nat) \<Rightarrow> nat list \<Rightarrow> nat \<Rightarrow> nat" where
  "word_forward cls cs col =
     (let col1 = (if col < length cs then skip_while (\<lambda>c. cls c = cls (cs ! col)) cs col else col)
      in skip_while white cs col1)"

definition first_word :: "nat list \<Rightarrow> nat" where
  "first_word cs = skip_while white cs 0"

definition word_backward :: "(nat \<Rightarrow> nat) \<Rightarrow> nat list \<Rightarrow> nat \<Rightarrow> nat option" where
  "word_backward cls cs col =
     do {
       col1 \<leftarrow> back_while white cs col;
       (if col1 > 0 then
          (case get cs (col1 - 1) of
             None \<Rightarrow> None
           | Some c \<Rightarrow> back_while (\<lambda>d. cls d = cls c) cs col1)
        else Some col1)
     }"

definition last_word :: "(nat \<Rightarrow> nat) \<Rightarrow> nat list \<Rightarrow> nat \<Rightarrow> nat option" where
  "last_word cls cs cols =
     do {
       nc \<leftarrow> here_while white cs (min cols (length cs) - 1);
       c \<leftarrow> get cs nc;
       back_while (\<lambda>d. cls d = cls c) cs nc
     }"

definition word_end :: "(nat \<Rightarrow> nat) \<Rightarrow> nat list \<Rightarrow> nat \<Rightarrow> nat" where
  "word_end cls cs col =
     (let col1 = skip_while white cs (col + 1)
      in if col1 < length cs then ahead_while (\<lambda>c. cls c = cls (cs ! col1)) cs col1 else col1)"

definition first_word_end :: "(nat \<Rightarrow> nat) \<Rightarrow> nat list \<Rightarrow> nat" where
  "first_word_end cls cs =
     (let nc = skip_while white cs 0;
          k = (if nc < length cs then cls (cs ! nc) else 0)
      in ahead_while (\<lambda>c. cls c = k) cs nc)"

section \<open>WORDs\<close>

definition big_forward :: "nat list \<Rightarrow> nat \<Rightarrow> nat" where
  "big_forward cs col = skip_while white cs (skip_while (\<lambda>c. \<not> white c) cs col)"

definition big_backward :: "nat list \<Rightarrow> nat \<Rightarrow> nat option" where
  "big_backward cs col = do { col1 \<leftarrow> back_while white cs col; back_while (\<lambda>c. \<not> white c) cs col1 }"

definition last_big :: "nat list \<Rightarrow> nat \<Rightarrow> nat option" where
  "last_big cs cols =
     do { nc \<leftarrow> here_while white cs (min cols (length cs) - 1); back_while (\<lambda>c. \<not> white c) cs nc }"

definition big_end :: "nat list \<Rightarrow> nat \<Rightarrow> nat" where
  "big_end cs col = ahead_while (\<lambda>c. \<not> white c) cs (skip_while white cs (col + 1))"

definition first_big_end :: "nat list \<Rightarrow> nat" where
  "first_big_end cs = ahead_while (\<lambda>c. \<not> white c) cs (skip_while white cs 0)"

section \<open>Text objects\<close>

text \<open>
  The first and the last index of the word around a column. A column beyond the text selects
  nothing. The backward loops stay below the column, so they do not panic.
\<close>

definition inner_word :: "(nat \<Rightarrow> nat) \<Rightarrow> nat list \<Rightarrow> nat \<Rightarrow> (nat \<times> nat) option option" where
  "inner_word cls cs col =
     (if col \<ge> length cs then Some None
      else let k = cls (cs ! col)
           in map_option (\<lambda>s. Some (s, ahead_while (\<lambda>c. cls c = k) cs col)) (back_while (\<lambda>c. cls c = k) cs col))"

definition a_word :: "(nat \<Rightarrow> nat) \<Rightarrow> nat list \<Rightarrow> nat \<Rightarrow> (nat \<times> nat) option option" where
  "a_word cls cs col = map_option (map_option (\<lambda>(s, e). (s, ahead_while white cs e))) (inner_word cls cs col)"

definition inner_big :: "nat list \<Rightarrow> nat \<Rightarrow> (nat \<times> nat) option option" where
  "inner_big cs col =
     (if col \<ge> length cs then Some None
      else let k = white (cs ! col)
           in map_option (\<lambda>s. Some (s, ahead_while (\<lambda>c. white c = k) cs col)) (back_while (\<lambda>c. white c = k) cs col))"

definition a_big :: "nat list \<Rightarrow> nat \<Rightarrow> (nat \<times> nat) option option" where
  "a_big cs col =
     (if col < length cs \<and> white (cs ! col) then inner_big cs col
      else map_option (map_option (\<lambda>(s, e). (s, ahead_while white cs e))) (inner_big cs col))"

section \<open>Finding a character\<close>

definition find_after :: "nat \<Rightarrow> nat list \<Rightarrow> nat \<Rightarrow> nat option" where
  "find_after ch cs c = find (\<lambda>i. cs ! i = ch) [c + 1 ..< length cs]"

text \<open>Backwards the loop reads from column \<open>c - 1\<close>, which must exist.\<close>

fun find_before :: "nat \<Rightarrow> nat list \<Rightarrow> nat \<Rightarrow> nat option option" where
  "find_before ch cs 0 = Some None"
| "find_before ch cs (Suc i) =
     (case get cs i of None \<Rightarrow> None | Some d \<Rightarrow> if d = ch then Some (Some i) else find_before ch cs i)"

section \<open>Searching\<close>

text \<open>\<open>str::find\<close> on bytes.\<close>

fun find_sub :: "'a list \<Rightarrow> 'a list \<Rightarrow> nat option" where
  "find_sub q [] = (if q = [] then Some 0 else None)"
| "find_sub q (b # bs) = (if take (length q) (b # bs) = q then Some 0 else map_option Suc (find_sub q bs))"

text \<open>\<open>str::is_char_boundary\<close>, on the bytes of a text.\<close>

definition char_boundary :: "string \<Rightarrow> nat \<Rightarrow> bool" where
  "char_boundary s i =
     (i = length s \<or> (i < length s \<and> \<not> (128 \<le> (of_char (s ! i) :: nat) \<and> (of_char (s ! i) :: nat) < 192)))"

text \<open>
  The loop over the matches in one row: the text is cut at \<open>start\<close>, which panics within a
  character. The fuel is the length of the text and one more, \<open>start\<close> grows with every match.
\<close>

fun search_loop :: "nat \<Rightarrow> string \<Rightarrow> string \<Rightarrow> nat \<Rightarrow> nat list \<Rightarrow> nat list option" where
  "search_loop 0 q s start acc = Some acc"
| "search_loop (Suc n) q s start acc =
     (if \<not> char_boundary s start then None
      else case find_sub q (drop start s) of
             None \<Rightarrow> Some acc
           | Some pos \<Rightarrow> search_loop n q s (start + pos + 1) (acc @ [start + pos]))"

definition search_row :: "string \<Rightarrow> string \<Rightarrow> nat list option" where
  "search_row q s = search_loop (length s + 1) q s 0 []"

end
