(* ===== verification/Copy_Mode.thy ===== *)
theory Copy_Mode
  imports Copy_Text Window_Ops Vt_Screen
begin

text \<open>
  Copy mode (\<open>src/core/src/copy_mode.rs\<close>): the cursor, the selection and the search over the
  screen of the active pane, and the copy state that every pane keeps of its own. The windows
  are those of \<open>Windows\<close>; the terminal of a pane, its copy state and what was written to its
  program are found by the identifier of the pane. \<open>None\<close> as the outer result is a panic. A
  lock is taken by one thread at a time and never poisoned.
\<close>

section \<open>State\<close>

datatype selection_mode = SelChar | SelLine | SelRect

datatype app_mode = Passthrough | CopyMode | CopySearch "nat list" bool | OtherMode nat

type_synonym cell_pos = "nat \<times> nat"
type_synonym search_match = "nat \<times> nat \<times> nat"

text \<open>\<open>CopyModeState\<close>, what a pane keeps.\<close>

record copy_state =
  cs_anchor :: "cell_pos option"
  cs_anchor_scroll :: nat
  cs_pos :: "cell_pos option"
  cs_scroll :: nat
  cs_selection :: selection_mode
  cs_query :: "nat list"
  cs_count :: "nat option"
  cs_matches :: "search_match list"
  cs_idx :: nat
  cs_forward :: bool
  cs_find :: "nat option"
  cs_object :: "nat option"
  cs_reg_pending :: bool
  cs_register :: "nat option"
  cs_in_search :: bool
  cs_input :: "nat list"
  cs_input_forward :: bool

text \<open>
  The part of \<open>AppState\<close> that copy mode uses, with the text last put on the system clipboard
  and the texts piped to a command.
\<close>

record copy_app =
  cm_app :: app_state
  cm_terms :: "nat \<Rightarrow> screen"
  cm_copies :: "nat \<Rightarrow> copy_state option"
  cm_written :: "nat \<Rightarrow> nat list"
  cm_mode :: app_mode
  cm_anchor :: "cell_pos option"
  cm_anchor_scroll :: nat
  cm_pos :: "cell_pos option"
  cm_scroll :: nat
  cm_selection :: selection_mode
  cm_query :: "nat list"
  cm_count :: "nat option"
  cm_matches :: "search_match list"
  cm_idx :: nat
  cm_forward :: bool
  cm_find :: "nat option"
  cm_object :: "nat option"
  cm_reg_pending :: bool
  cm_register :: "nat option"

record copy_server = copy_app +
  cm_registers :: "nat \<Rightarrow> nat list option"
  cm_buffers :: "nat list list"
  cm_separators :: "nat list"
  cm_wrap_search :: bool
  cm_set_clipboard :: bool
  cm_osc52 :: "nat list option"
  cm_command :: string
  cm_mode_keys :: string
  cm_clipboard :: "nat list option"
  cm_piped :: "(nat list \<times> string) list"

section \<open>The active pane and its screen\<close>

definition active_pane_of :: "copy_server \<Rightarrow> pane option option" where
  "active_pane_of a = map_option (\<lambda>w. active_pane_mut (root w) (active_path w)) (active_window (cm_app a))"

text \<open>What is done with the active pane; nothing when the path leads to none.\<close>

definition on_pane :: "(pane \<Rightarrow> copy_server \<Rightarrow> copy_server option) \<Rightarrow> copy_server \<Rightarrow> copy_server option" where
  "on_pane f a = (case active_pane_of a of None \<Rightarrow> None | Some None \<Rightarrow> Some a | Some (Some p) \<Rightarrow> f p a)"

text \<open>The height of the pane where the code falls back to 24.\<close>

definition pane_rows :: "copy_server \<Rightarrow> nat" where
  "pane_rows a = (case active_pane_of a of Some (Some p) \<Rightarrow> last_rows p | _ \<Rightarrow> 24)"

definition cursor_position :: "screen \<Rightarrow> cell_pos" where
  "cursor_position s = (cur_row (grid_of s), cur_col (grid_of s))"

definition scrollback_of :: "screen \<Rightarrow> nat" where
  "scrollback_of s = gr_offset (grid_of s)"

definition set_term :: "nat \<Rightarrow> screen \<Rightarrow> copy_server \<Rightarrow> copy_server" where
  "set_term i s a = a\<lparr>cm_terms := (cm_terms a)(i := s)\<rparr>"

definition screen_cell :: "screen \<Rightarrow> nat \<Rightarrow> nat \<Rightarrow> vcell option" where
  "screen_cell s r c = visible_cell \<lparr>ps_row = r, ps_col = c\<rparr> (grid_of s)"

text \<open>\<open>Cell::contents\<close> unwraps the decoding. Without a cell there is a blank; an empty cell is padded in some readers.\<close>

definition cell_text :: "bool \<Rightarrow> screen \<Rightarrow> nat \<Rightarrow> nat \<Rightarrow> nat list option" where
  "cell_text pad s r c =
     (case screen_cell s r c of
        None \<Rightarrow> Some [32]
      | Some v \<Rightarrow> map_option (\<lambda>t. if pad \<and> t = [] then [32] else t) (from_utf8 (cell_contents v)))"

definition span_text :: "bool \<Rightarrow> screen \<Rightarrow> nat \<Rightarrow> nat list \<Rightarrow> nat list option" where
  "span_text pad s r cols = map_option concat (those (map (cell_text pad s r) cols))"

section \<open>Entering, leaving and switching panes\<close>

definition current_prompt_pos :: "copy_server \<Rightarrow> cell_pos option option" where
  "current_prompt_pos a =
     map_option (map_option (\<lambda>p. cursor_position (cm_terms a (pane_id p)))) (active_pane_of a)"

definition copy_state_of :: "copy_server \<Rightarrow> copy_state" where
  "copy_state_of a =
     (let (in_search, input, fwd) =
        (case cm_mode a of CopySearch input fwd \<Rightarrow> (True, input, fwd) | _ \<Rightarrow> (False, [], True))
      in \<lparr>cs_anchor = cm_anchor a, cs_anchor_scroll = cm_anchor_scroll a, cs_pos = cm_pos a,
          cs_scroll = cm_scroll a, cs_selection = cm_selection a, cs_query = cm_query a,
          cs_count = cm_count a, cs_matches = cm_matches a, cs_idx = cm_idx a, cs_forward = cm_forward a,
          cs_find = cm_find a, cs_object = cm_object a, cs_reg_pending = cm_reg_pending a,
          cs_register = cm_register a, cs_in_search = in_search, cs_input = input, cs_input_forward = fwd\<rparr>)"

definition save_copy_state_to_pane :: "copy_server \<Rightarrow> copy_server option" where
  "save_copy_state_to_pane a =
     on_pane (\<lambda>p a. Some (a\<lparr>cm_copies := (cm_copies a)(pane_id p := Some (copy_state_of a))\<rparr>)) a"

definition load_copy_state :: "copy_state \<Rightarrow> copy_server \<Rightarrow> copy_server" where
  "load_copy_state s a =
     a\<lparr>cm_anchor := cs_anchor s, cm_anchor_scroll := cs_anchor_scroll s, cm_pos := cs_pos s,
       cm_scroll := cs_scroll s, cm_selection := cs_selection s, cm_query := cs_query s,
       cm_count := cs_count s, cm_matches := cs_matches s, cm_idx := cs_idx s, cm_forward := cs_forward s,
       cm_find := cs_find s, cm_object := cs_object s, cm_reg_pending := cs_reg_pending s,
       cm_register := cs_register s,
       cm_mode := (if cs_in_search s then CopySearch (cs_input s) (cs_input_forward s) else CopyMode)\<rparr>"

definition pane_copy :: "copy_server \<Rightarrow> copy_state option option" where
  "pane_copy a =
     map_option (\<lambda>q. case q of Some p \<Rightarrow> cm_copies a (pane_id p) | None \<Rightarrow> None) (active_pane_of a)"

definition restore_copy_state_from_pane :: "copy_server \<Rightarrow> copy_server option" where
  "restore_copy_state_from_pane a =
     map_option (\<lambda>c. case c of Some s \<Rightarrow> load_copy_state s a | None \<Rightarrow> a\<lparr>cm_mode := Passthrough\<rparr>) (pane_copy a)"

definition is_copy :: "app_mode \<Rightarrow> bool" where
  "is_copy m = (case m of CopyMode \<Rightarrow> True | CopySearch _ _ \<Rightarrow> True | _ \<Rightarrow> False)"

definition switch_with_copy_save :: "(copy_server \<Rightarrow> copy_server option) \<Rightarrow> copy_server \<Rightarrow> copy_server option" where
  "switch_with_copy_save switch a =
     do {
       a1 \<leftarrow> (if is_copy (cm_mode a) then save_copy_state_to_pane a else Some a);
       a2 \<leftarrow> switch a1;
       c \<leftarrow> pane_copy a2;
       (if c \<noteq> None then restore_copy_state_from_pane a2
        else Some (if is_copy (cm_mode a) then a2\<lparr>cm_mode := Passthrough\<rparr> else a2))
     }"

definition enter_copy_mode :: "copy_server \<Rightarrow> copy_server option" where
  "enter_copy_mode a =
     do {
       pos \<leftarrow> current_prompt_pos a;
       save_copy_state_to_pane
         (a\<lparr>cm_mode := CopyMode, cm_scroll := 0, cm_selection := SelChar, cm_anchor := None, cm_pos := pos,
            cm_find := None, cm_object := None, cm_reg_pending := False, cm_register := None,
            cm_count := None\<rparr>)
     }"

definition exit_copy_mode :: "copy_server \<Rightarrow> copy_server option" where
  "exit_copy_mode a =
     on_pane
       (\<lambda>p a. Some (set_term (pane_id p) (screen_set_scrollback 0 (cm_terms a (pane_id p)))
                      (a\<lparr>cm_copies := (cm_copies a)(pane_id p := None)\<rparr>)))
       (a\<lparr>cm_mode := Passthrough, cm_anchor := None, cm_pos := None, cm_scroll := 0\<rparr>)"

section \<open>Moving the cursor\<close>

definition as_u16 :: "int \<Rightarrow> nat" where
  "as_u16 z = nat (z mod 65536)"

definition as_usize :: "int \<Rightarrow> nat" where
  "as_usize z = nat (z mod 18446744073709551616)"

definition sat_usize :: "nat \<Rightarrow> nat" where
  "sat_usize n = min usize_max n"

definition scroll_term :: "nat \<Rightarrow> pane \<Rightarrow> copy_server \<Rightarrow> copy_server" where
  "scroll_term n p a =
     (let s = screen_set_scrollback n (cm_terms a (pane_id p))
      in (set_term (pane_id p) s a)\<lparr>cm_scroll := scrollback_of s\<rparr>)"

definition move_copy_cursor :: "int \<Rightarrow> int \<Rightarrow> copy_server \<Rightarrow> copy_server option" where
  "move_copy_cursor dx dy =
     on_pane (\<lambda>p a.
       let s = cm_terms a (pane_id p);
           (r, c) = (case cm_pos a of Some q \<Rightarrow> q | None \<Rightarrow> cursor_position s);
           rows = last_rows p;
           cols = last_cols p;
           desired = wrap_i16 (as_i16 r + dy);
           nc = as_u16 (min (max (wrap_i16 (as_i16 c + dx)) 0) (wrap_i16 (as_i16 cols - 1)));
           current = scrollback_of s
       in Some (
         if desired < 0 then
           (scroll_term (sat_usize (current + as_usize (wrap_i16 (- desired)))) p a)\<lparr>cm_pos := Some (0, nc)\<rparr>
         else if desired \<ge> as_i16 rows then
           (let lines = as_usize (wrap_i16 (wrap_i16 (desired - as_i16 rows) + 1))
            in if current > 0 then (scroll_term (current - lines) p a)\<lparr>cm_pos := Some (rows - 1, nc)\<rparr>
               else a\<lparr>cm_pos := Some (rows - 1, nc)\<rparr>)
         else a\<lparr>cm_pos := Some (as_u16 desired, nc)\<rparr>))"

definition read_row_text :: "nat \<Rightarrow> copy_server \<Rightarrow> (nat list \<times> nat) option option" where
  "read_row_text row a =
     (case active_pane_of a of
        None \<Rightarrow> None
      | Some None \<Rightarrow> Some None
      | Some (Some p) \<Rightarrow>
          map_option (\<lambda>t. Some (t, last_cols p))
            (span_text True (cm_terms a (pane_id p)) row [0 ..< last_cols p]))"

definition get_copy_pos :: "copy_server \<Rightarrow> cell_pos option option" where
  "get_copy_pos a = (case cm_pos a of Some q \<Rightarrow> Some (Some q) | None \<Rightarrow> current_prompt_pos a)"

text \<open>What the motions do first: take the cursor, and read its row.\<close>

definition with_pos :: "(cell_pos \<Rightarrow> copy_server \<Rightarrow> copy_server option) \<Rightarrow> copy_server \<Rightarrow> copy_server option" where
  "with_pos f a = (case get_copy_pos a of None \<Rightarrow> None | Some None \<Rightarrow> Some a | Some (Some q) \<Rightarrow> f q a)"

definition with_row :: "(cell_pos \<Rightarrow> nat list \<Rightarrow> nat \<Rightarrow> copy_server \<Rightarrow> copy_server option) \<Rightarrow> copy_server \<Rightarrow> copy_server option" where
  "with_row f =
     with_pos (\<lambda>q a. case read_row_text (fst q) a of
                       None \<Rightarrow> None | Some None \<Rightarrow> Some a | Some (Some (t, cols)) \<Rightarrow> f q t cols a)"

definition goto :: "nat \<Rightarrow> nat \<Rightarrow> copy_server \<Rightarrow> copy_server" where
  "goto r c a = a\<lparr>cm_pos := Some (r, wrap16 c)\<rparr>"

definition move_to_line_start :: "copy_server \<Rightarrow> copy_server option" where
  "move_to_line_start = with_pos (\<lambda>(r, _) a. Some (goto r 0 a))"

definition move_to_line_end :: "copy_server \<Rightarrow> copy_server option" where
  "move_to_line_end =
     with_pos (\<lambda>(r, _) a. on_pane (\<lambda>p a. Some (a\<lparr>cm_pos := Some (r, last_cols p - 1)\<rparr>)) a)"

text \<open>\<open>str::find\<close> gives the byte position of the first character that is not white.\<close>

definition first_nonblank :: "nat list \<Rightarrow> nat" where
  "first_nonblank t = (if blank t then 0 else length (utf8_text (takeWhile white t)))"

definition move_to_first_nonblank :: "copy_server \<Rightarrow> copy_server option" where
  "move_to_first_nonblank = with_row (\<lambda>(r, _) t _ a. Some (goto r (first_nonblank t) a))"

text \<open>
  A motion that stays in the row while its column is within the pane, and else goes to the row
  below, where the column is computed from that row's text. On the last row it stays.
\<close>

definition forward_motion :: "(nat list \<Rightarrow> nat \<Rightarrow> nat) \<Rightarrow> (nat list \<Rightarrow> nat) \<Rightarrow> copy_server \<Rightarrow> copy_server option" where
  "forward_motion inrow next_row =
     with_row (\<lambda>(r, c) t cols a.
       let col = inrow t c; nr = min (add16 r 1) (pane_rows a - 1)
       in if col < cols then Some (goto r col a)
          else if nr \<noteq> r then
            (case read_row_text nr a of
               None \<Rightarrow> None
             | Some None \<Rightarrow> Some (goto nr 0 a)
             | Some (Some (t', _)) \<Rightarrow> Some (goto nr (next_row t') a))
          else Some a)"

definition backward_motion :: "(nat list \<Rightarrow> nat \<Rightarrow> nat option) \<Rightarrow> (nat list \<Rightarrow> nat \<Rightarrow> nat option) \<Rightarrow> copy_server \<Rightarrow> copy_server option" where
  "backward_motion inrow prev_row =
     with_row (\<lambda>(r, c) t _ a.
       if c = 0 then
         (if r > 0 then
            (case read_row_text (r - 1) a of
               None \<Rightarrow> None
             | Some None \<Rightarrow> Some (goto (r - 1) 0 a)
             | Some (Some (t', cols')) \<Rightarrow> map_option (\<lambda>nc. goto (r - 1) nc a) (prev_row t' cols'))
          else Some a)
       else map_option (\<lambda>col. goto r col a) (inrow t c))"

definition move_word_forward :: "(nat \<Rightarrow> bool) \<Rightarrow> copy_server \<Rightarrow> copy_server option" where
  "move_word_forward alnum a = forward_motion (word_forward (char_class alnum (cm_separators a))) first_word a"

definition move_word_backward :: "(nat \<Rightarrow> bool) \<Rightarrow> copy_server \<Rightarrow> copy_server option" where
  "move_word_backward alnum a =
     (let cls = char_class alnum (cm_separators a) in backward_motion (word_backward cls) (last_word cls) a)"

definition move_word_end :: "(nat \<Rightarrow> bool) \<Rightarrow> copy_server \<Rightarrow> copy_server option" where
  "move_word_end alnum a =
     (let cls = char_class alnum (cm_separators a) in forward_motion (word_end cls) (first_word_end cls) a)"

definition move_word_forward_big :: "copy_server \<Rightarrow> copy_server option" where
  "move_word_forward_big = forward_motion big_forward first_word"

definition move_word_backward_big :: "copy_server \<Rightarrow> copy_server option" where
  "move_word_backward_big = backward_motion big_backward last_big"

definition move_word_end_big :: "copy_server \<Rightarrow> copy_server option" where
  "move_word_end_big = forward_motion big_end first_big_end"

definition scroll_copy_up :: "nat \<Rightarrow> copy_server \<Rightarrow> copy_server option" where
  "scroll_copy_up lines =
     on_pane (\<lambda>p a. Some (scroll_term (sat_usize (scrollback_of (cm_terms a (pane_id p)) + lines)) p a))"

definition scroll_copy_down :: "nat \<Rightarrow> copy_server \<Rightarrow> copy_server option" where
  "scroll_copy_down lines =
     on_pane (\<lambda>p a. Some (scroll_term (scrollback_of (cm_terms a (pane_id p)) - lines) p a))"

definition scroll_to_top :: "copy_server \<Rightarrow> copy_server option" where
  "scroll_to_top = on_pane (\<lambda>p a. Some (scroll_term usize_max p a))"

definition scroll_to_bottom :: "copy_server \<Rightarrow> copy_server option" where
  "scroll_to_bottom = on_pane (\<lambda>p a. Some ((scroll_term 0 p a)\<lparr>cm_scroll := 0\<rparr>))"

definition move_to_screen_top :: "copy_server \<Rightarrow> copy_server option" where
  "move_to_screen_top a = Some (goto 0 0 a)"

definition move_to_screen_middle :: "copy_server \<Rightarrow> copy_server option" where
  "move_to_screen_middle a = Some (goto (pane_rows a div 2) 0 a)"

definition move_to_screen_bottom :: "copy_server \<Rightarrow> copy_server option" where
  "move_to_screen_bottom a = Some (goto (pane_rows a - 1) 0 a)"

text \<open>The characters \<open>f\<close>, \<open>F\<close>, \<open>t\<close> and \<open>T\<close>.\<close>

definition find_char_forward :: "nat \<Rightarrow> copy_server \<Rightarrow> copy_server option" where
  "find_char_forward ch =
     with_row (\<lambda>(r, c) t _ a. Some (case find_after ch t c of Some i \<Rightarrow> goto r i a | None \<Rightarrow> a))"

definition find_char_backward :: "nat \<Rightarrow> copy_server \<Rightarrow> copy_server option" where
  "find_char_backward ch =
     with_row (\<lambda>(r, c) t _ a.
       map_option (\<lambda>f. case f of Some i \<Rightarrow> goto r i a | None \<Rightarrow> a) (find_before ch t c))"

definition find_char_to_forward :: "nat \<Rightarrow> copy_server \<Rightarrow> copy_server option" where
  "find_char_to_forward ch =
     with_row (\<lambda>(r, c) t _ a. Some (case find_after ch t c of Some i \<Rightarrow> goto r (wrap16 i - 1) a | None \<Rightarrow> a))"

definition find_char_to_backward :: "nat \<Rightarrow> copy_server \<Rightarrow> copy_server option" where
  "find_char_to_backward ch =
     with_row (\<lambda>(r, c) t _ a.
       map_option (\<lambda>f. case f of Some i \<Rightarrow> goto r (wrap16 i + 1) a | None \<Rightarrow> a) (find_before ch t c))"

section \<open>Paragraphs\<close>

text \<open>
  The loops over rows: \<open>while row < rows\<close> the text of a row is blank, or is not, go on. The
  rows to go are counted. Without a pane the loop breaks at once.
\<close>

fun rows_down :: "bool \<Rightarrow> nat \<Rightarrow> nat \<Rightarrow> copy_server \<Rightarrow> nat option" where
  "rows_down stop 0 row a = Some row"
| "rows_down stop (Suc n) row a =
     (case read_row_text row a of
        None \<Rightarrow> None
      | Some None \<Rightarrow> Some row
      | Some (Some (t, _)) \<Rightarrow> if blank t = stop then Some row else rows_down stop n (row + 1) a)"

definition move_next_paragraph :: "copy_server \<Rightarrow> copy_server option" where
  "move_next_paragraph =
     with_pos (\<lambda>(r, _) a.
       let rows = pane_rows a
       in do {
            r1 \<leftarrow> rows_down True (rows - add16 r 1) (add16 r 1) a;
            r2 \<leftarrow> rows_down False (rows - r1) r1 a;
            Some (goto (min r2 (rows - 1)) 0 a)
          })"

text \<open>Upwards \<open>Inl\<close> is the return at the top row, \<open>Inr\<close> the row where the loop breaks.\<close>

fun rows_up :: "bool \<Rightarrow> nat \<Rightarrow> copy_server \<Rightarrow> (unit + nat) option" where
  "rows_up stop row a =
     (case read_row_text row a of
        None \<Rightarrow> None
      | Some None \<Rightarrow> Some (Inr row)
      | Some (Some (t, _)) \<Rightarrow>
          if blank t = stop then Some (Inr row)
          else (case row of 0 \<Rightarrow> Some (Inl ()) | Suc n \<Rightarrow> rows_up stop n a))"

definition move_prev_paragraph :: "copy_server \<Rightarrow> copy_server option" where
  "move_prev_paragraph =
     with_pos (\<lambda>(r, _) a.
       if r = 0 then Some a
       else do {
         u \<leftarrow> rows_up True (r - 1) a;
         (case u of
            Inl _ \<Rightarrow> Some (goto 0 0 a)
          | Inr r1 \<Rightarrow>
              do {
                v \<leftarrow> rows_up False r1 a;
                Some (case v of Inl _ \<Rightarrow> goto 0 0 a | Inr r2 \<Rightarrow> goto r2 0 a)
              })
       })"

section \<open>Matching brackets\<close>

definition first_char :: "screen \<Rightarrow> nat \<Rightarrow> nat \<Rightarrow> nat option" where
  "first_char s r c =
     (case screen_cell s r c of
        None \<Rightarrow> Some 32
      | Some v \<Rightarrow> map_option (\<lambda>t. case t of [] \<Rightarrow> 32 | x # _ \<Rightarrow> x) (from_utf8 (cell_contents v)))"

definition bracket_of :: "nat \<Rightarrow> (nat \<times> nat \<times> bool) option" where
  "bracket_of ch =
     map_of [(40, (40, 41, True)), (41, (40, 41, False)), (91, (91, 93, True)), (93, (91, 93, False)),
             (123, (123, 125, True)), (125, (123, 125, False)), (60, (60, 62, True)), (62, (60, 62, False))] ch"

text \<open>
  The scan, forwards and backwards: the depth starts at one. The cell the scan stands on is
  within the pane, so the column and the row do not pass the largest u16 value. The result says
  whether and where the depth becomes zero.
\<close>

function scan_forward :: "(nat \<Rightarrow> nat \<Rightarrow> nat option) \<Rightarrow> nat \<Rightarrow> nat \<Rightarrow> nat \<Rightarrow> nat \<Rightarrow> nat \<Rightarrow> nat \<Rightarrow> int \<Rightarrow> cell_pos option option" where
  "scan_forward ch op cl rows cols cr cc depth =
     (let (cr1, cc1) = (if cc + 1 \<ge> cols then (cr + 1, 0) else (cr, cc + 1))
      in if cr1 \<ge> rows then Some None
         else case ch cr1 cc1 of
                None \<Rightarrow> None
              | Some x \<Rightarrow>
                  let d1 = (if x = op then depth + 1 else depth); d2 = (if x = cl then d1 - 1 else d1)
                  in if d2 = 0 then Some (Some (cr1, cc1)) else scan_forward ch op cl rows cols cr1 cc1 d2)"
  by pat_completeness auto
termination
  by (relation "measures [\<lambda>(ch, op, cl, rows, cols, cr, cc, d). rows - cr, \<lambda>(ch, op, cl, rows, cols, cr, cc, d). cols - cc]")
    (auto split: if_splits)

function scan_backward :: "(nat \<Rightarrow> nat \<Rightarrow> nat option) \<Rightarrow> nat \<Rightarrow> nat \<Rightarrow> nat \<Rightarrow> nat \<Rightarrow> nat \<Rightarrow> int \<Rightarrow> cell_pos option option" where
  "scan_backward ch op cl cols cr cc depth =
     (if cc = 0 \<and> cr = 0 then Some None
      else let (cr1, cc1) = (if cc = 0 then (cr - 1, cols - 1) else (cr, cc - 1))
           in case ch cr1 cc1 of
                None \<Rightarrow> None
              | Some x \<Rightarrow>
                  let d1 = (if x = op then depth - 1 else depth); d2 = (if x = cl then d1 + 1 else d1)
                  in if d2 = 0 then Some (Some (cr1, cc1)) else scan_backward ch op cl cols cr1 cc1 d2)"
  by pat_completeness auto
termination
  by (relation "measures [\<lambda>(ch, op, cl, cols, cr, cc, d). cr, \<lambda>(ch, op, cl, cols, cr, cc, d). cc]")
    (auto split: if_splits)

declare scan_forward.simps [simp del] scan_backward.simps [simp del] rows_up.simps [simp del]

definition matching_bracket :: "screen \<Rightarrow> nat \<Rightarrow> nat \<Rightarrow> cell_pos \<Rightarrow> cell_pos option option" where
  "matching_bracket s rows cols q =
     (case first_char s (fst q) (snd q) of
        None \<Rightarrow> None
      | Some x \<Rightarrow>
          (case bracket_of x of
             None \<Rightarrow> Some None
           | Some (op, cl, fwd) \<Rightarrow>
               if fwd then scan_forward (first_char s) op cl rows cols (fst q) (snd q) 1
               else scan_backward (first_char s) op cl cols (fst q) (snd q) 1))"

definition move_matching_bracket :: "copy_server \<Rightarrow> copy_server option" where
  "move_matching_bracket =
     with_pos (\<lambda>q a.
       case active_pane_of a of
         Some (Some p) \<Rightarrow>
           map_option (\<lambda>m. case m of Some t \<Rightarrow> a\<lparr>cm_pos := Some t\<rparr> | None \<Rightarrow> a)
             (matching_bracket (cm_terms a (pane_id p)) (last_rows p) (last_cols p) q)
       | _ \<Rightarrow> Some a)"

section \<open>Text objects\<close>

definition select_span :: "nat \<Rightarrow> nat \<times> nat \<Rightarrow> copy_server \<Rightarrow> copy_server" where
  "select_span r se a =
     a\<lparr>cm_anchor := Some (r, wrap16 (fst se)), cm_anchor_scroll := cm_scroll a,
       cm_pos := Some (r, wrap16 (snd se)), cm_selection := SelChar\<rparr>"

definition select_with :: "(nat list \<Rightarrow> nat \<Rightarrow> (nat \<times> nat) option option) \<Rightarrow> copy_server \<Rightarrow> copy_server option" where
  "select_with f =
     with_row (\<lambda>(r, c) t _ a. map_option (\<lambda>x. case x of Some se \<Rightarrow> select_span r se a | None \<Rightarrow> a) (f t c))"

definition select_inner_word :: "(nat \<Rightarrow> bool) \<Rightarrow> copy_server \<Rightarrow> copy_server option" where
  "select_inner_word alnum a = select_with (inner_word (char_class alnum (cm_separators a))) a"

definition select_a_word :: "(nat \<Rightarrow> bool) \<Rightarrow> copy_server \<Rightarrow> copy_server option" where
  "select_a_word alnum a = select_with (a_word (char_class alnum (cm_separators a))) a"

definition select_inner_word_big :: "copy_server \<Rightarrow> copy_server option" where
  "select_inner_word_big = select_with inner_big"

definition select_a_word_big :: "copy_server \<Rightarrow> copy_server option" where
  "select_a_word_big = select_with a_big"

end
