(* ===== verification/Copy_Yank.thy ===== *)
theory Copy_Yank
  imports Copy_Mode
begin

text \<open>
  What copy mode does with the text of the screen and of the scrollback
  (\<open>src/core/src/copy_mode.rs\<close>): yanking the selection, the paste buffers and registers,
  capturing the pane, and the search.
\<close>

section \<open>Yanking\<close>

definition push_buffer :: "nat list \<Rightarrow> nat list list \<Rightarrow> nat list list" where
  "push_buffer t bs = (let b = t # bs in if length b > 10 then butlast b else b)"

definition newline :: "nat list" where
  "newline = [10]"

text \<open>The columns of the selection in one of its rows, and what is added to the text; \<open>span\<close> reads some
  columns of the row.\<close>

record yank_spec =
  ys_mode :: selection_mode
  ys_lo :: nat
  ys_hi :: nat
  ys_top_col :: nat
  ys_bot_col :: nat
  ys_cols :: nat
  ys_total :: nat

definition yank_line :: "yank_spec \<Rightarrow> (nat list \<Rightarrow> nat list option) \<Rightarrow> nat \<Rightarrow> nat list option" where
  "yank_line y span idx =
     (let is_first = (idx = 0); is_last = (idx + 1 = ys_total y);
          line_of = (\<lambda>lo hi. span [lo ..< hi + 1])
      in case ys_mode y of
           SelRect \<Rightarrow>
             map_option (\<lambda>l. trim_end l @ (if is_last then [] else newline)) (line_of (ys_lo y) (ys_hi y))
         | SelLine \<Rightarrow> map_option (\<lambda>l. trim_end l @ newline) (span [0 ..< ys_cols y])
         | SelChar \<Rightarrow>
             if ys_total y = 1 then line_of (ys_lo y) (ys_hi y)
             else map_option (\<lambda>l. trim_end l @ (if is_last then [] else newline))
                    (line_of (if is_first then ys_top_col y else 0)
                       (if is_last then ys_bot_col y else ys_cols y - 1)))"

fun yank_rows :: "yank_spec \<Rightarrow> screen \<Rightarrow> int \<Rightarrow> int list \<Rightarrow> nat \<Rightarrow> nat list \<Rightarrow> nat list option" where
  "yank_rows y s sb [] idx t = Some t"
| "yank_rows y s sb (l # ls) idx t =
     (case yank_line y (span_text False s (as_u16 (l + sb))) idx of
        None \<Rightarrow> None
      | Some u \<Rightarrow> yank_rows y s sb ls (idx + 1) (t @ u))"

text \<open>
  The loop over the screenfuls: line numbers count from the top of the live screen, lines of the
  scrollback are negative. The view is scrolled until the next line is in it.
\<close>

function yank_loop :: "yank_spec \<Rightarrow> nat \<Rightarrow> int \<Rightarrow> int \<Rightarrow> nat \<Rightarrow> screen \<Rightarrow> nat list \<Rightarrow> (screen \<times> nat list) option" where
  "yank_loop y rows next fin idx s t =
     (if next > fin then Some (s, t)
      else let s1 = screen_set_scrollback (nat (max (- next) 0)) s;
               sb = int (scrollback_of s1);
               from = max next (- sb);
               upto = min fin (- sb + int rows - 1)
           in if from > upto then Some (s1, t)
              else case yank_rows y s1 sb [from .. upto] idx t of
                     None \<Rightarrow> None
                   | Some t1 \<Rightarrow> yank_loop y rows (upto + 1) fin (idx + nat (upto - from + 1)) s1 t1)"
  by pat_completeness auto
termination
proof (relation "measure (\<lambda>(y, rows, next, fin, idx, s, t). nat (fin + 1 - next))", goal_cases)
  case (2 y rows nx fin idx s t s1 sb fr upto x)
  then have "nx \<le> upto" "\<not> fin < nx" by linarith+
  then show ?case by simp
qed simp

declare yank_loop.simps [simp del]

definition selection_lines :: "copy_server \<Rightarrow> cell_pos \<Rightarrow> cell_pos \<Rightarrow> int \<times> int" where
  "selection_lines a anchor pos =
     (int (fst anchor) - int (cm_anchor_scroll a), int (fst pos) - int (cm_scroll a))"

definition yank_spec_of :: "copy_server \<Rightarrow> pane \<Rightarrow> cell_pos \<Rightarrow> cell_pos \<Rightarrow> yank_spec" where
  "yank_spec_of a p anchor pos =
     (let (an, cu) = selection_lines a anchor pos
      in \<lparr>ys_mode = cm_selection a, ys_lo = min (snd anchor) (snd pos), ys_hi = max (snd anchor) (snd pos),
          ys_top_col = (if an \<le> cu then snd anchor else snd pos),
          ys_bot_col = (if an \<le> cu then snd pos else snd anchor), ys_cols = last_cols p,
          ys_total = nat (max an cu - min an cu + 1)\<rparr>)"

definition store_yank :: "nat list \<Rightarrow> copy_server \<Rightarrow> copy_server" where
  "store_yank t a =
     a\<lparr>cm_register := None,
       cm_registers := (case cm_register a of Some r \<Rightarrow> (cm_registers a)(r := Some t) | None \<Rightarrow> cm_registers a),
       cm_buffers := push_buffer t (cm_buffers a),
       cm_clipboard := Some t,
       cm_osc52 := (if cm_set_clipboard a then Some t else cm_osc52 a),
       cm_piped := (if cm_command a \<noteq> [] then cm_piped a @ [(t, cm_command a)] else cm_piped a)\<rparr>"

definition yank_selection :: "copy_server \<Rightarrow> copy_server option" where
  "yank_selection a =
     (case (cm_anchor a, cm_pos a) of
        (Some anchor, Some pos) \<Rightarrow>
          on_pane (\<lambda>p a.
            let (an, cu) = selection_lines a anchor pos; i = pane_id p
            in map_option
                 (\<lambda>(s, t). store_yank t (set_term i (screen_set_scrollback (cm_scroll a) s) a))
                 (yank_loop (yank_spec_of a p anchor pos) (last_rows p) (min an cu) (max an cu) 0 (cm_terms a i) [])) a
      | _ \<Rightarrow> Some a)"

section \<open>Pasting and capturing\<close>

definition write_pane :: "nat list \<Rightarrow> copy_server \<Rightarrow> copy_server option" where
  "write_pane t =
     on_pane (\<lambda>p a. Some (a\<lparr>cm_written := (cm_written a)(pane_id p := cm_written a (pane_id p) @ t)\<rparr>))"

definition paste_latest :: "copy_server \<Rightarrow> copy_server option" where
  "paste_latest a =
     (case cm_register a of
        Some r \<Rightarrow>
          let a1 = a\<lparr>cm_register := None\<rparr>
          in (case cm_registers a r of Some t \<Rightarrow> write_pane t a1 | None \<Rightarrow> Some a1)
      | None \<Rightarrow> (case cm_buffers a of t # _ \<Rightarrow> write_pane t a | [] \<Rightarrow> Some a))"

definition capture_rows :: "screen \<Rightarrow> nat \<Rightarrow> nat list \<Rightarrow> nat list option" where
  "capture_rows s cols rs =
     map_option (\<lambda>ts. concat (map (\<lambda>t. trim_end t @ newline) ts)) (those (map (\<lambda>r. span_text False s r [0 ..< cols]) rs))"

definition capture_active_pane :: "copy_server \<Rightarrow> copy_server option" where
  "capture_active_pane =
     on_pane (\<lambda>p a. map_option (\<lambda>t. a\<lparr>cm_buffers := push_buffer t (cm_buffers a)\<rparr>)
                      (capture_rows (cm_terms a (pane_id p)) (last_cols p) [0 ..< last_rows p]))"

definition capture_active_pane_text :: "copy_server \<Rightarrow> nat list option option" where
  "capture_active_pane_text a =
     (case active_pane_of a of
        None \<Rightarrow> None
      | Some None \<Rightarrow> Some None
      | Some (Some p) \<Rightarrow> map_option Some (capture_rows (cm_terms a (pane_id p)) (last_cols p) [0 ..< last_rows p]))"

text \<open>A bound of the range: negative ones count from the bottom, \<open>v as u16\<close> drops the high bits.\<close>

definition capture_bound :: "nat \<Rightarrow> nat \<Rightarrow> int option \<Rightarrow> nat" where
  "capture_bound rows dflt v =
     (case v of
        None \<Rightarrow> dflt
      | Some z \<Rightarrow> if z < 0 then as_u16 (max (int (rows - 1) + z + 1) 0) else min (as_u16 z) (rows - 1))"

definition capture_active_pane_range :: "int option \<Rightarrow> int option \<Rightarrow> copy_server \<Rightarrow> nat list option option" where
  "capture_active_pane_range s e a =
     (case active_pane_of a of
        None \<Rightarrow> None
      | Some None \<Rightarrow> Some None
      | Some (Some p) \<Rightarrow>
          map_option Some
            (capture_rows (cm_terms a (pane_id p)) (last_cols p)
               [capture_bound (last_rows p) 0 s ..< capture_bound (last_rows p) (last_rows p - 1) e + 1]))"

definition copy_end_of_line :: "copy_server \<Rightarrow> copy_server option" where
  "copy_end_of_line =
     with_pos (\<lambda>(r, c) a.
       on_pane (\<lambda>p a.
         map_option (\<lambda>l. a\<lparr>cm_buffers := push_buffer (trim_end l) (cm_buffers a), cm_clipboard := Some (trim_end l)\<rparr>)
           (span_text False (cm_terms a (pane_id p)) r [c ..< last_cols p])) a)"

section \<open>Searching\<close>

text \<open>\<open>str::to_lowercase\<close> is a parameter. The matches of a row are byte positions, kept as columns.\<close>

definition row_matches :: "(nat list \<Rightarrow> nat list) \<Rightarrow> string \<Rightarrow> screen \<Rightarrow> nat \<Rightarrow> nat \<Rightarrow> search_match list option" where
  "row_matches lowercase q s cols r =
     do {
       t \<leftarrow> span_text True s r [0 ..< cols];
       ps \<leftarrow> search_row q (utf8_text (lowercase t));
       Some (map (\<lambda>p. (r, wrap16 p, add16 (wrap16 p) (wrap16 (length q)))) ps)
     }"

definition search_copy_mode :: "(nat list \<Rightarrow> nat list) \<Rightarrow> nat list \<Rightarrow> bool \<Rightarrow> copy_server \<Rightarrow> copy_server option" where
  "search_copy_mode lowercase query forward a =
     (let a0 = a\<lparr>cm_matches := [], cm_idx := 0\<rparr>
      in if query = [] then Some a0
         else on_pane (\<lambda>p a.
                map_option (\<lambda>ms. a\<lparr>cm_matches := (if forward then concat ms else rev (concat ms))\<rparr>)
                  (those (map (row_matches lowercase (utf8_text (lowercase query)) (cm_terms a (pane_id p)) (last_cols p))
                            [0 ..< last_rows p]))) a0)"

definition goto_match :: "nat \<Rightarrow> copy_server \<Rightarrow> copy_server option" where
  "goto_match i a =
     (case get (cm_matches a) i of None \<Rightarrow> None | Some (r, c, _) \<Rightarrow> Some (a\<lparr>cm_idx := i, cm_pos := Some (r, c)\<rparr>))"

definition search_next :: "copy_server \<Rightarrow> copy_server option" where
  "search_next a =
     (if cm_matches a = [] then Some a
      else if cm_idx a + 1 \<ge> length (cm_matches a) then (if cm_wrap_search a then goto_match 0 a else Some a)
      else goto_match (cm_idx a + 1) a)"

definition search_prev :: "copy_server \<Rightarrow> copy_server option" where
  "search_prev a =
     (if cm_matches a = [] then Some a
      else if cm_idx a = 0 then (if cm_wrap_search a then goto_match (length (cm_matches a) - 1) a else Some a)
      else goto_match (cm_idx a - 1) a)"

end
