(* ===== verification/Copy_Keys.thy ===== *)
theory Copy_Keys
  imports Copy_Yank Key_Input
begin

text \<open>
  The keys of copy mode and of its search prompt (\<open>src/core/src/input.rs\<close>): the branches of
  \<open>handle_key\<close>, of \<open>send_key_to_active\<close> and of \<open>send_text_to_active\<close> that run while a pane is in
  copy mode. A user binding in the key table of copy mode takes precedence; its action is run by
  other code and handed back as \<open>Inl\<close>.
\<close>

section \<open>Commands shared by the handlers\<close>

definition begin_selection :: "selection_mode \<Rightarrow> copy_server \<Rightarrow> copy_server option" where
  "begin_selection m =
     with_pos (\<lambda>q a. Some (a\<lparr>cm_anchor := Some q, cm_anchor_scroll := cm_scroll a, cm_pos := Some q, cm_selection := m\<rparr>))"

definition set_mark :: "copy_server \<Rightarrow> copy_server option" where
  "set_mark = with_pos (\<lambda>q a. Some (a\<lparr>cm_anchor := Some q, cm_anchor_scroll := cm_scroll a, cm_pos := Some q\<rparr>))"

definition swap_ends :: "copy_server \<Rightarrow> copy_server" where
  "swap_ends a =
     (case (cm_anchor a, cm_pos a) of
        (Some x, Some p) \<Rightarrow> a\<lparr>cm_anchor := Some p, cm_anchor_scroll := cm_scroll a, cm_pos := Some x\<rparr>
      | _ \<Rightarrow> a)"

definition toggle_rectangle :: "copy_server \<Rightarrow> copy_server" where
  "toggle_rectangle a = a\<lparr>cm_selection := (if cm_selection a = SelRect then SelChar else SelRect)\<rparr>"

definition yank_and_exit :: "copy_server \<Rightarrow> copy_server option" where
  "yank_and_exit a = Option.bind (yank_selection a) exit_copy_mode"

definition line_end_and_exit :: "copy_server \<Rightarrow> copy_server option" where
  "line_end_and_exit a = Option.bind (copy_end_of_line a) exit_copy_mode"

definition append_and_exit :: "copy_server \<Rightarrow> copy_server option" where
  "append_and_exit a =
     (if cm_anchor a = None \<or> cm_pos a = None then Some a
      else let prev = (case cm_buffers a of b # _ \<Rightarrow> b | [] \<Rightarrow> [])
           in do {
                a1 \<leftarrow> yank_selection a;
                exit_copy_mode
                  (a1\<lparr>cm_buffers := (case cm_buffers a1 of b # bs \<Rightarrow> (prev @ b) # bs | [] \<Rightarrow> [])\<rparr>)
              })"

definition enter_and_exit :: "copy_server \<Rightarrow> copy_server option" where
  "enter_and_exit a = Option.bind (if cm_anchor a \<noteq> None then yank_selection a else Some a) exit_copy_mode"

definition half_page :: "copy_server \<Rightarrow> nat" where
  "half_page a = (case active_pane_of a of Some (Some p) \<Rightarrow> last_rows p div 2 | _ \<Rightarrow> 10)"

definition open_search :: "bool \<Rightarrow> copy_server \<Rightarrow> copy_server" where
  "open_search forward a = a\<lparr>cm_mode := CopySearch [] forward\<rparr>"

definition select_object :: "(nat \<Rightarrow> bool) \<Rightarrow> nat \<Rightarrow> nat \<Rightarrow> copy_server \<Rightarrow> copy_server option" where
  "select_object alnum prefix ch a =
     (if ch = 119 then (if prefix = 0 then select_a_word alnum a else if prefix = 1 then select_inner_word alnum a else Some a)
      else if ch = 87 then (if prefix = 0 then select_a_word_big a else if prefix = 1 then select_inner_word_big a else Some a)
      else Some a)"

definition find_pending :: "nat \<Rightarrow> nat \<Rightarrow> copy_server \<Rightarrow> copy_server option" where
  "find_pending kind ch =
     (if kind = 0 then find_char_forward ch
      else if kind = 1 then find_char_backward ch
      else if kind = 2 then find_char_to_forward ch
      else if kind = 3 then find_char_to_backward ch
      else Some)"

section \<open>The keys of copy mode\<close>

abbreviation chr_key :: "char \<Rightarrow> key_code" where
  "chr_key c \<equiv> KChar (of_char c)"

text \<open>
  The match on the key, in its order. The first part are the keys with a modifier and those that
  come before plain characters; \<open>n\<close> is the repeat count.
\<close>

definition control_key :: "(nat \<Rightarrow> bool) \<Rightarrow> nat \<Rightarrow> key_code \<Rightarrow> key_mods \<Rightarrow> copy_server \<Rightarrow> copy_server option option" where
  "control_key alnum n code mods a =
     (if code = KEsc \<or> code = chr_key CHR ''q'' \<or> code = chr_key CHR '']'' then Some (exit_copy_mode a)
      else if code = chr_key CHR ''c'' \<and> m_ctrl mods then Some (exit_copy_mode a)
      else if code = KLeft \<or> code = chr_key CHR ''h'' then Some (repeat_opt n (move_copy_cursor (-1) 0) a)
      else if code = KRight \<or> code = chr_key CHR ''l'' then Some (repeat_opt n (move_copy_cursor 1 0) a)
      else if code = KUp \<or> code = chr_key CHR ''k'' then Some (repeat_opt n (move_copy_cursor 0 (-1)) a)
      else if code = KDown \<or> code = chr_key CHR ''j'' then Some (repeat_opt n (move_copy_cursor 0 1) a)
      else if code = KPageUp then Some (scroll_copy_up 10 a)
      else if code = KPageDown then Some (scroll_copy_down 10 a)
      else if code = chr_key CHR ''b'' \<and> m_ctrl mods then
        Some (if cm_mode_keys a = ''emacs'' then move_copy_cursor (-1) 0 a else scroll_copy_up 10 a)
      else if code = chr_key CHR ''f'' \<and> m_ctrl mods then
        Some (if cm_mode_keys a = ''emacs'' then move_copy_cursor 1 0 a else scroll_copy_down 10 a)
      else if code = chr_key CHR ''u'' \<and> m_ctrl mods then Some (scroll_copy_up (half_page a) a)
      else if code = chr_key CHR ''d'' \<and> m_ctrl mods then Some (scroll_copy_down (half_page a) a)
      else if code = chr_key CHR ''n'' \<and> m_ctrl mods then Some (scroll_copy_down 1 a)
      else if code = chr_key CHR ''p'' \<and> m_ctrl mods then Some (scroll_copy_up 1 a)
      else if code = chr_key CHR ''a'' \<and> m_ctrl mods then Some (move_to_line_start a)
      else if code = chr_key CHR ''e'' \<and> m_ctrl mods then Some (move_to_line_end a)
      else if code = chr_key CHR ''v'' \<and> m_alt mods then Some (scroll_copy_up 10 a)
      else if code = chr_key CHR ''f'' \<and> m_alt mods then Some (move_word_forward alnum a)
      else if code = chr_key CHR ''b'' \<and> m_alt mods then Some (move_word_backward alnum a)
      else if code = chr_key CHR ''w'' \<and> m_alt mods then Some (yank_and_exit a)
      else if code = chr_key CHR ''s'' \<and> m_ctrl mods then Some (Some (open_search True a))
      else if code = chr_key CHR ''r'' \<and> m_ctrl mods then Some (Some (open_search False a))
      else if code = chr_key CHR ''g'' \<and> m_ctrl mods then Some (exit_copy_mode a)
      else None)"

definition motion_key :: "(nat \<Rightarrow> bool) \<Rightarrow> nat \<Rightarrow> key_code \<Rightarrow> copy_server \<Rightarrow> copy_server option option" where
  "motion_key alnum n code a =
     (if code = chr_key CHR ''g'' then Some (scroll_to_top a)
      else if code = chr_key CHR ''G'' then Some (scroll_to_bottom a)
      else if code = chr_key CHR ''w'' then Some (repeat_opt n (move_word_forward alnum) a)
      else if code = chr_key CHR ''b'' then Some (repeat_opt n (move_word_backward alnum) a)
      else if code = chr_key CHR ''e'' then Some (repeat_opt n (move_word_end alnum) a)
      else if code = chr_key CHR ''W'' then Some (repeat_opt n move_word_forward_big a)
      else if code = chr_key CHR ''B'' then Some (repeat_opt n move_word_backward_big a)
      else if code = chr_key CHR ''E'' then Some (repeat_opt n move_word_end_big a)
      else if code = chr_key CHR ''H'' then Some (move_to_screen_top a)
      else if code = chr_key CHR ''M'' then Some (move_to_screen_middle a)
      else if code = chr_key CHR ''L'' then Some (move_to_screen_bottom a)
      else if code = chr_key CHR ''f'' then Some (Some (a\<lparr>cm_find := Some 0, cm_count := Some n\<rparr>))
      else if code = chr_key CHR ''F'' then Some (Some (a\<lparr>cm_find := Some 1, cm_count := Some n\<rparr>))
      else if code = chr_key CHR ''t'' then Some (Some (a\<lparr>cm_find := Some 2, cm_count := Some n\<rparr>))
      else if code = chr_key CHR ''T'' then Some (Some (a\<lparr>cm_find := Some 3, cm_count := Some n\<rparr>))
      else if code = chr_key CHR ''D'' then Some (line_end_and_exit a)
      else if code = chr_key CHR ''%'' then Some (move_matching_bracket a)
      else if code = chr_key CHR ''{'' then Some (repeat_opt n move_prev_paragraph a)
      else if code = chr_key CHR ''}'' then Some (repeat_opt n move_next_paragraph a)
      else if code = chr_key CHR ''0'' \<or> code = KHome then Some (move_to_line_start a)
      else if code = chr_key CHR ''$'' \<or> code = KEnd then Some (move_to_line_end a)
      else if code = chr_key CHR ''^'' then Some (move_to_first_nonblank a)
      else None)"

definition selection_key :: "key_code \<Rightarrow> key_mods \<Rightarrow> copy_server \<Rightarrow> copy_server option" where
  "selection_key code mods a =
     (if code = chr_key CHR ''v'' \<and> m_ctrl mods then
        (if cm_mode_keys a = ''emacs'' then scroll_copy_down 10 a else Some (a\<lparr>cm_selection := SelRect\<rparr>))
      else if code = chr_key CHR ''v'' then Some (toggle_rectangle a)
      else if code = chr_key CHR ''V'' then begin_selection SelLine a
      else if code = chr_key CHR ''o'' then Some (swap_ends a)
      else if code = chr_key CHR ''A'' then append_and_exit a
      else if code = chr_key CHR '' '' \<and> \<not> m_ctrl mods then begin_selection SelChar a
      else if code = KEnter then enter_and_exit a
      else if code = chr_key CHR ''y'' then yank_and_exit a
      else if code = chr_key CHR ''/'' then Some (open_search True a)
      else if code = chr_key CHR ''?'' then Some (open_search False a)
      else if code = chr_key CHR ''n'' then search_next a
      else if code = chr_key CHR ''N'' then search_prev a
      else if code = chr_key CHR '' '' \<and> m_ctrl mods then set_mark a
      else if code = KChar 34 then Some (a\<lparr>cm_reg_pending := True\<rparr>)
      else if code = chr_key CHR ''a'' \<and> \<not> m_ctrl mods \<and> \<not> m_alt mods then Some (a\<lparr>cm_object := Some 0\<rparr>)
      else if code = chr_key CHR ''i'' \<and> \<not> m_ctrl mods \<and> \<not> m_alt mods then Some (a\<lparr>cm_object := Some 1\<rparr>)
      else Some a)"

definition copy_command_key :: "(nat \<Rightarrow> bool) \<Rightarrow> nat \<Rightarrow> key_code \<Rightarrow> key_mods \<Rightarrow> copy_server \<Rightarrow> copy_server option" where
  "copy_command_key alnum n code mods a =
     (case control_key alnum n code mods a of
        Some x \<Rightarrow> x
      | None \<Rightarrow> (case motion_key alnum n code a of Some x \<Rightarrow> x | None \<Rightarrow> selection_key code mods a))"

text \<open>A digit of the repeat count: what it does, if it is one.\<close>

definition count_digit :: "key_code \<Rightarrow> key_mods \<Rightarrow> copy_server \<Rightarrow> copy_server option" where
  "count_digit code mods a =
     (case code of
        KChar d \<Rightarrow>
          if 48 \<le> d \<and> d \<le> 57 \<and> \<not> m_ctrl mods \<and> \<not> m_alt mods then
            (case cm_count a of
               Some n \<Rightarrow> Some (a\<lparr>cm_count := Some (min (n * 10 + (d - 48)) 9999)\<rparr>)
             | None \<Rightarrow> if d - 48 \<ge> 1 then Some (a\<lparr>cm_count := Some (d - 48)\<rparr>) else None)
          else None
      | _ \<Rightarrow> None)"

definition count_of :: "copy_server \<Rightarrow> nat" where
  "count_of a = (case cm_count a of Some n \<Rightarrow> n | None \<Rightarrow> 1)"

definition copy_mode_key :: "(nat \<Rightarrow> bool) \<Rightarrow> key_code \<Rightarrow> key_mods \<Rightarrow> copy_server \<Rightarrow> copy_server option" where
  "copy_mode_key alnum code mods a =
     (if cm_reg_pending a then
        (let a1 = a\<lparr>cm_reg_pending := False\<rparr>
         in case code of
              KChar ch \<Rightarrow> Some (if 97 \<le> ch \<and> ch \<le> 122 then a1\<lparr>cm_register := Some ch\<rparr> else a1)
            | _ \<Rightarrow> Some a1)
      else case cm_object a of
        Some prefix \<Rightarrow>
          (let a1 = a\<lparr>cm_object := None\<rparr>
           in case code of KChar ch \<Rightarrow> select_object alnum prefix ch a1 | _ \<Rightarrow> Some a1)
      | None \<Rightarrow>
          (case cm_find a of
             Some kind \<Rightarrow>
               (let a1 = a\<lparr>cm_find := None, cm_count := None\<rparr>
                in case code of KChar ch \<Rightarrow> repeat_opt (count_of a) (find_pending kind ch) a1 | _ \<Rightarrow> Some a1)
           | None \<Rightarrow>
               (case count_digit code mods a of
                  Some a1 \<Rightarrow> Some a1
                | None \<Rightarrow> copy_command_key alnum (count_of a) code mods (a\<lparr>cm_count := None\<rparr>))))"

definition bound_copy_key :: "(string \<Rightarrow> key_code \<Rightarrow> key_mods \<Rightarrow> 'act option) \<Rightarrow> (nat \<Rightarrow> bool) \<Rightarrow> key_code \<Rightarrow> key_mods \<Rightarrow>
    copy_server \<Rightarrow> ('act + copy_server) option" where
  "bound_copy_key binding alnum code mods a =
     (case binding (if cm_mode_keys a = ''vi'' then ''copy-mode-vi'' else ''copy-mode'') code mods of
        Some act \<Rightarrow> Some (Inl act)
      | None \<Rightarrow> map_option Inr (copy_mode_key alnum code mods a))"

section \<open>The search prompt\<close>

definition run_search :: "(nat list \<Rightarrow> nat list) \<Rightarrow> nat list \<Rightarrow> bool \<Rightarrow> copy_server \<Rightarrow> copy_server option" where
  "run_search lowercase query forward a =
     map_option
       (\<lambda>a1. (case cm_matches a1 of (r, c, _) # _ \<Rightarrow> a1\<lparr>cm_pos := Some (r, c)\<rparr> | [] \<Rightarrow> a1)\<lparr>cm_mode := CopyMode\<rparr>)
       (search_copy_mode lowercase query forward (a\<lparr>cm_query := query, cm_forward := forward\<rparr>))"

definition copy_search_key :: "(nat list \<Rightarrow> nat list) \<Rightarrow> key_code \<Rightarrow> copy_server \<Rightarrow> copy_server option" where
  "copy_search_key lowercase code a =
     (case cm_mode a of
        CopySearch input forward \<Rightarrow>
          (case code of
             KEsc \<Rightarrow> Some (a\<lparr>cm_mode := CopyMode\<rparr>)
           | KEnter \<Rightarrow> run_search lowercase input forward a
           | KBackspace \<Rightarrow> Some (a\<lparr>cm_mode := CopySearch (butlast input) forward\<rparr>)
           | KChar c \<Rightarrow> Some (a\<lparr>cm_mode := CopySearch (input @ [c]) forward\<rparr>)
           | _ \<Rightarrow> Some a)
      | _ \<Rightarrow> Some a)"

section \<open>Text and keys sent by a command\<close>

definition sent_char :: "(nat \<Rightarrow> bool) \<Rightarrow> nat \<Rightarrow> copy_server \<Rightarrow> copy_server option" where
  "sent_char alnum c a =
     (if c = 113 \<or> c = 93 \<or> c = 27 then exit_copy_mode a
      else if c = 104 then move_copy_cursor (-1) 0 a
      else if c = 108 then move_copy_cursor 1 0 a
      else if c = 107 then move_copy_cursor 0 (-1) a
      else if c = 106 then move_copy_cursor 0 1 a
      else if c = 103 then scroll_to_top a
      else if c = 71 then scroll_to_bottom a
      else if c = 119 then move_word_forward alnum a
      else if c = 98 then move_word_backward alnum a
      else if c = 101 then move_word_end alnum a
      else if c = 87 then move_word_forward_big a
      else if c = 66 then move_word_backward_big a
      else if c = 69 then move_word_end_big a
      else if c = 72 then move_to_screen_top a
      else if c = 77 then move_to_screen_middle a
      else if c = 76 then move_to_screen_bottom a
      else if c = 102 then Some (a\<lparr>cm_find := Some 0\<rparr>)
      else if c = 70 then Some (a\<lparr>cm_find := Some 1\<rparr>)
      else if c = 116 then Some (a\<lparr>cm_find := Some 2\<rparr>)
      else if c = 84 then Some (a\<lparr>cm_find := Some 3\<rparr>)
      else if c = 68 then line_end_and_exit a
      else if c = 48 then move_to_line_start a
      else if c = 36 then move_to_line_end a
      else if c = 94 then move_to_first_nonblank a
      else if c = 32 \<or> c = 118 then begin_selection SelChar a
      else if c = 86 then begin_selection SelLine a
      else if c = 111 then Some (swap_ends a)
      else if c = 65 then append_and_exit a
      else if c = 121 then yank_and_exit a
      else if c = 47 then Some (open_search True a)
      else if c = 63 then Some (open_search False a)
      else if c = 110 then search_next a
      else if c = 78 then search_prev a
      else if c = 105 then Some (a\<lparr>cm_object := Some 1\<rparr>)
      else if c = 97 then Some (a\<lparr>cm_object := Some 0\<rparr>)
      else Some a)"

definition handle_copy_mode_char :: "(nat \<Rightarrow> bool) \<Rightarrow> nat \<Rightarrow> copy_server \<Rightarrow> copy_server option" where
  "handle_copy_mode_char alnum c a =
     (case cm_object a of
        Some prefix \<Rightarrow> select_object alnum prefix c (a\<lparr>cm_object := None\<rparr>)
      | None \<Rightarrow>
          (case cm_find a of
             Some kind \<Rightarrow> find_pending kind c (a\<lparr>cm_find := None\<rparr>)
           | None \<Rightarrow> sent_char alnum c a))"

text \<open>
  The mode is looked at once, before the characters. \<open>None\<close>: no copy mode, the text goes another
  way.
\<close>

definition send_text_copy :: "(nat \<Rightarrow> bool) \<Rightarrow> nat list \<Rightarrow> copy_server \<Rightarrow> copy_server option option" where
  "send_text_copy alnum t a =
     (case cm_mode a of
        CopyMode \<Rightarrow> Some (each_opt (handle_copy_mode_char alnum) t a)
      | CopySearch input forward \<Rightarrow> Some (Some (a\<lparr>cm_mode := CopySearch (input @ t) forward\<rparr>))
      | _ \<Rightarrow> None)"

definition send_key_search :: "(nat list \<Rightarrow> nat list) \<Rightarrow> string \<Rightarrow> copy_server \<Rightarrow> copy_server option" where
  "send_key_search lowercase k a =
     (case cm_mode a of
        CopySearch input forward \<Rightarrow>
          if k = ''esc'' then Some (a\<lparr>cm_mode := CopyMode\<rparr>)
          else if k = ''enter'' then run_search lowercase input forward a
          else if k = ''backspace'' then Some (a\<lparr>cm_mode := CopySearch (butlast input) forward\<rparr>)
          else Some a
      | _ \<Rightarrow> Some a)"

definition send_key_copy :: "(nat \<Rightarrow> bool) \<Rightarrow> string \<Rightarrow> copy_server \<Rightarrow> copy_server option" where
  "send_key_copy alnum k a =
     (if k = ''esc'' \<or> k = ''q'' then exit_copy_mode a
      else if k = ''enter'' then enter_and_exit a
      else if k = ''space'' then begin_selection SelChar a
      else if k = ''up'' then move_copy_cursor 0 (-1) a
      else if k = ''down'' then move_copy_cursor 0 1 a
      else if k = ''pageup'' then scroll_copy_up 10 a
      else if k = ''pagedown'' then scroll_copy_down 10 a
      else if k = ''left'' then move_copy_cursor (-1) 0 a
      else if k = ''right'' then move_copy_cursor 1 0 a
      else if k = ''home'' then move_to_line_start a
      else if k = ''end'' then move_to_line_end a
      else if k = ''C-b'' \<or> k = ''c-b'' then
        (if cm_mode_keys a = ''emacs'' then move_copy_cursor (-1) 0 a else scroll_copy_up 10 a)
      else if k = ''C-f'' \<or> k = ''c-f'' then
        (if cm_mode_keys a = ''emacs'' then move_copy_cursor 1 0 a else scroll_copy_down 10 a)
      else if k = ''C-n'' \<or> k = ''c-n'' then move_copy_cursor 0 1 a
      else if k = ''C-p'' \<or> k = ''c-p'' then move_copy_cursor 0 (-1) a
      else if k = ''C-a'' \<or> k = ''c-a'' then move_to_line_start a
      else if k = ''C-e'' \<or> k = ''c-e'' then move_to_line_end a
      else if k = ''C-v'' \<or> k = ''c-v'' then scroll_copy_down 10 a
      else if k = ''M-v'' \<or> k = ''m-v'' then scroll_copy_up 10 a
      else if k = ''M-f'' \<or> k = ''m-f'' then move_word_forward alnum a
      else if k = ''M-b'' \<or> k = ''m-b'' then move_word_backward alnum a
      else if k = ''M-w'' \<or> k = ''m-w'' then yank_and_exit a
      else if k = ''C-s'' \<or> k = ''c-s'' then Some (open_search True a)
      else if k = ''C-r'' \<or> k = ''c-r'' then Some (open_search False a)
      else if k = ''C-c'' \<or> k = ''c-c'' \<or> k = ''C-g'' \<or> k = ''c-g'' then exit_copy_mode a
      else if k = ''c-space'' \<or> k = ''C-space'' then set_mark a
      else if k = ''C-u'' \<or> k = ''c-u'' then scroll_copy_up (half_page a) a
      else if k = ''C-d'' \<or> k = ''c-d'' then scroll_copy_down (half_page a) a
      else Some a)"

end
