(* ===== verification/Copy_Demo.thy ===== *)
theory Copy_Demo
  imports Copy_Keys
begin

text \<open>
  Small servers and screens that the examples of copy mode run on, and what is read from them.
\<close>

definition demo_pane :: "nat \<Rightarrow> nat \<Rightarrow> nat \<Rightarrow> pane" where
  "demo_pane i rows cols =
     \<lparr>pane_id = i, title = [], dead = False, last_rows = rows, last_cols = cols, term_rows = rows,
      term_cols = cols, pty_rows = rows, pty_cols = cols\<rparr>"

definition demo_window :: "node \<Rightarrow> path \<Rightarrow> window" where
  "demo_window n p =
     \<lparr>root = n, active_path = p, wname = [], wid = 0, activity_flag = False, bell_flag = False,
      silence_flag = False, manual_rename = False, layout_index = 0, pane_mru = [], zoom_saved = None,
      linked_from = None\<rparr>"

definition demo_server :: "node \<Rightarrow> path \<Rightarrow> (nat \<Rightarrow> screen) \<Rightarrow> copy_server" where
  "demo_server n p terms =
     \<lparr>cm_app = \<lparr>windows = [demo_window n p], active_idx = 0,
        last_window_area = \<lparr>rx = 0, ry = 0, rw = 80, rh = 24\<rparr>, remain_on_exit = False,
        main_pane_width = 0, main_pane_height = 0, next_win_id = 1\<rparr>,
      cm_terms = terms, cm_copies = (\<lambda>_. None), cm_written = (\<lambda>_. []), cm_mode = CopyMode,
      cm_anchor = None, cm_anchor_scroll = 0, cm_pos = Some (0, 0), cm_scroll = 0, cm_selection = SelChar,
      cm_query = [], cm_count = None, cm_matches = [], cm_idx = 0, cm_forward = True, cm_find = None,
      cm_object = None, cm_reg_pending = False, cm_register = None, cm_registers = (\<lambda>_. None),
      cm_buffers = [], cm_separators = [32, 45, 95, 64], cm_wrap_search = True, cm_set_clipboard = True,
      cm_osc52 = None, cm_command = [], cm_mode_keys = ''vi'', cm_clipboard = None, cm_piped = []\<rparr>"

text \<open>A screen that shows some ASCII text; a blank cell is one that was never written.\<close>

definition demo_cell :: "char \<Rightarrow> vcell" where
  "demo_cell ch = (if ch = CHR '' '' then cell_new else cell_new\<lparr>vc_bytes := ch # replicate 21 (char_of (0::nat)), vc_len := 1\<rparr>)"

definition demo_screen :: "string list \<Rightarrow> string list \<Rightarrow> screen" where
  "demo_screen past ls =
     (let row = (\<lambda>l. \<lparr>vr_cells = map demo_cell l, vr_wrapped = False\<rparr>);
          s = screen_new \<lparr>sz_rows = length ls, sz_cols = length (hd ls)\<rparr> 100
      in s\<lparr>sc_grid := (sc_grid s)\<lparr>gr_rows := map row ls, gr_scrollback := map row past\<rparr>\<rparr>)"

lemma demo_cell_text:
  assumes "(of_char ch :: nat) < 128"
  shows "from_utf8 (cell_contents (demo_cell ch)) = Some (if ch = CHR '' '' then [] else [of_char ch])"
proof (cases "ch = CHR '' ''")
  case True
  then show ?thesis by (simp add: demo_cell_def cell_contents_def cell_len_def cell_new_def)
next
  case False
  have one: "unat ((1 :: 8 word) AND LEN_BITS) = 1" by (simp add: LEN_BITS_def)
  have "from_utf8 (utf8_text [of_char ch]) = Some [of_char ch]"
    by (rule from_utf8_text) (use assms in \<open>simp add: is_scalar_def\<close>)
  moreover have "utf8_text [of_char ch] = [ch]" using assms by (simp add: utf8_text_def utf8_ascii)
  ultimately show ?thesis using False one
    by (simp add: demo_cell_def cell_contents_def cell_len_def)
qed

lemma demo_grid:
  "grid_of (demo_screen past ls) =
     (allocate_rows (grid_new \<lparr>sz_rows = length ls, sz_cols = length (hd ls)\<rparr> 100))
       \<lparr>gr_rows := map (\<lambda>l. \<lparr>vr_cells = map demo_cell l, vr_wrapped = False\<rparr>) ls,
        gr_scrollback := map (\<lambda>l. \<lparr>vr_cells = map demo_cell l, vr_wrapped = False\<rparr>) past\<rparr>"
  by (simp add: demo_screen_def grid_of_def screen_new_def has_mode_def Let_def)

lemma demo_screen_cell:
  assumes "r < length ls" "c < length (ls ! r)"
  shows "screen_cell (demo_screen past ls) r c = Some (demo_cell (ls ! r ! c))"
  using assms
  by (simp add: screen_cell_def visible_cell_def demo_grid visible_rows_def allocate_rows_def grid_new_def
      get_def row_get_def)

lemma those_map: "\<forall>x\<in>set xs. f x = Some (g x) \<Longrightarrow> those (map f xs) = Some (map g xs)"
  by (induction xs) auto

lemma demo_span:
  assumes "r < length ls" "\<forall>ch\<in>set (ls ! r). (of_char ch :: nat) < 128"
  shows "span_text True (demo_screen past ls) r [0 ..< length (ls ! r)] = Some (map of_char (ls ! r))"
proof -
  let ?f = "\<lambda>c. [of_char (ls ! r ! c)] :: nat list"
  have "cell_text True (demo_screen past ls) r c = Some (?f c)" if "c < length (ls ! r)" for c
    using assms that
    by (simp add: cell_text_def demo_screen_cell demo_cell_text)
  then have "those (map (cell_text True (demo_screen past ls) r) [0 ..< length (ls ! r)]) = Some (map ?f [0 ..< length (ls ! r)])"
    by (intro those_map) simp
  moreover have "concat (map ?f [0 ..< length (ls ! r)]) = map of_char (ls ! r)"
    by (subst (3) map_nth [symmetric]) (simp add: comp_def)
  ultimately show ?thesis by (simp add: span_text_def)
qed

definition demo_single :: "string list \<Rightarrow> string list \<Rightarrow> copy_server" where
  "demo_single past ls =
     demo_server (Leaf (demo_pane 1 (length ls) (length (hd ls)))) [] (\<lambda>_. demo_screen past ls)"

lemma demo_single_pane [simp]:
  "active_pane_of (demo_single past ls) = Some (Some (demo_pane 1 (length ls) (length (hd ls))))"
  "pane_id (demo_pane i n m) = i" "last_rows (demo_pane i n m) = n" "last_cols (demo_pane i n m) = m"
  "cm_terms (demo_single past ls) i = demo_screen past ls" "cm_pos (demo_single past ls) = Some (0, 0)"
  "cm_mode (demo_single past ls) = CopyMode" "cm_matches (demo_single past ls) = []" "cm_idx (demo_single past ls) = 0"
  "cm_separators (demo_single past ls) = [32, 45, 95, 64]" "cm_anchor (demo_single past ls) = None"
  by (simp_all add: demo_single_def demo_server_def demo_window_def active_pane_of_def active_window_def
      active_pane_mut_def demo_pane_def)

lemma demo_read_row:
  assumes "r < length ls" "\<forall>ch\<in>set (ls ! r). (of_char ch :: nat) < 128" "length (ls ! r) = length (hd ls)"
  shows "read_row_text r (demo_single past ls) = Some (Some (map of_char (ls ! r), length (hd ls)))"
  using demo_span [OF assms(1,2), of past] assms(3) by (simp add: read_row_text_def)

end
