(* ===== verification/Copy_Panes.thy ===== *)
theory Copy_Panes
  imports Copy_Demo
begin

text \<open>
  Copy mode belongs to a pane: what a pane's copy mode is survives the focus going elsewhere,
  and leaving copy mode leaves no trace in the pane.
\<close>

section \<open>Focus\<close>

definition all_ids :: "app_state \<Rightarrow> nat set" where
  "all_ids app = (\<Union>w\<in>set (windows app). set (collect_pane_ids (root w)))"

text \<open>\<open>focus_pane_by_id\<close>, as the switch function of \<open>switch_with_copy_save\<close>.\<close>

definition focus_switch :: "nat \<Rightarrow> copy_server \<Rightarrow> copy_server option" where
  "focus_switch i a = Some (a\<lparr>cm_app := fst (focus_pane_by_id (cm_app a) i)\<rparr>)"

lemma focus_activates:
  assumes "i \<in> all_ids (cm_app a)"
  obtains q where "active_pane_of (a\<lparr>cm_app := fst (focus_pane_by_id (cm_app a) i)\<rparr>) = Some (Some q)" "pane_id q = i"
proof -
  let ?f = "\<lambda>(wi, w). map_option (Pair wi) (find_path_by_id (root w) i)"
  have "find_map ?f (enumerate 0 (windows (cm_app a))) \<noteq> None"
  proof
    assume none: "find_map ?f (enumerate 0 (windows (cm_app a))) = None"
    obtain w where w: "w \<in> set (windows (cm_app a))" "i \<in> set (collect_pane_ids (root w))"
      using assms by (auto simp: all_ids_def)
    then obtain k where "k < length (windows (cm_app a))" "windows (cm_app a) ! k = w"
      by (auto simp: in_set_conv_nth)
    then have "(k, w) \<in> set (enumerate 0 (windows (cm_app a)))" by (auto simp: in_set_enumerate_eq)
    with none have "find_path_by_id (root w) i = None" by (auto simp: find_map_None)
    with w show False by (simp add: find_path_by_id_None)
  qed
  then obtain wi p where f: "find_map ?f (enumerate 0 (windows (cm_app a))) = Some (wi, p)" by auto
  from find_map_Some [OF f] have k: "wi < length (windows (cm_app a))"
    "find_path_by_id (root (windows (cm_app a) ! wi)) i = Some p"
    by (auto simp: in_set_enumerate_eq)
  obtain q where "node_at (root (windows (cm_app a) ! wi)) p = Some (Leaf q)" "pane_id q = i"
    using find_path_by_id_Some [OF k(2)] by auto
  with that show thesis
    unfolding active_pane_of_def active_window_def focus_pane_by_id_def f
    using k(1) by (auto simp: set_window_def get_def active_pane_mut_def Let_def)
qed

lemma active_pane_app: "cm_app a = cm_app b \<Longrightarrow> active_pane_of a = active_pane_of b"
  by (simp add: active_pane_of_def)

lemma active_pane_fields [simp]:
  fixes a :: copy_server
  shows
  "active_pane_of (a\<lparr>cm_copies := x\<rparr>) = active_pane_of a" "active_pane_of (a\<lparr>cm_mode := m\<rparr>) = active_pane_of a"
  "active_pane_of (a\<lparr>cm_terms := t\<rparr>) = active_pane_of a" "active_pane_of (a\<lparr>cm_pos := q\<rparr>) = active_pane_of a"
  "active_pane_of (a\<lparr>cm_scroll := n\<rparr>) = active_pane_of a" "active_pane_of (a\<lparr>cm_anchor := k\<rparr>) = active_pane_of a"
  by (simp_all add: active_pane_of_def)

section \<open>Going away and coming back\<close>

lemma save_to_pane:
  assumes "active_pane_of a = Some (Some p)"
  shows "save_copy_state_to_pane a = Some (a\<lparr>cm_copies := (cm_copies a)(pane_id p := Some (copy_state_of a))\<rparr>)"
  using assms by (simp add: save_copy_state_to_pane_def on_pane_def)

text \<open>All that copy mode keeps for the user, field by field.\<close>

definition same_copy_mode :: "copy_server \<Rightarrow> copy_server \<Rightarrow> bool" where
  "same_copy_mode a c =
     (cm_mode c = cm_mode a \<and> cm_anchor c = cm_anchor a \<and> cm_anchor_scroll c = cm_anchor_scroll a \<and>
      cm_pos c = cm_pos a \<and> cm_scroll c = cm_scroll a \<and> cm_selection c = cm_selection a \<and>
      cm_query c = cm_query a \<and> cm_count c = cm_count a \<and> cm_matches c = cm_matches a \<and> cm_idx c = cm_idx a \<and>
      cm_forward c = cm_forward a \<and> cm_find c = cm_find a \<and> cm_object c = cm_object a \<and>
      cm_reg_pending c = cm_reg_pending a \<and> cm_register c = cm_register a)"

lemma load_save_same:
  assumes "is_copy (cm_mode a)"
  shows "same_copy_mode a (load_copy_state (copy_state_of a) b)"
  using assms by (cases "cm_mode a") (simp_all add: same_copy_mode_def copy_state_of_def load_copy_state_def is_copy_def)

text \<open>A switch to a pane: what it finds there decides the mode.\<close>

lemma switch_lands:
  assumes "i \<in> all_ids (cm_app a)" "active_pane_of a = Some (Some p)"
  shows "\<exists>app. switch_with_copy_save (focus_switch i) a =
    Some (let cs = (if is_copy (cm_mode a) then (cm_copies a)(pane_id p := Some (copy_state_of a)) else cm_copies a);
              a1 = a\<lparr>cm_copies := cs, cm_app := app\<rparr>
          in case cs i of Some s \<Rightarrow> load_copy_state s a1
             | None \<Rightarrow> if is_copy (cm_mode a) then a1\<lparr>cm_mode := Passthrough\<rparr> else a1)"
proof -
  let ?cs = "if is_copy (cm_mode a) then (cm_copies a)(pane_id p := Some (copy_state_of a)) else cm_copies a"
  let ?app = "fst (focus_pane_by_id (cm_app a) i)"
  let ?a1 = "a\<lparr>cm_copies := ?cs, cm_app := ?app\<rparr>"
  have saved: "(if is_copy (cm_mode a) then save_copy_state_to_pane a else Some a) = Some (a\<lparr>cm_copies := ?cs\<rparr>)"
    by (simp add: save_to_pane [OF assms(2)])
  obtain q where q: "active_pane_of ?a1 = Some (Some q)" "pane_id q = i"
    using focus_activates [of i "a\<lparr>cm_copies := ?cs\<rparr>"] assms(1) by auto
  have copy: "pane_copy ?a1 = Some (?cs i)" by (simp add: pane_copy_def q)
  have "switch_with_copy_save (focus_switch i) a =
      (if ?cs i \<noteq> None then restore_copy_state_from_pane ?a1
       else Some (if is_copy (cm_mode a) then ?a1\<lparr>cm_mode := Passthrough\<rparr> else ?a1))"
    unfolding switch_with_copy_save_def saved bind.bind_lunit focus_switch_def
    by (simp add: copy del: fun_upd_apply)
  also have "\<dots> = Some (case ?cs i of Some s \<Rightarrow> load_copy_state s ?a1
             | None \<Rightarrow> if is_copy (cm_mode a) then ?a1\<lparr>cm_mode := Passthrough\<rparr> else ?a1)"
    unfolding restore_copy_state_from_pane_def copy by (cases "?cs i") simp_all
  finally show ?thesis by (intro exI [of _ ?app]) (simp only: Let_def)
qed

lemma switch_finds:
  assumes "i \<in> all_ids (cm_app a)" "active_pane_of a = Some (Some p)" "pane_id p \<noteq> i" "cm_copies a i = Some s"
  shows "\<exists>x. switch_with_copy_save (focus_switch i) a = Some (load_copy_state s x)"
proof -
  have "(if is_copy (cm_mode a) then (cm_copies a)(pane_id p := Some (copy_state_of a)) else cm_copies a) i = Some s"
    using assms(3,4) by simp
  then show ?thesis using switch_lands [OF assms(1,2)] unfolding Let_def by (elim exE) (intro exI, simp)
qed

text \<open>C18: Copy mode is local to a pane: going to another pane leaves copy mode unless that pane is in
  it, and coming back, whatever was done elsewhere, finds the cursor, the selection, the search,
  the register, the pending keys and the search prompt of the pane as they were.\<close>

theorem copy_mode_survives_switch:
  assumes "active_pane_of a = Some (Some p)" "is_copy (cm_mode a)"
    "i \<in> all_ids (cm_app a)" "i \<noteq> pane_id p"
  shows "\<exists>b. switch_with_copy_save (focus_switch i) a = Some b \<and>
    (cm_copies a i = None \<longrightarrow> cm_mode b = Passthrough) \<and>
    (\<forall>d q. cm_copies d (pane_id p) = cm_copies b (pane_id p) \<and> pane_id p \<in> all_ids (cm_app d) \<and>
        active_pane_of d = Some (Some q) \<and> pane_id q \<noteq> pane_id p \<longrightarrow>
      (\<exists>c. switch_with_copy_save (focus_switch (pane_id p)) d = Some c \<and> same_copy_mode a c))"
proof -
  let ?cs = "(cm_copies a)(pane_id p := Some (copy_state_of a))"
  have saved: "cm_copies (load_copy_state s x) = cm_copies x" for s x by (simp add: load_copy_state_def)
  obtain app where b: "switch_with_copy_save (focus_switch i) a =
      Some (case cm_copies a i of Some s \<Rightarrow> load_copy_state s (a\<lparr>cm_copies := ?cs, cm_app := app\<rparr>)
        | None \<Rightarrow> a\<lparr>cm_copies := ?cs, cm_app := app, cm_mode := Passthrough\<rparr>)"
    using switch_lands [OF assms(3,1)] assms(2,4) by (auto simp: Let_def)
  let ?b = "case cm_copies a i of Some s \<Rightarrow> load_copy_state s (a\<lparr>cm_copies := ?cs, cm_app := app\<rparr>)
        | None \<Rightarrow> a\<lparr>cm_copies := ?cs, cm_app := app, cm_mode := Passthrough\<rparr>"
  have kept: "cm_copies ?b (pane_id p) = Some (copy_state_of a)"
    by (simp add: saved split: option.split)
  have comes: "\<exists>c. switch_with_copy_save (focus_switch (pane_id p)) d = Some c \<and> same_copy_mode a c"
    if d: "cm_copies d (pane_id p) = cm_copies ?b (pane_id p)" "pane_id p \<in> all_ids (cm_app d)"
      "active_pane_of d = Some (Some q)" "pane_id q \<noteq> pane_id p" for d q
  proof -
    have "cm_copies d (pane_id p) = Some (copy_state_of a)" using d(1) kept by simp
    then obtain x where "switch_with_copy_save (focus_switch (pane_id p)) d = Some (load_copy_state (copy_state_of a) x)"
      using switch_finds [OF d(2,3,4)] by blast
    then show ?thesis using load_save_same [OF assms(2)] by blast
  qed
  show ?thesis
    using b comes by (intro exI [of _ ?b]) (simp split: option.split)
qed

theorem copy_mode_survives_switch_witness:
  "\<exists>a b. cm_mode a = CopyMode \<and> switch_with_copy_save (focus_switch 2) a = Some b \<and> cm_mode b = Passthrough"
proof -
  let ?a = "demo_server (Split Horizontal [50, 50] [Leaf (demo_pane 1 24 40), Leaf (demo_pane 2 24 39)]) [0]
    (\<lambda>_. screen_new \<lparr>sz_rows = 24, sz_cols = 40\<rparr> 0)"
  have p: "active_pane_of ?a = Some (Some (demo_pane 1 24 40))"
    by (simp add: active_pane_of_def demo_server_def demo_window_def active_window_def active_pane_mut_def)
  have i: "2 \<in> all_ids (cm_app ?a)"
    by (simp add: all_ids_def demo_server_def demo_window_def collect_pane_ids_def demo_pane_def)
  have m: "is_copy (cm_mode ?a)" "cm_mode ?a = CopyMode" "cm_copies ?a 2 = None" "2 \<noteq> pane_id (demo_pane 1 24 40)"
    by (simp_all add: demo_server_def is_copy_def demo_pane_def)
  from copy_mode_survives_switch [OF p m(1) i m(4)] m(2,3) show ?thesis by blast
qed

end
