(* ===== verification/Copy_Words.thy ===== *)
theory Copy_Words
  imports Copy_Panes
begin

text \<open>
  The loops of copy mode over the characters of a row: where they stop, that they read no
  character out of range, and what follows for the motions by words and the text objects.
\<close>

section \<open>The loops\<close>

lemma skip_while_props:
  "i \<le> skip_while p cs i" "i \<le> length cs \<Longrightarrow> skip_while p cs i \<le> length cs"
  "\<forall>j. i \<le> j \<and> j < skip_while p cs i \<longrightarrow> p (cs ! j)"
  "skip_while p cs i < length cs \<Longrightarrow> \<not> p (cs ! skip_while p cs i)"
proof (induction p cs i rule: skip_while.induct)
  case (1 p cs i)
  { case 1 with "1.IH"(1) show ?case by (subst skip_while.simps) auto
  next case 2 with "1.IH"(2) show ?case by (subst skip_while.simps) auto
  next case 3
    show ?case
    proof (intro allI impI)
      fix j assume j: "i \<le> j \<and> j < skip_while p cs i"
      show "p (cs ! j)"
      proof (cases "i < length cs \<and> p (cs ! i)")
        case True
        with j "1.IH"(3) show ?thesis
          by (cases "j = i") (auto simp: skip_while.simps [of p cs i])
      qed (use j in \<open>auto simp: skip_while.simps [of p cs i]\<close>)
    qed
  next case 4 with "1.IH"(4) show ?case by (subst skip_while.simps) (auto simp: skip_while.simps [of p cs i]) }
qed

lemma ahead_while_props:
  "i \<le> ahead_while p cs i" "i < length cs \<Longrightarrow> ahead_while p cs i < length cs"
  "\<forall>j. i < j \<and> j \<le> ahead_while p cs i \<longrightarrow> p (cs ! j)"
  "ahead_while p cs i + 1 < length cs \<Longrightarrow> \<not> p (cs ! (ahead_while p cs i + 1))"
proof (induction p cs i rule: ahead_while.induct)
  case (1 p cs i)
  { case 1 with "1.IH"(1) show ?case by (subst ahead_while.simps) auto
  next case 2 with "1.IH"(2) show ?case by (subst ahead_while.simps) auto
  next case 3
    show ?case
    proof (intro allI impI)
      fix j assume j: "i < j \<and> j \<le> ahead_while p cs i"
      show "p (cs ! j)"
      proof (cases "i + 1 < length cs \<and> p (cs ! (i + 1))")
        case True
        with j "1.IH"(3) show ?thesis
          by (cases "j = i + 1") (auto simp: ahead_while.simps [of p cs i])
      qed (use j in \<open>auto simp: ahead_while.simps [of p cs i]\<close>)
    qed
  next case 4 with "1.IH"(4) show ?case by (subst ahead_while.simps) (auto simp: ahead_while.simps [of p cs i]) }
qed

lemma ahead_while_beyond: "length cs \<le> i + 1 \<Longrightarrow> ahead_while p cs i = i"
  by (subst ahead_while.simps) simp

lemma back_while_props:
  "i \<le> length cs \<Longrightarrow> \<exists>k. back_while p cs i = Some k \<and> k \<le> i \<and> (\<forall>j. k \<le> j \<and> j < i \<longrightarrow> p (cs ! j)) \<and>
     (0 < k \<longrightarrow> \<not> p (cs ! (k - 1)))"
proof (induction i)
  case (Suc i)
  show ?case
  proof (cases "p (cs ! i)")
    case True
    from Suc obtain k where "back_while p cs i = Some k" "k \<le> i" "\<forall>j. k \<le> j \<and> j < i \<longrightarrow> p (cs ! j)"
      "0 < k \<longrightarrow> \<not> p (cs ! (k - 1))" by auto
    with True Suc.prems show ?thesis by (auto simp: get_def less_Suc_eq)
  qed (use Suc.prems in \<open>auto simp: get_def\<close>)
qed simp

lemma here_while_props:
  "i < length cs \<Longrightarrow> \<exists>k. here_while p cs i = Some k \<and> k \<le> i \<and> (\<forall>j. k < j \<and> j \<le> i \<longrightarrow> p (cs ! j)) \<and>
     (0 < k \<longrightarrow> \<not> p (cs ! k))"
proof (induction i)
  case (Suc i)
  show ?case
  proof (cases "p (cs ! Suc i)")
    case True
    from Suc obtain k where "here_while p cs i = Some k" "k \<le> i" "\<forall>j. k < j \<and> j \<le> i \<longrightarrow> p (cs ! j)"
      "0 < k \<longrightarrow> \<not> p (cs ! k)" by auto
    with True Suc.prems show ?thesis by (auto simp: get_def le_Suc_eq)
  qed (use Suc.prems in \<open>auto simp: get_def\<close>)
qed auto

section \<open>Text objects\<close>

lemma run_around:
  assumes "col < length cs" "p (cs ! col)"
  shows "\<exists>s e. back_while p cs col = Some s \<and> ahead_while p cs col = e \<and> s \<le> col \<and> col \<le> e \<and> e < length cs \<and>
    (\<forall>j. s \<le> j \<and> j \<le> e \<longrightarrow> p (cs ! j)) \<and> (0 < s \<longrightarrow> \<not> p (cs ! (s - 1))) \<and>
    (e + 1 < length cs \<longrightarrow> \<not> p (cs ! (e + 1)))"
proof -
  let ?e = "ahead_while p cs col"
  note e = ahead_while_props [where i = col and p = p and cs = cs]
  obtain s where s: "back_while p cs col = Some s" "s \<le> col" "\<forall>j. s \<le> j \<and> j < col \<longrightarrow> p (cs ! j)"
    "0 < s \<longrightarrow> \<not> p (cs ! (s - 1))"
    using back_while_props [of col cs p] assms(1) by auto
  have "p (cs ! j)" if "s \<le> j" "j \<le> ?e" for j
  proof -
    consider "j < col" | "j = col" | "col < j" by linarith
    then show ?thesis using that s(3) e(3) assms(2) by cases simp_all
  qed
  then show ?thesis using s(1,2,4) e(1,4) e(2) [OF assms(1)] by blast
qed

text \<open>The inner word around a column is the largest run of characters of the class of the character
  there: the selection takes the whole word and nothing else.\<close>

theorem inner_word_is_maximal:
  assumes "col < length cs"
  shows "\<exists>s e. inner_word cls cs col = Some (Some (s, e)) \<and> s \<le> col \<and> col \<le> e \<and> e < length cs \<and>
    (\<forall>j. s \<le> j \<and> j \<le> e \<longrightarrow> cls (cs ! j) = cls (cs ! col)) \<and>
    (0 < s \<longrightarrow> cls (cs ! (s - 1)) \<noteq> cls (cs ! col)) \<and>
    (e + 1 < length cs \<longrightarrow> cls (cs ! (e + 1)) \<noteq> cls (cs ! col))"
proof -
  have iw: "inner_word cls cs col = Some (Some (s, e))"
    if "back_while (\<lambda>c. cls c = cls (cs ! col)) cs col = Some s" "ahead_while (\<lambda>c. cls c = cls (cs ! col)) cs col = e" for s e
    using assms that by (simp add: inner_word_def Let_def)
  show ?thesis using run_around [OF assms, where p = "\<lambda>c. cls c = cls (cs ! col)"] iw by blast
qed

theorem inner_word_is_maximal_witness:
  "\<exists>s e. inner_word id [97, 97, 32] 1 = Some (Some (s, e)) \<and> e + 1 < 3 \<longrightarrow> e = 1"
  using inner_word_is_maximal [of 1 "[97, 97, 32]" id] by auto

section \<open>Words\<close>

text \<open>A column where a word starts.\<close>

definition word_start :: "(nat \<Rightarrow> nat) \<Rightarrow> nat list \<Rightarrow> nat \<Rightarrow> bool" where
  "word_start cls cs j = (j < length cs \<and> \<not> white (cs ! j) \<and> (j = 0 \<or> cls (cs ! (j - 1)) \<noteq> cls (cs ! j)))"

definition splits_white :: "(nat \<Rightarrow> nat) \<Rightarrow> bool" where
  "splits_white cls = (\<forall>x y. cls x = cls y \<longrightarrow> white x = white y)"

lemma char_class_splits: "splits_white (char_class alnum seps)"
  by (auto simp: splits_white_def char_class_def split: if_splits)

lemma char_class_white: "white x \<Longrightarrow> white y \<Longrightarrow> char_class alnum seps x = char_class alnum seps y"
  by (simp add: char_class_def)

text \<open>The motion to the next word goes to the first start of a word behind the cursor.\<close>

lemma word_forward_next:
  assumes "splits_white cls" "c < length cs"
  shows "c < word_forward cls cs c" "word_forward cls cs c \<le> length cs"
    "word_forward cls cs c < length cs \<Longrightarrow> word_start cls cs (word_forward cls cs c)"
    "c < j \<Longrightarrow> j < word_forward cls cs c \<Longrightarrow> \<not> word_start cls cs j"
proof -
  obtain p where p: "p = (\<lambda>d. cls d = cls (cs ! c))" by simp
  then have pI: "p d \<longleftrightarrow> cls d = cls (cs ! c)" for d by simp
  let ?k = "skip_while p cs c"
  let ?r = "skip_while white cs ?k"
  have r: "word_forward cls cs c = ?r" using assms(2) by (simp add: word_forward_def p)
  note k = skip_while_props [where i = c and p = p and cs = cs]
    and w = skip_while_props [where i = ?k and p = white and cs = cs]
  have kc: "c < ?k" using assms(2) skip_while_props(1) [where i = "c + 1" and p = p and cs = cs]
    by (subst skip_while.simps) (simp add: pI)
  show "c < word_forward cls cs c" using kc w(1) unfolding r by linarith
  show "word_forward cls cs c \<le> length cs" unfolding r by (rule w(2), rule k(2)) (use assms(2) in simp)
  show "word_start cls cs (word_forward cls cs c)" if "word_forward cls cs c < length cs"
  proof (cases "?r = ?k")
    case True
    have l: "?k < length cs" using that unfolding r True .
    have "c \<le> ?k - 1" "?k - 1 < ?k" using kc by linarith+
    then have "p (cs ! (?k - 1))" using k(3) by blast
    moreover have "\<not> p (cs ! ?k)" by (rule k(4) [OF l])
    moreover have "\<not> white (cs ! ?k)" using w(4) l unfolding True by blast
    ultimately show ?thesis using l unfolding r True by (simp add: word_start_def pI)
  next
    case False
    then have "?k \<le> ?r - 1" "?r - 1 < ?r" using w(1) by linarith+
    then have a: "white (cs ! (?r - 1))" using w(3) by blast
    have b: "\<not> white (cs ! ?r)" using w(4) that unfolding r by blast
    have "cls (cs ! (?r - 1)) \<noteq> cls (cs ! ?r)" using a b assms(1) unfolding splits_white_def by blast
    then show ?thesis using b that unfolding r by (simp add: word_start_def)
  qed
  show "\<not> word_start cls cs j" if j: "c < j" "j < word_forward cls cs c"
  proof (cases "j < ?k")
    case True
    have "c \<le> j - 1" "j - 1 < ?k" "c \<le> j" using j(1) True by linarith+
    then have "p (cs ! j)" "p (cs ! (j - 1))" using k(3) True by blast+
    then show ?thesis using j(1) by (simp add: word_start_def pI)
  next
    case False
    then have "white (cs ! j)" using w(3) j(2) unfolding r by (meson not_less)
    then show ?thesis by (simp add: word_start_def)
  qed
qed

text \<open>The motion back goes to the last start of a word before the cursor, or to the first column.\<close>

lemma word_backward_prev:
  assumes "splits_white cls" "c \<le> length cs"
  shows "\<exists>k. word_backward cls cs c = Some k \<and> k \<le> c \<and> (k = 0 \<or> word_start cls cs k) \<and>
    (\<forall>j. k < j \<and> j < c \<longrightarrow> \<not> word_start cls cs j) \<and> (0 < c \<longrightarrow> k < c)"
proof -
  obtain m where m: "back_while white cs c = Some m" "m \<le> c" "\<forall>j. m \<le> j \<and> j < c \<longrightarrow> white (cs ! j)"
    "0 < m \<longrightarrow> \<not> white (cs ! (m - 1))"
    using back_while_props [OF assms(2), of white] by blast
  have behind: "\<not> word_start cls cs j" if "m \<le> j" "j < c" for j using m(3) that by (simp add: word_start_def)
  show ?thesis
  proof (cases "m = 0")
    case True
    then have "word_backward cls cs c = Some 0" by (simp add: word_backward_def m(1))
    then show ?thesis using behind True by auto
  next
    case False
    obtain p where "p = (\<lambda>d. cls d = cls (cs ! (m - 1)))" by simp
    then have p: "(\<lambda>d. cls d = cls (cs ! (m - 1))) = p" by simp
    then have pI: "p d \<longleftrightarrow> cls d = cls (cs ! (m - 1))" for d by (simp add: fun_eq_iff)
    have ml: "m - 1 < length cs" "m \<le> length cs" using m(2) assms(2) False by linarith+
    obtain k where k: "back_while p cs m = Some k" "k \<le> m" "\<forall>j. k \<le> j \<and> j < m \<longrightarrow> p (cs ! j)"
      "0 < k \<longrightarrow> \<not> p (cs ! (k - 1))"
      using back_while_props [OF ml(2), of p] by blast
    have wb: "word_backward cls cs c = Some k"
      using False ml k(1) by (simp add: word_backward_def m(1) get_def p [simplified])
    have km: "k < m"
    proof (rule ccontr)
      assume "\<not> k < m"
      then have "k = m" using k(2) by simp
      then show False using k(4) False by (simp add: pI)
    qed
    have start: "k = 0 \<or> word_start cls cs k"
    proof (cases "k = 0")
      case nz: False
      have ck: "p (cs ! k)" using k(3) km by blast
      then have "\<not> white (cs ! k)" using assms(1) m(4) False unfolding splits_white_def pI by blast
      moreover have "cls (cs ! (k - 1)) \<noteq> cls (cs ! k)" using k(4) nz ck by (simp add: pI)
      moreover have "k < length cs" using km ml(2) by linarith
      ultimately show ?thesis by (simp add: word_start_def)
    qed simp
    have between: "\<not> word_start cls cs j" if j: "k < j" "j < c" for j
    proof (cases "j < m")
      case True
      have "k \<le> j - 1" "j - 1 < m" using j(1) True by linarith+
      then have "p (cs ! j)" "p (cs ! (j - 1))" using k(3) j(1) True by (simp_all del: One_nat_def)
      then show ?thesis using j(1) by (simp add: word_start_def pI)
    qed (use behind j(2) in simp)
    have "k \<le> c" "0 < c \<longrightarrow> k < c" using km m(2) by linarith+
    then show ?thesis using wb start between by blast
  qed
qed

lemma goto_pos [simp]: "cm_pos (goto r c a) = Some (r, wrap16 c)"
  by (simp add: goto_def)

lemma goto_again: "cm_pos a = Some (r, c) \<Longrightarrow> wrap16 c = c \<Longrightarrow> goto r c (goto r' n a) = a"
  by (cases a) (simp add: goto_def)

lemma read_row_pos [simp]: "read_row_text r (goto q c a) = read_row_text r a"
  by (simp add: read_row_text_def goto_def active_pane_of_def cong: option.case_cong)

lemma with_row_at:
  "cm_pos a = Some (r, c) \<Longrightarrow> read_row_text r a = Some (Some (t, cols)) \<Longrightarrow> with_row f a = f (r, c) t cols a"
  by (simp add: with_row_def with_pos_def get_copy_pos_def)

lemma forward_motion_stays:
  "cm_pos a = Some (r, c) \<Longrightarrow> read_row_text r a = Some (Some (t, cols)) \<Longrightarrow> inrow t c < cols \<Longrightarrow>
     forward_motion inrow next_row a = Some (goto r (inrow t c) a)"
  unfolding forward_motion_def by (subst with_row_at, assumption+) (simp add: Let_def)

lemma backward_motion_stays:
  "cm_pos a = Some (r, c) \<Longrightarrow> read_row_text r a = Some (Some (t, cols)) \<Longrightarrow> c \<noteq> 0 \<Longrightarrow> inrow t c = Some k \<Longrightarrow>
     backward_motion inrow prev_row a = Some (goto r k a)"
  unfolding backward_motion_def by (subst with_row_at, assumption+) simp

text \<open>From the start of a word, the motion to the next word of the row and the motion back end
  where they began.\<close>

theorem word_there_and_back:
  assumes "cm_pos a = Some (r, c)" "read_row_text r a = Some (Some (t, cols))" "cols < 65536"
    "word_start (char_class alnum (cm_separators a)) t c"
    "word_forward (char_class alnum (cm_separators a)) t c < min cols (length t)"
  shows "\<exists>b. move_word_forward alnum a = Some b \<and> cm_pos b \<noteq> cm_pos a \<and> move_word_backward alnum b = Some a"
proof -
  let ?cls = "char_class alnum (cm_separators a)"
  let ?n = "word_forward ?cls t c"
  let ?b = "goto r ?n a"
  have c: "c < length t" using assms(4) by (simp add: word_start_def)
  note fwd = word_forward_next [OF char_class_splits [of alnum "cm_separators a"] c]
  have n: "?n < cols" "?n < 65536" "?n \<le> length t" using assms(3,5) by linarith+
  have "c < 65536" using n(2) fwd(1) by linarith
  then have wn: "wrap16 ?n = ?n" and cs: "wrap16 c = c" using n(2) by (simp_all only: wrap16_small)
  have n0: "?n \<noteq> 0" using fwd(1) by linarith
  have b: "move_word_forward alnum a = Some ?b"
    unfolding move_word_forward_def by (rule forward_motion_stays [where inrow = "word_forward ?cls", OF assms(1,2) n(1)])
  obtain k where k: "word_backward ?cls t ?n = Some k" "k \<le> ?n" "k = 0 \<or> word_start ?cls t k"
    "\<forall>j. k < j \<and> j < ?n \<longrightarrow> \<not> word_start ?cls t j" "0 < ?n \<longrightarrow> k < ?n"
    using word_backward_prev [OF char_class_splits [of alnum "cm_separators a"] n(3)] by (elim exE conjE) (rule that)
  have "\<not> k < c" using k(4) assms(4) fwd(1) by metis
  moreover have "\<not> c < k"
  proof
    assume ck: "c < k"
    have "k < ?n" using k(5) fwd(1) by linarith
    moreover have "word_start ?cls t k" using k(3) ck by (metis not_less_zero)
    ultimately show False using fwd(4) [OF ck] by metis
  qed
  ultimately have "k = c" by linarith
  then have wk: "word_backward ?cls t ?n = Some c" using k(1) by (simp only:)
  have sep: "cm_separators ?b = cm_separators a" by (simp add: goto_def)
  have there: "move_word_backward alnum ?b = Some (goto r c ?b)"
    unfolding move_word_backward_def Let_def sep
    by (rule backward_motion_stays [where inrow = "word_backward ?cls", OF _ _ n0 wk]) (simp_all only: goto_pos wn read_row_pos assms(2))
  have home: "goto r c ?b = a" by (rule goto_again [OF assms(1) cs])
  have ne: "cm_pos ?b \<noteq> cm_pos a"
  proof -
    have "cm_pos ?b = Some (r, ?n)" unfolding goto_pos wn ..
    moreover have "?n \<noteq> c" using fwd(1) by linarith
    ultimately show ?thesis unfolding assms(1) by simp
  qed
  show ?thesis by (rule exI [of _ ?b], intro conjI, rule b, rule ne, rule there [unfolded home])
qed

theorem word_there_and_back_witness:
  "\<exists>b. move_word_forward (\<lambda>c. 97 \<le> c) (demo_single [] [''ab cd'']) = Some b \<and>
    move_word_backward (\<lambda>c. 97 \<le> c) b = Some (demo_single [] [''ab cd''])"
proof -
  let ?a = "demo_single [] [''ab cd'']" and ?cls = "char_class (\<lambda>c. 97 \<le> c) [32, 45, 95, 64]"
  have row: "read_row_text 0 ?a = Some (Some ([97, 98, 32, 99, 100], 5))"
    using demo_read_row [of 0 "[''ab cd'']" "[]"] by simp
  have cls: "?cls 97 = 1" "?cls 98 = 1" "?cls 99 = 1" "?cls 100 = 1" "?cls 32 = 0"
    by (simp_all add: char_class_def white_def)
  have wh: "\<not> white 97" "\<not> white 98" "white 32" "\<not> white 99" by (simp_all add: white_def)
  have start: "word_start ?cls [97, 98, 32, 99, 100] 0" by (simp add: word_start_def wh)
  have "word_forward ?cls [97, 98, 32, 99, 100] 0 = 3"
    by (simp add: word_forward_def skip_while.simps cls wh)
  then have "word_forward ?cls [97, 98, 32, 99, 100] 0 < min 5 (length [97, 98, 32, 99, 100 :: nat])" by simp
  with word_there_and_back [of ?a 0 0 "[97, 98, 32, 99, 100]" 5 "\<lambda>c. 97 \<le> c"] row start
  show ?thesis by auto
qed

end
