(* ===== verification/Copy_Search.thy ===== *)
theory Copy_Search
  imports Copy_Demo
begin

text \<open>
  The search of copy mode: on ASCII text it finds every place where the query occurs, whatever
  the case of the letters; on other text it can panic.
\<close>

section \<open>Finding\<close>

definition occurs_at :: "'a list \<Rightarrow> 'a list \<Rightarrow> nat \<Rightarrow> bool" where
  "occurs_at q s i = (take (length q) (drop i s) = q)"

lemma occurs_length: "occurs_at q s i \<Longrightarrow> q \<noteq> [] \<Longrightarrow> i + length q \<le> length s"
  unfolding occurs_at_def by (metis append_take_drop_id drop_all le_add_diff_inverse2 length_append length_drop
      length_take less_or_eq_imp_le list.size(3) min.absorb_iff2 nat_le_linear take_Nil add.commute add_le_mono1 le_diff_conv)

lemma find_sub_first:
  assumes "q \<noteq> []"
  shows "find_sub q s = (case filter (occurs_at q s) [0 ..< length s] of [] \<Rightarrow> None | i # _ \<Rightarrow> Some i)"
proof (induction s)
  case (Cons b s)
  have shift: "filter (occurs_at q (b # s)) (map Suc [0 ..< length s]) = map Suc (filter (occurs_at q s) [0 ..< length s])"
    by (simp add: filter_map comp_def occurs_at_def [abs_def])
  have upt: "[0 ..< length (b # s)] = 0 # map Suc [0 ..< length s]" by (simp add: map_Suc_upt upt_conv_Cons del: upt_Suc)
  show ?case
  proof (cases "take (length q) (b # s) = q")
    case True
    then have "occurs_at q (b # s) 0" by (simp add: occurs_at_def)
    then show ?thesis unfolding upt using True by simp
  next
    case False
    then have "\<not> occurs_at q (b # s) 0" by (simp add: occurs_at_def)
    then show ?thesis unfolding upt using False shift Cons.IH by (simp split: list.split)
  qed
qed (use assms in simp)

definition ascii_text :: "string \<Rightarrow> bool" where
  "ascii_text s = (\<forall>c\<in>set s. (of_char c :: nat) < 128)"

lemma ascii_boundary: "ascii_text s \<Longrightarrow> i \<le> length s \<Longrightarrow> char_boundary s i"
  by (cases "i = length s") (auto simp: ascii_text_def char_boundary_def dest: bspec [OF _ nth_mem, of _ _ i])

lemma filter_from:
  assumes "filter P [start ..< n] = i # ks"
  shows "start \<le> i" "i < n" "P i" "ks = filter P [Suc i ..< n]"
proof -
  have m: "i \<in> set (filter P [start ..< n])" unfolding assms by simp
  then show i: "start \<le> i" "i < n" "P i" by auto
  have "sorted_wrt (<) (i # ks)" unfolding assms [symmetric] by (simp add: sorted_wrt_filter)
  then have lt: "\<forall>j\<in>set (filter P [start ..< n]). i \<le> j" unfolding assms by auto
  have "[start ..< n] = [start ..< i] @ i # [Suc i ..< n]"
    using i(1,2) upt_add_eq_append [of start i "n - i"] by (simp add: upt_conv_Cons)
  moreover have "filter P [start ..< i] = []" using lt i by (fastforce simp: filter_empty_conv)
  ultimately have "filter P [start ..< n] = i # filter P [Suc i ..< n]" using i(3) by simp
  then show "ks = filter P [Suc i ..< n]" using assms by simp
qed

lemma search_loop_all:
  assumes "q \<noteq> []" "ascii_text s" "start \<le> length s" "length s - start < n"
  shows "search_loop n q s start acc = Some (acc @ filter (occurs_at q s) [start ..< length s])"
  using assms(3,4)
proof (induction n arbitrary: start acc)
  case (Suc n)
  have shift: "filter (occurs_at q (drop start s)) [0 ..< length (drop start s)] =
      map (\<lambda>i. i - start) (filter (occurs_at q s) [start ..< length s])"
  proof -
    have "[start ..< length s] = map (\<lambda>i. i + start) [0 ..< length s - start]"
      using Suc.prems(1) by (simp add: map_add_upt)
    then show ?thesis by (simp add: filter_map comp_def occurs_at_def [abs_def] add.commute)
  qed
  note f = find_sub_first [OF assms(1), of "drop start s", unfolded shift]
  show ?case
  proof (cases "filter (occurs_at q s) [start ..< length s]")
    case Nil
    then show ?thesis using f ascii_boundary [OF assms(2) Suc.prems(1)] by simp
  next
    case (Cons i ks)
    note i = filter_from [OF Cons]
    have "search_loop (Suc n) q s start acc = search_loop n q s (i + 1) (acc @ [i])"
      using f ascii_boundary [OF assms(2) Suc.prems(1)] Cons i(1) by simp
    also have "\<dots> = Some ((acc @ [i]) @ filter (occurs_at q s) [i + 1 ..< length s])"
      by (rule Suc.IH) (use i(1,2) Suc.prems in linarith)+
    finally show ?thesis using Cons i(4) by simp
  qed
qed simp

lemma search_row_all:
  "q \<noteq> [] \<Longrightarrow> ascii_text s \<Longrightarrow> search_row q s = Some (filter (occurs_at q s) [0 ..< length s])"
  using search_loop_all [of q s 0 "length s + 1" "[]"] by (simp add: search_row_def)

section \<open>The search of a pane\<close>

text \<open>What \<open>str::to_lowercase\<close> does to ASCII text.\<close>

definition lower_code :: "nat \<Rightarrow> nat" where
  "lower_code c = (if 65 \<le> c \<and> c \<le> 90 then c + 32 else c)"

definition ascii_codes :: "nat list \<Rightarrow> bool" where
  "ascii_codes t = (\<forall>c\<in>set t. c < 128)"

definition lowers_ascii :: "(nat list \<Rightarrow> nat list) \<Rightarrow> bool" where
  "lowers_ascii f = (\<forall>t. ascii_codes t \<longrightarrow> f t = map lower_code t)"

lemma ascii_lower: "ascii_codes t \<Longrightarrow> ascii_codes (map lower_code t)"
  by (auto simp: ascii_codes_def lower_code_def)

lemma ascii_bytes:
  assumes "ascii_codes t"
  shows "utf8_text t = map char_of t" "ascii_text (map char_of t)"
proof -
  have "map of_char (map char_of t :: string) = t"
    using assms by (intro nth_equalityI) (auto simp: ascii_codes_def dest: bspec [OF _ nth_mem])
  moreover show "ascii_text (map char_of t)" using assms by (auto simp: ascii_text_def ascii_codes_def)
  ultimately show "utf8_text t = map char_of t"
    using utf8_text_ascii [of "map char_of t"] by (simp only: ascii_text_def)
qed

lemma occurs_bytes:
  assumes "ascii_codes q" "ascii_codes t"
  shows "occurs_at (map char_of q :: string) (map char_of t) i = occurs_at q t i"
proof -
  have inj: "inj_on (char_of :: nat \<Rightarrow> char) {..<256}" by (rule inj_onI) (metis lessThan_iff mod_less of_char_of)
  have sub: "set (take (length q) (drop i t)) \<union> set q \<subseteq> {..<256}"
    using assms by (fastforce simp: ascii_codes_def dest: in_set_takeD in_set_dropD)
  have "map char_of (take (length q) (drop i t)) = (map char_of q :: string) \<longleftrightarrow> take (length q) (drop i t) = q"
    by (rule inj_on_map_eq_map [OF inj_on_subset [OF inj sub]])
  then show ?thesis by (simp add: occurs_at_def take_map drop_map)
qed

lemma occurs_fun:
  "ascii_codes q \<Longrightarrow> ascii_codes t \<Longrightarrow> occurs_at (map char_of q :: string) (map char_of t) = occurs_at q t"
  by (intro ext occurs_bytes)

lemma row_matches_all:
  assumes "span_text True s r [0 ..< cols] = Some t" "ascii_codes t" "length t = cols" "cols < 65536"
    "lowers_ascii lowercase" "ascii_codes query" "query \<noteq> []"
  shows "row_matches lowercase (utf8_text (lowercase query)) s cols r =
    Some (map (\<lambda>i. (r, i, i + length query)) (filter (occurs_at (map lower_code query) (map lower_code t)) [0 ..< cols]))"
proof -
  let ?q = "map lower_code query" and ?t = "map lower_code t"
  have low: "lowercase query = ?q" "lowercase t = ?t" using assms(2,5,6) by (auto simp: lowers_ascii_def)
  note bq = ascii_bytes [OF ascii_lower [OF assms(6)]] and bt = ascii_bytes [OF ascii_lower [OF assms(2)]]
  have search: "search_row (utf8_text ?q) (utf8_text ?t) = Some (filter (occurs_at ?q ?t) [0 ..< cols])"
  proof -
    have "map char_of ?q \<noteq> ([] :: string)" using assms(7) by simp
    from search_row_all [OF this bt(2)] show ?thesis
      unfolding bq(1) bt(1) occurs_fun [OF ascii_lower [OF assms(6)] ascii_lower [OF assms(2)]]
      by (simp only: length_map assms(3))
  qed
  have len: "length (utf8_text ?q) = length query" unfolding bq(1) by simp
  have col: "wrap16 i = i \<and> add16 (wrap16 i) (wrap16 (length query)) = i + length query"
    if "i \<in> set (filter (occurs_at ?q ?t) [0 ..< cols])" for i
  proof -
    have "i + length query < 65536" using occurs_length [of ?q ?t i] that assms(3,4,7) by simp
    then show ?thesis by simp
  qed
  have "map (\<lambda>p. (r, wrap16 p, add16 (wrap16 p) (wrap16 (length query)))) (filter (occurs_at ?q ?t) [0 ..< cols]) =
      map (\<lambda>i. (r, i, i + length query)) (filter (occurs_at ?q ?t) [0 ..< cols])"
    by (rule map_cong [OF refl]) (use col in blast)
  then show ?thesis
    unfolding row_matches_def assms(1) bind.bind_lunit low search len by (rule arg_cong [where f = Some])
qed

lemma search_all:
  assumes "active_pane_of a = Some (Some p)" "query \<noteq> []" "ascii_codes query" "lowers_ascii lowercase"
    "last_cols p < 65536"
    "\<forall>r<last_rows p. span_text True (cm_terms a (pane_id p)) r [0 ..< last_cols p] = Some (text_of r) \<and>
       ascii_codes (text_of r) \<and> length (text_of r) = last_cols p"
  shows "search_copy_mode lowercase query forward a =
    Some (a\<lparr>cm_idx := 0, cm_matches :=
      (if forward then concat (map (\<lambda>r. map (\<lambda>i. (r, i, i + length query))
        (filter (occurs_at (map lower_code query) (map lower_code (text_of r))) [0 ..< last_cols p])) [0 ..< last_rows p])
       else rev (concat (map (\<lambda>r. map (\<lambda>i. (r, i, i + length query))
        (filter (occurs_at (map lower_code query) (map lower_code (text_of r))) [0 ..< last_cols p])) [0 ..< last_rows p])))\<rparr>)"
proof -
  let ?f = "row_matches lowercase (utf8_text (lowercase query)) (cm_terms a (pane_id p)) (last_cols p)"
  let ?g = "\<lambda>r. map (\<lambda>i. (r, i, i + length query))
        (filter (occurs_at (map lower_code query) (map lower_code (text_of r))) [0 ..< last_cols p])"
  have "?f r = Some (?g r)" if "r < last_rows p" for r
    using row_matches_all [of _ r "last_cols p" "text_of r"] assms(2-6) that by blast
  then have rows: "those (map ?f [0 ..< last_rows p]) = Some (map ?g [0 ..< last_rows p])"
    by (intro those_map) simp
  have ap: "active_pane_of (a\<lparr>cm_matches := [], cm_idx := 0\<rparr>) = Some (Some p)"
    using assms(1) by (simp add: active_pane_of_def)
  have "search_copy_mode lowercase query forward a =
      Some ((a\<lparr>cm_matches := [], cm_idx := 0\<rparr>)\<lparr>cm_matches :=
        (if forward then concat (map ?g [0 ..< last_rows p]) else rev (concat (map ?g [0 ..< last_rows p])))\<rparr>)"
  proof -
    have tm: "cm_terms (a\<lparr>cm_matches := [], cm_idx := 0\<rparr>) = cm_terms a" by simp
    show ?thesis
      unfolding search_copy_mode_def Let_def on_pane_def ap option.case tm rows option.map
      using assms(2) by (simp only: if_False)
  qed
  then show ?thesis by simp
qed

text \<open>C20: A search over ASCII text finds every place in the view where the query occurs, overlapping
  ones too, whatever the case of the letters, and no other; the matches are in the order of the
  screen, or in the opposite order for a search backwards.\<close>

theorem search_finds_all:
  assumes "active_pane_of a = Some (Some p)" "query \<noteq> []" "ascii_codes query" "lowers_ascii lowercase"
    "last_cols p < 65536"
    "\<forall>r<last_rows p. span_text True (cm_terms a (pane_id p)) r [0 ..< last_cols p] = Some (text_of r) \<and>
       ascii_codes (text_of r) \<and> length (text_of r) = last_cols p"
  shows "\<exists>ms. ms = concat (map (\<lambda>r. map (\<lambda>i. (r, i, i + length query))
        (filter (occurs_at (map lower_code query) (map lower_code (text_of r))) [0 ..< last_cols p])) [0 ..< last_rows p]) \<and>
    search_copy_mode lowercase query forward a = Some (a\<lparr>cm_idx := 0, cm_matches := (if forward then ms else rev ms)\<rparr>)"
  using search_all [OF assms] by (rule exI [where x = "concat (map (\<lambda>r. map (\<lambda>i. (r, i, i + length query))
        (filter (occurs_at (map lower_code query) (map lower_code (text_of r))) [0 ..< last_cols p])) [0 ..< last_rows p])", OF conjI [OF refl]])

theorem search_finds_all_witness:
  "\<exists>b. search_copy_mode (map lower_code) [65] True (demo_single [] [''aba'']) = Some b \<and>
    cm_matches b = [(0, 0, 1), (0, 2, 3)]"
proof -
  let ?a = "demo_single [] [''aba'']" and ?p = "demo_pane 1 1 3"
  have ap: "active_pane_of ?a = Some (Some ?p)" by (simp add: eval_nat_numeral)
  have row: "span_text True (cm_terms ?a (pane_id ?p)) r [0 ..< last_cols ?p] = Some [97, 98, 97] \<and>
      ascii_codes [97, 98, 97] \<and> length [97, 98, 97 :: nat] = last_cols ?p" if "r < last_rows ?p" for r
    using demo_span [of 0 "[''aba'']" "[]"] that by (simp add: ascii_codes_def eval_nat_numeral)
  have low: "lowers_ascii (map lower_code)" by (simp add: lowers_ascii_def)
  have "concat (map (\<lambda>r. map (\<lambda>i. (r, i, i + length [65 :: nat]))
      (filter (occurs_at (map lower_code [65]) (map lower_code [97, 98, 97])) [0 ..< last_cols ?p])) [0 ..< last_rows ?p])
      = [(0, 0, 1), (0, 2, 3)]"
    by (simp add: occurs_at_def lower_code_def upt_rec)
  with search_finds_all [OF ap _ _ low, of "[65]" "\<lambda>_. [97, 98, 97]" True] row show ?thesis
    by (auto simp: ascii_codes_def)
qed

end
