(* ===== verification/Copy_History.thy ===== *)
theory Copy_History
  imports Copy_Demo Vt_History
begin

text \<open>
  Yanking against a simple picture of it: the selected lines of the history of the terminal, that
  is the scrollback followed by the screen. The code reads them a screenful at a time, scrolling
  the view; the result does not depend on where the view was.
\<close>

section \<open>The specification\<close>

text \<open>The text of some columns of a row of the history.\<close>

definition row_span :: "vrow \<Rightarrow> nat list \<Rightarrow> nat list option" where
  "row_span row cols =
     map_option concat
       (those (map (\<lambda>c. case row_get row c of None \<Rightarrow> Some [32] | Some v \<Rightarrow> from_utf8 (cell_contents v)) cols))"

text \<open>The text of the lines of a selection, counted from the first.\<close>

fun lines_text :: "yank_spec \<Rightarrow> vrow list \<Rightarrow> nat \<Rightarrow> nat list option" where
  "lines_text y [] idx = Some []"
| "lines_text y (r # rs) idx =
     (case yank_line y (row_span r) idx of
        None \<Rightarrow> None
      | Some u \<Rightarrow> map_option ((@) u) (lines_text y rs (idx + 1)))"

definition history_lines :: "grid \<Rightarrow> int \<Rightarrow> int \<Rightarrow> vrow list" where
  "history_lines g lo hi = take (nat (hi - lo + 1)) (drop (nat (lo + int (length (gr_scrollback g)))) (history g))"

section \<open>The view\<close>

lemma grid_of_scrollback [simp]: "grid_of (screen_set_scrollback n s) = set_scrollback n (grid_of s)"
  by (simp add: screen_set_scrollback_def grid_of_def on_grid_def has_mode_def)

lemma scrollback_again [simp]: "screen_set_scrollback n (screen_set_scrollback m s) = screen_set_scrollback n s"
  by (simp add: screen_set_scrollback_def on_grid_def has_mode_def set_scrollback_def)

lemma history_scrollback [simp]:
  "history (set_scrollback n g) = history g" "gr_scrollback (set_scrollback n g) = gr_scrollback g"
  "gr_rows (set_scrollback n g) = gr_rows g" "gr_offset (set_scrollback n g) = min n (length (gr_scrollback g))"
  by (simp_all add: set_scrollback_def history_def)

lemma span_in_history:
  assumes "gr_offset (grid_of s) \<le> length (gr_scrollback (grid_of s))" "r < length (gr_rows (grid_of s))"
  shows "span_text False s r =
    row_span (history (grid_of s) ! (length (gr_scrollback (grid_of s)) - gr_offset (grid_of s) + r))"
proof -
  let ?g = "grid_of s"
  have "length (history ?g) = length (gr_scrollback ?g) + length (gr_rows ?g)" by (simp add: history_def)
  then have "get (visible_rows ?g) r = Some (history ?g ! (length (gr_scrollback ?g) - gr_offset ?g + r))"
    using assms by (simp add: visible_window [OF assms(1)] get_def)
  then have "screen_cell s r c = row_get (history ?g ! (length (gr_scrollback ?g) - gr_offset ?g + r)) c" for c
    by (simp add: screen_cell_def visible_cell_def)
  then have "cell_text False s r = (\<lambda>c. case row_get (history ?g ! (length (gr_scrollback ?g) - gr_offset ?g + r)) c of
      None \<Rightarrow> Some [32] | Some v \<Rightarrow> from_utf8 (cell_contents v))"
    by (auto simp: fun_eq_iff cell_text_def option.map_ident split: option.split)
  then show ?thesis by (intro ext) (simp add: span_text_def row_span_def)
qed

section \<open>The loop\<close>

lemma append_fun: "(@) [] = id" "(@) (u @ v) = (\<lambda>x. u @ v @ x)"
  by (simp_all add: fun_eq_iff)

lemma yank_rows_lines:
  assumes "length ls = length rs" "\<forall>k<length ls. span_text False s (as_u16 (ls ! k + sb)) = row_span (rs ! k)"
  shows "yank_rows y s sb ls idx t = map_option ((@) t) (lines_text y rs idx)"
  using assms
proof (induction ls arbitrary: rs idx t)
  case (Cons l ls)
  then obtain r rs' where rs: "rs = r # rs'" by (cases rs) auto
  have r: "span_text False s (as_u16 (l + sb)) = row_span r" using Cons.prems(2) rs by force
  have "yank_rows y s sb ls i u = map_option ((@) u) (lines_text y rs' i)" for i u
    by (rule Cons.IH) (use Cons.prems rs in force)+
  then show ?case
    by (simp add: rs r option.map_comp comp_def append_fun split: option.split)
qed simp

lemma lines_text_append:
  "lines_text y (rs @ rs') idx =
     (case lines_text y rs idx of
        None \<Rightarrow> None | Some u \<Rightarrow> map_option ((@) u) (lines_text y rs' (idx + length rs)))"
  by (induction rs arbitrary: idx)
    (auto simp: option.map_comp comp_def append_fun option.map_id split: option.split)

lemma history_lines_nth:
  assumes "- int (length (gr_scrollback g)) \<le> lo" "hi < int (length (gr_rows g))" "k < nat (hi - lo + 1)"
  shows "history_lines g lo hi ! k = history g ! (nat (lo + int (length (gr_scrollback g))) + k)"
    "length (history_lines g lo hi) = nat (hi - lo + 1)"
proof -
  let ?n = "nat (lo + int (length (gr_scrollback g)))"
  have h: "length (history g) = length (gr_scrollback g) + length (gr_rows g)" by (simp add: history_def)
  have n: "nat (hi - lo + 1) \<le> length (history g) - ?n" using assms h by linarith
  then have "?n + k < length (history g)" using assms(3) by linarith
  then show "history_lines g lo hi ! k = history g ! (?n + k)" using assms(3) by (simp add: history_lines_def)
  show "length (history_lines g lo hi) = nat (hi - lo + 1)" using n by (simp add: history_lines_def)
qed

lemma history_lines_split:
  assumes "lo \<le> mid + 1" "mid \<le> hi" "- int (length (gr_scrollback g)) \<le> lo"
  shows "history_lines g lo hi = history_lines g lo mid @ history_lines g (mid + 1) hi"
proof -
  let ?n = "nat (lo + int (length (gr_scrollback g)))"
  have a: "nat (hi - lo + 1) = nat (mid - lo + 1) + nat (hi - (mid + 1) + 1)" using assms by linarith
  have b: "nat (mid + 1 + int (length (gr_scrollback g))) = nat (mid - lo + 1) + ?n" using assms by linarith
  show ?thesis by (simp only: history_lines_def a b take_add drop_drop)
qed

text \<open>One screenful.\<close>

lemma screenful:
  assumes "length (gr_rows (grid_of s)) = rows" "rows < 65536" "0 < rows"
    "- int (length (gr_scrollback (grid_of s))) \<le> nxt" "nxt \<le> fin" "fin < int rows"
  obtains s1 sb lst where "s1 = screen_set_scrollback (nat (max (- nxt) 0)) s" "sb = int (scrollback_of s1)"
    "max nxt (- sb) = nxt" "lst = min fin (- sb + int rows - 1)" "nxt \<le> lst" "lst \<le> fin"
    "yank_rows y s1 sb [nxt .. lst] idx t = map_option ((@) t) (lines_text y (history_lines (grid_of s) nxt lst) idx)"
proof -
  let ?g = "grid_of s" and ?len = "length (gr_scrollback (grid_of s))"
  let ?s1 = "screen_set_scrollback (nat (max (- nxt) 0)) s"
  let ?off = "nat (max (- nxt) 0)"
  let ?sb = "int (scrollback_of ?s1)"
  let ?lst = "min fin (- ?sb + int rows - 1)"
  have off: "gr_offset (grid_of ?s1) = ?off" "?off \<le> ?len" using assms(4) by simp_all
  then have sb: "?sb = max (- nxt) 0" by (simp add: scrollback_of_def)
  have lst: "nxt \<le> ?lst" "?lst \<le> fin" unfolding sb using assms(3,5,6) by (auto simp: min_def max_def)
  have len: "length (history_lines ?g nxt ?lst) = nat (?lst - nxt + 1)"
    using history_lines_nth(2) [of ?g nxt ?lst 0] assms(1,4,6) lst by simp
  have "yank_rows y ?s1 ?sb [nxt .. ?lst] idx t = map_option ((@) t) (lines_text y (history_lines ?g nxt ?lst) idx)"
  proof (rule yank_rows_lines)
    show "length [nxt .. ?lst] = length (history_lines ?g nxt ?lst)" using len by simp
    show "\<forall>k<length [nxt .. ?lst]. span_text False ?s1 (as_u16 ([nxt .. ?lst] ! k + ?sb)) =
        row_span (history_lines ?g nxt ?lst ! k)"
    proof (intro allI impI)
      fix k assume "k < length [nxt .. ?lst]"
      then have k: "k < nat (?lst - nxt + 1)" by simp
      have nth: "[nxt .. ?lst] ! k = nxt + int k" by (rule nth_upto) (use k in linarith)
      have r: "0 \<le> nxt + int k + ?sb" "nxt + int k + ?sb < int rows" using k sb lst by linarith+
      then have u16: "as_u16 ([nxt .. ?lst] ! k + ?sb) = nat (nxt + int k + ?sb)"
        unfolding nth as_u16_def using assms(2) by (subst mod_pos_pos_trivial) simp_all
      have "nat (nxt + int k + ?sb) < length (gr_rows (grid_of ?s1))" using r assms(1) by simp
      then have sp: "span_text False ?s1 (nat (nxt + int k + ?sb)) =
          row_span (history ?g ! (?len - ?off + nat (nxt + int k + ?sb)))"
        using span_in_history [of ?s1] off by simp
      have ix: "?len - ?off + nat (nxt + int k + ?sb) = nat (nxt + int ?len) + k"
        using off(2) sb r assms(4) by linarith
      have "?lst < int (length (gr_rows ?g))" using lst(2) assms(1,6) by linarith
      then have hn: "history_lines ?g nxt ?lst ! k = history ?g ! (nat (nxt + int ?len) + k)"
        by (rule history_lines_nth(1) [OF assms(4) _ k])
      show "span_text False ?s1 (as_u16 ([nxt .. ?lst] ! k + ?sb)) = row_span (history_lines ?g nxt ?lst ! k)"
        unfolding u16 sp ix hn ..
    qed
  qed
  moreover have "max nxt (- ?sb) = nxt" using sb by linarith
  ultimately show thesis by (intro that [OF refl refl _ refl lst])
qed

lemma history_lines_scrollback [simp]: "history_lines (set_scrollback n g) lo hi = history_lines g lo hi"
  by (simp add: history_lines_def)

lemma yank_loop_step:
  assumes "s1 = screen_set_scrollback (nat (max (- nxt) 0)) s" "sb = int (scrollback_of s1)" "max nxt (- sb) = nxt"
    "lst = min fin (- sb + int rows - 1)" "nxt \<le> lst" "lst \<le> fin"
  shows "yank_loop y rows nxt fin idx s t =
    (case yank_rows y s1 sb [nxt .. lst] idx t of
       None \<Rightarrow> None
     | Some t1 \<Rightarrow> yank_loop y rows (lst + 1) fin (idx + nat (lst - nxt + 1)) s1 t1)"
proof -
  have "\<not> fin < nxt" "\<not> lst < nxt" using assms(5,6) by linarith+
  then show ?thesis
    using assms(1-4) by (subst yank_loop.simps) (simp only: Let_def if_False)
qed

lemma yank_loop_lines:
  assumes "length (gr_rows (grid_of s)) = rows" "rows < 65536" "0 < rows" "fin < int rows"
    "- int (length (gr_scrollback (grid_of s))) \<le> nxt" "nxt \<le> fin + 1"
  shows "\<exists>s'. (\<forall>n. screen_set_scrollback n s' = screen_set_scrollback n s) \<and>
    yank_loop y rows nxt fin idx s t =
      map_option (\<lambda>u. (s', t @ u)) (lines_text y (history_lines (grid_of s) nxt fin) idx)"
  using assms(1,5,6)
proof (induction "nat (fin + 1 - nxt)" arbitrary: nxt idx s t rule: less_induct)
  case less
  let ?g = "grid_of s"
  show ?case
  proof (cases "fin < nxt")
    case True
    have "yank_loop y rows nxt fin idx s t = Some (s, t)" using True by (subst yank_loop.simps) simp
    moreover have "history_lines ?g nxt fin = []" using True by (simp add: history_lines_def)
    ultimately show ?thesis by (intro exI [of _ s]) simp
  next
    case False
    then have le: "nxt \<le> fin" by simp
    obtain s1 sb lst where s1: "s1 = screen_set_scrollback (nat (max (- nxt) 0)) s" "sb = int (scrollback_of s1)"
      "max nxt (- sb) = nxt" "lst = min fin (- sb + int rows - 1)" "nxt \<le> lst" "lst \<le> fin"
      and ys: "yank_rows y s1 sb [nxt .. lst] idx t = map_option ((@) t) (lines_text y (history_lines ?g nxt lst) idx)"
      by (rule screenful [OF less.prems(1) assms(2,3) less.prems(2) le assms(4), of y idx t])
    note step = yank_loop_step [OF s1, of y idx t, unfolded ys]
    have split: "history_lines ?g nxt fin = history_lines ?g nxt lst @ history_lines ?g (lst + 1) fin"
      by (rule history_lines_split) (use s1(5,6) less.prems(2) in linarith)+
    show ?thesis
    proof (cases "lines_text y (history_lines ?g nxt lst) idx")
      case None
      then show ?thesis unfolding step split by (intro exI [of _ s]) (simp add: lines_text_append)
    next
      case (Some u)
      have g1: "length (gr_rows (grid_of s1)) = rows" "- int (length (gr_scrollback (grid_of s1))) \<le> lst + 1"
        "lst + 1 \<le> fin + 1" "nat (fin + 1 - (lst + 1)) < nat (fin + 1 - nxt)"
        using s1(1,5,6) less.prems(1,2) by simp_all
      have len: "length (history_lines ?g nxt lst) = nat (lst - nxt + 1)"
      proof (rule history_lines_nth(2) [OF less.prems(2)])
        show "lst < int (length (gr_rows ?g))" using s1(6) assms(4) less.prems(1) by linarith
        show "0 < nat (lst - nxt + 1)" using s1(5) by linarith
      qed
      obtain s' where s': "\<forall>n. screen_set_scrollback n s' = screen_set_scrollback n s1"
        "yank_loop y rows (lst + 1) fin (idx + nat (lst - nxt + 1)) s1 (t @ u) =
          map_option (\<lambda>v. (s', (t @ u) @ v)) (lines_text y (history_lines (grid_of s1) (lst + 1) fin) (idx + nat (lst - nxt + 1)))"
        using less.hyps [OF g1(4,1,2,3), of "idx + nat (lst - nxt + 1)" "t @ u"] by blast
      have "\<forall>n. screen_set_scrollback n s' = screen_set_scrollback n s" using s'(1) s1(1) by simp
      moreover have "yank_loop y rows nxt fin idx s t =
          map_option (\<lambda>u. (s', t @ u)) (lines_text y (history_lines ?g nxt fin) idx)"
        unfolding step split lines_text_append Some len option.case option.map s'(2)
        by (simp add: s1(1) option.map_comp comp_def)
      ultimately show ?thesis by blast
    qed
  qed
qed

text \<open>C13: A yank takes the selected lines of the history of the terminal, scrollback and screen, in
  their order and each once, cut to the selected columns: it does not matter how far the view was
  scrolled when the selection began, nor how many screenfuls it spans, and the view stays where
  it is.\<close>

theorem yank_reads_history:
  assumes "active_pane_of a = Some (Some p)" "cm_anchor a = Some anchor" "cm_pos a = Some pos"
    "length (gr_rows (grid_of (cm_terms a (pane_id p)))) = last_rows p" "last_rows p < 65536" "0 < last_rows p"
    "selection_lines a anchor pos = (an, cu)" "max an cu < int (last_rows p)"
    "- int (length (gr_scrollback (grid_of (cm_terms a (pane_id p))))) \<le> min an cu"
  shows "yank_selection a =
    map_option
      (\<lambda>t. store_yank t (set_term (pane_id p) (screen_set_scrollback (cm_scroll a) (cm_terms a (pane_id p))) a))
      (lines_text (yank_spec_of a p anchor pos)
         (history_lines (grid_of (cm_terms a (pane_id p))) (min an cu) (max an cu)) 0)"
proof -
  let ?s = "cm_terms a (pane_id p)" and ?y = "yank_spec_of a p anchor pos"
  have le: "min an cu \<le> max an cu + 1" by linarith
  obtain s' where s': "\<forall>n. screen_set_scrollback n s' = screen_set_scrollback n ?s"
    "yank_loop ?y (last_rows p) (min an cu) (max an cu) 0 ?s [] =
      map_option (\<lambda>u. (s', [] @ u)) (lines_text ?y (history_lines (grid_of ?s) (min an cu) (max an cu)) 0)"
    using yank_loop_lines [OF assms(4,5,6,8,9) le] by blast
  show ?thesis
    unfolding yank_selection_def assms(2,3) prod.case option.case on_pane_def assms(1) assms(7) Let_def s'(2)
    by (simp add: option.map_comp comp_def s'(1))
qed

lemma demo_row_span:
  assumes "\<forall>c\<in>set cols. c < length l \<and> (of_char (l ! c) :: nat) < 128 \<and> l ! c \<noteq> CHR '' ''"
  shows "row_span \<lparr>vr_cells = map demo_cell l, vr_wrapped = w\<rparr> cols = Some (map (\<lambda>c. of_char (l ! c)) cols)"
proof -
  let ?f = "\<lambda>c. case row_get \<lparr>vr_cells = map demo_cell l, vr_wrapped = w\<rparr> c of None \<Rightarrow> Some [32] | Some v \<Rightarrow> from_utf8 (cell_contents v)"
  have "?f c = Some [of_char (l ! c)]" if "c \<in> set cols" for c
    using assms that by (simp add: row_get_def get_def demo_cell_text)
  then have "those (map ?f cols) = Some (map (\<lambda>c. [of_char (l ! c)]) cols)" by (intro those_map) blast
  moreover have "concat (map (\<lambda>c. [of_char (l ! c)]) cols) = map (\<lambda>c. of_char (l ! c)) cols" for l :: string
    by (induction cols) auto
  ultimately show ?thesis by (simp add: row_span_def)
qed

theorem yank_reads_history_witness:
  "\<exists>b. yank_selection ((demo_single [''ab''] [''cd''])\<lparr>cm_anchor := Some (0, 0), cm_anchor_scroll := 1, cm_pos := Some (0, 1)\<rparr>) = Some b \<and>
    cm_buffers b = [[97, 98, 10, 99, 100]]"
proof -
  let ?a = "(demo_single [''ab''] [''cd''])\<lparr>cm_anchor := Some (0, 0), cm_anchor_scroll := 1, cm_pos := Some (0, 1)\<rparr>"
  let ?p = "demo_pane 1 1 2"
  let ?row = "\<lambda>l. \<lparr>vr_cells = map demo_cell l, vr_wrapped = False\<rparr>"
  have f: "cm_scroll ?a = 0" "cm_selection ?a = SelChar" "cm_buffers ?a = []" "cm_anchor_scroll ?a = 1"
    "cm_terms ?a 1 = demo_screen [''ab''] [''cd'']"
    by (simp_all add: demo_single_def demo_server_def)
  have ap: "active_pane_of ?a = Some (Some ?p)"
    by (simp add: active_pane_of_def demo_single_def demo_server_def demo_window_def active_window_def
        active_pane_mut_def demo_pane_def eval_nat_numeral)
  have g: "gr_rows (grid_of (cm_terms ?a (pane_id ?p))) = [?row ''cd'']"
    "gr_scrollback (grid_of (cm_terms ?a (pane_id ?p))) = [?row ''ab'']"
    unfolding demo_single_pane(2) f(5) by (simp_all add: demo_grid)
  have sel: "selection_lines ?a (0, 0) (0, 1) = (- 1, 0)" unfolding selection_lines_def f by simp
  have lines: "history_lines (grid_of (cm_terms ?a (pane_id ?p))) (- 1) 0 = [?row ''ab'', ?row ''cd'']"
    unfolding history_lines_def history_def g by simp
  have y: "yank_spec_of ?a ?p (0, 0) (0, 1) =
      \<lparr>ys_mode = SelChar, ys_lo = 0, ys_hi = 1, ys_top_col = 0, ys_bot_col = 1, ys_cols = 2, ys_total = 2\<rparr>"
    unfolding yank_spec_of_def sel prod.case f by (simp add: demo_pane_def)
  have sp: "row_span (?row ''ab'') [0, 1] = Some [97, 98]" "row_span (?row ''cd'') [0, 1] = Some [99, 100]"
    by (subst demo_row_span; simp)+
  have mm: "min (- 1) 0 = (- 1 :: int)" "max (- 1) 0 = (0 :: int)" by simp_all
  have lt: "lines_text (yank_spec_of ?a ?p (0, 0) (0, 1)) (history_lines (grid_of (cm_terms ?a (pane_id ?p))) (min (- 1) 0) (max (- 1) 0)) 0
      = Some [97, 98, 10, 99, 100]"
    unfolding mm lines y using sp by (simp add: yank_line_def upt_rec trim_end_def white_def newline_def)
  have "yank_selection ?a = Some (store_yank [97, 98, 10, 99, 100]
      (set_term (pane_id ?p) (screen_set_scrollback (cm_scroll ?a) (cm_terms ?a (pane_id ?p))) ?a))"
    using yank_reads_history [OF ap _ _ _ _ _ sel, unfolded lt option.map] g by simp
  then show ?thesis by (simp add: store_yank_def push_buffer_def set_term_def demo_single_def demo_server_def)
qed

end
