(* ===== verification/Copy_Brackets.thy ===== *)
theory Copy_Brackets
  imports Copy_Words
begin

text \<open>
  The jump to the matching bracket: the scan over the cells of the pane ends, and the jump back
  from the bracket it finds ends where it began.
\<close>

section \<open>The depth along a line\<close>

text \<open>Where a depth that starts at \<open>d\<close> and changes by the given steps first becomes zero.\<close>

fun first_zero :: "int \<Rightarrow> int list \<Rightarrow> nat option" where
  "first_zero d [] = None"
| "first_zero d (w # ws) = (if d + w = 0 then Some 0 else map_option Suc (first_zero (d + w) ws))"

lemma first_zero_Some:
  "first_zero d ws = Some i \<longleftrightarrow>
     i < length ws \<and> d + sum_list (take (Suc i) ws) = 0 \<and> (\<forall>m<i. d + sum_list (take (Suc m) ws) \<noteq> 0)"
proof (induction ws arbitrary: d i)
  case (Cons w ws)
  show ?case
  proof (cases i)
    case 0
    then show ?thesis by (auto split: if_splits)
  next
    case (Suc k)
    have "(\<forall>m<Suc k. d + sum_list (take (Suc m) (w # ws)) \<noteq> 0) \<longleftrightarrow>
        d + w \<noteq> 0 \<and> (\<forall>m<k. d + w + sum_list (take (Suc m) ws) \<noteq> 0)"
      by (auto simp: add.assoc less_Suc_eq_0_disj)
    then show ?thesis using Suc Cons.IH [of "d + w" k] by (auto simp: add.assoc)
  qed
qed simp

definition small_steps :: "int list \<Rightarrow> bool" where
  "small_steps ws = (\<forall>w\<in>set ws. - 1 \<le> w \<and> w \<le> 1)"

text \<open>Before it is zero, the depth is positive: it cannot jump over zero.\<close>

lemma depth_positive:
  assumes "small_steps ws" "0 < d" "\<forall>m<i. d + sum_list (take (Suc m) ws) \<noteq> 0" "i \<le> length ws" "m \<le> i"
  shows "0 < d + sum_list (take m ws)"
  using assms(5)
proof (induction m)
  case (Suc m)
  then have "0 < d + sum_list (take m ws)" "m < length ws" using assms(4) by simp_all
  moreover have "- 1 \<le> ws ! m" using assms(1) \<open>m < length ws\<close> by (auto simp: small_steps_def)
  ultimately have "0 \<le> d + sum_list (take (Suc m) ws)" by (simp add: take_Suc_conv_app_nth)
  moreover have "d + sum_list (take (Suc m) ws) \<noteq> 0" using assms(3) Suc.prems by simp
  ultimately show ?case by linarith
qed (use assms(2) in simp)

text \<open>The way back sees the steps reversed and negated, and then the first bracket.\<close>

lemma first_zero_back:
  assumes "small_steps ws" "first_zero 1 ws = Some i"
  shows "ws ! i = - 1" "first_zero 1 (map uminus (rev (take i ws)) @ (- 1) # rest) = Some i"
proof -
  have i: "i < length ws" "1 + sum_list (take (Suc i) ws) = 0" "\<forall>m<i. 1 + sum_list (take (Suc m) ws) \<noteq> 0"
    using assms(2) by (simp_all add: first_zero_Some)
  have pos: "0 < 1 + sum_list (take m ws)" if "m \<le> i" for m
    using depth_positive [OF assms(1) _ i(3) _ that] i(1) by simp
  have w: "sum_list (take (Suc i) ws) = sum_list (take i ws) + ws ! i" using i(1) by (simp add: take_Suc_conv_app_nth)
  have "- 1 \<le> ws ! i" using assms(1) i(1) by (auto simp: small_steps_def)
  moreover have "0 < 1 + sum_list (take i ws)" using pos by simp
  ultimately show last: "ws ! i = - 1" using w i(2) by linarith
  then have whole: "sum_list (take i ws) = 0" using w i(2) by linarith
  let ?b = "map uminus (rev (take i ws)) @ (- 1) # rest"
  have part: "sum_list (take m ?b) = sum_list (take (i - m) ws)" if "m \<le> i" for m
  proof -
    have "take m ?b = map uminus (rev (drop (i - m) (take i ws)))"
      using i(1) that by (simp add: take_map take_rev)
    then have "sum_list (take m ?b) = - sum_list (drop (i - m) (take i ws))"
      by (simp add: uminus_sum_list_map [symmetric, where f = id, simplified] sum_list_rev)
    moreover have "sum_list (take i ws) = sum_list (take (i - m) ws) + sum_list (drop (i - m) (take i ws))"
      using that by (metis append_take_drop_id diff_le_self min_def sum_list_append take_take)
    ultimately show ?thesis using whole by linarith
  qed
  have "sum_list (take (Suc i) ?b) = - 1"
    using part [of i] i(1) by (simp add: take_Suc_conv_app_nth nth_append)
  moreover have "1 + sum_list (take (Suc m) ?b) \<noteq> 0" if "m < i" for m
    using part [of "Suc m"] pos [of "i - Suc m"] that by simp
  moreover have "i < length ?b" using i(1) by simp
  ultimately show "first_zero 1 ?b = Some i" unfolding first_zero_Some by simp
qed

section \<open>The scans\<close>

definition depth_step :: "nat \<Rightarrow> nat \<Rightarrow> nat \<Rightarrow> int" where
  "depth_step op cl x = (if x = op then 1 else if x = cl then - 1 else 0)"

text \<open>The cells of the pane in one line.\<close>

definition cell_at :: "nat \<Rightarrow> nat \<Rightarrow> cell_pos" where
  "cell_at cols k = (k div cols, k mod cols)"

definition line_of_cells :: "(nat \<Rightarrow> nat \<Rightarrow> nat option) \<Rightarrow> nat \<Rightarrow> nat \<Rightarrow> (nat \<Rightarrow> nat) \<Rightarrow> bool" where
  "line_of_cells ch rows cols f = (\<forall>r<rows. \<forall>c<cols. ch r c = Some (f (r * cols + c)))"

lemma cell_at_pos: "c < cols \<Longrightarrow> cell_at cols (r * cols + c) = (r, c)"
  by (simp add: cell_at_def)

lemma scan_forward_line:
  assumes "line_of_cells ch rows cols f" "op \<noteq> cl" "r < rows" "c < cols"
  shows "scan_forward ch op cl rows cols r c d =
    Some (map_option (\<lambda>i. cell_at cols (r * cols + c + 1 + i))
      (first_zero d (map (\<lambda>k. depth_step op cl (f k)) [r * cols + c + 1 ..< rows * cols])))"
  using assms
proof (induction ch op cl rows cols r c d rule: scan_forward.induct)
  case (1 ch op cl rows cols cr cc d)
  let ?k = "cr * cols + cc + 1"
  obtain cr1 cc1 where n: "(if cc + 1 \<ge> cols then (cr + 1, 0) else (cr, cc + 1)) = (cr1, cc1)" by fastforce
  have cc1: "cc1 < cols" using n 1(5) by (auto split: if_splits)
  have k1: "cr1 * cols + cc1 = ?k" using n 1(5) by (auto split: if_splits)
  note step = scan_forward.simps [of ch op cl rows cols cr cc d, unfolded n Let_def prod.case]
  show ?case
  proof (cases "cr1 \<ge> rows")
    case True
    then have "cr1 = cr + 1" "cc1 = 0" "rows = cr + 1" using n 1(4) by (auto split: if_splits)
    then have "rows * cols = ?k" using k1 by simp
    then show ?thesis using True unfolding step by simp
  next
    case False
    have "cr1 * cols + cc1 < cr1 * cols + cols" using cc1 by simp
    also have "\<dots> = (cr1 + 1) * cols" by simp
    also have "\<dots> \<le> rows * cols" using False by (intro mult_le_mono1) simp
    finally have lt: "?k < rows * cols" using k1 by simp
    then have upt: "[?k ..< rows * cols] = ?k # [?k + 1 ..< rows * cols]" by (simp add: upt_conv_Cons)
    have x: "ch cr1 cc1 = Some (f ?k)" using 1(2) False cc1 k1 by (auto simp: line_of_cells_def)
    let ?d1 = "if f ?k = op then d + 1 else d"
    let ?d2 = "if f ?k = cl then ?d1 - 1 else ?d1"
    let ?e = "d + depth_step op cl (f ?k)"
    have d2: "?d2 = ?e" using 1(3) by (auto simp: depth_step_def)
    have pos: "cell_at cols ?k = (cr1, cc1)" using cell_at_pos [OF cc1, of cr1] unfolding k1 .
    have here: "scan_forward ch op cl rows cols cr cc d =
        (if ?e = 0 then Some (Some (cr1, cc1)) else scan_forward ch op cl rows cols cr1 cc1 ?e)"
      unfolding step x option.case d2 using False by (simp only: if_False)
    show ?thesis
    proof (cases "?e = 0")
      case True
      then show ?thesis unfolding here upt by (simp add: pos [simplified])
    next
      case nz: False
      have "scan_forward ch op cl rows cols cr1 cc1 ?e =
          Some (map_option (\<lambda>i. cell_at cols (?k + 1 + i))
            (first_zero ?e (map (\<lambda>k. depth_step op cl (f k)) [?k + 1 ..< rows * cols])))"
        using "1.IH" [OF n [symmetric] refl _ x refl refl _ 1(2,3) _ cc1, unfolded d2 k1] False nz by simp
      then show ?thesis using nz unfolding here upt by (simp add: option.map_comp comp_def)
    qed
  qed
qed

lemma scan_backward_line:
  assumes "line_of_cells ch rows cols f" "op \<noteq> cl" "r < rows" "c < cols"
  shows "scan_backward ch op cl cols r c d =
    Some (map_option (\<lambda>i. cell_at cols (r * cols + c - 1 - i))
      (first_zero d (map (\<lambda>k. - depth_step op cl (f k)) (rev [0 ..< r * cols + c]))))"
  using assms
proof (induction ch op cl cols r c d rule: scan_backward.induct)
  case (1 ch op cl cols cr cc d)
  let ?k = "cr * cols + cc - 1"
  show ?case
  proof (cases "cc = 0 \<and> cr = 0")
    case True
    then show ?thesis by (subst scan_backward.simps) simp
  next
    case False
    obtain cr1 cc1 where n: "(if cc = 0 then (cr - 1, cols - 1) else (cr, cc - 1)) = (cr1, cc1)" by fastforce
    have "cr1 < rows \<and> cc1 < cols \<and> cr1 * cols + cc1 = ?k"
    proof (cases "cc = 0")
      case True
      then obtain q where q: "cr = Suc q" using False by (cases cr) auto
      have "cr1 = q" "cc1 = cols - 1" using n True q by simp_all
      then show ?thesis using q True 1(4,5) by simp
    qed (use n 1(4,5) in auto)
    then have cr1: "cr1 < rows" and cc1: "cc1 < cols" and k1: "cr1 * cols + cc1 = ?k" by simp_all
    have x: "ch cr1 cc1 = Some (f ?k)" using 1(2) cr1 cc1 unfolding line_of_cells_def k1 [symmetric] by blast
    have gt: "cr * cols + cc = Suc ?k" using False 1(5) by auto
    have upt: "rev [0 ..< cr * cols + cc] = ?k # rev [0 ..< ?k]"
    proof -
      have "rev [0 ..< Suc ?k] = ?k # rev [0 ..< ?k]" by simp
      then show ?thesis by (simp only: gt [symmetric])
    qed
    note step = scan_backward.simps [of ch op cl cols cr cc d, unfolded n Let_def prod.case]
    let ?d1 = "if f ?k = op then d - 1 else d"
    let ?d2 = "if f ?k = cl then ?d1 + 1 else ?d1"
    let ?e = "d + - depth_step op cl (f ?k)"
    have d2: "?d2 = ?e" using 1(3) by (auto simp: depth_step_def)
    have pos: "cell_at cols ?k = (cr1, cc1)" using cell_at_pos [OF cc1, of cr1] unfolding k1 .
    have here: "scan_backward ch op cl cols cr cc d =
        (if ?e = 0 then Some (Some (cr1, cc1)) else scan_backward ch op cl cols cr1 cc1 ?e)"
      unfolding step x option.case d2 using False by (simp only: if_False)
    show ?thesis
    proof (cases "?e = 0")
      case True
      then show ?thesis unfolding here upt by (simp add: pos [simplified])
    next
      case nz: False
      have "scan_backward ch op cl cols cr1 cc1 ?e =
          Some (map_option (\<lambda>i. cell_at cols (?k - 1 - i))
            (first_zero ?e (map (\<lambda>k. - depth_step op cl (f k)) (rev [0 ..< ?k]))))"
        using "1.IH" [OF False n [symmetric] refl x refl refl _ 1(2,3) cr1 cc1, unfolded d2 k1] nz by simp
      then show ?thesis using nz unfolding here upt by (simp add: option.map_comp comp_def)
    qed
  qed
qed

section \<open>There and back\<close>

lemma brackets:
  assumes "bracket_of x = Some (op, cl, fwd)"
  shows "op \<noteq> cl" "x = (if fwd then op else cl)" "bracket_of op = Some (op, cl, True)" "bracket_of cl = Some (op, cl, False)"
  using assms by (auto simp: bracket_of_def split: if_splits)

lemma small_depth_steps:
  "small_steps (map (\<lambda>k. depth_step op cl (f k)) ks)" "small_steps (map (\<lambda>k. - depth_step op cl (f k)) ks)"
  by (auto simp: small_steps_def depth_step_def)

lemma scan_forward_returns:
  assumes "first_zero 1 (map g [k + 1 ..< n]) = Some i" "small_steps (map g [k + 1 ..< n])" "g k = 1" "k < n"
  shows "k + 1 + i < n" "g (k + 1 + i) = - 1" "first_zero 1 (map (\<lambda>m. - g m) (rev [0 ..< k + 1 + i])) = Some i"
proof -
  let ?ws = "map g [k + 1 ..< n]"
  have len: "i < length ?ws" using assms(1) by (simp only: first_zero_Some)
  then show lt: "k + 1 + i < n" by simp
  note z = first_zero_back [OF assms(2,1)]
  have nth: "?ws ! i = g (k + 1 + i)" using lt by simp
  show "g (k + 1 + i) = - 1" using z(1) unfolding nth .
  have "take i ?ws = map g [k + 1 ..< k + 1 + i]" using lt by (simp add: take_map)
  moreover have "rev [0 ..< k + 1 + i] = rev [k + 1 ..< k + 1 + i] @ k # rev [0 ..< k]"
    using upt_add_eq_append [of 0 "k + 1" i] by simp
  ultimately have "map (\<lambda>m. - g m) (rev [0 ..< k + 1 + i]) =
      map uminus (rev (take i ?ws)) @ (- 1) # map (\<lambda>m. - g m) (rev [0 ..< k])"
    using assms(3) by (simp add: rev_map comp_def)
  then show "first_zero 1 (map (\<lambda>m. - g m) (rev [0 ..< k + 1 + i])) = Some i"
    using z(2) by (simp only:)
qed

lemma scan_backward_returns:
  assumes "first_zero 1 (map (\<lambda>m. - g m) (rev [0 ..< k])) = Some i" "small_steps (map (\<lambda>m. - g m) (rev [0 ..< k]))"
    "g k = - 1" "k < n"
  shows "i < k" "g (k - 1 - i) = 1" "first_zero 1 (map g [k - 1 - i + 1 ..< n]) = Some i"
proof -
  let ?ws = "map (\<lambda>m. - g m) (rev [0 ..< k])"
  have len: "i < length ?ws" using assms(1) by (simp only: first_zero_Some)
  then show lt: "i < k" by simp
  note z = first_zero_back [OF assms(2,1)]
  have nth: "?ws ! i = - g (k - 1 - i)" using lt by (simp add: rev_nth)
  show "g (k - 1 - i) = 1" using z(1) unfolding nth by simp
  have j: "k - 1 - i + 1 = k - i" "k - i < n" "k - i \<le> k" using lt assms(4) by simp_all
  have "take i ?ws = map (\<lambda>m. - g m) (rev [k - i ..< k])" using lt by (simp add: take_map take_rev drop_upt)
  moreover have "[k - i ..< n] = [k - i ..< k] @ k # [k + 1 ..< n]"
    using upt_add_eq_append [of "k - i" k "n - k"] assms(4) by (simp add: upt_conv_Cons)
  ultimately have "map g [k - 1 - i + 1 ..< n] = map uminus (rev (take i ?ws)) @ (- 1) # map g [k + 1 ..< n]"
    using assms(3) unfolding j(1) by (simp add: rev_map comp_def)
  then show "first_zero 1 (map g [k - 1 - i + 1 ..< n]) = Some i" using z(2) by (simp only:)
qed

lemma cell_at_split: "0 < cols \<Longrightarrow> cell_at cols k = (r, c) \<Longrightarrow> c < cols \<and> k = r * cols + c"
  by (auto simp: cell_at_def)

lemma matching_bracket_back:
  assumes line: "line_of_cells (first_char s) rows cols f" and q: "r < rows" "c < cols"
    and m: "matching_bracket s rows cols (r, c) = Some (Some q')"
  shows "fst q' < rows \<and> snd q' < cols \<and> q' \<noteq> (r, c) \<and> matching_bracket s rows cols q' = Some (Some (r, c))"
proof -
  let ?k = "r * cols + c" and ?n = "rows * cols"
  have row: "i * cols + j < ?n" if "i < rows" "j < cols" for i j
  proof -
    have "i * cols + j < (i + 1) * cols" using that(2) by simp
    also have "\<dots> \<le> ?n" using that(1) by (intro mult_le_mono1) simp
    finally show ?thesis .
  qed
  have x: "first_char s r c = Some (f ?k)" using line q by (simp add: line_of_cells_def)
  then obtain op cl fwd where b: "bracket_of (f ?k) = Some (op, cl, fwd)"
    using m by (auto simp: matching_bracket_def split: option.splits)
  note br = brackets [OF b]
  let ?g = "\<lambda>m. depth_step op cl (f m)"
  obtain r' c' where q': "q' = (r', c')" by fastforce
  have inside: "r' < rows" if "k' = r' * cols + c'" "k' < ?n" "c' < cols" for k'
  proof -
    have "r' * cols < rows * cols" using that by linarith
    then show ?thesis by simp
  qed
  have found: ?thesis
    if k': "k' < ?n" "cell_at cols k' = (r', c')" "k' \<noteq> ?k"
      and there: "\<And>x. first_char s r' c' = Some (f k') \<Longrightarrow> matching_bracket s rows cols (r', c') = Some (Some (cell_at cols ?k))" for k'
  proof -
    have s: "c' < cols" "k' = r' * cols + c'" using cell_at_split [OF _ k'(2)] q(2) by auto
    then have "r' < rows" using inside k'(1) by blast
    moreover have "first_char s r' c' = Some (f k')" using line calculation s by (simp add: line_of_cells_def)
    ultimately show ?thesis using there k'(3) s cell_at_pos [OF q(2), of r] unfolding q' by auto
  qed
  show ?thesis
  proof (cases fwd)
    case True
    have "matching_bracket s rows cols (r, c) = scan_forward (first_char s) op cl rows cols r c 1"
      using x b True by (simp add: matching_bracket_def)
    then obtain i where i: "first_zero 1 (map ?g [?k + 1 ..< ?n]) = Some i" "cell_at cols (?k + 1 + i) = (r', c')"
      using m scan_forward_line [OF line br(1) q, of 1] q' by (auto dest!: sym [of "Some (r', c')"])
    have gk: "?g ?k = 1" using br(2) True by (simp add: depth_step_def)
    note ret = scan_forward_returns [OF i(1) small_depth_steps(1) gk row [OF q]]
    have cl: "f (?k + 1 + i) = cl" using ret(2) by (simp add: depth_step_def split: if_splits)
    show ?thesis
    proof (rule found [OF ret(1) i(2)])
      assume y: "first_char s r' c' = Some (f (?k + 1 + i))"
      have s: "c' < cols" "?k + 1 + i = r' * cols + c'" using cell_at_split [OF _ i(2)] q(2) by auto
      have "matching_bracket s rows cols (r', c') = scan_backward (first_char s) op cl cols r' c' 1"
        using y br(4) cl by (simp add: matching_bracket_def)
      also have "\<dots> = Some (map_option (\<lambda>m. cell_at cols (r' * cols + c' - 1 - m))
          (first_zero 1 (map (\<lambda>k. - ?g k) (rev [0 ..< r' * cols + c']))))"
        by (rule scan_backward_line [OF line br(1) inside s(1)]) (use s ret(1) in auto)
      also have "\<dots> = Some (Some (cell_at cols ?k))" unfolding s(2) [symmetric] ret(3) by simp
      finally show "matching_bracket s rows cols (r', c') = Some (Some (cell_at cols ?k))" .
    qed simp
  next
    case False
    have "matching_bracket s rows cols (r, c) = scan_backward (first_char s) op cl cols r c 1"
      using x b False by (simp add: matching_bracket_def)
    then obtain i where i: "first_zero 1 (map (\<lambda>k. - ?g k) (rev [0 ..< ?k])) = Some i" "cell_at cols (?k - 1 - i) = (r', c')"
      using m scan_backward_line [OF line br(1) q, of 1] q' by (auto dest!: sym [of "Some (r', c')"])
    have gk: "?g ?k = - 1" using br(1,2) False by (simp add: depth_step_def)
    note ret = scan_backward_returns [OF i(1) small_depth_steps(2) gk row [OF q]]
    have op: "f (?k - 1 - i) = op" using ret(2) by (simp add: depth_step_def split: if_splits)
    have lt: "?k - 1 - i < ?n" using row [OF q] by linarith
    show ?thesis
    proof (rule found [OF lt i(2)])
      assume y: "first_char s r' c' = Some (f (?k - 1 - i))"
      have s: "c' < cols" "?k - 1 - i = r' * cols + c'" using cell_at_split [OF _ i(2)] q(2) by auto
      have "matching_bracket s rows cols (r', c') = scan_forward (first_char s) op cl rows cols r' c' 1"
        using y br(3) op by (simp add: matching_bracket_def)
      also have "\<dots> = Some (map_option (\<lambda>m. cell_at cols (r' * cols + c' + 1 + m))
          (first_zero 1 (map ?g [r' * cols + c' + 1 ..< ?n])))"
        by (rule scan_forward_line [OF line br(1) inside s(1)]) (use s lt in auto)
      also have "\<dots> = Some (Some (cell_at cols ?k))"
      proof -
        have "?k - 1 - i + 1 + i = ?k" using ret(1) by simp
        then show ?thesis unfolding s(2) [symmetric] ret(3) by (simp only: option.map)
      qed
      finally show "matching_bracket s rows cols (r', c') = Some (Some (cell_at cols ?k))" .
    qed (use ret(1) in simp)
  qed
qed

text \<open>C19: The jump to the matching bracket can be undone: from the bracket it reaches, within the
  pane, the same jump goes back to where it began. So it stops at the bracket that closes the one
  under the cursor, not at one of another pair.\<close>

theorem bracket_jump_returns:
  assumes "active_pane_of a = Some (Some p)" "cm_pos a = Some (r, c)" "r < last_rows p" "c < last_cols p"
    "\<forall>r'<last_rows p. \<forall>c'<last_cols p. first_char (cm_terms a (pane_id p)) r' c' \<noteq> None"
    "move_matching_bracket a = Some b" "b \<noteq> a"
  shows "\<exists>r' c'. cm_pos b = Some (r', c') \<and> r' < last_rows p \<and> c' < last_cols p \<and> (r', c') \<noteq> (r, c) \<and>
    move_matching_bracket b = Some a"
proof -
  let ?s = "cm_terms a (pane_id p)" and ?rows = "last_rows p" and ?cols = "last_cols p"
  let ?f = "\<lambda>k. the (first_char ?s (k div ?cols) (k mod ?cols))"
  have line: "line_of_cells (first_char ?s) ?rows ?cols ?f"
    using assms(5) by (auto simp: line_of_cells_def)
  have jump: "move_matching_bracket x =
      map_option (\<lambda>m. case m of Some t \<Rightarrow> x\<lparr>cm_pos := Some t\<rparr> | None \<Rightarrow> x) (matching_bracket ?s ?rows ?cols q)"
    if "cm_pos x = Some q" "active_pane_of x = Some (Some p)" "cm_terms x = cm_terms a" for x :: copy_server and q
    using that by (simp add: move_matching_bracket_def with_pos_def get_copy_pos_def)
  obtain q' where q': "matching_bracket ?s ?rows ?cols (r, c) = Some (Some q')" "b = a\<lparr>cm_pos := Some q'\<rparr>"
    using assms(6,7) jump [OF assms(2,1) refl] by (auto split: option.splits)
  note m = matching_bracket_back [OF line assms(3,4) q'(1)]
  have "move_matching_bracket b = Some (b\<lparr>cm_pos := Some (r, c)\<rparr>)"
    using jump [of b q'] m assms(1) by (simp add: q'(2))
  moreover have "b\<lparr>cm_pos := Some (r, c)\<rparr> = a" using assms(2) q'(2) by (cases a) simp
  ultimately show ?thesis using m q'(2) by (cases q') auto
qed

theorem bracket_jump_returns_witness:
  "\<exists>b. move_matching_bracket (demo_single [] [''(a())'']) = Some b \<and> cm_pos b = Some (0, 4) \<and>
    move_matching_bracket b = Some (demo_single [] [''(a())''])"
proof -
  let ?l = "''(a())''"
  let ?a = "demo_single [] [?l]" and ?p = "demo_pane 1 1 5" and ?s = "demo_screen [] [?l]"
  let ?f = "\<lambda>k. [40, 97, 40, 41, 41] ! k :: nat"
  have c: "first_char ?s 0 k = Some (?f k)" if "k < 5" for k
  proof -
    have "k = 0 \<or> k = 1 \<or> k = 2 \<or> k = 3 \<or> k = 4" using that by linarith
    then show ?thesis by (elim disjE) (simp_all add: first_char_def demo_screen_cell demo_cell_text)
  qed
  have line: "line_of_cells (first_char ?s) 1 5 ?f" using c by (simp add: line_of_cells_def)
  have "matching_bracket ?s 1 5 (0, 0) = scan_forward (first_char ?s) 40 41 1 5 0 0 1"
    using c [of 0] by (simp add: matching_bracket_def bracket_of_def)
  also have "\<dots> = Some (Some (0, 4))"
    using scan_forward_line [OF line, of 40 41 0 0 1] by (simp add: upt_rec depth_step_def cell_at_def)
  finally have m: "matching_bracket ?s 1 5 (0, 0) = Some (Some (0, 4))" .
  have ap: "active_pane_of ?a = Some (Some ?p)" by (simp add: eval_nat_numeral)
  have b: "move_matching_bracket ?a = Some (?a\<lparr>cm_pos := Some (0, 4)\<rparr>)"
    using m by (simp add: move_matching_bracket_def with_pos_def get_copy_pos_def ap del: demo_single_pane(1))
  have ne: "?a\<lparr>cm_pos := Some (0, 4)\<rparr> \<noteq> ?a" by (simp add: demo_single_def demo_server_def)
  have "\<exists>r' c'. cm_pos (?a\<lparr>cm_pos := Some (0, 4)\<rparr>) = Some (r', c') \<and> r' < 1 \<and> c' < 5 \<and> (r', c') \<noteq> (0, 0) \<and>
      move_matching_bracket (?a\<lparr>cm_pos := Some (0, 4)\<rparr>) = Some ?a"
    using bracket_jump_returns [OF ap _ _ _ _ b ne, of 0 0] c by simp
  with b show ?thesis by auto
qed

end
