(* ===== verification/Copy_Cursor.thy ===== *)
theory Copy_Cursor
  imports Copy_Words Copy_Search Copy_History Copy_Brackets
begin

text \<open>
  Every key of copy mode keeps the cursor in its pane and cannot panic, as long as every cell
  shows at most one character: an instance of the contract \<open>safe_machine\<close>. Where a cell shows
  more, or where matches of another pane are at hand, a motion can panic.
\<close>

section \<open>The invariant\<close>

text \<open>A cell that shows at most one character; white space is ASCII, so that it is one byte.\<close>

definition single_cell :: "vcell \<Rightarrow> bool" where
  "single_cell v = (\<exists>t. from_utf8 (cell_contents v) = Some t \<and> length t \<le> 1 \<and> (\<forall>c\<in>set t. white c \<longrightarrow> c < 128))"

definition single_rows :: "vrow list \<Rightarrow> bool" where
  "single_rows rs = (\<forall>r\<in>set rs. \<forall>v\<in>set (vr_cells r). single_cell v)"

definition pane_fits :: "pane \<Rightarrow> screen \<Rightarrow> bool" where
  "pane_fits p s =
     (0 < last_rows p \<and> last_rows p < 32768 \<and> 0 < last_cols p \<and> last_cols p < 32768 \<and>
      length (gr_rows (grid_of s)) = last_rows p \<and> cur_row (grid_of s) < last_rows p \<and>
      cur_col (grid_of s) \<le> last_cols p \<and> gr_offset (grid_of s) \<le> length (gr_scrollback (grid_of s)) \<and>
      single_rows (history (grid_of s)))"

definition copy_ok :: "pane \<Rightarrow> copy_server \<Rightarrow> bool" where
  "copy_ok p a =
     (active_pane_of a = Some (Some p) \<and> pane_fits p (cm_terms a (pane_id p)) \<and>
      (\<forall>r c. cm_pos a = Some (r, c) \<longrightarrow> r < last_rows p \<and> c \<le> last_cols p) \<and>
      (\<forall>r c. cm_anchor a = Some (r, c) \<longrightarrow> r < last_rows p \<and> c \<le> last_cols p) \<and>
      (\<forall>r c e. (r, c, e) \<in> set (cm_matches a) \<longrightarrow> r < last_rows p \<and> c \<le> last_cols p) \<and>
      (cm_matches a = [] \<or> cm_idx a < length (cm_matches a)))"

text \<open>A command that cannot panic and keeps the invariant.\<close>

definition keeps :: "pane \<Rightarrow> (copy_server \<Rightarrow> copy_server option) \<Rightarrow> bool" where
  "keeps p f = (\<forall>a. copy_ok p a \<longrightarrow> (\<exists>b. f a = Some b \<and> copy_ok p b))"

named_theorems copy_keeps \<open>commands of copy mode that keep the invariant\<close>

lemma keepsD: "keeps p f \<Longrightarrow> copy_ok p a \<Longrightarrow> \<exists>b. f a = Some b \<and> copy_ok p b"
  by (simp add: keeps_def)

lemma keepsI: "(\<And>a. copy_ok p a \<Longrightarrow> \<exists>b. f a = Some b \<and> copy_ok p b) \<Longrightarrow> keeps p f"
  by (simp add: keeps_def)

lemma keeps_bind: "keeps p f \<Longrightarrow> keeps p g \<Longrightarrow> keeps p (\<lambda>a. Option.bind (f a) g)"
  by (fastforce simp: keeps_def)

lemma keeps_repeat: "keeps p f \<Longrightarrow> keeps p (repeat_opt n f)"
  using repeat_opt_inv [of "copy_ok p" f] by (simp add: keeps_def)

lemma keeps_each: "(\<And>x. x \<in> set xs \<Longrightarrow> keeps p (f x)) \<Longrightarrow> keeps p (each_opt f xs)"
  using each_opt_inv [of xs "copy_ok p" f] by (simp add: keeps_def)

lemma copy_okD:
  assumes "copy_ok p a"
  shows "active_pane_of a = Some (Some p)" "pane_fits p (cm_terms a (pane_id p))"
    "cm_pos a = Some (r, c) \<Longrightarrow> r < last_rows p \<and> c \<le> last_cols p"
    "0 < last_rows p" "last_rows p < 32768" "0 < last_cols p" "last_cols p < 32768"
  using assms by (auto simp: copy_ok_def pane_fits_def)

lemma on_pane_ok: "copy_ok p a \<Longrightarrow> on_pane f a = f p a"
  by (simp add: on_pane_def copy_okD(1))

text \<open>The fields the invariant does not look at.\<close>

lemma copy_ok_fields [simp]:
  fixes a :: copy_server
  shows
  "copy_ok p (a\<lparr>cm_mode := m\<rparr>) = copy_ok p a"
  "copy_ok p (a\<lparr>cm_anchor_scroll := n\<rparr>) = copy_ok p a" "copy_ok p (a\<lparr>cm_scroll := n\<rparr>) = copy_ok p a"
  "copy_ok p (a\<lparr>cm_selection := k\<rparr>) = copy_ok p a" "copy_ok p (a\<lparr>cm_query := t\<rparr>) = copy_ok p a"
  "copy_ok p (a\<lparr>cm_count := o1\<rparr>) = copy_ok p a" "copy_ok p (a\<lparr>cm_forward := b\<rparr>) = copy_ok p a"
  "copy_ok p (a\<lparr>cm_find := o1\<rparr>) = copy_ok p a" "copy_ok p (a\<lparr>cm_object := o1\<rparr>) = copy_ok p a"
  "copy_ok p (a\<lparr>cm_reg_pending := b\<rparr>) = copy_ok p a" "copy_ok p (a\<lparr>cm_register := o1\<rparr>) = copy_ok p a"
  "copy_ok p (a\<lparr>cm_copies := cs\<rparr>) = copy_ok p a" "copy_ok p (a\<lparr>cm_registers := rs\<rparr>) = copy_ok p a"
  "copy_ok p (a\<lparr>cm_buffers := bs\<rparr>) = copy_ok p a" "copy_ok p (a\<lparr>cm_clipboard := cl\<rparr>) = copy_ok p a"
  "copy_ok p (a\<lparr>cm_osc52 := cl\<rparr>) = copy_ok p a" "copy_ok p (a\<lparr>cm_piped := pt\<rparr>) = copy_ok p a"
  by (simp_all add: copy_ok_def active_pane_of_def)

lemma copy_ok_pos [simp]: "copy_ok p a \<Longrightarrow> r < last_rows p \<Longrightarrow> c \<le> last_cols p \<Longrightarrow> copy_ok p (a\<lparr>cm_pos := Some (r, c)\<rparr>)"
  by (simp add: copy_ok_def active_pane_of_def)

lemma copy_ok_none [simp]:
  "copy_ok p a \<Longrightarrow> copy_ok p (a\<lparr>cm_pos := None\<rparr>)" "copy_ok p a \<Longrightarrow> copy_ok p (a\<lparr>cm_anchor := None\<rparr>)"
  by (simp_all add: copy_ok_def active_pane_of_def)

lemma copy_ok_anchor [simp]:
  "copy_ok p a \<Longrightarrow> r < last_rows p \<Longrightarrow> c \<le> last_cols p \<Longrightarrow> copy_ok p (a\<lparr>cm_anchor := Some (r, c)\<rparr>)"
  by (simp add: copy_ok_def active_pane_of_def)

lemma copy_ok_goto [simp]: "copy_ok p a \<Longrightarrow> r < last_rows p \<Longrightarrow> c \<le> last_cols p \<Longrightarrow> copy_ok p (goto r c a)"
  using copy_okD(7) [of p a] by (simp add: goto_def)

lemma fits_scrollback [simp]: "pane_fits p s \<Longrightarrow> pane_fits p (screen_set_scrollback n s)"
  by (simp add: pane_fits_def) (simp add: set_scrollback_def)

lemma copy_ok_term: "copy_ok p a \<Longrightarrow> pane_fits p s \<Longrightarrow> copy_ok p (set_term (pane_id p) s a)"
  by (simp add: copy_ok_def set_term_def active_pane_of_def)

lemma copy_ok_scroll [simp]: "copy_ok p a \<Longrightarrow> copy_ok p (scroll_term n p a)"
  using copy_ok_term [of p a] fits_scrollback [OF copy_okD(2), of p a] by (simp add: scroll_term_def Let_def)

section \<open>Reading\<close>

lemma single_text:
  assumes "pane_fits p s"
  shows "\<exists>t. cell_text pad s r c = Some t \<and> length t \<le> 1 \<and> (pad \<longrightarrow> length t = 1) \<and> (\<forall>x\<in>set t. white x \<longrightarrow> x < 128)"
proof (cases "screen_cell s r c")
  case None
  then show ?thesis by (simp add: cell_text_def)
next
  case (Some v)
  then obtain row where row: "get (visible_rows (grid_of s)) r = Some row" "row_get row c = Some v"
    by (auto simp: screen_cell_def visible_cell_def split: Option.bind_splits)
  have "gr_offset (grid_of s) \<le> length (gr_scrollback (grid_of s))" using assms by (simp add: pane_fits_def)
  then have "set (visible_rows (grid_of s)) \<subseteq> set (history (grid_of s))"
    by (auto simp: visible_window dest: in_set_takeD in_set_dropD)
  moreover have "row \<in> set (visible_rows (grid_of s))" using row(1) by (auto simp: get_Some)
  moreover have "v \<in> set (vr_cells row)" using row(2) by (auto simp: row_get_def get_Some)
  ultimately have "single_cell v" using assms by (auto simp: pane_fits_def single_rows_def)
  then obtain t where t: "from_utf8 (cell_contents v) = Some t" "length t \<le> 1" "\<forall>x\<in>set t. white x \<longrightarrow> x < 128"
    by (auto simp: single_cell_def)
  then have "cell_text pad s r c = Some (if pad \<and> t = [] then [32] else t)" using Some by (simp add: cell_text_def)
  moreover have "length t = 0 \<or> length t = 1" using t(2) by linarith
  ultimately show ?thesis using t(3) by (cases t) auto
qed

lemma single_span:
  assumes "pane_fits p s"
  shows "\<exists>t. span_text pad s r cols = Some t \<and> (pad \<longrightarrow> length t = length cols) \<and> (\<forall>x\<in>set t. white x \<longrightarrow> x < 128)"
proof -
  obtain f where f: "\<And>c. cell_text pad s r c = Some (f c) \<and> (pad \<longrightarrow> length (f c) = 1) \<and> (\<forall>x\<in>set (f c). white x \<longrightarrow> x < 128)"
    using single_text [OF assms, of pad r] by metis
  then have "those (map (cell_text pad s r) cols) = Some (map f cols)" by (intro those_map) blast
  moreover have "pad \<longrightarrow> length (concat (map f cols)) = length cols" using f by (induction cols) auto
  ultimately show ?thesis using f by (auto simp: span_text_def)
qed

lemma read_row_ok:
  assumes "copy_ok p a"
  shows "\<exists>t. read_row_text r a = Some (Some (t, last_cols p)) \<and> length t = last_cols p \<and> (\<forall>x\<in>set t. white x \<longrightarrow> x < 128)"
  using single_span [OF copy_okD(2) [OF assms], of True r "[0 ..< last_cols p]"] copy_okD(1) [OF assms]
  by (auto simp: read_row_text_def)

lemma get_pos_ok:
  assumes "copy_ok p a"
  shows "\<exists>r c. get_copy_pos a = Some (Some (r, c)) \<and> r < last_rows p \<and> c \<le> last_cols p"
proof (cases "cm_pos a")
  case None
  then show ?thesis
    using copy_okD(1,2) [OF assms]
    by (simp add: get_copy_pos_def current_prompt_pos_def cursor_position_def pane_fits_def)
next
  case (Some q)
  then show ?thesis using copy_okD(3) [OF assms] by (cases q) (simp add: get_copy_pos_def)
qed

lemma keeps_with_pos:
  assumes "\<And>r c a. copy_ok p a \<Longrightarrow> r < last_rows p \<Longrightarrow> c \<le> last_cols p \<Longrightarrow> \<exists>b. f (r, c) a = Some b \<and> copy_ok p b"
  shows "keeps p (with_pos f)"
proof (rule keepsI)
  fix a assume a: "copy_ok p a"
  from get_pos_ok [OF this] obtain r c where q: "get_copy_pos a = Some (Some (r, c))" "r < last_rows p" "c \<le> last_cols p" by blast
  then show "\<exists>b. with_pos f a = Some b \<and> copy_ok p b" using assms [OF a q(2,3)] by (simp add: with_pos_def)
qed

lemma keeps_with_row:
  assumes "\<And>r c t a. copy_ok p a \<Longrightarrow> r < last_rows p \<Longrightarrow> c \<le> last_cols p \<Longrightarrow> length t = last_cols p \<Longrightarrow>
    \<forall>x\<in>set t. white x \<longrightarrow> x < 128 \<Longrightarrow> \<exists>b. f (r, c) t (last_cols p) a = Some b \<and> copy_ok p b"
  shows "keeps p (with_row f)"
  unfolding with_row_def
proof (rule keeps_with_pos)
  fix r c a assume a: "copy_ok p a" "r < last_rows p" "c \<le> last_cols p"
  from read_row_ok [OF a(1), of r] obtain t where t: "read_row_text r a = Some (Some (t, last_cols p))"
    "length t = last_cols p" "\<forall>x\<in>set t. white x \<longrightarrow> x < 128" by blast
  then show "\<exists>b. (case read_row_text (fst (r, c)) a of None \<Rightarrow> None | Some None \<Rightarrow> Some a
      | Some (Some (t, cols)) \<Rightarrow> f (r, c) t cols a) = Some b \<and> copy_ok p b"
    using assms [OF a t(2,3)] by simp
qed

section \<open>The motions\<close>

lemma keeps_move [copy_keeps]: "keeps p (move_copy_cursor dx dy)"
proof (rule keepsI)
  fix a assume a: "copy_ok p a"
  note d = copy_okD(4-7) [OF a]
  let ?s = "cm_terms a (pane_id p)"
  obtain r c where q: "(case cm_pos a of Some q \<Rightarrow> q | None \<Rightarrow> cursor_position ?s) = (r, c)" by fastforce
  let ?nc = "as_u16 (min (max (wrap_i16 (as_i16 c + dx)) 0) (wrap_i16 (as_i16 (last_cols p) - 1)))"
  let ?des = "wrap_i16 (as_i16 r + dy)"
  have "wrap_i16 (as_i16 (last_cols p) - 1) = int (last_cols p) - 1" using d by (simp add: wrap_i16_small)
  then have "0 \<le> min (max (wrap_i16 (as_i16 c + dx)) 0) (wrap_i16 (as_i16 (last_cols p) - 1))"
    "min (max (wrap_i16 (as_i16 c + dx)) 0) (wrap_i16 (as_i16 (last_cols p) - 1)) \<le> int (last_cols p) - 1" using d by auto
  then have nc: "?nc \<le> last_cols p"
    unfolding as_u16_def using d by (subst mod_pos_pos_trivial) simp_all
  have row: "as_u16 ?des < last_rows p" if "\<not> ?des < 0" "\<not> as_i16 (last_rows p) \<le> ?des"
  proof -
    have b: "0 \<le> ?des" "?des < int (last_rows p)" using that d by simp_all
    then show ?thesis unfolding as_u16_def using d by (subst mod_pos_pos_trivial) simp_all
  qed
  have "move_copy_cursor dx dy a = Some (
         if ?des < 0 then
           (scroll_term (sat_usize (scrollback_of ?s + as_usize (wrap_i16 (- ?des)))) p a)\<lparr>cm_pos := Some (0, ?nc)\<rparr>
         else if ?des \<ge> as_i16 (last_rows p) then
           (let lines = as_usize (wrap_i16 (wrap_i16 (?des - as_i16 (last_rows p)) + 1))
            in if scrollback_of ?s > 0 then (scroll_term (scrollback_of ?s - lines) p a)\<lparr>cm_pos := Some (last_rows p - 1, ?nc)\<rparr>
               else a\<lparr>cm_pos := Some (last_rows p - 1, ?nc)\<rparr>)
         else a\<lparr>cm_pos := Some (as_u16 ?des, ?nc)\<rparr>)" (is "_ = Some ?b")
    unfolding move_copy_cursor_def on_pane_ok [OF a] Let_def q prod.case ..
  moreover have "copy_ok p ?b" using a nc row d by (simp add: Let_def)
  ultimately show "\<exists>b. move_copy_cursor dx dy a = Some b \<and> copy_ok p b" by blast
qed

lemma keeps_on_pane:
  "(\<And>a. copy_ok p a \<Longrightarrow> \<exists>b. f p a = Some b \<and> copy_ok p b) \<Longrightarrow> keeps p (on_pane f)"
  by (rule keepsI) (simp add: on_pane_ok)

lemma keeps_scrolls [copy_keeps]:
  "keeps p (scroll_copy_up n)" "keeps p (scroll_copy_down n)" "keeps p scroll_to_top" "keeps p scroll_to_bottom"
  unfolding scroll_copy_up_def scroll_copy_down_def scroll_to_top_def scroll_to_bottom_def
  by (rule keeps_on_pane, simp)+

lemma keeps_exit [copy_keeps]: "keeps p exit_copy_mode"
proof (rule keepsI)
  fix a :: copy_server assume a: "copy_ok p a"
  let ?a = "a\<lparr>cm_mode := Passthrough, cm_anchor := None, cm_pos := None, cm_scroll := 0\<rparr>"
  have ok: "copy_ok p ?a" using a by simp
  have t: "copy_ok p (?a\<lparr>cm_copies := (cm_copies ?a)(pane_id p := None)\<rparr>)" using ok by simp
  have "pane_fits p (screen_set_scrollback 0 (cm_terms ?a (pane_id p)))" using copy_okD(2) [OF a] by simp
  from copy_ok_term [OF t this] show "\<exists>b. exit_copy_mode a = Some b \<and> copy_ok p b"
    unfolding exit_copy_mode_def on_pane_ok [OF ok] by blast
qed

lemma pane_rows_ok: "copy_ok p a \<Longrightarrow> pane_rows a = last_rows p"
  by (simp add: pane_rows_def copy_okD(1))

lemma keeps_lines [copy_keeps]:
  "keeps p move_to_line_start" "keeps p move_to_line_end" "keeps p move_to_screen_top"
  "keeps p move_to_screen_middle" "keeps p move_to_screen_bottom"
proof -
  show "keeps p move_to_line_start"
    unfolding move_to_line_start_def by (rule keeps_with_pos) simp
  show "keeps p move_to_line_end"
    unfolding move_to_line_end_def by (rule keeps_with_pos) (simp add: on_pane_ok)
  show "keeps p move_to_screen_top" "keeps p move_to_screen_middle" "keeps p move_to_screen_bottom"
    unfolding move_to_screen_top_def move_to_screen_middle_def move_to_screen_bottom_def
    by (rule keepsI, simp add: pane_rows_ok copy_okD(4) copy_ok_goto)+
qed

lemma first_nonblank_bound:
  assumes "\<forall>x\<in>set t. white x \<longrightarrow> x < 128"
  shows "first_nonblank t \<le> length t"
proof -
  have w: "\<forall>x\<in>set (takeWhile white t). x < 128" using assms by (auto dest: set_takeWhileD)
  have "length (utf8_text ts) = length ts" if "\<forall>x\<in>set ts. x < 128" for ts
    using that by (induction ts) (auto simp: utf8_text_def utf8_def)
  from this [OF w] show ?thesis using length_takeWhile_le [of white t] by (simp add: first_nonblank_def)
qed

lemma keeps_nonblank [copy_keeps]: "keeps p move_to_first_nonblank"
  unfolding move_to_first_nonblank_def
  by (rule keeps_with_row) (use first_nonblank_bound in fastforce)

lemma keeps_forward:
  assumes "\<And>t. next_row t \<le> length t"
  shows "keeps p (forward_motion inrow next_row)"
  unfolding forward_motion_def
proof (rule keeps_with_row)
  fix r c t a assume a: "copy_ok p a" "r < last_rows p" "c \<le> last_cols p"
  let ?nr = "min (add16 r 1) (pane_rows a - 1)"
  have nr: "?nr < last_rows p" using copy_okD(4) [OF a(1)] pane_rows_ok [OF a(1)] by simp
  obtain t' where t': "read_row_text ?nr a = Some (Some (t', last_cols p))" "length t' = last_cols p"
    using read_row_ok [OF a(1)] by blast
  have "next_row t' \<le> last_cols p" using assms [of t'] t'(2) by simp
  then show "\<exists>b. (case (r, c) of (r, c) \<Rightarrow> \<lambda>t cols a.
       let col = inrow t c; nr = min (add16 r 1) (pane_rows a - 1)
       in if col < cols then Some (goto r col a)
          else if nr \<noteq> r then
            (case read_row_text nr a of None \<Rightarrow> None | Some None \<Rightarrow> Some (goto nr 0 a)
             | Some (Some (t', _)) \<Rightarrow> Some (goto nr (next_row t') a))
          else Some a) t (last_cols p) a = Some b \<and> copy_ok p b"
    using a nr t'(1) by (simp add: Let_def)
qed

lemma keeps_backward:
  assumes "\<And>t c. c \<le> length t \<Longrightarrow> \<exists>k. inrow t c = Some k \<and> k \<le> c"
    "\<And>t n. 0 < n \<Longrightarrow> n \<le> length t \<Longrightarrow> \<exists>k. prev_row t n = Some k \<and> k \<le> n"
  shows "keeps p (backward_motion inrow prev_row)"
  unfolding backward_motion_def
proof (rule keeps_with_row)
  fix r c a and t :: "nat list" assume a: "copy_ok p a" "r < last_rows p" "c \<le> last_cols p" "length t = last_cols p"
  obtain t' where t': "read_row_text (r - 1) a = Some (Some (t', last_cols p))" "length t' = last_cols p"
    using read_row_ok [OF a(1)] by blast
  obtain k k' where k: "inrow t c = Some k" "k \<le> c" "prev_row t' (last_cols p) = Some k'" "k' \<le> last_cols p"
    using assms(1) [of c t] assms(2) [of "last_cols p" t'] a(3,4) t'(2) copy_okD(6) [OF a(1)] by auto
  show "\<exists>b. (case (r, c) of (r, c) \<Rightarrow> \<lambda>t _ a.
       if c = 0 then
         (if r > 0 then
            (case read_row_text (r - 1) a of None \<Rightarrow> None | Some None \<Rightarrow> Some (goto (r - 1) 0 a)
             | Some (Some (t', cols')) \<Rightarrow> map_option (\<lambda>nc. goto (r - 1) nc a) (prev_row t' cols'))
          else Some a)
       else map_option (\<lambda>col. goto r col a) (inrow t c)) t (last_cols p) a = Some b \<and> copy_ok p b"
    using a k t'(1) by simp
qed

section \<open>Words\<close>

lemma ahead_while_le: "i \<le> length cs \<Longrightarrow> ahead_while p cs i \<le> length cs"
  using ahead_while_props(2) [of i cs p] ahead_while_beyond [of cs i p] by (cases "i = length cs") auto

lemma back_while_le: "i \<le> length cs \<Longrightarrow> \<exists>k. back_while p cs i = Some k \<and> k \<le> i"
  using back_while_props [of i cs p] by blast

lemma next_rows_le:
  "first_word cs \<le> length cs" "first_word_end cls cs \<le> length cs" "first_big_end cs \<le> length cs"
  unfolding first_word_def first_word_end_def first_big_end_def Let_def
  by (auto intro!: ahead_while_le skip_while_props(2))

lemma backward_rows_le:
  assumes "c \<le> length cs"
  shows "\<exists>k. word_backward cls cs c = Some k \<and> k \<le> c" "\<exists>k. big_backward cs c = Some k \<and> k \<le> c"
proof -
  obtain m where m: "back_while white cs c = Some m" "m \<le> c" using back_while_le [OF assms] by blast
  have ml: "m \<le> length cs" using m(2) assms by simp
  obtain k where k: "back_while (\<lambda>d. cls d = cls (cs ! (m - 1))) cs m = Some k" "k \<le> m"
    using back_while_le [OF ml] by blast
  show "\<exists>k. word_backward cls cs c = Some k \<and> k \<le> c"
  proof (cases "m = 0")
    case False
    then have "get cs (m - 1) = Some (cs ! (m - 1))" using ml by (simp add: get_def)
    then have "word_backward cls cs c = Some k" using m(1) k(1) False by (simp add: word_backward_def)
    then show ?thesis using k(2) m(2) by auto
  qed (simp add: word_backward_def m(1))
  obtain j where "back_while (\<lambda>c. \<not> white c) cs m = Some j" "j \<le> m" using back_while_le [OF ml] by blast
  then show "\<exists>k. big_backward cs c = Some k \<and> k \<le> c" using m by (auto simp: big_backward_def)
qed

lemma prev_rows_le:
  assumes "0 < n" "n \<le> length cs"
  shows "\<exists>k. last_word cls cs n = Some k \<and> k \<le> n" "\<exists>k. last_big cs n = Some k \<and> k \<le> n"
proof -
  have n: "min n (length cs) - 1 < length cs" "min n (length cs) - 1 \<le> n" using assms by simp_all
  obtain m where m: "here_while white cs (min n (length cs) - 1) = Some m" "m \<le> min n (length cs) - 1"
    using here_while_props [OF n(1)] by blast
  have ml: "m \<le> length cs" "m < length cs" "m \<le> n" using m(2) n by linarith+
  obtain k where k: "back_while (\<lambda>d. cls d = cls (cs ! m)) cs m = Some k" "k \<le> m"
    using back_while_le [OF ml(1)] by blast
  have "last_word cls cs n = Some k" using m(1) k(1) ml(2) by (simp add: last_word_def get_def)
  then show "\<exists>k. last_word cls cs n = Some k \<and> k \<le> n" using k(2) ml(3) by auto
  obtain j where "back_while (\<lambda>c. \<not> white c) cs m = Some j" "j \<le> m" using back_while_le [OF ml(1)] by blast
  then show "\<exists>k. last_big cs n = Some k \<and> k \<le> n" using m ml(3) by (auto simp: last_big_def)
qed

lemma keeps_of_separators:
  assumes "\<And>seps. keeps p (f seps)"
  shows "keeps p (\<lambda>a. f (cm_separators a) a)"
  using assms by (simp add: keeps_def)

lemma keeps_words [copy_keeps]:
  "keeps p (move_word_forward alnum)" "keeps p (move_word_backward alnum)" "keeps p (move_word_end alnum)"
  "keeps p move_word_forward_big" "keeps p move_word_backward_big" "keeps p move_word_end_big"
proof -
  show "keeps p (move_word_forward alnum)"
    unfolding move_word_forward_def [abs_def]
    by (rule keeps_of_separators [of p "\<lambda>s. forward_motion (word_forward (char_class alnum s)) first_word"])
      (rule keeps_forward, rule next_rows_le)
  show "keeps p (move_word_backward alnum)"
    unfolding move_word_backward_def [abs_def] Let_def
    by (rule keeps_of_separators [of p "\<lambda>s. backward_motion (word_backward (char_class alnum s)) (last_word (char_class alnum s))"])
      (rule keeps_backward, erule backward_rows_le, erule (1) prev_rows_le)
  show "keeps p (move_word_end alnum)"
    unfolding move_word_end_def [abs_def] Let_def
    by (rule keeps_of_separators [of p "\<lambda>s. forward_motion (word_end (char_class alnum s)) (first_word_end (char_class alnum s))"])
      (rule keeps_forward, rule next_rows_le)
  show "keeps p move_word_forward_big" "keeps p move_word_end_big"
    unfolding move_word_forward_big_def move_word_end_big_def by (rule keeps_forward, rule next_rows_le)+
  show "keeps p move_word_backward_big"
    unfolding move_word_backward_big_def by (rule keeps_backward, erule backward_rows_le, erule (1) prev_rows_le)
qed

section \<open>Characters, text objects, paragraphs\<close>

lemma find_after_less: "find_after ch cs c = Some i \<Longrightarrow> i < length cs"
  by (auto simp: find_after_def find_Some_iff)

lemma find_before_ok: "c \<le> length cs \<Longrightarrow> \<exists>f. find_before ch cs c = Some f \<and> (\<forall>i. f = Some i \<longrightarrow> i < c)"
  by (induction c) (auto simp: get_def less_Suc_eq)

lemma keeps_find [copy_keeps]:
  "keeps p (find_char_forward ch)" "keeps p (find_char_backward ch)"
  "keeps p (find_char_to_forward ch)" "keeps p (find_char_to_backward ch)"
proof -
  show "keeps p (find_char_forward ch)"
    unfolding find_char_forward_def
    by (rule keeps_with_row) (auto dest!: find_after_less split: option.split)
  show "keeps p (find_char_to_forward ch)"
    unfolding find_char_to_forward_def
    by (rule keeps_with_row) (auto dest!: find_after_less dest: copy_okD(7) split: option.split intro!: copy_ok_goto)
  show "keeps p (find_char_backward ch)"
    unfolding find_char_backward_def
  proof (rule keeps_with_row)
    fix r c a and t :: "nat list" assume a: "copy_ok p a" "r < last_rows p" "c \<le> last_cols p" "length t = last_cols p"
    then obtain f where f: "find_before ch t c = Some f" "\<forall>i. f = Some i \<longrightarrow> i < c" using find_before_ok [of c t ch] by auto
    with a show "\<exists>b. (case (r, c) of (r, c) \<Rightarrow> \<lambda>t _ a.
        map_option (\<lambda>f. case f of Some i \<Rightarrow> goto r i a | None \<Rightarrow> a) (find_before ch t c)) t (last_cols p) a = Some b \<and> copy_ok p b"
      by (auto split: option.split)
  qed
  show "keeps p (find_char_to_backward ch)"
    unfolding find_char_to_backward_def
  proof (rule keeps_with_row)
    fix r c a and t :: "nat list" assume a: "copy_ok p a" "r < last_rows p" "c \<le> last_cols p" "length t = last_cols p"
    then obtain f where f: "find_before ch t c = Some f" "\<forall>i. f = Some i \<longrightarrow> i < c" using find_before_ok [of c t ch] by auto
    with a copy_okD(7) [OF a(1)] show "\<exists>b. (case (r, c) of (r, c) \<Rightarrow> \<lambda>t _ a.
        map_option (\<lambda>f. case f of Some i \<Rightarrow> goto r (wrap16 i + 1) a | None \<Rightarrow> a) (find_before ch t c)) t (last_cols p) a = Some b \<and> copy_ok p b"
      by (auto split: option.split)
  qed
qed

lemma keeps_select:
  assumes "\<And>t c. \<exists>x. f t c = Some x \<and> (\<forall>s e. x = Some (s, e) \<longrightarrow> s \<le> length t \<and> e < length t)"
  shows "keeps p (select_with f)"
  unfolding select_with_def
proof (rule keeps_with_row)
  fix r c a and t :: "nat list" assume a: "copy_ok p a" "r < last_rows p" "length t = last_cols p"
  obtain x where x: "f t c = Some x" "\<forall>s e. x = Some (s, e) \<longrightarrow> s \<le> length t \<and> e < length t" using assms [of t c] by blast
  have "copy_ok p (select_span r se a)" if "x = Some se" for se
    using x(2) that a copy_okD(7) [OF a(1)] by (cases se) (simp add: select_span_def)
  then show "\<exists>b. (case (r, c) of (r, c) \<Rightarrow> \<lambda>t _ a.
      map_option (\<lambda>x. case x of Some se \<Rightarrow> select_span r se a | None \<Rightarrow> a) (f t c)) t (last_cols p) a = Some b \<and> copy_ok p b"
    using a(1) x(1) by (auto split: option.split)
qed

lemma text_objects_ok:
  "\<exists>x. inner_word cls t c = Some x \<and> (\<forall>s e. x = Some (s, e) \<longrightarrow> s \<le> length t \<and> e < length t)"
  "\<exists>x. inner_big t c = Some x \<and> (\<forall>s e. x = Some (s, e) \<longrightarrow> s \<le> length t \<and> e < length t)"
proof -
  show "\<exists>x. inner_word cls t c = Some x \<and> (\<forall>s e. x = Some (s, e) \<longrightarrow> s \<le> length t \<and> e < length t)"
  proof (cases "c < length t")
    case True
    then obtain k where "back_while (\<lambda>d. cls d = cls (t ! c)) t c = Some k" "k \<le> c" using back_while_le [of c t] by fastforce
    then show ?thesis using True ahead_while_props(2) [OF True] by (auto simp: inner_word_def Let_def)
  qed (simp add: inner_word_def)
  show "\<exists>x. inner_big t c = Some x \<and> (\<forall>s e. x = Some (s, e) \<longrightarrow> s \<le> length t \<and> e < length t)"
  proof (cases "c < length t")
    case True
    then obtain k where "back_while (\<lambda>d. white d = white (t ! c)) t c = Some k" "k \<le> c" using back_while_le [of c t] by fastforce
    then show ?thesis using True ahead_while_props(2) [OF True] by (auto simp: inner_big_def Let_def)
  qed (simp add: inner_big_def)
qed

lemma with_space_ok:
  assumes "\<exists>x. f = Some x \<and> (\<forall>s e. x = Some (s, e) \<longrightarrow> s \<le> length t \<and> e < length t)"
  shows "\<exists>x. map_option (map_option (\<lambda>(s, e). (s, ahead_while white t e))) f = Some x \<and>
    (\<forall>s e. x = Some (s, e) \<longrightarrow> s \<le> length t \<and> e < length t)"
  using assms ahead_while_props(2) by (auto simp: split_paired_all)

lemma keeps_objects [copy_keeps]:
  "keeps p (select_inner_word alnum)" "keeps p (select_a_word alnum)"
  "keeps p select_inner_word_big" "keeps p select_a_word_big"
proof -
  show "keeps p (select_inner_word alnum)"
    unfolding select_inner_word_def [abs_def]
    by (rule keeps_of_separators [of p "\<lambda>s. select_with (inner_word (char_class alnum s))"])
      (rule keeps_select, rule text_objects_ok)
  show "keeps p (select_a_word alnum)"
    unfolding select_a_word_def [abs_def]
    by (rule keeps_of_separators [of p "\<lambda>s. select_with (a_word (char_class alnum s))"])
      (rule keeps_select, unfold a_word_def, rule with_space_ok, rule text_objects_ok)
  show "keeps p select_inner_word_big"
    unfolding select_inner_word_big_def by (rule keeps_select, rule text_objects_ok)
  show "keeps p select_a_word_big"
    unfolding select_a_word_big_def
  proof (rule keeps_select)
    show "\<exists>x. a_big t c = Some x \<and> (\<forall>s e. x = Some (s, e) \<longrightarrow> s \<le> length t \<and> e < length t)" for t c
      unfolding a_big_def using text_objects_ok(2) [of t c] with_space_ok [OF text_objects_ok(2) [of t c]] by (cases "c < length t \<and> white (t ! c)") (simp_all only: simp_thms if_True if_False)
  qed
qed

lemma rows_down_ok:
  "copy_ok p a \<Longrightarrow> \<exists>m. rows_down stop n row a = Some m"
proof (induction n arbitrary: row)
  case (Suc n)
  from read_row_ok [OF Suc.prems, of row] Suc show ?case by auto
qed simp

lemma rows_up_ok:
  "copy_ok p a \<Longrightarrow> \<exists>u. rows_up stop row a = Some u \<and> (\<forall>m. u = Inr m \<longrightarrow> m \<le> row)"
proof (induction row)
  case 0
  from read_row_ok [OF 0, of 0] show ?case by (subst rows_up.simps) auto
next
  case (Suc row)
  from read_row_ok [OF Suc.prems, of "Suc row"] Suc show ?case by (subst rows_up.simps) fastforce
qed

lemma keeps_paragraphs [copy_keeps]: "keeps p move_next_paragraph" "keeps p move_prev_paragraph"
proof -
  show "keeps p move_next_paragraph"
    unfolding move_next_paragraph_def
  proof (rule keeps_with_pos)
    fix r c a assume a: "copy_ok p a"
    let ?rows = "pane_rows a"
    obtain m1 where m1: "rows_down True (?rows - add16 r 1) (add16 r 1) a = Some m1" using rows_down_ok [OF a] by blast
    obtain m2 where m2: "rows_down False (?rows - m1) m1 a = Some m2" using rows_down_ok [OF a] by blast
    show "\<exists>b. (case (r, c) of (r, _) \<Rightarrow> \<lambda>a. let rows = pane_rows a in do {
            r1 \<leftarrow> rows_down True (rows - add16 r 1) (add16 r 1) a;
            r2 \<leftarrow> rows_down False (rows - r1) r1 a;
            Some (goto (min r2 (rows - 1)) 0 a)
          }) a = Some b \<and> copy_ok p b"
      using a m1 m2 pane_rows_ok [OF a] copy_okD(4) [OF a] by (simp add: Let_def min_def)
  qed
  show "keeps p move_prev_paragraph"
    unfolding move_prev_paragraph_def
  proof (rule keeps_with_pos)
    fix r c a assume a: "copy_ok p a" "r < last_rows p"
    obtain u where u: "rows_up True (r - 1) a = Some u" "\<forall>m. u = Inr m \<longrightarrow> m \<le> r - 1" using rows_up_ok [OF a(1)] by blast
    have v: "\<exists>v. rows_up False m a = Some v \<and> (\<forall>k. v = Inr k \<longrightarrow> k \<le> m)" for m using rows_up_ok [OF a(1)] by blast
    show "\<exists>b. (case (r, c) of (r, _) \<Rightarrow> \<lambda>a. if r = 0 then Some a
       else do {
         u \<leftarrow> rows_up True (r - 1) a;
         (case u of
            Inl _ \<Rightarrow> Some (goto 0 0 a)
          | Inr r1 \<Rightarrow>
              do {
                v \<leftarrow> rows_up False r1 a;
                Some (case v of Inl _ \<Rightarrow> goto 0 0 a | Inr r2 \<Rightarrow> goto r2 0 a)
              })
       }) a = Some b \<and> copy_ok p b"
    proof (cases u)
      case (Inr m)
      obtain w where w: "rows_up False m a = Some w" "\<forall>k. w = Inr k \<longrightarrow> k \<le> m" using v by blast
      then show ?thesis using a u Inr copy_okD(4) [OF a(1)] by (cases w) auto
    qed (use a u copy_okD(4) [OF a(1)] in auto)
  qed
qed

section \<open>Brackets\<close>

lemma scan_forward_in_pane:
  assumes "\<forall>r c. ch r c \<noteq> None" "0 < cols"
  shows "\<exists>x. scan_forward ch op cl rows cols cr cc d = Some x \<and>
    (\<forall>r c. x = Some (r, c) \<longrightarrow> r < rows \<and> c < cols)"
  using assms
proof (induction ch op cl rows cols cr cc d rule: scan_forward.induct)
  case (1 ch op cl rows cols cr cc d)
  obtain cr1 cc1 where n: "(if cc + 1 \<ge> cols then (cr + 1, 0) else (cr, cc + 1)) = (cr1, cc1)" by fastforce
  note step = scan_forward.simps [of ch op cl rows cols cr cc d, unfolded n Let_def prod.case]
  have cc1: "cc1 < cols" using n 1(3) by (auto split: if_splits)
  show ?case
  proof (cases "cr1 \<ge> rows")
    case False
    obtain x where x: "ch cr1 cc1 = Some x" using 1(2) by blast
    let ?d1 = "if x = op then d + 1 else d"
    let ?d2 = "if x = cl then ?d1 - 1 else ?d1"
    have here: "scan_forward ch op cl rows cols cr cc d =
        (if ?d2 = 0 then Some (Some (cr1, cc1)) else scan_forward ch op cl rows cols cr1 cc1 ?d2)"
      unfolding step x option.case using False by (simp only: if_False)
    show ?thesis
    proof (cases "?d2 = 0")
      case True
      then show ?thesis unfolding here using False cc1 by (simp only: if_True) auto
    next
      case nz: False
      show ?thesis unfolding here using "1.IH" [OF n [symmetric] refl False x refl refl nz 1(2,3)] nz by (simp only: if_False)
    qed
  qed (simp add: step)
qed

lemma scan_backward_in_pane:
  assumes "\<forall>r c. ch r c \<noteq> None" "0 < cols" "cr < rows" "cc \<le> cols"
  shows "\<exists>x. scan_backward ch op cl cols cr cc d = Some x \<and>
    (\<forall>r c. x = Some (r, c) \<longrightarrow> r < rows \<and> c < cols)"
  using assms
proof (induction ch op cl cols cr cc d rule: scan_backward.induct)
  case (1 ch op cl cols cr cc d)
  show ?case
  proof (cases "cc = 0 \<and> cr = 0")
    case True
    then show ?thesis by (subst scan_backward.simps) simp
  next
    case False
    obtain cr1 cc1 where n: "(if cc = 0 then (cr - 1, cols - 1) else (cr, cc - 1)) = (cr1, cc1)" by fastforce
    note step = scan_backward.simps [of ch op cl cols cr cc d, unfolded n Let_def prod.case]
    have in1: "cr1 < rows" "cc1 < cols" "cc1 \<le> cols" using n 1(3,4,5) by (auto split: if_splits)
    obtain x where x: "ch cr1 cc1 = Some x" using 1(2) by blast
    let ?d1 = "if x = op then d - 1 else d"
    let ?d2 = "if x = cl then ?d1 + 1 else ?d1"
    have here: "scan_backward ch op cl cols cr cc d =
        (if ?d2 = 0 then Some (Some (cr1, cc1)) else scan_backward ch op cl cols cr1 cc1 ?d2)"
      unfolding step x option.case using False by (simp only: if_False)
    show ?thesis
    proof (cases "?d2 = 0")
      case True
      then show ?thesis unfolding here using in1 by (simp only: if_True) auto
    next
      case nz: False
      show ?thesis unfolding here
        using "1.IH" [OF False n [symmetric] refl x refl refl nz 1(2,3) in1(1,3)] nz by (simp only: if_False)
    qed
  qed
qed

lemma first_char_ok:
  assumes "pane_fits p s"
  shows "first_char s r c \<noteq> None"
proof -
  obtain t where "cell_text False s r c = Some t" using single_text [OF assms] by blast
  then show ?thesis by (cases "screen_cell s r c") (auto simp: first_char_def cell_text_def split: option.splits)
qed

lemma matching_bracket_ok:
  assumes "pane_fits p s" "r < last_rows p" "c \<le> last_cols p"
  shows "\<exists>x. matching_bracket s (last_rows p) (last_cols p) (r, c) = Some x \<and>
    (\<forall>r' c'. x = Some (r', c') \<longrightarrow> r' < last_rows p \<and> c' < last_cols p)"
proof -
  have all: "\<forall>r c. first_char s r c \<noteq> None" using first_char_ok [OF assms(1)] by blast
  have cols: "0 < last_cols p" using assms(1) by (simp add: pane_fits_def)
  obtain x where x: "first_char s r c = Some x" using all by blast
  note fwd = scan_forward_in_pane [OF all cols] and bwd = scan_backward_in_pane [OF all cols assms(2,3)]
  show ?thesis
  proof (cases "bracket_of x")
    case (Some b)
    obtain op cl f where b: "b = (op, cl, f)" by (cases b) auto
    have "matching_bracket s (last_rows p) (last_cols p) (r, c) =
        (if f then scan_forward (first_char s) op cl (last_rows p) (last_cols p) r c 1
         else scan_backward (first_char s) op cl (last_cols p) r c 1)"
      using x Some b by (simp add: matching_bracket_def)
    then show ?thesis using fwd bwd by (simp split: if_split)
  qed (simp add: matching_bracket_def x)
qed

lemma keeps_bracket [copy_keeps]: "keeps p move_matching_bracket"
  unfolding move_matching_bracket_def
proof (rule keeps_with_pos)
  fix r c a assume a: "copy_ok p a" "r < last_rows p" "c \<le> last_cols p"
  obtain x where x: "matching_bracket (cm_terms a (pane_id p)) (last_rows p) (last_cols p) (r, c) = Some x"
    "\<forall>r' c'. x = Some (r', c') \<longrightarrow> r' < last_rows p \<and> c' < last_cols p"
    using matching_bracket_ok [OF copy_okD(2) [OF a(1)] a(2,3)] by blast
  have "copy_ok p (case x of Some t \<Rightarrow> a\<lparr>cm_pos := Some t\<rparr> | None \<Rightarrow> a)"
  proof (cases x)
    case (Some q)
    then show ?thesis using x(2) a(1) by (cases q) (simp add: less_imp_le)
  qed (simp add: a(1))
  then show "\<exists>b. (case active_pane_of a of
         Some (Some p) \<Rightarrow>
           map_option (\<lambda>m. case m of Some t \<Rightarrow> a\<lparr>cm_pos := Some t\<rparr> | None \<Rightarrow> a)
             (matching_bracket (cm_terms a (pane_id p)) (last_rows p) (last_cols p) (r, c))
       | _ \<Rightarrow> Some a) = Some b \<and> copy_ok p b"
    using x(1) copy_okD(1) [OF a(1)] by simp
qed

section \<open>Yanking\<close>

lemma yank_line_ok:
  assumes "\<And>cols. span cols \<noteq> None"
  shows "yank_line y span idx \<noteq> None"
  using assms by (auto simp: yank_line_def Let_def split: selection_mode.split)

lemma yank_rows_ok:
  assumes "pane_fits p s"
  shows "yank_rows y s sb ls idx t \<noteq> None"
proof (induction ls arbitrary: idx t)
  case (Cons l ls)
  have "span_text False s (as_u16 (l + sb)) cols \<noteq> None" for cols
    using single_span [OF assms, of False] by (metis option.distinct(1))
  from yank_line_ok [OF this] show ?case using Cons.IH by (auto split: option.split)
qed simp

lemma yank_loop_ok:
  "pane_fits p s \<Longrightarrow> \<exists>s' u. yank_loop y rows lo fin idx s t = Some (s', u) \<and> pane_fits p s'"
proof (induction y rows lo fin idx s t rule: yank_loop.induct)
  case (1 y rows lo fin idx s t)
  let ?s1 = "screen_set_scrollback (nat (max (- lo) 0)) s"
  let ?sb = "int (scrollback_of ?s1)"
  let ?l = "min fin (- ?sb + int rows - 1)"
  show ?case
  proof (cases "lo > fin \<or> max lo (- ?sb) > ?l")
    case True
    then show ?thesis using 1(2) by (subst yank_loop.simps) (auto simp: Let_def)
  next
    case False
    obtain u where u: "yank_rows y ?s1 ?sb [max lo (- ?sb) .. ?l] idx t = Some u"
      using yank_rows_ok [OF fits_scrollback [OF 1(2)]] by blast
    have "yank_loop y rows lo fin idx s t =
        yank_loop y rows (?l + 1) fin (idx + nat (?l - max lo (- ?sb) + 1)) ?s1 u"
      using False u by (subst yank_loop.simps) (simp add: Let_def)
    then show ?thesis using "1.IH" [OF _ refl refl refl refl _ u fits_scrollback [OF 1(2)]] False by simp
  qed
qed

lemma keeps_yank [copy_keeps]: "keeps p yank_selection"
proof (rule keepsI)
  fix a :: copy_server assume a: "copy_ok p a"
  show "\<exists>b. yank_selection a = Some b \<and> copy_ok p b"
  proof (cases "cm_anchor a = None \<or> cm_pos a = None")
    case True
    then show ?thesis using a by (auto simp: yank_selection_def split: option.split)
  next
    case False
    then obtain anchor pos where q: "cm_anchor a = Some anchor" "cm_pos a = Some pos" by auto
    obtain an cu where sel: "selection_lines a anchor pos = (an, cu)" by fastforce
    obtain s' u where y: "yank_loop (yank_spec_of a p anchor pos) (last_rows p) (min an cu) (max an cu) 0
        (cm_terms a (pane_id p)) [] = Some (s', u)" "pane_fits p s'"
      using yank_loop_ok [OF copy_okD(2) [OF a]] by blast
    have "yank_selection a = Some (store_yank u (set_term (pane_id p) (screen_set_scrollback (cm_scroll a) s') a))"
      unfolding yank_selection_def q prod.case option.case on_pane_ok [OF a] Let_def sel y(1) option.map ..
    moreover have "copy_ok p (store_yank u (set_term (pane_id p) (screen_set_scrollback (cm_scroll a) s') a))"
      using copy_ok_term [OF a fits_scrollback [OF y(2)]] by (simp add: store_yank_def)
    ultimately show ?thesis by blast
  qed
qed

lemma keeps_end_of_line [copy_keeps]: "keeps p copy_end_of_line"
  unfolding copy_end_of_line_def
proof (rule keeps_with_pos)
  fix r c a assume a: "copy_ok p a"
  obtain t where t: "span_text False (cm_terms a (pane_id p)) r [c ..< last_cols p] = Some t"
    using single_span [OF copy_okD(2) [OF a]] by blast
  show "\<exists>b. (case (r, c) of (r, c) \<Rightarrow> \<lambda>a. on_pane (\<lambda>p a.
         map_option (\<lambda>l. a\<lparr>cm_buffers := push_buffer (trim_end l) (cm_buffers a), cm_clipboard := Some (trim_end l)\<rparr>)
           (span_text False (cm_terms a (pane_id p)) r [c ..< last_cols p])) a) a = Some b \<and> copy_ok p b"
    using a t by (simp add: on_pane_ok)
qed

section \<open>The examples satisfy it\<close>

lemma demo_single_cell:
  assumes "(of_char ch :: nat) < 128"
  shows "single_cell (demo_cell ch)"
  using demo_cell_text [OF assms] assms by (auto simp: single_cell_def)

lemma demo_copy_ok:
  assumes "ls \<noteq> []" "length ls < 32768" "hd ls \<noteq> []" "length (hd ls) < 32768"
    "\<forall>l\<in>set (past @ ls). \<forall>ch\<in>set l. (of_char ch :: nat) < 128"
  shows "copy_ok (demo_pane 1 (length ls) (length (hd ls))) (demo_single past ls)"
proof -
  have "single_rows (history (grid_of (demo_screen past ls)))"
    using assms(5) demo_single_cell by (fastforce simp: single_rows_def history_def demo_grid)
  moreover have "cur_row (grid_of (demo_screen past ls)) = 0" "cur_col (grid_of (demo_screen past ls)) = 0"
    "gr_offset (grid_of (demo_screen past ls)) = 0" "gr_rows (grid_of (demo_screen past ls)) \<noteq> []"
    "length (gr_rows (grid_of (demo_screen past ls))) = length ls"
    using assms(1) by (simp_all add: demo_grid allocate_rows_def grid_new_def origin_pos_def)
  ultimately show ?thesis
    using assms(1-4) by (simp add: copy_ok_def pane_fits_def)
qed

end
