(* ===== verification/Copy_Safety.thy ===== *)
theory Copy_Safety
  imports Copy_Cursor
begin

text \<open>
  The keys of copy mode as a machine: the interpretation of \<open>safe_machine\<close> on the handlers of
  \<open>Copy_Keys\<close>, and what happens where its conditions fail.
\<close>

section \<open>Single commands\<close>

definition outcome_ok :: "pane \<Rightarrow> copy_server option \<Rightarrow> bool" where
  "outcome_ok p x = (\<exists>b. x = Some b \<and> copy_ok p b)"



lemma outcome_Some: "copy_ok p a \<Longrightarrow> outcome_ok p (Some a)"
  by (simp add: outcome_ok_def)



lemma goto_match_ok:
  assumes "copy_ok p a" "i < length (cm_matches a)"
  shows "outcome_ok p (goto_match i a)"
proof -
  obtain r c e where m: "cm_matches a ! i = (r, c, e)" by (cases "cm_matches a ! i") auto
  then have "(r, c, e) \<in> set (cm_matches a)" using assms(2) nth_mem by fastforce
  then have "r < last_rows p \<and> c \<le> last_cols p" using assms(1) unfolding copy_ok_def by blast
  then show ?thesis
    using assms m by (auto simp: outcome_ok_def goto_match_def get_def copy_ok_def active_pane_of_def)
qed

lemma keeps_search_moves [copy_keeps]: "keeps p search_next" "keeps p search_prev"
proof -
  have "outcome_ok p (search_next a)" if "copy_ok p a" for a
    unfolding search_next_def using that by (auto intro!: outcome_Some goto_match_ok)
  then show "keeps p search_next" by (simp add: keeps_def outcome_ok_def)
  have "outcome_ok p (search_prev a)" if "copy_ok p a" for a
    unfolding search_prev_def using that by (auto intro!: outcome_Some goto_match_ok simp: copy_ok_def)
  then show "keeps p search_prev" by (simp add: keeps_def outcome_ok_def)
qed

lemma keeps_marks [copy_keeps]: "keeps p (begin_selection m)" "keeps p set_mark"
  unfolding begin_selection_def set_mark_def by (rule keeps_with_pos, simp)+

lemma keeps_yank_exits [copy_keeps]:
  "keeps p yank_and_exit" "keeps p line_end_and_exit" "keeps p append_and_exit" "keeps p enter_and_exit"
proof -
  show "keeps p yank_and_exit" "keeps p line_end_and_exit"
    unfolding yank_and_exit_def [abs_def] line_end_and_exit_def [abs_def]
    by (rule keeps_bind; rule copy_keeps)+
  have exit: "\<exists>b. exit_copy_mode a = Some b \<and> copy_ok p b" if "copy_ok p a" for a
    using keeps_exit that by (simp add: keeps_def)
  have yank: "\<exists>b. yank_selection a = Some b \<and> copy_ok p b" if "copy_ok p a" for a
    using keeps_yank that by (simp add: keeps_def)
  show "keeps p enter_and_exit"
  proof (rule keepsI)
    fix a :: copy_server assume a: "copy_ok p a"
    obtain b where b: "(if cm_anchor a \<noteq> None then yank_selection a else Some a) = Some b" "copy_ok p b"
      using yank [OF a] a by (cases "cm_anchor a") auto
    show "\<exists>c. enter_and_exit a = Some c \<and> copy_ok p c"
      unfolding enter_and_exit_def b(1) bind.bind_lunit by (rule exit [OF b(2)])
  qed
  show "keeps p append_and_exit"
  proof (rule keepsI)
    fix a :: copy_server assume a: "copy_ok p a"
    obtain b where b: "yank_selection a = Some b" "copy_ok p b" using yank [OF a] by blast
    show "\<exists>c. append_and_exit a = Some c \<and> copy_ok p c"
      unfolding append_and_exit_def b(1) bind.bind_lunit Let_def
      using a exit b(2) by (simp split: if_split)
  qed
qed

lemma copy_ok_simple [simp]:
  "copy_ok p a \<Longrightarrow> copy_ok p (open_search b a)" "copy_ok p a \<Longrightarrow> copy_ok p (toggle_rectangle a)"
  by (simp_all add: open_search_def toggle_rectangle_def)

lemma copy_ok_swap [simp]: "copy_ok p a \<Longrightarrow> copy_ok p (swap_ends a)"
  by (auto simp: swap_ends_def copy_ok_def active_pane_of_def split: option.split)

section \<open>Keys\<close>








section \<open>The search prompt\<close>





section \<open>Any sequence of keys\<close>









end
