(* ===== verification/Copy_Failures.thy ===== *)
theory Copy_Failures
  imports Copy_Cursor
begin

text \<open>
  Where the guarantees of copy mode end: what panics, and what is not what it seems.
\<close>

section \<open>A search for a character that is not ASCII\<close>

lemma find_sub_prefix: "q \<noteq> [] \<Longrightarrow> find_sub q s = Some i \<Longrightarrow> take (length q) (drop i s) = q \<and> i + length q \<le> length s"
proof (induction s arbitrary: i)
  case (Cons b bs)
  show ?case
  proof (cases "take (length q) (b # bs) = q")
    case True
    then have "length q \<le> length (b # bs)" by (metis length_take min.cobounded1)
    then show ?thesis using Cons.prems True by simp
  next
    case False
    with Cons.prems obtain j where j: "find_sub q bs = Some j" "i = Suc j" by auto
    from Cons.IH [OF Cons.prems(1) j(1)] j(2) show ?thesis by simp
  qed
qed simp

lemma utf8_second:
  assumes "128 \<le> c" "c < 1114112"
  shows "1 < length (utf8 c)" "128 \<le> (of_char (utf8 c ! 1) :: nat)" "(of_char (utf8 c ! 1) :: nat) < 192"
proof -
  have m: "c mod 64 < 64" "c div 64 mod 64 < 64" "c div 4096 mod 64 < 64" by simp_all
  have b: "map of_char (utf8 c) =
     (if c < 2048 then [192 + c div 64, 128 + c mod 64]
      else if c < 65536 then [224 + c div 4096, 128 + c div 64 mod 64, 128 + c mod 64]
      else [240 + c div 262144, 128 + c div 4096 mod 64, 128 + c div 64 mod 64, 128 + c mod 64])"
    using utf8_bytes [OF assms(2)] assms(1) by simp
  have "1 < length (map of_char (utf8 c) :: nat list)" unfolding b by simp
  then show l: "1 < length (utf8 c)" by simp
  have "(of_char (utf8 c ! 1) :: nat) = map of_char (utf8 c) ! 1" using l by simp
  then have "of_char (utf8 c ! 1) = (128 + (if c < 2048 then c mod 64 else if c < 65536 then c div 64 mod 64 else c div 4096 mod 64))"
    unfolding b by simp
  then show "128 \<le> (of_char (utf8 c ! 1) :: nat)" "(of_char (utf8 c ! 1) :: nat) < 192"
    using m by (auto split: if_splits)
qed

lemma search_row_panics:
  assumes "128 \<le> x" "x < 1114112" "find_sub (utf8_text (x # xs)) s = Some i" "char_boundary s 0"
  shows "search_row (utf8_text (x # xs)) s = None"
proof -
  let ?q = "utf8_text (x # xs)"
  note u = utf8_second [OF assms(1,2)]
  have l: "1 < length ?q" "?q ! 1 = utf8 x ! 1" using u(1) by (simp_all add: utf8_text_def nth_append)
  then have "?q \<noteq> []" by auto
  from find_sub_prefix [OF this assms(3)] have p: "take (length ?q) (drop i s) = ?q" "i + length ?q \<le> length s" by blast+
  have "s ! (i + 1) = ?q ! 1" using p l(1) by (metis add_leD1 nth_drop nth_take)
  then have b: "\<not> char_boundary s (i + 1)" using p(2) l u(2,3) by (simp add: char_boundary_def)
  obtain n where n: "length s = Suc n" using p(2) l(1) by (cases "length s") auto
  show ?thesis using assms(3,4) b by (simp add: search_row_def n)
qed

lemma utf8_first_byte:
  assumes "c < 1114112"
  shows "utf8 c \<noteq> []" "\<not> (128 \<le> (of_char (utf8 c ! 0) :: nat) \<and> (of_char (utf8 c ! 0) :: nat) < 192)"
proof -
  have "map of_char (utf8 c) \<noteq> ([] :: nat list)" unfolding utf8_bytes [OF assms] by simp
  then show l: "utf8 c \<noteq> []" by simp
  then have "(of_char (utf8 c ! 0) :: nat) = map of_char (utf8 c) ! 0" by simp
  then show "\<not> (128 \<le> (of_char (utf8 c ! 0) :: nat) \<and> (of_char (utf8 c ! 0) :: nat) < 192)"
    unfolding utf8_bytes [OF assms] by simp
qed

lemma text_boundary:
  assumes "\<forall>c\<in>set t. is_scalar c"
  shows "char_boundary (utf8_text t) 0"
proof (cases t)
  case (Cons c cs)
  then have "c < 1114112" using assms by (simp add: is_scalar_def)
  from utf8_first_byte [OF this] show ?thesis using Cons by (simp add: char_boundary_def utf8_text_def nth_append)
qed (simp add: char_boundary_def utf8_text_def)

lemma those_None: "x \<in> set xs \<Longrightarrow> f x = None \<Longrightarrow> those (map f xs) = None"
  by (induction xs) (auto split: option.split)

text \<open>C32: Searching for text that begins with a character that is not ASCII panics as soon as some
  row of the screen shows it: the loop goes on one byte after the match, within the character.\<close>

theorem search_panics_beyond_ascii:
  assumes "active_pane_of a = Some (Some p)" "r < last_rows p"
    "span_text True (cm_terms a (pane_id p)) r [0 ..< last_cols p] = Some t"
    "query \<noteq> []" "lowercase query = x # xs" "128 \<le> x" "is_scalar x"
    "find_sub (utf8_text (x # xs)) (utf8_text (lowercase t)) = Some i" "\<forall>c\<in>set (lowercase t). is_scalar c"
  shows "search_copy_mode lowercase query forward a = None"
proof -
  have x: "x < 1114112" using assms(7) by (simp add: is_scalar_def)
  have "row_matches lowercase (utf8_text (lowercase query)) (cm_terms a (pane_id p)) (last_cols p) r = None"
    unfolding row_matches_def assms(3,5) bind.bind_lunit search_row_panics [OF assms(6) x assms(8) text_boundary [OF assms(9)]] by simp
  then have "those (map (row_matches lowercase (utf8_text (lowercase query)) (cm_terms a (pane_id p)) (last_cols p)) [0 ..< last_rows p]) = None"
    using assms(2) by (intro those_None) auto
  moreover have "active_pane_of (a\<lparr>cm_matches := [], cm_idx := 0\<rparr>) = Some (Some p)"
    using assms(1) by (simp add: active_pane_of_def)
  ultimately show ?thesis using assms(4) by (simp add: search_copy_mode_def on_pane_def Let_def)
qed

text \<open>A screen of one cell with an accented letter, searched for it.\<close>

definition accent_server :: copy_server where
  "accent_server =
     (let row = \<lparr>vr_cells = [cell_new\<lparr>vc_bytes := utf8 233 @ replicate 20 (char_of (0::nat)), vc_len := 2\<rparr>], vr_wrapped = False\<rparr>;
          s = screen_new \<lparr>sz_rows = 1, sz_cols = 1\<rparr> 0
      in demo_server (Leaf (demo_pane 1 1 1)) [] (\<lambda>_. s\<lparr>sc_grid := (sc_grid s)\<lparr>gr_rows := [row]\<rparr>\<rparr>))"

theorem search_panics_beyond_ascii_witness:
  "search_copy_mode (\<lambda>t. t) [233] True accent_server = None"
proof -
  have ap: "active_pane_of accent_server = Some (Some (demo_pane 1 1 1))"
    by (simp add: accent_server_def demo_server_def demo_window_def active_pane_of_def active_window_def
        active_pane_mut_def demo_pane_def Let_def)
  have u: "utf8 233 = [char_of (195 :: nat), char_of (169 :: nat)]" by (simp add: utf8_def)
  have two: "unat ((2 :: 8 word) AND LEN_BITS) = 2" by (simp add: LEN_BITS_def)
  have "from_utf8 (utf8_text [233]) = Some [233]"
    by (rule from_utf8_text) (simp add: is_scalar_def)
  then have dec: "from_utf8 (utf8 233) = Some [233]" by (simp add: utf8_text_def)
  have c: "cell_text True (cm_terms accent_server 1) 0 0 = Some [233]"
    using dec u two
    by (simp add: cell_text_def screen_cell_def accent_server_def demo_server_def visible_cell_def grid_of_def
        screen_new_def has_mode_def allocate_rows_def grid_new_def visible_rows_def get_def row_get_def Let_def
        cell_contents_def cell_len_def)
  have span: "span_text True (cm_terms accent_server (pane_id (demo_pane 1 1 1))) 0 [0 ..< last_cols (demo_pane 1 1 1)] = Some [233]"
    using c by (simp add: span_text_def)
  have f: "find_sub (utf8_text [233]) (utf8_text [233]) = Some 0" by (simp add: utf8_text_def u)
  show ?thesis
    by (rule search_panics_beyond_ascii [where r = 0 and t = "[233]" and x = 233 and xs = "[]" and i = 0, OF ap])
      (use span f in \<open>simp_all add: is_scalar_def\<close>)
qed

section \<open>Matches of another pane\<close>

text \<open>
  \<open>enter_copy_mode\<close> leaves the matches of the last search in place, whichever pane it was made in
  and however wide that pane was then.
\<close>

lemma back_while_beyond: "length cs < c \<Longrightarrow> back_while q cs c = None"
  by (cases c) (simp_all add: get_def)

lemma plain_key:
  assumes "\<not> cm_reg_pending a" "cm_object a = None" "cm_find a = None" "57 < ch"
  shows "copy_mode_key alnum (KChar ch) m a = copy_command_key alnum (count_of a) (KChar ch) m (a\<lparr>cm_count := None\<rparr>)"
  using assms by (simp add: copy_mode_key_def count_digit_def)

lemma key_n: "copy_command_key alnum n (chr_key CHR ''n'') no_mods a = search_next a"
  by (simp add: copy_command_key_def control_key_def motion_key_def selection_key_def no_mods_def)

lemma key_b: "copy_command_key alnum n (chr_key CHR ''b'') no_mods a = repeat_opt n (move_word_backward alnum) a"
  by (simp add: copy_command_key_def control_key_def motion_key_def no_mods_def)

lemma beyond_panics:
  assumes "active_pane_of a = Some (Some p)" "pane_fits p (cm_terms a (pane_id p))"
    "cm_pos a = Some (r, c)" "last_cols p < c"
  shows "move_word_backward alnum a = None"
proof -
  obtain t where t: "span_text True (cm_terms a (pane_id p)) r [0 ..< last_cols p] = Some t" "length t = last_cols p"
    using single_span [OF assms(2), of True r "[0 ..< last_cols p]"] by auto
  have row: "read_row_text r a = Some (Some (t, last_cols p))" using assms(1) t(1) by (simp add: read_row_text_def)
  obtain cls where cls: "cls = char_class alnum (cm_separators a)" by simp
  have "word_backward cls t c = None" using assms(4) t(2) by (simp add: word_backward_def back_while_beyond)
  then have "backward_motion (word_backward cls) (last_word cls) a = None"
    using assms(3,4) row by (simp add: backward_motion_def with_row_def with_pos_def get_copy_pos_def)
  then show ?thesis by (simp only: move_word_backward_def Let_def cls)
qed

text \<open>C33: Search matches outlive the search: entering copy mode keeps them, the key \<open>n\<close> takes the
  cursor to one of them, and when that is beyond the width of the pane, the key \<open>b\<close> panics.\<close>

theorem stale_match_panics:
  assumes "active_pane_of a = Some (Some p)" "pane_fits p (cm_terms a (pane_id p))"
    "cm_matches a = [(r, c, e)]" "last_cols p < c" "cm_idx a = 0" "cm_wrap_search a"
  shows "\<exists>a1 a2. enter_copy_mode a = Some a1 \<and> cm_mode a1 = CopyMode \<and>
    copy_mode_key alnum (chr_key CHR ''n'') no_mods a1 = Some a2 \<and> cm_pos a2 = Some (r, c) \<and>
    copy_mode_key alnum (chr_key CHR ''b'') no_mods a2 = None"
proof -
  obtain q where q: "current_prompt_pos a = Some (Some q)" using assms(1) by (simp add: current_prompt_pos_def)
  let ?a = "a\<lparr>cm_mode := CopyMode, cm_scroll := 0, cm_selection := SelChar, cm_anchor := None, cm_pos := Some q,
            cm_find := None, cm_object := None, cm_reg_pending := False, cm_register := None, cm_count := None\<rparr>"
  let ?a1 = "?a\<lparr>cm_copies := (cm_copies a)(pane_id p := Some (copy_state_of ?a))\<rparr>"
  let ?a2 = "?a1\<lparr>cm_idx := 0, cm_pos := Some (r, c)\<rparr>"
  have ap: "active_pane_of ?a = Some (Some p)" "active_pane_of (?a2\<lparr>cm_count := None\<rparr>) = Some (Some p)"
    using assms(1) by (simp_all add: active_pane_of_def)
  have "enter_copy_mode a = Some ?a1"
    unfolding enter_copy_mode_def q bind.bind_lunit save_copy_state_to_pane_def on_pane_def ap(1) by simp
  moreover have "copy_mode_key alnum (chr_key CHR ''n'') no_mods ?a1 = Some ?a2"
  proof -
    have "copy_mode_key alnum (chr_key CHR ''n'') no_mods ?a1 = search_next (?a1\<lparr>cm_count := None\<rparr>)"
      by (subst plain_key) (simp_all add: key_n [simplified])
    also have "\<dots> = Some ?a2" using assms(3,5,6) by (simp add: search_next_def goto_match_def get_def)
    finally show ?thesis .
  qed
  moreover have "copy_mode_key alnum (chr_key CHR ''b'') no_mods ?a2 = None"
  proof -
    have "copy_mode_key alnum (chr_key CHR ''b'') no_mods ?a2 = repeat_opt 1 (move_word_backward alnum) (?a2\<lparr>cm_count := None\<rparr>)"
      by (subst plain_key) (simp_all add: key_b [simplified] count_of_def)
    also have "move_word_backward alnum (?a2\<lparr>cm_count := None\<rparr>) = None"
      by (rule beyond_panics [OF ap(2)]) (use assms(2,4) in simp_all)
    then have "repeat_opt 1 (move_word_backward alnum) (?a2\<lparr>cm_count := None\<rparr>) = None" by simp
    finally show ?thesis .
  qed
  moreover have "cm_mode ?a1 = CopyMode" "cm_pos ?a2 = Some (r, c)" by simp_all
  ultimately show ?thesis by blast
qed

theorem stale_match_panics_witness:
  "\<exists>a1 a2. enter_copy_mode ((demo_single [] [''ab''])\<lparr>cm_matches := [(0, 5, 6)]\<rparr>) = Some a1 \<and>
    copy_mode_key (\<lambda>_. False) (chr_key CHR ''n'') no_mods a1 = Some a2 \<and>
    copy_mode_key (\<lambda>_. False) (chr_key CHR ''b'') no_mods a2 = None"
proof -
  let ?s = "demo_single [] [''ab'']" and ?p = "demo_pane 1 (length [''ab'']) (length (hd [''ab'']))"
  let ?a = "?s\<lparr>cm_matches := [(0, 5, 6)]\<rparr>"
  have ok: "copy_ok ?p ?s" by (rule demo_copy_ok) (auto simp: eval_nat_numeral)
  have p: "active_pane_of ?a = Some (Some ?p)" "pane_fits ?p (cm_terms ?a (pane_id ?p))"
    using copy_okD(1,2) [OF ok] by (simp_all add: active_pane_of_def)
  have "cm_matches ?a = [(0, 5, 6)]" "last_cols ?p < 5" "cm_idx ?a = 0" "cm_wrap_search ?a"
    by (simp_all add: demo_single_def demo_server_def demo_pane_def)
  from stale_match_panics [OF p this, of "\<lambda>_. False"] show ?thesis by blast
qed

section \<open>The other end of the selection\<close>

text \<open>
  \<open>o\<close> swaps the rows and forgets that the anchor was set at another scroll position: the lines
  selected stay the same only while nothing was scrolled.
\<close>

lemma swap_ends_lines:
  assumes "cm_anchor a = Some x" "cm_pos a = Some q"
  shows "cm_anchor (swap_ends a) = Some q \<and> cm_pos (swap_ends a) = Some x \<and>
    (selection_lines (swap_ends a) q x = prod.swap (selection_lines a x q) \<longleftrightarrow> cm_anchor_scroll a = cm_scroll a)"
  using assms by (auto simp: swap_ends_def selection_lines_def prod.swap_def)

section \<open>Cells that were never written\<close>

text \<open>
  A capture of a row leaves them out: \<open>a\<close>, three cells the program jumped over, and \<open>b\<close> are
  captured as \<open>ab\<close>.
\<close>

lemma capture_drops_gaps:
  "capture_rows (demo_screen [] [''a   b'']) 5 [0] = Some [97, 98, 10]"
proof -
  have c: "cell_text False (demo_screen [] [''a   b'']) 0 c = Some (if ''a   b'' ! c = CHR '' '' then [] else [of_char (''a   b'' ! c)])"
    if "c < 5" for c
  proof -
    have "(of_char (''a   b'' ! c) :: nat) < 128" using that by (auto simp: less_Suc_eq eval_nat_numeral)
    then show ?thesis using that by (simp add: cell_text_def demo_screen_cell demo_cell_text)
  qed
  have cs: "[0 ..< 5] = [0, 1, 2, 3, 4 :: nat]" by (simp add: upt_rec)
  have "span_text False (demo_screen [] [''a   b'']) 0 [0 ..< 5] = Some [97, 98]"
    unfolding span_text_def cs by (simp add: c)
  then show ?thesis by (simp add: capture_rows_def trim_end_def white_def newline_def)
qed

end
