(* ===== verification/Relay.thy ===== *)
theory Relay
  imports Wire Ordered
begin

text \<open>
  The relay of the remote helper between its standard streams and the socket of the broker
  (\<open>relay_stdio\<close> and \<open>RelayState\<close>, core/crates/winsmux-remote-helper/src/session.rs).

  The first five fields are those of the code. The others record what went through: the bytes
  read from and written to each side, whether the sending half of the socket was shut down, and
  how the relay ended. A turn of the loop takes the results of its system calls as arguments.
\<close>

section \<open>The state\<close>

datatype stdin_state = StdinOpen | EofClean | EofTruncated

datatype socket_rx = RxOpen | RxEof

datatype socket_tx = Collecting | TxQueued "byte list" nat | TxClosed

datatype stdout_tx = OutEmpty | OutQueued "byte list" nat

datatype relay_error = FrameTooLong | TruncatedFrame | PollInvalid | PollError | WriteZero | SystemError

datatype relay_end = RelayDone | RelayFailed relay_error

record relay =
  rs_stdin :: stdin_state
  rs_rx :: socket_rx
  rs_frame :: "byte list"
  rs_to_socket :: socket_tx
  rs_to_stdout :: stdout_tx
  from_stdin :: "byte list"
  sent :: "byte list"
  from_socket :: "byte list"
  written :: "byte list"
  shut :: bool
  ended :: "relay_end option"

definition relay_new :: relay where
  "relay_new =
     \<lparr>rs_stdin = StdinOpen, rs_rx = RxOpen, rs_frame = [], rs_to_socket = Collecting, rs_to_stdout = OutEmpty,
      from_stdin = [], sent = [], from_socket = [], written = [], shut = False, ended = None\<rparr>"

definition PREFIX_LEN :: nat where "PREFIX_LEN = 4"
definition RELAY_BUFFER :: nat where "RELAY_BUFFER = 8192"

definition wants_stdin_read :: "relay \<Rightarrow> bool" where
  "wants_stdin_read s = (rs_stdin s = StdinOpen \<and> rs_to_socket s = Collecting)"

definition tx_queued :: "relay \<Rightarrow> bool" where
  "tx_queued s = (case rs_to_socket s of TxQueued _ _ \<Rightarrow> True | _ \<Rightarrow> False)"

definition out_queued :: "relay \<Rightarrow> bool" where
  "out_queued s = (case rs_to_stdout s of OutQueued _ _ \<Rightarrow> True | _ \<Rightarrow> False)"

text \<open>Whether the socket is polled for input and for output.\<close>

definition socket_events :: "relay \<Rightarrow> bool \<times> bool" where
  "socket_events s = (if rs_rx s = RxEof then (False, False) else (rs_to_stdout s = OutEmpty, tx_queued s))"

section \<open>System calls\<close>

text \<open>No bytes read is the end of the input.\<close>

datatype read_call = Got "byte list" | ReadRetry | ReadFails

datatype write_call = Wrote nat | WriteRetry | WriteFails

record revents =
  ev_in :: bool
  ev_out :: bool
  ev_hup :: bool
  ev_err :: bool
  ev_nval :: bool

definition no_events :: revents where
  "no_events = \<lparr>ev_in = False, ev_out = False, ev_hup = False, ev_err = False, ev_nval = False\<rparr>"

text \<open>What \<open>poll\<close> reports for the standard input, the socket and the standard output.\<close>

datatype poll_call = PollInterrupted | PollFails | Polled revents revents revents

record turn =
  call_shutdown :: bool
  call_poll :: poll_call
  call_write_stdout :: write_call
  call_read_socket :: read_call
  call_write_socket :: write_call
  call_read_stdin :: read_call

section \<open>The loop\<close>

definition relay_stop :: "relay_end \<Rightarrow> relay \<Rightarrow> relay option" where
  "relay_stop r s = Some (s\<lparr>ended := Some r\<rparr>)"

text \<open>The question mark: an error ends the relay.\<close>

definition relay_try :: "relay \<Rightarrow> relay_error + 'a \<Rightarrow> ('a \<Rightarrow> relay option) \<Rightarrow> relay option" where
  "relay_try s r k = (case r of Inl e \<Rightarrow> relay_stop (RelayFailed e) s | Inr x \<Rightarrow> k x)"

definition unless_ended :: "(relay \<Rightarrow> relay option) \<Rightarrow> relay \<Rightarrow> relay option" where
  "unless_ended f s = (if ended s = None then f s else Some s)"

definition relay_stdin_frame_len :: "byte list \<Rightarrow> relay_error + nat" where
  "relay_stdin_frame_len frame =
     (if length frame < PREFIX_LEN then Inr PREFIX_LEN
      else let declared = from_be_bytes (take PREFIX_LEN frame)
           in if declared > MAX_FRAME_LEN then Inl FrameTooLong else Inr (PREFIX_LEN + declared))"

definition queue_complete_stdin_frame :: "relay \<Rightarrow> relay_error + relay" where
  "queue_complete_stdin_frame s =
     (if rs_to_socket s \<noteq> Collecting \<or> length (rs_frame s) < PREFIX_LEN then Inr s
      else attempt (relay_stdin_frame_len (rs_frame s)) (\<lambda>n.
        Inr (if length (rs_frame s) = n then s\<lparr>rs_frame := [], rs_to_socket := TxQueued (rs_frame s) 0\<rparr> else s)))"

text \<open>The part of a turn before \<open>poll\<close>.\<close>

definition shut_down_sender :: "bool \<Rightarrow> relay \<Rightarrow> relay option" where
  "shut_down_sender ok s =
     (if rs_stdin s = EofClean \<and> rs_to_socket s = Collecting
      then if ok then Some (s\<lparr>rs_to_socket := TxClosed, shut := True\<rparr>) else relay_stop (RelayFailed SystemError) s
      else Some s)"

definition relay_begin :: "bool \<Rightarrow> relay \<Rightarrow> relay option" where
  "relay_begin ok s =
     relay_try s (queue_complete_stdin_frame s) (\<lambda>s.
       if rs_stdin s = EofTruncated then relay_stop (RelayFailed TruncatedFrame) s
       else do {
         s \<leftarrow> shut_down_sender ok s;
         unless_ended
           (\<lambda>s. if rs_rx s = RxEof \<and> rs_to_stdout s = OutEmpty then relay_stop RelayDone s else Some s) s
       })"

definition relay_reject_poll_error :: "revents \<Rightarrow> relay_error + unit" where
  "relay_reject_poll_error r =
     attempt (ensure (\<not> ev_nval r) PollInvalid) (\<lambda>_. ensure (\<not> ev_err r) PollError)"

text \<open>One write: the new offset, and whether everything is written. A slice beyond the bytes panics.\<close>

definition relay_write_once :: "write_call \<Rightarrow> byte list \<Rightarrow> nat \<Rightarrow> (relay_error + (nat \<times> bool)) option" where
  "relay_write_once c bytes offset =
     (if offset > length bytes then None
      else Some (case c of
                   Wrote n \<Rightarrow> if n = 0 then Inl WriteZero else Inr (offset + n, offset + n = length bytes)
                 | WriteRetry \<Rightarrow> Inr (offset, False)
                 | WriteFails \<Rightarrow> Inl SystemError))"

definition flush_stdout :: "write_call \<Rightarrow> relay \<Rightarrow> relay option" where
  "flush_stdout c s =
     (case rs_to_stdout s of
        OutQueued bytes offset \<Rightarrow>
          do {
            r \<leftarrow> relay_write_once c bytes offset;
            relay_try s r (\<lambda>(n, fin).
              Some (s\<lparr>rs_to_stdout := (if fin then OutEmpty else OutQueued bytes n),
                      written := written s @ take (n - offset) (drop offset bytes)\<rparr>))
          }
      | OutEmpty \<Rightarrow> Some s)"

definition read_socket :: "read_call \<Rightarrow> relay \<Rightarrow> relay option" where
  "read_socket c s =
     (if rs_to_stdout s \<noteq> OutEmpty then Some s
      else case c of
             Got bs \<Rightarrow> Some (if bs = [] then s\<lparr>rs_rx := RxEof\<rparr>
                             else s\<lparr>rs_to_stdout := OutQueued bs 0, from_socket := from_socket s @ bs\<rparr>)
           | ReadRetry \<Rightarrow> Some s
           | ReadFails \<Rightarrow> relay_stop (RelayFailed SystemError) s)"

definition flush_socket :: "write_call \<Rightarrow> relay \<Rightarrow> relay option" where
  "flush_socket c s =
     (case rs_to_socket s of
        TxQueued bytes offset \<Rightarrow>
          do {
            r \<leftarrow> relay_write_once c bytes offset;
            relay_try s r (\<lambda>(n, fin).
              Some (s\<lparr>rs_to_socket := (if fin then Collecting else TxQueued bytes n),
                      sent := sent s @ take (n - offset) (drop offset bytes)\<rparr>))
          }
      | _ \<Rightarrow> Some s)"

text \<open>The subtraction that says how much is still to read panics when there is more than the frame.\<close>

definition read_stdin_once :: "read_call \<Rightarrow> relay \<Rightarrow> relay option" where
  "read_stdin_once c s =
     relay_try s (relay_stdin_frame_len (rs_frame s)) (\<lambda>n.
       if n < length (rs_frame s) then None
       else case c of
              Got bs \<Rightarrow>
                Some (if bs \<noteq> [] then s\<lparr>rs_frame := rs_frame s @ bs, from_stdin := from_stdin s @ bs\<rparr>
                      else s\<lparr>rs_stdin := (if rs_frame s = [] then EofClean else EofTruncated)\<rparr>)
            | ReadRetry \<Rightarrow> Some s
            | ReadFails \<Rightarrow> relay_stop (RelayFailed SystemError) s)"

definition after_poll :: "turn \<Rightarrow> revents \<Rightarrow> revents \<Rightarrow> revents \<Rightarrow> relay \<Rightarrow> relay option" where
  "after_poll t r0 r1 r2 s =
     do {
       s \<leftarrow> (if ev_out r2 then flush_stdout (call_write_stdout t) s else Some s);
       s \<leftarrow> unless_ended (\<lambda>s. if ev_in r1 \<or> ev_hup r1 then read_socket (call_read_socket t) s else Some s) s;
       s \<leftarrow> unless_ended (\<lambda>s. if rs_rx s = RxOpen \<and> ev_out r1 then flush_socket (call_write_socket t) s else Some s) s;
       unless_ended (\<lambda>s. if ev_in r0 \<or> ev_hup r0 then read_stdin_once (call_read_stdin t) s else Some s) s
     }"

definition relay_polled :: "turn \<Rightarrow> relay \<Rightarrow> relay option" where
  "relay_polled t s =
     (case call_poll t of
        PollInterrupted \<Rightarrow> Some s
      | PollFails \<Rightarrow> relay_stop (RelayFailed SystemError) s
      | Polled r0 r1 r2 \<Rightarrow>
          relay_try s (attempt (relay_reject_poll_error r0) (\<lambda>_. attempt (relay_reject_poll_error r1) (\<lambda>_. relay_reject_poll_error r2)))
            (\<lambda>_. after_poll t r0 r1 r2 s))"

definition relay_turn :: "turn \<Rightarrow> relay \<Rightarrow> relay option" where
  "relay_turn t = unless_ended (\<lambda>s. do { s \<leftarrow> relay_begin (call_shutdown t) s; unless_ended (relay_polled t) s })"

section \<open>The operating system\<close>

text \<open>
  What the system calls guarantee: \<open>poll\<close> reports nothing for a descriptor it does not watch and
  readiness only where it was asked for (errors and hang-ups come unasked); a read gives at most
  what was asked for, a write takes at most what it was given.
\<close>

definition stdin_limit :: "relay \<Rightarrow> nat" where
  "stdin_limit s =
     (case relay_stdin_frame_len (rs_frame s) of
        Inl _ \<Rightarrow> 0 | Inr n \<Rightarrow> min (n - length (rs_frame s)) RELAY_BUFFER)"

text \<open>The bytes still held for each side.\<close>

definition held_tx :: "socket_tx \<Rightarrow> byte list" where
  "held_tx q = (case q of TxQueued b n \<Rightarrow> drop n b | _ \<Rightarrow> [])"

definition held_out :: "stdout_tx \<Rightarrow> byte list" where
  "held_out q = (case q of OutQueued b n \<Rightarrow> drop n b | OutEmpty \<Rightarrow> [])"

definition poll_ok :: "relay \<Rightarrow> poll_call \<Rightarrow> bool" where
  "poll_ok s p =
     (case p of
        Polled r0 r1 r2 \<Rightarrow>
          (wants_stdin_read s \<or> r0 = no_events) \<and>
          (if socket_events s = (False, False) then r1 = no_events
           else (ev_in r1 \<longrightarrow> fst (socket_events s)) \<and> (ev_out r1 \<longrightarrow> snd (socket_events s))) \<and>
          (out_queued s \<or> r2 = no_events)
      | _ \<Rightarrow> True)"

definition read_ok :: "nat \<Rightarrow> read_call \<Rightarrow> bool" where
  "read_ok limit c = (case c of Got bs \<Rightarrow> length bs \<le> limit | _ \<Rightarrow> True)"

definition write_ok :: "nat \<Rightarrow> write_call \<Rightarrow> bool" where
  "write_ok limit c = (case c of Wrote n \<Rightarrow> n \<le> limit | _ \<Rightarrow> True)"

definition os_ok :: "turn \<Rightarrow> relay \<Rightarrow> bool" where
  "os_ok t s =
     (case relay_begin (call_shutdown t) s of
        None \<Rightarrow> True
      | Some s1 \<Rightarrow>
          poll_ok s1 (call_poll t) \<and> write_ok (length (held_out (rs_to_stdout s1))) (call_write_stdout t) \<and>
          read_ok RELAY_BUFFER (call_read_socket t) \<and> write_ok (length (held_tx (rs_to_socket s1))) (call_write_socket t) \<and>
          read_ok (stdin_limit s1) (call_read_stdin t))"

inductive relayed :: "relay \<Rightarrow> bool" where
  relayed_start: "relayed relay_new"
| relayed_turn: "relayed s \<Longrightarrow> os_ok t s \<Longrightarrow> relay_turn t s = Some s' \<Longrightarrow> relayed s'"

end
