(* ===== verification/Relay_Props.thy ===== *)
theory Relay_Props
  imports Relay
begin

text \<open>
  What the relay guarantees whatever the system calls return: an instance of \<open>safe_machine\<close>,
  carried over to every reachable state by rule induction.
\<close>

section \<open>The invariant\<close>

definition is_frame :: "byte list \<Rightarrow> bool" where
  "is_frame b = (relay_stdin_frame_len b = Inr (length b) \<and> PREFIX_LEN \<le> length b)"

definition frames :: "byte list \<Rightarrow> bool" where
  "frames bs = (\<exists>fs. (\<forall>f\<in>set fs. is_frame f) \<and> bs = concat fs)"

text \<open>The frame being read is the beginning of one.\<close>

definition part_of_frame :: "byte list \<Rightarrow> bool" where
  "part_of_frame b = (length b \<le> PREFIX_LEN \<or> (\<exists>n. relay_stdin_frame_len b = Inr n \<and> length b \<le> n))"

definition tx_ok :: "socket_tx \<Rightarrow> byte list \<Rightarrow> stdin_state \<Rightarrow> bool" where
  "tx_ok q part i =
     (case q of
        TxQueued b n \<Rightarrow> n < length b \<and> length b \<le> PREFIX_LEN + MAX_FRAME_LEN \<and> part = [] \<and> i = StdinOpen
      | TxClosed \<Rightarrow> i = EofClean
      | Collecting \<Rightarrow> True)"

definition stdin_ok :: "byte list \<Rightarrow> stdin_state \<Rightarrow> bool" where
  "stdin_ok part i = ((i = EofClean \<longrightarrow> part = []) \<and> part_of_frame part \<and>
      (i = EofTruncated \<longrightarrow> part \<noteq> [] \<and> (\<exists>n. relay_stdin_frame_len part = Inr n \<and> length part < n)))"

definition out_ok :: "stdout_tx \<Rightarrow> bool" where
  "out_ok q = (case q of OutQueued b n \<Rightarrow> n < length b \<and> length b \<le> RELAY_BUFFER | OutEmpty \<Rightarrow> True)"

definition end_ok :: "relay_end option \<Rightarrow> socket_rx \<Rightarrow> stdout_tx \<Rightarrow> stdin_state \<Rightarrow> bool" where
  "end_ok e rx out i =
     ((e = Some RelayDone \<longrightarrow> rx = RxEof \<and> out = OutEmpty) \<and> (e = Some (RelayFailed TruncatedFrame) \<longrightarrow> i = EofTruncated))"

definition relay_inv :: "relay \<Rightarrow> bool" where
  "relay_inv s =
     (from_stdin s = sent s @ held_tx (rs_to_socket s) @ rs_frame s \<and> frames (sent s @ held_tx (rs_to_socket s)) \<and>
      from_socket s = written s @ held_out (rs_to_stdout s) \<and>
      stdin_ok (rs_frame s) (rs_stdin s) \<and> tx_ok (rs_to_socket s) (rs_frame s) (rs_stdin s) \<and> out_ok (rs_to_stdout s) \<and>
      (shut s \<longleftrightarrow> rs_to_socket s = TxClosed) \<and> end_ok (ended s) (rs_rx s) (rs_to_stdout s) (rs_stdin s))"

text \<open>After the part before \<open>poll\<close> there is something to read when the standard input is watched.\<close>

definition collecting_ok :: "socket_tx \<Rightarrow> byte list \<Rightarrow> bool" where
  "collecting_ok q part =
     (q = Collecting \<longrightarrow> (\<exists>n. relay_stdin_frame_len part = Inr n \<and> length part < n))"

lemma frames_snoc:
  assumes "frames bs" "is_frame b"
  shows "frames (bs @ b)"
proof -
  obtain fs where fs: "\<forall>f\<in>set fs. is_frame f" "bs = concat fs" using assms(1) unfolding frames_def by blast
  then have "\<forall>f\<in>set (fs @ [b]). is_frame f" "bs @ b = concat (fs @ [b])" using assms(2) by auto
  then show ?thesis unfolding frames_def by blast
qed

lemma frame_len_bounds:
  assumes "relay_stdin_frame_len b = Inr n"
  shows "PREFIX_LEN \<le> n" "n \<le> PREFIX_LEN + MAX_FRAME_LEN"
  using assms by (auto simp: relay_stdin_frame_len_def Let_def split: if_splits)

lemma frame_len_append:
  assumes "PREFIX_LEN \<le> length b"
  shows "relay_stdin_frame_len (b @ c) = relay_stdin_frame_len b"
  using assms by (simp add: relay_stdin_frame_len_def)

lemma held_simps [simp]:
  "held_tx Collecting = []" "held_tx TxClosed = []" "held_tx (TxQueued b n) = drop n b"
  "held_out OutEmpty = []" "held_out (OutQueued b n) = drop n b"
  by (simp_all add: held_tx_def held_out_def)

lemma ok_simps [simp]:
  "tx_ok Collecting part i" "tx_ok TxClosed part i \<longleftrightarrow> i = EofClean"
  "tx_ok (TxQueued b n) part i \<longleftrightarrow> n < length b \<and> length b \<le> PREFIX_LEN + MAX_FRAME_LEN \<and> part = [] \<and> i = StdinOpen"
  "out_ok OutEmpty" "out_ok (OutQueued b n) \<longleftrightarrow> n < length b \<and> length b \<le> RELAY_BUFFER"
  "stdin_ok [] StdinOpen" "end_ok None rx out i" "end_ok (Some RelayDone) rx out i \<longleftrightarrow> rx = RxEof \<and> out = OutEmpty"
  "end_ok (Some (RelayFailed e)) rx out i \<longleftrightarrow> (e = TruncatedFrame \<longrightarrow> i = EofTruncated)"
  by (auto simp: tx_ok_def out_ok_def end_ok_def stdin_ok_def part_of_frame_def)

lemma relay_new_inv: "relay_inv relay_new"
  by (auto simp: relay_inv_def relay_new_def frames_def stdin_ok_def part_of_frame_def intro: exI [of _ "[]"])

section \<open>The parts of a turn\<close>

text \<open>How far the relay has come: bytes moved and ends reached.\<close>

definition moved :: "relay \<Rightarrow> nat" where
  "moved s =
     length (from_stdin s) + length (sent s) + length (from_socket s) + length (written s) +
     of_bool (rs_rx s = RxEof) + of_bool (rs_stdin s \<noteq> StdinOpen)"

text \<open>
  A part of a turn that cannot panic, keeps the invariant and takes nothing back; when it does not
  end the relay, what else holds.
\<close>

definition part_ok :: "relay \<Rightarrow> relay option \<Rightarrow> (relay \<Rightarrow> bool) \<Rightarrow> bool" where
  "part_ok s0 r q = (\<exists>s. r = Some s \<and> relay_inv s \<and> moved s0 \<le> moved s \<and> (ended s = None \<longrightarrow> q s))"

lemma part_okI: "relay_inv s \<Longrightarrow> moved s0 \<le> moved s \<Longrightarrow> (ended s = None \<Longrightarrow> q s) \<Longrightarrow> part_ok s0 (Some s) q"
  by (simp add: part_ok_def)

lemma part_ok_bind:
  assumes "part_ok s0 r q" "\<And>s. relay_inv s \<Longrightarrow> ended s = None \<Longrightarrow> moved s0 \<le> moved s \<Longrightarrow> q s \<Longrightarrow> part_ok s0 (f s) q'"
  shows "part_ok s0 (Option.bind r (unless_ended f)) q'"
  using assms by (auto simp: part_ok_def unless_ended_def)

lemma part_ok_mono:
  assumes "part_ok s r q" "moved s0 \<le> moved s" "\<And>s'. relay_inv s' \<Longrightarrow> q s' \<Longrightarrow> moved s \<le> moved s' \<Longrightarrow> q' s'"
  shows "part_ok s0 r q'"
  using assms by (fastforce simp: part_ok_def)

lemma part_ok_stop:
  assumes "relay_inv s" "e = TruncatedFrame \<Longrightarrow> rs_stdin s = EofTruncated" "moved s0 \<le> moved s"
  shows "part_ok s0 (relay_stop (RelayFailed e) s) q"
  using assms by (simp add: part_ok_def relay_stop_def relay_inv_def moved_def)

lemma queue_ok:
  assumes "relay_inv s" "queue_complete_stdin_frame s = Inr s'"
  shows "relay_inv s' \<and> collecting_ok (rs_to_socket s') (rs_frame s') \<and> ended s' = ended s"
proof (cases "rs_to_socket s \<noteq> Collecting \<or> length (rs_frame s) < PREFIX_LEN")
  case True
  then have "s' = s" using assms(2) by (simp add: queue_complete_stdin_frame_def)
  then show ?thesis using assms(1) True by (auto simp: collecting_ok_def relay_stdin_frame_len_def)
next
  case False
  then obtain n where n: "relay_stdin_frame_len (rs_frame s) = Inr n"
    "s' = (if length (rs_frame s) = n then s\<lparr>rs_frame := [], rs_to_socket := TxQueued (rs_frame s) 0\<rparr> else s)"
    using assms(2) by (auto simp: queue_complete_stdin_frame_def)
  have part: "part_of_frame (rs_frame s)" using assms(1) by (simp add: relay_inv_def stdin_ok_def)
  then have le: "length (rs_frame s) \<le> n" using n(1) frame_len_bounds(1) [OF n(1)] by (auto simp: part_of_frame_def)
  show ?thesis
  proof (cases "length (rs_frame s) = n")
    case True
    have "is_frame (rs_frame s)" using n(1) True False by (simp add: is_frame_def)
    then have "frames (sent s @ rs_frame s)" using assms(1) False by (intro frames_snoc) (simp_all add: relay_inv_def)
    moreover have "0 < length (rs_frame s)" using False by (auto simp: PREFIX_LEN_def)
    moreover have "rs_stdin s \<noteq> EofTruncated" using assms(1) n(1) True by (auto simp: relay_inv_def stdin_ok_def)
    ultimately show ?thesis
      using assms(1) n True False frame_len_bounds(2) [OF n(1)]
      by (cases "rs_stdin s") (auto simp: relay_inv_def stdin_ok_def part_of_frame_def collecting_ok_def)
  qed (use assms(1) n le in \<open>simp add: collecting_ok_def\<close>)
qed

lemma queue_moved: "queue_complete_stdin_frame s = Inr s' \<Longrightarrow> moved s' = moved s \<and> rs_stdin s' = rs_stdin s"
  by (auto simp: queue_complete_stdin_frame_def moved_def split: if_splits)

text \<open>When \<open>poll\<close> is called.\<close>

definition ready_to_poll :: "relay \<Rightarrow> bool" where
  "ready_to_poll s =
     (collecting_ok (rs_to_socket s) (rs_frame s) \<and> rs_stdin s \<noteq> EofTruncated \<and>
      (rs_stdin s = EofClean \<longrightarrow> rs_to_socket s = TxClosed) \<and> \<not> (rs_rx s = RxEof \<and> rs_to_stdout s = OutEmpty))"

lemma begin_ok:
  assumes "relay_inv s" "ended s = None"
  shows "part_ok s (relay_begin ok s) ready_to_poll"
proof (cases "queue_complete_stdin_frame s")
  case (Inl e)
  have "e \<noteq> TruncatedFrame" using Inl by (auto simp: queue_complete_stdin_frame_def attempt_Inl relay_stdin_frame_len_def Let_def split: if_splits)
  then show ?thesis using part_ok_stop [OF assms(1), of e s] Inl by (simp add: relay_begin_def relay_try_def)
next
  case (Inr s1)
  note q = queue_ok [OF assms(1) Inr] queue_moved [OF Inr]
  show ?thesis
  proof (cases "rs_stdin s1 = EofTruncated")
    case True
    then show ?thesis using part_ok_stop [of s1 TruncatedFrame s] q Inr by (simp add: relay_begin_def relay_try_def)
  next
    case False
    have "part_ok s (shut_down_sender ok s1) (\<lambda>s2. collecting_ok (rs_to_socket s2) (rs_frame s2) \<and> rs_stdin s2 \<noteq> EofTruncated \<and>
        (rs_stdin s2 = EofClean \<longrightarrow> rs_to_socket s2 = TxClosed))"
    proof (cases "rs_stdin s1 = EofClean \<and> rs_to_socket s1 = Collecting")
      case clean: True
      show ?thesis
      proof (cases ok)
        case True
        have "relay_inv (s1\<lparr>rs_to_socket := TxClosed, shut := True\<rparr>)"
          using q(1) clean assms(2) by (simp add: relay_inv_def)
        then show ?thesis unfolding shut_down_sender_def using clean True q
          by (auto simp: moved_def collecting_ok_def intro!: part_okI)
      qed (use clean q part_ok_stop [of s1 SystemError s] in \<open>simp add: shut_down_sender_def\<close>)
    next
      case dirty: False
      have "rs_stdin s1 = EofClean \<Longrightarrow> rs_to_socket s1 = TxClosed"
        using dirty q(1) by (cases "rs_to_socket s1") (auto simp: relay_inv_def)
      then show ?thesis unfolding shut_down_sender_def if_not_P [OF dirty] using q False by (simp add: part_okI)
    qed
    then have "part_ok s (Option.bind (shut_down_sender ok s1)
        (unless_ended (\<lambda>s. if rs_rx s = RxEof \<and> rs_to_stdout s = OutEmpty then relay_stop RelayDone s else Some s))) ready_to_poll"
      by (rule part_ok_bind) (auto simp: part_ok_def relay_stop_def relay_inv_def moved_def ready_to_poll_def)
    then show ?thesis using False Inr by (simp add: relay_begin_def relay_try_def)
  qed
qed

text \<open>A write moves what it took from the held bytes to the written ones.\<close>

lemma take_held: "drop n b = take k (drop n b) @ drop (n + k) b"
  using append_take_drop_id [of k "drop n b"] by (simp add: add.commute)

definition keeps_stdin :: "relay \<Rightarrow> relay \<Rightarrow> bool" where
  "keeps_stdin s s' = (rs_frame s' = rs_frame s \<and> rs_stdin s' = rs_stdin s)"

lemma flush_stdout_ok:
  assumes "relay_inv s" "ended s = None" "write_ok (length (held_out (rs_to_stdout s))) c"
  shows "part_ok s (flush_stdout c s) (\<lambda>s'. keeps_stdin s s' \<and> rs_to_socket s' = rs_to_socket s \<and> rs_rx s' = rs_rx s \<and>
    (rs_to_stdout s = OutEmpty \<longrightarrow> rs_to_stdout s' = OutEmpty) \<and> (out_queued s \<and> c \<noteq> WriteRetry \<longrightarrow> moved s < moved s'))"
proof (cases "rs_to_stdout s")
  case OutEmpty
  then show ?thesis using assms(1) by (simp add: flush_stdout_def part_okI keeps_stdin_def out_queued_def)
next
  case (OutQueued b n)
  have n: "n < length b" using assms(1) OutQueued by (simp add: relay_inv_def)
  show ?thesis
  proof (cases c)
    case (Wrote k)
    show ?thesis
    proof (cases "k = 0")
      case True
      then show ?thesis using part_ok_stop [OF assms(1), of WriteZero s] n OutQueued Wrote
        by (simp add: flush_stdout_def relay_write_once_def relay_try_def)
    next
      case False
      have k: "k \<le> length b - n" using assms(3) OutQueued Wrote by (simp add: write_ok_def)
      then have nk: "n + k \<noteq> length b \<Longrightarrow> n + k < length b" using n by linarith
      let ?s = "s\<lparr>rs_to_stdout := (if n + k = length b then OutEmpty else OutQueued b (n + k)),
                  written := written s @ take k (drop n b)\<rparr>"
      have "held_out (rs_to_stdout s) = take k (drop n b) @ held_out (rs_to_stdout ?s)"
        using take_held [of n b k] k OutQueued by simp
      then have "relay_inv ?s" using assms(1,2) OutQueued nk n by (simp add: relay_inv_def)
      moreover have "moved s < moved ?s" using k n False by (simp add: moved_def)
      moreover have "flush_stdout c s = Some ?s"
        using n False OutQueued Wrote by (simp add: flush_stdout_def relay_write_once_def relay_try_def)
      ultimately show ?thesis using OutQueued by (simp add: part_okI keeps_stdin_def)
    qed
  next
    case WriteRetry
    then show ?thesis using assms(1) n OutQueued
      by (cases s) (simp add: flush_stdout_def relay_write_once_def relay_try_def part_okI keeps_stdin_def)
  next
    case WriteFails
    then show ?thesis using part_ok_stop [OF assms(1), of SystemError s] n OutQueued
      by (simp add: flush_stdout_def relay_write_once_def relay_try_def)
  qed
qed

lemma read_socket_ok:
  assumes "relay_inv s" "ended s = None" "read_ok RELAY_BUFFER c"
  shows "part_ok s (read_socket c s) (\<lambda>s'. keeps_stdin s s' \<and> rs_to_socket s' = rs_to_socket s \<and>
    (rs_rx s' \<noteq> rs_rx s \<longrightarrow> moved s < moved s') \<and>
    (rs_rx s = RxOpen \<and> rs_to_stdout s = OutEmpty \<and> c \<noteq> ReadRetry \<longrightarrow> moved s < moved s'))"
proof (cases "rs_to_stdout s = OutEmpty")
  case empty: True
  show ?thesis
  proof (cases c)
    case (Got bs)
    show ?thesis
    proof (cases "bs = []")
      case True
      have "relay_inv (s\<lparr>rs_rx := RxEof\<rparr>)" using assms(1,2) by (simp add: relay_inv_def)
      then show ?thesis using empty Got True by (cases "rs_rx s") (auto simp: read_socket_def keeps_stdin_def moved_def intro!: part_okI)
    next
      case False
      then have "relay_inv (s\<lparr>rs_to_stdout := OutQueued bs 0, from_socket := from_socket s @ bs\<rparr>)"
        using assms empty Got by (simp add: relay_inv_def read_ok_def)
      then show ?thesis using empty Got False by (auto simp: read_socket_def keeps_stdin_def moved_def intro!: part_okI)
    qed
  next
    case ReadRetry
    then show ?thesis using empty assms(1) by (simp add: read_socket_def keeps_stdin_def part_okI)
  next
    case ReadFails
    then show ?thesis using empty part_ok_stop [OF assms(1), of SystemError s] by (simp add: read_socket_def)
  qed
qed (use assms(1) in \<open>simp add: read_socket_def keeps_stdin_def part_okI\<close>)

lemma flush_socket_ok:
  assumes "relay_inv s" "ended s = None" "write_ok (length (held_tx (rs_to_socket s))) c"
  shows "part_ok s (flush_socket c s) (\<lambda>s'. keeps_stdin s s' \<and> (rs_to_socket s = Collecting \<longrightarrow> s' = s) \<and>
    (tx_queued s \<and> c \<noteq> WriteRetry \<longrightarrow> moved s < moved s'))"
proof (cases "rs_to_socket s")
  case (TxQueued b n)
  have n: "n < length b" using assms(1) TxQueued by (simp add: relay_inv_def)
  show ?thesis
  proof (cases c)
    case (Wrote k)
    show ?thesis
    proof (cases "k = 0")
      case True
      then show ?thesis using part_ok_stop [OF assms(1), of WriteZero s] n TxQueued Wrote
        by (simp add: flush_socket_def relay_write_once_def relay_try_def)
    next
      case False
      have k: "k \<le> length b - n" using assms(3) TxQueued Wrote by (simp add: write_ok_def)
      then have nk: "n + k \<noteq> length b \<Longrightarrow> n + k < length b" using n by linarith
      let ?s = "s\<lparr>rs_to_socket := (if n + k = length b then Collecting else TxQueued b (n + k)),
                  sent := sent s @ take k (drop n b)\<rparr>"
      have "held_tx (rs_to_socket s) = take k (drop n b) @ held_tx (rs_to_socket ?s)"
        using take_held [of n b k] k TxQueued by simp
      then have "relay_inv ?s" using assms(1,2) TxQueued nk n by (simp add: relay_inv_def)
      moreover have "moved s < moved ?s" using k n False by (simp add: moved_def)
      moreover have "flush_socket c s = Some ?s"
        using n False TxQueued Wrote by (simp add: flush_socket_def relay_write_once_def relay_try_def)
      ultimately show ?thesis using TxQueued by (simp add: part_okI keeps_stdin_def)
    qed
  next
    case WriteRetry
    then show ?thesis using assms(1) n TxQueued
      by (cases s) (simp add: flush_socket_def relay_write_once_def relay_try_def part_okI keeps_stdin_def)
  next
    case WriteFails
    then show ?thesis using part_ok_stop [OF assms(1), of SystemError s] n TxQueued
      by (simp add: flush_socket_def relay_write_once_def relay_try_def)
  qed
qed (use assms(1) in \<open>simp_all add: flush_socket_def keeps_stdin_def part_okI tx_queued_def\<close>)

lemma part_of_frame_append:
  assumes "relay_stdin_frame_len b = Inr n" "length b < n" "length c \<le> n - length b"
  shows "part_of_frame (b @ c)"
proof (cases "length b < PREFIX_LEN")
  case True
  then have "n = PREFIX_LEN" using assms(1) by (simp add: relay_stdin_frame_len_def)
  then have "length b + length c \<le> PREFIX_LEN" using assms(2,3) by linarith
  then show ?thesis by (simp add: part_of_frame_def)
next
  case False
  then show ?thesis using assms frame_len_append [of b c] by (auto simp: part_of_frame_def)
qed

lemma read_stdin_ok:
  assumes "relay_inv s" "ended s = None" "rs_to_socket s = Collecting" "rs_stdin s = StdinOpen"
    "collecting_ok (rs_to_socket s) (rs_frame s)" "read_ok (stdin_limit s) c"
  shows "part_ok s (read_stdin_once c s) (\<lambda>s'. c \<noteq> ReadRetry \<longrightarrow> moved s < moved s')"
proof -
  obtain n where n: "relay_stdin_frame_len (rs_frame s) = Inr n" "length (rs_frame s) < n"
    using assms(3,5) by (auto simp: collecting_ok_def)
  show ?thesis
  proof (cases c)
    case (Got bs)
    show ?thesis
    proof (cases "bs = []")
      case True
      have "stdin_ok (rs_frame s) (if rs_frame s = [] then EofClean else EofTruncated)"
        using assms(1) n by (auto simp: relay_inv_def stdin_ok_def)
      then have "relay_inv (s\<lparr>rs_stdin := (if rs_frame s = [] then EofClean else EofTruncated)\<rparr>)"
        using assms(1-3) by (simp add: relay_inv_def)
      then show ?thesis using n True Got assms(4) by (auto simp: read_stdin_once_def relay_try_def moved_def intro!: part_okI)
    next
      case False
      have "length bs \<le> n - length (rs_frame s)" using assms(6) Got n by (simp add: read_ok_def stdin_limit_def)
      then have "part_of_frame (rs_frame s @ bs)" by (rule part_of_frame_append [OF n])
      then have "relay_inv (s\<lparr>rs_frame := rs_frame s @ bs, from_stdin := from_stdin s @ bs\<rparr>)"
        using assms(1-4) by (simp add: relay_inv_def stdin_ok_def)
      then show ?thesis using n False Got by (auto simp: read_stdin_once_def relay_try_def moved_def intro!: part_okI)
    qed
  next
    case ReadRetry
    then show ?thesis using n assms(1) by (simp add: read_stdin_once_def relay_try_def part_okI)
  next
    case ReadFails
    then show ?thesis using n part_ok_stop [OF assms(1), of SystemError s] by (simp add: read_stdin_once_def relay_try_def)
  qed
qed

section \<open>A turn\<close>

lemma after_poll_seq:
  "after_poll t r0 r1 r2 s =
     Option.bind (Option.bind (Option.bind (if ev_out r2 then flush_stdout (call_write_stdout t) s else Some s)
       (unless_ended (\<lambda>s. if ev_in r1 \<or> ev_hup r1 then read_socket (call_read_socket t) s else Some s)))
       (unless_ended (\<lambda>s. if rs_rx s = RxOpen \<and> ev_out r1 then flush_socket (call_write_socket t) s else Some s)))
       (unless_ended (\<lambda>s. if ev_in r0 \<or> ev_hup r0 then read_stdin_once (call_read_stdin t) s else Some s))"
  by (simp add: after_poll_def)

definition calls_ok :: "turn \<Rightarrow> relay \<Rightarrow> bool" where
  "calls_ok t s =
     (write_ok (length (held_out (rs_to_stdout s))) (call_write_stdout t) \<and> read_ok RELAY_BUFFER (call_read_socket t) \<and>
      write_ok (length (held_tx (rs_to_socket s))) (call_write_socket t) \<and> read_ok (stdin_limit s) (call_read_stdin t))"

text \<open>A turn in which something watched is ready and no call asks to be tried again.\<close>

definition no_retries :: "turn \<Rightarrow> bool" where
  "no_retries t =
     (call_write_stdout t \<noteq> WriteRetry \<and> call_read_socket t \<noteq> ReadRetry \<and> call_write_socket t \<noteq> WriteRetry \<and>
      call_read_stdin t \<noteq> ReadRetry)"

definition something_ready :: "poll_call \<Rightarrow> bool" where
  "something_ready p =
     (case p of Polled r0 r1 r2 \<Rightarrow> ev_in r0 \<or> ev_hup r0 \<or> ev_in r1 \<or> ev_out r1 \<or> ev_out r2 | _ \<Rightarrow> False)"

lemma no_events_simps [simp]:
  "\<not> ev_in no_events" "\<not> ev_out no_events" "\<not> ev_hup no_events" "\<not> ev_err no_events" "\<not> ev_nval no_events"
  by (simp_all add: no_events_def)

lemma after_poll_ok:
  assumes "relay_inv s" "ended s = None" "ready_to_poll s" "poll_ok s (Polled r0 r1 r2)" "calls_ok t s"
  shows "part_ok s (after_poll t r0 r1 r2 s) (\<lambda>s'. no_retries t \<and> something_ready (Polled r0 r1 r2) \<longrightarrow> moved s < moved s')"
proof -
  have c: "write_ok (length (held_out (rs_to_stdout s))) (call_write_stdout t)" "read_ok RELAY_BUFFER (call_read_socket t)"
    "write_ok (length (held_tx (rs_to_socket s))) (call_write_socket t)" "read_ok (stdin_limit s) (call_read_stdin t)"
    using assms(5) by (simp_all add: calls_ok_def)
  have p0: "ev_in r0 \<or> ev_hup r0 \<Longrightarrow> wants_stdin_read s" using assms(4) by (auto simp: poll_ok_def)
  have p1: "ev_in r1 \<Longrightarrow> rs_rx s = RxOpen \<and> rs_to_stdout s = OutEmpty" "ev_out r1 \<Longrightarrow> rs_rx s = RxOpen \<and> tx_queued s"
    using assms(4) by (cases "rs_rx s"; auto simp: poll_ok_def socket_events_def split: if_splits)+
  have p2: "ev_out r2 \<Longrightarrow> out_queued s" using assms(4) by (auto simp: poll_ok_def)
  let ?go1 = "ev_out r2 \<and> no_retries t"
  let ?q1 = "\<lambda>s'. keeps_stdin s s' \<and> rs_to_socket s' = rs_to_socket s \<and> rs_rx s' = rs_rx s \<and>
      (rs_to_stdout s = OutEmpty \<longrightarrow> rs_to_stdout s' = OutEmpty) \<and> (?go1 \<longrightarrow> moved s < moved s')"
  let ?go2 = "(ev_out r2 \<or> ev_in r1) \<and> no_retries t"
  let ?q2 = "\<lambda>s'. keeps_stdin s s' \<and> rs_to_socket s' = rs_to_socket s \<and> (rs_rx s' \<noteq> rs_rx s \<longrightarrow> moved s < moved s') \<and>
      (?go2 \<longrightarrow> moved s < moved s')"
  let ?go3 = "(ev_out r2 \<or> ev_in r1 \<or> ev_out r1) \<and> no_retries t"
  let ?q3 = "\<lambda>s'. keeps_stdin s s' \<and> (rs_to_socket s = Collecting \<longrightarrow> rs_to_socket s' = Collecting) \<and> (?go3 \<longrightarrow> moved s < moved s')"
  have 1: "part_ok s (if ev_out r2 then flush_stdout (call_write_stdout t) s else Some s) ?q1"
  proof (cases "ev_out r2")
    case True
    show ?thesis unfolding if_P [OF True]
      by (rule part_ok_mono [OF flush_stdout_ok [OF assms(1,2) c(1)]]) (use p2 [OF True] in \<open>auto simp: no_retries_def\<close>)
  qed (use assms(1) in \<open>auto simp: keeps_stdin_def intro: part_okI\<close>)
  have 2: "part_ok s (if ev_in r1 \<or> ev_hup r1 then read_socket (call_read_socket t) s1 else Some s1) ?q2"
    if s1: "relay_inv s1" "ended s1 = None" "moved s \<le> moved s1" "?q1 s1" for s1
  proof (cases "ev_in r1 \<or> ev_hup r1")
    case True
    show ?thesis unfolding if_P [OF True]
      by (rule part_ok_mono [OF read_socket_ok [OF s1(1,2) c(2)] s1(3)])
        (use s1(3,4) p1(1) in \<open>auto simp: no_retries_def keeps_stdin_def\<close>)
  qed (use s1 in \<open>auto simp: keeps_stdin_def intro: part_okI\<close>)
  have 3: "part_ok s (if rs_rx s2 = RxOpen \<and> ev_out r1 then flush_socket (call_write_socket t) s2 else Some s2) ?q3"
    if s2: "relay_inv s2" "ended s2 = None" "moved s \<le> moved s2" "?q2 s2" for s2
  proof (cases "rs_rx s2 = RxOpen \<and> ev_out r1")
    case True
    have w: "write_ok (length (held_tx (rs_to_socket s2))) (call_write_socket t)" using c(3) s2(4) by simp
    show ?thesis unfolding if_P [OF True]
      by (rule part_ok_mono [OF flush_socket_ok [OF s2(1,2) w] s2(3)])
        (use s2(3,4) p1(2) True in \<open>auto simp: no_retries_def keeps_stdin_def tx_queued_def\<close>)
  next
    case False
    then show ?thesis using s2 p1(2) by (auto simp: keeps_stdin_def intro!: part_okI)
  qed
  have 4: "part_ok s (if ev_in r0 \<or> ev_hup r0 then read_stdin_once (call_read_stdin t) s3 else Some s3)
      (\<lambda>s'. no_retries t \<and> something_ready (Polled r0 r1 r2) \<longrightarrow> moved s < moved s')"
    if s3: "relay_inv s3" "ended s3 = None" "moved s \<le> moved s3" "?q3 s3" for s3
  proof (cases "ev_in r0 \<or> ev_hup r0")
    case True
    then have w: "rs_stdin s = StdinOpen" "rs_to_socket s = Collecting" using p0 by (auto simp: wants_stdin_read_def)
    then have w3: "rs_to_socket s3 = Collecting" "rs_stdin s3 = StdinOpen" "rs_frame s3 = rs_frame s"
      using s3(4) by (auto simp: keeps_stdin_def)
    have "stdin_limit s3 = stdin_limit s" unfolding stdin_limit_def w3(3) by (rule refl)
    then have "collecting_ok (rs_to_socket s3) (rs_frame s3)" "read_ok (stdin_limit s3) (call_read_stdin t)"
      using assms(3) w w3 c(4) by (simp_all add: ready_to_poll_def)
    from read_stdin_ok [OF s3(1,2) w3(1,2) this] show ?thesis unfolding if_P [OF True]
      by (rule part_ok_mono [OF _ s3(3)]) (use s3(3) in \<open>auto simp: no_retries_def\<close>)
  next
    case False
    then show ?thesis using s3 by (auto simp: something_ready_def intro!: part_okI)
  qed
  show ?thesis unfolding after_poll_seq
    by (rule part_ok_bind [OF part_ok_bind [OF part_ok_bind [OF 1 2] 3] 4])
qed

lemma polled_ok:
  assumes "relay_inv s" "ended s = None" "ready_to_poll s" "poll_ok s (call_poll t)" "calls_ok t s"
  shows "part_ok s (relay_polled t s) (\<lambda>s'. no_retries t \<and> something_ready (call_poll t) \<longrightarrow> moved s < moved s')"
proof (cases "call_poll t")
  case PollInterrupted
  then show ?thesis using assms(1) by (simp add: relay_polled_def something_ready_def part_okI)
next
  case PollFails
  then show ?thesis using part_ok_stop [OF assms(1), of SystemError s] by (simp add: relay_polled_def)
next
  case (Polled r0 r1 r2)
  let ?r = "attempt (relay_reject_poll_error r0) (\<lambda>_. attempt (relay_reject_poll_error r1) (\<lambda>_. relay_reject_poll_error r2))"
  show ?thesis
  proof (cases ?r)
    case (Inl e)
    then have "e \<noteq> TruncatedFrame" by (auto simp: attempt_Inl relay_reject_poll_error_def)
    then show ?thesis using part_ok_stop [OF assms(1), of e s] Inl Polled by (simp add: relay_polled_def relay_try_def)
  next
    case (Inr u)
    then show ?thesis using after_poll_ok [of s r0 r1 r2 t] assms Polled by (simp add: relay_polled_def relay_try_def)
  qed
qed

lemma os_okD:
  assumes "os_ok t s" "relay_begin (call_shutdown t) s = Some s1"
  shows "poll_ok s1 (call_poll t)" "calls_ok t s1"
  using assms by (simp_all add: os_ok_def calls_ok_def)

lemma turn_ok:
  assumes "relay_inv s" "os_ok t s"
  shows "part_ok s (relay_turn t s) (\<lambda>s'. no_retries t \<and> something_ready (call_poll t) \<longrightarrow> moved s < moved s')"
proof (cases "ended s")
  case None
  obtain s1 where s1: "relay_begin (call_shutdown t) s = Some s1" "relay_inv s1" "moved s \<le> moved s1"
    "ended s1 = None \<Longrightarrow> ready_to_poll s1"
    using begin_ok [OF assms(1) None, of "call_shutdown t"] by (auto simp: part_ok_def)
  show ?thesis
  proof (cases "ended s1")
    case none: None
    have "part_ok s (relay_polled t s1) (\<lambda>s'. no_retries t \<and> something_ready (call_poll t) \<longrightarrow> moved s < moved s')"
      by (rule part_ok_mono [OF polled_ok [OF s1(2) none s1(4) [OF none] os_okD [OF assms(2) s1(1)]] s1(3)])
        (use s1(3) in auto)
    then show ?thesis using None none s1(1) by (simp add: relay_turn_def unless_ended_def)
  qed (use None s1 in \<open>simp add: relay_turn_def unless_ended_def part_ok_def\<close>)
qed (use assms(1) in \<open>simp add: relay_turn_def unless_ended_def part_ok_def\<close>)

interpretation relay_loop: safe_machine relay_turn relay_inv os_ok
  by unfold_locales (use turn_ok in \<open>fastforce simp: part_ok_def\<close>)

lemma relayed_inv: "relayed s \<Longrightarrow> relay_inv s"
proof (induction rule: relayed.induct)
  case (relayed_turn s t s')
  then show ?case using relay_loop.step_safe [of s t] by auto
qed (rule relay_new_inv)

section \<open>What the relay promises\<close>

text \<open>C8: The relay is transparent: whatever its system calls return, what it has written to either side
  is a beginning of what it read from the other, towards the broker never more than whole frames,
  and it keeps back at most one frame and one buffer. When it shuts the sending half down, the
  broker has everything; when it ends without an error, so has the standard output; a frame that
  the input breaks off is an error and no byte of it reaches the broker.\<close>

theorem relay_is_transparent:
  assumes "relayed s"
  shows "(\<exists>held. from_socket s = written s @ held \<and> length held \<le> RELAY_BUFFER \<and> (ended s = Some RelayDone \<longrightarrow> held = [])) \<and>
    (\<exists>fs part held. (\<forall>f\<in>set fs. is_frame f) \<and> from_stdin s = concat fs @ part \<and> concat fs = sent s @ held \<and>
       length (held @ part) \<le> PREFIX_LEN + MAX_FRAME_LEN \<and> (shut s \<longrightarrow> part = [] \<and> held = []) \<and>
       (ended s = Some (RelayFailed TruncatedFrame) \<longrightarrow> part \<noteq> [] \<and> \<not> is_frame part))"
proof -
  note i = relayed_inv [OF assms, unfolded relay_inv_def]
  have "length (held_out (rs_to_stdout s)) \<le> RELAY_BUFFER" using i by (cases "rs_to_stdout s") auto
  moreover have "ended s = Some RelayDone \<longrightarrow> held_out (rs_to_stdout s) = []" using i by auto
  ultimately have out: "\<exists>held. from_socket s = written s @ held \<and> length held \<le> RELAY_BUFFER \<and> (ended s = Some RelayDone \<longrightarrow> held = [])"
    using i by blast
  obtain fs where fs: "\<forall>f\<in>set fs. is_frame f" "sent s @ held_tx (rs_to_socket s) = concat fs" using i unfolding frames_def by blast
  have len: "length (held_tx (rs_to_socket s) @ rs_frame s) \<le> PREFIX_LEN + MAX_FRAME_LEN"
  proof (cases "rs_to_socket s")
    case (TxQueued b n)
    then show ?thesis using i by auto
  next
    case Collecting
    have "part_of_frame (rs_frame s)" using i by (simp add: stdin_ok_def)
    then show ?thesis using Collecting by (auto simp: part_of_frame_def dest!: frame_len_bounds(2))
  next
    case TxClosed
    have "part_of_frame (rs_frame s)" using i by (simp add: stdin_ok_def)
    then show ?thesis using TxClosed by (auto simp: part_of_frame_def dest!: frame_len_bounds(2))
  qed
  have closed: "shut s \<longrightarrow> rs_frame s = [] \<and> held_tx (rs_to_socket s) = []" using i by (auto simp: stdin_ok_def)
  have cut: "ended s = Some (RelayFailed TruncatedFrame) \<longrightarrow> rs_frame s \<noteq> [] \<and> \<not> is_frame (rs_frame s)"
    using i by (auto simp: stdin_ok_def is_frame_def)
  have "from_stdin s = concat fs @ rs_frame s" using i fs(2) by simp
  then have "\<exists>fs part held. (\<forall>f\<in>set fs. is_frame f) \<and> from_stdin s = concat fs @ part \<and> concat fs = sent s @ held \<and>
       length (held @ part) \<le> PREFIX_LEN + MAX_FRAME_LEN \<and> (shut s \<longrightarrow> part = [] \<and> held = []) \<and>
       (ended s = Some (RelayFailed TruncatedFrame) \<longrightarrow> part \<noteq> [] \<and> \<not> is_frame part)"
    using fs(1) fs(2) [symmetric] len closed cut by blast
  with out show ?thesis by blast
qed

text \<open>C9: The relay neither panics nor stalls: while it runs it always watches a descriptor for something
  that can come, the read from the standard input always asks for at least a byte, so that no
  bytes mean the end of the input, and a turn in which a watched descriptor is ready and no call
  asks to be repeated moves bytes, reaches an end of an input, or ends the relay.\<close>

theorem relay_makes_progress:
  assumes "relayed s" "ended s = None" "os_ok t s"
  shows "(\<exists>s'. relay_turn t s = Some s' \<and>
      (no_retries t \<and> something_ready (call_poll t) \<longrightarrow> ended s' \<noteq> None \<or> moved s < moved s')) \<and>
    (\<exists>s1. relay_begin (call_shutdown t) s = Some s1 \<and>
      (ended s1 = None \<longrightarrow> (wants_stdin_read s1 \<or> socket_events s1 \<noteq> (False, False) \<or> out_queued s1) \<and>
        (wants_stdin_read s1 \<longrightarrow> 0 < stdin_limit s1)))"
proof
  show "\<exists>s'. relay_turn t s = Some s' \<and> (no_retries t \<and> something_ready (call_poll t) \<longrightarrow> ended s' \<noteq> None \<or> moved s < moved s')"
    using turn_ok [OF relayed_inv [OF assms(1)] assms(3)] by (auto simp: part_ok_def)
  obtain s1 where s1: "relay_begin (call_shutdown t) s = Some s1" "ended s1 = None \<Longrightarrow> ready_to_poll s1"
    using begin_ok [OF relayed_inv [OF assms(1)] assms(2), of "call_shutdown t"] by (auto simp: part_ok_def)
  have watch: "wants_stdin_read s1 \<or> socket_events s1 \<noteq> (False, False) \<or> out_queued s1" if "ready_to_poll s1"
    using that by (cases "rs_to_stdout s1"; cases "rs_rx s1") (auto simp: ready_to_poll_def socket_events_def out_queued_def)
  have asks: "0 < stdin_limit s1" if "ready_to_poll s1" "wants_stdin_read s1"
    using that by (auto simp: ready_to_poll_def wants_stdin_read_def collecting_ok_def stdin_limit_def RELAY_BUFFER_def)
  have "ended s1 = None \<longrightarrow> (wants_stdin_read s1 \<or> socket_events s1 \<noteq> (False, False) \<or> out_queued s1) \<and>
        (wants_stdin_read s1 \<longrightarrow> 0 < stdin_limit s1)"
    by (intro impI conjI) (rule watch, erule s1(2), rule asks, erule s1(2), assumption)
  with s1(1) show "\<exists>s1. relay_begin (call_shutdown t) s = Some s1 \<and>
      (ended s1 = None \<longrightarrow> (wants_stdin_read s1 \<or> socket_events s1 \<noteq> (False, False) \<or> out_queued s1) \<and>
        (wants_stdin_read s1 \<longrightarrow> 0 < stdin_limit s1))"
    by (intro exI conjI)
qed

text \<open>C39: The last output can be lost: when the broker has written its last bytes and gone, while a frame
  towards it is still queued, one turn reads those bytes and then fails to write the frame; the
  relay ends with the error and the bytes never reach the standard output.\<close>

theorem relay_loses_last_output:
  assumes "ended s = None" "rs_stdin s = StdinOpen" "rs_rx s = RxOpen" "rs_to_stdout s = OutEmpty" "rs_to_socket s = TxQueued b n" "n < length b"
    "call_poll t = Polled rin rsock no_events" "\<not> ev_err rin \<and> \<not> ev_nval rin \<and> \<not> ev_err rsock \<and> \<not> ev_nval rsock"
    "ev_in rsock" "ev_out rsock" "call_read_socket t = Got bs" "bs \<noteq> []" "call_write_socket t = WriteFails"
  shows "\<exists>s'. relay_turn t s = Some s' \<and> ended s' = Some (RelayFailed SystemError) \<and>
    from_socket s' = from_socket s @ bs \<and> written s' = written s"
proof -
  let ?s1 = "s\<lparr>rs_to_stdout := OutQueued bs 0, from_socket := from_socket s @ bs\<rparr>"
  let ?s2 = "?s1\<lparr>ended := Some (RelayFailed SystemError)\<rparr>"
  have b: "relay_begin (call_shutdown t) s = Some s"
    using assms(1-5) by (simp add: relay_begin_def queue_complete_stdin_frame_def relay_try_def shut_down_sender_def unless_ended_def)
  have polls: "relay_reject_poll_error rin = Inr ()" "relay_reject_poll_error rsock = Inr ()" "relay_reject_poll_error no_events = Inr ()"
    using assms(8) by (simp_all add: relay_reject_poll_error_def ensure_def)
  have r: "read_socket (Got bs) s = Some ?s1" using assms(4,12) by (simp add: read_socket_def)
  have "relay_write_once WriteFails b n = Some (Inl SystemError)" using assms(6) by (simp add: relay_write_once_def)
  then have f: "flush_socket WriteFails ?s1 = Some ?s2" using assms(5) by (simp add: flush_socket_def relay_try_def relay_stop_def)
  have open1: "ended ?s1 = None" "rs_rx ?s1 = RxOpen" "ended ?s2 \<noteq> None" using assms(1,3) by simp_all
  have "after_poll t rin rsock no_events s = Some ?s2"
    by (simp only: after_poll_def no_events_simps if_False bind.bind_lunit unless_ended_def [of _ s] if_P [OF assms(1)] assms(9,10,11,13)
      simp_thms if_True r unless_ended_def [of _ ?s1] if_P [OF open1(1)] open1(2) f unless_ended_def [of _ ?s2] if_not_P [OF open1(3)])
  then have "relay_polled t s = Some ?s2"
    unfolding relay_polled_def assms(7) poll_call.case polls relay_try_def by simp
  then show ?thesis using assms(1) b by (simp add: relay_turn_def unless_ended_def)
qed

section \<open>An example\<close>

definition quiet_turn :: turn where
  "quiet_turn =
     \<lparr>call_shutdown = True, call_poll = PollInterrupted, call_write_stdout = WriteRetry, call_read_socket = ReadRetry,
      call_write_socket = WriteRetry, call_read_stdin = ReadRetry\<rparr>"

text \<open>The first turn reads an empty frame, the second one queues it, the third one writes two of its bytes.\<close>

definition demo_turns :: "turn list" where
  "demo_turns =
     [quiet_turn\<lparr>call_poll := Polled (no_events\<lparr>ev_in := True\<rparr>) no_events no_events, call_read_stdin := Got [0, 0, 0, 0]\<rparr>,
      quiet_turn, quiet_turn\<lparr>call_poll := Polled no_events (no_events\<lparr>ev_out := True\<rparr>) no_events, call_write_socket := Wrote 2\<rparr>]"

definition demo_queued :: relay where
  "demo_queued = relay_new\<lparr>rs_to_socket := TxQueued [0, 0, 0, 0] 0, from_stdin := [0, 0, 0, 0]\<rparr>"

lemmas relay_eval =
  relay_turn_def relay_begin_def queue_complete_stdin_frame_def relay_stdin_frame_len_def relay_try_def shut_down_sender_def
  unless_ended_def relay_polled_def relay_reject_poll_error_def ensure_def after_poll_def flush_stdout_def read_socket_def
  flush_socket_def read_stdin_once_def relay_write_once_def relay_stop_def from_be_bytes_def PREFIX_LEN_def MAX_FRAME_LEN_def
  RELAY_BUFFER_def os_ok_def poll_ok_def read_ok_def write_ok_def stdin_limit_def wants_stdin_read_def socket_events_def
  tx_queued_def out_queued_def no_events_def quiet_turn_def

lemma demo_queued_relayed: "relayed demo_queued"
proof -
  let ?t = "demo_turns ! 0" and ?s = "relay_new\<lparr>rs_frame := [0, 0, 0, 0], from_stdin := [0, 0, 0, 0]\<rparr>"
  have "os_ok ?t relay_new" "relay_turn ?t relay_new = Some ?s"
    by (simp_all add: relay_eval demo_turns_def relay_new_def)
  with relayed_start have s: "relayed ?s" by (rule relayed_turn)
  have "os_ok quiet_turn ?s" "relay_turn quiet_turn ?s = Some demo_queued"
    by (simp_all add: relay_eval relay_new_def demo_queued_def)
  with s show ?thesis by (rule relayed_turn)
qed

lemma demo_sending:
  "os_ok (demo_turns ! 2) demo_queued"
  "relay_turn (demo_turns ! 2) demo_queued = Some (demo_queued\<lparr>rs_to_socket := TxQueued [0, 0, 0, 0] 2, sent := [0, 0]\<rparr>)"
  by (simp_all add: relay_eval relay_new_def demo_queued_def demo_turns_def)

theorem relay_is_transparent_witness:
  "\<exists>fs held part. (\<forall>f\<in>set fs. is_frame f) \<and> concat fs = [0, 0] @ held \<and> [0, 0, 0, 0 :: byte] = concat fs @ part"
proof -
  let ?s = "demo_queued\<lparr>rs_to_socket := TxQueued [0, 0, 0, 0] 2, sent := [0, 0]\<rparr>"
  have "relayed ?s" by (rule relayed_turn [OF demo_queued_relayed demo_sending])
  moreover have "from_stdin ?s = [0, 0, 0, 0]" "sent ?s = [0, 0]" by (simp_all add: demo_queued_def)
  ultimately show ?thesis using relay_is_transparent [of ?s] by metis
qed

theorem relay_makes_progress_witness:
  "\<exists>s'. relay_turn (demo_turns ! 2) demo_queued = Some s' \<and> (ended s' \<noteq> None \<or> moved demo_queued < moved s')"
proof -
  let ?t = "quiet_turn\<lparr>call_poll := Polled no_events (no_events\<lparr>ev_out := True\<rparr>) no_events, call_write_socket := Wrote 2,
    call_write_stdout := Wrote 0, call_read_socket := ReadFails, call_read_stdin := ReadFails\<rparr>"
  have e: "ended demo_queued = None" by (simp add: demo_queued_def relay_new_def)
  have ok: "os_ok ?t demo_queued" by (simp add: relay_eval relay_new_def demo_queued_def)
  have "no_retries ?t" "something_ready (call_poll ?t)" by (simp_all add: no_retries_def something_ready_def)
  moreover have "relay_turn ?t demo_queued = relay_turn (demo_turns ! 2) demo_queued"
    by (simp add: relay_eval relay_new_def demo_queued_def demo_turns_def)
  ultimately show ?thesis using relay_makes_progress [OF demo_queued_relayed e ok] by auto
qed

theorem relay_loses_last_output_witness:
  "relayed demo_queued \<and> (\<exists>t s'. os_ok t demo_queued \<and> relay_turn t demo_queued = Some s' \<and>
     ended s' = Some (RelayFailed SystemError) \<and> from_socket s' = [65] \<and> written s' = [])"
proof -
  let ?t = "quiet_turn\<lparr>call_poll := Polled no_events (no_events\<lparr>ev_in := True, ev_out := True, ev_hup := True\<rparr>) no_events,
    call_read_socket := Got [65], call_write_socket := WriteFails\<rparr>"
  have f: "from_socket demo_queued = []" "written demo_queued = []" by (simp_all add: demo_queued_def relay_new_def)
  have "os_ok ?t demo_queued" by (simp add: relay_eval relay_new_def demo_queued_def)
  moreover have "\<exists>s'. relay_turn ?t demo_queued = Some s' \<and> ended s' = Some (RelayFailed SystemError) \<and>
      from_socket s' = from_socket demo_queued @ [65] \<and> written s' = written demo_queued"
    by (rule relay_loses_last_output [where b = "[0, 0, 0, 0]" and n = 0 and rin = no_events
        and rsock = "no_events\<lparr>ev_in := True, ev_out := True, ev_hup := True\<rparr>"])
      (simp_all add: demo_queued_def relay_new_def quiet_turn_def)
  ultimately show ?thesis using demo_queued_relayed f by auto
qed

end
