(* ===== verification/Evidence.thy ===== *)
theory Evidence
  imports Ordered "HOL-Library.Word"
begin

text \<open>
  The evidence chain of the event log (core/src/ledger.rs, with the records of
  core/src/event_contract.rs and the writer of core/src/operator_cli.rs): every event is stored
  with the hash of the chain before it, its own hash, and the hash of both.

  A JSON value is serde_json's documented enum, its map a \<open>BTreeMap\<close> as in Ordered; a number is an
  unsigned or a negative 64-bit integer or a floating-point number, whose type is left open.
  Writing a value, reading one, and reading a typed record are the parameter \<open>event_json\<close>; the
  hexadecimal SHA-256 digest is the parameter \<open>sha\<close>, to be taken as \<open>sha256_hex\<close> of the digest of
  the library.
\<close>

section \<open>Values\<close>

datatype 'n json_number = PosInt "64 word" | NegInt "64 word" | Float 'n

datatype 'n json =
    JNull | JBool bool | JNumber "'n json_number" | JString string | JArray "'n json list" | JObject "(string \<times> 'n json) list"

text \<open>\<open>Value::get\<close> with a key, \<open>as_str\<close> with the empty text for anything else.\<close>

definition json_get :: "string \<Rightarrow> 'n json \<Rightarrow> 'n json option" where
  "json_get k v = (case v of JObject m \<Rightarrow> map_of m k | _ \<Rightarrow> None)"

definition str_or_empty :: "'n json option \<Rightarrow> string" where
  "str_or_empty v = (case v of Some (JString s) \<Rightarrow> s | _ \<Rightarrow> [])"

record event_record =
  er_timestamp :: string
  er_event :: string

record 'n event_json =
  ej_write :: "'n json \<Rightarrow> string option"
  ej_read :: "string \<Rightarrow> 'n json option"
  ej_record :: "string \<Rightarrow> event_record option"

datatype ledger_error =
    BadLine nat | EmptyTimestamp nat | EmptyEvent nat | NoRecord nat | NotSerialized | NotAnObject | DataNotObject

section \<open>Reading the log\<close>

text \<open>\<open>trim_start_matches\<close> with the byte order mark, on its bytes.\<close>

fun strip_bom :: "string \<Rightarrow> string" where
  "strip_bom (a # b # c # s) =
     (if of_char a = (239 :: nat) \<and> of_char b = (187 :: nat) \<and> of_char c = (191 :: nat) then strip_bom s else a # b # c # s)"
| "strip_bom s = s"

definition validate_event :: "nat \<Rightarrow> event_record \<Rightarrow> ledger_error + unit" where
  "validate_event line r =
     attempt (ensure (trim (er_timestamp r) \<noteq> []) (EmptyTimestamp line)) (\<lambda>_.
       ensure (trim (er_event r) \<noteq> []) (EmptyEvent line))"

fun event_records :: "'n event_json \<Rightarrow> nat \<Rightarrow> string list \<Rightarrow> ledger_error + event_record list" where
  "event_records js i [] = Inr []"
| "event_records js i (l # ls) =
     (if trim l = [] then event_records js (i + 1) ls
      else attempt (ok_or (BadLine (i + 1)) (ej_record js (if i = 0 then strip_bom l else l))) (\<lambda>r.
           attempt (validate_event (i + 1) r) (\<lambda>_.
           attempt (event_records js (i + 1) ls) (\<lambda>rs. Inr (r # rs)))))"

definition parse_event_jsonl :: "'n event_json \<Rightarrow> string \<Rightarrow> ledger_error + event_record list" where
  "parse_event_jsonl js content = event_records js 0 (text_lines content)"

section \<open>Hashes\<close>

text \<open>Two lower-case digits for each byte of the digest.\<close>

definition hex_nibble :: "nat \<Rightarrow> char" where
  "hex_nibble n = char_of (if n < 10 then 48 + n else 87 + n)"

definition sha256_hex :: "(string \<Rightarrow> 8 word list) \<Rightarrow> string \<Rightarrow> string" where
  "sha256_hex digest bytes = concat (map (\<lambda>b. [hex_nibble (unat b div 16), hex_nibble (unat b mod 16)]) (digest bytes))"

text \<open>An event without its place in the chain.\<close>

definition strip_chain :: "'n json \<Rightarrow> 'n json" where
  "strip_chain v =
     (case v of
        JObject m \<Rightarrow>
          (case map_of m ''data'' of
             Some (JObject d) \<Rightarrow> JObject (tree_insert ''data'' (JObject (tree_remove ''evidence_chain'' d)) m)
           | _ \<Rightarrow> v)
      | _ \<Rightarrow> v)"

definition evidence_event_hash :: "'n event_json \<Rightarrow> (string \<Rightarrow> string) \<Rightarrow> 'n json \<Rightarrow> ledger_error + string" where
  "evidence_event_hash js sha v = attempt (ok_or NotSerialized (ej_write js (strip_chain v))) (\<lambda>s. Inr (sha s))"

definition line_end :: char where "line_end = char_of (10 :: nat)"

definition evidence_chain_hash :: "(string \<Rightarrow> string) \<Rightarrow> string \<Rightarrow> string \<Rightarrow> string" where
  "evidence_chain_hash sha previous_hash event_hash = sha (previous_hash @ line_end # event_hash)"

definition evidence_chain_field :: "'n json \<Rightarrow> string \<Rightarrow> string" where
  "evidence_chain_field v field =
     str_or_empty (Option.bind (json_get ''data'' v) (\<lambda>d. Option.bind (json_get ''evidence_chain'' d) (json_get field)))"

definition evidence_integrity_status :: "string \<Rightarrow> string \<Rightarrow> string \<Rightarrow> string \<Rightarrow> string \<Rightarrow> string \<Rightarrow> string" where
  "evidence_integrity_status previous_hash event_hash chain_hash recorded_previous recorded_event recorded_chain =
     (if trim recorded_previous = [] \<and> trim recorded_event = [] \<and> trim recorded_chain = [] then ''unrecorded''
      else if recorded_previous = previous_hash \<and> recorded_event = event_hash \<and> recorded_chain = chain_hash then ''verified''
      else ''tamper_detected'')"

section \<open>The chain\<close>

record chain_entry =
  ce_index :: nat
  ce_timestamp :: string
  ce_event :: string
  ce_previous :: string
  ce_event_hash :: string
  ce_chain_hash :: string
  ce_recorded_previous :: string
  ce_recorded_event :: string
  ce_recorded_chain :: string
  ce_status :: string

record chain_summary =
  entry_count :: nat
  recorded_count :: nat
  verified_count :: nat
  tamper_detected_count :: nat
  root_hash :: string
  integrity_status :: string

text \<open>The loop over the lines: the entries, and the hash the last one leaves.\<close>

fun chain_entries :: "'n event_json \<Rightarrow> (string \<Rightarrow> string) \<Rightarrow> event_record list \<Rightarrow> nat \<Rightarrow> string \<Rightarrow> string list \<Rightarrow>
    ledger_error + (chain_entry list \<times> string)" where
  "chain_entries js sha events i previous [] = Inr ([], previous)"
| "chain_entries js sha events i previous (l # ls) =
     attempt (ok_or (BadLine (i + 1)) (ej_read js (if i = 0 then strip_bom l else l))) (\<lambda>v.
     attempt (ok_or (NoRecord (i + 1)) (if i < length events then Some (events ! i) else None)) (\<lambda>r.
     attempt (evidence_event_hash js sha v) (\<lambda>event_hash.
       let chain_hash = evidence_chain_hash sha previous event_hash;
           rp = evidence_chain_field v ''previous_hash''; re = evidence_chain_field v ''event_hash'';
           rc = evidence_chain_field v ''chain_hash'';
           e = \<lparr>ce_index = i, ce_timestamp = er_timestamp r, ce_event = er_event r, ce_previous = previous,
                ce_event_hash = event_hash, ce_chain_hash = chain_hash, ce_recorded_previous = rp,
                ce_recorded_event = re, ce_recorded_chain = rc,
                ce_status = evidence_integrity_status previous event_hash chain_hash rp re rc\<rparr>
       in attempt (chain_entries js sha events (i + 1) chain_hash ls) (\<lambda>(es, root). Inr (e # es, root)))))"

definition is_recorded :: "chain_entry \<Rightarrow> bool" where
  "is_recorded e = (trim (ce_recorded_previous e) \<noteq> [] \<or> trim (ce_recorded_event e) \<noteq> [] \<or> trim (ce_recorded_chain e) \<noteq> [])"

definition summarize :: "chain_entry list \<Rightarrow> string \<Rightarrow> chain_summary" where
  "summarize es root =
     (let recorded = length (filter is_recorded es);
          tampered = length (filter (\<lambda>e. ce_status e = ''tamper_detected'') es)
      in \<lparr>entry_count = length es, recorded_count = recorded,
          verified_count = length (filter (\<lambda>e. ce_status e = ''verified'') es), tamper_detected_count = tampered,
          root_hash = root,
          integrity_status =
            (if tampered > 0 then ''tamper_detected'' else if recorded = length es \<and> es \<noteq> [] then ''verified'' else ''partial'')\<rparr>)"

definition build_evidence_chain :: "'n event_json \<Rightarrow> (string \<Rightarrow> string) \<Rightarrow> string \<Rightarrow> event_record list \<Rightarrow>
    ledger_error + (chain_summary \<times> chain_entry list)" where
  "build_evidence_chain js sha content events =
     attempt (chain_entries js sha events 0 [] (filter (\<lambda>l. trim l \<noteq> []) (text_lines content)))
       (\<lambda>(es, root). Inr (summarize es root, es))"

section \<open>Appending\<close>

definition chain_object :: "string \<Rightarrow> string \<Rightarrow> string \<Rightarrow> 'n json" where
  "chain_object previous_hash event_hash chain_hash =
     JObject (tree_insert ''previous_hash'' (JString previous_hash)
       (tree_insert ''event_hash'' (JString event_hash) (tree_insert ''chain_hash'' (JString chain_hash) [])))"

definition seal_event :: "'n json \<Rightarrow> 'n json \<Rightarrow> ledger_error + 'n json" where
  "seal_event chain v =
     (case v of
        JObject m \<Rightarrow>
          (case (case map_of m ''data'' of Some d \<Rightarrow> d | None \<Rightarrow> JObject []) of
             JObject d \<Rightarrow> Inr (JObject (tree_insert ''data'' (JObject (tree_insert ''evidence_chain'' chain d)) m))
           | _ \<Rightarrow> Inl DataNotObject)
      | _ \<Rightarrow> Inl NotAnObject)"

definition attach_evidence_chain_to_event :: "'n event_json \<Rightarrow> (string \<Rightarrow> string) \<Rightarrow> string \<Rightarrow> 'n json \<Rightarrow> ledger_error + 'n json" where
  "attach_evidence_chain_to_event js sha content v =
     attempt (parse_event_jsonl js content) (\<lambda>records.
     attempt (build_evidence_chain js sha content records) (\<lambda>(summary, _).
     attempt (evidence_event_hash js sha v) (\<lambda>event_hash.
       let previous_hash = root_hash summary
       in seal_event (chain_object previous_hash event_hash (evidence_chain_hash sha previous_hash event_hash)) v)))"

text \<open>The log with the event at its end, as the file is rewritten under its lock.\<close>

definition append_event_record :: "'n event_json \<Rightarrow> (string \<Rightarrow> string) \<Rightarrow> 'n json \<Rightarrow> string \<Rightarrow> ledger_error + string" where
  "append_event_record js sha v content =
     attempt (attach_evidence_chain_to_event js sha content v) (\<lambda>v'.
     attempt (ok_or NotSerialized (ej_write js v')) (\<lambda>line.
       Inr ((if content \<noteq> [] \<and> last content \<noteq> line_end then content @ [line_end] else content) @ line @ [line_end])))"

end
