(* ===== verification/Evidence_Props.thy ===== *)
theory Evidence_Props
  imports Evidence
begin

text \<open>
  What the evidence chain shows and what it does not: an honest log verifies, its root hash fixes
  the events unless two of the texts hashed on the way have the same digest, and what goes
  unnoticed or is reported in error.
\<close>

section \<open>Assumptions on the libraries\<close>

text \<open>A digest of 32 bytes in hexadecimal.\<close>

definition hex_digest :: "(string \<Rightarrow> string) \<Rightarrow> bool" where
  "hex_digest sha = (\<forall>x. length (sha x) = 64 \<and> list_all is_hex (sha x))"

lemma of_char_nibble: "n < 16 \<Longrightarrow> of_char (hex_nibble n) = (if n < 10 then 48 + n else 87 + n)"
  by (simp add: hex_nibble_def)

lemma nibble_hex: "n < 16 \<Longrightarrow> is_hex (hex_nibble n)"
  by (auto simp: is_hex_def is_digit_def of_char_nibble)

lemma nibbles_hex: "is_hex (hex_nibble (unat b div 16))" "is_hex (hex_nibble (unat b mod 16))" for b :: "8 word"
proof -
  have "unat b < 256" using unsigned_less [of b] by simp
  then show "is_hex (hex_nibble (unat b div 16))" "is_hex (hex_nibble (unat b mod 16))"
    by (auto intro!: nibble_hex simp: less_mult_imp_div_less)
qed

lemma hex_pairs: "length (concat (map (\<lambda>b. [f b, g b]) bs)) = 2 * length bs"
  by (induction bs) simp_all

lemma sha256_hex_digest:
  assumes "\<forall>x. length (digest x) = 32"
  shows "hex_digest (sha256_hex digest)"
  using assms by (auto simp: hex_digest_def sha256_hex_def hex_pairs list_all_iff nibbles_hex)

lemma hex_nonempty: "hex_digest sha \<Longrightarrow> sha x \<noteq> []" "hex_digest sha \<Longrightarrow> [] \<noteq> sha x"
  by (metis hex_digest_def list.size(3) zero_neq_numeral)+

text \<open>A line that stands by itself in a log.\<close>

definition line_ok :: "string \<Rightarrow> bool" where
  "line_ok l = (line_end \<notin> set l \<and> trim l \<noteq> [] \<and> strip_bom l = l \<and> strip_cr l = l)"

text \<open>
  The values serde_json is documented to read back as it wrote them: no floating-point numbers,
  whose last digit it only keeps with a feature that is off here, the keys of an object in order,
  and no deeper than \<open>n\<close>. Its reader stops at the 128th nested array or object.
\<close>

fun faithful :: "nat \<Rightarrow> 'n json \<Rightarrow> bool" where
  "faithful n (JNumber x) = (case x of Float _ \<Rightarrow> False | _ \<Rightarrow> True)"
| "faithful n (JArray vs) = (0 < n \<and> list_all (faithful (n - 1)) vs)"
| "faithful n (JObject m) =
     (0 < n \<and> sorted_wrt (<) (map fst m) \<and> list_all (\<lambda>e. faithful (n - 1) (snd e)) m)"
| "faithful n _ = True"

text \<open>What it writes of such a value is one line, and reads back as the value.\<close>

definition written_lines :: "'n event_json \<Rightarrow> bool" where
  "written_lines js = (\<forall>v s. faithful 127 v \<and> ej_write js v = Some s \<longrightarrow> line_ok s \<and> ej_read js s = Some v)"

definition has_data :: "'n json \<Rightarrow> bool" where
  "has_data v = (\<exists>d. json_get ''data'' v = Some (JObject d))"

lemma hex_no_space: "is_hex c \<Longrightarrow> \<not> is_space c \<and> c \<noteq> line_end"
  by (auto simp: is_hex_def is_digit_def is_space_def line_end_def)

lemma trim_id_hex:
  assumes "hex_digest sha"
  shows "trim (sha x) \<noteq> []" "line_end \<notin> set (sha x)"
proof -
  have h: "sha x \<noteq> []" "\<forall>c\<in>set (sha x). is_hex c"
    using assms hex_nonempty by (auto simp: hex_digest_def list_all_iff)
  then have "dropWhile is_space (sha x) = sha x" by (cases "sha x") (auto dest: hex_no_space)
  moreover have "dropWhile is_space (rev (sha x)) = rev (sha x)"
    using h by (cases "rev (sha x)") (auto dest: hex_no_space)
  ultimately show "trim (sha x) \<noteq> []" using h by (simp add: trim_def)
  show "line_end \<notin> set (sha x)" using h hex_no_space by blast
qed

section \<open>Sealed events\<close>

lemma tree_insert_twice: "tree_insert k v (tree_insert k w m) = tree_insert k v m"
  by (induction m) auto

lemma tree_remove_insert: "tree_remove k (tree_insert k v m) = tree_remove k m"
  by (induction m) (auto simp: tree_remove_def)

lemma seal_parts:
  assumes "seal_event chain v = Inr v'" "json_get ''data'' v = Some (JObject d)"
  obtains m where "v = JObject m" "v' = JObject (tree_insert ''data'' (JObject (tree_insert ''evidence_chain'' chain d)) m)"
  using assms by (auto simp: seal_event_def json_get_def split: json.splits)

lemma strip_seal:
  assumes "seal_event chain v = Inr v'" "has_data v"
  shows "strip_chain v' = strip_chain v"
proof -
  obtain d where d: "json_get ''data'' v = Some (JObject d)" using assms(2) by (auto simp: has_data_def)
  from seal_parts [OF assms(1) d] obtain m where "v = JObject m"
    "v' = JObject (tree_insert ''data'' (JObject (tree_insert ''evidence_chain'' chain d)) m)" .
  then show ?thesis using d by (simp add: strip_chain_def json_get_def tree_insert_twice tree_remove_insert)
qed

lemma seal_fields:
  assumes "seal_event (chain_object p e c) v = Inr v'"
  shows "evidence_chain_field v' ''previous_hash'' = p" "evidence_chain_field v' ''event_hash'' = e"
    "evidence_chain_field v' ''chain_hash'' = c"
  using assms by (auto simp: seal_event_def evidence_chain_field_def json_get_def chain_object_def str_or_empty_def
      split: json.splits option.splits)

lemma faithful_insert:
  assumes "faithful n (JObject m)" "faithful (n - 1) v"
  shows "faithful n (JObject (tree_insert k v m))"
  using assms by (auto simp: list_all_iff intro: sorted_tree_insert dest!: subsetD [OF set_tree_insert])

lemma faithful_remove: "faithful n (JObject m) \<Longrightarrow> faithful n (JObject (tree_remove k m))"
  by (auto simp: list_all_iff tree_remove_def intro: sorted_tree_remove [unfolded tree_remove_def])

lemma faithful_entry: "faithful n (JObject m) \<Longrightarrow> map_of m k = Some v \<Longrightarrow> faithful (n - 1) v"
  by (auto simp: list_all_iff dest!: map_of_SomeD)

lemma faithful_chain: "0 < n \<Longrightarrow> faithful n (chain_object p e c)"
  by (simp add: chain_object_def)

lemma faithful_strip:
  assumes "faithful n v"
  shows "faithful n (strip_chain v)"
proof (cases "\<exists>m d. v = JObject m \<and> map_of m ''data'' = Some (JObject d)")
  case True
  then obtain m d where v: "v = JObject m" "map_of m ''data'' = Some (JObject d)" by blast
  from assms have m: "faithful n (JObject m)" unfolding v(1) .
  from faithful_insert [OF m faithful_remove [OF faithful_entry [OF m v(2)]]] show ?thesis by (simp add: strip_chain_def v)
next
  case False
  then show ?thesis using assms by (auto simp: strip_chain_def split: json.splits option.splits)
qed

lemma faithful_seal:
  assumes "faithful n v" "3 \<le> n" "seal_event (chain_object p e c) v = Inr v'"
  shows "faithful n v'"
proof -
  obtain m d where v: "v = JObject m" "(case map_of m ''data'' of Some d \<Rightarrow> d | None \<Rightarrow> JObject []) = JObject d"
    "v' = JObject (tree_insert ''data'' (JObject (tree_insert ''evidence_chain'' (chain_object p e c) d)) m)"
    using assms(3) by (auto simp: seal_event_def split: json.splits)
  have m: "faithful n (JObject m)" using assms(1) unfolding v(1) .
  have d: "faithful (n - 1) (JObject d)"
  proof (cases "map_of m ''data''")
    case None
    then show ?thesis using v(2) assms(2) by simp
  next
    case (Some w)
    then show ?thesis using v(2) faithful_entry [OF m Some] by simp
  qed
  have "faithful (n - 1 - 1) (chain_object p e c)" using assms(2) by (intro faithful_chain) simp
  from faithful_insert [OF m faithful_insert [OF d this]] show ?thesis unfolding v(3) .
qed

section \<open>Logs\<close>

definition log_of :: "string list \<Rightarrow> string" where
  "log_of ls = concat (map (\<lambda>l. l @ [line_end]) ls)"

lemma split_line: "line_end \<notin> set l \<Longrightarrow> split_on line_end (l @ line_end # s) = l # split_on line_end s"
  by (induction l) auto

lemma lines_log:
  assumes "\<forall>l\<in>set ls. line_ok l"
  shows "text_lines (log_of ls) = ls" "filter (\<lambda>l. trim l \<noteq> []) (text_lines (log_of ls)) = ls"
proof -
  have "split_on line_end (log_of ls) = ls @ [[]]"
    using assms by (induction ls) (simp_all add: log_of_def split_line line_ok_def)
  moreover have "map strip_cr ls = ls" using assms by (induction ls) (simp_all add: line_ok_def)
  ultimately show l: "text_lines (log_of ls) = ls" by (simp add: text_lines_def line_end_def)
  show "filter (\<lambda>l. trim l \<noteq> []) (text_lines (log_of ls)) = ls"
    unfolding l using assms by (induction ls) (simp_all add: line_ok_def)
qed

lemma event_records_length:
  "event_records js i ls = Inr rs \<Longrightarrow> length rs = length (filter (\<lambda>l. trim l \<noteq> []) ls)"
  by (induction ls arbitrary: i rs) (auto split: if_splits)

lemma parsed_length:
  "parse_event_jsonl js content = Inr rs \<Longrightarrow> length rs = length (filter (\<lambda>l. trim l \<noteq> []) (text_lines content))"
  unfolding parse_event_jsonl_def by (rule event_records_length)

section \<open>Honest logs\<close>

text \<open>Lines whose recorded hashes are those of the chain that begins with \<open>p\<close> and ends with \<open>r\<close>.\<close>

fun honest :: "'n event_json \<Rightarrow> (string \<Rightarrow> string) \<Rightarrow> string \<Rightarrow> string list \<Rightarrow> string \<Rightarrow> bool" where
  "honest js sha p [] r = (r = p)"
| "honest js sha p (l # ls) r =
     (\<exists>v s. ej_read js l = Some v \<and> ej_write js (strip_chain v) = Some s \<and>
        evidence_chain_field v ''previous_hash'' = p \<and> evidence_chain_field v ''event_hash'' = sha s \<and>
        evidence_chain_field v ''chain_hash'' = evidence_chain_hash sha p (sha s) \<and>
        honest js sha (evidence_chain_hash sha p (sha s)) ls r)"

lemma honest_append: "honest js sha p (ls @ ks) r \<longleftrightarrow> (\<exists>q. honest js sha p ls q \<and> honest js sha q ks r)"
  by (induction ls arbitrary: p) auto

lemma honest_entries:
  assumes "hex_digest sha" "honest js sha p ls r" "\<forall>l\<in>set ls. line_ok l" "i + length ls \<le> length events"
  shows "\<exists>es. chain_entries js sha events i p ls = Inr (es, r) \<and> length es = length ls \<and>
    (\<forall>e\<in>set es. ce_status e = ''verified'' \<and> is_recorded e)"
  using assms(2-4)
proof (induction ls arbitrary: p i)
  case (Cons l ls)
  obtain v s where v: "ej_read js l = Some v" "ej_write js (strip_chain v) = Some s"
    "evidence_chain_field v ''previous_hash'' = p" "evidence_chain_field v ''event_hash'' = sha s"
    "evidence_chain_field v ''chain_hash'' = evidence_chain_hash sha p (sha s)"
    "honest js sha (evidence_chain_hash sha p (sha s)) ls r" using Cons.prems(1) by auto
  have "i + 1 + length ls \<le> length events" "\<forall>l\<in>set ls. line_ok l" using Cons.prems(2,3) by simp_all
  from Cons.IH [OF v(6) this(2,1)] obtain es where es:
    "chain_entries js sha events (i + 1) (evidence_chain_hash sha p (sha s)) ls = Inr (es, r)" "length es = length ls"
    "\<forall>e\<in>set es. ce_status e = ''verified'' \<and> is_recorded e" by blast
  have sb: "(if i = 0 then strip_bom l else l) = l" and i: "i < length events"
    using Cons.prems(2,3) by (simp_all add: line_ok_def)
  have "trim (sha s) \<noteq> []" by (rule trim_id_hex [OF assms(1)])
  then obtain e where "chain_entries js sha events i p (l # ls) = Inr (e # es, r)" "ce_status e = ''verified'' \<and> is_recorded e"
    unfolding chain_entries.simps sb using v(1-5) i es(1)
    by (simp add: evidence_event_hash_def evidence_integrity_status_def is_recorded_def Let_def)
  then show ?case using es(2,3) by (intro exI [of _ "e # es"]) (simp del: chain_entries.simps)
qed simp

lemma honest_summary:
  assumes "hex_digest sha" "honest js sha [] ls r" "\<forall>l\<in>set ls. line_ok l" "length ls \<le> length events"
  shows "\<exists>es. build_evidence_chain js sha (log_of ls) events = Inr
    (\<lparr>entry_count = length ls, recorded_count = length ls, verified_count = length ls, tamper_detected_count = 0, root_hash = r,
      integrity_status = (if ls = [] then ''partial'' else ''verified'')\<rparr>, es)"
proof -
  obtain es where es: "chain_entries js sha events 0 [] ls = Inr (es, r)" "length es = length ls"
    "\<forall>e\<in>set es. ce_status e = ''verified'' \<and> is_recorded e"
    using honest_entries [OF assms(1-3), of 0 events] assms(4) by auto
  have "filter is_recorded es = es" "filter (\<lambda>e. ce_status e = ''verified'') es = es"
    "filter (\<lambda>e. ce_status e = ''tamper_detected'') es = []"
    using es(3) by (auto intro: filter_True filter_False)
  moreover have "es = [] \<longleftrightarrow> ls = []" using es(2) by auto
  ultimately have "summarize es r = \<lparr>entry_count = length ls, recorded_count = length ls, verified_count = length ls,
      tamper_detected_count = 0, root_hash = r, integrity_status = (if ls = [] then ''partial'' else ''verified'')\<rparr>"
    using es(2) by (simp add: summarize_def Let_def)
  then show ?thesis unfolding build_evidence_chain_def lines_log(2) [OF assms(3)] es(1) by simp
qed

lemma append_honest:
  assumes "hex_digest sha" "written_lines js" "has_data v \<and> faithful 127 v" "honest js sha [] ls r" "\<forall>l\<in>set ls. line_ok l"
    "append_event_record js sha v (log_of ls) = Inr log"
  shows "\<exists>l r'. log = log_of (ls @ [l]) \<and> line_ok l \<and> honest js sha [] (ls @ [l]) r'"
proof -
  obtain v' line where v': "attach_evidence_chain_to_event js sha (log_of ls) v = Inr v'" "ej_write js v' = Some line"
    "log = (if log_of ls \<noteq> [] \<and> last (log_of ls) \<noteq> line_end then log_of ls @ [line_end] else log_of ls) @ line @ [line_end]"
    using assms(6) by (auto simp: append_event_record_def)
  have "log_of ls = [] \<or> last (log_of ls) = line_end" by (cases ls rule: rev_cases) (simp_all add: log_of_def)
  then have log: "log = log_of (ls @ [line])" using v'(3) by (auto simp: log_of_def)
  obtain records where rec: "parse_event_jsonl js (log_of ls) = Inr records" using v'(1) by (auto simp: attach_evidence_chain_to_event_def)
  have len: "length ls \<le> length records" using parsed_length [OF rec] lines_log(2) [OF assms(5)] by simp
  from honest_summary [OF assms(1,4,5) len] obtain es sm where sm: "build_evidence_chain js sha (log_of ls) records = Inr (sm, es)" "root_hash sm = r"
    by fastforce
  obtain s where s: "ej_write js (strip_chain v) = Some s" "seal_event (chain_object r (sha s) (evidence_chain_hash sha r (sha s))) v = Inr v'"
    using v'(1) rec sm by (auto simp: attach_evidence_chain_to_event_def evidence_event_hash_def Let_def)
  have "faithful 127 v'" by (rule faithful_seal [OF _ _ s(2)]) (use assms(3) in simp_all)
  then have line: "line_ok line" "ej_read js line = Some v'" using assms(2) v'(2) by (auto simp: written_lines_def)
  have "honest js sha r [line] (evidence_chain_hash sha r (sha s))"
    using line(2) s(1) strip_seal [OF s(2) conjunct1 [OF assms(3)]] seal_fields [OF s(2)] by simp
  then show ?thesis using log line(1) assms(4) honest_append by blast
qed

lemma appended_honest:
  assumes "hex_digest sha" "written_lines js" "\<forall>v\<in>set es. has_data v \<and> faithful 127 v" "each_try (append_event_record js sha) es [] = Inr log"
  shows "\<exists>ls r. log = log_of ls \<and> length ls = length es \<and> (\<forall>l\<in>set ls. line_ok l) \<and> honest js sha [] ls r"
proof (rule each_try_inv [OF assms(4), where I = "\<lambda>pre log. \<exists>ls r. log = log_of ls \<and> length ls = length pre \<and>
    (\<forall>l\<in>set ls. line_ok l) \<and> honest js sha [] ls r"], goal_cases)
  case 1
  show ?case by (intro exI [of _ "[]"]) (simp add: log_of_def)
next
  case (2 pre v t t')
  then obtain ls r where ls: "t = log_of ls" "length ls = length pre" "\<forall>l\<in>set ls. line_ok l" "honest js sha [] ls r" by blast
  have "has_data v \<and> faithful 127 v" using assms(3) 2(2) by blast
  from append_honest [OF assms(1,2) this ls(4,3)] 2(4) ls(1)
  obtain l r' where "t' = log_of (ls @ [l])" "line_ok l" "honest js sha [] (ls @ [l]) r'" by blast
  then show ?case using ls(2,3) by (intro exI [of _ "ls @ [l]"] exI [of _ r']) simp
qed

section \<open>What the chain shows\<close>

lemma attempt_assoc: "attempt (attempt r f) g = attempt r (\<lambda>x. attempt (f x) g)"
  by (cases r) simp_all

lemma each_try_append: "each_try f (xs @ ys) s = attempt (each_try f xs s) (each_try f ys)"
proof (induction xs arbitrary: s)
  case (Cons x xs)
  then show ?case by (cases "f x s") simp_all
qed simp

text \<open>C10: A log that only grew by appending events, each with an object of data and of values that
  serde_json keeps (no floating-point numbers, at most 127 levels deep), and whose lines read as
  event records, verifies as a whole:
  every entry is recorded and verified, none is reported as tampered with. So does what is left
  of it, at least one event, after the others were cut off its end: the chain alone does not show that
  events are missing.\<close>

theorem appended_log_verifies:
  assumes "hex_digest sha" "written_lines js" "\<forall>v\<in>set (es @ lost). has_data v \<and> faithful 127 v" "es \<noteq> []"
    "each_try (append_event_record js sha) es [] = Inr log" "each_try (append_event_record js sha) lost log = Inr full"
    "parse_event_jsonl js log = Inr events" "parse_event_jsonl js full = Inr all_events"
  shows "(\<exists>rest. full = log @ rest) \<and>
    (\<exists>sm entries. build_evidence_chain js sha log events = Inr (sm, entries) \<and> integrity_status sm = ''verified'' \<and>
       entry_count sm = length es \<and> verified_count sm = length es \<and> tamper_detected_count sm = 0) \<and>
    (\<exists>sm entries. build_evidence_chain js sha full all_events = Inr (sm, entries) \<and> integrity_status sm = ''verified'' \<and>
       entry_count sm = length (es @ lost) \<and> verified_count sm = length (es @ lost) \<and> tamper_detected_count sm = 0)"
proof (intro conjI)
  have verifies: "\<exists>sm entries. build_evidence_chain js sha c rs = Inr (sm, entries) \<and> integrity_status sm = ''verified'' \<and>
       entry_count sm = length vs \<and> verified_count sm = length vs \<and> tamper_detected_count sm = 0"
    if vs: "\<forall>v\<in>set vs. has_data v \<and> faithful 127 v" "vs \<noteq> []" "each_try (append_event_record js sha) vs [] = Inr c" "parse_event_jsonl js c = Inr rs"
    for vs c rs
  proof -
    obtain ls r where ls: "c = log_of ls" "length ls = length vs" "\<forall>l\<in>set ls. line_ok l" "honest js sha [] ls r"
      using appended_honest [OF assms(1,2) vs(1,3)] by blast
    have "length ls \<le> length rs" using parsed_length [OF vs(4)] lines_log(2) [OF ls(3)] ls(1) by simp
    moreover have "ls \<noteq> []" using ls(2) vs(2) by auto
    ultimately show ?thesis using honest_summary [OF assms(1) ls(4,3), of rs] ls(1,2) by fastforce
  qed
  have both: "each_try (append_event_record js sha) (es @ lost) [] = Inr full"
    unfolding each_try_append assms(5) attempt.simps by (rule assms(6))
  show "\<exists>sm entries. build_evidence_chain js sha log events = Inr (sm, entries) \<and> integrity_status sm = ''verified'' \<and>
       entry_count sm = length es \<and> verified_count sm = length es \<and> tamper_detected_count sm = 0"
    by (rule verifies) (use assms in auto)
  show "\<exists>sm entries. build_evidence_chain js sha full all_events = Inr (sm, entries) \<and> integrity_status sm = ''verified'' \<and>
       entry_count sm = length (es @ lost) \<and> verified_count sm = length (es @ lost) \<and> tamper_detected_count sm = 0"
    by (rule verifies) (use assms both in auto)
  show "\<exists>rest. full = log @ rest"
  proof (rule each_try_inv [OF assms(6), where I = "\<lambda>_ c. \<exists>rest. c = log @ rest"])
    fix pre v t t' assume "\<exists>rest. t = log @ rest" "append_event_record js sha v t = Inr t'"
    then show "\<exists>rest. t' = log @ rest" by (auto simp: append_event_record_def split: if_splits)
  qed simp
qed

text \<open>The texts the events hash to.\<close>

fun canonical_texts :: "'n event_json \<Rightarrow> nat \<Rightarrow> string list \<Rightarrow> string list option" where
  "canonical_texts js i [] = Some []"
| "canonical_texts js i (l # ls) =
     Option.bind (ej_read js (if i = 0 then strip_bom l else l)) (\<lambda>v.
       Option.bind (ej_write js (strip_chain v)) (\<lambda>s. map_option ((#) s) (canonical_texts js (i + 1) ls)))"

fun chain_root :: "(string \<Rightarrow> string) \<Rightarrow> string \<Rightarrow> string list \<Rightarrow> string" where
  "chain_root sha p [] = p"
| "chain_root sha p (s # ss) = chain_root sha (evidence_chain_hash sha p (sha s)) ss"

lemma chain_entries_root:
  "chain_entries js sha events i p ls = Inr (es, r) \<Longrightarrow>
    \<exists>ss. canonical_texts js i ls = Some ss \<and> r = chain_root sha p ss"
proof (induction ls arbitrary: i p es)
  case (Cons l ls)
  then obtain v s es' where v: "ej_read js (if i = 0 then strip_bom l else l) = Some v" "ej_write js (strip_chain v) = Some s"
    "chain_entries js sha events (i + 1) (evidence_chain_hash sha p (sha s)) ls = Inr (es', r)"
    unfolding chain_entries.simps by (auto simp: evidence_event_hash_def Let_def simp del: chain_entries.simps)
  from Cons.IH [OF v(3)] obtain ss where "canonical_texts js (i + 1) ls = Some ss"
    "r = chain_root sha (evidence_chain_hash sha p (sha s)) ss" by blast
  then show ?case unfolding canonical_texts.simps v(1) bind.bind_lunit v(2) by simp
qed simp

lemma chain_root_snoc: "chain_root sha p (ss @ [s]) = evidence_chain_hash sha (chain_root sha p ss) (sha s)"
  by (induction ss arbitrary: p) simp_all

lemma while_before: "c \<notin> set x \<Longrightarrow> takeWhile (\<lambda>y. y \<noteq> c) (x @ c # z) = x \<and> dropWhile (\<lambda>y. y \<noteq> c) (x @ c # z) = c # z"
  by (induction x) auto

lemma split_at_last:
  assumes "p @ c # e = q @ c # f" "c \<notin> set e" "c \<notin> set f"
  shows "p = q \<and> e = f"
proof -
  have r: "rev e @ c # rev p = rev f @ c # rev q" using arg_cong [OF assms(1), of rev] by simp
  have e: "c \<notin> set (rev e)" "c \<notin> set (rev f)" using assms(2,3) by simp_all
  have "rev e = rev f" using while_before [OF e(1), of "rev p"] while_before [OF e(2), of "rev q"] unfolding r by simp
  moreover have "rev p = rev q" using while_before [OF e(1), of "rev p"] while_before [OF e(2), of "rev q"] unfolding r by simp
  ultimately show ?thesis by simp
qed

text \<open>The texts hashed on the way: each event, and the hash before it with its own.\<close>

fun chain_inputs :: "(string \<Rightarrow> string) \<Rightarrow> string \<Rightarrow> string list \<Rightarrow> string list" where
  "chain_inputs sha p [] = []"
| "chain_inputs sha p (s # ss) =
     s # (p @ line_end # sha s) # chain_inputs sha (evidence_chain_hash sha p (sha s)) ss"

definition same_digest :: "(string \<Rightarrow> string) \<Rightarrow> string list \<Rightarrow> string list \<Rightarrow> bool" where
  "same_digest sha xs ys = (\<exists>x\<in>set xs. \<exists>y\<in>set ys. x \<noteq> y \<and> sha x = sha y)"

lemma chain_inputs_snoc:
  "chain_inputs sha p (ss @ [s]) = chain_inputs sha p ss @ [s, chain_root sha p ss @ line_end # sha s]"
  by (induction ss arbitrary: p) simp_all

lemma same_digest_snoc:
  "same_digest sha (chain_inputs sha p ss) (chain_inputs sha p ts) \<Longrightarrow>
    same_digest sha (chain_inputs sha p (ss @ [s])) (chain_inputs sha p (ts @ [t]))"
  unfolding same_digest_def chain_inputs_snoc by auto

lemma chain_root_injective:
  assumes "hex_digest sha" "chain_root sha [] ss = chain_root sha [] ts"
  shows "ss = ts \<or> same_digest sha (chain_inputs sha [] ss) (chain_inputs sha [] ts)"
  using assms(2)
proof (induction ss arbitrary: ts rule: rev_induct)
  case Nil
  then show ?case using hex_nonempty [OF assms(1)]
    by (cases ts rule: rev_cases) (simp_all add: chain_root_snoc evidence_chain_hash_def)
next
  case (snoc s ss)
  show ?case
  proof (cases ts rule: rev_cases)
    case Nil
    then show ?thesis using snoc.prems hex_nonempty [OF assms(1)] by (simp add: chain_root_snoc evidence_chain_hash_def)
  next
    case ts: (snoc us u)
    let ?x = "chain_root sha [] ss @ line_end # sha s" and ?y = "chain_root sha [] us @ line_end # sha u"
    have eq: "sha ?x = sha ?y" using snoc.prems ts by (simp add: chain_root_snoc evidence_chain_hash_def)
    have inputs: "{s, ?x} \<subseteq> set (chain_inputs sha [] (ss @ [s]))" "{u, ?y} \<subseteq> set (chain_inputs sha [] (us @ [u]))"
      by (simp_all add: chain_inputs_snoc)
    consider "?x \<noteq> ?y" | "?x = ?y" "s \<noteq> u" | "?x = ?y" "s = u" by blast
    then show ?thesis
    proof cases
      case 1
      then show ?thesis unfolding ts same_digest_def using eq inputs by blast
    next
      case 2
      have "sha s = sha u" using split_at_last [OF 2(1) trim_id_hex(2) [OF assms(1)] trim_id_hex(2) [OF assms(1)]] by blast
      then show ?thesis unfolding ts same_digest_def using 2(2) inputs by blast
    next
      case 3
      have "chain_root sha [] ss = chain_root sha [] us"
        using split_at_last [OF 3(1) trim_id_hex(2) [OF assms(1)] trim_id_hex(2) [OF assms(1)]] by blast
      from snoc.IH [OF this] show ?thesis unfolding ts 3(2) using same_digest_snoc by auto
    qed
  qed
qed

lemma built_root:
  assumes "build_evidence_chain js sha c rs = Inr (s, es)"
  shows "\<exists>ss. canonical_texts js 0 (filter (\<lambda>l. trim l \<noteq> []) (text_lines c)) = Some ss \<and> root_hash s = chain_root sha [] ss"
proof -
  obtain es' r where r: "chain_entries js sha rs 0 [] (filter (\<lambda>l. trim l \<noteq> []) (text_lines c)) = Inr (es', r)" "s = summarize es' r"
    using assms by (auto simp: build_evidence_chain_def)
  have "root_hash s = r" using r(2) by (simp add: summarize_def Let_def)
  with chain_entries_root [OF r(1)] show ?thesis by simp
qed

text \<open>C11: The root hash fixes the log: two logs with the same root hash have the same events in the
  same order, as the texts they hash to (each without its place in the chain), unless two
  different texts hashed on the way, one for each log, have the same SHA-256 digest. The texts
  hashed on the way are the events and, for each, the hash before it with its own.\<close>

theorem root_hash_fixes_events:
  assumes "hex_digest sha" "build_evidence_chain js sha log events = Inr (sm, entries)"
    "build_evidence_chain js sha log' events' = Inr (sm', entries')" "root_hash sm = root_hash sm'"
  shows "\<exists>ss ts. canonical_texts js 0 (filter (\<lambda>l. trim l \<noteq> []) (text_lines log)) = Some ss \<and>
    canonical_texts js 0 (filter (\<lambda>l. trim l \<noteq> []) (text_lines log')) = Some ts \<and>
    (ss = ts \<or> (\<exists>x\<in>set (chain_inputs sha [] ss). \<exists>y\<in>set (chain_inputs sha [] ts). x \<noteq> y \<and> sha x = sha y))"
proof -
  obtain ss where ss: "canonical_texts js 0 (filter (\<lambda>l. trim l \<noteq> []) (text_lines log)) = Some ss" "root_hash sm = chain_root sha [] ss"
    using built_root [OF assms(2)] by (elim exE conjE)
  obtain ts where ts: "canonical_texts js 0 (filter (\<lambda>l. trim l \<noteq> []) (text_lines log')) = Some ts" "root_hash sm' = chain_root sha [] ts"
    using built_root [OF assms(3)] by (elim exE conjE)
  have "chain_root sha [] ss = chain_root sha [] ts" using assms(4) unfolding ss(2) ts(2) .
  from chain_root_injective [OF assms(1) this] show ?thesis
    unfolding same_digest_def by (intro exI conjI) (rule ss(1), rule ts(1), assumption)
qed

section \<open>What is reported in error\<close>

lemma split_on_nonempty [simp]: "split_on c s \<noteq> []"
  by (induction s) (auto split: list.splits)

lemma split_on_append: "split_on c (s @ c # t) = split_on c s @ split_on c t"
  by (induction s) (auto split: list.splits)

lemma split_no: "c \<notin> set l \<Longrightarrow> split_on c l = [l]"
  by (induction l) auto

text \<open>A line added to a log that ends with a line end.\<close>

lemma lines_append:
  assumes "line_ok l" "c = [] \<or> last c = line_end"
  shows "filter (\<lambda>l. trim l \<noteq> []) (text_lines (c @ l @ [line_end])) = filter (\<lambda>l. trim l \<noteq> []) (text_lines c) @ [l]"
proof -
  have l: "line_end \<notin> set l" "trim l \<noteq> []" "strip_cr l = l" using assms(1) by (simp_all add: line_ok_def)
  show ?thesis
  proof (cases c rule: rev_cases)
    case Nil
    then show ?thesis using l split_line [OF l(1), of "[]"] by (simp add: text_lines_def line_end_def)
  next
    case (snoc c0 x)
    then have "split_on line_end c = split_on line_end c0 @ [[]]"
      "split_on line_end (c @ l @ [line_end]) = split_on line_end c0 @ [l, []]"
      using assms(2) split_on_append [of line_end c0] split_line [OF l(1), of "[]"] by auto
    then show ?thesis using l(2,3) by (simp add: text_lines_def line_end_def butlast_append)
  qed
qed

text \<open>The loop over a log and more lines, and over the same lines with other typed records.\<close>

lemma chain_entries_step:
  assumes "chain_entries js sha events i p (l # ls) = Inr (es, r)"
  obtains v s e es' where "ej_read js (if i = 0 then strip_bom l else l) = Some v" "ej_write js (strip_chain v) = Some s"
    "i < length events" "chain_entries js sha events (i + 1) (evidence_chain_hash sha p (sha s)) ls = Inr (es', r)" "es = e # es'"
    "\<And>ks es''. chain_entries js sha events (i + 1) (evidence_chain_hash sha p (sha s)) ks = Inr es'' \<Longrightarrow>
      chain_entries js sha events i p (l # ks) = Inr (e # fst es'', snd es'')"
  using assms unfolding chain_entries.simps
  by (auto simp: evidence_event_hash_def Let_def split: if_splits simp del: chain_entries.simps)

lemma chain_entries_append:
  assumes "chain_entries js sha events i p ls = Inr (es, q)" "chain_entries js sha events (i + length ls) q ks = Inr (es', r)"
  shows "chain_entries js sha events i p (ls @ ks) = Inr (es @ es', r)"
  using assms
proof (induction ls arbitrary: i p es)
  case (Cons l ls)
  from Cons.prems(1) obtain v s e es1 where v:
    "chain_entries js sha events (i + 1) (evidence_chain_hash sha p (sha s)) ls = Inr (es1, q)" "es = e # es1"
    "\<And>ks es''. chain_entries js sha events (i + 1) (evidence_chain_hash sha p (sha s)) ks = Inr es'' \<Longrightarrow>
      chain_entries js sha events i p (l # ks) = Inr (e # fst es'', snd es'')"
    by (rule chain_entries_step) (rule that)
  have "chain_entries js sha events (i + 1) (evidence_chain_hash sha p (sha s)) (ls @ ks) = Inr (es1 @ es', r)"
    by (rule Cons.IH [OF v(1)]) (use Cons.prems(2) in simp)
  from v(3) [OF this] show ?case by (simp add: v(2) del: chain_entries.simps)
qed simp

lemma chain_entries_events:
  assumes "chain_entries js sha events i p ls = Inr (es, r)" "i + length ls \<le> length events'"
  shows "\<exists>es'. chain_entries js sha events' i p ls = Inr (es', r)"
  using assms
proof (induction ls arbitrary: i p es)
  case (Cons l ls)
  then obtain v s es1 where v: "ej_read js (if i = 0 then strip_bom l else l) = Some v" "ej_write js (strip_chain v) = Some s"
    "chain_entries js sha events (i + 1) (evidence_chain_hash sha p (sha s)) ls = Inr (es1, r)"
    unfolding chain_entries.simps by (auto simp: evidence_event_hash_def Let_def simp del: chain_entries.simps)
  have "i + 1 + length ls \<le> length events'" "i < length events'" using Cons.prems(2) by simp_all
  with Cons.IH [OF v(3)] obtain es2 where "chain_entries js sha events' (i + 1) (evidence_chain_hash sha p (sha s)) ls = Inr (es2, r)"
    by blast
  with \<open>i < length events'\<close> show ?case unfolding chain_entries.simps v(1)
    by (simp add: evidence_event_hash_def v(2) Let_def del: chain_entries.simps)
qed simp

lemma append_parts:
  assumes "append_event_record js sha v content = Inr log" "content = [] \<or> last content = line_end"
    "ej_write js (strip_chain v) = Some s"
  obtains records sm es v' line where "parse_event_jsonl js content = Inr records"
    "build_evidence_chain js sha content records = Inr (sm, es)"
    "seal_event (chain_object (root_hash sm) (sha s) (evidence_chain_hash sha (root_hash sm) (sha s))) v = Inr v'"
    "ej_write js v' = Some line" "log = content @ line @ [line_end]"
  using assms by (auto simp: append_event_record_def attach_evidence_chain_to_event_def evidence_event_hash_def Let_def split: if_splits)

text \<open>C40: An event that is appended without a \<open>data\<close> field, to any log that ends with a line end, is
  reported as tampered with as soon as the log is read, though nothing was changed, and with it the
  whole log: sealing adds the field, and reading takes only the place in the chain out again, so
  the event hashes to the text with an empty object of data (\<open>s\<close>), not to the one that was
  recorded (\<open>s0\<close>). That the two texts have different digests is assumed of them alone.\<close>

theorem missing_data_looks_tampered:
  assumes "hex_digest sha" "written_lines js" "faithful 127 (JObject m)" "map_of m ''data'' = None"
    "content = [] \<or> last content = line_end" "append_event_record js sha (JObject m) content = Inr log"
    "parse_event_jsonl js log = Inr events" "ej_write js (JObject m) = Some s0"
    "ej_write js (JObject (tree_insert ''data'' (JObject []) m)) = Some s" "sha s0 \<noteq> sha s"
  shows "\<exists>sm entries. build_evidence_chain js sha log events = Inr (sm, entries) \<and> integrity_status sm = ''tamper_detected'' \<and>
    entries \<noteq> [] \<and> ce_status (last entries) = ''tamper_detected'' \<and> ce_recorded_event (last entries) = sha s0 \<and>
    ce_event_hash (last entries) = sha s"
proof -
  have strip0: "strip_chain (JObject m) = JObject m" using assms(4) by (simp add: strip_chain_def)
  obtain records sm0 es0 v' line where a: "parse_event_jsonl js content = Inr records"
    "build_evidence_chain js sha content records = Inr (sm0, es0)"
    "seal_event (chain_object (root_hash sm0) (sha s0) (evidence_chain_hash sha (root_hash sm0) (sha s0))) (JObject m) = Inr v'"
    "ej_write js v' = Some line" "log = content @ line @ [line_end]"
    using append_parts [OF assms(6,5), unfolded strip0, OF assms(8)] .
  let ?p = "root_hash sm0" let ?c = "chain_object ?p (sha s0) (evidence_chain_hash sha ?p (sha s0))"
  let ?ls = "filter (\<lambda>l. trim l \<noteq> []) (text_lines content)"
  have "faithful 127 v'" by (rule faithful_seal [OF assms(3) _ a(3)]) simp
  then have line: "line_ok line" "ej_read js line = Some v'" using assms(2) a(4) by (auto simp: written_lines_def)
  have "v' = JObject (tree_insert ''data'' (JObject [(''evidence_chain'', ?c)]) m)"
    using a(3) assms(4) by (simp add: seal_event_def)
  then have "strip_chain v' = JObject (tree_insert ''data'' (JObject []) m)"
    by (simp add: strip_chain_def tree_insert_twice tree_remove_def)
  then have hash: "evidence_event_hash js sha v' = Inr (sha s)" using assms(9) by (simp add: evidence_event_hash_def)
  have lines: "filter (\<lambda>l. trim l \<noteq> []) (text_lines log) = ?ls @ [line]" unfolding a(5) by (rule lines_append [OF line(1) assms(5)])
  have len: "length ?ls < length events" using parsed_length [OF assms(7)] lines by simp
  obtain es1 where "chain_entries js sha records 0 [] ?ls = Inr (es1, ?p)"
    using a(2) by (auto simp: build_evidence_chain_def summarize_def Let_def)
  from chain_entries_events [OF this] len obtain es where
    es: "chain_entries js sha events 0 [] ?ls = Inr (es, ?p)" by (metis add_0 less_imp_le)
  have bom: "(if length ?ls = 0 then strip_bom line else line) = line" using line(1) by (simp add: line_ok_def)
  have status: "evidence_integrity_status ?p (sha s) (evidence_chain_hash sha ?p (sha s))
      (evidence_chain_field v' ''previous_hash'') (evidence_chain_field v' ''event_hash'') (evidence_chain_field v' ''chain_hash'') = ''tamper_detected''"
    unfolding seal_fields [OF a(3)] using assms(10) trim_id_hex(1) [OF assms(1), of s0] by (simp add: evidence_integrity_status_def)
  obtain e where e: "chain_entries js sha events (0 + length ?ls) ?p [line] = Inr ([e], evidence_chain_hash sha ?p (sha s))"
    "ce_status e = ''tamper_detected''" "ce_recorded_event e = sha s0" "ce_event_hash e = sha s"
    unfolding add_0 chain_entries.simps bom line(2) using len hash status seal_fields(2) [OF a(3)] by (simp add: Let_def)
  have all: "chain_entries js sha events 0 [] (?ls @ [line]) = Inr (es @ [e], evidence_chain_hash sha ?p (sha s))"
    by (rule chain_entries_append [OF es e(1)])
  have "integrity_status (summarize (es @ [e]) (evidence_chain_hash sha ?p (sha s))) = ''tamper_detected''"
    using e(2) by (simp add: summarize_def Let_def)
  then show ?thesis using e(2-4) unfolding build_evidence_chain_def lines all by simp
qed

section \<open>Examples\<close>

text \<open>A digest that keeps the first 32 bytes of the text, and a writer that knows a few values.\<close>

definition demo_bytes :: "string \<Rightarrow> 8 word list" where
  "demo_bytes x = take 32 (map (\<lambda>c. word_of_nat (of_char c)) x @ replicate 32 0)"

abbreviation demo_digest :: "string \<Rightarrow> string" where
  "demo_digest \<equiv> sha256_hex demo_bytes"

definition demo_writer :: "(nat json \<times> string) list \<Rightarrow> nat event_json" where
  "demo_writer vs =
     \<lparr>ej_write = map_of vs, ej_read = map_of (map prod.swap vs),
      ej_record = (\<lambda>_. Some \<lparr>er_timestamp = ''now'', er_event = ''started''\<rparr>)\<rparr>"

definition demo_event :: "nat json" where
  "demo_event = JObject [(''data'', JObject [])]"

definition demo_sealed :: "string \<Rightarrow> nat json" where
  "demo_sealed p =
     JObject [(''data'', JObject [(''evidence_chain'',
       chain_object p (demo_digest ''e'') (evidence_chain_hash demo_digest p (demo_digest ''e'')))])]"

definition demo_root :: string where
  "demo_root = evidence_chain_hash demo_digest [] (demo_digest ''e'')"

lemma demo_digest_hex: "hex_digest demo_digest"
  by (rule sha256_hex_digest) (auto simp: demo_bytes_def min_def)

lemma demo_root_nonempty: "demo_root \<noteq> []" "[] \<noteq> demo_root"
  using hex_nonempty [OF demo_digest_hex] by (simp_all add: demo_root_def evidence_chain_hash_def)

lemma char_line: "line_ok [c]" if "\<not> is_space c" for c
  using that by (auto simp: line_ok_def trim_def line_end_def is_space_def strip_cr_def)

lemma demo_lines: "line_ok ''s''" "line_ok ''t''" "line_ok ''e''" "line_ok ''f''"
  by (rule char_line, simp add: is_space_def)+

lemma demo_writer_lines:
  assumes "distinct (map snd vs)" "\<forall>(v, s)\<in>set vs. line_ok s"
  shows "written_lines (demo_writer vs)"
  unfolding written_lines_def
proof (intro allI impI conjI; elim conjE)
  fix v s assume "ej_write (demo_writer vs) v = Some s"
  then have m: "(v, s) \<in> set vs" by (simp add: demo_writer_def map_of_SomeD)
  then show "line_ok s" using assms(2) by auto
  have "(s, v) \<in> set (map prod.swap vs)" using m by force
  moreover have "distinct (map fst (map prod.swap vs))" using assms(1) by (simp add: comp_def)
  ultimately show "ej_read (demo_writer vs) s = Some v" by (simp add: demo_writer_def)
qed

definition demo_json :: "nat event_json" where
  "demo_json = demo_writer [(demo_sealed [], ''s''), (demo_sealed demo_root, ''t''), (demo_event, ''e'')]"

lemma demo_json_ok: "written_lines demo_json"
  unfolding demo_json_def by (rule demo_writer_lines) (simp_all add: demo_lines)

lemma demo_differ:
  "demo_sealed p \<noteq> demo_event" "demo_event \<noteq> demo_sealed p" "demo_sealed [] \<noteq> demo_sealed demo_root" "demo_sealed demo_root \<noteq> demo_sealed []"
  using demo_root_nonempty by (simp_all add: demo_sealed_def demo_event_def chain_object_def)

lemma demo_event_ok: "has_data demo_event \<and> faithful 127 demo_event"
  by (simp add: has_data_def json_get_def demo_event_def)

lemma demo_hash: "evidence_event_hash demo_json demo_digest demo_event = Inr (demo_digest ''e'')"
  using demo_differ by (simp add: evidence_event_hash_def demo_json_def demo_writer_def strip_chain_def demo_event_def tree_remove_def)

lemma demo_seal:
  "seal_event (chain_object p (demo_digest ''e'') (evidence_chain_hash demo_digest p (demo_digest ''e''))) demo_event = Inr (demo_sealed p)"
  by (simp add: seal_event_def demo_event_def demo_sealed_def)

lemma demo_writes: "ej_write demo_json (demo_sealed []) = Some ''s''" "ej_write demo_json (demo_sealed demo_root) = Some ''t''"
  using demo_differ by (simp_all add: demo_json_def demo_writer_def)

lemma demo_parses: "\<exists>rs. parse_event_jsonl demo_json (log_of [''s'']) = Inr rs \<and> length rs = 1"
  "\<exists>rs. parse_event_jsonl demo_json (log_of [''s'', ''t'']) = Inr rs"
  using lines_log(1) [of "[''s'']"] lines_log(1) [of "[''s'', ''t'']"] demo_lines(1,2)
  by (simp_all add: parse_event_jsonl_def demo_json_def demo_writer_def validate_event_def line_ok_def trim_def is_space_def)

lemma demo_append: "append_event_record demo_json demo_digest demo_event [] = Inr (log_of [''s''])"
  by (simp add: append_event_record_def attach_evidence_chain_to_event_def parse_event_jsonl_def text_lines_def
      build_evidence_chain_def summarize_def demo_hash demo_seal demo_writes log_of_def Let_def)

lemma demo_honest: "honest demo_json demo_digest [] [''s''] demo_root"
proof -
  have "ej_read demo_json ''s'' = Some (demo_sealed [])" by (simp add: demo_json_def demo_writer_def)
  moreover have "strip_chain (demo_sealed []) = demo_event"
    by (simp add: strip_chain_def demo_sealed_def demo_event_def tree_remove_def)
  moreover have "ej_write demo_json demo_event = Some ''e''" using demo_differ by (simp add: demo_json_def demo_writer_def)
  ultimately show ?thesis using seal_fields [OF demo_seal [of "[]"]] by (simp add: demo_root_def)
qed

lemma demo_append_more: "append_event_record demo_json demo_digest demo_event (log_of [''s'']) = Inr (log_of [''s'', ''t''])"
proof -
  obtain rs where rs: "parse_event_jsonl demo_json (log_of [''s'']) = Inr rs" "length rs = 1" using demo_parses(1) by blast
  have "\<exists>sm es. build_evidence_chain demo_json demo_digest (log_of [''s'']) rs = Inr (sm, es) \<and> root_hash sm = demo_root"
    using honest_summary [OF demo_digest_hex demo_honest, of rs] demo_lines(1) rs(2) by auto
  then obtain sm es where sm: "build_evidence_chain demo_json demo_digest (log_of [''s'']) rs = Inr (sm, es)" "root_hash sm = demo_root"
    by blast
  have "attach_evidence_chain_to_event demo_json demo_digest (log_of [''s'']) demo_event = Inr (demo_sealed demo_root)"
    by (simp add: attach_evidence_chain_to_event_def rs(1) sm demo_hash Let_def demo_seal)
  then show ?thesis by (simp add: append_event_record_def demo_writes log_of_def)
qed

text \<open>One event is kept and one is lost.\<close>

theorem appended_log_verifies_witness:
  "\<exists>events all_events sm sm' entries entries'.
    append_event_record demo_json demo_digest demo_event (log_of [''s'']) = Inr (log_of [''s'', ''t'']) \<and>
    build_evidence_chain demo_json demo_digest (log_of [''s'']) events = Inr (sm, entries) \<and>
    integrity_status sm = ''verified'' \<and> entry_count sm = 1 \<and>
    build_evidence_chain demo_json demo_digest (log_of [''s'', ''t'']) all_events = Inr (sm', entries') \<and>
    integrity_status sm' = ''verified'' \<and> entry_count sm' = 2"
proof -
  obtain rs where r: "parse_event_jsonl demo_json (log_of [''s'']) = Inr rs" using demo_parses(1) by blast
  obtain qs where q: "parse_event_jsonl demo_json (log_of [''s'', ''t'']) = Inr qs" using demo_parses(2) by blast
  have d: "\<forall>v\<in>set ([demo_event] @ [demo_event]). has_data v \<and> faithful 127 v" using demo_event_ok by simp
  have a: "each_try (append_event_record demo_json demo_digest) [demo_event] [] = Inr (log_of [''s''])" by (simp add: demo_append)
  have b: "each_try (append_event_record demo_json demo_digest) [demo_event] (log_of [''s'']) = Inr (log_of [''s'', ''t''])"
    by (simp add: demo_append_more)
  have n: "[demo_event] \<noteq> []" by simp
  from appended_log_verifies [OF demo_digest_hex demo_json_ok d n a b r q]
  obtain sm entries sm' entries' where
    "build_evidence_chain demo_json demo_digest (log_of [''s'']) rs = Inr (sm, entries)"
    "integrity_status sm = ''verified''" "entry_count sm = length [demo_event]"
    "build_evidence_chain demo_json demo_digest (log_of [''s'', ''t'']) qs = Inr (sm', entries')"
    "integrity_status sm' = ''verified''" "entry_count sm' = length ([demo_event] @ [demo_event])"
    by (elim conjE exE)
  moreover from this(3,6) have "entry_count sm = 1" "entry_count sm' = 2" by simp_all
  ultimately show ?thesis using demo_append_more by blast
qed

lemma blank_first: "filter (\<lambda>l. trim l \<noteq> []) (text_lines (line_end # log_of [''s''])) = filter (\<lambda>l. trim l \<noteq> []) (text_lines (log_of [''s'']))"
  by (simp add: text_lines_def log_of_def line_end_def trim_def is_space_def strip_cr_def)

lemma demo_texts: "canonical_texts demo_json 0 (filter (\<lambda>l. trim l \<noteq> []) (text_lines (log_of [''s'']))) = Some [''e'']"
  using lines_log(2) [of "[''s'']"] demo_lines(1) demo_differ
  by (simp add: demo_json_def demo_writer_def line_ok_def strip_chain_def demo_sealed_def demo_event_def tree_remove_def)

lemma demo_no_clash: "demo_digest ''e'' \<noteq> demo_digest ([] @ line_end # demo_digest ''e'')"
  "demo_digest ([] @ line_end # demo_digest ''e'') \<noteq> demo_digest ''e''"
  by (simp_all add: sha256_hex_def demo_bytes_def hex_nibble_def line_end_def)

text \<open>
  A blank line does not change the events; no two of the texts hashed for these logs have the same
  digest.
\<close>

theorem root_hash_fixes_events_witness:
  "\<exists>ss ts. canonical_texts demo_json 0 (filter (\<lambda>l. trim l \<noteq> []) (text_lines (log_of [''s'']))) = Some ss \<and>
    canonical_texts demo_json 0 (filter (\<lambda>l. trim l \<noteq> []) (text_lines (line_end # log_of [''s'']))) = Some ts \<and> ss = ts \<and> ss = [''e''] \<and>
    \<not> (\<exists>x\<in>set (chain_inputs demo_digest [] ss). \<exists>y\<in>set (chain_inputs demo_digest [] ts). x \<noteq> y \<and> demo_digest x = demo_digest y)"
proof -
  obtain rs where r: "parse_event_jsonl demo_json (log_of [''s'']) = Inr rs" "length rs = 1" using demo_parses(1) by blast
  obtain sm es where b: "build_evidence_chain demo_json demo_digest (log_of [''s'']) rs = Inr (sm, es)"
    using honest_summary [OF demo_digest_hex demo_honest, of rs] demo_lines(1) r(2) by auto
  have b': "build_evidence_chain demo_json demo_digest (line_end # log_of [''s'']) rs = Inr (sm, es)"
    using b unfolding build_evidence_chain_def blank_first .
  have apart: "\<not> (\<exists>x\<in>set (chain_inputs demo_digest [] [''e'']). \<exists>y\<in>set (chain_inputs demo_digest [] [''e'']). x \<noteq> y \<and> demo_digest x = demo_digest y)"
    using demo_no_clash by simp
  have t': "canonical_texts demo_json 0 (filter (\<lambda>l. trim l \<noteq> []) (text_lines (line_end # log_of [''s'']))) = Some [''e'']"
    unfolding blank_first by (rule demo_texts)
  from root_hash_fixes_events [OF demo_digest_hex b b' refl] obtain ss ts where
    "canonical_texts demo_json 0 (filter (\<lambda>l. trim l \<noteq> []) (text_lines (log_of [''s'']))) = Some ss"
    "canonical_texts demo_json 0 (filter (\<lambda>l. trim l \<noteq> []) (text_lines (line_end # log_of [''s'']))) = Some ts"
    "ss = ts \<or> (\<exists>x\<in>set (chain_inputs demo_digest [] ss). \<exists>y\<in>set (chain_inputs demo_digest [] ts). x \<noteq> y \<and> demo_digest x = demo_digest y)"
    by (elim exE conjE)
  moreover from this(1,2) have "ss = [''e'']" "ts = [''e'']" using t' demo_texts by simp_all
  ultimately show ?thesis using apart by blast
qed

definition bare_json :: "nat event_json" where
  "bare_json = demo_writer [(demo_sealed [], ''s''), (demo_event, ''f''), (JObject [], ''e'')]"

lemma demo_other_clash: "demo_digest ''e'' \<noteq> demo_digest ''f''"
  by (simp add: sha256_hex_def demo_bytes_def hex_nibble_def)

theorem missing_data_looks_tampered_witness:
  "\<exists>log events sm entries. append_event_record bare_json demo_digest (JObject []) [] = Inr log \<and>
    build_evidence_chain bare_json demo_digest log events = Inr (sm, entries) \<and> integrity_status sm = ''tamper_detected''"
proof -
  have w: "written_lines bare_json"
    unfolding bare_json_def by (rule demo_writer_lines) (simp_all add: demo_lines)
  have d: "demo_sealed [] \<noteq> JObject []" "JObject [] \<noteq> demo_sealed []" "demo_event \<noteq> JObject []" "JObject [] \<noteq> demo_event"
    by (simp_all add: demo_sealed_def demo_event_def)
  have e0: "ej_write bare_json (JObject []) = Some ''e''" using d by (simp add: bare_json_def demo_writer_def)
  have seal: "seal_event (chain_object [] (demo_digest ''e'') (evidence_chain_hash demo_digest [] (demo_digest ''e''))) (JObject []) = Inr (demo_sealed [])"
    by (simp add: seal_event_def demo_sealed_def)
  have es: "ej_write bare_json (demo_sealed []) = Some ''s''" by (simp add: bare_json_def demo_writer_def)
  have h: "evidence_event_hash bare_json demo_digest (JObject []) = Inr (demo_digest ''e'')"
    by (simp add: evidence_event_hash_def strip_chain_def e0)
  have a: "append_event_record bare_json demo_digest (JObject []) [] = Inr (log_of [''s''])"
    by (simp add: append_event_record_def attach_evidence_chain_to_event_def parse_event_jsonl_def text_lines_def
      build_evidence_chain_def summarize_def h seal es log_of_def Let_def)
  obtain r where r: "parse_event_jsonl bare_json (log_of [''s'']) = Inr [r]"
    using lines_log(1) [of "[''s'']"] demo_lines(1)
    by (simp add: parse_event_jsonl_def bare_json_def demo_writer_def validate_event_def line_ok_def trim_def is_space_def)
  have e: "ej_write bare_json (JObject (tree_insert ''data'' (JObject []) [])) = Some ''f''"
    using demo_differ by (simp add: bare_json_def demo_writer_def demo_event_def)
  have f: "faithful 127 (JObject [])" "map_of [] ''data'' = None" "([] :: string) = [] \<or> last ([] :: string) = line_end" by simp_all
  from missing_data_looks_tampered [OF demo_digest_hex w f a r e0 e demo_other_clash] a show ?thesis by blast
qed

end
