(* ===== verification/Spec2Isabelle.thy ===== *)
theory Spec2Isabelle
  imports Focus_Props Layout_Props Host_Props Wire_Props Graph_Spans Vt_Alternate Workflow_Plans
    Key_Clipboard Key_Trips Paste_Props
    Copy_Panes Copy_Safety Copy_Failures Relay_Props Evidence_Props
begin

text \<open>
  A verification development for winsmux, a terminal multiplexer for agents at work side by
  side: a server keeps sessions of windows, a window is a tree of panes, each pane runs a
  program in a terminal emulator of its own. Around it stand a registry of trusted SSH hosts, a
  helper that runs on such a host and speaks a protocol of frames over its standard streams,
  workspace plans and workflows that say which agents work in which panes and in what order,
  and a renderer of git graphs.

  \<^bold>\<open>The theories, and what they model\<close> (paths under \<open>src/\<close>).

  \<^item> \<^bold>\<open>Prelude\<close>, \<^bold>\<open>Text\<close>, \<^bold>\<open>Ordered\<close>: what the components share. \<open>Prelude\<close> has the arithmetic of
    \<open>u16\<close>, \<open>u32\<close> and \<open>usize\<close> on naturals with the wrap-around, saturation or panic of each
    operation written out, indexed access that fails, and the locale \<open>safe_machine\<close> of a machine
    whose steps keep an invariant and never panic. \<open>Text\<close> has the string functions of Rust's
    library on lists of bytes. \<open>Ordered\<close> has \<open>BTreeMap\<close> and \<open>BTreeSet\<close> as sorted lists, and the
    result type with its question mark.

  \<^item> \<^bold>\<open>Pane_Tree\<close>, \<^bold>\<open>Pane_Paths\<close>, \<^bold>\<open>Pane_Edits\<close>, \<^bold>\<open>Pane_Geometry\<close>: the pane tree of
    \<open>core/src/tree.rs\<close> and its types. \<open>Pane_Tree\<close> has the searches and edits, \<open>Pane_Geometry\<close> the
    division of an area among the panes, the borders and their resizing. A tree is abstracted to
    the list of its panes with their paths; the lemmas say what each edit does to that list,
    that edits keep trees well formed, that the rectangles partition the area.

  \<^item> \<^bold>\<open>Windows\<close>, \<^bold>\<open>Window_Ops\<close>, \<^bold>\<open>Window_Props\<close>, \<^bold>\<open>Window_Edits\<close>, \<^bold>\<open>Focus_Props\<close>: the windows of the
    server in \<open>core/src/window_ops.rs\<close>, \<open>pane.rs\<close>, \<open>shell_lifecycle.rs\<close> and \<open>input.rs\<close>: zoom,
    resizing, rotation, breaking a pane out, killing, reaping, the focus after a pane has gone
    and the spatial navigation.

  \<^item> \<^bold>\<open>Layouts\<close>, \<^bold>\<open>Layout_Props\<close>: named layouts, the printer and the parser of layout strings of
    \<open>core/src/layout.rs\<close> and \<open>format.rs\<close>. The parser runs with fuel, the bytes of the string plus
    one, which is proved to be enough; what it prints it reads back.

  \<^item> \<^bold>\<open>Vt_Attrs\<close>, \<^bold>\<open>Vt_Cells\<close>, \<^bold>\<open>Vt_Grid\<close>, \<^bold>\<open>Vt_Screen\<close> and their \<open>_Props\<close>, \<^bold>\<open>Vt_History\<close>, \<^bold>\<open>Vt_Alternate\<close>:
    the terminal emulator \<open>core/crates/vt100-winsmux\<close>, from the flags of a cell to the dispatch
    of every event of a program's output. Flag bytes and cell lengths are 8-bit words. The
    invariant \<open>screen_ok\<close> holds the two halves of wide characters together, keeps cursors inside
    and cells valid UTF-8; on it rests that no output makes the emulator panic.

  \<^item> \<^bold>\<open>Host_Trust\<close>, \<^bold>\<open>Host_Props\<close>: the trust record of an OpenSSH alias,
    \<open>core/src/host_profile.rs\<close>: how the alias is resolved, which fingerprint the known_hosts files
    present, the commands that register, confirm and block. A file may be unreadable, and a write
    may fail before the file is touched or after it was truncated; a record cut short is one that
    no command accepts.

  \<^item> \<^bold>\<open>Wire\<close>, \<^bold>\<open>Wire_Props\<close>: the protocol of the remote helper,
    \<open>core/crates/winsmux-remote-helper/src/lib.rs\<close>: messages, their limits, frames, base64, the
    negotiation and the server loop, which ends because every step takes input.

  \<^item> \<^bold>\<open>Recipe\<close>, \<^bold>\<open>Recipe_Props\<close>, \<^bold>\<open>Workflow\<close>, \<^bold>\<open>Workflow_Props\<close>, \<^bold>\<open>Workflow_Plans\<close>: workspace plans and
    workflows, \<open>core/src/workspace_recipe.rs\<close> and \<open>workflow.rs\<close>. Kahn's algorithm is shown to be
    the greedy choice of the least node that can go next; it terminates because every step
    takes one off the sum of degrees and ready nodes (\<open>load\<close>).

  \<^item> \<^bold>\<open>Graph\<close>, \<^bold>\<open>Graph_Props\<close>, \<^bold>\<open>Graph_Spans\<close>: the git graph, \<open>git-graph/src\<close>: the log, the lanes, the
    spans and markers of the drawing.

  \<^item> \<^bold>\<open>Bytes\<close>, \<^bold>\<open>Utf8\<close>, \<^bold>\<open>Key_Input\<close>, \<^bold>\<open>Key_Parser\<close>, \<^bold>\<open>Key_Output\<close>, \<^bold>\<open>Key_Trips\<close>, \<^bold>\<open>Key_Clipboard\<close>, \<^bold>\<open>Paste\<close>,
    \<^bold>\<open>Paste_Props\<close>: keys, the mouse and pastes. \<open>Key_Input\<close> is the parser of console input of
    \<open>core/src/ssh_input.rs\<close> with its reader, \<open>Key_Output\<close> the encoding of keys, mouse reports and
    pastes for a program in \<open>core/src/input.rs\<close>, the base64 of \<open>util.rs\<close> and OSC 52, \<open>Paste\<close> the
    detector of bracketed pastes of \<open>app.rs\<close>. The lemmas: bounds of the parser's buffers and no
    panic, what is written for a program is read back, what the detector delivers.

  \<^item> \<^bold>\<open>Copy_Text\<close>, \<^bold>\<open>Copy_Mode\<close>, \<^bold>\<open>Copy_Yank\<close>, \<^bold>\<open>Copy_Keys\<close>: the copy mode of \<open>core/src/copy_mode.rs\<close>
    and its keys in \<open>input.rs\<close>, on the emulator's screens: the columns a motion computes in a row,
    the motions, selections and text objects, the yank, the captures and the search, the
    handlers of keys and texts. \<open>Copy_Demo\<close> has small servers for examples. \<open>Copy_Words\<close>,
    \<open>Copy_Brackets\<close>, \<open>Copy_History\<close>, \<open>Copy_Search\<close> and \<open>Copy_Panes\<close> say what the motions, the jump
    to a bracket, the yank, the search and the change of panes do; \<open>Copy_Cursor\<close> and
    \<open>Copy_Safety\<close> that every key keeps the cursor in the pane and cannot panic (an instance of
    \<open>safe_machine\<close>), \<open>Copy_Failures\<close> what happens where their conditions fail.

  \<^item> \<^bold>\<open>Relay\<close>, \<^bold>\<open>Relay_Props\<close>: the relay between the standard streams of the remote helper and its
    broker, \<open>relay_stdio\<close> of \<open>core/crates/winsmux-remote-helper/src/session.rs\<close>: a state machine
    whose turns take the results of their system calls. The reachable states are an inductive
    predicate; the invariant, an instance of \<open>safe_machine\<close>, says where every byte that was read is.

  \<^item> \<^bold>\<open>Evidence\<close>, \<^bold>\<open>Evidence_Props\<close>: the hash chain of the event log, \<open>core/src/ledger.rs\<close>,
    \<open>event_contract.rs\<close> and the writer of \<open>operator_cli.rs\<close>: reading, hashing, sealing and
    appending events, the verdict on a log, what it shows and what it does not.

  \<^bold>\<open>Conventions.\<close> A panic is the outer \<open>None\<close> of an option, an error of the code the \<open>Inl\<close> of a sum. A
  structure is a record with the fields the modelled code uses; identifiers are naturals, strings
  are lists of bytes taken to be ASCII where the code folds case or trims. A loop is a recursion
  with a proved measure; only the parser of layouts and the search in a row have fuel, both the length
  of the text plus one, which is enough as each step takes at least a byte.

  \<^bold>\<open>Parameters.\<close> Code of other packages is an argument, with what the program relies on as a
  hypothesis: the constructor of rectangles of ratatui, the wait on a child process, the results
  of \<open>poll\<close>, \<open>read\<close> and \<open>write\<close>, serde_json and serde_yaml (what a value reads as and is written as;
  the values themselves are the documented enum; that a value comes back is assumed only of those
  without floating-point numbers and within the reader's depth), SHA-256 (32 bytes, of which no
  freedom from collisions is assumed), the output of ssh and the files it names, the
  state machine of the vte parser (the emulator takes its events), the table of widths of
  unicode-width, the Unicode tables of letters and of lower case, and the user's key bindings.

  \<^bold>\<open>Not modelled.\<close> The server's sockets, the clients, the drawing with ratatui, the console and
  pseudo terminals of the operating systems, the desktop application and the text of messages are
  input and output. Of the modelled files are left out: the writers of escape codes of the
  emulator for whole screens and their differences, mouse handling, the JSON dump of a layout, the
  reading of repositories and the floating-point coordinates of the graph. Of the
  copy mode the capture with styles is left out. The broker behind the relay with its
  sessions, locks and process groups is calls of the operating system. The format language, the
  read models of the ledger and the documents of settings and contracts read and print
  documents of many fields through serde, and their model would be a list of them.
\<close>

end
